(* ===== verification/Prelude.thy ===== *)
theory Prelude
  imports Main "HOL-Library.Word" "HOL-Library.While_Combinator" "HOL-Library.Sublist"
begin

text \<open>
  Names, collections and generic lemmas that the component theories share.
  \<open>pass_simps\<close> collects the equations that compute a rewrite of an instruction list one
  instruction at a time, \<open>span_simps\<close> the facts on skipping a run of metadata instructions.
\<close>

named_theorems pass_simps "how a list rewrite treats the head of the list"
named_theorems span_simps "facts on takeWhile / dropWhile runs"

subsection \<open>Python values\<close>

text \<open>Strings are lists of characters; \<open>s.startswith(p)\<close> is \<open>starts_with p s\<close>.\<close>

definition starts_with :: "string \<Rightarrow> string \<Rightarrow> bool" where
  "starts_with p s \<longleftrightarrow> take (length p) s = p"

lemma starts_with_append [simp]: "starts_with p (p @ s)"
  by (simp add: starts_with_def)

text \<open>\<open>counts[k] = counts.get(k, 0) + 1\<close> over the elements of a list.\<close>

definition bump :: "('k \<Rightarrow> nat) \<Rightarrow> 'k \<Rightarrow> ('k \<Rightarrow> nat)" where
  "bump m k = m(k := Suc (m k))"

lemma foldl_bump: "foldl bump m ks k = m k + count_list ks k"
  by (induction ks arbitrary: m) (auto simp: bump_def)

lemma foldl_bump_zero: "foldl bump (\<lambda>_. 0) ks k = count_list ks k"
  by (simp add: foldl_bump)

lemma count_list_zero_iff: "count_list xs x = 0 \<longleftrightarrow> x \<notin> set xs"
  by (induction xs) auto

lemma count_list_pos_iff: "0 < count_list xs x \<longleftrightarrow> x \<in> set xs"
  using count_list_zero_iff [of xs x] by linarith

subsection \<open>Runs of list elements\<close>

lemma dropWhile_suffix_length: "length (dropWhile P xs) \<le> length xs"
  by (simp add: length_dropWhile_le)

lemma dropWhile_Cons_length [span_simps]:
  "dropWhile P xs = y # ys \<Longrightarrow> length ys < length xs"
  using length_dropWhile_le [of P xs] by simp

lemma takeWhile_dropWhile_eq [span_simps]:
  "dropWhile P xs = y # ys \<Longrightarrow> xs = takeWhile P xs @ y # ys"
  by (metis takeWhile_dropWhile_id)

lemma takeWhile_all [span_simps]: "x \<in> set (takeWhile P xs) \<Longrightarrow> P x"
  by (rule set_takeWhileD [THEN conjunct2])

lemma dropWhile_hd_not [span_simps]: "dropWhile P xs = y # ys \<Longrightarrow> \<not> P y"
  by (metis hd_dropWhile list.distinct(1) list.sel(1))

subsection \<open>Options\<close>

text \<open>Evaluate a list of optional results, all or nothing.\<close>

fun sequence_opt :: "'a option list \<Rightarrow> 'a list option" where
  "sequence_opt [] = Some []"
| "sequence_opt (None # xs) = None"
| "sequence_opt (Some x # xs) = map_option ((#) x) (sequence_opt xs)"

lemma sequence_opt_Some_iff:
  "sequence_opt xs = Some ys \<longleftrightarrow> xs = map Some ys"
proof (induction xs arbitrary: ys rule: sequence_opt.induct)
  case (3 x xs)
  then show ?case by (cases ys) auto
qed auto

lemma sequence_opt_length: "sequence_opt xs = Some ys \<Longrightarrow> length ys = length xs"
  by (simp add: sequence_opt_Some_iff)

lemma map_option_comp_Some: "map_option f x = Some y \<longleftrightarrow> (\<exists>z. x = Some z \<and> f z = y)"
  by (cases x) auto

subsection \<open>Partial maps\<close>

text \<open>\<open>agree_off D m m'\<close>: the two maps differ at most on the names in \<open>D\<close>.\<close>

definition agree_off :: "'a set \<Rightarrow> ('a \<rightharpoonup> 'b) \<Rightarrow> ('a \<rightharpoonup> 'b) \<Rightarrow> bool" where
  "agree_off D m m' \<longleftrightarrow> (\<forall>x. x \<notin> D \<longrightarrow> m x = m' x)"

lemma agree_off_refl [simp, intro]: "agree_off D m m"
  by (simp add: agree_off_def)

lemma agree_off_eq: "agree_off D m m' \<Longrightarrow> x \<notin> D \<Longrightarrow> m x = m' x"
  by (simp add: agree_off_def)

lemma agree_off_upd [intro]: "agree_off D m m' \<Longrightarrow> agree_off D (m(x := v)) (m'(x := v))"
  by (simp add: agree_off_def)

lemma agree_off_upd_left [intro]: "agree_off D m m' \<Longrightarrow> x \<in> D \<Longrightarrow> agree_off D (m(x := v)) m'"
  by (auto simp: agree_off_def)

lemma agree_off_empty [simp]: "agree_off {} m m' \<longleftrightarrow> m = m'"
  by (auto simp: agree_off_def)

lemma agree_off_restrict:
  "agree_off D m m' \<Longrightarrow> A \<inter> D = {} \<Longrightarrow> m |` A = m' |` A"
  by (auto simp: agree_off_def restrict_map_def fun_eq_iff)

lemma agree_off_map_add [intro]:
  "agree_off D m m' \<Longrightarrow> agree_off D (m ++ u) (m' ++ u)"
  by (auto simp: agree_off_def map_add_def split: option.splits)

end
