(* ===== verification/Ast_Nodes.thy ===== *)
theory Ast_Nodes
  imports Prelude
begin

text \<open>
  The abstract syntax tree of the C compiler, \<^verbatim>\<open>cc/ast_nodes.py\<close>.  Every dataclass of that
  module is a constructor of \<open>node\<close>, named after the class with the suffix \<open>_node\<close> (the three
  address code of \<^verbatim>\<open>cc/ir.py\<close> reuses many of the names), with the fields in the order the class
  declares them.  The field \<open>line\<close> of the base class \<open>Node\<close> is left out: it is declared with
  \<open>compare=False\<close> and takes no part in equality, and no operation modelled here reads it.  A
  dictionary is the association list of its items, in insertion order.
\<close>

datatype (plugins only: size code) node =
    ArrayDecl_node "node list option" "node option" bool string "node option" string
      \<comment> \<open>dimensions, init, is\_extern, name, size, type\_name\<close>
  | ArrayInit_node "node list"
  | AsmOperand_node string node "string option" \<comment> \<open>constraint, expression, name\<close>
  | Assign_node node string \<comment> \<open>expr, name\<close>
  | AssignExpr_node node
  | BinaryOperation_node node string node \<comment> \<open>left, operation, right\<close>
  | Break_node
  | Call_node "node list" string \<comment> \<open>args, name\<close>
  | Cast_node node string \<comment> \<open>expression, target\_type\<close>
  | Char_node int
  | Compound_node "node list"
  | Conditional_node node node node \<comment> \<open>condition, else\_expr, then\_expr\<close>
  | Continue_node
  | DereferencePlace_node node
  | DerefIncrement_node int bool string \<comment> \<open>delta, is\_postfix, target\_name\<close>
  | DerefIncrementAssign_node int node bool string \<comment> \<open>delta, expr, is\_postfix, target\_name\<close>
  | DoWhile_node "node list" node \<comment> \<open>body, cond\<close>
  | EnumDecl_node string "(string \<times> int) list"
  | ExtendedAsm_node "string list" "node list" bool "node list" string
      \<comment> \<open>clobbers, inputs, is\_volatile, outputs, template\<close>
  | For_node "node list" "node option" "node list" "node list" \<comment> \<open>body, cond, init, step\<close>
  | Function_node bool "node list" bool bool bool bool string "node list" "string list" nat
      \<comment> \<open>always\_inline, body, carry\_return, is\_prototype, is\_variadic, naked, name, params,
          preserve\_registers, regparm\_count\<close>
  | Goto_node string
  | If_node "node list" node "node list option" \<comment> \<open>body, cond, else\_body\<close>
  | Index_node node node \<comment> \<open>array, index\<close>
  | IndexAssign_node node node node \<comment> \<open>array, expr, index\<close>
  | InlineAsm_node string
  | Int_node int
  | Label_node string
  | LogicalAnd_node node node
  | LogicalOr_node node node
  | MemberPlace_node node string \<comment> \<open>base, member\_name\<close>
  | Param_node "node list option" "string option" bool string "string option" "node list option" string
      \<comment> \<open>dimensions, in\_register, is\_array, name, out\_register, pointer\_array\_dimensions, type\<close>
  | PlaceAddressOf_node node
  | PlaceCall_node "node list" node \<comment> \<open>args, place\<close>
  | PlaceIncrementDecrement_node int bool node \<comment> \<open>delta, is\_postfix, place\<close>
  | PlaceLoad_node node
  | PlaceStore_node node node \<comment> \<open>place, value\<close>
  | Program_node "node list" "node list" \<comment> \<open>functions, globals\<close>
  | Return_node "node option"
  | SizeofExpr_node node
  | SizeofType_node string
  | SizeofVar_node string
  | String_node string
  | StructDecl_node "node list" string \<comment> \<open>fields, name\<close>
  | StructField_node "int option" "string option" string \<comment> \<open>bit\_width, field\_name, type\_name\<close>
  | StructInitializer_node "(string \<times> node) list option" "node list option"
      \<comment> \<open>designated, positional\<close>
  | SubscriptPlace_node node node \<comment> \<open>base, index\<close>
  | Switch_node "node list" node \<comment> \<open>cases, discriminant\<close>
  | SwitchCase_node "node list" "int option" \<comment> \<open>body, value\<close>
  | TailCall_node "node list" string \<comment> \<open>args, fn\<close>
  | VaArg_node node string \<comment> \<open>cursor, type\_name\<close>
  | Var_node string
  | VarDecl_node "string option" "string option" "node list option" "node option" bool string
      "string option" "node list option" string
      \<comment> \<open>asm\_register, asm\_symbol, function\_pointer\_params, init, is\_extern, name,
          pinned\_register, pointer\_array\_dimensions, type\_name\<close>
  | VariablePlace_node string
  | While_node "node list" node \<comment> \<open>body, cond\<close>

text \<open>
  The nodes a reflective walk (\<open>dataclasses.fields\<close>, descending into lists and tuples) visits
  below a node, in field order.  A dictionary is neither a dataclass nor a list nor a tuple, so the
  values of \<open>StructInitializer.designated\<close> are not among them.
\<close>

fun opt_nodes :: "node option \<Rightarrow> node list" where
  "opt_nodes None = []"
| "opt_nodes (Some n) = [n]"

fun opt_lists :: "node list option \<Rightarrow> node list" where
  "opt_lists None = []"
| "opt_lists (Some ns) = ns"

fun ast_children :: "node \<Rightarrow> node list" where
  "ast_children (ArrayDecl_node dims ini _ _ sz _) = opt_lists dims @ opt_nodes ini @ opt_nodes sz"
| "ast_children (ArrayInit_node es) = es"
| "ast_children (AsmOperand_node _ e _) = [e]"
| "ast_children (Assign_node e _) = [e]"
| "ast_children (AssignExpr_node i) = [i]"
| "ast_children (BinaryOperation_node l _ r) = [l, r]"
| "ast_children (Call_node args _) = args"
| "ast_children (Cast_node e _) = [e]"
| "ast_children (Compound_node b) = b"
| "ast_children (Conditional_node c e t) = [c, e, t]"
| "ast_children (DereferencePlace_node p) = [p]"
| "ast_children (DerefIncrementAssign_node _ e _ _) = [e]"
| "ast_children (DoWhile_node b c) = b @ [c]"
| "ast_children (ExtendedAsm_node _ ins _ outs _) = ins @ outs"
| "ast_children (For_node b c i s) = b @ opt_nodes c @ i @ s"
| "ast_children (Function_node _ b _ _ _ _ _ ps _ _) = b @ ps"
| "ast_children (If_node b c e) = b @ [c] @ opt_lists e"
| "ast_children (Index_node a i) = [a, i]"
| "ast_children (IndexAssign_node a e i) = [a, e, i]"
| "ast_children (LogicalAnd_node l r) = [l, r]"
| "ast_children (LogicalOr_node l r) = [l, r]"
| "ast_children (MemberPlace_node b _) = [b]"
| "ast_children (Param_node d _ _ _ _ p _) = opt_lists d @ opt_lists p"
| "ast_children (PlaceAddressOf_node p) = [p]"
| "ast_children (PlaceCall_node args p) = args @ [p]"
| "ast_children (PlaceIncrementDecrement_node _ _ p) = [p]"
| "ast_children (PlaceLoad_node p) = [p]"
| "ast_children (PlaceStore_node p v) = [p, v]"
| "ast_children (Program_node fs gs) = fs @ gs"
| "ast_children (Return_node v) = opt_nodes v"
| "ast_children (SizeofExpr_node e) = [e]"
| "ast_children (StructDecl_node fs _) = fs"
| "ast_children (StructInitializer_node _ pos) = opt_lists pos"
| "ast_children (SubscriptPlace_node b i) = [b, i]"
| "ast_children (Switch_node cs d) = cs @ [d]"
| "ast_children (SwitchCase_node b _) = b"
| "ast_children (TailCall_node args _) = args"
| "ast_children (VaArg_node c _) = [c]"
| "ast_children (VarDecl_node _ _ fpp ini _ _ _ pad _) = opt_lists fpp @ opt_nodes ini @ opt_lists pad"
| "ast_children (While_node b c) = b @ [c]"
| "ast_children _ = []"

lemma opt_nodes_size: "c \<in> set (opt_nodes v) \<Longrightarrow> size c < size_option size v"
  by (cases v) auto

lemma list_elem_size: "c \<in> set ns \<Longrightarrow> size c < size_list size ns"
  by (induction ns) auto

lemma opt_lists_size: "c \<in> set (opt_lists v) \<Longrightarrow> size c < size_option (size_list size) v"
  by (cases v) (auto dest: list_elem_size)

lemma ast_children_smaller: "c \<in> set (ast_children n) \<Longrightarrow> size c < size n"
  by (cases n) (auto dest: opt_nodes_size opt_lists_size list_elem_size)

text \<open>The name \<open>x\<close> of an \<open>&x\<close> expression, a \<open>PlaceAddressOf\<close> over a \<open>VariablePlace\<close>.\<close>

fun address_of_variable_name :: "node \<Rightarrow> string option" where
  "address_of_variable_name (PlaceAddressOf_node (VariablePlace_node x)) = Some x"
| "address_of_variable_name _ = None"

end
