(* ===== verification/Ir.thy ===== *)
theory Ir
  imports Ast_Nodes
begin

text \<open>
  The three-address code of \<^verbatim>\<open>cc/ir.py\<close>: operands, instructions, the operand fields each class
  declares in \<open>VALUE_FIELDS\<close>, and \<open>dataclasses.replace\<close> on those fields.  Each constructor takes
  the fields of its dataclass in the declared order.
\<close>

subsection \<open>Operands and instructions\<close>

text \<open>
  \<open>Value = int | str | PlaceAddressOf\<close>: an integer literal, a name (variable, temp or string label),
  or an address-of node that is passed through whole.
\<close>

datatype ir_value =
    VInt int
  | VName string
  | VAddr node

datatype (plugins only: size code) instr =
    Access node
  | Address "ir_value option" string "ir_value list" node \<comment> \<open>base\_value, destination, indices, shape\<close>
  | AddressOf ir_value string \<comment> \<open>address, destination\<close>
  | BinaryOperation string ir_value string ir_value \<comment> \<open>destination, left, operation, right\<close>
  | Block node
  | BranchFalse ir_value string ir_value string \<comment> \<open>left, operation, right, target\<close>
  | Call "ir_value list" "string option" string \<comment> \<open>args, destination, name\<close>
  | CarryBranch node string string \<comment> \<open>call\_ast, target, when\<close>
  | Copy string ir_value \<comment> \<open>destination, source\<close>
  | IncrementDecrement ir_value int bool \<comment> \<open>address, delta, is\_postfix\<close>
  | Index string string ir_value \<comment> \<open>base, destination, index\<close>
  | IndexAssign string ir_value ir_value \<comment> \<open>base, index, source\<close>
  | IndirectCall ir_value
  | InlineAsm string
  | Jump string
  | Label string
  | Load ir_value string bool int \<comment> \<open>address, destination, signed, width\<close>
  | LoopBoundary "string option" string bool \<comment> \<open>continue\_label, end\_label, push\<close>
  | RepString string int string "string option" ir_value "ir_value option" bool
      "(string \<times> ir_value) option"
      \<comment> \<open>operation, element\_size, dest, source, count, fill\_value, counter\_signed, final\_iv\<close>
  | Return "ir_value option"
  | Store ir_value ir_value int \<comment> \<open>address, value, width\<close>
  | Switch "switch_case list" node string node \<comment> \<open>cases, discriminant, end\_label, original\_ast\<close>
  | TailCall "ir_value list" string \<comment> \<open>args, name\<close>
and switch_case = SwitchCase "instr list" "int option" \<comment> \<open>body, value\<close>

text \<open>One function, and a translation unit.\<close>

record ir_function =
  fn_ast_node :: node
  fn_body :: "instr list"
  fn_strings :: "(string \<times> string) list"

record ir_program =
  prog_functions :: "ir_function list"
  prog_globals :: "node list"

fun case_body :: "switch_case \<Rightarrow> instr list" where
  "case_body (SwitchCase b _) = b"

lemma instr_elem_size: "i \<in> set b \<Longrightarrow> size i < size_list size (b :: instr list)"
  by (induction b) auto

lemma switch_case_elem_size: "c \<in> set cs \<Longrightarrow> size c < size_list size (cs :: switch_case list)"
  by (induction cs) auto

lemma case_body_smaller: "size_list size (case_body c) < size c"
  by (cases c) simp

lemma switch_body_smaller:
  assumes "c \<in> set cases"
  shows "size_list size (case_body c) < Suc (size (Switch cases d e a) + size_list size b)"
proof -
  have "size_list size (case_body c) < size c" by (rule case_body_smaller)
  also have "size c < size_list size cases" by (rule switch_case_elem_size [OF assms])
  also have "size_list size cases < Suc (size (Switch cases d e a) + size_list size b)" by simp
  finally show ?thesis .
qed

subsection \<open>Operand fields\<close>

text \<open>
  The \<open>Value\<close> operands of an instruction in the order of its \<open>VALUE_FIELDS\<close>: absent optional fields
  are skipped, tuple fields are flattened.
\<close>

fun opt_value :: "ir_value option \<Rightarrow> ir_value list" where
  "opt_value None = []"
| "opt_value (Some v) = [v]"

fun value_fields :: "instr \<Rightarrow> ir_value list" where
  "value_fields (Address b _ ids _) = opt_value b @ ids"
| "value_fields (AddressOf a _) = [a]"
| "value_fields (BinaryOperation _ l _ r) = [l, r]"
| "value_fields (BranchFalse l _ r _) = [l, r]"
| "value_fields (Call args _ _) = args"
| "value_fields (Copy _ s) = [s]"
| "value_fields (IncrementDecrement a _ _) = [a]"
| "value_fields (Index _ _ i) = [i]"
| "value_fields (IndexAssign _ i s) = [i, s]"
| "value_fields (IndirectCall a) = [a]"
| "value_fields (Load a _ _ _) = [a]"
| "value_fields (RepString _ _ _ _ c f _ _) = c # opt_value f"
| "value_fields (Return v) = opt_value v"
| "value_fields (Store a v _) = [a, v]"
| "value_fields (TailCall args _) = args"
| "value_fields _ = []"

text \<open>\<open>dataclasses.replace\<close> of every operand field through a function.\<close>

fun map_value_fields :: "(ir_value \<Rightarrow> ir_value) \<Rightarrow> instr \<Rightarrow> instr" where
  "map_value_fields f (Address b d ids sh) = Address (map_option f b) d (map f ids) sh"
| "map_value_fields f (AddressOf a d) = AddressOf (f a) d"
| "map_value_fields f (BinaryOperation d l op r) = BinaryOperation d (f l) op (f r)"
| "map_value_fields f (BranchFalse l op r t) = BranchFalse (f l) op (f r) t"
| "map_value_fields f (Call args d n) = Call (map f args) d n"
| "map_value_fields f (Copy d s) = Copy d (f s)"
| "map_value_fields f (IncrementDecrement a k p) = IncrementDecrement (f a) k p"
| "map_value_fields f (Index b d i) = Index b d (f i)"
| "map_value_fields f (IndexAssign b i s) = IndexAssign b (f i) (f s)"
| "map_value_fields f (IndirectCall a) = IndirectCall (f a)"
| "map_value_fields f (Load a d sg w) = Load (f a) d sg w"
| "map_value_fields f (RepString op es d s c v sg iv) =
     RepString op es d s (f c) (map_option f v) sg iv"
| "map_value_fields f (Return v) = Return (map_option f v)"
| "map_value_fields f (Store a v w) = Store (f a) (f v) w"
| "map_value_fields f (TailCall args n) = TailCall (map f args) n"
| "map_value_fields f i = i"

lemma value_fields_map: "value_fields (map_value_fields f i) = map f (value_fields i)"
proof (cases i)
  case (Address b d ids sh)
  then show ?thesis by (cases b) auto
next
  case (RepString op es d s c v sg iv)
  then show ?thesis by (cases v) auto
next
  case (Return v)
  then show ?thesis by (cases v) auto
qed auto

lemma map_value_fields_cong:
  "(\<And>v. v \<in> set (value_fields i) \<Longrightarrow> f v = g v) \<Longrightarrow> map_value_fields f i = map_value_fields g i"
proof (cases i)
  case (Address b d ids sh)
  then show "(\<And>v. v \<in> set (value_fields i) \<Longrightarrow> f v = g v) \<Longrightarrow> ?thesis" by (cases b) auto
next
  case (RepString op es d s c v sg iv)
  then show "(\<And>v. v \<in> set (value_fields i) \<Longrightarrow> f v = g v) \<Longrightarrow> ?thesis" by (cases v) auto
next
  case (Return v)
  then show "(\<And>v. v \<in> set (value_fields i) \<Longrightarrow> f v = g v) \<Longrightarrow> ?thesis" by (cases v) auto
qed auto

lemma map_value_fields_id: "map_value_fields (\<lambda>v. v) i = i"
  by (cases i) (auto simp: option.map_ident)

lemma map_value_fields_comp:
  "map_value_fields f (map_value_fields g i) = map_value_fields (\<lambda>v. f (g v)) i"
proof (cases i)
  case (Address b d ids sh)
  then show ?thesis by (cases b) auto
next
  case (RepString op es d s c v sg iv)
  then show ?thesis by (cases v) auto
next
  case (Return v)
  then show ?thesis by (cases v) auto
qed auto

subsection \<open>Destinations and kinds of instruction\<close>

text \<open>The destination name an instruction writes, \<open>_instruction_destination\<close>.\<close>

fun is_LoopBoundary :: "instr \<Rightarrow> bool" where
  "is_LoopBoundary (LoopBoundary _ _ _) = True"
| "is_LoopBoundary _ = False"

fun is_Label :: "instr \<Rightarrow> bool" where
  "is_Label (Label _) = True"
| "is_Label _ = False"

fun is_Jump :: "instr \<Rightarrow> bool" where
  "is_Jump (Jump _) = True"
| "is_Jump _ = False"

fun label_names :: "instr list \<Rightarrow> string list" where
  "label_names [] = []"
| "label_names (Label l # b) = l # label_names b"
| "label_names (_ # b) = label_names b"

lemma label_names_append [simp]: "label_names (xs @ ys) = label_names xs @ label_names ys"
  by (induction xs rule: label_names.induct) auto

lemma in_label_names_iff: "l \<in> set (label_names b) \<longleftrightarrow> Label l \<in> set b"
  by (induction b rule: label_names.induct) auto

lemma label_names_Cons: "label_names (i # b) = label_names [i] @ label_names b"
  by (cases i) auto

lemma label_names_no_labels: "\<forall>i \<in> set b. \<not> is_Label i \<Longrightarrow> label_names b = []"
  by (induction b rule: label_names.induct) auto

text \<open>Where a jump to a label continues: the instructions after the first such label.\<close>

fun find_label :: "string \<Rightarrow> instr list \<Rightarrow> instr list option" where
  "find_label l [] = None"
| "find_label l (i # b) = (if i = Label l then Some b else find_label l b)"

lemma find_label_None_iff: "find_label l b = None \<longleftrightarrow> l \<notin> set (label_names b)"
  by (induction b) (auto simp: in_label_names_iff)

lemma find_label_append:
  "find_label l (xs @ ys) =
     (case find_label l xs of Some s \<Rightarrow> Some (s @ ys) | None \<Rightarrow> find_label l ys)"
  by (induction xs) auto

lemma find_label_skip:
  "\<forall>i \<in> set xs. \<not> is_Label i \<Longrightarrow> find_label l (xs @ ys) = find_label l ys"
  by (induction xs) auto

lemma find_label_split:
  "find_label l b = Some s \<Longrightarrow> \<exists>pre. b = pre @ Label l # s \<and> l \<notin> set (label_names pre)"
proof (induction b)
  case (Cons i b)
  show ?case
  proof (cases "i = Label l")
    case True
    with Cons.prems show ?thesis by (intro exI [of _ "[]"]) auto
  next
    case False
    with Cons obtain pre where "b = pre @ Label l # s" "l \<notin> set (label_names pre)" by auto
    with False show ?thesis
      by (intro exI [of _ "i # pre"]) (auto simp: in_label_names_iff)
  qed
qed simp

lemma find_label_distinct:
  assumes "distinct (label_names (pre @ Label l # s))"
  shows "find_label l (pre @ Label l # s) = Some s"
proof -
  from assms have "l \<notin> set (label_names pre)" by auto
  then have "find_label l pre = None" by (simp add: find_label_None_iff)
  then show ?thesis by (simp add: find_label_append)
qed

end
