(* ===== verification/Ir_Optimize.thy ===== *)
theory Ir_Optimize
  imports Ir
begin

unbundle bit_operations_syntax

text \<open>
  The passes of \<^verbatim>\<open>cc/ir_optimize.py\<close>.  Every pass takes an instruction list and returns a new one.
  The code walks the list with an index and looks ahead with \<open>_next_non_metadata_index\<close>; here the
  walk is the recursion on the rest of the list, and looking ahead splits the rest into the run of
  \<open>LoopBoundary\<close> metadata and what follows it.  A \<open>dict\<close> of counts is the total function of
  \<open>dict.get(name, 0)\<close>.
\<close>

subsection \<open>Walks over opaque syntax trees\<close>

text \<open>The label of a \<open>Goto\<close>, the name of a \<open>Var\<close> or \<open>VariablePlace\<close>, and the names a node holds as
  a bare string under \<open>target_name\<close> or \<open>object_name\<close>.\<close>

definition goto_name :: "node \<Rightarrow> string option" where
  "goto_name n = (case n of Goto_node x \<Rightarrow> Some x | _ \<Rightarrow> None)"

definition own_var_name :: "node \<Rightarrow> string option" where
  "own_var_name n = (case n of Var_node x \<Rightarrow> Some x | VariablePlace_node x \<Rightarrow> Some x | _ \<Rightarrow> None)"

definition bare_names :: "node \<Rightarrow> string list" where
  "bare_names n =
     (case n of DerefIncrement_node _ _ x \<Rightarrow> [x] | DerefIncrementAssign_node _ _ _ x \<Rightarrow> [x] | _ \<Rightarrow> [])"

function iter_ast_goto_targets :: "node \<Rightarrow> string list" where
  "iter_ast_goto_targets n =
     (case goto_name n of
        Some x \<Rightarrow> [''.user_'' @ x]
      | None \<Rightarrow> concat (map iter_ast_goto_targets (ast_children n)))"
  by pat_completeness auto
termination
  by (relation "measure size") (auto dest: ast_children_smaller)

function iter_ast_var_names :: "node \<Rightarrow> string list" where
  "iter_ast_var_names n =
     (case own_var_name n of
        Some x \<Rightarrow> [x]
      | None \<Rightarrow> bare_names n @ concat (map iter_ast_var_names (ast_children n)))"
  by pat_completeness auto
termination
  by (relation "measure size") (auto dest: ast_children_smaller)

declare iter_ast_goto_targets.simps [simp del] iter_ast_var_names.simps [simp del]

subsection \<open>Small predicates and accessors\<close>

definition temp_prefix :: string where
  "temp_prefix = ''_ir_''"

definition is_temp :: "string \<Rightarrow> bool" where
  "is_temp x \<longleftrightarrow> starts_with temp_prefix x"

definition non_tail_callable_names :: "string set" where
  "non_tail_callable_names = {''asm''}"

definition is_tail_callable_name :: "string \<Rightarrow> bool" where
  "is_tail_callable_name n \<longleftrightarrow> n \<notin> non_tail_callable_names \<and> \<not> starts_with ''_'' n"

fun is_unconditional_transfer :: "instr \<Rightarrow> bool" where
  "is_unconditional_transfer (Jump _) = True"
| "is_unconditional_transfer (Return _) = True"
| "is_unconditional_transfer (TailCall _ _) = True"
| "is_unconditional_transfer _ = False"

fun branch_target :: "instr \<Rightarrow> string option" where
  "branch_target (Jump t) = Some t"
| "branch_target (BranchFalse _ _ _ t) = Some t"
| "branch_target (CarryBranch _ t _) = Some t"
| "branch_target _ = None"

fun replace_branch_target :: "string \<Rightarrow> string \<Rightarrow> instr \<Rightarrow> instr" where
  "replace_branch_target new old (Jump t) = (if t \<noteq> old then Jump t else Jump new)"
| "replace_branch_target new old (BranchFalse l op r t) =
     (if t \<noteq> old then BranchFalse l op r t else BranchFalse l op r new)"
| "replace_branch_target new old (CarryBranch c t w) =
     (if t \<noteq> old then CarryBranch c t w else CarryBranch c new w)"
| "replace_branch_target new old i = i"

fun has_side_effects :: "instr \<Rightarrow> bool" where
  "has_side_effects (Access _) = True"
| "has_side_effects (Block _) = True"
| "has_side_effects (BranchFalse _ _ _ _) = True"
| "has_side_effects (Call _ _ _) = True"
| "has_side_effects (CarryBranch _ _ _) = True"
| "has_side_effects (IncrementDecrement _ _ _) = True"
| "has_side_effects (IndexAssign _ _ _) = True"
| "has_side_effects (IndirectCall _) = True"
| "has_side_effects (InlineAsm _) = True"
| "has_side_effects (Jump _) = True"
| "has_side_effects (Label _) = True"
| "has_side_effects (LoopBoundary _ _ _) = True"
| "has_side_effects (RepString _ _ _ _ _ _ _ _) = True"
| "has_side_effects (Return _) = True"
| "has_side_effects (Store _ _ _) = True"
| "has_side_effects (TailCall _ _) = True"
| "has_side_effects _ = False"

fun instruction_destination :: "instr \<Rightarrow> string option" where
  "instruction_destination (Address _ d _ _) = Some d"
| "instruction_destination (AddressOf _ d) = Some d"
| "instruction_destination (BinaryOperation d _ _ _) = Some d"
| "instruction_destination (Copy d _) = Some d"
| "instruction_destination (Index _ d _) = Some d"
| "instruction_destination (Load _ d _ _) = Some d"
| "instruction_destination (Call _ d _) = d"
| "instruction_destination _ = None"

text \<open>The operands \<open>_instruction_value_operands\<close> returns; unlike \<open>VALUE_FIELDS\<close> it has no case for
  \<open>TailCall\<close>.\<close>

fun instruction_value_operands :: "instr \<Rightarrow> ir_value list" where
  "instruction_value_operands (Address b _ ids _) = opt_value b @ ids"
| "instruction_value_operands (AddressOf a _) = [a]"
| "instruction_value_operands (BinaryOperation _ l _ r) = [l, r]"
| "instruction_value_operands (Copy _ s) = [s]"
| "instruction_value_operands (IncrementDecrement a _ _) = [a]"
| "instruction_value_operands (Load a _ _ _) = [a]"
| "instruction_value_operands (Store a v _) = [a, v]"
| "instruction_value_operands (Call args _ _) = args"
| "instruction_value_operands (Index _ _ i) = [i]"
| "instruction_value_operands (IndexAssign _ i s) = [i, s]"
| "instruction_value_operands (IndirectCall a) = [a]"
| "instruction_value_operands (BranchFalse l _ r _) = [l, r]"
| "instruction_value_operands (RepString _ _ _ _ c f _ _) = c # opt_value f"
| "instruction_value_operands (Return v) = opt_value v"
| "instruction_value_operands _ = []"

fun value_name :: "ir_value \<Rightarrow> string list" where
  "value_name (VName x) = [x]"
| "value_name _ = []"

definition operand_names :: "instr \<Rightarrow> string list" where
  "operand_names i = concat (map value_name (instruction_value_operands i))"

subsection \<open>Looking past metadata\<close>

text \<open>
  \<open>_next_non_metadata_index(body, start)\<close> on the suffix of the body from \<open>start\<close>: the
  \<open>LoopBoundary\<close> entries it steps over, and the suffix from the index it returns, empty for None.
\<close>

definition next_non_metadata :: "instr list \<Rightarrow> instr list \<times> instr list" where
  "next_non_metadata rest = (takeWhile is_LoopBoundary rest, dropWhile is_LoopBoundary rest)"

lemma next_non_metadata_length [termination_simp]:
  "next_non_metadata rest = (meta, i # follow) \<Longrightarrow> length follow < length rest"
  by (auto simp: next_non_metadata_def dest: dropWhile_Cons_length)

lemma next_non_metadata_length' [termination_simp]:
  "(meta, i # follow) = next_non_metadata rest \<Longrightarrow> length follow < length rest"
  by (rule next_non_metadata_length [OF sym])

subsection \<open>Constant folding\<close>

text \<open>The operation tables of \<^verbatim>\<open>cc/ir_optimize.py\<close> and \<^verbatim>\<open>cc/tokens.py\<close>.\<close>

definition foldable_binary_ops :: "string set" where
  "foldable_binary_ops = {''+'', ''-'', ''*'', ''&'', ''|'', ''^''}"

definition invert_comparison :: "string \<Rightarrow> string option" where
  "invert_comparison = map_of
     [(''!='', ''==''), (''<'', ''>=''), (''<='', ''>''), (''=='', ''!=''), (''>'', ''<=''),
      (''>='', ''<'')]"

definition evaluate_constant_comparison :: "int \<Rightarrow> string \<Rightarrow> int \<Rightarrow> bool option" where
  "evaluate_constant_comparison left operation right =
     (if operation = ''=='' then Some (left = right)
      else if operation = ''!='' then Some (left \<noteq> right)
      else None)"

fun fold_binary_operation :: "instr \<Rightarrow> instr option" where
  "fold_binary_operation (BinaryOperation d (VInt left) operation (VInt right)) =
     (if operation \<notin> foldable_binary_ops then None
      else Some (Copy d (VInt
        (if operation = ''+'' then left + right
         else if operation = ''-'' then left - right
         else if operation = ''*'' then left * right
         else if operation = ''&'' then left AND right
         else if operation = ''|'' then left OR right
         else left XOR right))))"
| "fold_binary_operation _ = None"

fun fold_constant_branches :: "instr list \<Rightarrow> instr list" where
  "fold_constant_branches [] = []"
| "fold_constant_branches (BranchFalse (VInt left) operation (VInt right) t # rest) =
     (case evaluate_constant_comparison left operation right of
        None \<Rightarrow> BranchFalse (VInt left) operation (VInt right) t # fold_constant_branches rest
      | Some True \<Rightarrow> fold_constant_branches rest
      | Some False \<Rightarrow> Jump t # fold_constant_branches rest)"
| "fold_constant_branches (i # rest) = i # fold_constant_branches rest"

subsection \<open>Copy and constant propagation\<close>

text \<open>\<open>_substitute_value\<close>: operands equal to the name \<open>target\<close> become \<open>source\<close>.\<close>

definition subst_operand :: "ir_value \<Rightarrow> string \<Rightarrow> ir_value \<Rightarrow> ir_value" where
  "subst_operand source target v = (if v = VName target then source else v)"

fun substitute_value :: "ir_value \<Rightarrow> string \<Rightarrow> instr \<Rightarrow> instr" where
  "substitute_value s t (Address b d ids sh) =
     Address (map_option (subst_operand s t) b) d (map (subst_operand s t) ids) sh"
| "substitute_value s t (AddressOf a d) = AddressOf (subst_operand s t a) d"
| "substitute_value s t (BinaryOperation d l op r) =
     BinaryOperation d (subst_operand s t l) op (subst_operand s t r)"
| "substitute_value s t (Copy d v) = Copy d (subst_operand s t v)"
| "substitute_value s t (IncrementDecrement a k p) = IncrementDecrement (subst_operand s t a) k p"
| "substitute_value s t (Call args d n) = Call (map (subst_operand s t) args) d n"
| "substitute_value s t (Load a d sg w) = Load (subst_operand s t a) d sg w"
| "substitute_value s t (Store a v w) = Store (subst_operand s t a) (subst_operand s t v) w"
| "substitute_value s t (Index b d i) = Index b d (subst_operand s t i)"
| "substitute_value s t (IndexAssign b i v) = IndexAssign b (subst_operand s t i) (subst_operand s t v)"
| "substitute_value s t (IndirectCall a) = IndirectCall (subst_operand s t a)"
| "substitute_value s t (BranchFalse l op r tgt) =
     BranchFalse (subst_operand s t l) op (subst_operand s t r) tgt"
| "substitute_value s t (Return v) = Return (map_option (subst_operand s t) v)"
| "substitute_value s t i = i"

fun opt_name :: "string option \<Rightarrow> string list" where
  "opt_name None = []"
| "opt_name (Some x) = [x]"

definition count_definitions :: "instr list \<Rightarrow> string \<Rightarrow> nat" where
  "count_definitions b = foldl bump (\<lambda>_. 0) (concat (map (\<lambda>i. opt_name (instruction_destination i)) b))"

text \<open>The first loop of \<open>_propagate\<close>: each single-definition temp copy rewrites what follows it.\<close>

fun propagatable :: "(string \<Rightarrow> nat) \<Rightarrow> instr \<Rightarrow> (string \<times> ir_value) option" where
  "propagatable counts (Copy d s) = (if is_temp d \<and> counts d = 1 then Some (d, s) else None)"
| "propagatable counts _ = None"

function propagate_copies :: "(string \<Rightarrow> nat) \<Rightarrow> instr list \<Rightarrow> instr list" where
  "propagate_copies counts [] = []"
| "propagate_copies counts (i # rest) =
     (case propagatable counts i of
        None \<Rightarrow> i # propagate_copies counts rest
      | Some (d, s) \<Rightarrow> i # propagate_copies counts (map (substitute_value s d) rest))"
  by pat_completeness auto
termination
  by (relation "measure (\<lambda>(counts, b). length b)") auto

definition fold_or_keep :: "instr \<Rightarrow> instr" where
  "fold_or_keep i = (case fold_binary_operation i of None \<Rightarrow> i | Some folded \<Rightarrow> folded)"

definition propagate :: "instr list \<Rightarrow> instr list" where
  "propagate b = map fold_or_keep (propagate_copies (count_definitions b) b)"

subsection \<open>Control-flow simplification\<close>

function collapse_jump_to_next_label :: "instr list \<Rightarrow> instr list" where
  "collapse_jump_to_next_label [] = []"
| "collapse_jump_to_next_label (i # rest) =
     (case i of
        Jump t \<Rightarrow>
          (case next_non_metadata rest of
             (meta, Label l # follow) \<Rightarrow>
               (if l \<noteq> t then i # collapse_jump_to_next_label rest
                else meta @ collapse_jump_to_next_label (Label l # follow))
           | _ \<Rightarrow> i # collapse_jump_to_next_label rest)
      | _ \<Rightarrow> i # collapse_jump_to_next_label rest)"
  by pat_completeness auto
termination
  by (relation "measure length") (auto dest!: next_non_metadata_length')

text \<open>The rewritten branch of \<open>_invert_branch_over_jump\<close>, retargeted at the jump's destination.\<close>

fun inverted_branch :: "instr \<Rightarrow> string \<Rightarrow> instr option" where
  "inverted_branch (BranchFalse l op r t) jt =
     map_option (\<lambda>op'. BranchFalse l op' r jt) (invert_comparison op)"
| "inverted_branch (CarryBranch c t w) jt =
     Some (CarryBranch c jt (if w = ''set'' then ''clear'' else ''set''))"
| "inverted_branch i jt = None"

fun is_conditional_branch :: "instr \<Rightarrow> bool" where
  "is_conditional_branch (BranchFalse _ _ _ _) = True"
| "is_conditional_branch (CarryBranch _ _ _) = True"
| "is_conditional_branch _ = False"

function invert_branch_over_jump :: "instr list \<Rightarrow> instr list" where
  "invert_branch_over_jump [] = []"
| "invert_branch_over_jump (i # rest) =
     (if \<not> is_conditional_branch i then i # invert_branch_over_jump rest
      else case next_non_metadata rest of
        (meta, Jump jt # after) \<Rightarrow>
          (case next_non_metadata after of
             (_, Label l # _) \<Rightarrow>
               (if Some l \<noteq> branch_target i then i # invert_branch_over_jump rest
                else case inverted_branch i jt of
                  None \<Rightarrow> i # invert_branch_over_jump rest
                | Some i' \<Rightarrow> i' # meta @ invert_branch_over_jump after)
           | _ \<Rightarrow> i # invert_branch_over_jump rest)
      | _ \<Rightarrow> i # invert_branch_over_jump rest)"
  by pat_completeness auto
termination
  by (relation "measure length") (auto dest!: next_non_metadata_length')

fun skip_unreachable :: "bool \<Rightarrow> instr list \<Rightarrow> instr list" where
  "skip_unreachable skipping [] = []"
| "skip_unreachable skipping (i # rest) =
     (if is_Label i then i # skip_unreachable False rest
      else if skipping then
        (if is_LoopBoundary i then i # skip_unreachable True rest else skip_unreachable True rest)
      else i # skip_unreachable (is_unconditional_transfer i) rest)"

definition eliminate_unreachable_code :: "instr list \<Rightarrow> instr list" where
  "eliminate_unreachable_code b = skip_unreachable False b"

definition collect_ast_goto_targets :: "instr list \<Rightarrow> string set" where
  "collect_ast_goto_targets b = (\<Union>i \<in> set b. case i of
       Access n \<Rightarrow> set (iter_ast_goto_targets n)
     | Block n \<Rightarrow> set (iter_ast_goto_targets n)
     | CarryBranch c _ _ \<Rightarrow> set (iter_ast_goto_targets c)
     | _ \<Rightarrow> {})"

text \<open>Label references, descending into the arms of a \<open>Switch\<close>.\<close>

function collect_all_label_references :: "instr list \<Rightarrow> string set" where
  "collect_all_label_references b =
     collect_ast_goto_targets b \<union>
     (\<Union>i \<in> set b. set (opt_name (branch_target i))) \<union>
     (\<Union>i \<in> set b. case i of
         Switch cs _ _ _ \<Rightarrow> (\<Union>c \<in> set cs. collect_all_label_references (case_body c))
       | _ \<Rightarrow> {})"
  by pat_completeness auto
termination
proof (relation "measure (size_list size)", goal_cases)
  case (2 b i cs d e a c)
  have "size_list size (case_body c) < size c" by (rule case_body_smaller)
  also have "\<dots> < size_list size cs" using 2 by (simp add: switch_case_elem_size)
  also have "\<dots> < size (Switch cs d e a)" by simp
  also have "\<dots> < size_list size b" using 2 by (metis instr_elem_size)
  finally show ?case by simp
qed simp

declare collect_all_label_references.simps [simp del]

definition eliminate_dead_labels :: "instr list \<Rightarrow> instr list" where
  "eliminate_dead_labels b =
     filter (\<lambda>i. case i of Label l \<Rightarrow> l \<in> collect_all_label_references b | _ \<Rightarrow> True) b"

text \<open>
  The trampoline table of \<open>_forward_trivial_labels\<close> as an association list, the latest entry first,
  and the chase along it that stops at a label seen before.
\<close>

fun trampoline_table :: "string set \<Rightarrow> instr list \<Rightarrow> (string \<times> string) list \<Rightarrow> (string \<times> string) list" where
  "trampoline_table ast_refs [] acc = acc"
| "trampoline_table ast_refs (i # rest) acc =
     (case i of
        Label l \<Rightarrow>
          (if l \<in> ast_refs then trampoline_table ast_refs rest acc
           else case next_non_metadata rest of
             (_, Jump t # _) \<Rightarrow>
               (if t = l then trampoline_table ast_refs rest acc
                else trampoline_table ast_refs rest ((l, t) # acc))
           | _ \<Rightarrow> trampoline_table ast_refs rest acc)
      | _ \<Rightarrow> trampoline_table ast_refs rest acc)"

function resolve_label :: "(string \<times> string) list \<Rightarrow> string list \<Rightarrow> string \<Rightarrow> string" where
  "resolve_label table seen current =
     (case map_of table current of
        None \<Rightarrow> current
      | Some t \<Rightarrow> if current \<in> set seen then current else resolve_label table (current # seen) t)"
  by pat_completeness auto
termination
proof (relation "measure (\<lambda>(table, seen, current). card (fst ` set table - set seen))", goal_cases)
  case (2 table seen current t)
  then have "current \<in> fst ` set table - set seen"
    by (force dest: map_of_SomeD)
  then have "fst ` set table - set (current # seen) \<subset> fst ` set table - set seen" by auto
  then show ?case by (simp add: psubset_card_mono)
qed simp

declare resolve_label.simps [simp del]

definition forward_branch :: "(string \<times> string) list \<Rightarrow> instr \<Rightarrow> instr" where
  "forward_branch table i =
     (case branch_target i of
        None \<Rightarrow> i
      | Some t \<Rightarrow>
          (if map_of table t = None then i
           else let resolved = resolve_label table [] t in
             if resolved = t then i else replace_branch_target resolved t i))"

definition forward_trivial_labels :: "instr list \<Rightarrow> instr list" where
  "forward_trivial_labels b =
     (let table = trampoline_table (collect_ast_goto_targets b) b [] in
      if table = [] then b else map (forward_branch table) b)"

definition simplify_control_flow :: "instr list \<Rightarrow> instr list" where
  "simplify_control_flow b0 =
     (let b1 = fold_constant_branches b0;
          b2 = forward_trivial_labels b1;
          b3 = invert_branch_over_jump b2;
          b4 = collapse_jump_to_next_label b3;
          b5 = eliminate_unreachable_code b4
      in eliminate_dead_labels b5)"

subsection \<open>Dead code and tail calls\<close>

text \<open>The names an instruction reads, as \<open>_compute_use_counts\<close> counts them.\<close>

definition counted_uses :: "instr \<Rightarrow> string list" where
  "counted_uses i = operand_names i @
     (case i of
        Index b _ _ \<Rightarrow> [b]
      | IndexAssign b _ _ \<Rightarrow> [b]
      | Access n \<Rightarrow> iter_ast_var_names n
      | Block n \<Rightarrow> iter_ast_var_names n
      | CarryBranch c _ _ \<Rightarrow> iter_ast_var_names c
      | _ \<Rightarrow> [])"

definition compute_use_counts :: "instr list \<Rightarrow> string \<Rightarrow> nat" where
  "compute_use_counts b = foldl bump (\<lambda>_. 0) (concat (map counted_uses b))"

definition dce_step :: "(string \<Rightarrow> nat) \<Rightarrow> instr \<Rightarrow> instr list" where
  "dce_step use_counts i =
     (case instruction_destination i of
        None \<Rightarrow> [i]
      | Some d \<Rightarrow>
          (if \<not> is_temp d \<or> 0 < use_counts d then [i]
           else case i of
             Call args _ n \<Rightarrow> [Call args None n]
           | _ \<Rightarrow> if has_side_effects i then [i] else []))"

definition dead_code_elimination :: "instr list \<Rightarrow> instr list" where
  "dead_code_elimination b = concat (map (dce_step (compute_use_counts b)) b)"

definition tail_use_counts :: "instr list \<Rightarrow> string \<Rightarrow> nat" where
  "tail_use_counts b = foldl bump (\<lambda>_. 0) (concat (map operand_names b))"

function tail_calls :: "(string \<Rightarrow> nat) \<Rightarrow> instr list \<Rightarrow> instr list" where
  "tail_calls use_counts [] = []"
| "tail_calls use_counts (i # rest) =
     (case i of
        Call args (Some d) n \<Rightarrow>
          (if \<not> (is_temp d \<and> is_tail_callable_name n) then i # tail_calls use_counts rest
           else case next_non_metadata rest of
             (meta, Return v # follow) \<Rightarrow>
               (if v = Some (VName d) \<and> use_counts d = 1
                then meta @ TailCall args n # tail_calls use_counts follow
                else i # tail_calls use_counts rest)
           | _ \<Rightarrow> i # tail_calls use_counts rest)
      | _ \<Rightarrow> i # tail_calls use_counts rest)"
  by pat_completeness auto
termination
  by (relation "measure (\<lambda>(u, b). length b)") (auto dest!: next_non_metadata_length')

definition eliminate_tail_calls :: "instr list \<Rightarrow> instr list" where
  "eliminate_tail_calls b = tail_calls (tail_use_counts b) b"

subsection \<open>The scalar fixed point\<close>

definition scalar_step :: "instr list \<Rightarrow> instr list" where
  "scalar_step b = dead_code_elimination (simplify_control_flow (propagate b))"

definition scalar_fixed_point :: "instr list \<Rightarrow> instr list option" where
  "scalar_fixed_point b =
     map_option fst (while_option (\<lambda>(current, previous). previous \<noteq> Some current)
       (\<lambda>(current, previous). (scalar_step current, Some current)) (b, None))"

text \<open>The name a node has, \<open>getattr(node, "name", None)\<close> where it is a string.\<close>

definition node_name :: "node \<Rightarrow> string option" where
  "node_name n =
     (case n of
        ArrayDecl_node _ _ _ x _ _ \<Rightarrow> Some x
      | AsmOperand_node _ _ x \<Rightarrow> x
      | Assign_node _ x \<Rightarrow> Some x
      | Call_node _ x \<Rightarrow> Some x
      | EnumDecl_node x _ \<Rightarrow> Some x
      | Function_node _ _ _ _ _ _ x _ _ _ \<Rightarrow> Some x
      | Goto_node x \<Rightarrow> Some x
      | Label_node x \<Rightarrow> Some x
      | Param_node _ _ _ x _ _ _ \<Rightarrow> Some x
      | SizeofVar_node x \<Rightarrow> Some x
      | StructDecl_node _ x \<Rightarrow> Some x
      | Var_node x \<Rightarrow> Some x
      | VarDecl_node _ _ _ _ _ x _ _ _ \<Rightarrow> Some x
      | VariablePlace_node x \<Rightarrow> Some x
      | _ \<Rightarrow> None)"

end
