(* ===== verification/Step_Simulation.thy ===== *)
theory Step_Simulation
  imports Prelude
begin

text \<open>
  Runs of a list of instructions for an arbitrary step function, and the simulations by which a rewritten
  list is shown to run like the original.  The intermediate language and the assembly lines use it with
  their own steps.
\<close>

subsection \<open>Runs\<close>

datatype ('i, 'v, 's) conf = Stuck | Go "'i list" 's | Stop 'v 's

text \<open>A step function: the whole body, the instruction at the head, the instructions after it, the state.\<close>

type_synonym ('i, 'v, 's) stepper = "'i list \<Rightarrow> 'i \<Rightarrow> 'i list \<Rightarrow> 's \<Rightarrow> ('i, 'v, 's) conf"

text \<open>
  \<open>exec nx b rest s (r, s')\<close>: from \<open>rest\<close> and \<open>s\<close> the run ends in \<open>s'\<close>, with \<open>r = None\<close> when it falls
  off the end of the body and \<open>r = Some v\<close> when it leaves the function with \<open>v\<close>.
\<close>

inductive exec ::
    "('i, 'v, 's) stepper \<Rightarrow> 'i list \<Rightarrow> 'i list \<Rightarrow> 's \<Rightarrow> 'v option \<times> 's \<Rightarrow> bool"
  for nx :: "('i, 'v, 's) stepper" and b :: "'i list" where
  exec_end: "exec nx b [] s (None, s)"
| exec_go: "nx b i rest s = Go rest' s' \<Longrightarrow> exec nx b rest' s' out \<Longrightarrow> exec nx b (i # rest) s out"
| exec_stop: "nx b i rest s = Stop v s' \<Longrightarrow> exec nx b (i # rest) s (Some v, s')"

inductive_cases exec_NilE: "exec nx b [] s out"
inductive_cases exec_ConsE: "exec nx b (i # rest) s out"
inductive_simps exec_Nil_iff: "exec nx b [] s out"
inductive_simps exec_Cons_iff: "exec nx b (i # rest) s out"

lemma exec_deterministic: "exec nx b x s out \<Longrightarrow> exec nx b x s out' \<Longrightarrow> out = out'"
proof (induction arbitrary: out' rule: exec.induct)
  case (exec_end s)
  then show ?case by (auto elim: exec_NilE)
next
  case (exec_go i rest s rest' s' out)
  from exec_go.prems exec_go.hyps have "exec nx b rest' s' out'"
    by (simp add: exec_Cons_iff)
  then show ?case by (rule exec_go.IH)
next
  case (exec_stop i rest s v s')
  from exec_stop.prems exec_stop.hyps show ?case
    by (simp add: exec_Cons_iff)
qed

text \<open>The same runs with a bound on the number of steps, for evaluation on concrete bodies.\<close>

fun run_fuel ::
    "nat \<Rightarrow> ('i, 'v, 's) stepper \<Rightarrow> 'i list \<Rightarrow> 'i list \<Rightarrow> 's \<Rightarrow> ('v option \<times> 's) option" where
  "run_fuel n nx b [] s = Some (None, s)"
| "run_fuel 0 nx b (i # rest) s = None"
| "run_fuel (Suc n) nx b (i # rest) s =
     (case nx b i rest s of
        Stuck \<Rightarrow> None
      | Go rest' s' \<Rightarrow> run_fuel n nx b rest' s'
      | Stop v s' \<Rightarrow> Some (Some v, s'))"

lemma run_fuel_exec: "run_fuel n nx b x s = Some out \<Longrightarrow> exec nx b x s out"
  by (induction n nx b x s rule: run_fuel.induct)
     (auto intro: exec.intros split: conf.splits)

lemma exec_run_fuel: "exec nx b x s out \<Longrightarrow> \<exists>n. run_fuel n nx b x s = Some out"
proof (induction rule: exec.induct)
  case (exec_end s)
  show ?case by (intro exI [of _ 0]) simp
next
  case (exec_go i rest s rest' s' out)
  then obtain n where "run_fuel n nx b rest' s' = Some out" by blast
  with exec_go.hyps show ?case by (intro exI [of _ "Suc n"]) simp
next
  case (exec_stop i rest s v s')
  then show ?case by (intro exI [of _ "Suc 0"]) simp
qed

subsection \<open>Simulations between two bodies\<close>

text \<open>
  \<open>conf_sim\<close> relates the outcome of one step of each body: the continuations by \<open>Q\<close>, the states by
  \<open>S\<close>; a stuck original allows anything.  \<open>conf_eq\<close> is its two-sided form over equal states.
\<close>

fun conf_sim :: "('i list \<Rightarrow> 'i list \<Rightarrow> bool) \<Rightarrow> ('s \<Rightarrow> 's \<Rightarrow> bool) \<Rightarrow>
    ('i, 'v, 's) conf \<Rightarrow> ('i, 'v, 's) conf \<Rightarrow> bool" where
  "conf_sim Q S Stuck c = True"
| "conf_sim Q S (Go x s) (Go y t) = (Q x y \<and> S s t)"
| "conf_sim Q S (Stop v s) (Stop v' t) = (v = v' \<and> S s t)"
| "conf_sim Q S _ _ = False"

fun conf_eq :: "('i list \<Rightarrow> 'i list \<Rightarrow> bool) \<Rightarrow>
    ('i, 'v, 's) conf \<Rightarrow> ('i, 'v, 's) conf \<Rightarrow> bool" where
  "conf_eq Q Stuck Stuck = True"
| "conf_eq Q (Go x s) (Go y t) = (Q x y \<and> s = t)"
| "conf_eq Q (Stop v s) (Stop v' t) = (v = v' \<and> s = t)"
| "conf_eq Q _ _ = False"

text \<open>A step the new body need not take: the original moves to a configuration still related.\<close>

definition left_step :: "('i, 'v, 's) stepper \<Rightarrow> 'i list \<Rightarrow> ('i list \<Rightarrow> 'i list \<Rightarrow> bool) \<Rightarrow>
    ('s \<Rightarrow> 's \<Rightarrow> bool) \<Rightarrow> 'i list \<Rightarrow> 's \<Rightarrow> 'i list \<Rightarrow> 's \<Rightarrow> bool" where
  "left_step nx b R S x s y t \<longleftrightarrow> (\<exists>i rest. x = i # rest \<and>
     (case nx b i rest s of Stuck \<Rightarrow> True | Go x' s' \<Rightarrow> R x' y \<and> S s' t | Stop _ _ \<Rightarrow> False))"

definition joint_step :: "('i, 'v, 's) stepper \<Rightarrow> 'i list \<Rightarrow> 'i list \<Rightarrow>
    ('i list \<Rightarrow> 'i list \<Rightarrow> bool) \<Rightarrow> ('s \<Rightarrow> 's \<Rightarrow> bool) \<Rightarrow>
    'i list \<Rightarrow> 's \<Rightarrow> 'i list \<Rightarrow> 's \<Rightarrow> bool" where
  "joint_step nx b b' R S x s y t \<longleftrightarrow> (\<exists>i rest i' rest'. x = i # rest \<and> y = i' # rest' \<and>
     conf_sim R S (nx b i rest s) (nx b' i' rest' t))"

lemma sim_forward:
  assumes exec: "exec nx b x s out" and R: "R x y" and S: "S s t"
    and step: "\<And>x y s t. R x y \<Longrightarrow> S s t \<Longrightarrow>
      (x = [] \<and> y = []) \<or> left_step nx b R S x s y t \<or> joint_step nx b b' R S x s y t"
  shows "\<exists>s'. exec nx b' y t (fst out, s') \<and> S (snd out) s'"
  using exec R S
proof (induction arbitrary: y t rule: exec.induct)
  case (exec_end s)
  with step [of "[]" y s t] show ?case
    by (auto simp: left_step_def joint_step_def intro: exec.exec_end)
next
  case (exec_go i rest s rest' s' out)
  from step [OF exec_go.prems] consider
      (left) "left_step nx b R S (i # rest) s y t"
    | (joint) "joint_step nx b b' R S (i # rest) s y t" by auto
  then show ?case
  proof cases
    case left
    with exec_go.hyps exec_go.IH show ?thesis by (auto simp: left_step_def)
  next
    case joint
    then obtain i' r' where y: "y = i' # r'"
      and c: "conf_sim R S (Go rest' s') (nx b' i' r' t)"
      using exec_go.hyps by (auto simp: joint_step_def)
    from c obtain y' t' where "nx b' i' r' t = Go y' t'" "R rest' y'" "S s' t'"
      by (cases "nx b' i' r' t") auto
    with exec_go.IH y show ?thesis by (blast intro: exec.exec_go)
  qed
next
  case (exec_stop i rest s v s')
  from step [OF exec_stop.prems] exec_stop.hyps
  obtain i' r' where y: "y = i' # r'" and c: "conf_sim R S (Stop v s') (nx b' i' r' t)"
    by (auto simp: joint_step_def left_step_def)
  from c obtain t' where "nx b' i' r' t = Stop v t'" "S s' t'"
    by (cases "nx b' i' r' t") auto
  with y show ?case by (auto intro: exec.exec_stop)
qed

text \<open>
  Two-sided simulation with equal states.  The relation is indexed by the number of steps the original
  may still take alone, so that the new body cannot end while the original runs on for ever.
\<close>

definition silent :: "('i, 'v, 's) stepper \<Rightarrow> 'i list \<Rightarrow> 'i list \<Rightarrow> 'i list \<Rightarrow> bool" where
  "silent nx b x x' \<longleftrightarrow> (\<exists>i rest. x = i # rest \<and> (\<forall>s. nx b i rest s = Go x' s))"

lemma silent_exec: "silent nx b x x' \<Longrightarrow> exec nx b x s out \<longleftrightarrow> exec nx b x' s out"
  by (auto simp: silent_def exec_Cons_iff)

definition equi_step :: "('i, 'v, 's) stepper \<Rightarrow> 'i list \<Rightarrow> 'i list \<Rightarrow>
    ('i list \<Rightarrow> 'i list \<Rightarrow> bool) \<Rightarrow> 'i list \<Rightarrow> 'i list \<Rightarrow> bool" where
  "equi_step nx b b' R x y \<longleftrightarrow> (\<exists>i rest i' rest'. x = i # rest \<and> y = i' # rest' \<and>
     (\<forall>s. conf_eq R (nx b i rest s) (nx b' i' rest' s)))"

lemma conf_eq_sim: "conf_eq Q c c' \<Longrightarrow> conf_sim Q (=) c c'"
  by (cases c; cases c') auto

lemma conf_eq_flip: "conf_eq Q c c' = conf_eq (\<lambda>x y. Q y x) c' c"
  by (cases c; cases c') auto

lemma equi_step_flip:
  "equi_step nx b b' Q x y \<Longrightarrow> equi_step nx b' b (\<lambda>u v. Q v u) y x"
  unfolding equi_step_def by (metis conf_eq_flip)

definition sim_step :: "('i, 'v, 's) stepper \<Rightarrow> 'i list \<Rightarrow> 'i list \<Rightarrow>
    (nat \<Rightarrow> 'i list \<Rightarrow> 'i list \<Rightarrow> bool) \<Rightarrow> nat \<Rightarrow> 'i list \<Rightarrow> 'i list \<Rightarrow> bool" where
  "sim_step nx b b' R n x y \<longleftrightarrow>
     (x = [] \<and> y = []) \<or> (\<exists>m x'. m < n \<and> silent nx b x x' \<and> R m x' y) \<or>
     (\<exists>m y'. m < n \<and> silent nx b' y y' \<and> R m x y') \<or>
     equi_step nx b b' (\<lambda>x y. \<exists>k. R k x y) x y"

lemma sim_step_flip:
  "sim_step nx b b' R n x y \<Longrightarrow> sim_step nx b' b (\<lambda>k u v. R k v u) n y x"
  unfolding sim_step_def by (auto dest: equi_step_flip)

lemma silent_Go: "silent nx b (i # rest) x' \<Longrightarrow> nx b i rest s = Go x' s"
  by (auto simp: silent_def)

lemma sim_one:
  fixes R :: "nat \<Rightarrow> 'i list \<Rightarrow> 'i list \<Rightarrow> bool"
  assumes "exec nx b x s out" and "R n x y"
    and step: "\<And>n x y. R n x y \<Longrightarrow> sim_step nx b b' R n x y"
  shows "exec nx b' y s out"
  using assms(1,2)
proof (induction arbitrary: n y rule: exec.induct)
  case (exec_end s)
  then show ?case
  proof (induction n arbitrary: y rule: less_induct)
    case (less n)
    from step [OF less.prems] less.IH show ?case
      by (auto simp: sim_step_def equi_step_def silent_def [of nx b] silent_exec intro: exec.exec_end)
  qed
next
  case (exec_go i rest s rest' s' out)
  from exec_go.prems show ?case
  proof (induction n arbitrary: y rule: less_induct)
    case (less n)
    from step [OF less.prems, unfolded sim_step_def] show ?case
    proof (elim disjE exE conjE)
      fix m x' assume "silent nx b (i # rest) x'" "R m x' y"
      with exec_go.hyps have "x' = rest' \<and> s' = s" by (auto dest!: silent_Go [where s = s])
      with \<open>R m x' y\<close> show ?thesis using exec_go.IH by blast
    next
      fix m y' assume "m < n" "silent nx b' y y'" "R m (i # rest) y'"
      then show ?thesis using less.IH silent_exec by metis
    next
      assume "equi_step nx b b' (\<lambda>x y. \<exists>k. R k x y) (i # rest) y"
      then obtain j r where y: "y = j # r"
        and c: "conf_eq (\<lambda>x y. \<exists>k. R k x y) (Go rest' s') (nx b' j r s)"
        using exec_go.hyps by (auto simp: equi_step_def dest: spec [of _ s])
      from c obtain u k where "nx b' j r s = Go u s'" "R k rest' u"
        by (cases "nx b' j r s") auto
      with y exec_go.IH show ?thesis by (blast intro: exec.exec_go)
    qed simp
  qed
next
  case (exec_stop i rest s v s')
  from exec_stop.prems show ?case
  proof (induction n arbitrary: y rule: less_induct)
    case (less n)
    from step [OF less.prems, unfolded sim_step_def] show ?case
    proof (elim disjE exE conjE)
      fix m x' assume "silent nx b (i # rest) x'" "R m x' y"
      with exec_stop.hyps have False by (auto dest!: silent_Go [where s = s])
      then show ?thesis ..
    next
      fix m y' assume "m < n" "silent nx b' y y'" "R m (i # rest) y'"
      then show ?thesis using less.IH silent_exec by metis
    next
      assume "equi_step nx b b' (\<lambda>x y. \<exists>k. R k x y) (i # rest) y"
      then obtain j r where y: "y = j # r"
        and c: "conf_eq (\<lambda>x y. \<exists>k. R k x y) (Stop v s') (nx b' j r s)"
        using exec_stop.hyps by (auto simp: equi_step_def dest: spec [of _ s])
      from c have "nx b' j r s = Stop v s'"
        by (cases "nx b' j r s") auto
      with y show ?thesis by (auto intro: exec.exec_stop)
    qed simp
  qed
qed

lemma sim_both:
  fixes R :: "nat \<Rightarrow> 'i list \<Rightarrow> 'i list \<Rightarrow> bool"
  assumes "R n x y"
    and "\<And>n x y. R n x y \<Longrightarrow> sim_step nx b b' R n x y"
  shows "exec nx b x s out \<longleftrightarrow> exec nx b' y s out"
  using assms
  by (blast intro: sim_one [where R = R and nx = nx and b = b and b' = b']
      sim_one [where R = "\<lambda>k u v. R k v u" and nx = nx and b = b' and b' = b] sim_step_flip)

subsection \<open>Simulations up to silent steps\<close>

text \<open>
  \<open>rel_base\<close> relates two continuations that come, by silent steps, to a pair of \<open>B\<close>; at the pairs of \<open>B\<close>
  the two bodies move together.
\<close>

definition rel_base :: "('i, 'v, 's) stepper \<Rightarrow> 'i list \<Rightarrow> 'i list \<Rightarrow> ('i list \<Rightarrow> 'i list \<Rightarrow> bool) \<Rightarrow>
    nat \<Rightarrow> 'i list \<Rightarrow> 'i list \<Rightarrow> bool" where
  "rel_base nx b b' B n x y \<longleftrightarrow>
     (\<exists>k m z z'. n = k + m \<and> (silent nx b ^^ k) x z \<and> B z z' \<and> (silent nx b' ^^ m) y z')"

abbreviation related_by :: "('i, 'v, 's) stepper \<Rightarrow> 'i list \<Rightarrow> 'i list \<Rightarrow> ('i list \<Rightarrow> 'i list \<Rightarrow> bool) \<Rightarrow>
    'i list \<Rightarrow> 'i list \<Rightarrow> bool" where
  "related_by nx b b' B x y \<equiv> \<exists>n. rel_base nx b b' B n x y"

lemma related_byI: "B z z' \<Longrightarrow> related_by nx b b' B z z'"
  unfolding rel_base_def by (intro exI [of _ 0]) auto

lemma related_by_left: "silent nx b x x' \<Longrightarrow> related_by nx b b' B x' y \<Longrightarrow> related_by nx b b' B x y"
  unfolding rel_base_def by (metis add_Suc relpowp_Suc_I2)

lemma related_by_right: "silent nx b' y y' \<Longrightarrow> related_by nx b b' B x y' \<Longrightarrow> related_by nx b b' B x y"
  unfolding rel_base_def by (metis add_Suc_right relpowp_Suc_I2)

lemma base_sound:
  assumes rel: "related_by nx b b' B x y"
    and progress: "\<And>z z'. B z z' \<Longrightarrow>
      (z = [] \<and> z' = []) \<or> equi_step nx b b' (related_by nx b b' B) z z'"
  shows "exec nx b x s out \<longleftrightarrow> exec nx b' y s out"
proof -
  have "sim_step nx b b' (rel_base nx b b' B) n u v" if "rel_base nx b b' B n u v" for n u v
  proof -
    from that obtain k m z z' where n: "n = k + m" and left: "(silent nx b ^^ k) u z"
      and z: "B z z'" and right: "(silent nx b' ^^ m) v z'"
      by (auto simp: rel_base_def)
    show ?thesis
    proof (cases k)
      case 0
      show ?thesis
      proof (cases m)
        case 0
        with \<open>k = 0\<close> left right progress [OF z] show ?thesis by (auto simp: sim_step_def)
      next
        case (Suc m')
        with right obtain v' where "silent nx b' v v'" "(silent nx b' ^^ m') v' z'"
          by (meson relpowp_Suc_D2)
        with n Suc left z have "k + m' < n" "rel_base nx b b' B (k + m') u v'"
          by (auto simp: rel_base_def)
        with \<open>silent nx b' v v'\<close> show ?thesis by (auto simp: sim_step_def)
      qed
    next
      case (Suc k')
      with left obtain u' where "silent nx b u u'" "(silent nx b ^^ k') u' z"
        by (meson relpowp_Suc_D2)
      with n Suc right z have "k' + m < n" "rel_base nx b b' B (k' + m) u' v"
        by (auto simp: rel_base_def)
      with \<open>silent nx b u u'\<close> show ?thesis by (auto simp: sim_step_def)
    qed
  qed
  then have steps: "\<And>n u v. rel_base nx b b' B n u v \<Longrightarrow> sim_step nx b b' (rel_base nx b b' B) n u v" .
  from rel obtain n where "rel_base nx b b' B n x y" ..
  then show ?thesis by (rule sim_both [OF _ steps])
qed

subsection \<open>Rewrites that follow the suffixes of the body\<close>

text \<open>
  For a rewrite \<open>T\<close> of instruction lists, a suffix of the original corresponds to a suffix of the new
  body when both come, by silent steps, to some \<open>z\<close> and \<open>T z\<close> at which the two bodies move together
  (\<open>ok z\<close>).
\<close>

definition follows :: "'i list \<Rightarrow> ('i list \<Rightarrow> 'i list) \<Rightarrow> ('i list \<Rightarrow> bool) \<Rightarrow> 'i list \<Rightarrow> 'i list \<Rightarrow> bool" where
  "follows b T ok z z' \<longleftrightarrow> suffix z b \<and> ok z \<and> z' = T z"

abbreviation related :: "('i, 'v, 's) stepper \<Rightarrow> 'i list \<Rightarrow> 'i list \<Rightarrow> ('i list \<Rightarrow> 'i list) \<Rightarrow>
    ('i list \<Rightarrow> bool) \<Rightarrow> 'i list \<Rightarrow> 'i list \<Rightarrow> bool" where
  "related nx b b' T ok x y \<equiv> related_by nx b b' (follows b T ok) x y"

lemma relatedI: "suffix z b \<Longrightarrow> ok z \<Longrightarrow> related nx b b' T ok z (T z)"
  by (rule related_byI) (simp add: follows_def)

lemma related_left: "silent nx b x x' \<Longrightarrow> related nx b b' T ok x' y \<Longrightarrow> related nx b b' T ok x y"
  by (rule related_by_left)

lemma related_right: "silent nx b' y y' \<Longrightarrow> related nx b b' T ok x y' \<Longrightarrow> related nx b b' T ok x y"
  by (rule related_by_right)

lemma upto_sound:
  assumes "related nx b b' T ok x y"
    and "\<And>z. suffix z b \<Longrightarrow> ok z \<Longrightarrow>
      (z = [] \<and> T z = []) \<or> equi_step nx b b' (related nx b b' T ok) z (T z)"
  shows "exec nx b x s out \<longleftrightarrow> exec nx b' y s out"
  by (rule base_sound [OF assms(1)]) (use assms(2) in \<open>auto simp: follows_def\<close>)

lemma suffix_tl: "suffix (i # rest) b \<Longrightarrow> suffix rest b"
  by (metis suffix_ConsI suffix_order.dual_order.trans suffix_order.refl)

lemma suffix_drop_prefix: "suffix (xs @ ys) b \<Longrightarrow> suffix ys b"
  by (metis append_assoc suffix_def)

lemma suffix_in_set: "suffix (i # rest) b \<Longrightarrow> i \<in> set b"
  by (auto simp: suffix_def)

end
