(* ===== verification/Ir_Semantics.thy ===== *)
theory Ir_Semantics
  imports Ir_Optimize Step_Simulation
begin

text \<open>
  What an instruction list means, after the docstrings of \<^verbatim>\<open>cc/ir.py\<close>.  Control (\<open>Jump\<close>, \<open>Label\<close>,
  \<open>LoopBoundary\<close>, \<open>BranchFalse\<close>, \<open>CarryBranch\<close>) is interpreted here for any machine that gives the
  other instructions and the conditions a meaning.  A configuration is the rest of the list still to
  run and the state; a jump continues after the first label of that name in the whole body.
\<close>

subsection \<open>Control over an arbitrary machine\<close>

datatype 'v flow = Fall | Goto string | Leave 'v

record ('v, 's) machine =
  act :: "instr \<Rightarrow> 's \<Rightarrow> ('v flow \<times> 's) option"
  holds :: "ir_value \<Rightarrow> string \<Rightarrow> ir_value \<Rightarrow> 's \<Rightarrow> bool option"
  carries :: "node \<Rightarrow> 's \<Rightarrow> (bool \<times> 's) option"

definition goto_label :: "instr list \<Rightarrow> string \<Rightarrow> 's \<Rightarrow> (instr, 'v, 's) conf" where
  "goto_label b t s = (case find_label t b of None \<Rightarrow> Stuck | Some dest \<Rightarrow> Go dest s)"

text \<open>One step: the head instruction \<open>i\<close> of the rest, the remaining \<open>rest\<close>, in body \<open>b\<close>.\<close>

definition plain_step ::
    "('v, 's) machine \<Rightarrow> instr list \<Rightarrow> instr \<Rightarrow> instr list \<Rightarrow> 's \<Rightarrow> (instr, 'v, 's) conf" where
  "plain_step M b i rest s =
     (case act M i s of
        None \<Rightarrow> Stuck
      | Some (fl, s') \<Rightarrow>
          (case fl of Fall \<Rightarrow> Go rest s' | Goto t \<Rightarrow> goto_label b t s' | Leave v \<Rightarrow> Stop v s'))"

fun next_conf ::
    "('v, 's) machine \<Rightarrow> instr list \<Rightarrow> instr \<Rightarrow> instr list \<Rightarrow> 's \<Rightarrow> (instr, 'v, 's) conf" where
  "next_conf M b (Label l) rest s = Go rest s"
| "next_conf M b (LoopBoundary c e p) rest s = Go rest s"
| "next_conf M b (Jump t) rest s = goto_label b t s"
| "next_conf M b (BranchFalse l op r t) rest s =
     (case holds M l op r s of
        None \<Rightarrow> Stuck
      | Some c \<Rightarrow> if c then Go rest s else goto_label b t s)"
| "next_conf M b (CarryBranch c t w) rest s =
     (case carries M c s of
        None \<Rightarrow> Stuck
      | Some (cf, s') \<Rightarrow> if cf = (w = ''set'') then goto_label b t s' else Go rest s')"
| "next_conf M b i rest s = plain_step M b i rest s"

definition runs :: "('v, 's) machine \<Rightarrow> instr list \<Rightarrow> 's \<Rightarrow> 'v option \<times> 's \<Rightarrow> bool" where
  "runs M b s out \<longleftrightarrow> exec (next_conf M) b b s out"

lemma runs_fuel: "run_fuel n (next_conf M) b b s = Some out \<Longrightarrow> runs M b s out"
  by (simp add: runs_def run_fuel_exec)

subsection \<open>Suffixes, labels and silent steps\<close>

lemma find_label_suffix: "find_label t b = Some d \<Longrightarrow> suffix d b"
  by (auto dest!: find_label_split simp: suffix_def)

lemma silent_Label [simp]: "silent (next_conf M) b (Label l # rest) rest"
  by (simp add: silent_def)

lemma silent_LoopBoundary [simp]: "silent (next_conf M) b (LoopBoundary c e p # rest) rest"
  by (simp add: silent_def)

lemma silent_boundary: "is_LoopBoundary i \<Longrightarrow> silent (next_conf M) b (i # rest) rest"
  by (cases i) auto

lemma silent_Jump: "find_label t b = Some d \<Longrightarrow> silent (next_conf M) b (Jump t # rest) d"
  by (simp add: silent_def goto_label_def)

lemma related_left_boundaries:
  "\<forall>i \<in> set meta. is_LoopBoundary i \<Longrightarrow> related (next_conf M) b b' T ok x y \<Longrightarrow>
   related (next_conf M) b b' T ok (meta @ x) y"
proof (induction meta)
  case (Cons i meta)
  then have "related (next_conf M) b b' T ok (meta @ x) y" and "silent (next_conf M) b (i # meta @ x) (meta @ x)"
    by (auto intro: silent_boundary)
  then show ?case by (metis append_Cons related_left)
qed simp

lemma related_right_boundaries:
  "\<forall>i \<in> set meta. is_LoopBoundary i \<Longrightarrow> related (next_conf M) b b' T ok x y \<Longrightarrow>
   related (next_conf M) b b' T ok x (meta @ y)"
proof (induction meta)
  case (Cons i meta)
  then have "related (next_conf M) b b' T ok x (meta @ y)" and "silent (next_conf M) b' (i # meta @ y) (meta @ y)"
    by (auto intro: silent_boundary)
  then show ?case by (metis append_Cons related_right)
qed simp

end
