(* ===== verification/Ir_Machine.thy ===== *)
theory Ir_Machine
  imports Ir_Semantics
begin

unbundle bit_operations_syntax

text \<open>
  The 32-bit machine the passes are judged against.  A state is the slots of the function (an
  unassigned slot is absent, and reading it is stuck) and the rest of the store.  Arithmetic on the
  six foldable operations and equality are fixed; whatever the three-address code leaves to the code
  generator (signedness, memory, calls, opaque syntax trees) is a parameter, the \<open>world\<close>.

  Two facts hold of every world by construction.  An opaque instruction sees the program variables
  and the temps whose names occur in its syntax tree, and can write program variables and the temp
  its \<open>Assign\<close> names; temps are invisible to everything else.  It can leave its place only for a label
  that its syntax tree names.
\<close>

type_synonym word32 = "32 word"
type_synonym slots = "string \<rightharpoonup> word32"

record 'm ir_state =
  slots :: slots
  store :: 'm

record 'm world =
  w_addr :: "node \<Rightarrow> word32"
  w_less :: "word32 \<Rightarrow> word32 \<Rightarrow> bool"
  w_binop :: "string \<Rightarrow> word32 \<Rightarrow> word32 \<Rightarrow> word32 option"
  w_pure :: "instr \<Rightarrow> word32 list \<Rightarrow> slots \<Rightarrow> 'm \<Rightarrow> word32 option"
  w_effect :: "instr \<Rightarrow> word32 list \<Rightarrow> slots \<Rightarrow> 'm \<Rightarrow>
      (word32 option flow \<times> word32 \<times> slots \<times> 'm) option"
  w_carry :: "node \<Rightarrow> slots \<Rightarrow> 'm \<Rightarrow> (bool \<times> slots \<times> 'm) option"

subsection \<open>Operands, operations and comparisons\<close>

fun eval_value :: "'m world \<Rightarrow> slots \<Rightarrow> ir_value \<Rightarrow> word32 option" where
  "eval_value W sl (VInt n) = Some (word_of_int n)"
| "eval_value W sl (VName x) = sl x"
| "eval_value W sl (VAddr n) = Some (w_addr W n)"

definition binop :: "'m world \<Rightarrow> string \<Rightarrow> word32 \<Rightarrow> word32 \<Rightarrow> word32 option" where
  "binop W op a c =
     (if op = ''+'' then Some (a + c)
      else if op = ''-'' then Some (a - c)
      else if op = ''*'' then Some (a * c)
      else if op = ''&'' then Some (a AND c)
      else if op = ''|'' then Some (a OR c)
      else if op = ''^'' then Some (a XOR c)
      else w_binop W op a c)"

definition compare_words :: "'m world \<Rightarrow> string \<Rightarrow> word32 \<Rightarrow> word32 \<Rightarrow> bool option" where
  "compare_words W op a c =
     (if op = ''=='' then Some (a = c)
      else if op = ''!='' then Some (a \<noteq> c)
      else if op = ''<'' then Some (w_less W a c)
      else if op = ''>='' then Some (\<not> w_less W a c)
      else if op = ''>'' then Some (w_less W c a)
      else if op = ''<='' then Some (\<not> w_less W c a)
      else None)"

lemma compare_words_invert:
  "invert_comparison op = Some op' \<Longrightarrow> compare_words W op' a c = map_option Not (compare_words W op a c)"
  by (auto simp: invert_comparison_def compare_words_def split: if_splits)

definition ir_holds :: "'m world \<Rightarrow> ir_value \<Rightarrow> string \<Rightarrow> ir_value \<Rightarrow> 'm ir_state \<Rightarrow> bool option" where
  "ir_holds W l op r s =
     (case (eval_value W (slots s) l, eval_value W (slots s) r) of
        (Some a, Some c) \<Rightarrow> compare_words W op a c
      | _ \<Rightarrow> None)"

subsection \<open>What an opaque instruction sees, writes and jumps to\<close>

definition mentioned :: "instr \<Rightarrow> string list" where
  "mentioned i = (case i of
       Index b _ _ \<Rightarrow> [b]
     | IndexAssign b _ _ \<Rightarrow> [b]
     | Access n \<Rightarrow> iter_ast_var_names n
     | Block n \<Rightarrow> iter_ast_var_names n
     | CarryBranch c _ _ \<Rightarrow> iter_ast_var_names c
     | _ \<Rightarrow> [])"

definition assign_target :: "node \<Rightarrow> string option" where
  "assign_target n = (case n of Assign_node _ x \<Rightarrow> Some x | _ \<Rightarrow> None)"

definition assigned :: "instr \<Rightarrow> string list" where
  "assigned i = (case i of
       Access n \<Rightarrow> opt_name (assign_target n)
     | Block n \<Rightarrow> opt_name (assign_target n)
     | _ \<Rightarrow> [])"

definition visible :: "string list \<Rightarrow> slots \<Rightarrow> slots" where
  "visible xs sl = sl |` ({x. \<not> is_temp x} \<union> set xs)"

definition inner_labels :: "instr \<Rightarrow> string set" where
  "inner_labels i = (case i of
       Access n \<Rightarrow> set (iter_ast_goto_targets n)
     | Block n \<Rightarrow> set (iter_ast_goto_targets n)
     | Switch cs _ _ _ \<Rightarrow> (\<Union>c \<in> set cs. collect_all_label_references (case_body c))
     | _ \<Rightarrow> {})"

fun flow_ok :: "instr \<Rightarrow> 'v flow \<Rightarrow> bool" where
  "flow_ok i Fall = True"
| "flow_ok i (Goto t) = (t \<in> inner_labels i)"
| "flow_ok i (Leave v) = True"

text \<open>The instruction with its operands and its destination blanked: all a world knows of it.\<close>

fun erase :: "instr \<Rightarrow> instr" where
  "erase (Call args d n) = Call (map (\<lambda>_. VInt 0) args) None n"
| "erase i = map_value_fields (\<lambda>_. VInt 0) i"

subsection \<open>The instructions\<close>

definition set_slot :: "string \<Rightarrow> word32 \<Rightarrow> 'm ir_state \<Rightarrow> 'm ir_state" where
  "set_slot d v s = s\<lparr>slots := (slots s)(d \<mapsto> v)\<rparr>"

fun set_slot_opt :: "string option \<Rightarrow> word32 \<Rightarrow> 'm ir_state \<Rightarrow> 'm ir_state" where
  "set_slot_opt None v s = s"
| "set_slot_opt (Some d) v s = set_slot d v s"

definition pure_act ::
    "'m world \<Rightarrow> instr \<Rightarrow> string \<Rightarrow> word32 list \<Rightarrow> 'm ir_state \<Rightarrow> (word32 option flow \<times> 'm ir_state) option"
where
  "pure_act W i d vs s =
     map_option (\<lambda>v. (Fall, set_slot d v s))
       (w_pure W (erase i) vs (visible (mentioned i) (slots s)) (store s))"

definition effect_act ::
    "'m world \<Rightarrow> instr \<Rightarrow> word32 list \<Rightarrow> 'm ir_state \<Rightarrow> (word32 option flow \<times> word32 \<times> 'm ir_state) option"
where
  "effect_act W i vs s =
     (case w_effect W (erase i) vs (visible (mentioned i) (slots s)) (store s) of
        None \<Rightarrow> None
      | Some (fl, v, upd, m) \<Rightarrow>
          (if flow_ok i fl
           then Some (fl, v, s\<lparr>slots := slots s ++ visible (assigned i) upd, store := m\<rparr>)
           else None))"

fun ir_exec ::
    "'m world \<Rightarrow> instr \<Rightarrow> word32 list \<Rightarrow> 'm ir_state \<Rightarrow> (word32 option flow \<times> 'm ir_state) option"
where
  "ir_exec W (Copy d v) vs s = Some (Fall, set_slot d (vs ! 0) s)"
| "ir_exec W (AddressOf a d) vs s = Some (Fall, set_slot d (vs ! 0) s)"
| "ir_exec W (BinaryOperation d l op r) vs s =
     map_option (\<lambda>v. (Fall, set_slot d v s)) (binop W op (vs ! 0) (vs ! 1))"
| "ir_exec W (Address bv d ids sh) vs s = pure_act W (Address bv d ids sh) d vs s"
| "ir_exec W (Index bs d ix) vs s = pure_act W (Index bs d ix) d vs s"
| "ir_exec W (Load a d sg w) vs s = pure_act W (Load a d sg w) d vs s"
| "ir_exec W (Return None) vs s = Some (Leave None, s)"
| "ir_exec W (Return (Some v)) vs s = Some (Leave (Some (vs ! 0)), s)"
| "ir_exec W (Call args d n) vs s =
     (case effect_act W (Call args d n) vs s of
        Some (Fall, v, s') \<Rightarrow> Some (Fall, set_slot_opt d v s')
      | _ \<Rightarrow> None)"
| "ir_exec W (TailCall args n) vs s =
     (case effect_act W (Call args None n) vs s of
        Some (Fall, v, s') \<Rightarrow> Some (Leave (Some v), s')
      | _ \<Rightarrow> None)"
| "ir_exec W i vs s = map_option (\<lambda>(fl, v, s'). (fl, s')) (effect_act W i vs s)"

definition ir_act ::
    "'m world \<Rightarrow> instr \<Rightarrow> 'm ir_state \<Rightarrow> (word32 option flow \<times> 'm ir_state) option" where
  "ir_act W i s =
     (case sequence_opt (map (eval_value W (slots s)) (value_fields i)) of
        None \<Rightarrow> None
      | Some vs \<Rightarrow> ir_exec W i vs s)"

definition ir_carries :: "'m world \<Rightarrow> node \<Rightarrow> 'm ir_state \<Rightarrow> (bool \<times> 'm ir_state) option" where
  "ir_carries W c s =
     map_option (\<lambda>(cf, upd, m). (cf, s\<lparr>slots := slots s ++ visible [] upd, store := m\<rparr>))
       (w_carry W c (visible (iter_ast_var_names c) (slots s)) (store s))"

definition ir_machine :: "'m world \<Rightarrow> (word32 option, 'm ir_state) machine" where
  "ir_machine W = \<lparr>act = ir_act W, holds = ir_holds W, carries = ir_carries W\<rparr>"

lemma ir_machine_simps [simp]:
  "act (ir_machine W) = ir_act W"
  "holds (ir_machine W) = ir_holds W"
  "carries (ir_machine W) = ir_carries W"
  by (simp_all add: ir_machine_def)

subsection \<open>Laws of the machine\<close>

text \<open>Control passes ask three things of a machine; the contract is a locale.\<close>

locale control_machine =
  fixes M :: "('v, 's) machine"
  assumes invert: "invert_comparison op = Some op' \<Longrightarrow>
      holds M l op' r s = map_option Not (holds M l op r s)"
    and goto_named: "act M i s = Some (Goto t, s') \<Longrightarrow> t \<in> inner_labels i"
    and leaves: "is_unconditional_transfer i \<Longrightarrow> act M i s = Some (fl, s') \<Longrightarrow> \<exists>v. fl = Leave v \<or> is_Jump i"
begin

lemma plain_step_goto:
  "plain_step M b i rest s = c \<Longrightarrow>
   c = Stuck \<or> (\<exists>s'. c = Go rest s') \<or> (\<exists>v s'. c = Stop v s') \<or>
   (\<exists>t s'. t \<in> inner_labels i \<and> c = goto_label b t s')"
  using goto_named [of i s]
  by (fastforce simp: plain_step_def split: option.splits flow.splits)

lemma transfer_no_fall:
  assumes "is_unconditional_transfer i"
  shows "next_conf M b i rest s = next_conf M b i rest' s"
  using assms
  by (cases i) (auto simp: plain_step_def split: option.splits flow.splits dest: leaves [rotated])

end

lemma ir_exec_goto:
  assumes "ir_exec W i vs s = Some (Goto t, s')"
  shows "t \<in> inner_labels i"
proof (cases i)
  case (Return v)
  with assms show ?thesis by (cases v) auto
qed (use assms in \<open>auto simp: pure_act_def effect_act_def split: option.splits if_splits flow.splits\<close>)

lemma ir_exec_transfer:
  assumes "is_unconditional_transfer i" and "ir_exec W i vs s = Some (fl, s')"
  shows "is_Jump i \<or> (\<exists>v. fl = Leave v)"
proof (cases i)
  case (Return v)
  with assms show ?thesis by (cases v) auto
qed (use assms in \<open>auto split: option.splits if_splits flow.splits\<close>)

interpretation irm: control_machine "ir_machine W" for W
proof
  fix op op' l r and s :: "'a ir_state"
  assume "invert_comparison op = Some op'"
  then show "holds (ir_machine W) l op' r s = map_option Not (holds (ir_machine W) l op r s)"
    by (auto simp: ir_holds_def compare_words_invert split: option.splits)
next
  fix i t and s s' :: "'a ir_state"
  assume "act (ir_machine W) i s = Some (Goto t, s')"
  then show "t \<in> inner_labels i"
    by (auto simp: ir_act_def split: option.splits dest: ir_exec_goto)
next
  fix i fl and s s' :: "'a ir_state"
  assume "is_unconditional_transfer i" "act (ir_machine W) i s = Some (fl, s')"
  then show "\<exists>v. fl = Leave v \<or> is_Jump i"
    by (auto simp: ir_act_def split: option.splits dest: ir_exec_transfer)
qed

end
