(* ===== verification/Control_Passes.thy ===== *)
theory Control_Passes
  imports Ir_Machine
begin

text \<open>
  The control-flow passes of \<^verbatim>\<open>cc/ir_optimize.py\<close> keep the meaning of a body: from every state the
  rewritten body has exactly the runs of the original.  Each proof says how the pass acts on a suffix
  of the body and where a label of the original continues in the new body; the simulation lemmas of
  \<open>Ir_Semantics\<close> do the rest.
\<close>

subsection \<open>Labels an instruction can jump to\<close>

definition targets :: "instr \<Rightarrow> string set" where
  "targets i = set (opt_name (branch_target i)) \<union> inner_labels i"

definition labels_ok :: "instr list \<Rightarrow> bool" where
  "labels_ok b \<longleftrightarrow> distinct (label_names b) \<and> (\<forall>i \<in> set b. targets i \<subseteq> set (label_names b))"

lemma labels_ok_target:
  "labels_ok b \<Longrightarrow> i \<in> set b \<Longrightarrow> t \<in> targets i \<Longrightarrow> \<exists>d. find_label t b = Some d"
  by (metis find_label_None_iff labels_ok_def not_Some_eq subsetD)

lemma targets_branch [simp]:
  "targets (Jump t) = {t}" "targets (BranchFalse l op r t) = {t}" "targets (CarryBranch c t w) = {t}"
  by (auto simp: targets_def inner_labels_def)

lemma targets_plain [simp]: "targets (Label l) = {}" "targets (LoopBoundary c e p) = {}"
  by (auto simp: targets_def inner_labels_def)

lemma rel_option_map_SomeI:
  "find_label t b' = map_option T (find_label t b) \<Longrightarrow>
   (\<And>d. find_label t b = Some d \<Longrightarrow> Q d (T d)) \<Longrightarrow> rel_option Q (find_label t b) (find_label t b')"
  by (cases "find_label t b") auto

lemma goto_label_rel:
  "rel_option Q (find_label t b) (find_label t' b') \<Longrightarrow>
   conf_eq Q (goto_label b t s) (goto_label b' t' s)"
  by (auto simp: goto_label_def split: option.splits elim: option.rel_cases)

subsection \<open>Heads that move together\<close>

context control_machine
begin

lemma plain_head:
  assumes rest: "\<not> is_unconditional_transfer i \<Longrightarrow> Q rest rest'"
    and tg: "\<And>t. t \<in> inner_labels i \<Longrightarrow> rel_option Q (find_label t b) (find_label t b')"
    and i: "\<not> is_Jump i"
  shows "conf_eq Q (plain_step M b i rest s) (plain_step M b' i rest' s)"
proof (cases "act M i s")
  case (Some p)
  obtain fl s' where p: "p = (fl, s')" by fastforce
  show ?thesis
  proof (cases fl)
    case Fall
    with leaves [of i s fl s'] Some p i have "\<not> is_unconditional_transfer i" by auto
    with Fall Some p rest show ?thesis by (simp add: plain_step_def)
  next
    case (Goto t)
    with goto_named Some p have "t \<in> inner_labels i" by blast
    with Goto Some p tg show ?thesis by (simp add: plain_step_def goto_label_rel)
  qed (use Some p in \<open>simp add: plain_step_def\<close>)
qed (simp add: plain_step_def)

lemma same_head:
  assumes rest: "\<not> is_unconditional_transfer i \<Longrightarrow> Q rest rest'"
    and tg: "\<And>t. t \<in> targets i \<Longrightarrow> rel_option Q (find_label t b) (find_label t b')"
  shows "conf_eq Q (next_conf M b i rest s) (next_conf M b' i rest' s)"
proof (cases "is_Label i \<or> is_LoopBoundary i \<or> branch_target i \<noteq> None")
  case True
  with rest tg show ?thesis
    by (cases i) (auto split: option.splits intro: goto_label_rel)
next
  case False
  then have "next_conf M b i rest s = plain_step M b i rest s"
    "next_conf M b' i rest' s = plain_step M b' i rest' s" "\<not> is_Jump i"
    by (cases i; simp)+
  with rest tg show ?thesis by (auto intro!: plain_head simp: targets_def)
qed

lemma same_head_step:
  "(\<not> is_unconditional_transfer i \<Longrightarrow> Q rest rest') \<Longrightarrow>
   (\<And>t. t \<in> targets i \<Longrightarrow> rel_option Q (find_label t b) (find_label t b')) \<Longrightarrow>
   equi_step (next_conf M) b b' Q (i # rest) (i # rest')"
  using same_head by (auto simp: equi_step_def)

lemma retarget_head:
  assumes "branch_target i = Some t"
    and "\<not> is_unconditional_transfer i \<Longrightarrow> Q rest rest'"
    and "rel_option Q (find_label t b) (find_label t' b')"
  shows "equi_step (next_conf M) b b' Q (i # rest) (replace_branch_target t' t i # rest')"
  using assms by (cases i) (auto simp: equi_step_def split: option.splits intro: goto_label_rel)

end

subsection \<open>Constant branches\<close>

definition folded_away :: "instr \<Rightarrow> bool" where
  "folded_away i \<longleftrightarrow> (\<exists>l op r t. i = BranchFalse (VInt l) op (VInt r) t \<and>
     evaluate_constant_comparison l op r = Some True)"

definition head_kept :: "(instr \<Rightarrow> bool) \<Rightarrow> instr list \<Rightarrow> bool" where
  "head_kept dropped z \<longleftrightarrow> (case z of [] \<Rightarrow> True | i # _ \<Rightarrow> \<not> dropped i)"

lemma fold_constant_branches_drop:
  "folded_away i \<Longrightarrow> fold_constant_branches (i # rest) = fold_constant_branches rest"
  by (auto simp: folded_away_def)

lemma fold_constant_branches_keep:
  assumes "\<not> folded_away i"
  shows "fold_constant_branches (i # rest) = i # fold_constant_branches rest \<or>
    (\<exists>l op r t. i = BranchFalse (VInt l) op (VInt r) t \<and>
       evaluate_constant_comparison l op r = Some False \<and>
       fold_constant_branches (i # rest) = Jump t # fold_constant_branches rest)"
proof (cases i)
  case (BranchFalse l op r t)
  with assms show ?thesis
    by (cases l; cases r) (auto simp: folded_away_def split: option.splits bool.splits)
qed auto

lemma find_label_fold_constant_branches:
  "find_label t (fold_constant_branches b) = map_option fold_constant_branches (find_label t b)"
proof (induction b)
  case (Cons i b)
  show ?case
  proof (cases "folded_away i")
    case True
    with Cons show ?thesis by (auto simp: fold_constant_branches_drop folded_away_def)
  next
    case False
    from fold_constant_branches_keep [OF this, of b] Cons show ?thesis by auto
  qed
qed simp

context control_machine
begin

lemma fold_constant_branches_sound:
  assumes exact: "\<And>l op r t c s. BranchFalse (VInt l) op (VInt r) t \<in> set b \<Longrightarrow>
      evaluate_constant_comparison l op r = Some c \<Longrightarrow> holds M (VInt l) op (VInt r) s = Some c"
  shows "exec (next_conf M) (fold_constant_branches b) (fold_constant_branches b) s out \<longleftrightarrow> exec (next_conf M) b b s out"
proof -
  let ?T = "fold_constant_branches" and ?ok = "head_kept folded_away"
  have reach: "related (next_conf M) b (?T b) ?T ?ok x (?T x)" if "suffix x b" for x
    using that
  proof (induction x)
    case Nil
    have "?ok []" by (simp add: head_kept_def)
    with Nil relatedI [of "[]" b ?ok "next_conf M" "?T b" ?T] show ?case by simp
  next
    case (Cons i x)
    show ?case
    proof (cases "folded_away i")
      case True
      then obtain l op r t where i: "i = BranchFalse (VInt l) op (VInt r) t"
        and "evaluate_constant_comparison l op r = Some True" by (auto simp: folded_away_def)
      with exact Cons.prems have "silent (next_conf M) b (i # x) x"
        by (auto simp: silent_def dest!: suffix_in_set)
      with Cons True show ?thesis
        by (simp add: fold_constant_branches_drop related_left suffix_tl)
    next
      case False
      with Cons.prems show ?thesis by (intro relatedI) (auto simp: head_kept_def)
    qed
  qed
  have tg: "rel_option (related (next_conf M) b (?T b) ?T ?ok) (find_label t b) (find_label t (?T b))" for t
    by (rule rel_option_map_SomeI [OF find_label_fold_constant_branches])
       (simp add: reach find_label_suffix)
  have progress: "(z = [] \<and> ?T z = []) \<or> equi_step (next_conf M) b (?T b) (related (next_conf M) b (?T b) ?T ?ok) z (?T z)"
    if "suffix z b" "?ok z" for z
  proof (cases z)
    case (Cons i x)
    with that have i: "\<not> folded_away i" "suffix x b"
      by (auto simp: head_kept_def dest: suffix_tl)
    from fold_constant_branches_keep [OF i(1), of x] show ?thesis
    proof (elim disjE exE conjE)
      assume "?T (i # x) = i # ?T x"
      with Cons reach [OF i(2)] tg show ?thesis by (simp add: same_head_step)
    next
      fix l op r t assume *: "i = BranchFalse (VInt l) op (VInt r) t"
        "evaluate_constant_comparison l op r = Some False" "?T (i # x) = Jump t # ?T x"
      with exact that Cons have "holds M (VInt l) op (VInt r) s = Some False" for s
        by (auto dest!: suffix_in_set)
      with * Cons tg show ?thesis by (simp add: equi_step_def goto_label_rel)
    qed
  qed simp
  from upto_sound [OF reach progress] show ?thesis by blast
qed

end

subsection \<open>Unreachable code\<close>

lemma find_label_skip_unreachable:
  "find_label t (skip_unreachable sk b) = map_option (skip_unreachable False) (find_label t b)"
  by (induction sk b rule: skip_unreachable.induct) auto

context control_machine
begin

lemma eliminate_unreachable_code_sound:
  "exec (next_conf M) (eliminate_unreachable_code b) (eliminate_unreachable_code b) s out \<longleftrightarrow> exec (next_conf M) b b s out"
proof -
  let ?T = "skip_unreachable False" and ?ok = "\<lambda>_ :: instr list. True"
  have reach: "related (next_conf M) b (?T b) ?T ?ok x (?T x)" if "suffix x b" for x
    using that by (intro relatedI) auto
  have tg: "rel_option (related (next_conf M) b (?T b) ?T ?ok) (find_label t b) (find_label t (?T b))" for t
    by (rule rel_option_map_SomeI [OF find_label_skip_unreachable])
       (simp add: reach find_label_suffix)
  have progress: "(z = [] \<and> ?T z = []) \<or> equi_step (next_conf M) b (?T b) (related (next_conf M) b (?T b) ?T ?ok) z (?T z)"
    if "suffix z b" for z
  proof (cases z)
    case (Cons i x)
    have T: "?T (i # x) = i # skip_unreachable (is_unconditional_transfer i) x"
      by (cases i) auto
    have "equi_step (next_conf M) b (?T b) (related (next_conf M) b (?T b) ?T ?ok) (i # x) (i # skip_unreachable (is_unconditional_transfer i) x)"
      using that Cons by (intro same_head_step tg) (auto intro: reach suffix_tl)
    with T Cons show ?thesis by simp
  qed simp
  from upto_sound [OF reach progress] show ?thesis
    by (simp add: eliminate_unreachable_code_def)
qed

end

end
