(* ===== verification/Label_Passes.thy ===== *)
theory Label_Passes
  imports Control_Passes
begin

text \<open>
  The passes that move, retarget or drop labels and jumps: trampolines, the inverted branch over a
  jump, the jump to the next label and the dead labels.  They need the label discipline \<open>labels_ok\<close> of
  a lowered body; every pass keeps it.
\<close>

subsection \<open>Looking past metadata\<close>

lemma next_non_metadata_split:
  "next_non_metadata rest = (meta, w) \<Longrightarrow> rest = meta @ w \<and> (\<forall>i \<in> set meta. is_LoopBoundary i)"
  by (auto simp: next_non_metadata_def dest: takeWhile_all)

lemma boundary_not_label: "is_LoopBoundary i \<Longrightarrow> \<not> is_Label i"
  by (cases i) auto

lemma find_label_meta [simp]:
  "\<forall>i \<in> set meta. is_LoopBoundary i \<Longrightarrow> find_label t (meta @ x) = find_label t x"
  by (rule find_label_skip) (simp add: boundary_not_label)

lemma label_names_meta [simp]:
  "\<forall>i \<in> set meta. is_LoopBoundary i \<Longrightarrow> label_names (meta @ x) = label_names x"
  by (simp add: boundary_not_label label_names_no_labels)

lemma find_label_at_suffix:
  assumes "labels_ok b" "suffix (pre @ Label l # w) b"
  shows "find_label l b = Some w"
proof -
  from assms(2) obtain u where "b = (u @ pre) @ Label l # w" by (auto simp: suffix_def)
  with assms(1) find_label_distinct [of "u @ pre" l w] show ?thesis
    by (simp add: labels_ok_def)
qed

subsection \<open>Trampolines\<close>

lemma trampoline_table_sound:
  "(l, t) \<in> set (trampoline_table refs x acc) \<Longrightarrow> (l, t) \<in> set acc \<or>
     (\<exists>rest meta w. suffix (Label l # rest) x \<and> next_non_metadata rest = (meta, Jump t # w))"
proof (induction x arbitrary: acc)
  case (Cons i x)
  consider "trampoline_table refs (i # x) acc = trampoline_table refs x acc"
    | t' l' meta w where "i = Label l'" "next_non_metadata x = (meta, Jump t' # w)"
        "trampoline_table refs (i # x) acc = trampoline_table refs x ((l', t') # acc)"
  proof (cases i)
    case (Label l')
    obtain meta z where nm: "next_non_metadata x = (meta, z)" by fastforce
    show ?thesis
    proof (cases z)
      case (Cons j w)
      show ?thesis
      proof (cases "is_Jump j \<and> l' \<notin> refs \<and> j \<noteq> Jump l'")
        case True
        then obtain t' where "j = Jump t'" by (cases j) auto
        with True Label nm Cons show ?thesis by (intro that(2)) auto
      next
        case False
        with Label nm Cons show ?thesis by (intro that(1), cases j) auto
      qed
    qed (use Label nm that in auto)
  qed (use that in auto)
  then show ?case
  proof cases
    case 1
    with Cons.prems have "(l, t) \<in> set (trampoline_table refs x acc)" by simp
    from Cons.IH [OF this] show ?thesis by (meson suffix_ConsI)
  next
    case 2
    with Cons.prems have "(l, t) \<in> set (trampoline_table refs x ((l', t') # acc))" by simp
    from Cons.IH [OF this] 2(1,2) show ?thesis by (auto intro: suffix_ConsI)
  qed
qed simp

lemma trampoline_silent:
  assumes ok: "labels_ok b" and t: "map_of (trampoline_table refs b []) l = Some t"
    and d: "find_label l b = Some d"
  shows "\<exists>d'. find_label t b = Some d' \<and> (silent (next_conf M) b)\<^sup>*\<^sup>* d d'"
proof -
  from trampoline_table_sound [OF map_of_SomeD [OF t]] obtain rest meta w
    where "suffix (Label l # rest) b" and nm: "next_non_metadata rest = (meta, Jump t # w)" by auto
  with find_label_at_suffix [OF ok, of "[]"] d have rest: "rest = d" by simp
  from next_non_metadata_split [OF nm] rest
  have split: "d = meta @ Jump t # w" "\<forall>i \<in> set meta. is_LoopBoundary i" by auto
  from d have "suffix (Jump t # w) b"
    by (auto simp: split(1) dest!: find_label_suffix suffix_drop_prefix)
  then have "Jump t \<in> set b" by (rule suffix_in_set)
  with labels_ok_target [OF ok, of "Jump t" t] obtain d' where d': "find_label t b = Some d'" by auto
  have "(silent (next_conf M) b)\<^sup>*\<^sup>* (meta @ Jump t # w) d'"
    using split(2)
  proof (induction meta)
    case Nil
    from silent_Jump [OF d', of M] show ?case by auto
  next
    case (Cons i meta)
    then have "silent (next_conf M) b (i # meta @ Jump t # w) (meta @ Jump t # w)"
      by (simp add: silent_boundary)
    with Cons show ?case by (simp add: converse_rtranclp_into_rtranclp)
  qed
  with d' split show ?thesis by auto
qed

definition leads :: "('v, 's) machine \<Rightarrow> instr list \<Rightarrow> string \<Rightarrow> string \<Rightarrow> bool" where
  "leads M b l t \<longleftrightarrow> (\<forall>d. find_label l b = Some d \<longrightarrow>
     (\<exists>d'. find_label t b = Some d' \<and> (silent (next_conf M) b)\<^sup>*\<^sup>* d d'))"

lemma leadsD:
  "leads M b l t \<Longrightarrow> find_label l b = Some d \<Longrightarrow>
   \<exists>d'. find_label t b = Some d' \<and> (silent (next_conf M) b)\<^sup>*\<^sup>* d d'"
  by (simp add: leads_def)

lemma leads_refl [simp]: "leads M b l l"
  by (simp add: leads_def)

lemma leads_trans: "leads M b l t \<Longrightarrow> leads M b t u \<Longrightarrow> leads M b l u"
  unfolding leads_def by (meson rtranclp_trans)

lemma resolve_label_leads:
  assumes "\<And>l t. map_of table l = Some t \<Longrightarrow> leads M b l t"
  shows "leads M b current (resolve_label table seen current)"
  using assms
proof (induction table seen current rule: resolve_label.induct)
  case (1 table seen current)
  show ?case
  proof (cases "map_of table current")
    case (Some t)
    with 1 have "leads M b current t" by blast
    with Some 1 show ?thesis
      by (auto simp: resolve_label.simps [of table seen current] intro: leads_trans)
  qed (simp add: resolve_label.simps)
qed

lemma forward_branch_cases:
  "forward_branch table i = i \<or>
   (\<exists>t r. branch_target i = Some t \<and> r = resolve_label table [] t \<and>
      forward_branch table i = replace_branch_target r t i)"
  by (auto simp: forward_branch_def Let_def split: option.splits)

lemma forward_branch_Label: "forward_branch table i = Label l \<longleftrightarrow> i = Label l"
  by (cases i) (auto simp: forward_branch_def Let_def)

lemma find_label_forward:
  "find_label t (map (forward_branch table) b) = map_option (map (forward_branch table)) (find_label t b)"
  by (induction b) (auto simp: forward_branch_Label)

lemma label_names_forward: "label_names (map (forward_branch table) b) = label_names b"
proof (induction b)
  case (Cons i b)
  then show ?case by (cases i) (auto simp: forward_branch_def Let_def)
qed simp

lemma related_silents:
  "(silent (next_conf M) b)\<^sup>*\<^sup>* x x' \<Longrightarrow> related (next_conf M) b b' T ok x' y \<Longrightarrow> related (next_conf M) b b' T ok x y"
  by (induction rule: converse_rtranclp_induct) (auto intro: related_left)

context control_machine
begin

lemma forward_trivial_labels_sound:
  assumes ok: "labels_ok b"
  shows "exec (next_conf M) (forward_trivial_labels b) (forward_trivial_labels b) s out \<longleftrightarrow> exec (next_conf M) b b s out"
proof -
  define table where "table = trampoline_table (collect_ast_goto_targets b) b []"
  let ?T = "map (forward_branch table)" and ?ok = "\<lambda>_ :: instr list. True"
  have reach: "related (next_conf M) b (?T b) ?T ?ok x (?T x)" if "suffix x b" for x
    using that by (intro relatedI) auto
  have leads: "leads M b t (resolve_label table [] t)" for t
    unfolding table_def
    by (rule resolve_label_leads) (use trampoline_silent [OF ok] in \<open>auto simp: leads_def\<close>)
  have tg: "rel_option (related (next_conf M) b (?T b) ?T ?ok) (find_label t b) (find_label t (?T b))" for t
    by (rule rel_option_map_SomeI [OF find_label_forward]) (simp add: reach find_label_suffix)
  have progress: "(z = [] \<and> ?T z = []) \<or> equi_step (next_conf M) b (?T b) (related (next_conf M) b (?T b) ?T ?ok) z (?T z)"
    if "suffix z b" for z
  proof (cases z)
    case (Cons i x)
    with that have x: "suffix x b" and i: "i \<in> set b" by (auto dest: suffix_tl suffix_in_set)
    from forward_branch_cases [of table i] show ?thesis
    proof (elim disjE exE conjE)
      assume "forward_branch table i = i"
      with Cons reach [OF x] tg show ?thesis by (simp add: same_head_step)
    next
      fix t r assume t: "branch_target i = Some t" and r: "r = resolve_label table [] t"
        and f: "forward_branch table i = replace_branch_target r t i"
      from labels_ok_target [OF ok i, of t] t obtain d where d: "find_label t b = Some d"
        by (auto simp: targets_def)
      from leadsD [OF leads d] r obtain d' where
        d': "find_label r b = Some d'" "(silent (next_conf M) b)\<^sup>*\<^sup>* d d'" by auto
      then have "related (next_conf M) b (?T b) ?T ?ok d (?T d')"
        by (intro related_silents [OF d'(2)] reach) (rule find_label_suffix [OF d'(1)])
      with d d' have "rel_option (related (next_conf M) b (?T b) ?T ?ok) (find_label t b) (find_label r (?T b))"
        by (simp add: find_label_forward)
      with t f Cons reach [OF x] show ?thesis by (auto intro!: retarget_head)
    qed
  qed simp
  from upto_sound [OF reach progress] show ?thesis
    by (auto simp: forward_trivial_labels_def table_def Let_def)
qed

end

subsection \<open>A jump to the label that follows\<close>

text \<open>\<open>jumps_to_next i rest follow\<close>: \<open>i\<close> jumps to the label that follows it past metadata.\<close>

definition jumps_to_next :: "instr \<Rightarrow> instr list \<Rightarrow> bool" where
  "jumps_to_next i rest \<longleftrightarrow> (\<exists>t meta follow. i = Jump t \<and> next_non_metadata rest = (meta, Label t # follow))"

lemma collapse_keep:
  assumes "\<not> jumps_to_next i rest"
  shows "collapse_jump_to_next_label (i # rest) = i # collapse_jump_to_next_label rest"
proof (cases i)
  case (Jump t)
  obtain meta z where nm: "next_non_metadata rest = (meta, z)" by fastforce
  show ?thesis
  proof (cases z)
    case (Cons j w)
    with assms Jump nm show ?thesis by (cases j) (auto simp: jumps_to_next_def)
  qed (use Jump nm in simp)
qed auto

lemma collapse_Label: "collapse_jump_to_next_label (Label l # x) = Label l # collapse_jump_to_next_label x"
  by simp

lemma collapse_meet:
  "next_non_metadata rest = (meta, Label t # follow) \<Longrightarrow>
   collapse_jump_to_next_label (Jump t # rest) = meta @ Label t # collapse_jump_to_next_label follow"
  by simp

declare collapse_jump_to_next_label.simps(2) [simp del]

lemma collapse_drop:
  assumes "jumps_to_next i rest"
  obtains t meta follow where "i = Jump t" "rest = meta @ Label t # follow"
    "\<forall>j \<in> set meta. is_LoopBoundary j"
    "collapse_jump_to_next_label (i # rest) = meta @ Label t # collapse_jump_to_next_label follow"
proof -
  from assms obtain t meta follow where
    "i = Jump t" and nm: "next_non_metadata rest = (meta, Label t # follow)"
    by (auto simp: jumps_to_next_def)
  with that next_non_metadata_split [OF nm] collapse_meet [OF nm] show thesis by blast
qed

lemma find_label_collapse:
  "find_label l (collapse_jump_to_next_label b) =
   map_option collapse_jump_to_next_label (find_label l b)"
proof (induction b rule: length_induct)
  case (1 b)
  show ?case
  proof (cases b)
    case (Cons i rest)
    show ?thesis
    proof (cases "jumps_to_next i rest")
      case True
      then obtain t meta follow where s: "i = Jump t" "rest = meta @ Label t # follow"
        "\<forall>j \<in> set meta. is_LoopBoundary j"
        "collapse_jump_to_next_label (i # rest) = meta @ Label t # collapse_jump_to_next_label follow"
        by (rule collapse_drop)
      with 1 Cons have "find_label l (collapse_jump_to_next_label follow) =
          map_option collapse_jump_to_next_label (find_label l follow)" by simp
      with s Cons show ?thesis by (simp)
    next
      case False
      with 1 Cons show ?thesis by (simp add: collapse_keep)
    qed
  qed simp
qed

lemma silents_meta: "\<forall>i \<in> set meta. is_LoopBoundary i \<Longrightarrow> (silent (next_conf M) b)\<^sup>*\<^sup>* (meta @ x) x"
proof (induction meta)
  case (Cons i meta)
  then have "silent (next_conf M) b (i # meta @ x) (meta @ x)" by (simp add: silent_boundary)
  with Cons show ?case by (simp add: converse_rtranclp_into_rtranclp)
qed simp

definition head_moves :: "instr list \<Rightarrow> bool" where
  "head_moves z \<longleftrightarrow> (case z of [] \<Rightarrow> True | i # rest \<Rightarrow> \<not> jumps_to_next i rest)"

lemma collapse_related:
  assumes ok: "labels_ok b"
  shows "suffix x b \<Longrightarrow> related (next_conf M) b (collapse_jump_to_next_label b) collapse_jump_to_next_label head_moves
     x (collapse_jump_to_next_label x)"
proof (induction x rule: length_induct)
  case (1 x)
  show ?case
  proof (cases "head_moves x")
    case True
    with 1 show ?thesis by (intro relatedI)
  next
    case False
    then obtain i rest where x: "x = i # rest" "jumps_to_next i rest"
      by (auto simp: head_moves_def split: list.splits)
    then obtain t meta follow where s: "i = Jump t" "rest = meta @ Label t # follow"
      "\<forall>j \<in> set meta. is_LoopBoundary j"
      "collapse_jump_to_next_label (i # rest) = meta @ Label t # collapse_jump_to_next_label follow"
      using collapse_drop by blast
    from "1.prems" x s have suf: "suffix ((Jump t # meta) @ Label t # follow) b" by simp
    from find_label_at_suffix [OF ok suf] have jump: "silent (next_conf M) b x follow"
      unfolding x s(1) by (rule silent_Jump)
    from suf have "suffix follow b" by (metis suffix_drop_prefix suffix_tl)
    with 1 x s have "related (next_conf M) b (collapse_jump_to_next_label b) collapse_jump_to_next_label head_moves
       follow (collapse_jump_to_next_label follow)" by simp
    then have "related (next_conf M) b (collapse_jump_to_next_label b) collapse_jump_to_next_label head_moves
       x (Label t # collapse_jump_to_next_label follow)"
      by (intro related_left [OF jump] related_right [OF silent_Label])
    then show ?thesis unfolding x s(4) by (rule related_right_boundaries [OF s(3)])
  qed
qed

context control_machine
begin

lemma collapse_jump_to_next_label_sound:
  assumes ok: "labels_ok b"
  shows "exec (next_conf M) (collapse_jump_to_next_label b) (collapse_jump_to_next_label b) s out \<longleftrightarrow>
    exec (next_conf M) b b s out"
proof -
  let ?T = collapse_jump_to_next_label
  note reach = collapse_related [OF ok, of _ M]
  have tg: "rel_option (related (next_conf M) b (?T b) ?T head_moves) (find_label t b) (find_label t (?T b))" for t
    by (rule rel_option_map_SomeI [OF find_label_collapse]) (simp add: reach find_label_suffix)
  have progress: "(z = [] \<and> ?T z = []) \<or> equi_step (next_conf M) b (?T b) (related (next_conf M) b (?T b) ?T head_moves) z (?T z)"
    if "suffix z b" "head_moves z" for z
  proof (cases z)
    case (Cons i x)
    with that have "suffix x b" "\<not> jumps_to_next i x"
      by (auto simp: head_moves_def dest: suffix_tl)
    with Cons reach [of x] tg show ?thesis by (simp add: collapse_keep same_head_step)
  qed simp
  from upto_sound [OF reach progress] show ?thesis by blast
qed

end

subsection \<open>Dead labels\<close>

lemma target_referenced: "i \<in> set b \<Longrightarrow> targets i \<subseteq> collect_all_label_references b"
  by (cases i) (fastforce simp: targets_def inner_labels_def collect_ast_goto_targets_def
      collect_all_label_references.simps [of b])+

definition dead_label :: "instr list \<Rightarrow> instr \<Rightarrow> bool" where
  "dead_label b i \<longleftrightarrow> (\<exists>l. i = Label l \<and> l \<notin> collect_all_label_references b)"

lemma eliminate_dead_labels_alt: "eliminate_dead_labels b = filter (\<lambda>i. \<not> dead_label b i) b"
  unfolding eliminate_dead_labels_def dead_label_def
  by (rule filter_cong) (auto split: instr.splits)

lemma find_label_filter_live:
  "t \<in> collect_all_label_references b \<Longrightarrow>
   find_label t (filter (\<lambda>i. \<not> dead_label b i) x) =
   map_option (filter (\<lambda>i. \<not> dead_label b i)) (find_label t x)"
  by (induction x) (auto simp: dead_label_def)

context control_machine
begin

lemma eliminate_dead_labels_sound:
  "exec (next_conf M) (eliminate_dead_labels b) (eliminate_dead_labels b) s out \<longleftrightarrow> exec (next_conf M) b b s out"
proof -
  let ?T = "filter (\<lambda>i. \<not> dead_label b i)" and ?ok = "head_kept (dead_label b)"
  have reach: "related (next_conf M) b (?T b) ?T ?ok x (?T x)" if "suffix x b" for x
    using that
  proof (induction x)
    case Nil
    have "?ok []" by (simp add: head_kept_def)
    with Nil relatedI [of "[]" b ?ok "next_conf M" "?T b" ?T] show ?case by simp
  next
    case (Cons i x)
    show ?case
    proof (cases "dead_label b i")
      case True
      with Cons show ?thesis
        by (auto simp: dead_label_def intro: related_left [OF silent_Label] dest: suffix_tl)
    next
      case False
      with Cons.prems show ?thesis by (intro relatedI) (auto simp: head_kept_def)
    qed
  qed
  have tg: "t \<in> collect_all_label_references b \<Longrightarrow>
      rel_option (related (next_conf M) b (?T b) ?T ?ok) (find_label t b) (find_label t (?T b))" for t
    by (rule rel_option_map_SomeI [OF find_label_filter_live]) (simp_all add: reach find_label_suffix)
  have progress: "(z = [] \<and> ?T z = []) \<or> equi_step (next_conf M) b (?T b) (related (next_conf M) b (?T b) ?T ?ok) z (?T z)"
    if "suffix z b" "?ok z" for z
  proof (cases z)
    case (Cons i x)
    with that have i: "\<not> dead_label b i" "suffix x b" "i \<in> set b"
      by (auto simp: head_kept_def dest: suffix_tl suffix_in_set)
    with Cons reach [of x] tg target_referenced [OF i(3)] show ?thesis
      by (auto intro!: same_head_step)
  qed simp
  from upto_sound [OF reach progress] show ?thesis
    by (simp add: eliminate_dead_labels_alt)
qed

end

subsection \<open>A branch over a jump\<close>

text \<open>
  \<open>inverts i rest i' meta after\<close>: the branch \<open>i\<close> skips over the jump that follows it, and \<open>i'\<close> is the
  opposite branch straight to the jump's destination.
\<close>

definition inverts :: "instr \<Rightarrow> instr list \<Rightarrow> instr \<Rightarrow> instr list \<Rightarrow> string \<Rightarrow> instr list \<Rightarrow> bool" where
  "inverts i rest i' meta jt after \<longleftrightarrow> is_conditional_branch i \<and>
     next_non_metadata rest = (meta, Jump jt # after) \<and> inverted_branch i jt = Some i' \<and>
     (\<exists>meta2 l w. next_non_metadata after = (meta2, Label l # w) \<and> branch_target i = Some l)"

lemma invert_drop:
  "inverts i rest i' meta jt after \<Longrightarrow>
   invert_branch_over_jump (i # rest) = i' # meta @ invert_branch_over_jump after"
  by (auto simp: inverts_def)

lemma invert_keep:
  assumes no: "\<nexists>i' meta jt after. inverts i rest i' meta jt after"
  shows "invert_branch_over_jump (i # rest) = i # invert_branch_over_jump rest"
proof (cases "is_conditional_branch i")
  case cond: True
  obtain meta z where nm: "next_non_metadata rest = (meta, z)" by fastforce
  show ?thesis
  proof (cases "\<exists>jt after. z = Jump jt # after")
    case True
    then obtain jt after where z: "z = Jump jt # after" by blast
    obtain meta2 y where nm2: "next_non_metadata after = (meta2, y)" by fastforce
    show ?thesis
    proof (cases "\<exists>l w. y = Label l # w \<and> branch_target i = Some l")
      case True
      with no cond nm nm2 z have "inverted_branch i jt = None"
        by (cases "inverted_branch i jt") (auto simp: inverts_def)
      with True nm nm2 z show ?thesis by auto
    next
      case False
      with nm nm2 z show ?thesis by (cases y) (auto split: instr.splits)
    qed
  next
    case False
    with nm show ?thesis by (cases z) (auto split: instr.splits)
  qed
qed simp

lemma invert_boundary: "is_LoopBoundary i \<or> is_Label i \<Longrightarrow>
    invert_branch_over_jump (i # rest) = i # invert_branch_over_jump rest"
  by (cases i) auto

declare invert_branch_over_jump.simps(2) [simp del]

lemma invert_meta [simp]:
  "\<forall>i \<in> set meta. is_LoopBoundary i \<Longrightarrow>
   invert_branch_over_jump (meta @ x) = meta @ invert_branch_over_jump x"
  by (induction meta) (auto simp: invert_boundary)

lemma inverts_split:
  assumes "inverts i rest i' meta jt after"
  obtains meta2 l w where "rest = meta @ Jump jt # after" "after = meta2 @ Label l # w"
    "\<forall>j \<in> set meta. is_LoopBoundary j" "\<forall>j \<in> set meta2. is_LoopBoundary j"
    "branch_target i = Some l" "inverted_branch i jt = Some i'"
  using assms unfolding inverts_def by (metis next_non_metadata_split)

lemma inverted_branch_not_label: "inverted_branch i jt = Some i' \<Longrightarrow> \<not> is_Label i \<and> \<not> is_Label i'"
  by (cases i) auto

lemma find_label_cons_other: "\<not> is_Label i \<Longrightarrow> find_label t (i # x) = find_label t x"
  by auto

lemma find_label_invert:
  "find_label l (invert_branch_over_jump b) = map_option invert_branch_over_jump (find_label l b)"
proof (induction b rule: length_induct)
  case (1 b)
  show ?case
  proof (cases b)
    case (Cons i rest)
    show ?thesis
    proof (cases "\<exists>i' meta jt after. inverts i rest i' meta jt after")
      case True
      then obtain i' meta jt after where inv: "inverts i rest i' meta jt after" by blast
      then obtain meta2 k w where s: "rest = meta @ Jump jt # after" "\<forall>j \<in> set meta. is_LoopBoundary j"
        "inverted_branch i jt = Some i'" by (rule inverts_split)
      with 1 Cons have "find_label l (invert_branch_over_jump after) =
          map_option invert_branch_over_jump (find_label l after)" by simp
      moreover have "\<not> is_Label i" "\<not> is_Label i'" using inverted_branch_not_label [OF s(3)] by auto
      ultimately show ?thesis
        using invert_drop [OF inv] s(2) unfolding Cons s(1) by (simp add: find_label_cons_other del: find_label.simps(2))
    next
      case False
      with 1 Cons show ?thesis by (simp add: invert_keep)
    qed
  qed simp
qed

context control_machine
begin

text \<open>The two branches meet: one falls through where the other jumps.\<close>

lemma inverted_step:
  assumes "inverted_branch i jt = Some i'" and "branch_target i = Some l"
    and "Q rest d'" and "find_label l b = Some d" and "find_label jt b' = Some d'" and "Q d rest'"
  shows "equi_step (next_conf M) b b' Q (i # rest) (i' # rest')"
proof (cases i)
  case (BranchFalse x op y t)
  with assms show ?thesis
    by (auto simp: equi_step_def goto_label_def invert split: option.splits)
next
  case (CarryBranch c t w)
  with assms show ?thesis
    by (auto simp: equi_step_def goto_label_def split: option.splits)
qed (use assms in auto)

lemma invert_branch_over_jump_sound:
  assumes ok: "labels_ok b"
  shows "exec (next_conf M) (invert_branch_over_jump b) (invert_branch_over_jump b) s out \<longleftrightarrow> exec (next_conf M) b b s out"
proof -
  let ?T = invert_branch_over_jump and ?ok = "\<lambda>_ :: instr list. True"
  have reach: "related (next_conf M) b (?T b) ?T ?ok x (?T x)" if "suffix x b" for x
    using that by (intro relatedI) auto
  have tg: "rel_option (related (next_conf M) b (?T b) ?T ?ok) (find_label t b) (find_label t (?T b))" for t
    by (rule rel_option_map_SomeI [OF find_label_invert]) (simp add: reach find_label_suffix)
  have progress: "(z = [] \<and> ?T z = []) \<or> equi_step (next_conf M) b (?T b) (related (next_conf M) b (?T b) ?T ?ok) z (?T z)"
    if z: "suffix z b" for z
  proof (cases z)
    case (Cons i x)
    show ?thesis
    proof (cases "\<exists>i' meta jt after. inverts i x i' meta jt after")
      case True
      then obtain i' meta jt after where inv: "inverts i x i' meta jt after" by blast
      then obtain meta2 l w where s: "x = meta @ Jump jt # after" "after = meta2 @ Label l # w"
        "\<forall>j \<in> set meta. is_LoopBoundary j" "\<forall>j \<in> set meta2. is_LoopBoundary j"
        "branch_target i = Some l" "inverted_branch i jt = Some i'" by (rule inverts_split)
      from z Cons s(1,2) have suf: "suffix ((i # meta @ Jump jt # meta2) @ Label l # w) b" by simp
      from find_label_at_suffix [OF ok suf] have l: "find_label l b = Some w" .
      have "suffix (Jump jt # after) b"
        using z Cons s(1) suffix_drop_prefix [of "i # meta" "Jump jt # after"] by simp
      then have "Jump jt \<in> set b" by (rule suffix_in_set)
      with labels_ok_target [OF ok, of "Jump jt" jt] obtain d where d: "find_label jt b = Some d"
        by auto
      have "related (next_conf M) b (?T b) ?T ?ok (meta @ Jump jt # after) (?T d)"
        by (intro related_left_boundaries [OF s(3)] related_left [OF silent_Jump [OF d]] reach
            find_label_suffix [OF d])
      moreover have "related (next_conf M) b (?T b) ?T ?ok w (meta @ ?T after)"
        unfolding s(2) invert_meta [OF s(4)] invert_boundary [of "Label l", simplified]
        by (intro related_right_boundaries s related_right [OF silent_Label] reach
            find_label_suffix [OF l])
      moreover have "find_label jt (?T b) = Some (?T d)" by (simp add: find_label_invert d)
      ultimately show ?thesis
        using inverted_step [OF s(6,5), where rest = x and d' = "?T d" and d = w and
            rest' = "meta @ ?T after" and Q = "related (next_conf M) b (?T b) ?T ?ok"] l
        unfolding Cons s(1) invert_drop [OF inv [unfolded s(1)]] by blast
    next
      case False
      with z Cons reach [of x] tg show ?thesis
        by (auto simp: invert_keep intro!: same_head_step dest: suffix_tl)
    qed
  qed simp
  from upto_sound [OF reach progress] show ?thesis by blast
qed

end

end
