(* ===== verification/Control_Pipeline.thy ===== *)
theory Control_Pipeline
  imports Label_Passes
begin

text \<open>
  \<open>_simplify_control_flow\<close> as a pipeline.  A pass that keeps a well-formedness predicate and the runs
  of a body is a \<open>body_pass\<close>; the contract composes, iterates, and is discharged here for each
  control-flow pass on the 32-bit machine.
\<close>

subsection \<open>The contract of a pass\<close>

locale body_pass =
  fixes M :: "('v, 's) machine" and wf :: "instr list \<Rightarrow> bool" and T :: "instr list \<Rightarrow> instr list"
  assumes keeps: "wf b \<Longrightarrow> wf (T b)"
    and same_runs: "wf b \<Longrightarrow> runs M (T b) s out \<longleftrightarrow> runs M b s out"
begin

lemma iterate: "wf b \<Longrightarrow> wf ((T ^^ n) b) \<and> (runs M ((T ^^ n) b) s out \<longleftrightarrow> runs M b s out)"
  by (induction n) (auto simp: keeps same_runs)

lemma then_pass: "body_pass M wf U \<Longrightarrow> body_pass M wf (\<lambda>b. U (T b))"
  by (simp add: body_pass_def keeps same_runs)

end

subsection \<open>Well-formed bodies\<close>

definition literal_exact :: "instr \<Rightarrow> bool" where
  "literal_exact i \<longleftrightarrow> (case i of
      BranchFalse (VInt l) op (VInt r) t \<Rightarrow> (word_of_int l = (word_of_int r :: word32)) = (l = r)
    | _ \<Rightarrow> True)"

definition instr_ok :: "string set \<Rightarrow> instr \<Rightarrow> bool" where
  "instr_ok L i \<longleftrightarrow> targets i \<subseteq> L \<and> literal_exact i"

definition well_formed :: "instr list \<Rightarrow> bool" where
  "well_formed b \<longleftrightarrow> distinct (label_names b) \<and> (\<forall>i \<in> set b. instr_ok (set (label_names b)) i)"

lemma well_formed_labels: "well_formed b \<Longrightarrow> labels_ok b"
  by (auto simp: well_formed_def labels_ok_def instr_ok_def)

lemma instr_ok_simps [simp]:
  "instr_ok L (Jump t) \<longleftrightarrow> t \<in> L" "instr_ok L (Label l)" "instr_ok L (LoopBoundary ct e p)"
  "instr_ok L (CarryBranch c t w) \<longleftrightarrow> t \<in> L"
  by (auto simp: instr_ok_def literal_exact_def)

lemma literal_exact_retarget:
  "literal_exact (BranchFalse l op r t) \<longleftrightarrow> literal_exact (BranchFalse l op' r t')"
  by (simp add: literal_exact_def split: ir_value.splits)

lemma literal_exact_move:
  "literal_exact (BranchFalse l op r t) \<Longrightarrow> literal_exact (BranchFalse l op' r t')"
  by (simp add: literal_exact_retarget [of l op r t op' t'])

lemma instr_ok_BranchFalse:
  "instr_ok L (BranchFalse l op r t) \<longleftrightarrow> t \<in> L \<and> literal_exact (BranchFalse l op r t)"
  by (simp add: instr_ok_def)

lemma instr_ok_replace: "instr_ok L i \<Longrightarrow> r \<in> L \<Longrightarrow> instr_ok L (replace_branch_target r t i)"
  by (cases i) (auto simp: instr_ok_BranchFalse intro: literal_exact_move)

lemma instr_ok_inverted:
  "instr_ok L i \<Longrightarrow> jt \<in> L \<Longrightarrow> inverted_branch i jt = Some i' \<Longrightarrow> instr_ok L i'"
  by (cases i) (auto simp: instr_ok_BranchFalse intro: literal_exact_move)

lemma well_formedI:
  "well_formed b \<Longrightarrow> label_names b' = label_names b \<Longrightarrow>
   ((\<forall>i \<in> set b. instr_ok (set (label_names b)) i) \<Longrightarrow> \<forall>i \<in> set b'. instr_ok (set (label_names b)) i) \<Longrightarrow>
   well_formed b'"
  by (auto simp: well_formed_def)

subsection \<open>Every pass keeps well-formedness\<close>

lemma label_names_skip: "\<not> is_Label i \<Longrightarrow> label_names (i # b) = label_names b"
  by (cases i) auto

lemma label_names_cong: "label_names x = label_names y \<Longrightarrow> label_names (i # x) = label_names (i # y)"
  by (cases i) auto

lemma label_names_fold_constant_branches: "label_names (fold_constant_branches b) = label_names b"
  by (induction b rule: fold_constant_branches.induct) (auto split: option.splits bool.splits)

lemma instr_ok_fold_constant_branches:
  "\<forall>i \<in> set b. instr_ok L i \<Longrightarrow> \<forall>i \<in> set (fold_constant_branches b). instr_ok L i"
  by (induction b rule: fold_constant_branches.induct)
     (auto simp: instr_ok_BranchFalse split: option.splits bool.splits)

lemma trampoline_target_ok:
  assumes "\<forall>i \<in> set b. instr_ok L i" and "map_of (trampoline_table refs b []) l = Some t"
  shows "t \<in> L"
proof -
  from trampoline_table_sound [OF map_of_SomeD [OF assms(2)]] obtain rest meta w
    where "suffix (Label l # rest) b" "next_non_metadata rest = (meta, Jump t # w)" by auto
  then have "Jump t \<in> set b"
    by (auto dest!: next_non_metadata_split simp: suffix_def)
  with assms(1) show ?thesis by force
qed

lemma resolve_label_in:
  "(\<And>l t. map_of table l = Some t \<Longrightarrow> t \<in> L) \<Longrightarrow> current \<in> L \<Longrightarrow>
   resolve_label table seen current \<in> L"
proof (induction table seen current rule: resolve_label.induct)
  case (1 table seen current)
  show ?case
  proof (cases "map_of table current")
    case (Some t)
    with 1 have "t \<in> L" by blast
    with Some 1 show ?thesis by (auto simp: resolve_label.simps [of table seen current])
  qed (use 1 in \<open>simp add: resolve_label.simps\<close>)
qed

lemma instr_ok_forward:
  assumes "\<And>l t. map_of table l = Some t \<Longrightarrow> t \<in> L" and "instr_ok L i"
  shows "instr_ok L (forward_branch table i)"
  using forward_branch_cases [of table i]
proof (elim disjE exE conjE)
  fix t r assume *: "branch_target i = Some t" "r = resolve_label table [] t"
    "forward_branch table i = replace_branch_target r t i"
  with assms(2) have "t \<in> L" by (auto simp: instr_ok_def targets_def)
  with assms(1) * have "r \<in> L" by (simp add: resolve_label_in)
  with assms(2) * show ?thesis by (simp add: instr_ok_replace)
qed (simp add: assms)

lemma label_names_invert: "label_names (invert_branch_over_jump b) = label_names b"
proof (induction b rule: length_induct)
  case (1 b)
  show ?case
  proof (cases b)
    case (Cons i rest)
    show ?thesis
    proof (cases "\<exists>i' meta jt after. inverts i rest i' meta jt after")
      case True
      then obtain i' meta jt after where inv: "inverts i rest i' meta jt after" by blast
      then obtain meta2 l w where s: "rest = meta @ Jump jt # after" "\<forall>j \<in> set meta. is_LoopBoundary j"
        "inverted_branch i jt = Some i'" by (rule inverts_split)
      with 1 Cons have "label_names (invert_branch_over_jump after) = label_names after" by simp
      moreover have "\<not> is_Label i" "\<not> is_Label i'" using inverted_branch_not_label [OF s(3)] by auto
      ultimately show ?thesis
        using invert_drop [OF inv] s(1,2) Cons
        by (simp add: label_names_skip)
    next
      case False
      with 1 Cons show ?thesis
        by (auto simp: invert_keep intro!: label_names_cong)
    qed
  qed simp
qed

lemma instr_ok_invert:
  "\<forall>i \<in> set b. instr_ok L i \<Longrightarrow> \<forall>i \<in> set (invert_branch_over_jump b). instr_ok L i"
proof (induction b rule: length_induct)
  case (1 b)
  show ?case
  proof (cases b)
    case (Cons i rest)
    show ?thesis
    proof (cases "\<exists>i' meta jt after. inverts i rest i' meta jt after")
      case True
      then obtain i' meta jt after where inv: "inverts i rest i' meta jt after" by blast
      then obtain meta2 l w where s: "rest = meta @ Jump jt # after" "inverted_branch i jt = Some i'"
        by (rule inverts_split)
      with "1.prems" Cons have ok: "instr_ok L i'" "\<forall>i \<in> set after. instr_ok L i"
        "\<forall>i \<in> set meta. instr_ok L i" by (auto intro: instr_ok_inverted)
      have "length after < length b" by (simp add: Cons s(1))
      with "1.IH" ok(2) have "\<forall>i \<in> set (invert_branch_over_jump after). instr_ok L i" by blast
      with ok show ?thesis unfolding Cons invert_drop [OF inv] by auto
    next
      case False
      have "length rest < length b" by (simp add: Cons)
      with 1 Cons have "\<forall>i \<in> set (invert_branch_over_jump rest). instr_ok L i" by auto
      with 1 Cons False show ?thesis by (simp add: invert_keep)
    qed
  qed simp
qed

lemma label_names_collapse: "label_names (collapse_jump_to_next_label b) = label_names b"
proof (induction b rule: length_induct)
  case (1 b)
  show ?case
  proof (cases b)
    case (Cons i rest)
    show ?thesis
    proof (cases "jumps_to_next i rest")
      case True
      then obtain t meta follow where s: "i = Jump t" "rest = meta @ Label t # follow"
        "\<forall>j \<in> set meta. is_LoopBoundary j"
        "collapse_jump_to_next_label (i # rest) = meta @ Label t # collapse_jump_to_next_label follow"
        by (rule collapse_drop)
      with 1 Cons show ?thesis by (simp add: label_names_no_labels boundary_not_label)
    next
      case False
      with 1 Cons show ?thesis by (auto simp: collapse_keep intro!: label_names_cong)
    qed
  qed simp
qed

lemma set_collapse: "set (collapse_jump_to_next_label b) \<subseteq> set b"
proof (induction b rule: length_induct)
  case (1 b)
  show ?case
  proof (cases b)
    case (Cons i rest)
    show ?thesis
    proof (cases "jumps_to_next i rest")
      case True
      then obtain t meta follow where s: "i = Jump t" "rest = meta @ Label t # follow"
        "\<forall>j \<in> set meta. is_LoopBoundary j"
        "collapse_jump_to_next_label (i # rest) = meta @ Label t # collapse_jump_to_next_label follow"
        by (rule collapse_drop)
      with 1 Cons have "set (collapse_jump_to_next_label follow) \<subseteq> set follow" by simp
      with s Cons show ?thesis by auto
    next
      case False
      with 1 Cons show ?thesis by (auto simp: collapse_keep)
    qed
  qed simp
qed

lemma label_names_skip_unreachable: "label_names (skip_unreachable sk b) = label_names b"
proof (induction sk b rule: skip_unreachable.induct)
  case (2 sk i rest)
  then show ?case
    by (auto simp: label_names_skip intro!: label_names_cong)
qed simp

lemma set_skip_unreachable: "set (skip_unreachable sk b) \<subseteq> set b"
  by (induction sk b rule: skip_unreachable.induct) auto

lemma label_names_filter:
  "label_names (filter (\<lambda>i. \<not> dead_label b i) x) =
   filter (\<lambda>l. l \<in> collect_all_label_references b) (label_names x)"
proof (induction x)
  case (Cons i x)
  then show ?case by (cases i) (auto simp: dead_label_def)
qed simp

lemma well_formed_eliminate_dead_labels: "well_formed b \<Longrightarrow> well_formed (eliminate_dead_labels b)"
  using target_referenced [of _ b]
  by (fastforce simp: well_formed_def eliminate_dead_labels_alt label_names_filter instr_ok_def)

subsection \<open>The passes on the 32-bit machine\<close>

lemma constant_branch_exact:
  assumes "literal_exact (BranchFalse (VInt l) op (VInt r) t)"
    and "evaluate_constant_comparison l op r = Some c"
  shows "ir_holds W (VInt l) op (VInt r) s = Some c"
  using assms
  by (auto simp: literal_exact_def evaluate_constant_comparison_def ir_holds_def compare_words_def
      split: if_splits)

interpretation fold_branches_pass: body_pass "ir_machine W" well_formed fold_constant_branches for W
proof
  fix b assume "well_formed b"
  then show "well_formed (fold_constant_branches b)"
    by (rule well_formedI)
       (simp_all add: label_names_fold_constant_branches instr_ok_fold_constant_branches)
next
  fix b s out assume "well_formed b"
  then show "runs (ir_machine W) (fold_constant_branches b) s out \<longleftrightarrow> runs (ir_machine W) b s out"
    unfolding runs_def
    by (intro irm.fold_constant_branches_sound)
       (auto simp: well_formed_def instr_ok_def intro!: constant_branch_exact)
qed

interpretation forward_pass: body_pass "ir_machine W" well_formed forward_trivial_labels for W
proof
  fix b assume wf: "well_formed b"
  then show "well_formed (forward_trivial_labels b)"
    by (rule well_formedI)
       (auto simp: forward_trivial_labels_def Let_def label_names_forward
         intro: instr_ok_forward trampoline_target_ok)
next
  fix b s out assume "well_formed b"
  then show "runs (ir_machine W) (forward_trivial_labels b) s out \<longleftrightarrow> runs (ir_machine W) b s out"
    unfolding runs_def by (intro irm.forward_trivial_labels_sound well_formed_labels)
qed

interpretation invert_pass: body_pass "ir_machine W" well_formed invert_branch_over_jump for W
proof
  fix b assume "well_formed b"
  then show "well_formed (invert_branch_over_jump b)"
    by (rule well_formedI) (simp_all add: label_names_invert instr_ok_invert)
next
  fix b s out assume "well_formed b"
  then show "runs (ir_machine W) (invert_branch_over_jump b) s out \<longleftrightarrow> runs (ir_machine W) b s out"
    unfolding runs_def by (intro irm.invert_branch_over_jump_sound well_formed_labels)
qed

interpretation collapse_pass: body_pass "ir_machine W" well_formed collapse_jump_to_next_label for W
proof
  fix b assume "well_formed b"
  then show "well_formed (collapse_jump_to_next_label b)"
    by (rule well_formedI) (use set_collapse in \<open>auto simp: label_names_collapse\<close>)
next
  fix b s out assume "well_formed b"
  then show "runs (ir_machine W) (collapse_jump_to_next_label b) s out \<longleftrightarrow> runs (ir_machine W) b s out"
    unfolding runs_def by (intro irm.collapse_jump_to_next_label_sound well_formed_labels)
qed

interpretation unreachable_pass: body_pass "ir_machine W" well_formed eliminate_unreachable_code for W
proof
  fix b assume "well_formed b"
  then show "well_formed (eliminate_unreachable_code b)"
    by (rule well_formedI)
       (use set_skip_unreachable in
         \<open>auto simp: eliminate_unreachable_code_def label_names_skip_unreachable\<close>)
next
  fix b s out assume "well_formed b"
  show "runs (ir_machine W) (eliminate_unreachable_code b) s out \<longleftrightarrow> runs (ir_machine W) b s out"
    unfolding runs_def by (rule irm.eliminate_unreachable_code_sound)
qed

interpretation dead_labels_pass: body_pass "ir_machine W" well_formed eliminate_dead_labels for W
proof
  fix b s out assume "well_formed b"
  show "runs (ir_machine W) (eliminate_dead_labels b) s out \<longleftrightarrow> runs (ir_machine W) b s out"
    unfolding runs_def by (rule irm.eliminate_dead_labels_sound)
qed (rule well_formed_eliminate_dead_labels)

subsection \<open>The whole of control-flow simplification\<close>

interpretation simplify_pass: body_pass "ir_machine W" well_formed simplify_control_flow for W
  unfolding simplify_control_flow_def Let_def
  by (intro fold_branches_pass.then_pass forward_pass.then_pass invert_pass.then_pass
      collapse_pass.then_pass unreachable_pass.then_pass dead_labels_pass.body_pass_axioms
      body_pass.then_pass [of "ir_machine W" well_formed])

subsection \<open>Properties\<close>

text \<open>
  C7. \<open>_simplify_control_flow\<close>, all six passes in the order the code runs them, keeps the meaning of
  a body: in every world and from every state, the simplified body has exactly the runs of the
  original, with the same result and final state, and ends exactly when the original ends.  The body
  has distinct labels, names only its own labels, and compares no two literals that differ as
  integers but agree as 32-bit words.
\<close>

theorem simplify_control_flow_correct:
  "well_formed b \<Longrightarrow> runs (ir_machine W) (simplify_control_flow b) s out \<longleftrightarrow> runs (ir_machine W) b s out"
  by (rule simplify_pass.same_runs)

theorem simplify_control_flow_correct_witness:
  "\<forall>(W :: nat world) s out.
     runs (ir_machine W)
       (simplify_control_flow
         [BranchFalse (VName ''x'') ''!='' (VInt 0) ''.a'', Jump ''.b'', Label ''.a'', Return None,
          Label ''.b'', Jump ''.c'', Label ''.c'', Return (Some (VInt 1))]) s out \<longleftrightarrow>
     runs (ir_machine W)
       [BranchFalse (VName ''x'') ''!='' (VInt 0) ''.a'', Jump ''.b'', Label ''.a'', Return None,
        Label ''.b'', Jump ''.c'', Label ''.c'', Return (Some (VInt 1))] s out"
proof (intro allI, rule simplify_control_flow_correct)
qed (simp add: well_formed_def instr_ok_def literal_exact_def targets_def inner_labels_def)

text \<open>
  \<open>_forward_trivial_labels\<close> with its chase through chains and cycles of trampolines returns for every
  table, and sending a branch straight to the end of its chain keeps the runs of the body.
\<close>

theorem forward_trivial_labels_correct:
  "labels_ok b \<Longrightarrow> runs (ir_machine W) (forward_trivial_labels b) s out \<longleftrightarrow> runs (ir_machine W) b s out"
  unfolding runs_def by (rule irm.forward_trivial_labels_sound)

theorem forward_trivial_labels_correct_witness:
  "\<forall>(W :: nat world) s out.
     runs (ir_machine W)
       (forward_trivial_labels [Jump ''.a'', Label ''.a'', Jump ''.b'', Label ''.b'', Jump ''.a'']) s out
     \<longleftrightarrow> runs (ir_machine W) [Jump ''.a'', Label ''.a'', Jump ''.b'', Label ''.b'', Jump ''.a''] s out"
  by (intro allI, rule forward_trivial_labels_correct) (simp add: labels_ok_def)

text \<open>
  Dropping what follows an unconditional transfer up to the next label keeps the runs of every body,
  labels repeated or missing included.
\<close>

theorem eliminate_unreachable_code_correct:
  "runs (ir_machine W) (eliminate_unreachable_code b) s out \<longleftrightarrow> runs (ir_machine W) b s out"
  unfolding runs_def by (rule irm.eliminate_unreachable_code_sound)

text \<open>
  A label that no branch, no nested arm and no opaque syntax tree names can be dropped: the runs of
  the body stay the same.
\<close>

theorem eliminate_dead_labels_correct:
  "runs (ir_machine W) (eliminate_dead_labels b) s out \<longleftrightarrow> runs (ir_machine W) b s out"
  unfolding runs_def by (rule irm.eliminate_dead_labels_sound)

end
