(* ===== verification/Data_Passes.thy ===== *)
theory Data_Passes
  imports Control_Pipeline
begin

text \<open>
  The passes of \<^verbatim>\<open>cc/ir_optimize.py\<close> that move data: dead code elimination, constant propagation
  and folding, tail calls.  These drop or strengthen instructions, so the theorems go one way: a run
  of the original is a run of the result, with the same outcome and the same state up to dead temps.
\<close>

subsection \<open>States that agree off a set of names\<close>

definition same_off :: "string set \<Rightarrow> 'm ir_state \<Rightarrow> 'm ir_state \<Rightarrow> bool" where
  "same_off D s t \<longleftrightarrow> agree_off D (slots s) (slots t) \<and> store s = store t"

lemma same_off_refl [simp]: "same_off D s s"
  by (simp add: same_off_def)

lemma same_off_set_slot [intro]: "same_off D s t \<Longrightarrow> same_off D (set_slot d v s) (set_slot d v t)"
  by (auto simp: same_off_def set_slot_def)

lemma same_off_set_slot_left [intro]: "same_off D s t \<Longrightarrow> d \<in> D \<Longrightarrow> same_off D (set_slot d v s) t"
  by (auto simp: same_off_def set_slot_def)

lemma same_off_set_slot_opt [intro]:
  "same_off D s t \<Longrightarrow> same_off D (set_slot_opt d v s) (set_slot_opt d v t)"
  by (cases d) auto

definition clear_of :: "string set \<Rightarrow> string list \<Rightarrow> bool" where
  "clear_of D xs \<longleftrightarrow> (\<forall>x \<in> set xs. x \<notin> D)"

definition hidden :: "string set \<Rightarrow> bool" where
  "hidden D \<longleftrightarrow> (\<forall>x \<in> D. is_temp x)"

lemma eval_value_same_off:
  "same_off D s t \<Longrightarrow> clear_of D (value_name v) \<Longrightarrow> eval_value W (slots s) v = eval_value W (slots t) v"
  by (cases v) (auto simp: same_off_def clear_of_def agree_off_def)

lemma visible_same_off:
  "same_off D s t \<Longrightarrow> hidden D \<Longrightarrow> clear_of D xs \<Longrightarrow> visible xs (slots s) = visible xs (slots t)"
  unfolding visible_def same_off_def hidden_def clear_of_def by (auto intro!: agree_off_restrict)

lemma eval_values_same_off:
  "same_off D s t \<Longrightarrow> clear_of D (concat (map value_name vs)) \<Longrightarrow>
   map (eval_value W (slots s)) vs = map (eval_value W (slots t)) vs"
  by (auto intro!: eval_value_same_off simp: clear_of_def)

definition outcome_rel :: "('s \<Rightarrow> 's \<Rightarrow> bool) \<Rightarrow> ('a \<times> 's) option \<Rightarrow> ('a \<times> 's) option \<Rightarrow> bool" where
  "outcome_rel S = rel_option (rel_prod (=) S)"

lemma outcome_rel_simps [simp]:
  "outcome_rel S None None" "\<not> outcome_rel S (Some p) None" "\<not> outcome_rel S None (Some p)"
  "outcome_rel S (Some (a, s)) (Some (a', t)) \<longleftrightarrow> a = a' \<and> S s t"
  by (auto simp: outcome_rel_def)

lemma outcome_rel_map_set:
  "same_off D s t \<Longrightarrow> outcome_rel (same_off D)
     (map_option (\<lambda>v. (Fall, set_slot d v s)) x) (map_option (\<lambda>v. (Fall, set_slot d v t)) x)"
  by (cases x) auto

lemma pure_act_same_off:
  assumes "same_off D s t" "hidden D" "clear_of D (mentioned i)"
  shows "outcome_rel (same_off D) (pure_act W i d vs s) (pure_act W i d vs t)"
  using visible_same_off [OF assms] assms(1)
  by (auto simp: pure_act_def same_off_def [of D s t] intro!: outcome_rel_map_set)

lemma effect_act_same_off:
  assumes "same_off D s t" "hidden D" "clear_of D (mentioned i)"
  shows "rel_option (rel_prod (=) (rel_prod (=) (same_off D))) (effect_act W i vs s) (effect_act W i vs t)"
  using visible_same_off [OF assms] assms(1)
  by (auto simp: effect_act_def same_off_def split: option.splits)

lemma ir_exec_effect:
  assumes "ir_exec W i vs = (\<lambda>s. map_option (\<lambda>(fl, v, s'). (fl, s')) (effect_act W i vs s))"
    and "same_off D s t" "hidden D" "clear_of D (mentioned i)"
  shows "outcome_rel (same_off D) (ir_exec W i vs s) (ir_exec W i vs t)"
  using effect_act_same_off [OF assms(2-4), of W vs] unfolding assms(1)
  by (auto simp: outcome_rel_def elim: option.rel_cases)

lemma ir_exec_same_off:
  assumes S: "same_off D s t" and D: "hidden D" and m: "clear_of D (mentioned i)"
  shows "outcome_rel (same_off D) (ir_exec W i vs s) (ir_exec W i vs t)"
proof (cases i)
  case (Return v)
  with S show ?thesis by (cases v) auto
next
  case (Call args d n)
  with effect_act_same_off [OF S D m, of W vs] show ?thesis
    by (auto elim!: option.rel_cases split: flow.splits)
next
  case (TailCall args n)
  have "clear_of D (mentioned (Call args None n))" by (simp add: mentioned_def clear_of_def)
  from effect_act_same_off [OF S D this, of W vs] TailCall show ?thesis
    by (auto elim!: option.rel_cases split: flow.splits)
next
  case (BinaryOperation d l op r)
  with S show ?thesis by (simp add: outcome_rel_map_set)
next
  case (Copy d v)
  with S show ?thesis by auto
next
  case (AddressOf a d)
  with S show ?thesis by auto
next
  case (Address bv d ids sh)
  with pure_act_same_off [OF S D m] show ?thesis by simp
next
  case (Index bs d ix)
  with pure_act_same_off [OF S D m] show ?thesis by simp
next
  case (Load a d sg w)
  with pure_act_same_off [OF S D m] show ?thesis by simp
qed (rule ir_exec_effect [OF _ S D m], simp add: fun_eq_iff)+

lemma ir_act_same_off:
  assumes S: "same_off D s t" and D: "hidden D" and m: "clear_of D (mentioned i)"
    and v: "clear_of D (concat (map value_name (value_fields i)))"
  shows "outcome_rel (same_off D) (ir_act W i s) (ir_act W i t)"
  using ir_exec_same_off [OF S D m] eval_values_same_off [OF S v, of W]
  unfolding ir_act_def by (simp split: option.splits del: map_eq_conv)

subsection \<open>One step of two bodies whose labels correspond\<close>

lemma goto_label_sim:
  "rel_option R (find_label t b) (find_label t b') \<Longrightarrow> S s s' \<Longrightarrow>
   conf_sim R S (goto_label b t s) (goto_label b' t s')"
  by (auto simp: goto_label_def elim: option.rel_cases)

lemma plain_step_sim:
  assumes a: "outcome_rel S (act M i s) (act M i' t)" and "R x y"
    and L: "\<And>l. rel_option R (find_label l b) (find_label l b')"
  shows "conf_sim R S (plain_step M b i x s) (plain_step M b' i' y t)"
proof (cases "act M i s")
  case (Some p)
  with a obtain fl s1 t1 where "act M i s = Some (fl, s1)" "act M i' t = Some (fl, t1)" "S s1 t1"
    by (cases p) (auto simp: outcome_rel_def option_rel_Some1 rel_prod_sel)
  with assms show ?thesis by (cases fl) (auto simp: plain_step_def goto_label_sim)
qed (simp add: plain_step_def)

lemma carries_same_off:
  assumes "same_off D s t" "hidden D" "clear_of D (iter_ast_var_names c)"
  shows "outcome_rel (same_off D) (ir_carries W c s) (ir_carries W c t)"
  using visible_same_off [OF assms] assms(1)
  by (cases "w_carry W c (visible (iter_ast_var_names c) (slots t)) (store t)")
     (auto simp: ir_carries_def same_off_def)

lemma holds_same_off:
  "same_off D s t \<Longrightarrow> clear_of D (value_name l @ value_name r) \<Longrightarrow>
   ir_holds W l op r s = ir_holds W l op r t"
  by (simp add: ir_holds_def eval_value_same_off [of D s t] clear_of_def)

text \<open>The same instruction on both sides, reading nothing of \<open>D\<close>.\<close>

lemma same_instr_sim:
  assumes S: "same_off D s t" and D: "hidden D" and m: "clear_of D (mentioned i)"
    and v: "clear_of D (concat (map value_name (value_fields i)))" and R: "R x y"
    and L: "\<And>l. rel_option R (find_label l b) (find_label l b')"
  shows "conf_sim R (same_off D) (next_conf (ir_machine W) b i x s) (next_conf (ir_machine W) b' i y t)"
proof (cases "is_Label i \<or> is_LoopBoundary i \<or> branch_target i \<noteq> None")
  case False
  then have "next_conf (ir_machine W) b i x s = plain_step (ir_machine W) b i x s"
    "next_conf (ir_machine W) b' i y t = plain_step (ir_machine W) b' i y t"
    by (cases i; simp)+
  with plain_step_sim [where M = "ir_machine W", OF _ R L] ir_act_same_off [OF S D m v]
  show ?thesis by simp
next
  case True
  show ?thesis
  proof (cases i)
    case (BranchFalse l op r g)
    with v have "ir_holds W l op r s = ir_holds W l op r t"
      by (intro holds_same_off [OF S]) (simp add: clear_of_def)
    with BranchFalse R S L show ?thesis
      by (auto split: option.splits simp: goto_label_sim)
  next
    case (CarryBranch c g w)
    with m have "outcome_rel (same_off D) (ir_carries W c s) (ir_carries W c t)"
      by (intro carries_same_off S D) (simp add: mentioned_def)
    with CarryBranch R L show ?thesis
      by (cases "ir_carries W c s"; cases "ir_carries W c t") (auto simp: goto_label_sim)
  qed (use True R S L in \<open>auto simp: goto_label_sim\<close>)
qed

subsection \<open>Dead code\<close>

definition tail_call_free :: "instr list \<Rightarrow> bool" where
  "tail_call_free b \<longleftrightarrow> (\<forall>i \<in> set b. case i of TailCall _ _ \<Rightarrow> False | _ \<Rightarrow> True)"

definition dead_temps :: "instr list \<Rightarrow> string set" where
  "dead_temps b = {d. is_temp d \<and> compute_use_counts b d = 0}"

lemma hidden_dead_temps [simp]: "hidden (dead_temps b)"
  by (simp add: hidden_def dead_temps_def)

lemma compute_use_counts_zero:
  "compute_use_counts b d = 0 \<longleftrightarrow> (\<forall>i \<in> set b. d \<notin> set (counted_uses i))"
  by (simp add: compute_use_counts_def foldl_bump_zero count_list_zero_iff)

lemma value_fields_operands:
  "(\<nexists>args n. i = TailCall args n) \<Longrightarrow> value_fields i = instruction_value_operands i"
  by (cases i) auto

lemma clear_of_dead:
  assumes "i \<in> set b" "tail_call_free b"
  shows "clear_of (dead_temps b) (mentioned i)"
    "clear_of (dead_temps b) (concat (map value_name (value_fields i)))"
proof -
  have used: "x \<notin> set (counted_uses i)" if "x \<in> dead_temps b" for x
    using that assms(1) by (auto simp: dead_temps_def compute_use_counts_zero)
  have "set (mentioned i) \<subseteq> set (counted_uses i)"
    by (cases i) (auto simp: mentioned_def counted_uses_def)
  with used show "clear_of (dead_temps b) (mentioned i)" by (auto simp: clear_of_def)
  from assms have "value_fields i = instruction_value_operands i"
    by (intro value_fields_operands) (auto simp: tail_call_free_def)
  then have "set (concat (map value_name (value_fields i))) \<subseteq> set (counted_uses i)"
    by (simp add: counted_uses_def operand_names_def)
  with used show "clear_of (dead_temps b) (concat (map value_name (value_fields i)))"
    by (auto simp: clear_of_def)
qed

lemma dce_step_cases:
  "dce_step (compute_use_counts b) i = [i] \<or>
   (\<exists>args d n. i = Call args (Some d) n \<and> d \<in> dead_temps b \<and>
      dce_step (compute_use_counts b) i = [Call args None n]) \<or>
   (\<exists>d. instruction_destination i = Some d \<and> d \<in> dead_temps b \<and> \<not> has_side_effects i \<and>
      dce_step (compute_use_counts b) i = [])"
  by (cases i) (auto simp: dce_step_def dead_temps_def split: option.splits)

lemma pure_act_falls:
  assumes "instruction_destination i = Some d" "\<not> has_side_effects i" "ir_act W i s = Some (fl, s')"
  shows "fl = Fall \<and> (\<exists>v. s' = set_slot d v s)"
  using assms by (cases i) (auto simp: ir_act_def pure_act_def split: option.splits)

lemma pure_next_conf:
  assumes "instruction_destination i = Some d" "\<not> has_side_effects i"
  shows "next_conf M b i x s = plain_step M b i x s"
  using assms by (cases i) auto

lemma find_label_dce:
  "find_label l (concat (map (dce_step n) x)) =
   map_option (\<lambda>z. concat (map (dce_step n) z)) (find_label l x)"
proof (induction x)
  case (Cons i x)
  show ?case
  proof (cases "is_Label i")
    case True
    with Cons show ?thesis by (cases i) (auto simp: dce_step_def)
  next
    case False
    then have "\<forall>j \<in> set (dce_step n i). \<not> is_Label j"
      by (cases i) (auto simp: dce_step_def split: option.splits)
    then have "find_label l (dce_step n i @ y) = find_label l y" for y by (rule find_label_skip)
    with Cons False show ?thesis by auto
  qed
qed simp

lemma effect_act_Call: "effect_act W (Call args d n) = effect_act W (Call args None n)"
proof -
  have "flow_ok (Call args d n) fl = flow_ok (Call args None n) fl" for fl :: "word32 option flow"
    by (cases fl) (auto simp: inner_labels_def)
  then have *: "flow_ok (Call args d n) = (flow_ok (Call args None n) :: word32 option flow \<Rightarrow> bool)"
    by (rule ext)
  have "assigned (Call args d n) = assigned (Call args None n)" by (simp add: assigned_def)
  with * show ?thesis by (auto simp: fun_eq_iff effect_act_def mentioned_def split: option.splits)
qed

lemma call_destination_dropped:
  assumes S: "same_off D s t" and D: "hidden D" and d: "d \<in> D"
    and v: "clear_of D (concat (map value_name args))"
  shows "outcome_rel (same_off D) (ir_act W (Call args (Some d) n) s) (ir_act W (Call args None n) t)"
proof -
  have "clear_of D (mentioned (Call args None n))" by (simp add: mentioned_def clear_of_def)
  have "outcome_rel (same_off D) (ir_exec W (Call args (Some d) n) vs s) (ir_exec W (Call args None n) vs t)"
    for vs
    using effect_act_same_off [OF S D \<open>clear_of D (mentioned (Call args None n))\<close>, of W vs] d
    by (cases "effect_act W (Call args None n) vs s"; cases "effect_act W (Call args None n) vs t")
      (auto simp: effect_act_Call [of W args "Some d"] elim!: option.rel_cases split: flow.splits)
  with eval_values_same_off [OF S v, of W] show ?thesis
    unfolding ir_act_def by (simp split: option.splits del: map_eq_conv ir_exec.simps)
qed

lemma dead_code_elimination_sim:
  assumes free: "tail_call_free b" and run: "runs (ir_machine W) b s (r, s')"
  shows "\<exists>t'. runs (ir_machine W) (dead_code_elimination b) s (r, t') \<and> same_off (dead_temps b) s' t'"
proof -
  let ?D = "dead_temps b" and ?M = "ir_machine W"
  define T where "T x = concat (map (dce_step (compute_use_counts b)) x)" for x
  have T_Cons: "T (i # x) = dce_step (compute_use_counts b) i @ T x" for i x by (simp add: T_def)
  define R where "R x y \<longleftrightarrow> suffix x b \<and> y = T x" for x y
  have L: "rel_option R (find_label l b) (find_label l (T b))" for l
    by (cases "find_label l b") (auto simp: R_def T_def find_label_dce dest: find_label_suffix)
  have step: "(x = [] \<and> y = []) \<or> left_step (next_conf ?M) b R (same_off ?D) x u y t \<or>
      joint_step (next_conf ?M) b (T b) R (same_off ?D) x u y t"
    if R: "R x y" and S: "same_off ?D u t" for x y u t
  proof (cases x)
    case (Cons i x')
    with R have i: "i \<in> set b" and R': "R x' (T x')"
      by (auto simp: R_def dest: suffix_in_set suffix_tl)
    note clear = clear_of_dead [OF i free]
    consider (same) "y = i # T x'"
      | (call) args d n where "i = Call args (Some d) n" "d \<in> ?D" "y = Call args None n # T x'"
      | (gone) d where "instruction_destination i = Some d" "d \<in> ?D" "\<not> has_side_effects i" "y = T x'"
      using dce_step_cases [of b i] R Cons by (auto simp: R_def T_Cons)
    then show ?thesis
    proof cases
      case same
      with same_instr_sim [where R = R, OF S hidden_dead_temps clear R' L] Cons show ?thesis
        by (simp add: joint_step_def)
    next
      case call
      have "outcome_rel (same_off ?D) (ir_act W i u) (ir_act W (Call args None n) t)"
        unfolding call(1) using clear(2) call
        by (intro call_destination_dropped S hidden_dead_temps) simp_all
      with call Cons plain_step_sim [where M = ?M, OF _ R' L] show ?thesis
        by (simp add: joint_step_def)
    next
      case gone
      have "case next_conf ?M b i x' u of Stuck \<Rightarrow> True | Go z v \<Rightarrow> R z y \<and> same_off ?D v t | Stop _ _ \<Rightarrow> False"
        unfolding pure_next_conf [OF gone(1,3)] using R' S gone
        by (auto simp: plain_step_def split: option.splits dest!: pure_act_falls [OF gone(1,3)])
      with Cons show ?thesis by (simp add: left_step_def)
    qed
  qed (use R in \<open>simp add: R_def T_def\<close>)
  have "R b (T b)" by (simp add: R_def)
  from sim_forward [OF run [unfolded runs_def] this same_off_refl step]
  show ?thesis by (simp add: runs_def dead_code_elimination_def T_def)
qed

subsection \<open>Tail calls\<close>

definition tail_pair :: "(string \<Rightarrow> nat) \<Rightarrow> instr \<Rightarrow> instr list \<Rightarrow> bool" where
  "tail_pair u i rest \<longleftrightarrow> (\<exists>args d n meta follow. i = Call args (Some d) n \<and> is_temp d \<and>
     is_tail_callable_name n \<and> u d = 1 \<and> next_non_metadata rest = (meta, Return (Some (VName d)) # follow))"

lemma tail_calls_keep:
  assumes "\<not> tail_pair u i rest"
  shows "tail_calls u (i # rest) = i # tail_calls u rest"
proof (cases "\<exists>args d n. i = Call args (Some d) n \<and> is_temp d \<and> is_tail_callable_name n")
  case True
  then obtain args d n where i: "i = Call args (Some d) n" "is_temp d" "is_tail_callable_name n" by blast
  obtain meta z where nm: "next_non_metadata rest = (meta, z)" by fastforce
  show ?thesis
  proof (cases z)
    case (Cons j w)
    show ?thesis
    proof (cases j)
      case (Return v)
      with assms i nm Cons show ?thesis by (auto simp: tail_pair_def)
    qed (use i nm Cons in auto)
  qed (use i nm in auto)
next
  case False
  show ?thesis
  proof (cases i)
    case (Call args d n)
    with False show ?thesis by (cases d) auto
  qed auto
qed

lemma tail_calls_pair:
  assumes "tail_pair u i rest"
  obtains args d n meta follow where "i = Call args (Some d) n" "is_temp d"
    "rest = meta @ Return (Some (VName d)) # follow" "\<forall>j \<in> set meta. is_LoopBoundary j"
    "tail_calls u (i # rest) = meta @ TailCall args n # tail_calls u follow"
proof -
  from assms obtain args d n meta follow where *: "i = Call args (Some d) n" "is_temp d"
    "is_tail_callable_name n" "u d = 1" and nm: "next_non_metadata rest = (meta, Return (Some (VName d)) # follow)"
    by (auto simp: tail_pair_def)
  then have "tail_calls u (i # rest) = meta @ TailCall args n # tail_calls u follow" by simp
  with * next_non_metadata_split [OF nm] that show thesis by blast
qed

declare tail_calls.simps(2) [simp del]

lemma find_label_tail_calls:
  "find_label l (tail_calls u b) = map_option (tail_calls u) (find_label l b)"
proof (induction b rule: length_induct)
  case (1 b)
  show ?case
  proof (cases b)
    case (Cons i rest)
    show ?thesis
    proof (cases "tail_pair u i rest")
      case True
      then obtain args d n meta follow where s: "i = Call args (Some d) n"
        "rest = meta @ Return (Some (VName d)) # follow" "\<forall>j \<in> set meta. is_LoopBoundary j"
        "tail_calls u (i # rest) = meta @ TailCall args n # tail_calls u follow"
        by (rule tail_calls_pair)
      with 1 Cons have "find_label l (tail_calls u follow) = map_option (tail_calls u) (find_label l follow)"
        by simp
      with s Cons show ?thesis by simp
    next
      case False
      with 1 Cons show ?thesis by (simp add: tail_calls_keep)
    qed
  qed simp
qed

lemma exec_boundaries:
  "\<forall>j \<in> set meta. is_LoopBoundary j \<Longrightarrow> exec (next_conf M) b (meta @ x) s out \<longleftrightarrow> exec (next_conf M) b x s out"
  by (induction meta) (auto simp: silent_exec [OF silent_boundary])

lemma tail_pair_runs:
  assumes step: "next_conf (ir_machine W) b (Call args (Some d) n) rest s = Go rest s1"
    and run: "exec (next_conf (ir_machine W)) b rest s1 out"
    and rest: "rest = meta @ Return (Some (VName d)) # follow" "\<forall>j \<in> set meta. is_LoopBoundary j"
    and d: "is_temp d"
  shows "\<exists>t. exec (next_conf (ir_machine W)) b' (meta @ TailCall args n # y) s (fst out, t) \<and>
    same_off {x. is_temp x} (snd out) t"
proof -
  from step obtain v s2 vs where vs: "sequence_opt (map (eval_value W (slots s)) args) = Some vs"
    and e: "effect_act W (Call args None n) vs s = Some (Fall, v, s2)" and s1: "s1 = set_slot d v s2"
    by (auto simp: plain_step_def ir_act_def effect_act_Call [of W args "Some d"]
        split: option.splits flow.splits)
  from run have "exec (next_conf (ir_machine W)) b (Return (Some (VName d)) # follow) s1 out"
    by (simp add: rest exec_boundaries)
  then have out: "out = (Some (Some v), s1)"
    by (auto simp: exec_Cons_iff plain_step_def ir_act_def s1 set_slot_def)
  from vs e have "next_conf (ir_machine W) b' (TailCall args n) y s = Stop (Some v) s2"
    by (simp add: plain_step_def ir_act_def)
  then have "exec (next_conf (ir_machine W)) b' (meta @ TailCall args n # y) s (Some (Some v), s2)"
    by (simp add: exec_boundaries rest exec_stop)
  moreover have "same_off {x. is_temp x} s1 s2" using d by (auto simp: s1 intro: same_off_set_slot_left)
  ultimately show ?thesis using out by auto
qed

lemma tail_calls_sim:
  assumes "exec (next_conf (ir_machine W)) b x s out" and "suffix x b"
  shows "\<exists>t. exec (next_conf (ir_machine W)) (tail_calls u b) (tail_calls u x) s (fst out, t) \<and>
    same_off {x. is_temp x} (snd out) t"
  using assms
proof (induction rule: exec.induct)
  case (exec_end s)
  show ?case by (auto intro: exec.exec_end)
next
  case (exec_go i rest s rest' s' out)
  let ?Q = "\<lambda>x y. suffix x b \<and> y = tail_calls u x"
  show ?case
  proof (cases "tail_pair u i rest")
    case True
    then obtain args d n meta follow where p: "i = Call args (Some d) n" "is_temp d"
      "rest = meta @ Return (Some (VName d)) # follow" "\<forall>j \<in> set meta. is_LoopBoundary j"
      "tail_calls u (i # rest) = meta @ TailCall args n # tail_calls u follow"
      by (rule tail_calls_pair)
    from exec_go.hyps(1) have "rest' = rest" unfolding p(1)
      by (auto simp: plain_step_def ir_act_def split: option.splits flow.splits)
    with exec_go.hyps p tail_pair_runs show ?thesis unfolding p(5) by blast
  next
    case False
    have "conf_eq ?Q (next_conf (ir_machine W) b i rest s)
        (next_conf (ir_machine W) (tail_calls u b) i (tail_calls u rest) s)"
      using exec_go.prems
      by (intro irm.same_head rel_option_map_SomeI [OF find_label_tail_calls])
         (auto dest: suffix_tl find_label_suffix)
    with exec_go.hyps(1) have "suffix rest' b"
      "next_conf (ir_machine W) (tail_calls u b) i (tail_calls u rest) s = Go (tail_calls u rest') s'"
      by (cases "next_conf (ir_machine W) (tail_calls u b) i (tail_calls u rest) s"; auto)+
    with exec_go.IH False show ?thesis by (auto simp: tail_calls_keep intro: exec.exec_go)
  qed
next
  case (exec_stop i rest s v s')
  let ?Q = "\<lambda>x y. suffix x b \<and> y = tail_calls u x"
  from exec_stop.hyps have "\<not> tail_pair u i rest"
    by (auto simp: tail_pair_def plain_step_def ir_act_def split: option.splits flow.splits)
  moreover have "conf_eq ?Q (next_conf (ir_machine W) b i rest s)
      (next_conf (ir_machine W) (tail_calls u b) i (tail_calls u rest) s)"
    using exec_stop.prems
    by (intro irm.same_head rel_option_map_SomeI [OF find_label_tail_calls])
       (auto dest: suffix_tl find_label_suffix)
  ultimately show ?case using exec_stop.hyps
    by (cases "next_conf (ir_machine W) (tail_calls u b) i (tail_calls u rest) s")
       (auto simp: tail_calls_keep intro: exec.exec_stop)
qed

subsection \<open>Properties\<close>

text \<open>
  C9. Dead code elimination keeps every run of a body without tail calls: the result of the function and
  the store are the same, and the final slots differ at most on temps that no instruction reads.
\<close>

theorem dead_code_elimination_correct:
  "tail_call_free b \<Longrightarrow> runs (ir_machine W) b s (r, s') \<Longrightarrow>
   \<exists>t'. runs (ir_machine W) (dead_code_elimination b) s (r, t') \<and> same_off (dead_temps b) s' t'"
  by (rule dead_code_elimination_sim)

theorem dead_code_elimination_correct_witness:
  "\<exists>t'. runs (ir_machine \<lparr>w_addr = \<lambda>_. 0, w_less = (<), w_binop = \<lambda>_ _ _. None, w_pure = \<lambda>_ _ _ _. None,
       w_effect = \<lambda>_ _ _ m. Some (Fall, 7, Map.empty, m), w_carry = \<lambda>_ _ _. None\<rparr>)
     (dead_code_elimination [Copy ''_ir_0'' (VInt 1), Call [VInt 2] (Some ''_ir_1'') ''f'', Return (Some (VInt 3))])
     \<lparr>slots = Map.empty, store = ()\<rparr> (Some (Some 3), t') \<and>
     same_off (dead_temps [Copy ''_ir_0'' (VInt 1), Call [VInt 2] (Some ''_ir_1'') ''f'', Return (Some (VInt 3))])
       \<lparr>slots = [''_ir_0'' \<mapsto> 1, ''_ir_1'' \<mapsto> 7], store = ()\<rparr> t'"
  by (rule dead_code_elimination_correct, simp add: tail_call_free_def, rule runs_fuel [of 3])
     (simp add: plain_step_def ir_act_def effect_act_def mentioned_def assigned_def set_slot_def
       visible_def eval_nat_numeral)

text \<open>
  C10. Tail-call elimination keeps every run: a call whose result is returned at once becomes a tail call
  with the same result and the same final store and program variables.
\<close>

theorem eliminate_tail_calls_correct:
  "runs (ir_machine W) b s (r, s') \<Longrightarrow>
   \<exists>t'. runs (ir_machine W) (eliminate_tail_calls b) s (r, t') \<and> same_off {x. is_temp x} s' t'"
  using tail_calls_sim [of W b b s "(r, s')" "tail_use_counts b"]
  by (simp add: runs_def eliminate_tail_calls_def)

theorem eliminate_tail_calls_correct_witness:
  "\<exists>t'. runs (ir_machine \<lparr>w_addr = \<lambda>_. 0, w_less = (<), w_binop = \<lambda>_ _ _. None, w_pure = \<lambda>_ _ _ _. None,
       w_effect = \<lambda>_ _ _ m. Some (Fall, 7, Map.empty, m), w_carry = \<lambda>_ _ _. None\<rparr>)
     (eliminate_tail_calls [Call [VInt 2] (Some ''_ir_1'') ''f'', Return (Some (VName ''_ir_1''))])
     \<lparr>slots = Map.empty, store = ()\<rparr> (Some (Some 7), t') \<and>
     same_off {x. is_temp x} \<lparr>slots = [''_ir_1'' \<mapsto> 7], store = ()\<rparr> t'"
  by (rule eliminate_tail_calls_correct, rule runs_fuel [of 2])
     (simp add: plain_step_def ir_act_def effect_act_def mentioned_def assigned_def set_slot_def
       visible_def eval_nat_numeral)

end
