(* ===== verification/Bytes.thy ===== *)
theory Bytes
  imports Prelude
begin

text \<open>
  Byte strings and the little-endian codecs of Python's \<^verbatim>\<open>struct\<close> module the tools use
  (\<open><H\<close>, \<open><I\<close>, \<open><i\<close>): \<open>pack\<close> raises \<^verbatim>\<open>struct.error\<close> (None) outside the range of the format.  Slice
  assignment on a \<^verbatim>\<open>bytearray\<close> is written out, with the clamping Python does past the end.
\<close>

type_synonym byte = "8 word"

subsection \<open>Little-endian integers\<close>

fun le_bytes :: "nat \<Rightarrow> int \<Rightarrow> byte list" where
  "le_bytes 0 v = []"
| "le_bytes (Suc n) v = word_of_int v # le_bytes n (v div 256)"

fun le_int :: "byte list \<Rightarrow> int" where
  "le_int [] = 0"
| "le_int (b # bs) = uint b + 256 * le_int bs"

lemma length_le_bytes [simp]: "length (le_bytes n v) = n"
  by (induction n arbitrary: v) auto

lemma uint_byte_bounds: "0 \<le> uint (b :: byte)" "uint (b :: byte) < 256"
  using uint_range_size [of b] by (auto simp: word_size)

lemma le_int_bounds: "0 \<le> le_int bs \<and> le_int bs < 256 ^ length bs"
proof (induction bs)
  case (Cons b bs)
  with uint_byte_bounds [of b] show ?case by auto
qed simp

lemma uint_word_of_int_byte: "uint (word_of_int v :: byte) = v mod 256"
  by (simp add: uint_word_of_int take_bit_eq_mod)

lemma le_int_le_bytes: "le_int (le_bytes n v) = v mod 256 ^ n"
proof (induction n arbitrary: v)
  case (Suc n)
  then show ?case by (simp add: uint_word_of_int_byte mod_mult2_eq zmod_zmult2_eq)
qed simp

lemma le_bytes_le_int: "le_bytes (length bs) (le_int bs) = bs"
proof (induction bs)
  case (Cons b bs)
  have "(uint b + 256 * le_int bs) mod 256 = uint b"
    using uint_byte_bounds [of b] by simp
  then have "word_of_int (uint b + 256 * le_int bs) = b"
    by (metis uint_word_of_int_byte word_uint_eqI)
  moreover have "(uint b + 256 * le_int bs) div 256 = le_int bs"
    using uint_byte_bounds [of b] by simp
  ultimately show ?case using Cons by simp
qed simp

subsection \<open>struct.pack and struct.unpack\<close>

definition pack_unsigned :: "nat \<Rightarrow> int \<Rightarrow> byte list option" where
  "pack_unsigned n v = (if 0 \<le> v \<and> v < 256 ^ n then Some (le_bytes n v) else None)"

definition pack_signed :: "nat \<Rightarrow> int \<Rightarrow> byte list option" where
  "pack_signed n v =
     (if - (256 ^ n div 2) \<le> v \<and> v < 256 ^ n div 2 then Some (le_bytes n v) else None)"

definition le_sint :: "byte list \<Rightarrow> int" where
  "le_sint bs = (let u = le_int bs in if u < 256 ^ length bs div 2 then u else u - 256 ^ length bs)"

text \<open>What a caller of \<open>struct\<close> relies on: packing and unpacking at one format are inverse.\<close>

locale byte_codec =
  fixes width :: nat and lo hi :: int
    and pack :: "int \<Rightarrow> byte list option" and unpack :: "byte list \<Rightarrow> int"
  assumes pack_range: "pack v \<noteq> None \<longleftrightarrow> lo \<le> v \<and> v < hi"
    and pack_width: "pack v = Some bs \<Longrightarrow> length bs = width"
    and unpack_pack: "pack v = Some bs \<Longrightarrow> unpack bs = v"
    and pack_unpack: "length bs = width \<Longrightarrow> pack (unpack bs) = Some bs"
begin

lemma pack_in: "lo \<le> v \<Longrightarrow> v < hi \<Longrightarrow> \<exists>bs. pack v = Some bs \<and> length bs = width \<and> unpack bs = v"
  using pack_range [of v] pack_width unpack_pack by blast

lemma pack_inject: "pack v = Some bs \<Longrightarrow> pack w = Some bs \<Longrightarrow> v = w"
  using unpack_pack by blast

end

lemma le_int_eq: "0 \<le> v \<Longrightarrow> v < 256 ^ n \<Longrightarrow> le_int (le_bytes n v) = v"
  by (simp add: le_int_le_bytes)

lemma le_sint_eq:
  assumes "0 < n" "- (256 ^ n div 2) \<le> v" "v < 256 ^ n div 2"
  shows "le_sint (le_bytes n v) = v"
proof (cases "0 \<le> v")
  case True
  with assms have "v < 256 ^ n" by simp
  with True assms show ?thesis by (simp add: le_sint_def le_int_eq)
next
  case False
  let ?m = "256 ^ n :: int"
  have even: "2 * (?m div 2) = ?m" using assms(1) by (simp add: dvd_power)
  from False assms even have "v mod ?m = v + ?m"
    by (intro int_mod_pos_eq [where q = "-1"]) auto
  with False assms even show ?thesis
    by (simp add: le_sint_def le_int_le_bytes Let_def)
qed

lemma le_bytes_mod: "le_bytes n (v + 256 ^ n * k) = le_bytes n v"
proof (induction n arbitrary: v)
  case (Suc n)
  have e: "v + 256 ^ Suc n * k = v + 256 * (256 ^ n * k)" by simp
  have "(word_of_int (v + 256 * (256 ^ n * k)) :: byte) = word_of_int v"
    by (rule word_uint_eqI) (simp only: uint_word_of_int_byte mod_mult_self2)
  moreover have "(v + 256 * (256 ^ n * k)) div 256 = v div 256 + 256 ^ n * k" by simp
  ultimately show ?case using Suc [of "v div 256"] by (simp only: e le_bytes.simps)
qed simp

interpretation unsigned_codec: byte_codec n 0 "256 ^ n" "pack_unsigned n" le_int for n
proof
  fix bs :: "byte list" assume "length bs = n"
  with le_int_bounds [of bs] le_bytes_le_int [of bs]
  show "pack_unsigned n (le_int bs) = Some bs" by (auto simp: pack_unsigned_def)
qed (auto simp: pack_unsigned_def le_int_eq split: if_splits)

interpretation signed_codec: byte_codec "Suc n" "- (256 ^ Suc n div 2)" "256 ^ Suc n div 2"
  "pack_signed (Suc n)" le_sint for n
proof
  fix v and bs :: "byte list"
  show "(pack_signed (Suc n) v \<noteq> None) = (- (256 ^ Suc n div 2) \<le> v \<and> v < 256 ^ Suc n div 2)"
    by (simp add: pack_signed_def del: power_Suc)
  show "pack_signed (Suc n) v = Some bs \<Longrightarrow> length bs = Suc n"
    by (auto simp: pack_signed_def simp del: power_Suc le_bytes.simps split: if_splits)
  show "pack_signed (Suc n) v = Some bs \<Longrightarrow> le_sint bs = v"
    using le_sint_eq [of "Suc n" v]
    by (auto simp: pack_signed_def simp del: power_Suc le_bytes.simps split: if_splits)
  assume len: "length bs = Suc n"
  have "le_bytes (Suc n) (le_sint bs) = bs"
    using le_bytes_le_int [of bs] le_bytes_mod [of "Suc n" "le_int bs" "-1"] len
    by (auto simp: le_sint_def Let_def simp del: power_Suc le_bytes.simps)
  moreover have "2 * (256 ^ Suc n div 2) = (256 ^ Suc n :: int)" by (simp add: dvd_power)
  then have "- (256 ^ Suc n div 2) \<le> le_sint bs \<and> le_sint bs < 256 ^ Suc n div 2"
    using le_int_bounds [of bs] unfolding le_sint_def Let_def len
    by (cases "le_int bs < 256 ^ Suc n div 2"; simp only: if_True if_False; linarith)
  ultimately show "pack_signed (Suc n) (le_sint bs) = Some bs"
    by (simp add: pack_signed_def del: power_Suc le_bytes.simps)
qed

subsection \<open>Bytearrays\<close>

text \<open>\<open>xs[a : b] = ys\<close> for \<open>0 \<le> a \<le> b\<close>: bounds past the end are clamped, so the array may grow.\<close>

definition slice_assign :: "nat \<Rightarrow> nat \<Rightarrow> 'a list \<Rightarrow> 'a list \<Rightarrow> 'a list" where
  "slice_assign a b ys xs = take a xs @ ys @ drop b xs"

definition slice :: "nat \<Rightarrow> nat \<Rightarrow> 'a list \<Rightarrow> 'a list" where
  "slice a b xs = take (b - a) (drop a xs)"

lemma slice_assign_length:
  "a + length ys = b \<Longrightarrow> b \<le> length xs \<Longrightarrow> length (slice_assign a b ys xs) = length xs"
  by (simp add: slice_assign_def)

lemma slice_assign_past_end: "length xs \<le> a \<Longrightarrow> a \<le> b \<Longrightarrow> slice_assign a b ys xs = xs @ ys"
  by (simp add: slice_assign_def)

lemma slice_slice_assign:
  "a + length ys = b \<Longrightarrow> b \<le> length xs \<Longrightarrow> slice a b (slice_assign a b ys xs) = ys"
  by (auto simp: slice_def slice_assign_def)

lemma nth_slice_assign:
  assumes "a + length ys = b" "b \<le> length xs" "k < length xs" "k < a \<or> b \<le> k"
  shows "slice_assign a b ys xs ! k = xs ! k"
proof (cases "k < a")
  case True
  with assms show ?thesis by (simp add: slice_assign_def nth_append)
next
  case False
  with assms have "b \<le> k" "length (take a xs @ ys) = b" by auto
  with assms show ?thesis by (auto simp: slice_assign_def nth_append simp flip: append_assoc)
qed

lemma slice_cong:
  "length xs = length ys \<Longrightarrow> (\<And>k. a \<le> k \<Longrightarrow> k < b \<Longrightarrow> k < length xs \<Longrightarrow> xs ! k = ys ! k) \<Longrightarrow>
   slice a b xs = slice a b ys"
  by (rule nth_equalityI) (auto simp: slice_def)

end
