(* ===== verification/Json.thy ===== *)
theory Json
  imports Complex_Main Bytes Results "HOL-Library.Char_ord" "HOL-Library.List_Lexorder"
begin

text \<open>
  What the tools use of Python's \<^verbatim>\<open>json\<close> and \<^verbatim>\<open>base64\<close> modules: the values \<open>json.load\<close> returns (an
  object is the association list of its items, keys distinct), \<open>isinstance\<close> tests on them, and the
  base64 codec in its strict mode. 
\<close>

subsection \<open>JSON values\<close>

datatype json =
    JNull
  | JBool bool
  | JInt int
  | JFloat rat
  | JStr string
  | JList "json list"
  | JDict "(string \<times> json) list"

text \<open>\<open>isinstance(x, int)\<close> holds of the booleans too, and \<open>True\<close> is \<open>1\<close>.\<close>

fun as_int :: "json option \<Rightarrow> int option" where
  "as_int (Some (JInt n)) = Some n"
| "as_int (Some (JBool b)) = Some (of_bool b)"
| "as_int _ = None"

fun as_str :: "json option \<Rightarrow> string option" where
  "as_str (Some (JStr s)) = Some s"
| "as_str _ = None"

fun equals_int :: "json option \<Rightarrow> int \<Rightarrow> bool" where
  "equals_int (Some (JInt n)) k = (n = k)"
| "equals_int (Some (JBool b)) k = (of_bool b = k)"
| "equals_int (Some (JFloat q)) k = (q = of_int k)"
| "equals_int _ k = False"

text \<open>A list or an object is not hashable: testing its membership in a set raises \<open>TypeError\<close>.\<close>

fun hashable :: "json option \<Rightarrow> bool" where
  "hashable (Some (JList _)) = False"
| "hashable (Some (JDict _)) = False"
| "hashable _ = True"

subsection \<open>Base64\<close>

definition b64_alphabet :: string where
  "b64_alphabet = ''ABCDEFGHIJKLMNOPQRSTUVWXYZabcdefghijklmnopqrstuvwxyz0123456789+/''"

definition b64_char :: "nat \<Rightarrow> char" where
  "b64_char n = b64_alphabet ! n"

fun index_of :: "'a \<Rightarrow> 'a list \<Rightarrow> nat option" where
  "index_of x [] = None"
| "index_of x (y # ys) = (if x = y then Some 0 else map_option Suc (index_of x ys))"

definition b64_value :: "char \<Rightarrow> nat option" where
  "b64_value c = index_of c b64_alphabet"

definition octet :: "byte \<Rightarrow> nat" where
  "octet b = unat b"

fun b64encode :: "byte list \<Rightarrow> string" where
  "b64encode [] = []"
| "b64encode [a] =
     [b64_char (octet a div 4), b64_char (octet a mod 4 * 16), CHR ''='', CHR ''='']"
| "b64encode [a, b] =
     [b64_char (octet a div 4), b64_char (octet a mod 4 * 16 + octet b div 16),
      b64_char (octet b mod 16 * 4), CHR ''='']"
| "b64encode (a # b # c # rest) =
     b64_char (octet a div 4) # b64_char (octet a mod 4 * 16 + octet b div 16) #
     b64_char (octet b mod 16 * 4 + octet c div 64) # b64_char (octet c mod 64) # b64encode rest"

fun b64_quad :: "nat \<Rightarrow> nat \<Rightarrow> nat \<Rightarrow> nat \<Rightarrow> byte list" where
  "b64_quad p q r s = map of_nat [p * 4 + q div 16, q mod 16 * 16 + r div 4, r mod 4 * 64 + s]"

text \<open>Four characters at a time; padding ends the input.\<close>

fun b64decode :: "string \<Rightarrow> byte list option" where
  "b64decode [] = Some []"
| "b64decode [w, x, y, z] =
     (case (b64_value w, b64_value x, b64_value y, b64_value z) of
        (Some p, Some q, Some r, Some s) \<Rightarrow> Some (b64_quad p q r s)
      | (Some p, Some q, Some r, None) \<Rightarrow> if z = CHR ''='' then Some (take 2 (b64_quad p q r 0)) else None
      | (Some p, Some q, None, None) \<Rightarrow>
          if y = CHR ''='' \<and> z = CHR ''='' then Some (take 1 (b64_quad p q 0 0)) else None
      | _ \<Rightarrow> None)"
| "b64decode (w # x # y # z # v # rest) =
     (case (b64_value w, b64_value x, b64_value y, b64_value z) of
        (Some p, Some q, Some r, Some s) \<Rightarrow> map_option ((@) (b64_quad p q r s)) (b64decode (v # rest))
      | _ \<Rightarrow> None)"
| "b64decode _ = None"

lemma octet_less: "octet b < 256"
  using unsigned_less [of b, where ?'a = nat] by (simp add: octet_def)

lemma octet_inverse: "of_nat (octet b) = b"
  by (simp add: octet_def)

lemma b64_value_char: "n < 64 \<Longrightarrow> b64_value (b64_char n) = Some n"
proof -
  have "\<forall>n \<in> set [0..<64]. b64_value (b64_char n) = Some n"
    by (simp add: b64_value_def b64_char_def b64_alphabet_def upt_rec)
  then show "n < 64 \<Longrightarrow> b64_value (b64_char n) = Some n" by simp
qed

lemma b64_value_pad [simp]: "b64_value (CHR ''='') = None"
  by (simp add: b64_value_def b64_alphabet_def)

lemma b64encode_nil_iff: "b64encode bs = [] \<longleftrightarrow> bs = []"
  by (cases bs rule: b64encode.cases) auto

lemma b64_quad_octets:
  "b64_quad (octet a div 4) (octet a mod 4 * 16 + octet b div 16) (octet b mod 16 * 4 + octet c div 64)
     (octet c mod 64) = [a, b, c]"
proof -
  have "octet a div 4 * 4 + (octet a mod 4 * 16 + octet b div 16) div 16 = octet a"
    "(octet a mod 4 * 16 + octet b div 16) mod 16 * 16 + (octet b mod 16 * 4 + octet c div 64) div 4 = octet b"
    "(octet b mod 16 * 4 + octet c div 64) mod 4 * 64 + octet c mod 64 = octet c"
    using octet_less [of a] octet_less [of b] octet_less [of c] by auto
  then show ?thesis by (simp only: b64_quad.simps list.map octet_inverse)
qed

lemma b64_roundtrip: "b64decode (b64encode bs) = Some bs"
proof (induction bs rule: b64encode.induct)
  case (2 a)
  have "octet a div 4 < 64" "octet a mod 4 * 16 < 64" using octet_less [of a] by auto
  with b64_quad_octets [of a 0 0] show ?case by (simp add: b64_value_char octet_def del: b64_quad.simps)
next
  case (3 a b)
  have "octet a div 4 < 64" "octet a mod 4 * 16 + octet b div 16 < 64" "octet b mod 16 * 4 < 64"
    using octet_less [of a] octet_less [of b] by auto
  with b64_quad_octets [of a b 0] show ?case by (simp add: b64_value_char octet_def del: b64_quad.simps)
next
  case (4 a b c rest)
  have lt: "octet a div 4 < 64" "octet a mod 4 * 16 + octet b div 16 < 64"
    "octet b mod 16 * 4 + octet c div 64 < 64" "octet c mod 64 < 64"
    using octet_less [of a] octet_less [of b] octet_less [of c] by auto
  show ?case
  proof (cases "b64encode rest")
    case Nil
    with lt 4 b64_quad_octets [of a b c] show ?thesis
      by (simp add: b64_value_char b64encode_nil_iff del: b64_quad.simps)
  next
    case (Cons v vs)
    with lt 4 b64_quad_octets [of a b c] show ?thesis
      by (simp add: b64_value_char del: b64_quad.simps)
  qed
qed simp

end
