(* ===== verification/Ccld_Objects.thy ===== *)
theory Ccld_Objects
  imports Json
begin

unbundle bit_operations_syntax

text \<open>
  The object files of the linker \<^verbatim>\<open>tools/ccld.py\<close> and their validation.  The code checks a parsed JSON
  payload in place (it replaces the base64 text of a section by its bytes, fills in \<open>source\<close>, reads an
  absent \<open>addend\<close> as 0); here the same checks, in the same order, turn a \<open>json\<close> value into the records
  the later passes read.  Every \<^verbatim>\<open>sys.exit\<close> is a constructor of \<open>link_error\<close>; \<open>Crash\<close> is an exception the
  code does not catch.
\<close>

datatype (plugins only: code) link_error =
    Bad_json string
  | Not_an_object string
  | Bad_version string
  | Missing_keys "string list"
  | Source_not_string
  | Sections_not_object
  | Symbols_not_object
  | Relocations_not_list
  | Unknown_section string
  | Section_not_object string
  | Bad_align string
  | Bad_bss_size
  | Bytes_not_string string
  | Bad_base64 string
  | Empty_symbol_name
  | Symbol_not_object string
  | Bad_binding string
  | Bad_section_of string
  | Undefined_section_of string string
  | Bad_offset string
  | Offset_past_section string
  | Extern_not_strings
  | Extern_duplicates
  | Reloc_not_object nat
  | Reloc_bad_offset nat
  | Reloc_past_section nat
  | Reloc_bad_addend nat
  | Reloc_bad_symbol nat
  | Reloc_bad_type nat
  | Duplicate_patch_site nat
  | Member_not_object nat
  | Member_bad_file nat
  | Member_outside nat
  | Member_missing nat
  | Member_bad_provides nat
  | Member_duplicate nat
  | Members_not_list
  | Duplicate_symbol string string string
  | Unresolved_externs "(string \<times> string) list"
  | Unknown_symbol string string
  | Too_far string int
  | Bad_base int
  | Image_overflow int
  | Unsupported_input string
  | Crash string

subsection \<open>Constants and records\<close>

definition bss_magic32 :: int where "bss_magic32 = 0xB032"
definition bss_trailer_size :: nat where "bss_trailer_size = 6"
definition ccar_version :: int where "ccar_version = 1"
definition ccobj_version :: int where "ccobj_version = 1"
definition default_align :: "string \<Rightarrow> int" where
  "default_align name = (if name = ''text'' then 16 else 4)"
definition known_bindings :: "string list" where "known_bindings = [''global'', ''local'']"
definition known_relocation_types :: "string list" where
  "known_relocation_types = [''abs32'', ''rel32'']"
definition known_sections :: "string list" where
  "known_sections = [''bss'', ''data'', ''rodata'', ''text'']"
definition max_bss_size :: int where "max_bss_size = 0xFFFFFFFF"
definition max_section_align :: int where "max_section_align = 4096"
definition required_keys :: "string list" where
  "required_keys = [''extern'', ''relocations'', ''sections'', ''symbols'']"
definition section_order :: "string list" where
  "section_order = [''text'', ''rodata'', ''data'']"
definition unknown_source :: string where "unknown_source = ''<unknown>''"

datatype section_body = Content "byte list" | Reserved int

record sect =
  s_align :: int
  s_body :: section_body
  s_slot :: "int option"

record symbol =
  y_binding :: string
  y_section :: string
  y_offset :: int

record reloc =
  r_section :: string
  r_offset :: int
  r_symbol :: string
  r_type :: string
  r_addend :: int

record ccobj =
  o_source :: string
  o_sections :: "(string \<times> sect) list"
  o_symbols :: "(string \<times> symbol) list"
  o_extern :: "string list"
  o_relocations :: "reloc list"
  o_locals :: "(string \<times> int) list"

record member =
  m_file :: string
  m_provides :: "string list"

text \<open>\<open>section_sizes\<close>: the reserved size of \<open>bss\<close>, the byte count of the others.\<close>

fun body_size :: "section_body \<Rightarrow> int" where
  "body_size (Content bs) = int (length bs)"
| "body_size (Reserved n) = n"

fun body_bytes :: "section_body \<Rightarrow> byte list" where
  "body_bytes (Content bs) = bs"
| "body_bytes (Reserved n) = []"

subsection \<open>Sections\<close>

definition power_of_two_align :: "int \<Rightarrow> bool" where
  "power_of_two_align a \<longleftrightarrow> \<not> (a \<le> 0 \<or> a > max_section_align \<or> a AND (a - 1) \<noteq> 0)"

definition ascii_only :: "string \<Rightarrow> bool" where
  "ascii_only s \<longleftrightarrow> list_all (\<lambda>c. of_char c < (128 :: nat)) s"

definition validate_section_bytes :: "string \<Rightarrow> int \<Rightarrow> json option \<Rightarrow> link_error + sect" where
  "validate_section_bytes name a encoded =
     (case as_str encoded of
        None \<Rightarrow> Inl (Bytes_not_string name)
      | Some text \<Rightarrow>
          require (ascii_only text) (Crash ''ValueError'')
            (case b64decode text of
               None \<Rightarrow> Inl (Bad_base64 name)
             | Some bs \<Rightarrow> Inr \<lparr>s_align = a, s_body = Content bs, s_slot = None\<rparr>))"

definition validate_section_entry :: "string \<Rightarrow> json \<Rightarrow> link_error + sect" where
  "validate_section_entry name j =
     require (name \<in> set known_sections) (Unknown_section name)
       (case j of
          JDict kvs \<Rightarrow>
            (case as_int (map_of kvs ''align'') of
               None \<Rightarrow> Inl (Bad_align name)
             | Some a \<Rightarrow>
                 require (power_of_two_align a) (Bad_align name)
                   (if name = ''bss''
                    then (case as_int (map_of kvs ''size'') of
                            None \<Rightarrow> Inl Bad_bss_size
                          | Some n \<Rightarrow>
                              require (0 \<le> n \<and> n \<le> max_bss_size) Bad_bss_size
                                (Inr \<lparr>s_align = a, s_body = Reserved n, s_slot = None\<rparr>))
                    else validate_section_bytes name a (map_of kvs ''bytes'')))
        | _ \<Rightarrow> Inl (Section_not_object name))"

definition validate_section_reference ::
    "string \<Rightarrow> json option \<Rightarrow> (string \<times> int) list \<Rightarrow> link_error + string" where
  "validate_section_reference owner sec sizes =
     (case as_str sec of
        None \<Rightarrow> Inl (Bad_section_of owner)
      | Some name \<Rightarrow>
          require (name \<in> set known_sections) (Bad_section_of owner)
            (require (map_of sizes name \<noteq> None) (Undefined_section_of owner name) (Inr name)))"

subsection \<open>Symbols, externs, relocations\<close>

definition validate_symbol_entry :: "(string \<times> int) list \<Rightarrow> string \<Rightarrow> json \<Rightarrow> link_error + symbol" where
  "validate_symbol_entry sizes name j =
     (case j of
        JDict kvs \<Rightarrow>
          require (hashable (map_of kvs ''binding'')) (Crash ''TypeError'')
            (case as_str (map_of kvs ''binding'') of
               None \<Rightarrow> Inl (Bad_binding name)
             | Some bd \<Rightarrow>
                 require (bd \<in> set known_bindings) (Bad_binding name)
                   (bind_result (validate_section_reference name (map_of kvs ''section'') sizes) (\<lambda>sec.
                      case as_int (map_of kvs ''offset'') of
                        None \<Rightarrow> Inl (Bad_offset name)
                      | Some off \<Rightarrow>
                          require (0 \<le> off) (Bad_offset name)
                            (require (off \<le> the (map_of sizes sec)) (Offset_past_section name)
                               (Inr \<lparr>y_binding = bd, y_section = sec, y_offset = off\<rparr>)))))
      | _ \<Rightarrow> Inl (Symbol_not_object name))"

definition validate_string_list :: "link_error \<Rightarrow> link_error \<Rightarrow> json option \<Rightarrow> link_error + string list" where
  "validate_string_list not_strings duplicates items =
     (case items of
        Some (JList xs) \<Rightarrow>
          (case sequence_opt (map (\<lambda>x. as_str (Some x)) xs) of
             None \<Rightarrow> Inl not_strings
           | Some names \<Rightarrow>
               require ([] \<notin> set names) not_strings (require (distinct names) duplicates (Inr names)))
      | _ \<Rightarrow> Inl not_strings)"

definition validate_relocation_entry :: "(string \<times> int) list \<Rightarrow> nat \<Rightarrow> json \<Rightarrow> link_error + reloc" where
  "validate_relocation_entry sizes index j =
     (case j of
        JDict kvs \<Rightarrow>
          bind_result (validate_section_reference ''relocation'' (map_of kvs ''section'') sizes) (\<lambda>sec.
            case as_int (map_of kvs ''offset'') of
              None \<Rightarrow> Inl (Reloc_bad_offset index)
            | Some off \<Rightarrow>
                require (0 \<le> off) (Reloc_bad_offset index)
                  (require (off + 4 \<le> the (map_of sizes sec)) (Reloc_past_section index)
                     (require (map_of kvs ''addend'' = None \<or> as_int (map_of kvs ''addend'') \<noteq> None)
                        (Reloc_bad_addend index)
                        (case as_str (map_of kvs ''symbol'') of
                           None \<Rightarrow> Inl (Reloc_bad_symbol index)
                         | Some target \<Rightarrow>
                             require (target \<noteq> []) (Reloc_bad_symbol index)
                               (case as_str (map_of kvs ''type'') of
                                  None \<Rightarrow> Inl (Reloc_bad_type index)
                                | Some ty \<Rightarrow>
                                    require (ty \<in> set known_relocation_types) (Reloc_bad_type index)
                                      (Inr \<lparr>r_section = sec, r_offset = off, r_symbol = target, r_type = ty,
                                        r_addend = (case as_int (map_of kvs ''addend'') of
                                          None \<Rightarrow> 0 | Some k \<Rightarrow> k)\<rparr>))))))
      | _ \<Rightarrow> Inl (Reloc_not_object index))"

fun validate_relocation_list ::
    "(string \<times> int) list \<Rightarrow> (string \<times> int) list \<Rightarrow> nat \<Rightarrow> json list \<Rightarrow> link_error + reloc list" where
  "validate_relocation_list sizes seen index [] = Inr []"
| "validate_relocation_list sizes seen index (j # js) =
     bind_result (validate_relocation_entry sizes index j) (\<lambda>r.
       require ((r_section r, r_offset r) \<notin> set seen) (Duplicate_patch_site index)
         (bind_result (validate_relocation_list sizes ((r_section r, r_offset r) # seen) (Suc index) js)
            (\<lambda>rs. Inr (r # rs))))"

definition validate_ccobj_relocations ::
    "(string \<times> int) list \<Rightarrow> json option \<Rightarrow> link_error + reloc list" where
  "validate_ccobj_relocations sizes relocations =
     (case relocations of
        Some (JList js) \<Rightarrow> validate_relocation_list sizes [] 0 js
      | _ \<Rightarrow> Inl Relocations_not_list)"

definition named_result :: "(string \<Rightarrow> json \<Rightarrow> link_error + 'a) \<Rightarrow> string \<times> json \<Rightarrow> link_error + (string \<times> 'a)" where
  "named_result f kv = bind_result (f (fst kv) (snd kv)) (\<lambda>x. Inr (fst kv, x))"

definition validate_symbol_item ::
    "(string \<times> int) list \<Rightarrow> string \<Rightarrow> json \<Rightarrow> link_error + symbol" where
  "validate_symbol_item sizes name j =
     require (name \<noteq> []) Empty_symbol_name (validate_symbol_entry sizes name j)"

definition section_sizes :: "(string \<times> sect) list \<Rightarrow> (string \<times> int) list" where
  "section_sizes secs = map (\<lambda>(n, s). (n, body_size (s_body s))) secs"

definition validate_ccobj_shape :: "(string \<times> json) list \<Rightarrow> link_error + ccobj" where
  "validate_ccobj_shape payload =
     require (map_of payload ''source'' = None \<or> as_str (map_of payload ''source'') \<noteq> None) Source_not_string
       (case map_of payload ''sections'' of
          Some (JDict secs) \<Rightarrow>
            bind_result (map_result (named_result validate_section_entry) secs) (\<lambda>sections.
              case map_of payload ''symbols'' of
                Some (JDict syms) \<Rightarrow>
                  bind_result (map_result (named_result (validate_symbol_item (section_sizes sections))) syms)
                    (\<lambda>symbols.
                      bind_result (validate_string_list Extern_not_strings Extern_duplicates
                        (map_of payload ''extern'')) (\<lambda>extern.
                          bind_result (validate_ccobj_relocations (section_sizes sections)
                            (map_of payload ''relocations'')) (\<lambda>relocations.
                              Inr \<lparr>o_source = (case as_str (map_of payload ''source'') of
                                     None \<Rightarrow> unknown_source | Some s \<Rightarrow> s),
                                   o_sections = sections, o_symbols = symbols, o_extern = extern,
                                   o_relocations = relocations, o_locals = []\<rparr>)))
              | _ \<Rightarrow> Inl Symbols_not_object)
        | _ \<Rightarrow> Inl Sections_not_object)"

subsection \<open>Files\<close>

text \<open>\<open>read path\<close> is the parsed content of a file, None when it is not valid JSON.\<close>

definition load_json_dict ::
    "(string \<Rightarrow> json option) \<Rightarrow> int \<Rightarrow> string \<Rightarrow> link_error + (string \<times> json) list" where
  "load_json_dict read expected path =
     (case read path of
        None \<Rightarrow> Inl (Bad_json path)
      | Some (JDict payload) \<Rightarrow>
          require (equals_int (map_of payload ''version'') expected) (Bad_version path) (Inr payload)
      | Some _ \<Rightarrow> Inl (Not_an_object path))"

definition load_ccobj :: "(string \<Rightarrow> json option) \<Rightarrow> string \<Rightarrow> link_error + ccobj" where
  "load_ccobj read path =
     bind_result (load_json_dict read ccobj_version path) (\<lambda>payload.
       let missing = filter (\<lambda>k. map_of payload k = None) required_keys in
       require (missing = []) (Missing_keys missing) (validate_ccobj_shape payload))"

text \<open>
  Archive manifests.  \<open>sibling file\<close> is the resolved path when it lies in the directory of the manifest,
  \<open>exists path\<close> says that it is a file.
\<close>

definition validate_ccar_member ::
    "(string \<Rightarrow> string option) \<Rightarrow> (string \<Rightarrow> bool) \<Rightarrow> nat \<Rightarrow> json \<Rightarrow> link_error + (string \<times> member)" where
  "validate_ccar_member sibling exists index j =
     (case j of
        JDict kvs \<Rightarrow>
          (case as_str (map_of kvs ''file'') of
             None \<Rightarrow> Inl (Member_bad_file index)
           | Some file \<Rightarrow>
               require (file \<noteq> []) (Member_bad_file index)
                 (case sibling file of
                    None \<Rightarrow> Inl (Member_outside index)
                  | Some path \<Rightarrow>
                      require (exists path) (Member_missing index)
                        (bind_result (validate_string_list (Member_bad_provides index)
                            (Member_bad_provides index) (map_of kvs ''provides''))
                          (\<lambda>names. Inr (file, \<lparr>m_file = path, m_provides = names\<rparr>)))))
      | _ \<Rightarrow> Inl (Member_not_object index))"

fun validate_ccar_members ::
    "(string \<Rightarrow> string option) \<Rightarrow> (string \<Rightarrow> bool) \<Rightarrow> string list \<Rightarrow> nat \<Rightarrow> json list \<Rightarrow>
     link_error + member list" where
  "validate_ccar_members sibling exists seen index [] = Inr []"
| "validate_ccar_members sibling exists seen index (j # js) =
     bind_result (validate_ccar_member sibling exists index j) (\<lambda>(file, m).
       require (file \<notin> set seen) (Member_duplicate index)
         (bind_result (validate_ccar_members sibling exists (file # seen) (Suc index) js)
            (\<lambda>ms. Inr (m # ms))))"

definition validate_ccar_shape ::
    "(string \<Rightarrow> string option) \<Rightarrow> (string \<Rightarrow> bool) \<Rightarrow> (string \<times> json) list \<Rightarrow> link_error + member list" where
  "validate_ccar_shape sibling exists manifest =
     (case map_of manifest ''members'' of
        Some (JList js) \<Rightarrow> validate_ccar_members sibling exists [] 0 js
      | _ \<Rightarrow> Inl Members_not_list)"

definition load_ccar ::
    "(string \<Rightarrow> json option) \<Rightarrow> (string \<Rightarrow> string option) \<Rightarrow> (string \<Rightarrow> bool) \<Rightarrow> string \<Rightarrow>
     link_error + member list" where
  "load_ccar read sibling exists path =
     bind_result (load_json_dict read ccar_version path) (validate_ccar_shape sibling exists)"

end
