(* ===== verification/Ccld.thy ===== *)
theory Ccld
  imports Ccld_Objects
begin

unbundle bit_operations_syntax

text \<open>
  The link proper: pulling archive members, laying out sections, resolving symbols, checking and
  applying relocations, \<^verbatim>\<open>main\<close>.  The code stores \<open>slot_address\<close> and \<open>local_addresses\<close> into the payload
  dictionaries; here each pass returns the updated list of objects.
\<close>

subsection \<open>Unresolved externs and archives\<close>

definition defined_globals :: "ccobj list \<Rightarrow> string list" where
  "defined_globals objs =
     concat (map (\<lambda>ob. map fst (filter (\<lambda>(n, y). y_binding y = ''global'') (o_symbols ob))) objs)"

definition unresolved_externs :: "ccobj list \<Rightarrow> string list" where
  "unresolved_externs objs =
     filter (\<lambda>n. n \<notin> set (defined_globals objs)) (concat (map o_extern objs))"

text \<open>One pass of \<open>_pull_archive_members\<close> over the members, with the unresolved set of its start.\<close>

fun pull_pass ::
    "(string \<Rightarrow> link_error + ccobj) \<Rightarrow> string list \<Rightarrow> member list \<Rightarrow> ccobj list \<Rightarrow> string list \<Rightarrow>
     link_error + (ccobj list \<times> string list)" where
  "pull_pass load unresolved [] objs pulled = Inr (objs, pulled)"
| "pull_pass load unresolved (m # ms) objs pulled =
     (if set (m_provides m) \<inter> set unresolved = {} \<or> m_file m \<in> set pulled
      then pull_pass load unresolved ms objs pulled
      else bind_result (load (m_file m)) (\<lambda>ob.
        pull_pass load unresolved ms (objs @ [ob]) (m_file m # pulled)))"

lemma pull_pass_pulled:
  "pull_pass load u ms objs pulled = Inr (objs', pulled') \<Longrightarrow>
   \<exists>new. pulled' = new @ pulled \<and> set new \<subseteq> m_file ` set ms \<and> set new \<inter> set pulled = {} \<and> distinct new"
proof (induction load u ms objs pulled rule: pull_pass.induct)
  case (2 load u m ms objs pulled)
  show ?case
  proof (cases "set (m_provides m) \<inter> set u = {} \<or> m_file m \<in> set pulled")
    case True
    with 2 show ?thesis by auto
  next
    case False
    with "2.prems" obtain ob where ob: "load (m_file m) = Inr ob"
      "pull_pass load u ms (objs @ [ob]) (m_file m # pulled) = Inr (objs', pulled')"
      by (auto simp: bind_result_Inr)
    from "2.IH"(2) [OF False ob(2)] obtain new where
      "pulled' = new @ m_file m # pulled" "set new \<subseteq> m_file ` set ms"
      "set new \<inter> set (m_file m # pulled) = {}" "distinct new" by blast
    with False show ?thesis by (intro exI [of _ "new @ [m_file m]"]) auto
  qed
qed simp

function pull_archive_members ::
    "(string \<Rightarrow> link_error + ccobj) \<Rightarrow> member list \<Rightarrow> ccobj list \<Rightarrow> string list \<Rightarrow> link_error + ccobj list" where
  "pull_archive_members load members objs pulled =
     (if unresolved_externs objs = [] then Inr objs
      else case pull_pass load (unresolved_externs objs) members objs pulled of
        Inl e \<Rightarrow> Inl e
      | Inr (objs', pulled') \<Rightarrow>
          if pulled' = pulled then Inr objs'
          else pull_archive_members load members objs' pulled')"
  by pat_completeness auto
termination
proof (relation "measure (\<lambda>(load, ms, objs, pulled). card (m_file ` set ms - set pulled))", goal_cases)
  case (2 load ms objs pulled r objs' pulled')
  then obtain new where new: "pulled' = new @ pulled" "set new \<subseteq> m_file ` set ms"
    "set new \<inter> set pulled = {}" using pull_pass_pulled by metis
  with 2 have "new \<noteq> []" by auto
  then obtain f where "f \<in> set new" by (cases new) auto
  with new have "m_file ` set ms - set pulled' \<subset> m_file ` set ms - set pulled" by auto
  then show ?case by (simp add: psubset_card_mono)
qed simp

declare pull_archive_members.simps [simp del]

definition resolve_symbols :: "ccobj list \<Rightarrow> link_error + unit" where
  "resolve_symbols objs =
     (let unresolved = unresolved_externs objs in
      if unresolved = [] then Inr ()
      else Inl (Unresolved_externs
        (concat (map (\<lambda>ob. map (\<lambda>n. (n, o_source ob)) (filter (\<lambda>n. n \<in> set unresolved) (o_extern ob))) objs))))"

subsection \<open>Layout\<close>

definition align_up :: "int \<Rightarrow> int \<Rightarrow> int" where
  "align_up offset alignment = (offset + alignment - 1) AND NOT (alignment - 1)"

definition section_of :: "string \<Rightarrow> ccobj \<Rightarrow> sect option" where
  "section_of name ob = map_of (o_sections ob) name"

definition set_slot_address :: "string \<Rightarrow> int \<Rightarrow> ccobj \<Rightarrow> ccobj" where
  "set_slot_address name addr ob =
     ob\<lparr>o_sections := map (\<lambda>(n, s). if n = name then (n, s\<lparr>s_slot := Some addr\<rparr>) else (n, s)) (o_sections ob)\<rparr>"

fun place_slices :: "int \<Rightarrow> string \<Rightarrow> byte list \<Rightarrow> ccobj list \<Rightarrow> byte list \<times> ccobj list" where
  "place_slices base name img [] = (img, [])"
| "place_slices base name img (ob # obs) =
     (case section_of name ob of
        None \<Rightarrow> (let (im, obs') = place_slices base name img obs in (im, ob # obs'))
      | Some s \<Rightarrow>
          (let (im, obs') = place_slices base name (img @ body_bytes (s_body s)) obs
           in (im, set_slot_address name (base + int (length img)) ob # obs')))"

definition concatenate_section ::
    "int \<Rightarrow> string \<Rightarrow> byte list \<times> ccobj list \<Rightarrow> byte list \<times> ccobj list" where
  "concatenate_section base name st =
     (let (img, obs) = st; contributors = List.map_filter (section_of name) obs in
      if contributors = [] then (img, obs)
      else let alignment = foldl max (default_align name) (map s_align contributors);
               padded = align_up (int (length img)) alignment
        in place_slices base name (img @ replicate (nat (padded - int (length img))) 0) obs)"

fun place_bss :: "int \<Rightarrow> ccobj list \<Rightarrow> int \<times> ccobj list" where
  "place_bss cursor [] = (cursor, [])"
| "place_bss cursor (ob # obs) =
     (case section_of ''bss'' ob of
        None \<Rightarrow> (let (c, obs') = place_bss cursor obs in (c, ob # obs'))
      | Some s \<Rightarrow>
          (let (c, obs') = place_bss (cursor + body_size (s_body s)) obs
           in (c, set_slot_address ''bss'' cursor ob # obs')))"

definition slot_of :: "ccobj \<Rightarrow> string \<Rightarrow> int option" where
  "slot_of ob name = Option.bind (section_of name ob) s_slot"

text \<open>The symbols of one object: locals into its own table, globals into the shared one with their source.\<close>

fun collect_symbols ::
    "ccobj \<Rightarrow> (string \<times> symbol) list \<Rightarrow> (string \<times> int) list \<Rightarrow> (string \<times> (int \<times> string)) list \<Rightarrow>
     link_error + ((string \<times> int) list \<times> (string \<times> (int \<times> string)) list)" where
  "collect_symbols ob [] locals globs = Inr (locals, globs)"
| "collect_symbols ob ((name, info) # rest) locals globs =
     (case slot_of ob (y_section info) of
        None \<Rightarrow> Inl (Crash ''KeyError'')
      | Some slot \<Rightarrow>
          (if y_binding info \<noteq> ''global''
           then collect_symbols ob rest (locals @ [(name, slot + y_offset info)]) globs
           else case map_of globs name of
             Some (_, previous) \<Rightarrow> Inl (Duplicate_symbol name previous (o_source ob))
           | None \<Rightarrow>
               collect_symbols ob rest locals (globs @ [(name, (slot + y_offset info, o_source ob))])))"

fun collect_all_symbols ::
    "ccobj list \<Rightarrow> (string \<times> (int \<times> string)) list \<Rightarrow>
     link_error + (ccobj list \<times> (string \<times> (int \<times> string)) list)" where
  "collect_all_symbols [] globs = Inr ([], globs)"
| "collect_all_symbols (ob # obs) globs =
     bind_result (collect_symbols ob (o_symbols ob) [] globs) (\<lambda>(locals, globs').
       bind_result (collect_all_symbols obs globs') (\<lambda>(obs', globs'').
         Inr (ob\<lparr>o_locals := locals\<rparr> # obs', globs'')))"

record link_layout =
  l_bss_size :: int
  l_image :: "byte list"
  l_symbols :: "(string \<times> int) list"

definition lay_out_sections :: "int \<Rightarrow> ccobj list \<Rightarrow> link_error + (link_layout \<times> ccobj list)" where
  "lay_out_sections base objs =
     (let (img, obs) = fold (concatenate_section base) section_order ([], objs);
          start = base + int (length img) + int bss_trailer_size;
          (cursor, obs') = place_bss start obs
      in bind_result (collect_all_symbols obs' []) (\<lambda>(obs'', globs).
           Inr (\<lparr>l_bss_size = cursor - start, l_image = img,
                  l_symbols = map (\<lambda>(n, (a, _)). (n, a)) globs\<rparr>, obs'')))"

subsection \<open>Relocations\<close>

definition resolve_symbol_address ::
    "(string \<times> int) list \<Rightarrow> (string \<times> int) list \<Rightarrow> string \<Rightarrow> int option" where
  "resolve_symbol_address locals globs name =
     (case map_of locals name of Some a \<Rightarrow> Some a | None \<Rightarrow> map_of globs name)"

definition patch_address :: "ccobj \<Rightarrow> reloc \<Rightarrow> int option" where
  "patch_address ob r = map_option (\<lambda>slot. slot + r_offset r) (slot_of ob (r_section r))"

definition validate_relocation :: "(string \<times> int) list \<Rightarrow> ccobj \<Rightarrow> reloc \<Rightarrow> link_error + unit" where
  "validate_relocation globs ob r =
     (case resolve_symbol_address (o_locals ob) globs (r_symbol r) of
        None \<Rightarrow> Inl (Unknown_symbol (o_source ob) (r_symbol r))
      | Some a \<Rightarrow>
          if r_type r \<noteq> ''rel32'' then Inr ()
          else case patch_address ob r of
            None \<Rightarrow> Inl (Crash ''KeyError'')
          | Some p \<Rightarrow>
              let displacement = a - (p + 4) in
              require (\<not> (displacement < - (2 ^ 31) \<or> displacement \<ge> 2 ^ 31)) (Too_far (r_symbol r) displacement)
                (Inr ()))"

definition validate_relocations :: "(string \<times> int) list \<Rightarrow> ccobj list \<Rightarrow> link_error + unit list" where
  "validate_relocations globs objs =
     map_result (\<lambda>(ob, r). validate_relocation globs ob r)
       (concat (map (\<lambda>ob. map (Pair ob) (o_relocations ob)) objs))"

text \<open>The four bytes of one patch; \<open>struct.pack\<close> raises outside the range of \<open><i\<close>.\<close>

definition patch_bytes :: "int \<Rightarrow> int \<Rightarrow> reloc \<Rightarrow> byte list option" where
  "patch_bytes symbol_address p r =
     (if r_type r = ''rel32'' then pack_signed 4 (symbol_address + r_addend r - (p + 4))
      else pack_unsigned 4 ((symbol_address + r_addend r) AND 0xFFFFFFFF))"

definition apply_relocation ::
    "int \<Rightarrow> (string \<times> int) list \<Rightarrow> ccobj \<times> reloc \<Rightarrow> byte list \<Rightarrow> link_error + byte list" where
  "apply_relocation base globs obr img =
     (let (ob, r) = obr in
      case (resolve_symbol_address (o_locals ob) globs (r_symbol r), patch_address ob r) of
        (Some a, Some p) \<Rightarrow>
          (case patch_bytes a p r of
             None \<Rightarrow> Inl (Crash ''struct.error'')
           | Some packed \<Rightarrow> Inr (slice_assign (nat (p - base)) (nat (p - base) + 4) packed img))
      | (None, Some _) \<Rightarrow> Inl (Crash ''TypeError'')
      | (_, None) \<Rightarrow> Inl (Crash ''KeyError''))"

fun apply_all ::
    "int \<Rightarrow> (string \<times> int) list \<Rightarrow> (ccobj \<times> reloc) list \<Rightarrow> byte list \<Rightarrow> link_error + byte list" where
  "apply_all base globs [] img = Inr img"
| "apply_all base globs (x # xs) img =
     bind_result (apply_relocation base globs x img) (apply_all base globs xs)"

definition apply_relocations ::
    "int \<Rightarrow> (string \<times> int) list \<Rightarrow> ccobj list \<Rightarrow> byte list \<Rightarrow> link_error + byte list" where
  "apply_relocations base globs objs img =
     apply_all base globs (concat (map (\<lambda>ob. map (Pair ob) (o_relocations ob)) objs)) img"

subsection \<open>main\<close>

definition link_objects :: "int \<Rightarrow> ccobj list \<Rightarrow> link_error + (byte list \<times> (string \<times> int) list)" where
  "link_objects base objs =
     bind_result (lay_out_sections base objs) (\<lambda>(layout, obs).
       let total = int (length (l_image layout)) + int bss_trailer_size + l_bss_size layout in
       require (base + total \<le> max_bss_size + 1) (Image_overflow total)
         (bind_result (resolve_symbols obs) (\<lambda>_.
           bind_result (validate_relocations (l_symbols layout) obs) (\<lambda>_.
             bind_result (apply_relocations base (l_symbols layout) obs (l_image layout)) (\<lambda>img.
               case (pack_unsigned 4 (l_bss_size layout), pack_unsigned 2 bss_magic32) of
                 (Some bss, Some magic) \<Rightarrow> Inr (img @ bss @ magic, l_symbols layout)
               | _ \<Rightarrow> Inl (Crash ''struct.error''))))))"

datatype link_input = Object_file string | Archive_file string | Other_file string

text \<open>Positional inputs in order: objects are loaded, archives contribute their members.\<close>

fun load_inputs ::
    "(string \<Rightarrow> link_error + ccobj) \<Rightarrow> (string \<Rightarrow> link_error + member list) \<Rightarrow> link_input list \<Rightarrow>
     link_error + (ccobj list \<times> member list)" where
  "load_inputs load_obj load_ar [] = Inr ([], [])"
| "load_inputs load_obj load_ar (Object_file p # rest) =
     bind_result (load_obj p) (\<lambda>ob. bind_result (load_inputs load_obj load_ar rest) (\<lambda>(obs, ms).
       Inr (ob # obs, ms)))"
| "load_inputs load_obj load_ar (Archive_file p # rest) =
     bind_result (load_ar p) (\<lambda>ms. bind_result (load_inputs load_obj load_ar rest) (\<lambda>(obs, ms').
       Inr (obs, ms @ ms')))"
| "load_inputs load_obj load_ar (Other_file p # rest) = Inl (Unsupported_input p)"

definition ccld_main ::
    "(string \<Rightarrow> json option) \<Rightarrow> (string \<Rightarrow> string \<Rightarrow> string option) \<Rightarrow> (string \<Rightarrow> bool) \<Rightarrow> int \<Rightarrow> link_input list \<Rightarrow>
     link_error + (byte list \<times> (string \<times> int) list)" where
  "ccld_main read sibling exists base inputs =
     require (0 \<le> base \<and> base \<le> max_bss_size) (Bad_base base)
       (bind_result (load_inputs (load_ccobj read) (\<lambda>p. load_ccar read (sibling p) exists p) inputs)
         (\<lambda>(objs, members).
           bind_result (pull_archive_members (load_ccobj read) members objs []) (link_objects base)))"

end
