(* ===== verification/Ccld_Layout.thy ===== *)
theory Ccld_Layout
  imports Ccld
begin

unbundle bit_operations_syntax

text \<open>
  Layout of the linked image: alignment, where each section of each object lands, that no two slices
  overlap and that each slice of the image holds the bytes of its section.
\<close>

subsection \<open>Alignment\<close>

lemma and_not_mask: "x AND NOT (mask k) = x - x mod (2 ^ k :: int)"
proof -
  have "(x AND NOT (mask k)) + (x AND mask k) = (x AND NOT (mask k)) OR (x AND mask k)"
    by (rule disjunctive_add) (auto simp: bit_simps)
  also have "\<dots> = x" by (rule bit_eqI) (auto simp: bit_simps)
  finally show ?thesis by (simp flip: take_bit_eq_mask add: take_bit_eq_mod)
qed

lemma align_up_power: "align_up off (2 ^ k) = off + (2 ^ k - 1) - (off + (2 ^ k - 1)) mod 2 ^ k"
  using and_not_mask [of "off + 2 ^ k - 1" k] by (simp add: align_up_def mask_eq_exp_minus_1 algebra_simps)

lemma align_up_props:
  "2 ^ k dvd align_up off (2 ^ k)" "off \<le> align_up off (2 ^ k)" "align_up off (2 ^ k) < off + 2 ^ k"
proof -
  let ?x = "off + (2 ^ k - 1)"
  have "0 \<le> ?x mod 2 ^ k" "?x mod 2 ^ k < 2 ^ k" by simp_all
  then show "off \<le> align_up off (2 ^ k)" "align_up off (2 ^ k) < off + 2 ^ k"
    unfolding align_up_power by linarith+
  show "2 ^ k dvd align_up off (2 ^ k)"
    unfolding align_up_power by (rule dvd_minus_mod)
qed

lemma power_of_two_bits:
  "0 < a \<Longrightarrow> a AND (a - 1) = 0 \<Longrightarrow> \<exists>k. a = (2 ^ k :: int)"
proof (induction "nat a" arbitrary: a rule: less_induct)
  case less
  show ?case
  proof (cases "even a")
    case True
    then obtain b where b: "a = 2 * b" by (elim evenE)
    have "a AND (a - 1) = 2 * (b AND (b - 1))"
    proof -
      have "(2 * b - 1) div 2 = b - 1" by presburger
      with b show ?thesis by (subst and_int_rec) simp
    qed
    with less b have "b AND (b - 1) = 0" "0 < b" "nat b < nat a" by auto
    with less.hyps obtain k where "b = 2 ^ k" by blast
    with b show ?thesis by (intro exI [of _ "Suc k"]) simp
  next
    case False
    then obtain b where b: "a = 2 * b + 1" by (elim oddE)
    have "a AND (a - 1) = 2 * (b AND b)" using b by (subst and_int_rec) simp
    with less b show ?thesis by (intro exI [of _ 0]) simp
  qed
qed

lemma power_of_two_align_cases: "power_of_two_align a \<Longrightarrow> \<exists>k. a = 2 ^ k"
  using power_of_two_bits [of a] by (auto simp: power_of_two_align_def)

lemma default_align_power: "\<exists>k. default_align name = 2 ^ k"
proof (cases "name = ''text''")
  case True
  then show ?thesis by (intro exI [of _ 4]) (simp add: default_align_def)
next
  case False
  then show ?thesis by (intro exI [of _ 2]) (simp add: default_align_def)
qed

lemma foldl_max_power:
  fixes a :: int
  assumes "\<exists>k. a = 2 ^ k" and "\<forall>x \<in> set xs. \<exists>k. x = 2 ^ k"
  shows "\<exists>k. foldl max a xs = 2 ^ k"
  using assms
proof (induction xs arbitrary: a)
  case (Cons x xs)
  then have "\<exists>k. max a x = 2 ^ k" by (auto simp: max_def)
  with Cons show ?case by simp
qed simp

lemma foldl_max_ge: "(a :: int) \<le> foldl max a xs" "x \<in> set xs \<Longrightarrow> x \<le> foldl max a xs"
proof -
  have ge: "(a :: int) \<le> foldl max a xs" for a and xs :: "int list"
    by (induction xs arbitrary: a) (auto intro: order_trans [OF max.cobounded1])
  then show "a \<le> foldl max a xs" .
  show "x \<in> set xs \<Longrightarrow> x \<le> foldl max a xs"
  proof (induction xs arbitrary: a)
    case (Cons y xs)
    show ?case
    proof (cases "x = y")
      case True
      have "y \<le> max a y" by simp
      also have "\<dots> \<le> foldl max (max a y) xs" by (rule ge)
      finally show ?thesis using True by simp
    qed (use Cons in simp)
  qed simp
qed

lemma power_dvd_of_le: "(2 :: int) ^ j \<le> 2 ^ k \<Longrightarrow> (2 :: int) ^ j dvd 2 ^ k"
  by (simp add: le_imp_power_dvd)

subsection \<open>Slots\<close>

lemma section_of_set_slot [simp]:
  "section_of n (set_slot_address m a ob) =
     (if n = m then map_option (\<lambda>s. s\<lparr>s_slot := Some a\<rparr>) (section_of n ob) else section_of n ob)"
proof -
  have "map_of (map (\<lambda>(k, s). if k = m then (k, s\<lparr>s_slot := Some a\<rparr>) else (k, s)) secs) n =
      (if n = m then map_option (\<lambda>s. s\<lparr>s_slot := Some a\<rparr>) (map_of secs n) else map_of secs n)" for secs
    by (induction secs) auto
  from this [of "o_sections ob"] show ?thesis
    unfolding section_of_def set_slot_address_def by simp
qed

definition contribution :: "string \<Rightarrow> ccobj \<Rightarrow> byte list" where
  "contribution n ob = (case section_of n ob of None \<Rightarrow> [] | Some s \<Rightarrow> body_bytes (s_body s))"

definition placed_at :: "int \<Rightarrow> string \<Rightarrow> nat \<Rightarrow> ccobj \<Rightarrow> ccobj" where
  "placed_at base n off ob =
     (case section_of n ob of None \<Rightarrow> ob | Some s \<Rightarrow> set_slot_address n (base + int off) ob)"

fun place_closed :: "int \<Rightarrow> string \<Rightarrow> nat \<Rightarrow> ccobj list \<Rightarrow> ccobj list" where
  "place_closed base n off [] = []"
| "place_closed base n off (ob # obs) =
     placed_at base n off ob # place_closed base n (off + length (contribution n ob)) obs"

lemma place_slices_closed:
  "place_slices base n img obs =
     (img @ concat (map (contribution n) obs), place_closed base n (length img) obs)"
  by (induction base n img obs rule: place_slices.induct)
     (auto simp: contribution_def placed_at_def split: option.splits)

text \<open>\<open>occupies base ob n off bs\<close>: section \<open>n\<close> of the object sits at offset \<open>off\<close> of the image, with bytes \<open>bs\<close>.\<close>

definition occupies :: "int \<Rightarrow> ccobj \<Rightarrow> string \<Rightarrow> nat \<Rightarrow> byte list \<Rightarrow> bool" where
  "occupies base ob n off bs \<longleftrightarrow>
     (\<exists>s. section_of n ob = Some s \<and> s_slot s = Some (base + int off) \<and> body_bytes (s_body s) = bs)"

definition apart :: "nat \<Rightarrow> 'a list \<Rightarrow> nat \<Rightarrow> 'b list \<Rightarrow> bool" where
  "apart off bs off' bs' \<longleftrightarrow> off + length bs \<le> off' \<or> off' + length bs' \<le> off"

definition same_contents :: "ccobj \<Rightarrow> ccobj \<Rightarrow> bool" where
  "same_contents ob ob' \<longleftrightarrow> o_source ob = o_source ob' \<and> o_symbols ob = o_symbols ob' \<and>
     o_extern ob = o_extern ob' \<and> o_relocations ob = o_relocations ob' \<and>
     (\<forall>n. map_option (\<lambda>s. (s_align s, s_body s)) (section_of n ob) =
          map_option (\<lambda>s. (s_align s, s_body s)) (section_of n ob'))"

definition laid_out :: "int \<Rightarrow> string set \<Rightarrow> byte list \<Rightarrow> ccobj list \<Rightarrow> bool" where
  "laid_out base placed img obs \<longleftrightarrow>
     (\<forall>i < length obs. \<forall>n \<in> placed. \<forall>s. section_of n (obs ! i) = Some s \<longrightarrow>
        (\<exists>off. occupies base (obs ! i) n off (body_bytes (s_body s)) \<and>
           off + length (body_bytes (s_body s)) \<le> length img \<and>
           slice off (off + length (body_bytes (s_body s))) img = body_bytes (s_body s))) \<and>
     (\<forall>i < length obs. \<forall>j < length obs. \<forall>n \<in> placed. \<forall>m \<in> placed. \<forall>off bs off' bs'.
        (i, n) \<noteq> (j, m) \<longrightarrow> occupies base (obs ! i) n off bs \<longrightarrow> occupies base (obs ! j) m off' bs' \<longrightarrow>
        apart off bs off' bs')"

lemma length_place_closed [simp]: "length (place_closed base n off obs) = length obs"
  by (induction base n off obs rule: place_closed.induct) auto

lemma place_closed_nth:
  "i < length obs \<Longrightarrow>
   place_closed base n off obs ! i =
     placed_at base n (off + length (concat (map (contribution n) (take i obs)))) (obs ! i)"
proof (induction base n off obs arbitrary: i rule: place_closed.induct)
  case (2 base n off ob obs)
  then show ?case by (cases i) (auto simp: add.assoc)
qed simp

lemma occupies_placed:
  "occupies base (placed_at base n off ob) m k bs \<longleftrightarrow>
     (if m = n then section_of n ob \<noteq> None \<and> k = off \<and> bs = contribution n ob
      else occupies base ob m k bs)"
  by (auto simp: occupies_def placed_at_def contribution_def split: option.splits)

lemma same_contents_set_slot: "same_contents ob (set_slot_address n a ob)"
proof -
  have "section_of m (set_slot_address n a ob) =
      (if m = n then map_option (\<lambda>s. s\<lparr>s_slot := Some a\<rparr>) (section_of m ob) else section_of m ob)" for m
    by simp
  then show ?thesis by (simp add: same_contents_def option.map_comp comp_def) (simp add: set_slot_address_def)
qed

lemma same_contents_refl [simp]: "same_contents ob ob"
  by (simp add: same_contents_def)

lemma same_contents_placed: "same_contents ob (placed_at base n off ob)"
  by (simp add: placed_at_def same_contents_set_slot split: option.splits)

lemma section_placed_other: "m \<noteq> n \<Longrightarrow> section_of m (placed_at base n off ob) = section_of m ob"
  by (auto simp: placed_at_def split: option.splits)

lemma slice_append: "b \<le> length xs \<Longrightarrow> slice a b (xs @ ys) = slice a b xs"
  by (simp add: slice_def)

lemma laid_out_append:
  assumes "laid_out base placed img obs" shows "laid_out base placed (img @ pad) obs"
  using assms unfolding laid_out_def by (fastforce simp: slice_append)

lemma slice_in_concat:
  assumes "i < length xss"
  shows "slice (length img + length (concat (take i xss)))
     (length img + length (concat (take i xss)) + length (xss ! i)) (img @ concat xss) = xss ! i"
proof -
  from assms have "concat xss = concat (take i xss) @ xss ! i @ concat (drop (Suc i) xss)"
    by (metis append_take_drop_id concat.simps(2) concat_append Cons_nth_drop_Suc)
  then show ?thesis by (simp add: slice_def)
qed

lemma concat_take_bound:
  assumes "i < length xss"
  shows "length (concat (take i xss)) + length (xss ! i) \<le> length (concat (take (Suc i) xss))"
  using assms by (simp add: take_Suc_conv_app_nth)

lemma concat_take_mono: "i \<le> j \<Longrightarrow> length (concat (take i xss)) \<le> length (concat (take j xss))"
  by (metis append_take_drop_id concat_append le_add1 length_append min.absorb1 take_take)

lemma laid_out_place:
  assumes inv: "laid_out base placed img obs" and n: "n \<notin> placed"
  shows "laid_out base (insert n placed) (img @ concat (map (contribution n) obs))
     (place_closed base n (length img) obs)"
proof -
  let ?off = "\<lambda>i. length img + length (concat (take i (map (contribution n) obs)))"
  let ?img = "img @ concat (map (contribution n) obs)" and ?obs = "place_closed base n (length img) obs"
  have nth: "?obs ! i = placed_at base n (?off i) (obs ! i)" if "i < length obs" for i
    using that by (simp add: place_closed_nth take_map)
  have bound: "?off i + length (contribution n (obs ! i)) \<le> ?off j" if "i < j" "j < length obs" for i j
    using that concat_take_bound [of i "map (contribution n) obs"]
      concat_take_mono [of "Suc i" j "map (contribution n) obs"] by simp
  have inside: "slice (?off i) (?off i + length (contribution n (obs ! i))) ?img = contribution n (obs ! i)"
    "?off i + length (contribution n (obs ! i)) \<le> length ?img" if "i < length obs" for i
    using that slice_in_concat [of i "map (contribution n) obs" img]
      concat_take_bound [of i "map (contribution n) obs"]
      concat_take_mono [of "Suc i" "length obs" "map (contribution n) obs"] by simp_all
  have old: "off + length bs \<le> length img"
    if "i < length obs" "m \<in> placed" "occupies base (obs ! i) m off bs" for i m off bs
    using inv that by (fastforce simp: laid_out_def occupies_def)
  show ?thesis
    unfolding laid_out_def length_place_closed
  proof (intro conjI allI impI ballI)
    fix i m s assume i: "i < length obs" and m: "m \<in> insert n placed" and s: "section_of m (?obs ! i) = Some s"
    show "\<exists>off. occupies base (?obs ! i) m off (body_bytes (s_body s)) \<and>
        off + length (body_bytes (s_body s)) \<le> length ?img \<and>
        slice off (off + length (body_bytes (s_body s))) ?img = body_bytes (s_body s)"
    proof (cases "m = n")
      case True
      with s have b: "body_bytes (s_body s) = contribution n (obs ! i)" "section_of n (obs ! i) \<noteq> None"
        unfolding nth [OF i] by (auto simp: placed_at_def contribution_def split: option.splits)
      with True inside [OF i] show ?thesis unfolding nth [OF i] occupies_placed by auto
    next
      case False
      with m have "m \<in> placed" by simp
      moreover have "section_of m (obs ! i) = Some s"
        using s False unfolding nth [OF i] by (simp add: section_placed_other)
      ultimately show ?thesis
        using laid_out_append [OF inv, of "concat (map (contribution n) obs)"] i False
        unfolding laid_out_def nth [OF i] occupies_placed by auto
    qed
  next
    fix i j m m' off bs off' bs'
    assume i: "i < length obs" and j: "j < length obs" and m: "m \<in> insert n placed" "m' \<in> insert n placed"
      and ne: "(i, m) \<noteq> (j, m')" and occ: "occupies base (?obs ! i) m off bs"
      "occupies base (?obs ! j) m' off' bs'"
    consider (both) "m = n" "m' = n" | (left) "m = n" "m' \<noteq> n" | (right) "m \<noteq> n" "m' = n"
      | (none) "m \<noteq> n" "m' \<noteq> n" by blast
    then show "apart off bs off' bs'"
    proof cases
      case both
      with ne have "i < j \<or> j < i" by auto
      with both occ bound [of i j] bound [of j i] i j show ?thesis
        unfolding nth [OF i] nth [OF j] occupies_placed by (auto simp: apart_def)
    next
      case left
      with occ have "occupies base (obs ! j) m' off' bs'" "off = ?off i"
        unfolding nth [OF i] nth [OF j] occupies_placed by auto
      with left m old [OF j] have "off' + length bs' \<le> length img" by auto
      with \<open>off = ?off i\<close> show ?thesis by (simp add: apart_def)
    next
      case right
      with occ have "occupies base (obs ! i) m off bs" "off' = ?off j"
        unfolding nth [OF i] nth [OF j] occupies_placed by auto
      with right m old [OF i] have "off + length bs \<le> length img" by auto
      with \<open>off' = ?off j\<close> show ?thesis by (simp add: apart_def)
    next
      case none
      with occ have "occupies base (obs ! i) m off bs" "occupies base (obs ! j) m' off' bs'"
        unfolding nth [OF i] nth [OF j] occupies_placed by auto
      with inv i j m none ne show ?thesis by (auto simp: laid_out_def)
    qed
  qed
qed

subsection \<open>The passes of the layout\<close>

definition same_objects :: "ccobj list \<Rightarrow> ccobj list \<Rightarrow> bool" where
  "same_objects = list_all2 same_contents"

lemma same_contents_trans: "same_contents a b \<Longrightarrow> same_contents b c \<Longrightarrow> same_contents a c"
  by (simp add: same_contents_def)

lemma same_objects_refl [simp]: "same_objects obs obs"
  by (simp add: same_objects_def list.rel_refl)

lemma same_objects_trans: "same_objects a b \<Longrightarrow> same_objects b c \<Longrightarrow> same_objects a c"
  unfolding same_objects_def by (rule list_all2_trans [OF same_contents_trans])

lemma same_objects_place: "same_objects obs (place_closed base n off obs)"
  unfolding same_objects_def
  by (induction base n off obs rule: place_closed.induct) (auto intro: same_contents_placed)

lemma laid_out_no_contributors:
  assumes "laid_out base placed img obs" and "\<forall>ob \<in> set obs. section_of n ob = None"
  shows "laid_out base (insert n placed) img obs"
proof -
  from assms(2) have "section_of n (obs ! i) = None" if "i < length obs" for i using that by simp
  then have "\<not> occupies base (obs ! i) n off bs" if "i < length obs" for i off bs
    using that by (simp add: occupies_def)
  with assms show ?thesis unfolding laid_out_def by (metis insert_iff nth_mem option.distinct(1))
qed

lemma map_filter_Nil: "List.map_filter f xs = [] \<longleftrightarrow> (\<forall>x \<in> set xs. f x = None)"
  by (induction xs) (auto simp: List.map_filter_def)

lemma concatenate_section_laid_out:
  assumes inv: "laid_out base placed img obs" and n: "n \<notin> placed"
    and st: "concatenate_section base n (img, obs) = (img', obs')"
  shows "laid_out base (insert n placed) img' obs' \<and> same_objects obs obs'"
proof (cases "List.map_filter (section_of n) obs = []")
  case True
  with st have "img' = img" "obs' = obs" by (auto simp: concatenate_section_def Let_def)
  with True inv show ?thesis by (simp add: map_filter_Nil laid_out_no_contributors)
next
  case False
  with st obtain pad where "img' = (img @ pad) @ concat (map (contribution n) obs)"
    and "obs' = place_closed base n (length (img @ pad)) obs"
    unfolding concatenate_section_def Let_def place_slices_closed by fastforce
  with laid_out_place [OF laid_out_append [OF inv] n] show ?thesis
    by (simp add: same_objects_place)
qed

lemma laid_out_empty: "laid_out base {} [] obs"
  by (simp add: laid_out_def)

lemma sections_laid_out:
  assumes "fold (concatenate_section base) section_order ([], objs) = (img, obs)"
  shows "laid_out base (set section_order) img obs \<and> same_objects objs obs"
proof -
  have "laid_out base (set ns \<union> placed) img' obs' \<and> same_objects objs obs'"
    if "fold (concatenate_section base) ns (img0, obs0) = (img', obs')" "laid_out base placed img0 obs0"
      "same_objects objs obs0" "distinct ns" "set ns \<inter> placed = {}" for ns img0 obs0 placed img' obs'
    using that
  proof (induction ns arbitrary: img0 obs0 placed)
    case (Cons n ns)
    obtain img1 obs1 where st: "concatenate_section base n (img0, obs0) = (img1, obs1)" by fastforce
    from concatenate_section_laid_out [OF Cons.prems(2) _ st] Cons.prems
    have "laid_out base (insert n placed) img1 obs1" "same_objects objs obs1"
      by (auto intro: same_objects_trans)
    with Cons.IH [of img1 obs1 "insert n placed"] Cons.prems st show ?case by auto
  qed simp
  from this [OF assms laid_out_empty] show ?thesis by (simp add: section_order_def)
qed

lemma place_bss_other: "place_bss c obs = (c', obs') \<Longrightarrow>
   list_all2 (\<lambda>ob ob'. same_contents ob ob' \<and> (\<forall>n. n \<noteq> ''bss'' \<longrightarrow> section_of n ob' = section_of n ob)) obs obs'"
proof (induction c obs arbitrary: c' obs' rule: place_bss.induct)
  case (2 c ob obs)
  show ?case
  proof (cases "section_of ''bss'' ob")
    case None
    with 2 show ?thesis by (auto split: prod.splits)
  next
    case (Some s)
    with 2 show ?thesis by (auto simp: same_contents_set_slot split: prod.splits)
  qed
qed simp

lemma laid_out_cong:
  assumes "laid_out base placed img obs" and "length obs' = length obs"
    and "\<And>i n. i < length obs \<Longrightarrow> n \<in> placed \<Longrightarrow> section_of n (obs' ! i) = section_of n (obs ! i)"
  shows "laid_out base placed img obs'"
  using assms unfolding laid_out_def occupies_def by simp

lemma collect_all_symbols_objects:
  "collect_all_symbols obs globs = Inr (obs', globs') \<Longrightarrow>
   list_all2 (\<lambda>ob ob'. \<exists>l. ob' = ob\<lparr>o_locals := l\<rparr>) obs obs'"
  by (induction obs globs arbitrary: obs' globs' rule: collect_all_symbols.induct)
     (auto simp: bind_result_Inr)

lemma section_of_locals [simp]: "section_of n (ob\<lparr>o_locals := l\<rparr>) = section_of n ob"
  by (simp add: section_of_def)

lemma same_contents_locals: "same_contents ob (ob\<lparr>o_locals := l\<rparr>)"
  by (simp add: same_contents_def)

lemma lay_out_sections_laid_out:
  assumes "lay_out_sections base objs = Inr (layout, obs)"
  shows "laid_out base (set section_order) (l_image layout) obs \<and> same_objects objs obs"
proof -
  from assms obtain img obs1 c obs2 globs where
    f: "fold (concatenate_section base) section_order ([], objs) = (img, obs1)"
    and b: "place_bss (base + int (length img) + int bss_trailer_size) obs1 = (c, obs2)"
    and s: "collect_all_symbols obs2 [] = Inr (obs, globs)" and l: "l_image layout = img"
    by (auto simp: lay_out_sections_def Let_def bind_result_Inr split: prod.splits)
  note b' = place_bss_other [OF b] and s' = collect_all_symbols_objects [OF s]
  from sections_laid_out [OF f] have inv: "laid_out base (set section_order) img obs1" "same_objects objs obs1"
    by auto
  from b' s' have len: "length obs2 = length obs1" "length obs = length obs2"
    by (auto dest: list_all2_lengthD)
  have sec: "section_of n (obs ! i) = section_of n (obs1 ! i)"
    if "i < length obs1" "n \<in> set section_order" for i n
  proof -
    from that have "n \<noteq> ''bss''" by (auto simp: section_order_def)
    with that len b' have "section_of n (obs2 ! i) = section_of n (obs1 ! i)"
      by (auto simp: list_all2_conv_all_nth)
    moreover from that len s' obtain l where "obs ! i = (obs2 ! i)\<lparr>o_locals := l\<rparr>"
      by (fastforce simp: list_all2_conv_all_nth)
    ultimately show ?thesis by simp
  qed
  have "same_objects obs1 obs2" using b' by (auto simp: same_objects_def intro: list_all2_mono)
  moreover have "same_objects obs2 obs"
    using s' by (auto simp: same_objects_def intro: list_all2_mono same_contents_locals)
  ultimately show ?thesis
    using laid_out_cong [OF inv(1) _ sec] len inv(2) l by (auto intro: same_objects_trans)
qed

end
