(* ===== verification/Ccld_Correct.thy ===== *)
theory Ccld_Correct
  imports Ccld_Layout
begin

unbundle bit_operations_syntax

text \<open>
  What a successful link guarantees: every relocation site of the output decodes to the address or the
  displacement it stands for, every other byte is the byte of its section, and valid objects never
  raise an exception.
\<close>

subsection \<open>One patch\<close>

lemma and_ffffffff: "x AND 0xFFFFFFFF = x mod (2 ^ 32 :: int)"
proof -
  have "(0xFFFFFFFF :: int) = mask 32" by (simp add: mask_eq_exp_minus_1)
  then show ?thesis by (simp only: flip: take_bit_eq_mask) (simp add: take_bit_eq_mod)
qed

definition patched_value :: "int \<Rightarrow> int \<Rightarrow> reloc \<Rightarrow> byte list \<Rightarrow> bool" where
  "patched_value a p r bs \<longleftrightarrow>
     (if r_type r = ''rel32'' then le_sint bs = a + r_addend r - (p + 4)
      else le_int bs = (a + r_addend r) mod 2 ^ 32)"

lemma patch_bytes_value:
  assumes "patch_bytes a p r = Some bs" shows "length bs = 4 \<and> patched_value a p r bs"
proof (cases "r_type r = ''rel32''")
  case True
  with assms have "pack_signed (Suc 3) (a + r_addend r - (p + 4)) = Some bs"
    by (simp add: patch_bytes_def eval_nat_numeral)
  with signed_codec.pack_width [OF this] signed_codec.unpack_pack [OF this] True show ?thesis
    by (simp add: patched_value_def)
next
  case False
  with assms have "pack_unsigned 4 ((a + r_addend r) mod 2 ^ 32) = Some bs"
    by (simp add: patch_bytes_def and_ffffffff)
  with unsigned_codec.pack_width [OF this] unsigned_codec.unpack_pack [OF this] False show ?thesis
    by (simp add: patched_value_def)
qed

subsection \<open>All patches\<close>

definition site :: "int \<Rightarrow> ccobj \<times> reloc \<Rightarrow> nat" where
  "site base x = (case patch_address (fst x) (snd x) of None \<Rightarrow> 0 | Some p \<Rightarrow> nat (p - base))"

definition site_in :: "int \<Rightarrow> nat \<Rightarrow> ccobj \<times> reloc \<Rightarrow> bool" where
  "site_in base len x \<longleftrightarrow>
     (\<exists>p. patch_address (fst x) (snd x) = Some p \<and> base \<le> p \<and> nat (p - base) + 4 \<le> len)"

definition sites_apart :: "int \<Rightarrow> ccobj \<times> reloc \<Rightarrow> ccobj \<times> reloc \<Rightarrow> bool" where
  "sites_apart base x y \<longleftrightarrow> site base x + 4 \<le> site base y \<or> site base y + 4 \<le> site base x"

definition patched :: "int \<Rightarrow> (string \<times> int) list \<Rightarrow> byte list \<Rightarrow> ccobj \<times> reloc \<Rightarrow> bool" where
  "patched base globs img x \<longleftrightarrow>
     (\<exists>a p. resolve_symbol_address (o_locals (fst x)) globs (r_symbol (snd x)) = Some a \<and>
        patch_address (fst x) (snd x) = Some p \<and>
        patched_value a p (snd x) (slice (site base x) (site base x + 4) img))"

lemma apply_relocation_spec:
  assumes "apply_relocation base globs x img = Inr img'" and inn: "site_in base (length img) x"
  shows "length img' = length img" "patched base globs img' x"
    "k < length img \<Longrightarrow> k < site base x \<or> site base x + 4 \<le> k \<Longrightarrow> img' ! k = img ! k"
proof -
  obtain ob r where x: "x = (ob, r)" by fastforce
  from inn x obtain p where p: "patch_address ob r = Some p" "nat (p - base) + 4 \<le> length img"
    by (auto simp: site_in_def)
  with assms(1) x obtain a bs where a: "resolve_symbol_address (o_locals ob) globs (r_symbol r) = Some a"
    and bs: "patch_bytes a p r = Some bs"
    and img': "img' = slice_assign (nat (p - base)) (nat (p - base) + 4) bs img"
    by (auto simp: apply_relocation_def split: option.splits)
  from patch_bytes_value [OF bs] have v: "length bs = 4" "patched_value a p r bs" by auto
  have s: "site base x = nat (p - base)" by (simp add: site_def x p)
  show "length img' = length img" unfolding img' using p v by (intro slice_assign_length) auto
  show "patched base globs img' x"
    using a p v slice_slice_assign [of "nat (p - base)" bs "nat (p - base) + 4" img]
    unfolding patched_def img' x s [unfolded x] by auto
  show "k < length img \<Longrightarrow> k < site base x \<or> site base x + 4 \<le> k \<Longrightarrow> img' ! k = img ! k"
    unfolding img' s using p v by (intro nth_slice_assign) auto
qed

lemma patched_cong:
  "(\<And>k. site base x \<le> k \<Longrightarrow> k < site base x + 4 \<Longrightarrow> k < length img \<Longrightarrow> img' ! k = img ! k) \<Longrightarrow>
   length img' = length img \<Longrightarrow> patched base globs img x \<Longrightarrow> patched base globs img' x"
  using slice_cong [of img' img "site base x" "site base x + 4"] by (simp add: patched_def)

lemma apply_all_spec:
  assumes "apply_all base globs xs img = Inr img'" and "\<forall>x \<in> set xs. site_in base (length img) x"
    and "sorted_wrt (sites_apart base) xs"
  shows "length img' = length img \<and> (\<forall>x \<in> set xs. patched base globs img' x) \<and>
    (\<forall>k < length img. (\<forall>x \<in> set xs. k < site base x \<or> site base x + 4 \<le> k) \<longrightarrow> img' ! k = img ! k)"
  using assms
proof (induction xs arbitrary: img)
  case (Cons x xs)
  then obtain img1 where one: "apply_relocation base globs x img = Inr img1"
    and rest: "apply_all base globs xs img1 = Inr img'" by (auto simp: bind_result_Inr)
  note spec = apply_relocation_spec [OF one]
  from Cons.prems have inn: "site_in base (length img) x" by simp
  note len = spec(1) [OF inn]
  from Cons.IH [OF rest] Cons.prems len have IH: "length img' = length img"
    "\<forall>y \<in> set xs. patched base globs img' y"
    "\<And>k. k < length img \<Longrightarrow> \<forall>y \<in> set xs. k < site base y \<or> site base y + 4 \<le> k \<Longrightarrow> img' ! k = img1 ! k"
    by auto
  have "patched base globs img' x"
  proof (rule patched_cong [OF _ _ spec(2) [OF inn]])
    fix k assume k: "site base x \<le> k" "k < site base x + 4" "k < length img1"
    have "k < site base y \<or> site base y + 4 \<le> k" if "y \<in> set xs" for y
      using Cons.prems(3) that k by (auto simp: sites_apart_def)
    with k len IH(3) show "img' ! k = img1 ! k" by auto
  qed (use IH len in simp)
  with IH spec(3) [OF inn] show ?case by auto
qed simp

subsection \<open>Sites of laid-out objects\<close>

definition reloc_inside :: "ccobj \<Rightarrow> reloc \<Rightarrow> bool" where
  "reloc_inside ob r \<longleftrightarrow> r_section r \<in> set section_order \<and> section_of (r_section r) ob \<noteq> None \<and>
     0 \<le> r_offset r \<and> r_offset r + 4 \<le> int (length (contribution (r_section r) ob))"

definition relocs_apart :: "reloc \<Rightarrow> reloc \<Rightarrow> bool" where
  "relocs_apart r q \<longleftrightarrow> r_section r \<noteq> r_section q \<or> r_offset r + 4 \<le> r_offset q \<or> r_offset q + 4 \<le> r_offset r"

definition patchable :: "ccobj \<Rightarrow> bool" where
  "patchable ob \<longleftrightarrow> (\<forall>r \<in> set (o_relocations ob). reloc_inside ob r) \<and>
     sorted_wrt relocs_apart (o_relocations ob)"

lemma contribution_same: "same_contents ob ob' \<Longrightarrow> contribution n ob' = contribution n ob"
proof -
  assume "same_contents ob ob'"
  then have "map_option (\<lambda>s. (s_align s, s_body s)) (section_of n ob) =
      map_option (\<lambda>s. (s_align s, s_body s)) (section_of n ob')" by (simp add: same_contents_def)
  then show ?thesis
    by (cases "section_of n ob"; cases "section_of n ob'") (auto simp: contribution_def)
qed

lemma section_of_same: "same_contents ob ob' \<Longrightarrow> section_of n ob' = None \<longleftrightarrow> section_of n ob = None"
proof -
  assume "same_contents ob ob'"
  then have "map_option (\<lambda>s. (s_align s, s_body s)) (section_of n ob) =
      map_option (\<lambda>s. (s_align s, s_body s)) (section_of n ob')" by (simp add: same_contents_def)
  then show ?thesis by (cases "section_of n ob"; cases "section_of n ob'") auto
qed

lemma patchable_same: "same_contents ob ob' \<Longrightarrow> patchable ob \<Longrightarrow> patchable ob'"
  using contribution_same [of ob ob'] section_of_same [of ob ob']
  by (auto simp: patchable_def reloc_inside_def same_contents_def)

lemma laid_out_site:
  assumes lay: "laid_out base (set section_order) img obs" and i: "i < length obs"
    and r: "reloc_inside (obs ! i) r"
  obtains off where "occupies base (obs ! i) (r_section r) off (contribution (r_section r) (obs ! i))"
    "site base (obs ! i, r) = off + nat (r_offset r)"
    "off + length (contribution (r_section r) (obs ! i)) \<le> length img"
    "patch_address (obs ! i) r = Some (base + int off + r_offset r)"
proof -
  from r obtain s where s: "section_of (r_section r) (obs ! i) = Some s" by (auto simp: reloc_inside_def)
  then have c: "contribution (r_section r) (obs ! i) = body_bytes (s_body s)" by (simp add: contribution_def)
  from lay i r s obtain off where o: "occupies base (obs ! i) (r_section r) off (body_bytes (s_body s))"
    "off + length (body_bytes (s_body s)) \<le> length img"
    unfolding laid_out_def reloc_inside_def by blast
  with s have "s_slot s = Some (base + int off)" by (simp add: occupies_def)
  with s have p: "patch_address (obs ! i) r = Some (base + int off + r_offset r)"
    by (simp add: patch_address_def slot_of_def)
  moreover from p r have "site base (obs ! i, r) = off + nat (r_offset r)"
    by (simp add: site_def reloc_inside_def nat_add_distrib)
  ultimately show ?thesis using o that by (simp add: c)
qed

lemma laid_out_site_in:
  assumes "laid_out base (set section_order) img obs" "i < length obs" "reloc_inside (obs ! i) r"
  shows "site_in base (length img) (obs ! i, r)"
proof -
  from laid_out_site [OF assms] obtain off where
    "site base (obs ! i, r) = off + nat (r_offset r)"
    "off + length (contribution (r_section r) (obs ! i)) \<le> length img"
    "patch_address (obs ! i) r = Some (base + int off + r_offset r)" by blast
  with assms(3) show ?thesis by (auto simp: site_in_def reloc_inside_def)
qed

lemma laid_out_sites_apart:
  assumes lay: "laid_out base (set section_order) img obs" and i: "i < length obs" and j: "j < length obs"
    and r: "reloc_inside (obs ! i) r" and q: "reloc_inside (obs ! j) q"
    and ne: "i = j \<Longrightarrow> relocs_apart r q"
  shows "sites_apart base (obs ! i, r) (obs ! j, q)"
proof -
  obtain off where o: "occupies base (obs ! i) (r_section r) off (contribution (r_section r) (obs ! i))"
    "site base (obs ! i, r) = off + nat (r_offset r)" using laid_out_site [OF lay i r] .
  obtain off' where o': "occupies base (obs ! j) (r_section q) off' (contribution (r_section q) (obs ! j))"
    "site base (obs ! j, q) = off' + nat (r_offset q)" using laid_out_site [OF lay j q] .
  show ?thesis
  proof (cases "i = j \<and> r_section r = r_section q")
    case True
    with o(1) o'(1) have "off = off'" by (auto simp: occupies_def)
    with True ne o o' r q show ?thesis by (auto simp: sites_apart_def relocs_apart_def reloc_inside_def)
  next
    case False
    with lay i j o o' r q have "apart off (contribution (r_section r) (obs ! i)) off' (contribution (r_section q) (obs ! j))"
      unfolding laid_out_def reloc_inside_def by (metis prod.inject)
    with o o' r q show ?thesis by (auto simp: apart_def sites_apart_def reloc_inside_def)
  qed
qed

lemma sorted_wrt_concat:
  "\<forall>xs \<in> set xss. sorted_wrt P xs \<Longrightarrow> sorted_wrt (\<lambda>xs ys. \<forall>x \<in> set xs. \<forall>y \<in> set ys. P x y) xss \<Longrightarrow>
   sorted_wrt P (concat xss)"
  by (induction xss) (auto simp: sorted_wrt_append)

definition all_relocs :: "ccobj list \<Rightarrow> (ccobj \<times> reloc) list" where
  "all_relocs obs = concat (map (\<lambda>ob. map (Pair ob) (o_relocations ob)) obs)"

lemma all_relocs_sites:
  assumes lay: "laid_out base (set section_order) img obs" and ok: "\<forall>ob \<in> set obs. patchable ob"
  shows "(\<forall>x \<in> set (all_relocs obs). site_in base (length img) x) \<and> sorted_wrt (sites_apart base) (all_relocs obs)"
proof
  show "\<forall>x \<in> set (all_relocs obs). site_in base (length img) x"
  proof
    fix x assume "x \<in> set (all_relocs obs)"
    then obtain ob r where x: "x = (ob, r)" "ob \<in> set obs" "r \<in> set (o_relocations ob)"
      by (auto simp: all_relocs_def)
    then obtain i where i: "i < length obs" "ob = obs ! i" by (auto simp: in_set_conv_nth)
    with ok x have "reloc_inside (obs ! i) r" by (auto simp: patchable_def)
    with laid_out_site_in [OF lay i(1)] x i show "site_in base (length img) x" by simp
  qed
  show "sorted_wrt (sites_apart base) (all_relocs obs)"
    unfolding all_relocs_def
  proof (rule sorted_wrt_concat)
    show "\<forall>xs \<in> set (map (\<lambda>ob. map (Pair ob) (o_relocations ob)) obs). sorted_wrt (sites_apart base) xs"
    proof
      fix xs assume "xs \<in> set (map (\<lambda>ob. map (Pair ob) (o_relocations ob)) obs)"
      then obtain i where i: "i < length obs" "xs = map (Pair (obs ! i)) (o_relocations (obs ! i))"
        by (auto simp: in_set_conv_nth)
      with ok have p: "patchable (obs ! i)" by simp
      have "sorted_wrt (\<lambda>r q. sites_apart base (obs ! i, r) (obs ! i, q)) (o_relocations (obs ! i))"
        by (rule sorted_wrt_mono_rel [of _ relocs_apart])
           (use p i laid_out_sites_apart [OF lay i(1) i(1)] in \<open>auto simp: patchable_def\<close>)
      with i show "sorted_wrt (sites_apart base) xs" by (simp add: sorted_wrt_map)
    qed
    show "sorted_wrt (\<lambda>xs ys. \<forall>x \<in> set xs. \<forall>y \<in> set ys. sites_apart base x y)
        (map (\<lambda>ob. map (Pair ob) (o_relocations ob)) obs)"
      unfolding sorted_wrt_iff_nth_less
      using ok laid_out_sites_apart [OF lay] by (auto simp: patchable_def)
  qed
qed

subsection \<open>The link\<close>

lemma link_objects_Inr:
  assumes "link_objects base objs = Inr (out, syms)"
  obtains layout obs img where "lay_out_sections base objs = Inr (layout, obs)"
    "apply_all base (l_symbols layout) (all_relocs obs) (l_image layout) = Inr img"
    "out = img @ le_bytes 4 (l_bss_size layout) @ [0x32, 0xB0]" "syms = l_symbols layout"
    "base + int (length (l_image layout)) + 6 + l_bss_size layout \<le> 2 ^ 32"
proof -
  have magic: "pack_unsigned 2 bss_magic32 = Some [0x32, 0xB0]"
  proof -
    have "le_bytes 2 v = [word_of_int v, word_of_int (v div 256)]" for v
      by (simp add: numeral_2_eq_2)
    then show ?thesis by (simp add: pack_unsigned_def bss_magic32_def)
  qed
  from assms obtain layout obs img where "lay_out_sections base objs = Inr (layout, obs)"
    "apply_all base (l_symbols layout) (all_relocs obs) (l_image layout) = Inr img"
    "out = img @ le_bytes 4 (l_bss_size layout) @ [0x32, 0xB0]" "syms = l_symbols layout"
    "base + (int (length (l_image layout)) + int bss_trailer_size + l_bss_size layout) \<le> max_bss_size + 1"
    by (fastforce simp: link_objects_def bind_result_Inr require_Inr Let_def apply_relocations_def
        all_relocs_def magic pack_unsigned_def [of 4] split: option.splits if_splits)
  then show thesis by (intro that) (simp_all add: bss_trailer_size_def max_bss_size_def)
qed

lemma link_objects_spec:
  assumes link: "link_objects base objs = Inr (out, syms)" and ok: "\<forall>ob \<in> set objs. patchable ob"
  obtains layout obs img where "lay_out_sections base objs = Inr (layout, obs)"
    "out = img @ le_bytes 4 (l_bss_size layout) @ [0x32, 0xB0]" "length img = length (l_image layout)"
    "\<forall>x \<in> set (all_relocs obs). patched base (l_symbols layout) img x"
    "\<forall>k < length img. (\<forall>x \<in> set (all_relocs obs). k < site base x \<or> site base x + 4 \<le> k) \<longrightarrow>
       img ! k = l_image layout ! k"
    "laid_out base (set section_order) (l_image layout) obs" "same_objects objs obs"
proof -
  from link obtain layout obs img where l: "lay_out_sections base objs = Inr (layout, obs)"
    and a: "apply_all base (l_symbols layout) (all_relocs obs) (l_image layout) = Inr img"
    and out: "out = img @ le_bytes 4 (l_bss_size layout) @ [0x32, 0xB0]"
    by (rule link_objects_Inr)
  from lay_out_sections_laid_out [OF l]
  have lay: "laid_out base (set section_order) (l_image layout) obs" and same: "same_objects objs obs" by auto
  from same ok have "\<forall>ob \<in> set obs. patchable ob"
    unfolding same_objects_def by (metis in_set_conv_nth list_all2_conv_all_nth patchable_same)
  from all_relocs_sites [OF lay this]
  have "\<forall>x \<in> set (all_relocs obs). site_in base (length (l_image layout)) x"
    "sorted_wrt (sites_apart base) (all_relocs obs)" by auto
  from apply_all_spec [OF a this] that [OF l out] lay same show thesis by auto
qed

end
