(* ===== verification/Ccld_Safety.thy ===== *)
theory Ccld_Safety
  imports Ccld_Correct
begin

text \<open>
  What validation establishes of an object, what the archive pull leaves, and that valid objects never
  make the linker raise an exception.
\<close>

subsection \<open>Valid objects\<close>

definition wf_section :: "string \<Rightarrow> sect \<Rightarrow> bool" where
  "wf_section n s \<longleftrightarrow> n \<in> set known_sections \<and> power_of_two_align (s_align s) \<and>
     (case s_body s of
        Content bs \<Rightarrow> n \<noteq> ''bss''
      | Reserved k \<Rightarrow> n = ''bss'' \<and> 0 \<le> k \<and> k \<le> max_bss_size)"

definition size_of :: "ccobj \<Rightarrow> string \<Rightarrow> int" where
  "size_of ob n = (case section_of n ob of None \<Rightarrow> 0 | Some s \<Rightarrow> body_size (s_body s))"

definition wf_symbol :: "ccobj \<Rightarrow> string \<Rightarrow> symbol \<Rightarrow> bool" where
  "wf_symbol ob n y \<longleftrightarrow> n \<noteq> [] \<and> y_binding y \<in> set known_bindings \<and>
     section_of (y_section y) ob \<noteq> None \<and> 0 \<le> y_offset y \<and> y_offset y \<le> size_of ob (y_section y)"

definition wf_reloc :: "ccobj \<Rightarrow> reloc \<Rightarrow> bool" where
  "wf_reloc ob r \<longleftrightarrow> section_of (r_section r) ob \<noteq> None \<and> 0 \<le> r_offset r \<and>
     r_offset r + 4 \<le> size_of ob (r_section r) \<and> r_symbol r \<noteq> [] \<and>
     r_type r \<in> set known_relocation_types"

definition wf_ccobj :: "ccobj \<Rightarrow> bool" where
  "wf_ccobj ob \<longleftrightarrow> (\<forall>(n, s) \<in> set (o_sections ob). wf_section n s) \<and>
     (\<forall>(n, y) \<in> set (o_symbols ob). wf_symbol ob n y) \<and>
     (\<forall>r \<in> set (o_relocations ob). wf_reloc ob r) \<and>
     distinct (map (\<lambda>r. (r_section r, r_offset r)) (o_relocations ob)) \<and>
     distinct (o_extern ob) \<and> [] \<notin> set (o_extern ob)"

lemma case_option_Inr:
  "(case x of None \<Rightarrow> Inl e | Some a \<Rightarrow> f a) = Inr y \<longleftrightarrow> (\<exists>a. x = Some a \<and> f a = Inr y)"
  by (cases x) auto

lemma case_dict_Inr:
  "(case x of Some (JDict d) \<Rightarrow> f d | _ \<Rightarrow> Inl e) = Inr y \<longleftrightarrow> (\<exists>d. x = Some (JDict d) \<and> f d = Inr y)"
  by (auto split: option.splits json.splits)

lemma case_list_Inr:
  "(case x of Some (JList d) \<Rightarrow> f d | _ \<Rightarrow> Inl e) = Inr y \<longleftrightarrow> (\<exists>d. x = Some (JList d) \<and> f d = Inr y)"
  by (auto split: option.splits json.splits)

lemma validate_section_entry_wf: "validate_section_entry n j = Inr s \<Longrightarrow> wf_section n s"
  by (cases j)
     (auto simp: validate_section_entry_def validate_section_bytes_def require_Inr wf_section_def
       split: option.splits if_splits)

lemma named_result_Inr: "named_result f kv = Inr nx \<longleftrightarrow> fst nx = fst kv \<and> f (fst kv) (snd kv) = Inr (snd nx)"
  by (cases nx) (auto simp: named_result_def bind_result_Inr)

lemma map_result_named:
  "map_result (named_result f) kvs = Inr xs \<Longrightarrow> (n, x) \<in> set xs \<Longrightarrow> \<exists>j. f n j = Inr x"
  by (fastforce simp: map_result_Inr named_result_Inr list_all2_conv_all_nth in_set_conv_nth)

lemma map_of_section_sizes: "map_of (section_sizes secs) n = map_option (\<lambda>s. body_size (s_body s)) (map_of secs n)"
  by (induction secs) (auto simp: section_sizes_def)

lemma validate_section_reference_Inr:
  "validate_section_reference w sec sizes = Inr n \<longleftrightarrow>
   as_str sec = Some n \<and> n \<in> set known_sections \<and> map_of sizes n \<noteq> None"
  by (auto simp: validate_section_reference_def require_Inr split: option.splits)

lemma validate_symbol_item_Inr:
  assumes "validate_symbol_item (section_sizes secs) n j = Inr y" and "o_sections ob = secs"
  shows "wf_symbol ob n y"
  using assms
  by (cases j)
     (auto simp: validate_symbol_item_def validate_symbol_entry_def require_Inr bind_result_Inr wf_symbol_def
       case_option_Inr validate_section_reference_Inr section_of_def size_of_def map_of_section_sizes)

lemma validate_relocation_entry_Inr:
  assumes "validate_relocation_entry (section_sizes secs) i j = Inr r" and "o_sections ob = secs"
  shows "wf_reloc ob r"
  using assms
  by (cases j)
     (auto simp: validate_relocation_entry_def require_Inr bind_result_Inr wf_reloc_def case_option_Inr
       validate_section_reference_Inr section_of_def size_of_def map_of_section_sizes)

lemma validate_relocation_list_Inr:
  assumes "validate_relocation_list (section_sizes secs) seen i js = Inr rs" and "o_sections ob = secs"
  shows "(\<forall>r \<in> set rs. wf_reloc ob r) \<and> distinct (map (\<lambda>r. (r_section r, r_offset r)) rs) \<and>
    (\<forall>r \<in> set rs. (r_section r, r_offset r) \<notin> set seen)"
  using assms
proof (induction "section_sizes secs" seen i js arbitrary: rs rule: validate_relocation_list.induct)
  case (2 seen i j js)
  then obtain r rs' where r: "validate_relocation_entry (section_sizes secs) i j = Inr r"
    and new: "(r_section r, r_offset r) \<notin> set seen"
    and rest: "validate_relocation_list (section_sizes secs) ((r_section r, r_offset r) # seen) (Suc i) js = Inr rs'"
    and rs: "rs = r # rs'"
    by (auto simp: bind_result_Inr require_Inr)
  from "2.hyps" [OF rest "2.prems"(2)]
  have "(\<forall>q \<in> set rs'. wf_reloc ob q) \<and> distinct (map (\<lambda>r. (r_section r, r_offset r)) rs') \<and>
    (\<forall>q \<in> set rs'. (r_section q, r_offset q) \<notin> set ((r_section r, r_offset r) # seen))" by blast
  with new validate_relocation_entry_Inr [OF r "2.prems"(2)] rs show ?case by force
qed auto

lemma validate_string_list_Inr:
  "validate_string_list e d items = Inr names \<Longrightarrow> distinct names \<and> [] \<notin> set names"
  unfolding validate_string_list_def case_list_Inr
  by (auto simp: case_option_Inr require_Inr)

lemma validate_ccobj_shape_wf:
  assumes "validate_ccobj_shape payload = Inr ob" shows "wf_ccobj ob"
proof -
  from assms obtain secs sections syms symbols extern relocs where
    s: "map_result (named_result validate_section_entry) secs = Inr sections"
    and y: "map_result (named_result (validate_symbol_item (section_sizes sections))) syms = Inr symbols"
    and e: "validate_string_list Extern_not_strings Extern_duplicates (map_of payload ''extern'') = Inr extern"
    and r: "validate_ccobj_relocations (section_sizes sections) (map_of payload ''relocations'') = Inr relocs"
    and ob: "o_sections ob = sections" "o_symbols ob = symbols" "o_extern ob = extern" "o_relocations ob = relocs"
    unfolding validate_ccobj_shape_def require_Inr bind_result_Inr case_dict_Inr by auto
  from r obtain js where "validate_relocation_list (section_sizes sections) [] 0 js = Inr relocs"
    unfolding validate_ccobj_relocations_def case_list_Inr by auto
  from validate_relocation_list_Inr [OF this ob(1)] validate_string_list_Inr [OF e]
  show ?thesis unfolding wf_ccobj_def ob
    using map_result_named [OF s] map_result_named [OF y] validate_section_entry_wf
      validate_symbol_item_Inr [OF _ ob(1)] by fastforce
qed

lemma load_ccobj_wf: "load_ccobj read path = Inr ob \<Longrightarrow> wf_ccobj ob"
  by (auto simp: load_ccobj_def bind_result_Inr require_Inr Let_def intro: validate_ccobj_shape_wf)

subsection \<open>Archives\<close>

lemma pull_pass_spec:
  "pull_pass load u ms objs pulled = Inr (objs', pulled') \<Longrightarrow>
   \<exists>files new. objs' = objs @ new \<and> pulled' = rev files @ pulled \<and>
     list_all2 (\<lambda>f ob. load f = Inr ob) files new \<and> distinct files \<and> set files \<inter> set pulled = {} \<and>
     (\<forall>m \<in> set ms. set (m_provides m) \<inter> set u \<noteq> {} \<longrightarrow> m_file m \<in> set files \<union> set pulled)"
proof (induction load u ms objs pulled rule: pull_pass.induct)
  case (1 load u objs pulled)
  then show ?case by (intro exI [of _ "[]"]) auto
next
  case (2 load u m ms objs pulled)
  show ?case
  proof (cases "set (m_provides m) \<inter> set u = {} \<or> m_file m \<in> set pulled")
    case True
    with "2.prems" have "pull_pass load u ms objs pulled = Inr (objs', pulled')" by simp
    from "2.IH"(1) [OF True this] obtain files new where "objs' = objs @ new" "pulled' = rev files @ pulled"
      "list_all2 (\<lambda>f ob. load f = Inr ob) files new" "distinct files" "set files \<inter> set pulled = {}"
      "\<forall>m \<in> set ms. set (m_provides m) \<inter> set u \<noteq> {} \<longrightarrow> m_file m \<in> set files \<union> set pulled" by blast
    with True show ?thesis by (intro exI [of _ files] exI [of _ new]) auto
  next
    case False
    with "2.prems" obtain ob where ob: "load (m_file m) = Inr ob"
      "pull_pass load u ms (objs @ [ob]) (m_file m # pulled) = Inr (objs', pulled')"
      by (auto simp: bind_result_Inr)
    from "2.IH"(2) [OF False ob(2)] obtain files new where "objs' = (objs @ [ob]) @ new"
      "pulled' = rev files @ m_file m # pulled" "list_all2 (\<lambda>f ob. load f = Inr ob) files new"
      "distinct files" "set files \<inter> set (m_file m # pulled) = {}"
      "\<forall>n \<in> set ms. set (m_provides n) \<inter> set u \<noteq> {} \<longrightarrow> m_file n \<in> set files \<union> set (m_file m # pulled)"
      by blast
    with False ob show ?thesis by (intro exI [of _ "m_file m # files"] exI [of _ "ob # new"]) auto
  qed
qed

lemma pull_archive_members_spec:
  "pull_archive_members load ms objs pulled = Inr objs' \<Longrightarrow>
   \<exists>files new. objs' = objs @ new \<and> list_all2 (\<lambda>f ob. load f = Inr ob) files new \<and> distinct files \<and>
     set files \<inter> set pulled = {} \<and>
     (\<forall>m \<in> set ms. set (m_provides m) \<inter> set (unresolved_externs objs') \<noteq> {} \<longrightarrow>
        m_file m \<in> set files \<union> set pulled)"
proof (induction load ms objs pulled rule: pull_archive_members.induct)
  case (1 load ms objs pulled)
  show ?case
  proof (cases "unresolved_externs objs = []")
    case True
    with "1.prems" show ?thesis
      by (intro exI [of _ "[]"]) (auto simp: pull_archive_members.simps [of load ms objs])
  next
    case False
    with "1.prems" obtain objs1 pulled1 where
      pass: "pull_pass load (unresolved_externs objs) ms objs pulled = Inr (objs1, pulled1)"
      and rest: "if pulled1 = pulled then objs' = objs1
        else pull_archive_members load ms objs1 pulled1 = Inr objs'"
      by (auto simp: pull_archive_members.simps [of load ms objs] split: sum.splits if_splits)
    from pull_pass_spec [OF pass] obtain files new where
      new: "objs1 = objs @ new" "pulled1 = rev files @ pulled"
        "list_all2 (\<lambda>f ob. load f = Inr ob) files new" "distinct files" "set files \<inter> set pulled = {}"
      and all: "\<forall>m \<in> set ms. set (m_provides m) \<inter> set (unresolved_externs objs) \<noteq> {} \<longrightarrow>
        m_file m \<in> set files \<union> set pulled" by blast
    show ?thesis
    proof (cases "pulled1 = pulled")
      case True
      with new have "files = []" "new = []" by auto
      with True rest new all show ?thesis by (intro exI [of _ "[]"]) auto
    next
      case changed: False
      with rest "1.IH" [OF False pass refl changed] obtain files' new' where
        "objs' = objs1 @ new'" "list_all2 (\<lambda>f ob. load f = Inr ob) files' new'" "distinct files'"
        "set files' \<inter> set pulled1 = {}"
        "\<forall>m \<in> set ms. set (m_provides m) \<inter> set (unresolved_externs objs') \<noteq> {} \<longrightarrow>
           m_file m \<in> set files' \<union> set pulled1" by auto
      with new show ?thesis
        by (intro exI [of _ "files @ files'"] exI [of _ "new @ new'"]) (auto intro: list_all2_appendI)
    qed
  qed
qed

subsection \<open>No exception\<close>

definition crashes :: "link_error + 'a \<Rightarrow> bool" where
  "crashes r \<longleftrightarrow> (\<exists>w. r = Inl (Crash w))"

lemma crashes_bind: "crashes (bind_result m f) \<longleftrightarrow> crashes m \<or> (\<exists>x. m = Inr x \<and> crashes (f x))"
  by (cases m) (auto simp: crashes_def)

lemma crashes_simps [simp]: "\<not> crashes (Inr x)" "crashes (Inl e) \<longleftrightarrow> (\<exists>w. e = Crash w)"
  by (auto simp: crashes_def)

lemma crashes_require: "\<nexists>w. e = Crash w \<Longrightarrow> crashes (require c e k) \<longleftrightarrow> c \<and> crashes k"
  by (simp add: require_def)

definition slotted :: "ccobj \<Rightarrow> bool" where
  "slotted ob \<longleftrightarrow> (\<forall>n \<in> set known_sections. section_of n ob \<noteq> None \<longrightarrow> slot_of ob n \<noteq> None)"

lemma place_bss_slots:
  "place_bss c obs = (c', obs') \<Longrightarrow> \<forall>ob \<in> set obs'. section_of ''bss'' ob \<noteq> None \<longrightarrow> slot_of ob ''bss'' \<noteq> None"
proof (induction c obs arbitrary: c' obs' rule: place_bss.induct)
  case (2 c ob obs)
  show ?case
  proof (cases "section_of ''bss'' ob")
    case None
    obtain c1 obs1 where p: "place_bss c obs = (c1, obs1)" by fastforce
    with "2.IH"(1) [OF None p] "2.prems" None show ?thesis by auto
  next
    case (Some s)
    obtain c1 obs1 where p: "place_bss (c + body_size (s_body s)) obs = (c1, obs1)" by fastforce
    with "2.IH"(2) [OF Some p] "2.prems" Some show ?thesis by (fastforce simp: slot_of_def)
  qed
qed simp

lemma place_bss_cursor:
  "place_bss c obs = (c', obs') \<Longrightarrow> \<forall>ob \<in> set obs. \<forall>s. section_of ''bss'' ob = Some s \<longrightarrow> 0 \<le> body_size (s_body s) \<Longrightarrow>
   c \<le> c'"
proof (induction c obs arbitrary: c' obs' rule: place_bss.induct)
  case (2 c ob obs)
  show ?case
  proof (cases "section_of ''bss'' ob")
    case None
    obtain c1 obs1 where p: "place_bss c obs = (c1, obs1)" by fastforce
    with "2.IH"(1) [OF None p] "2.prems" None show ?thesis by auto
  next
    case (Some s)
    obtain c1 obs1 where p: "place_bss (c + body_size (s_body s)) obs = (c1, obs1)" by fastforce
    with "2.IH"(2) [OF Some p] "2.prems" Some show ?thesis by auto
  qed
qed simp

lemma collect_symbols_no_crash:
  "\<forall>(n, y) \<in> set syms. slot_of ob (y_section y) \<noteq> None \<Longrightarrow> \<not> crashes (collect_symbols ob syms l g)"
  by (induction ob syms l g rule: collect_symbols.induct) (auto split: option.splits)

lemma collect_all_no_crash:
  "\<forall>ob \<in> set obs. \<forall>(n, y) \<in> set (o_symbols ob). slot_of ob (y_section y) \<noteq> None \<Longrightarrow>
   \<not> crashes (collect_all_symbols obs g)"
  by (induction obs g rule: collect_all_symbols.induct) (auto simp: crashes_bind collect_symbols_no_crash)

lemma slot_of_locals [simp]: "slot_of (ob\<lparr>o_locals := l\<rparr>) n = slot_of ob n"
  by (simp add: slot_of_def)

lemma wf_section_of: "wf_ccobj ob \<Longrightarrow> section_of n ob = Some s \<Longrightarrow> wf_section n s"
  by (auto simp: wf_ccobj_def section_of_def dest: map_of_SomeD)

lemma wf_known: "wf_ccobj ob \<Longrightarrow> section_of n ob \<noteq> None \<Longrightarrow> n \<in> set known_sections"
  using wf_section_of by (auto simp: wf_section_def)

lemma size_of_same: "same_contents ob ob' \<Longrightarrow> size_of ob' n = size_of ob n"
proof -
  assume "same_contents ob ob'"
  then have "map_option (\<lambda>s. (s_align s, s_body s)) (section_of n ob) =
      map_option (\<lambda>s. (s_align s, s_body s)) (section_of n ob')" by (simp add: same_contents_def)
  then show ?thesis
    by (cases "section_of n ob"; cases "section_of n ob'") (auto simp: size_of_def)
qed

lemma slotted_symbols:
  assumes "wf_ccobj ob" "same_contents ob ob'" "slotted ob'"
  shows "(n, y) \<in> set (o_symbols ob') \<Longrightarrow> slot_of ob' (y_section y) \<noteq> None"
    and "r \<in> set (o_relocations ob') \<Longrightarrow> slot_of ob' (r_section r) \<noteq> None"
proof -
  have sec: "slot_of ob' n \<noteq> None" if "section_of n ob \<noteq> None" for n
    using that wf_known [OF assms(1) that] section_of_same [OF assms(2), of n] assms(3)
    by (auto simp: slotted_def)
  show "(n, y) \<in> set (o_symbols ob') \<Longrightarrow> slot_of ob' (y_section y) \<noteq> None"
    using assms(1,2) by (intro sec) (auto simp: same_contents_def wf_ccobj_def wf_symbol_def)
  show "r \<in> set (o_relocations ob') \<Longrightarrow> slot_of ob' (r_section r) \<noteq> None"
    using assms(1,2) by (intro sec) (auto simp: same_contents_def wf_ccobj_def wf_reloc_def)
qed

lemma lay_out_sections_steps:
  fixes base objs
  obtains img obs1 c obs2 where "fold (concatenate_section base) section_order ([], objs) = (img, obs1)"
    "place_bss (base + int (length img) + int bss_trailer_size) obs1 = (c, obs2)"
    "lay_out_sections base objs = bind_result (collect_all_symbols obs2 []) (\<lambda>(obs'', globs).
       Inr (\<lparr>l_bss_size = c - (base + int (length img) + int bss_trailer_size), l_image = img,
         l_symbols = map (\<lambda>(n, (a, _)). (n, a)) globs\<rparr>, obs''))"
proof -
  obtain img obs1 where f: "fold (concatenate_section base) section_order ([], objs) = (img, obs1)" by fastforce
  obtain c obs2 where p: "place_bss (base + int (length img) + int bss_trailer_size) obs1 = (c, obs2)" by fastforce
  from that [OF f p] f p show thesis by (simp add: lay_out_sections_def Let_def)
qed

lemma bss_placed_slotted:
  assumes lay: "laid_out base (set section_order) img obs1" and p: "place_bss c obs1 = (c', obs2)"
  shows "\<forall>ob \<in> set obs2. slotted ob"
proof
  fix ob assume "ob \<in> set obs2"
  then obtain i where i: "i < length obs2" "ob = obs2 ! i" by (auto simp: in_set_conv_nth)
  note o = place_bss_other [OF p]
  with i have i1: "i < length obs1" and same: "\<And>n. n \<noteq> ''bss'' \<Longrightarrow> section_of n (obs2 ! i) = section_of n (obs1 ! i)"
    by (auto simp: list_all2_conv_all_nth)
  have "slot_of ob n \<noteq> None" if n: "n \<in> set known_sections" and s: "section_of n ob \<noteq> None" for n
  proof (cases "n = ''bss''")
    case True
    with place_bss_slots [OF p] i s show ?thesis by auto
  next
    case False
    with n have "n \<in> set section_order" by (auto simp: known_sections_def section_order_def)
    with lay i1 s same [OF False] i obtain off bs where "occupies base (obs1 ! i) n off bs"
      unfolding laid_out_def by (metis not_Some_eq)
    with same [OF False] i show ?thesis by (auto simp: slot_of_def occupies_def)
  qed
  then show "slotted ob" by (simp add: slotted_def)
qed

lemma laid_out_objects:
  assumes wf: "\<forall>ob \<in> set objs. wf_ccobj ob" and l: "lay_out_sections base objs = Inr (layout, obs)"
  shows "\<forall>ob' \<in> set obs. slotted ob' \<and> (\<exists>ob. wf_ccobj ob \<and> same_contents ob ob')"
    and "0 \<le> l_bss_size layout"
proof -
  obtain img obs1 c obs2 where f: "fold (concatenate_section base) section_order ([], objs) = (img, obs1)"
    and p: "place_bss (base + int (length img) + int bss_trailer_size) obs1 = (c, obs2)"
    and e: "lay_out_sections base objs = bind_result (collect_all_symbols obs2 []) (\<lambda>(obs'', globs).
       Inr (\<lparr>l_bss_size = c - (base + int (length img) + int bss_trailer_size), l_image = img,
         l_symbols = map (\<lambda>(n, (a, _)). (n, a)) globs\<rparr>, obs''))"
    by (rule lay_out_sections_steps)
  obtain globs where s: "collect_all_symbols obs2 [] = Inr (obs, globs)"
    and b: "l_bss_size layout = c - (base + int (length img) + int bss_trailer_size)"
    using l unfolding e by (auto simp: bind_result_Inr)
  from sections_laid_out [OF f] have lay: "laid_out base (set section_order) img obs1"
    and same1: "same_objects objs obs1" by auto
  show "\<forall>ob' \<in> set obs. slotted ob' \<and> (\<exists>ob. wf_ccobj ob \<and> same_contents ob ob')"
  proof
    fix ob' assume "ob' \<in> set obs"
    then obtain i where i: "i < length obs" "ob' = obs ! i" by (auto simp: in_set_conv_nth)
    with collect_all_symbols_objects [OF s] obtain l where "i < length obs2" "ob' = (obs2 ! i)\<lparr>o_locals := l\<rparr>"
      by (fastforce simp: list_all2_conv_all_nth)
    with bss_placed_slotted [OF lay p] have "slotted ob'" by (simp add: slotted_def)
    moreover from lay_out_sections_laid_out [OF l] i wf
    have "\<exists>ob. wf_ccobj ob \<and> same_contents ob ob'"
      by (force simp: same_objects_def list_all2_conv_all_nth)
    ultimately show "slotted ob' \<and> (\<exists>ob. wf_ccobj ob \<and> same_contents ob ob')" ..
  qed
  have "\<forall>ob \<in> set obs1. \<forall>s. section_of ''bss'' ob = Some s \<longrightarrow> 0 \<le> body_size (s_body s)"
  proof (intro ballI allI impI)
    fix ob s assume "ob \<in> set obs1" and s: "section_of ''bss'' ob = Some s"
    with same1 wf obtain ob0 where o: "wf_ccobj ob0" "same_contents ob0 ob"
      by (force simp: same_objects_def list_all2_conv_all_nth in_set_conv_nth)
    from section_of_same [OF o(2), of "''bss''"] s obtain s0 where s0: "section_of ''bss'' ob0 = Some s0" by auto
    from wf_section_of [OF o(1) s0] have "0 \<le> size_of ob0 ''bss''"
      by (auto simp: size_of_def s0 wf_section_def split: section_body.splits)
    with size_of_same [OF o(2), of "''bss''"] s show "0 \<le> body_size (s_body s)" by (simp add: size_of_def)
  qed
  from place_bss_cursor [OF p this] b show "0 \<le> l_bss_size layout" by simp
qed

lemma lay_out_no_crash:
  assumes wf: "\<forall>ob \<in> set objs. wf_ccobj ob"
  shows "\<not> crashes (lay_out_sections base objs)"
proof -
  obtain img obs1 c obs2 where f: "fold (concatenate_section base) section_order ([], objs) = (img, obs1)"
    and p: "place_bss (base + int (length img) + int bss_trailer_size) obs1 = (c, obs2)"
    and e: "lay_out_sections base objs = bind_result (collect_all_symbols obs2 []) (\<lambda>(obs'', globs).
       Inr (\<lparr>l_bss_size = c - (base + int (length img) + int bss_trailer_size), l_image = img,
         l_symbols = map (\<lambda>(n, (a, _)). (n, a)) globs\<rparr>, obs''))"
    by (rule lay_out_sections_steps)
  from sections_laid_out [OF f] have lay: "laid_out base (set section_order) img obs1"
    and same1: "same_objects objs obs1" by auto
  have "\<forall>ob \<in> set obs2. \<forall>(n, y) \<in> set (o_symbols ob). slot_of ob (y_section y) \<noteq> None"
  proof (intro ballI)
    fix ob x assume ob: "ob \<in> set obs2" and x: "x \<in> set (o_symbols ob)"
    obtain n y where y: "x = (n, y)" by fastforce
    from ob place_bss_other [OF p] same1 wf obtain ob0 where "wf_ccobj ob0" "same_contents ob0 ob"
      by (fastforce simp: same_objects_def list_all2_conv_all_nth in_set_conv_nth intro: same_contents_trans)
    with slotted_symbols(1) [of ob0 ob n y] bss_placed_slotted [OF lay p] ob x y
    show "case x of (n, y) \<Rightarrow> slot_of ob (y_section y) \<noteq> None" by auto
  qed
  then show ?thesis by (auto simp: e crashes_bind collect_all_no_crash)
qed

lemma map_result_crashes: "crashes (map_result f xs) \<Longrightarrow> \<exists>x \<in> set xs. crashes (f x)"
  by (induction xs) (auto simp: crashes_bind)

lemma map_result_each: "map_result f xs = Inr ys \<Longrightarrow> x \<in> set xs \<Longrightarrow> \<exists>y. f x = Inr y"
  by (induction xs arbitrary: ys) (auto simp: bind_result_Inr)

lemma validate_relocation_no_crash:
  "slot_of ob (r_section r) \<noteq> None \<Longrightarrow> \<not> crashes (validate_relocation globs ob r)"
  by (auto simp: validate_relocation_def patch_address_def Let_def crashes_require split: option.splits)

text \<open>
  A relative relocation whose displacement, with its addend, does not fit four bytes.  The range check of
  \<open>validate_relocation\<close> leaves the addend out; an absolute one is masked and always fits.
\<close>

definition far_displacement :: "(string \<times> int) list \<Rightarrow> ccobj \<times> reloc \<Rightarrow> bool" where
  "far_displacement globs obr =
     (let (ob, r) = obr in
      r_type r = ''rel32'' \<and>
      (case (resolve_symbol_address (o_locals ob) globs (r_symbol r), patch_address ob r) of
         (Some a, Some p) \<Rightarrow> \<not> (- (2 ^ 31) \<le> a + r_addend r - (p + 4) \<and> a + r_addend r - (p + 4) < 2 ^ 31)
       | _ \<Rightarrow> False))"

lemma apply_relocation_cases:
  assumes "slot_of ob (r_section r) \<noteq> None" "validate_relocation globs ob r = Inr ()"
  shows "far_displacement globs (ob, r) \<Longrightarrow> apply_relocation base globs (ob, r) img = Inl (Crash ''struct.error'')"
    "\<not> far_displacement globs (ob, r) \<Longrightarrow> \<exists>img'. apply_relocation base globs (ob, r) img = Inr img'"
proof -
  from assms(1) obtain p where p: "patch_address ob r = Some p" by (auto simp: patch_address_def)
  from assms(2) obtain a where a: "resolve_symbol_address (o_locals ob) globs (r_symbol r) = Some a"
    by (auto simp: validate_relocation_def split: option.splits)
  have "patch_bytes a p r = None \<longleftrightarrow> far_displacement globs (ob, r)"
    using a p by (auto simp: patch_bytes_def far_displacement_def pack_signed_def pack_unsigned_def and_ffffffff)
  with a p show "far_displacement globs (ob, r) \<Longrightarrow> apply_relocation base globs (ob, r) img = Inl (Crash ''struct.error'')"
    "\<not> far_displacement globs (ob, r) \<Longrightarrow> \<exists>img'. apply_relocation base globs (ob, r) img = Inr img'"
    by (auto simp: apply_relocation_def split: option.split)
qed

lemma apply_all_cases:
  assumes "\<forall>(ob, r) \<in> set xs. slot_of ob (r_section r) \<noteq> None \<and> validate_relocation globs ob r = Inr ()"
  shows "((\<exists>x \<in> set xs. far_displacement globs x) \<longrightarrow> apply_all base globs xs img = Inl (Crash ''struct.error'')) \<and>
    ((\<forall>x \<in> set xs. \<not> far_displacement globs x) \<longrightarrow> (\<exists>img'. apply_all base globs xs img = Inr img'))"
  using assms
proof (induction xs arbitrary: img)
  case (Cons x xs)
  obtain ob r where x: "x = (ob, r)" by fastforce
  with Cons.prems have ok: "slot_of ob (r_section r) \<noteq> None" "validate_relocation globs ob r = Inr ()" by auto
  show ?case
  proof (cases "far_displacement globs x")
    case True
    then show ?thesis using apply_relocation_cases(1) [OF ok, of base img] x by simp
  next
    case False
    then obtain img' where "apply_relocation base globs x img = Inr img'"
      using apply_relocation_cases(2) [OF ok, of base img] x by blast
    then show ?thesis using Cons.IH [of img'] Cons.prems False by simp
  qed
qed simp

text \<open>The run of the linker up to the patching, with all its checks passed.\<close>

definition ready_to_patch :: "int \<Rightarrow> ccobj list \<Rightarrow> link_layout \<Rightarrow> ccobj list \<Rightarrow> bool" where
  "ready_to_patch base objs layout obs =
     (lay_out_sections base objs = Inr (layout, obs) \<and>
      base + (int (length (l_image layout)) + int bss_trailer_size + l_bss_size layout) \<le> max_bss_size + 1 \<and>
      (\<exists>u. resolve_symbols obs = Inr u) \<and> (\<exists>us. validate_relocations (l_symbols layout) obs = Inr us))"

lemma link_crash_iff:
  assumes wf: "\<forall>ob \<in> set objs. wf_ccobj ob" and base: "0 \<le> base"
  shows "link_objects base objs = Inl (Crash w) \<longleftrightarrow>
    w = ''struct.error'' \<and> (\<exists>layout obs. ready_to_patch base objs layout obs \<and>
      (\<exists>x \<in> set (all_relocs obs). far_displacement (l_symbols layout) x))"
proof (cases "lay_out_sections base objs")
  case (Inl e)
  with lay_out_no_crash [OF wf, of base] show ?thesis by (auto simp: link_objects_def ready_to_patch_def)
next
  case (Inr res)
  obtain layout obs where "res = (layout, obs)" by fastforce
  with Inr have l: "lay_out_sections base objs = Inr (layout, obs)" by simp
  note objects = laid_out_objects [OF wf l]
  let ?globs = "l_symbols layout"
  let ?fits = "base + (int (length (l_image layout)) + int bss_trailer_size + l_bss_size layout) \<le> max_bss_size + 1"
  have ready: "ready_to_patch base objs layout' obs' \<longleftrightarrow> layout' = layout \<and> obs' = obs \<and> ?fits \<and>
      (\<exists>u. resolve_symbols obs = Inr u) \<and> (\<exists>us. validate_relocations ?globs obs = Inr us)" for layout' obs'
    using l by (auto simp: ready_to_patch_def)
  have slot: "slot_of ob (r_section r) \<noteq> None" if "(ob, r) \<in> set (all_relocs obs)" for ob r
    using that objects(1) slotted_symbols(2) by (fastforce simp: all_relocs_def)
  have v: "\<not> crashes (validate_relocations ?globs obs)"
    using map_result_crashes [of "\<lambda>(ob, r). validate_relocation ?globs ob r" "all_relocs obs"]
      slot validate_relocation_no_crash
    by (fastforce simp: validate_relocations_def all_relocs_def)
  have s: "\<not> crashes (resolve_symbols obs)" by (simp add: resolve_symbols_def Let_def)
  show ?thesis
  proof (cases "?fits \<and> (\<exists>u. resolve_symbols obs = Inr u) \<and> (\<exists>us. validate_relocations ?globs obs = Inr us)")
    case False
    then have "link_objects base objs \<noteq> Inl (Crash w)"
      using v s by (auto simp: link_objects_def l Let_def require_def crashes_def bind_result_def split: sum.splits if_splits)
    then show ?thesis unfolding ready using False by simp
  next
    case True
    then obtain u us where val: "?fits" "resolve_symbols obs = Inr u" "validate_relocations ?globs obs = Inr us" by blast
    have "validate_relocation ?globs ob r = Inr ()" if "(ob, r) \<in> set (all_relocs obs)" for ob r
      using val(3) that map_result_each [of "\<lambda>(ob, r). validate_relocation ?globs ob r" "all_relocs obs" us "(ob, r)"]
      by (auto simp: validate_relocations_def all_relocs_def)
    with slot have ok: "\<forall>(ob, r) \<in> set (all_relocs obs). slot_of ob (r_section r) \<noteq> None \<and> validate_relocation ?globs ob r = Inr ()"
      by blast
    have "pack_unsigned 4 (l_bss_size layout) \<noteq> None"
      using val(1) objects(2) base by (simp add: pack_unsigned_def bss_trailer_size_def max_bss_size_def)
    moreover have "pack_unsigned 2 bss_magic32 \<noteq> None" by (simp add: pack_unsigned_def bss_magic32_def)
    ultimately obtain bss magic where packed: "pack_unsigned 4 (l_bss_size layout) = Some bss" "pack_unsigned 2 bss_magic32 = Some magic"
      by blast
    have applied: "apply_relocations base ?globs obs img = apply_all base ?globs (all_relocs obs) img" for img
      by (simp add: apply_relocations_def all_relocs_def)
    have run: "link_objects base objs = bind_result (apply_all base ?globs (all_relocs obs) (l_image layout))
        (\<lambda>img. Inr (img @ bss @ magic, ?globs))"
      using val by (simp add: link_objects_def l Let_def require_def packed applied)
    have "link_objects base objs = Inl (Crash w) \<longleftrightarrow>
        w = ''struct.error'' \<and> (\<exists>x \<in> set (all_relocs obs). far_displacement ?globs x)"
    proof (cases "\<exists>x \<in> set (all_relocs obs). far_displacement ?globs x")
      case far: True
      then show ?thesis using apply_all_cases [OF ok, of base "l_image layout"] by (auto simp: run)
    next
      case near: False
      then obtain img where "apply_all base ?globs (all_relocs obs) (l_image layout) = Inr img"
        using apply_all_cases [OF ok, of base "l_image layout"] by blast
      then show ?thesis using near by (simp add: run)
    qed
    then show ?thesis unfolding ready using True by simp
  qed
qed

end
