(* ===== verification/Linker.thy ===== *)
theory Linker
  imports Ccld_Safety
begin

unbundle bit_operations_syntax

text \<open>
  The guarantees of \<^verbatim>\<open>tools/ccld.py\<close> as properties, each with a linked example, and the four places where
  the code accepts an input it does not handle.
\<close>

subsection \<open>Symbol tables\<close>

definition symbol_address :: "ccobj \<Rightarrow> symbol \<Rightarrow> int option" where
  "symbol_address ob y = map_option (\<lambda>slot. slot + y_offset y) (slot_of ob (y_section y))"

lemma collect_symbols_spec:
  assumes "collect_symbols ob syms l g = Inr (l', g')"
  shows "(\<exists>new. g' = g @ new) \<and> (distinct (map fst g) \<longrightarrow> distinct (map fst g')) \<and>
    (\<forall>(n, y) \<in> set syms. y_binding y = ''global'' \<longrightarrow>
       (\<exists>a. symbol_address ob y = Some a \<and> (n, (a, o_source ob)) \<in> set g'))"
  using assms
proof (induction ob syms l g rule: collect_symbols.induct)
  case (1 ob l g)
  then show ?case by auto
next
  case (2 ob n y rest l g)
  then obtain slot where slot: "slot_of ob (y_section y) = Some slot" by (auto split: option.splits)
  show ?case
  proof (cases "y_binding y = ''global''")
    case False
    with 2 slot show ?thesis by auto
  next
    case True
    with "2.prems" slot have none: "map_of g n = None"
      and rest: "collect_symbols ob rest l (g @ [(n, (slot + y_offset y, o_source ob))]) = Inr (l', g')"
      by (auto split: option.splits)
    from True have nb: "\<not> y_binding y \<noteq> ''global''" by simp
    from "2.IH"(2) [OF slot nb none rest] obtain new where
      new: "g' = (g @ [(n, (slot + y_offset y, o_source ob))]) @ new"
      and d: "distinct (map fst (g @ [(n, (slot + y_offset y, o_source ob))])) \<longrightarrow> distinct (map fst g')"
      and all: "\<forall>(m, z) \<in> set rest. y_binding z = ''global'' \<longrightarrow>
        (\<exists>a. symbol_address ob z = Some a \<and> (m, (a, o_source ob)) \<in> set g')" by blast
    from none have "n \<notin> set (map fst g)" by (metis map_of_eq_None_iff set_map)
    with new d all slot show ?thesis by (fastforce simp: symbol_address_def)
  qed
qed

lemma collect_all_symbols_spec:
  assumes "collect_all_symbols obs g = Inr (obs', g')"
  shows "(\<exists>new. g' = g @ new) \<and> (distinct (map fst g) \<longrightarrow> distinct (map fst g')) \<and>
    (\<forall>ob \<in> set obs'. \<forall>(n, y) \<in> set (o_symbols ob). y_binding y = ''global'' \<longrightarrow>
       (\<exists>a. symbol_address ob y = Some a \<and> (n, (a, o_source ob)) \<in> set g'))"
  using assms
proof (induction obs g arbitrary: obs' g' rule: collect_all_symbols.induct)
  case (2 ob obs g)
  then obtain l g1 obs1 where one: "collect_symbols ob (o_symbols ob) [] g = Inr (l, g1)"
    and rest: "collect_all_symbols obs g1 = Inr (obs1, g')" and obs': "obs' = ob\<lparr>o_locals := l\<rparr> # obs1"
    by (auto simp: bind_result_Inr)
  from collect_symbols_spec [OF one] "2.IH" [OF rest] obs' show ?case
    by (fastforce simp: symbol_address_def)
qed auto

lemma layout_symbols:
  assumes "lay_out_sections base objs = Inr (layout, obs)"
  shows "distinct (map fst (l_symbols layout)) \<and>
    (\<forall>ob \<in> set obs. \<forall>(n, y) \<in> set (o_symbols ob). y_binding y = ''global'' \<longrightarrow>
       map_of (l_symbols layout) n = symbol_address ob y)"
proof -
  from assms obtain obs2 globs where s: "collect_all_symbols obs2 [] = Inr (obs, globs)"
    and l: "l_symbols layout = map (\<lambda>(n, (a, _)). (n, a)) globs"
    by (auto simp: lay_out_sections_def Let_def bind_result_Inr split: prod.splits)
  have fst: "map fst (map (\<lambda>(n, (a, _)). (n, a)) globs) = map fst globs" by (induction globs) auto
  from collect_all_symbols_spec [OF s] have d: "distinct (map fst globs)"
    and a: "\<And>ob n y. ob \<in> set obs \<Longrightarrow> (n, y) \<in> set (o_symbols ob) \<Longrightarrow> y_binding y = ''global'' \<Longrightarrow>
      \<exists>a. symbol_address ob y = Some a \<and> (n, (a, o_source ob)) \<in> set globs" by fastforce+
  have "map_of (l_symbols layout) n = symbol_address ob y"
    if "ob \<in> set obs" "(n, y) \<in> set (o_symbols ob)" "y_binding y = ''global''" for ob n y
  proof -
    from a [OF that] obtain v where v: "symbol_address ob y = Some v" "(n, (v, o_source ob)) \<in> set globs" by auto
    then have "(n, v) \<in> set (l_symbols layout)" unfolding l by force
    moreover have "distinct (map fst (l_symbols layout))" unfolding l fst by (rule d)
    ultimately show ?thesis using v(1) by simp
  qed
  moreover have "distinct (map fst (l_symbols layout))" unfolding l fst by (rule d)
  ultimately show ?thesis by blast
qed

subsection \<open>Example objects\<close>

definition text_object :: "string \<Rightarrow> byte list \<Rightarrow> (string \<times> symbol) list \<Rightarrow> string list \<Rightarrow> reloc list \<Rightarrow> ccobj" where
  "text_object src bs syms ext rels =
     \<lparr>o_source = src, o_sections = [(''text'', \<lparr>s_align = 16, s_body = Content bs, s_slot = None\<rparr>)],
      o_symbols = syms, o_extern = ext, o_relocations = rels, o_locals = []\<rparr>"

definition global_at :: "string \<Rightarrow> int \<Rightarrow> symbol" where
  "global_at sec off = \<lparr>y_binding = ''global'', y_section = sec, y_offset = off\<rparr>"

definition caller :: ccobj where
  "caller = text_object ''a.asm'' [0xE8, 0, 0, 0, 0] [(''main'', global_at ''text'' 0)] [''f'']
     [\<lparr>r_section = ''text'', r_offset = 1, r_symbol = ''f'', r_type = ''rel32'', r_addend = 0\<rparr>]"

definition callee :: ccobj where
  "callee = text_object ''b.asm'' [0x90, 0xC3] [(''f'', global_at ''text'' 1)] [] []"

lemma linked_example:
  "link_objects 4096 [caller, callee] =
     Inr ([0xE8, 1, 0, 0, 0, 0x90, 0xC3, 0, 0, 0, 0, 0x32, 0xB0], [(''main'', 4096), (''f'', 4102)])"
  by code_simp

lemma laid_out_example:
  "lay_out_sections 4096 [caller, callee] =
     Inr (\<lparr>l_bss_size = 0, l_image = [0xE8, 0, 0, 0, 0, 0x90, 0xC3], l_symbols = [(''main'', 4096), (''f'', 4102)]\<rparr>,
       [set_slot_address ''text'' 4096 caller, set_slot_address ''text'' 4101 callee])"
  by code_simp

lemma patchable_example: "patchable caller" "patchable callee"
  by (simp_all add: patchable_def caller_def callee_def text_object_def reloc_inside_def section_order_def
      section_of_def contribution_def)

lemma wf_example: "wf_ccobj caller" "wf_ccobj callee"
proof -
  have "power_of_two_align 16" by code_simp
  then show "wf_ccobj caller" "wf_ccobj callee"
    by (simp_all add: wf_ccobj_def caller_def callee_def text_object_def global_at_def wf_section_def wf_symbol_def
        wf_reloc_def known_sections_def known_bindings_def known_relocation_types_def section_of_def size_of_def)
qed

subsection \<open>Properties\<close>

text \<open>
  C12. After a successful link every relocation site of the output decodes to what it stands for: a
  signed displacement from the end of the site for \<open>rel32\<close>, the address modulo \<open>2 ^ 32\<close> for \<open>abs32\<close>,
  both with the addend, the symbol resolved in the object's own table first.  The trailer follows the
  image.  Relocations lie in \<open>text\<close>, \<open>rodata\<close> or \<open>data\<close> and their four-byte sites do not overlap.
\<close>

theorem link_patches_every_relocation:
  assumes "link_objects base objs = Inr (out, syms)" and "\<forall>ob \<in> set objs. patchable ob"
  shows "\<exists>layout obs img. lay_out_sections base objs = Inr (layout, obs) \<and>
    out = img @ le_bytes 4 (l_bss_size layout) @ [0x32, 0xB0] \<and>
    (\<forall>ob \<in> set obs. \<forall>r \<in> set (o_relocations ob).
       \<exists>a p. resolve_symbol_address (o_locals ob) syms (r_symbol r) = Some a \<and> patch_address ob r = Some p \<and>
         patched_value a p r (slice (nat (p - base)) (nat (p - base) + 4) img))"
proof -
  obtain layout obs img where l: "lay_out_sections base objs = Inr (layout, obs)"
    and out: "out = img @ le_bytes 4 (l_bss_size layout) @ [0x32, 0xB0]"
    and p: "\<forall>x \<in> set (all_relocs obs). patched base (l_symbols layout) img x"
    using link_objects_spec [OF assms] by metis
  moreover from assms(1) l have "syms = l_symbols layout" by (auto elim: link_objects_Inr)
  ultimately show ?thesis
    by (fastforce simp: all_relocs_def patched_def site_def)
qed

theorem link_patches_every_relocation_witness:
  "\<exists>layout obs img. lay_out_sections 4096 [caller, callee] = Inr (layout, obs) \<and>
    [0xE8, 1, 0, 0, 0, 0x90, 0xC3, 0, 0, 0, 0, 0x32, 0xB0] = img @ le_bytes 4 (l_bss_size layout) @ [0x32, 0xB0] \<and>
    (\<forall>ob \<in> set obs. \<forall>r \<in> set (o_relocations ob).
       \<exists>a p. resolve_symbol_address (o_locals ob) [(''main'', 4096), (''f'', 4102)] (r_symbol r) = Some a \<and>
         patch_address ob r = Some p \<and>
         patched_value a p r (slice (nat (p - 4096)) (nat (p - 4096) + 4) img))"
  by (rule link_patches_every_relocation [OF linked_example]) (simp add: patchable_example)

text \<open>
  C13. A byte of the output outside the relocation sites is the byte its section holds: each section of each
  object is a contiguous slice of the image before patching, no two slices overlap, and patching writes
  nothing else.
\<close>

theorem link_keeps_other_bytes:
  assumes "link_objects base objs = Inr (out, syms)" and "\<forall>ob \<in> set objs. patchable ob"
  shows "\<exists>layout obs. lay_out_sections base objs = Inr (layout, obs) \<and>
    laid_out base (set section_order) (l_image layout) obs \<and>
    length out = length (l_image layout) + 6 \<and>
    (\<forall>k < length (l_image layout). (\<forall>x \<in> set (all_relocs obs). k < site base x \<or> site base x + 4 \<le> k) \<longrightarrow>
       out ! k = l_image layout ! k)"
proof -
  obtain layout obs img where l: "lay_out_sections base objs = Inr (layout, obs)"
    and out: "out = img @ le_bytes 4 (l_bss_size layout) @ [0x32, 0xB0]" and len: "length img = length (l_image layout)"
    and k: "\<forall>k < length img. (\<forall>x \<in> set (all_relocs obs). k < site base x \<or> site base x + 4 \<le> k) \<longrightarrow>
       img ! k = l_image layout ! k"
    and lay: "laid_out base (set section_order) (l_image layout) obs"
    using link_objects_spec [OF assms] by metis
  then show ?thesis by (intro exI [of _ layout] exI [of _ obs]) (auto simp: nth_append)
qed

theorem link_keeps_other_bytes_witness:
  "\<exists>layout obs. lay_out_sections 4096 [caller, callee] = Inr (layout, obs) \<and>
    laid_out 4096 (set section_order) (l_image layout) obs \<and>
    length [0xE8, 1, 0, 0, 0, 0x90, 0xC3, 0, 0, 0, 0, 0x32, 0xB0 :: byte] = length (l_image layout) + 6 \<and>
    (\<forall>k < length (l_image layout). (\<forall>x \<in> set (all_relocs obs). k < site 4096 x \<or> site 4096 x + 4 \<le> k) \<longrightarrow>
       [0xE8, 1, 0, 0, 0, 0x90, 0xC3, 0, 0, 0, 0, 0x32, 0xB0] ! k = l_image layout ! k)"
  by (rule link_keeps_other_bytes [OF linked_example]) (simp add: patchable_example)

text \<open>An object whose only relocation has an addend of more than \<open>2 ^ 31\<close>.\<close>

definition far_addend :: ccobj where
  "far_addend = text_object ''far.asm'' [0xE8, 0, 0, 0, 0] [(''f'', global_at ''text'' 0)] []
     [\<lparr>r_section = ''text'', r_offset = 1, r_symbol = ''f'', r_type = ''rel32'', r_addend = 2147483653\<rparr>]"

lemma wf_far_addend: "wf_ccobj far_addend"
proof -
  have "power_of_two_align 16" by code_simp
  then show ?thesis
    by (simp add: wf_ccobj_def far_addend_def text_object_def global_at_def wf_section_def wf_symbol_def
        wf_reloc_def known_sections_def known_bindings_def known_relocation_types_def section_of_def size_of_def)
qed

text \<open>
  C14. Linking objects that passed validation raises in one case only: every check of the linker passed, and some relative
  relocation has a displacement that with its addend does not fit four signed bytes, which the range check
  leaves out.  The exception is then the \<^verbatim>\<open>struct.error\<close> of the patch.  Otherwise linking returns an image or
  one of its messages, with no \<^verbatim>\<open>KeyError\<close>, \<^verbatim>\<open>TypeError\<close> or \<^verbatim>\<open>struct.error\<close>; in particular where addends
  are 0, since the check then covers the displacement.
\<close>

theorem link_valid_objects_no_exception:
  assumes "\<forall>ob \<in> set objs. wf_ccobj ob" "0 \<le> base"
  shows "link_objects base objs = Inl (Crash w) \<longleftrightarrow>
    w = ''struct.error'' \<and> (\<exists>layout obs. ready_to_patch base objs layout obs \<and>
      (\<exists>x \<in> set (all_relocs obs). far_displacement (l_symbols layout) x))"
  by (rule link_crash_iff [OF assms])

theorem link_valid_objects_no_exception_witness:
  "(\<nexists>layout obs. ready_to_patch 4096 [caller, callee] layout obs \<and>
      (\<exists>x \<in> set (all_relocs obs). far_displacement (l_symbols layout) x)) \<and>
   (\<exists>layout obs. ready_to_patch 4096 [far_addend] layout obs \<and>
      (\<exists>x \<in> set (all_relocs obs). far_displacement (l_symbols layout) x))"
proof
  show "\<nexists>layout obs. ready_to_patch 4096 [caller, callee] layout obs \<and>
      (\<exists>x \<in> set (all_relocs obs). far_displacement (l_symbols layout) x)"
    using link_valid_objects_no_exception [of "[caller, callee]" 4096 "''struct.error''"] linked_example
    by (auto simp: wf_example)
  have "link_objects 4096 [far_addend] = Inl (Crash ''struct.error'')" by code_simp
  then show "\<exists>layout obs. ready_to_patch 4096 [far_addend] layout obs \<and>
      (\<exists>x \<in> set (all_relocs obs). far_displacement (l_symbols layout) x)"
    using link_valid_objects_no_exception [of "[far_addend]" 4096 "''struct.error''"] wf_far_addend by auto
qed

text \<open>
  C25. What \<open>_load_ccobj\<close> accepts is valid: known sections with power-of-two alignment up to a page, symbols
  and four-byte patch sites inside their sections, distinct patch sites, distinct non-empty externs.
\<close>

theorem load_ccobj_valid: "load_ccobj read path = Inr ob \<Longrightarrow> wf_ccobj ob"
  by (simp add: load_ccobj_def bind_result_Inr require_Inr Let_def) (auto intro: validate_ccobj_shape_wf)

theorem load_ccobj_valid_witness: "wf_ccobj caller"
proof (rule load_ccobj_valid)
  show "load_ccobj (\<lambda>p. Some (JDict
      [(''extern'', JList [JStr ''f'']),
       (''relocations'', JList [JDict [(''offset'', JInt 1), (''section'', JStr ''text''), (''symbol'', JStr ''f''),
          (''type'', JStr ''rel32'')]]),
       (''sections'', JDict [(''text'', JDict [(''align'', JInt 16), (''bytes'', JStr ''6AAAAAA='')])]),
       (''source'', JStr ''a.asm''),
       (''symbols'', JDict [(''main'', JDict [(''binding'', JStr ''global''), (''offset'', JInt 0),
          (''section'', JStr ''text'')])]),
       (''version'', JInt 1)])) ''a.ccobj'' = Inr caller"
    by code_simp
qed

text \<open>
  C26. \<open>_pull_archive_members\<close> terminates and reaches its fixed point: it appends each member at most once,
  exactly as loaded, and any member that still provides an unresolved extern has been pulled already.
\<close>

theorem pull_archive_members_fixpoint:
  "pull_archive_members load ms objs [] = Inr objs' \<Longrightarrow>
   \<exists>files new. objs' = objs @ new \<and> list_all2 (\<lambda>f ob. load f = Inr ob) files new \<and> distinct files \<and>
     (\<forall>m \<in> set ms. set (m_provides m) \<inter> set (unresolved_externs objs') \<noteq> {} \<longrightarrow> m_file m \<in> set files)"
  using pull_archive_members_spec [of load ms objs "[]" objs'] by auto

theorem pull_archive_members_fixpoint_witness:
  "\<exists>files new. [caller, callee] = [caller] @ new \<and>
     list_all2 (\<lambda>f ob. (if f = ''b'' then Inr callee else Inl (Bad_json f)) = Inr ob) files new \<and> distinct files \<and>
     (\<forall>m \<in> set [\<lparr>m_file = ''c'', m_provides = [''g'']\<rparr>, \<lparr>m_file = ''b'', m_provides = [''f'']\<rparr>].
        set (m_provides m) \<inter> set (unresolved_externs [caller, callee]) \<noteq> {} \<longrightarrow> m_file m \<in> set files)"
  by (rule pull_archive_members_fixpoint) code_simp

text \<open>
  The global symbol table is a function: no name is defined twice, and every global maps to the address
  of its section in its object plus its offset.
\<close>

theorem layout_symbol_table:
  assumes "lay_out_sections base objs = Inr (layout, obs)"
  shows "distinct (map fst (l_symbols layout)) \<and>
    (\<forall>ob \<in> set obs. \<forall>(n, y) \<in> set (o_symbols ob). y_binding y = ''global'' \<longrightarrow>
       map_of (l_symbols layout) n = symbol_address ob y)"
  by (rule layout_symbols [OF assms])

theorem layout_symbol_table_witness:
  "distinct (map fst [(''main'', 4096 :: int), (''f'', 4102)]) \<and>
    map_of [(''main'', 4096), (''f'', 4102)] ''f'' =
      symbol_address (set_slot_address ''text'' 4101 callee) (global_at ''text'' 1)"
proof -
  have "(''f'', global_at ''text'' 1) \<in> set (o_symbols (set_slot_address ''text'' 4101 callee))"
    "y_binding (global_at ''text'' 1) = ''global''" by code_simp+
  then show ?thesis using layout_symbol_table [OF laid_out_example] by fastforce
qed

subsection \<open>Inputs the code accepts and does not handle\<close>


text \<open>
  A relocation in \<open>bss\<close> is valid, but its site is past the end of the image: the slice assignment
  appends four bytes, so the trailer the loader looks for is not where the layout put it.
\<close>

definition bss_reloc :: ccobj where
  "bss_reloc = \<lparr>o_source = ''bss.asm'',
     o_sections = [(''bss'', \<lparr>s_align = 4, s_body = Reserved 4, s_slot = None\<rparr>)],
     o_symbols = [(''x'', global_at ''bss'' 0)], o_extern = [],
     o_relocations = [\<lparr>r_section = ''bss'', r_offset = 0, r_symbol = ''x'', r_type = ''abs32'', r_addend = 0\<rparr>],
     o_locals = []\<rparr>"

theorem bss_relocation_grows_image:
  "wf_ccobj bss_reloc \<and>
   link_objects 4096 [bss_reloc] = Inr ([0x06, 0x10, 0, 0, 4, 0, 0, 0, 0x32, 0xB0], [(''x'', 4102)])"
proof
  have "power_of_two_align 4" by code_simp
  then show "wf_ccobj bss_reloc"
    by (simp add: wf_ccobj_def bss_reloc_def global_at_def wf_section_def wf_symbol_def max_bss_size_def
        wf_reloc_def known_sections_def known_bindings_def known_relocation_types_def section_of_def size_of_def)
  show "link_objects 4096 [bss_reloc] = Inr ([0x06, 0x10, 0, 0, 4, 0, 0, 0, 0x32, 0xB0], [(''x'', 4102)])"
    by code_simp
qed

text \<open>
  A label at the end of the last section of an image that fills the address space has the address
  \<open>2 ^ 32\<close>; the overflow check passes and the \<open>abs32\<close> patch wraps to 0, against the comment that no patch can
  overflow once the range check holds.
\<close>

definition end_label :: ccobj where
  "end_label = \<lparr>o_source = ''end.asm'',
     o_sections = [(''text'', \<lparr>s_align = 16, s_body = Content [0xA1, 1, 2, 3, 4], s_slot = None\<rparr>),
       (''bss'', \<lparr>s_align = 4, s_body = Reserved 5, s_slot = None\<rparr>)],
     o_symbols = [(''e'', global_at ''bss'' 5)], o_extern = [],
     o_relocations = [\<lparr>r_section = ''text'', r_offset = 1, r_symbol = ''e'', r_type = ''abs32'', r_addend = 0\<rparr>],
     o_locals = []\<rparr>"

theorem end_of_memory_label_wraps:
  "link_objects 0xFFFFFFF0 [end_label] =
     Inr ([0xA1, 0, 0, 0, 0, 5, 0, 0, 0, 0x32, 0xB0], [(''e'', 2 ^ 32)])"
  by code_simp

text \<open>
  Only the first object's slot of a section is aligned: the second object asks for 16-byte alignment of its
  \<open>text\<close> and lands at an odd address, and \<open>bss\<close> follows the six-byte trailer whatever alignment it declares.
\<close>

theorem later_slots_unaligned:
  "map_option s_align (section_of ''text'' callee) = Some 16 \<and>
   (\<exists>layout obs. lay_out_sections 4096 [caller, callee] = Inr (layout, obs) \<and>
      map (\<lambda>ob. slot_of ob ''text'') obs = [Some 4096, Some 4101]) \<and>
   (\<exists>layout obs. lay_out_sections 4096 [bss_reloc] = Inr (layout, obs) \<and>
      map (\<lambda>ob. slot_of ob ''bss'') obs = [Some 4102])"
proof (intro conjI)
  show "map_option s_align (section_of ''text'' callee) = Some 16" by code_simp
  have "bind_result (lay_out_sections 4096 [caller, callee]) (\<lambda>(l, obs). Inr (map (\<lambda>ob. slot_of ob ''text'') obs)) =
      Inr [Some 4096, Some 4101]" by code_simp
  then show "\<exists>layout obs. lay_out_sections 4096 [caller, callee] = Inr (layout, obs) \<and>
      map (\<lambda>ob. slot_of ob ''text'') obs = [Some 4096, Some 4101]"
    by (auto simp: bind_result_Inr)
  have "bind_result (lay_out_sections 4096 [bss_reloc]) (\<lambda>(l, obs). Inr (map (\<lambda>ob. slot_of ob ''bss'') obs)) =
      Inr [Some 4102]" by code_simp
  then show "\<exists>layout obs. lay_out_sections 4096 [bss_reloc] = Inr (layout, obs) \<and>
      map (\<lambda>ob. slot_of ob ''bss'') obs = [Some 4102]"
    by (auto simp: bind_result_Inr)
qed

text \<open>
  \<open>_align_up\<close> with the power of two every section alignment is returns the least multiple that is not
  below the offset.
\<close>

theorem align_up_least:
  assumes "power_of_two_align a"
  shows "a dvd align_up off a \<and> off \<le> align_up off a \<and> align_up off a < off + a"
  using power_of_two_align_cases [OF assms] align_up_props by auto

theorem align_up_least_witness:
  "(16 :: int) dvd align_up 21 16 \<and> 21 \<le> align_up 21 16 \<and> align_up 21 16 < 21 + (16 :: int)"
  by (rule align_up_least) code_simp

end
