(* ===== verification/Ccar.thy ===== *)
theory Ccar
  imports Linker
begin

text \<open>
  The archive packer \<^verbatim>\<open>tools/ccar.py\<close>: the globals each object provides, and the manifest.  The linker's
  reader accepts what it writes.
\<close>

datatype ccar_error =
    Ar_bad_json string
  | Ar_bad_version string
  | Ar_not_sibling string
  | Ar_crash string

text \<open>\<open>info.get("binding") == "global"\<close> for every symbol; \<open>get\<close> on anything but an object raises.\<close>

fun provided :: "(string \<times> json) list \<Rightarrow> ccar_error + string list" where
  "provided [] = Inr []"
| "provided ((name, JDict info) # rest) =
     bind_result (provided rest) (\<lambda>names.
       Inr (if map_of info ''binding'' = Some (JStr ''global'') then name # names else names))"
| "provided ((name, _) # rest) = Inl (Ar_crash ''AttributeError'')"

definition extract_provides :: "(string \<Rightarrow> json option) \<Rightarrow> string \<Rightarrow> ccar_error + string list" where
  "extract_provides read path =
     (case read path of
        None \<Rightarrow> Inl (Ar_bad_json path)
      | Some (JDict payload) \<Rightarrow>
          require (equals_int (map_of payload ''version'') ccobj_version) (Ar_bad_version path)
            (case map_of payload ''symbols'' of
               None \<Rightarrow> Inr []
             | Some (JDict syms) \<Rightarrow> bind_result (provided syms) (\<lambda>names. Inr (sort names))
             | Some _ \<Rightarrow> Inl (Ar_crash ''AttributeError''))
      | Some _ \<Rightarrow> Inl (Ar_crash ''AttributeError''))"

text \<open>An input is its path and its file name; \<open>in_output_dir path\<close> compares its directory with the output's.\<close>

fun pack_members ::
    "(string \<Rightarrow> json option) \<Rightarrow> (string \<Rightarrow> bool) \<Rightarrow> (string \<times> string) list \<Rightarrow>
     ccar_error + (string \<times> string list) list" where
  "pack_members read in_output_dir [] = Inr []"
| "pack_members read in_output_dir ((path, file) # rest) =
     require (in_output_dir path) (Ar_not_sibling path)
       (bind_result (extract_provides read path) (\<lambda>names.
         bind_result (pack_members read in_output_dir rest) (\<lambda>ms. Inr ((file, names) # ms))))"

definition member_json :: "string \<times> string list \<Rightarrow> json" where
  "member_json m = JDict [(''file'', JStr (fst m)), (''provides'', JList (map JStr (snd m)))]"

definition ccar_main ::
    "(string \<Rightarrow> json option) \<Rightarrow> (string \<Rightarrow> bool) \<Rightarrow> (string \<times> string) list \<Rightarrow> ccar_error + json" where
  "ccar_main read in_output_dir inputs =
     bind_result (pack_members read in_output_dir inputs) (\<lambda>members.
       Inr (JDict [(''members'', JList (map member_json (sort_key fst members))), (''version'', JInt ccar_version)]))"

subsection \<open>The linker reads what the packer writes\<close>

lemma sequence_opt_strings: "sequence_opt (map (\<lambda>x. as_str (Some x)) (map JStr xs)) = Some xs"
  by (induction xs) auto

lemma validate_string_list_written:
  "[] \<notin> set xs \<Longrightarrow> distinct xs \<Longrightarrow> validate_string_list e d (Some (JList (map JStr xs))) = Inr xs"
  using sequence_opt_strings [of xs] by (simp add: validate_string_list_def require_def)

lemma validate_members_written:
  assumes "\<forall>(f, names) \<in> set ms. f \<noteq> [] \<and> f \<notin> set seen \<and> sibling f = Some f \<and> exists f \<and> [] \<notin> set names \<and> distinct names"
    and "distinct (map fst ms)"
  shows "validate_ccar_members sibling exists seen i (map member_json ms) =
    Inr (map (\<lambda>(f, names). \<lparr>m_file = f, m_provides = names\<rparr>) ms)"
  using assms
proof (induction ms arbitrary: seen i)
  case (Cons m ms)
  obtain f names where m: "m = (f, names)" by fastforce
  with Cons.prems have "validate_ccar_member sibling exists i (member_json m) =
      Inr (f, \<lparr>m_file = f, m_provides = names\<rparr>)"
    by (simp add: validate_ccar_member_def member_json_def require_def validate_string_list_written)
  moreover have "validate_ccar_members sibling exists (f # seen) (Suc i) (map member_json ms) =
      Inr (map (\<lambda>(f, names). \<lparr>m_file = f, m_provides = names\<rparr>) ms)"
    using Cons.prems m by (intro Cons.IH) force+
  ultimately show ?case using Cons.prems m by (simp add: require_def)
qed simp

lemma provided_globals:
  "provided syms = Inr names \<Longrightarrow>
   set names = {n. \<exists>info. (n, JDict info) \<in> set syms \<and> map_of info ''binding'' = Some (JStr ''global'')} \<and>
   (distinct (map fst syms) \<longrightarrow> distinct names) \<and> set names \<subseteq> set (map fst syms)"
proof (induction syms arbitrary: names rule: provided.induct)
  case (2 name info rest)
  then obtain ns where "provided rest = Inr ns"
    "names = (if map_of info ''binding'' = Some (JStr ''global'') then name # ns else ns)"
    by (auto simp: bind_result_Inr)
  with "2.IH" [of ns] show ?case by (auto split: if_splits)
qed auto

text \<open>
  An archive manifest round-trips: the linker accepts the manifest the packer writes for distinct files
  that exist beside it, and reads back each file with the names the packer extracted.
\<close>

theorem ccar_manifest_roundtrip:
  assumes "pack_members read inside inputs = Inr members"
    and "\<forall>(f, names) \<in> set members. f \<noteq> [] \<and> [] \<notin> set names \<and> distinct names"
    and "distinct (map fst members)"
  shows "bind_result (ccar_main read inside inputs) (\<lambda>j.
      Inr (load_ccar (\<lambda>_. Some j) Some (\<lambda>_. True) out)) =
    Inr (Inr (map (\<lambda>(f, names). \<lparr>m_file = f, m_provides = names\<rparr>) (sort_key fst members)))"
proof -
  have "distinct (map fst (sort_key fst members))"
    using assms(3) by (metis distinct_map distinct_sort set_sort)
  then have "validate_ccar_members Some (\<lambda>_. True) [] 0 (map member_json (sort_key fst members)) =
      Inr (map (\<lambda>(f, names). \<lparr>m_file = f, m_provides = names\<rparr>) (sort_key fst members))"
    using assms(2) by (intro validate_members_written) auto
  with assms(1) show ?thesis
    by (simp add: ccar_main_def load_ccar_def load_json_dict_def require_def validate_ccar_shape_def ccar_version_def)
qed

definition library_object :: "string \<Rightarrow> json" where
  "library_object n = JDict [(''version'', JInt 1),
     (''symbols'', JDict [(n, JDict [(''binding'', JStr ''global'')]), (''x'', JDict [(''binding'', JStr ''local'')])])]"

theorem ccar_manifest_roundtrip_witness:
  "bind_result (ccar_main (\<lambda>p. Some (library_object p)) (\<lambda>_. True) [(''b'', ''b.ccobj''), (''a'', ''a.ccobj'')]) (\<lambda>j.
      Inr (load_ccar (\<lambda>_. Some j) Some (\<lambda>_. True) ''lib.ccar'')) =
   Inr (Inr (map (\<lambda>(f, names). \<lparr>m_file = f, m_provides = names\<rparr>)
     (sort_key fst [(''b.ccobj'', [''b'']), (''a.ccobj'', [''a''])])))"
proof (rule ccar_manifest_roundtrip)
  show "pack_members (\<lambda>p. Some (library_object p)) (\<lambda>_. True) [(''b'', ''b.ccobj''), (''a'', ''a.ccobj'')] =
      Inr [(''b.ccobj'', [''b'']), (''a.ccobj'', [''a''])]"
    by (simp add: extract_provides_def library_object_def require_def ccobj_version_def)
qed simp_all

text \<open>
  \<open>_extract_provides\<close> lists exactly the global symbols of the object, sorted, each once.
\<close>

theorem extract_provides_globals:
  assumes "read path = Some (JDict payload)" and "map_of payload ''symbols'' = Some (JDict syms)"
    and "distinct (map fst syms)" and "extract_provides read path = Inr names"
  shows "sorted names \<and> distinct names \<and>
    set names = {n. \<exists>info. (n, JDict info) \<in> set syms \<and> map_of info ''binding'' = Some (JStr ''global'')}"
proof -
  from assms obtain ns where "provided syms = Inr ns" "names = sort ns"
    by (auto simp: extract_provides_def require_Inr bind_result_Inr)
  with provided_globals [of syms ns] assms(3) show ?thesis by simp
qed

theorem extract_provides_globals_witness:
  "sorted [''a''] \<and> distinct [''a''] \<and>
    set [''a''] = {n. \<exists>info. (n, JDict info) \<in> set [(''a'', JDict [(''binding'', JStr ''global'')]),
        (''x'', JDict [(''binding'', JStr ''local'')])] \<and> map_of info ''binding'' = Some (JStr ''global'')}"
  by (rule extract_provides_globals [where read = "\<lambda>p. Some (library_object p)" and path = "''a''" and
        payload = "[(''version'', JInt 1), (''symbols'', JDict [(''a'', JDict [(''binding'', JStr ''global'')]),
          (''x'', JDict [(''binding'', JStr ''local'')])])]"])
     (simp_all add: library_object_def extract_provides_def require_def ccobj_version_def)

end
