(* ===== verification/Cfg.thy ===== *)
theory Cfg
  imports Ir_Optimize Decimal
begin

text \<open>
  The control-flow graph of \<^verbatim>\<open>cc/cfg.py\<close>.  The code links \<open>BasicBlock\<close> objects by identity; here a graph is
  a store of blocks, a block is named by its position in the store, and \<open>g_order\<close> is the source order
  (\<open>cfg.blocks\<close>).  \<open>build_cfg\<close> allocates blocks in source order; later passes add blocks at the end of the
  store and place them anywhere in the order.  A lookup that would raise \<^verbatim>\<open>KeyError\<close> is None.
\<close>

subsection \<open>Blocks and graphs\<close>

record block =
  b_label :: string
  b_instrs :: "instr list"
  b_term :: "instr option"
  b_succs :: "nat list"
  b_preds :: "nat list"

record cfg =
  g_store :: "block list"
  g_order :: "nat list"
  g_entry :: nat

definition synthetic_label_prefix :: string where
  "synthetic_label_prefix = ''<''"

fun is_terminator :: "instr \<Rightarrow> bool" where
  "is_terminator (BranchFalse _ _ _ _) = True"
| "is_terminator (CarryBranch _ _ _) = True"
| "is_terminator (Jump _) = True"
| "is_terminator (Return _) = True"
| "is_terminator (TailCall _ _) = True"
| "is_terminator _ = False"

subsection \<open>Splitting a body into blocks\<close>

text \<open>The loop of \<open>_identify_block_starts\<close>: \<open>previous\<close> is \<open>body[index - 1]\<close>, \<open>starts\<close> what is collected so far.\<close>

fun scan_starts :: "(nat \<times> string) list \<Rightarrow> nat \<Rightarrow> instr \<Rightarrow> instr list \<Rightarrow> (nat \<times> string) list" where
  "scan_starts starts index previous [] = starts"
| "scan_starts starts index previous (i # rest) =
     (case i of
        Label l \<Rightarrow>
          scan_starts (if fst (last starts) \<noteq> index then starts @ [(index, l)] else starts) (Suc index) i rest
      | _ \<Rightarrow>
          scan_starts
            (if is_terminator previous \<and> fst (last starts) \<noteq> index
             then starts @ [(index, synthetic_label_prefix @ ''fallthrough_'' @ show_nat index @ ''>'')]
             else starts)
            (Suc index) i rest)"

definition first_start :: "instr list \<Rightarrow> (nat \<times> string) list" where
  "first_start b = (case b of Label l # _ \<Rightarrow> [(0, l)] | _ \<Rightarrow> [(0, synthetic_label_prefix @ ''entry>'')])"

definition identify_block_starts :: "instr list \<Rightarrow> (nat \<times> string) list" where
  "identify_block_starts b =
     (case b of [] \<Rightarrow> first_start b | i # rest \<Rightarrow> scan_starts (first_start b) 1 i rest)"

definition make_block :: "string \<Rightarrow> instr list \<Rightarrow> block" where
  "make_block label sl =
     (let body = (case sl of Label _ # rest \<Rightarrow> rest | _ \<Rightarrow> sl)
      in if body \<noteq> [] \<and> is_terminator (last body)
         then \<lparr>b_label = label, b_instrs = butlast body, b_term = Some (last body), b_succs = [], b_preds = []\<rparr>
         else \<lparr>b_label = label, b_instrs = body, b_term = None, b_succs = [], b_preds = []\<rparr>)"

fun build_blocks :: "instr list \<Rightarrow> (nat \<times> string) list \<Rightarrow> block list" where
  "build_blocks b [] = []"
| "build_blocks b [(start, label)] = [make_block label (drop start b)]"
| "build_blocks b ((start, label) # (stop, label') # rest) =
     make_block label (take (stop - start) (drop start b)) # build_blocks b ((stop, label') # rest)"

subsection \<open>Edges\<close>

text \<open>\<open>{bb.label: bb for bb in blocks}\<close>: the last block of a label wins.\<close>

definition label_to_block :: "block list \<Rightarrow> string \<rightharpoonup> nat" where
  "label_to_block blocks = map_of (rev (zip (map b_label blocks) [0..<length blocks]))"

definition block_successors :: "(string \<rightharpoonup> nat) \<Rightarrow> nat \<Rightarrow> nat \<Rightarrow> block \<Rightarrow> nat list option" where
  "block_successors labels n index bb =
     (let fall = (if Suc index < n then [Suc index] else [])
      in case b_term bb of
           None \<Rightarrow> Some fall
         | Some t \<Rightarrow>
             (case t of
                Jump target \<Rightarrow> map_option (\<lambda>k. [k]) (labels target)
              | BranchFalse _ _ _ target \<Rightarrow> map_option (\<lambda>k. k # fall) (labels target)
              | CarryBranch _ target _ \<Rightarrow> map_option (\<lambda>k. k # fall) (labels target)
              | _ \<Rightarrow> Some []))"

definition wire_successors :: "(string \<rightharpoonup> nat) \<Rightarrow> block list \<Rightarrow> block list option" where
  "wire_successors labels blocks =
     sequence_opt (map (\<lambda>(index, bb). map_option (\<lambda>ss. bb\<lparr>b_succs := ss\<rparr>)
         (block_successors labels (length blocks) index bb))
       (enumerate 0 blocks))"

text \<open>One entry per edge, in the order of the blocks and of their successors.\<close>

definition predecessors_of :: "block list \<Rightarrow> nat \<Rightarrow> nat list" where
  "predecessors_of blocks k =
     concat (map (\<lambda>(index, bb). map (\<lambda>_. index) (filter (\<lambda>s. s = k) (b_succs bb))) (enumerate 0 blocks))"

definition wire_predecessors :: "block list \<Rightarrow> block list" where
  "wire_predecessors blocks =
     map (\<lambda>(index, bb). bb\<lparr>b_preds := predecessors_of blocks index\<rparr>) (enumerate 0 blocks)"

definition build_cfg :: "instr list \<Rightarrow> cfg option" where
  "build_cfg b =
     (let blocks = build_blocks b (identify_block_starts b)
      in map_option
           (\<lambda>wired. \<lparr>g_store = wire_predecessors wired, g_order = [0..<length blocks], g_entry = 0\<rparr>)
           (wire_successors (label_to_block blocks) blocks))"

definition flatten_block :: "block \<Rightarrow> instr list" where
  "flatten_block bb =
     (if starts_with synthetic_label_prefix (b_label bb) then [] else [Label (b_label bb)]) @ b_instrs bb @
     (case b_term bb of None \<Rightarrow> [] | Some t \<Rightarrow> [t])"

definition flatten_cfg :: "cfg \<Rightarrow> instr list" where
  "flatten_cfg g = concat (map (\<lambda>k. flatten_block (g_store g ! k)) (g_order g))"

subsection \<open>Reverse postorder\<close>

definition succs_of :: "cfg \<Rightarrow> nat \<Rightarrow> nat list" where
  "succs_of g k = (if k < length (g_store g) then b_succs (g_store g ! k) else [])"

text \<open>
  The iterative depth-first search: a stack of blocks with the successors still to look at, the visited
  blocks, and the postorder built so far (most recent first, so it is already reversed).
\<close>

definition edge_targets :: "cfg \<Rightarrow> nat set" where
  "edge_targets g = (\<Union>bb \<in> set (g_store g). set (b_succs bb))"

lemma succs_of_targets: "set (succs_of g k) \<subseteq> edge_targets g"
  by (auto simp: succs_of_def edge_targets_def intro!: bexI [OF _ nth_mem])

definition pending :: "cfg \<Rightarrow> (nat \<times> nat list) list \<Rightarrow> nat set \<Rightarrow> nat set" where
  "pending g stack visited = (edge_targets g \<union> (\<Union>x \<in> set stack. set (snd x))) - visited"

definition work :: "(nat \<times> nat list) list \<Rightarrow> nat" where
  "work stack = sum_list (map (\<lambda>x. Suc (length (snd x))) stack)"

lemma finite_pending [simp]: "finite (pending g stack visited)"
  by (simp add: pending_def edge_targets_def)

lemma pending_skip:
  "card (pending g ((k, r) # stack) visited) \<le> card (pending g ((k, s # r) # stack) visited)"
  by (rule card_mono) (auto simp: pending_def edge_targets_def)

lemma pending_visit:
  assumes "s \<notin> visited"
  shows "card (pending g ((s, succs_of g s) # (k, r) # stack) (insert s visited)) <
    card (pending g ((k, s # r) # stack) visited)"
proof (rule psubset_card_mono)
  show "pending g ((s, succs_of g s) # (k, r) # stack) (insert s visited) \<subset>
      pending g ((k, s # r) # stack) visited"
    using assms succs_of_targets [of g s] by (auto simp: pending_def)
qed simp

function dfs :: "cfg \<Rightarrow> (nat \<times> nat list) list \<Rightarrow> nat set \<Rightarrow> nat list \<Rightarrow> nat list" where
  "dfs g [] visited post = post"
| "dfs g ((k, []) # stack) visited post = dfs g stack visited (k # post)"
| "dfs g ((k, s # remaining) # stack) visited post =
     (if s \<in> visited then dfs g ((k, remaining) # stack) visited post
      else dfs g ((s, succs_of g s) # (k, remaining) # stack) (insert s visited) post)"
  by pat_completeness auto
termination
  by (relation "inv_image (less_than <*lex*> less_than)
      (\<lambda>(g, stack, visited, post). (card (pending g stack visited), work stack))")
     (use pending_skip pending_visit in \<open>auto simp: work_def less_le pending_def [of _ "(_, []) # _"]
       pending_def [of _ "_ :: (nat \<times> nat list) list"]\<close>)

definition reverse_postorder :: "cfg \<Rightarrow> nat list" where
  "reverse_postorder g = dfs g [(g_entry g, succs_of g (g_entry g))] {g_entry g} []"

subsection \<open>Dictionaries in insertion order\<close>

fun put_item :: "'k \<Rightarrow> 'v \<Rightarrow> ('k \<times> 'v) list \<Rightarrow> ('k \<times> 'v) list" where
  "put_item k v [] = [(k, v)]"
| "put_item k v ((k', v') # xs) = (if k' = k then (k, v) # xs else (k', v') # put_item k v xs)"

lemma map_of_put_item [simp]: "map_of (put_item k v xs) = (map_of xs)(k \<mapsto> v)"
  by (induction k v xs rule: put_item.induct) auto

fun position :: "'a \<Rightarrow> 'a list \<Rightarrow> nat option" where
  "position x [] = None"
| "position x (y # ys) = (if x = y then Some 0 else map_option Suc (position x ys))"

subsection \<open>Dominators\<close>

text \<open>\<open>{block: index for index, block in enumerate(reversed(postorder))}\<close>.\<close>

definition postorder_index :: "nat list \<Rightarrow> nat \<Rightarrow> nat option" where
  "postorder_index rpo k = position k (rev rpo)"

text \<open>
  The loops that walk up the dominator tree stop when the fingers meet.  None: a missing key, or a
  walk that does not end.
\<close>

partial_function (option) climb ::
    "(nat \<times> nat) list \<Rightarrow> nat list \<Rightarrow> nat \<Rightarrow> nat \<Rightarrow> nat option" where
  "climb idom rpo a target =
     Option.bind (postorder_index rpo a) (\<lambda>i. Option.bind (postorder_index rpo target) (\<lambda>j.
       if i < j then Option.bind (map_of idom a) (\<lambda>a'. climb idom rpo a' target) else Some a))"

partial_function (option) intersect_dominators ::
    "(nat \<times> nat) list \<Rightarrow> nat list \<Rightarrow> nat \<Rightarrow> nat \<Rightarrow> nat option" where
  "intersect_dominators idom rpo a c =
     (if a = c then Some a
      else Option.bind (climb idom rpo a c) (\<lambda>a'. Option.bind (climb idom rpo c a') (\<lambda>c'.
        intersect_dominators idom rpo a' c')))"

declare climb.simps [code] intersect_dominators.simps [code]

fun intersect_all :: "(nat \<times> nat) list \<Rightarrow> nat list \<Rightarrow> nat \<Rightarrow> nat list \<Rightarrow> nat option" where
  "intersect_all idom rpo new_idom [] = Some new_idom"
| "intersect_all idom rpo new_idom (p # ps) =
     Option.bind (intersect_dominators idom rpo p new_idom) (\<lambda>d. intersect_all idom rpo d ps)"

definition preds_of :: "cfg \<Rightarrow> nat \<Rightarrow> nat list" where
  "preds_of g k = (if k < length (g_store g) then b_preds (g_store g ! k) else [])"

definition dom_visit ::
    "cfg \<Rightarrow> nat list \<Rightarrow> nat \<Rightarrow> (nat \<times> nat) list \<times> bool \<Rightarrow> ((nat \<times> nat) list \<times> bool) option" where
  "dom_visit g rpo k st =
     (let (idom, changed) = st in
      if k = g_entry g then Some st
      else case filter (\<lambda>p. map_of idom p \<noteq> None) (preds_of g k) of
        [] \<Rightarrow> Some st
      | p # ps \<Rightarrow>
          Option.bind (intersect_all idom rpo p ps) (\<lambda>d.
            Some (if map_of idom k \<noteq> Some d then (put_item k d idom, True) else st)))"

fun dom_pass ::
    "cfg \<Rightarrow> nat list \<Rightarrow> nat list \<Rightarrow> (nat \<times> nat) list \<times> bool \<Rightarrow> ((nat \<times> nat) list \<times> bool) option" where
  "dom_pass g rpo [] st = Some st"
| "dom_pass g rpo (k # ks) st = Option.bind (dom_visit g rpo k st) (dom_pass g rpo ks)"

partial_function (option) dom_loop ::
    "cfg \<Rightarrow> nat list \<Rightarrow> (nat \<times> nat) list \<Rightarrow> (nat \<times> nat) list option" where
  "dom_loop g rpo idom =
     Option.bind (dom_pass g rpo rpo (idom, False)) (\<lambda>st.
       if snd st then dom_loop g rpo (fst st) else Some (fst st))"

declare dom_loop.simps [code]

definition compute_dominators :: "cfg \<Rightarrow> (nat \<times> nat) list option" where
  "compute_dominators g =
     (let rpo = reverse_postorder g in
      map_option (filter (\<lambda>(k, d). k \<in> set rpo)) (dom_loop g rpo [(g_entry g, g_entry g)]))"

subsection \<open>Dominance frontiers\<close>

text \<open>The blocks one walk of \<open>runner\<close> from a predecessor passes.\<close>

partial_function (option) frontier_runners :: "(nat \<times> nat) list \<Rightarrow> nat \<Rightarrow> nat \<Rightarrow> nat list option" where
  "frontier_runners idom runner stop =
     (if runner = stop then Some []
      else case map_of idom runner of
        None \<Rightarrow> None
      | Some d \<Rightarrow>
          (if d = runner then Some [runner]
           else Option.bind (frontier_runners idom d stop) (\<lambda>rs. Some (runner # rs))))"

declare frontier_runners.simps [code]

definition add_frontier :: "nat \<Rightarrow> nat list \<Rightarrow> (nat \<Rightarrow> nat list) \<Rightarrow> (nat \<Rightarrow> nat list)" where
  "add_frontier k runners fr = fold (\<lambda>r fr. fr(r := List.insert k (fr r))) runners fr"

fun frontiers_from ::
    "(nat \<times> nat) list \<Rightarrow> nat \<Rightarrow> nat \<Rightarrow> nat list \<Rightarrow> (nat \<Rightarrow> nat list) \<Rightarrow> (nat \<Rightarrow> nat list) option" where
  "frontiers_from idom k d [] fr = Some fr"
| "frontiers_from idom k d (p # ps) fr =
     (if map_of idom p = None then frontiers_from idom k d ps fr
      else Option.bind (frontier_runners idom p d) (\<lambda>rs.
        frontiers_from idom k d ps (add_frontier k rs fr)))"

fun frontiers_loop ::
    "cfg \<Rightarrow> (nat \<times> nat) list \<Rightarrow> (nat \<times> nat) list \<Rightarrow> (nat \<Rightarrow> nat list) \<Rightarrow> (nat \<Rightarrow> nat list) option" where
  "frontiers_loop g idom [] fr = Some fr"
| "frontiers_loop g idom ((k, d) # rest) fr =
     (if length (preds_of g k) < 2 then frontiers_loop g idom rest fr
      else Option.bind (frontiers_from idom k d (preds_of g k) fr) (frontiers_loop g idom rest))"

text \<open>\<open>compute_dominance_frontiers\<close>: the set of each block as a list without repetitions.\<close>

definition compute_dominance_frontiers :: "cfg \<Rightarrow> (nat \<times> nat) list \<Rightarrow> (nat \<Rightarrow> nat list) option" where
  "compute_dominance_frontiers g idom = frontiers_loop g idom idom (\<lambda>_. [])"

end
