(* ===== verification/Cfg_Facts.thy ===== *)
theory Cfg_Facts
  imports Cfg
begin

text \<open>
  What the blocks and edges of a graph are: the slices of the body at the block starts, with branch
  instructions only at the end of a block and labels only in front of one.
\<close>

subsection \<open>Block starts\<close>

definition synthetic :: "string \<Rightarrow> bool" where
  "synthetic l = starts_with synthetic_label_prefix l"

text \<open>A boundary at \<open>k\<close> with the name \<open>l\<close>: the label that stands there, or a synthetic name where none does.\<close>

definition good_start :: "instr list \<Rightarrow> nat \<Rightarrow> string \<Rightarrow> bool" where
  "good_start b k l = (case drop k b of Label m # _ \<Rightarrow> l = m | _ \<Rightarrow> synthetic l)"

definition boundary :: "instr list \<Rightarrow> nat \<Rightarrow> bool" where
  "boundary b k = (k < length b \<and> (is_Label (b ! k) \<or> k > 0 \<and> is_terminator (b ! (k - 1))))"

lemma not_label_case: "\<not> is_Label i \<Longrightarrow> (case i of Label l \<Rightarrow> f l | _ \<Rightarrow> g) = g"
  by (cases i) auto

lemma label_eqD: "is_Label i \<Longrightarrow> \<exists>m. i = Label m"
  by (cases i) auto

lemma not_label_slice_case:
  "\<not> is_Label i \<Longrightarrow> (case i # rest of Label l # r \<Rightarrow> f l r | _ \<Rightarrow> g) = g"
  by (cases i) auto

lemma good_start_nil: "drop k b = [] \<Longrightarrow> good_start b k l \<longleftrightarrow> synthetic l"
  by (simp add: good_start_def)

lemma good_start_label: "drop k b = Label m # rest \<Longrightarrow> good_start b k l \<longleftrightarrow> l = m"
  by (simp add: good_start_def)

lemma good_start_other: "drop k b = i # rest \<Longrightarrow> \<not> is_Label i \<Longrightarrow> good_start b k l \<longleftrightarrow> synthetic l"
  by (cases i) (auto simp: good_start_def)

lemma synthetic_prefix [simp]: "synthetic (synthetic_label_prefix @ l)"
  by (simp add: synthetic_def)

text \<open>The starts cover every boundary below \<open>n\<close>.\<close>

definition starts_ok :: "instr list \<Rightarrow> nat \<Rightarrow> (nat \<times> string) list \<Rightarrow> bool" where
  "starts_ok b n starts =
     (starts \<noteq> [] \<and> fst (hd starts) = 0 \<and> sorted_wrt (<) (map fst starts) \<and>
      (\<forall>(k, l) \<in> set starts. k < max 1 n \<and> good_start b k l) \<and>
      (\<forall>k < n. boundary b k \<longrightarrow> k \<in> fst ` set starts))"

lemma starts_ok_snoc:
  assumes "starts_ok b n starts" "good_start b n l" "0 < n"
  shows "starts_ok b (Suc n) (starts @ [(n, l)])"
  using assms by (auto simp: starts_ok_def sorted_wrt_append less_Suc_eq max_def split: if_splits)

lemma starts_ok_skip:
  assumes "starts_ok b n starts" "\<not> boundary b n" "0 < n"
  shows "starts_ok b (Suc n) starts"
  using assms by (auto simp: starts_ok_def less_Suc_eq max_def split: if_splits)

lemma starts_ok_last:
  assumes "starts_ok b n starts" "0 < n"
  shows "fst (last starts) < n"
proof -
  have "last starts \<in> set starts" using assms by (simp add: starts_ok_def)
  moreover have "\<forall>x \<in> set starts. fst x < max 1 n" using assms by (auto simp: starts_ok_def)
  ultimately show ?thesis using assms(2) by force
qed

lemma scan_starts_ok:
  assumes "starts_ok b n starts" "0 < n" "rest = drop n b" "previous = b ! (n - 1)" "n \<le> length b"
  shows "starts_ok b (length b) (scan_starts starts n previous rest)"
  using assms
proof (induction rest arbitrary: starts n previous)
  case Nil
  then show ?case by simp
next
  case (Cons i rest)
  have n: "n < length b" using Cons.prems(3) by (metis drop_eq_Nil list.distinct(1) not_le)
  have i: "b ! n = i" and r: "rest = drop (Suc n) b"
    using Cons.prems(3) n by (metis Cons_nth_drop_Suc list.inject)+
  have l: "fst (last starts) \<noteq> n" using starts_ok_last [OF Cons.prems(1,2)] by simp
  note step = Cons.IH [OF _ _ r, where previous = i]
  show ?case
  proof (cases "is_Label i")
    case True
    then obtain m where m: "i = Label m" by (auto dest: label_eqD)
    have "good_start b n m" using good_start_label [of n b m rest] Cons.prems(3) m by simp
    then show ?thesis using starts_ok_snoc [OF Cons.prems(1) _ Cons.prems(2)] step n i m l by simp
  next
    case nl: False
    then have scan: "scan_starts starts n previous (i # rest) = scan_starts
        (if is_terminator previous
         then starts @ [(n, synthetic_label_prefix @ ''fallthrough_'' @ show_nat n @ ''>'')]
         else starts) (Suc n) i rest"
      using l by (simp add: not_label_case)
    show ?thesis
    proof (cases "is_terminator previous")
      case True
      have "good_start b n (synthetic_label_prefix @ ''fallthrough_'' @ show_nat n @ ''>'')"
        using good_start_other [of n b i rest] Cons.prems(3) nl by simp
      then show ?thesis using starts_ok_snoc [OF Cons.prems(1) _ Cons.prems(2)] step n i scan True by simp
    next
      case False
      then have "\<not> boundary b n" using nl i Cons.prems by (simp add: boundary_def)
      then show ?thesis using starts_ok_skip [OF Cons.prems(1) _ Cons.prems(2)] step n i scan False by simp
    qed
  qed
qed

lemma first_start_ok: "starts_ok b (min 1 (length b)) (first_start b)"
proof (cases b)
  case Nil
  then show ?thesis by (simp add: first_start_def starts_ok_def good_start_nil boundary_def)
next
  case (Cons i rest)
  show ?thesis
  proof (cases "is_Label i")
    case True
    then obtain m where "i = Label m" by (auto dest: label_eqD)
    then show ?thesis using Cons good_start_label [of 0 b m rest m]
      by (simp add: first_start_def starts_ok_def)
  next
    case False
    then show ?thesis using Cons good_start_other [of 0 b i rest]
      by (simp add: first_start_def starts_ok_def not_label_case boundary_def)
  qed
qed

lemma identify_block_starts_ok: "starts_ok b (length b) (identify_block_starts b)"
proof (cases b)
  case Nil
  then show ?thesis using first_start_ok [of b] by (simp add: identify_block_starts_def)
next
  case (Cons i rest)
  then have "starts_ok b 1 (first_start b)" using first_start_ok [of b] by simp
  then have "starts_ok b (length b) (scan_starts (first_start b) 1 i rest)"
    by (rule scan_starts_ok) (simp_all add: Cons)
  moreover have "identify_block_starts b = scan_starts (first_start b) 1 i rest"
    unfolding identify_block_starts_def using Cons by (simp only: list.case)
  ultimately show ?thesis by simp
qed

subsection \<open>Blocks\<close>

definition bounded_starts :: "instr list \<Rightarrow> (nat \<times> string) list \<Rightarrow> bool" where
  "bounded_starts b starts = (sorted_wrt (<) (map fst starts) \<and>
     (\<forall>(k, l) \<in> set starts. (k < length b \<or> k = 0) \<and> good_start b k l))"

text \<open>The slice of the body from a start to the next one.\<close>

definition slice_end :: "instr list \<Rightarrow> (nat \<times> string) list \<Rightarrow> nat" where
  "slice_end b rest = (case rest of [] \<Rightarrow> length b | (k, _) # _ \<Rightarrow> k)"

definition slice_of :: "instr list \<Rightarrow> nat \<Rightarrow> nat \<Rightarrow> instr list" where
  "slice_of b k n = take (n - k) (drop k b)"

lemma build_blocks_Cons:
  "build_blocks b ((k, l) # rest) = make_block l (slice_of b k (slice_end b rest)) # build_blocks b rest"
  by (cases rest) (auto simp: slice_of_def slice_end_def)

lemma length_build_blocks [simp]: "length (build_blocks b starts) = length starts"
  by (induction starts) (auto simp: build_blocks_Cons)

lemma map_label_build_blocks: "map b_label (build_blocks b starts) = map snd starts"
  by (induction starts) (auto simp: build_blocks_Cons make_block_def Let_def)

lemma make_block_code:
  "b_instrs (make_block l sl) @ (case b_term (make_block l sl) of None \<Rightarrow> [] | Some t \<Rightarrow> [t]) =
     (case sl of Label _ # rest \<Rightarrow> rest | _ \<Rightarrow> sl)"
  by (simp add: make_block_def Let_def)

lemma b_label_make_block [simp]: "b_label (make_block l sl) = l"
  by (simp add: make_block_def Let_def)

lemma flatten_make_block:
  assumes "good_start b k l" "k < n" "\<not> (\<exists>m. Label m \<in> set b \<and> synthetic m)" "k < length b"
  shows "flatten_block (make_block l (slice_of b k n)) = slice_of b k n"
proof -
  obtain i rest where d: "drop k b = i # rest" using assms(4) Cons_nth_drop_Suc [of k b] by metis
  then have sl: "slice_of b k n = i # take (n - Suc k) rest"
    using assms(2) by (simp add: slice_of_def take_Cons' )
  have ib: "i \<in> set b" using d by (metis in_set_dropD list.set_intros(1))
  show ?thesis
  proof (cases "is_Label i")
    case True
    then obtain m where "i = Label m" by (auto dest: label_eqD)
    then show ?thesis using good_start_label [of k b m rest] assms(1,3) d ib sl
        make_block_code [of l "slice_of b k n"] by (auto simp: flatten_block_def synthetic_def)
  next
    case False
    then show ?thesis using good_start_other [of k b i rest] assms(1) d sl
        make_block_code [of l "slice_of b k n"]
      by (auto simp: flatten_block_def synthetic_def not_label_case)
  qed
qed

lemma slice_of_append: "k \<le> n \<Longrightarrow> n \<le> length b \<Longrightarrow> slice_of b k n @ drop n b = drop k b"
  unfolding slice_of_def by (metis append_take_drop_id drop_drop le_add_diff_inverse2)

lemma flatten_build_blocks:
  assumes "bounded_starts b starts" "\<not> (\<exists>m. Label m \<in> set b \<and> synthetic m)" "starts \<noteq> []" "b \<noteq> []"
  shows "concat (map flatten_block (build_blocks b starts)) = drop (fst (hd starts)) b"
  using assms
proof (induction starts)
  case (Cons x rest)
  obtain k l where x: "x = (k, l)" by (cases x)
  have k: "k < length b" "good_start b k l" "k < slice_end b rest" "slice_end b rest \<le> length b"
    using Cons.prems x by (auto simp: bounded_starts_def slice_end_def split: list.splits)
  have fl: "flatten_block (make_block l (slice_of b k (slice_end b rest))) = slice_of b k (slice_end b rest)"
    by (rule flatten_make_block [OF k(2,3) Cons.prems(2) k(1)])
  show ?case
  proof (cases "rest = []")
    case True
    then show ?thesis using fl x by (simp add: build_blocks_Cons slice_end_def slice_of_def)
  next
    case False
    have "bounded_starts b rest" using Cons.prems(1) by (auto simp: bounded_starts_def)
    from Cons.IH [OF this Cons.prems(2) False Cons.prems(4)]
    have "concat (map flatten_block (build_blocks b rest)) = drop (slice_end b rest) b"
      using False by (cases rest) (auto simp: slice_end_def)
    then show ?thesis using fl x k by (simp add: build_blocks_Cons slice_of_append)
  qed
qed simp

lemma identify_block_starts_bounded:
  "bounded_starts b (identify_block_starts b) \<and> identify_block_starts b \<noteq> [] \<and>
   fst (hd (identify_block_starts b)) = 0"
  using identify_block_starts_ok [of b]
  by (auto simp: starts_ok_def bounded_starts_def max_def split: if_splits)

subsection \<open>Edges\<close>

lemma all_Some_map: "\<forall>x \<in> set xs. x \<noteq> None \<Longrightarrow> xs = map Some (map the xs)"
  by (induction xs) auto

lemma wire_successors_Some:
  assumes "wire_successors labels blocks = Some wired"
  shows "length wired = length blocks"
    and "k < length blocks \<Longrightarrow> \<exists>ss. block_successors labels (length blocks) k (blocks ! k) = Some ss \<and>
      wired ! k = (blocks ! k)\<lparr>b_succs := ss\<rparr>"
proof -
  have eq: "map Some wired = map (\<lambda>(index, bb). map_option (\<lambda>ss. bb\<lparr>b_succs := ss\<rparr>)
         (block_successors labels (length blocks) index bb)) (enumerate 0 blocks)"
    using assms by (simp add: wire_successors_def sequence_opt_Some_iff)
  show len: "length wired = length blocks" using arg_cong [OF eq, of length] by simp
  assume k: "k < length blocks"
  have "map Some wired ! k = Some (wired ! k)" using k len by simp
  then show "\<exists>ss. block_successors labels (length blocks) k (blocks ! k) = Some ss \<and>
      wired ! k = (blocks ! k)\<lparr>b_succs := ss\<rparr>"
    unfolding eq using k by (auto simp: nth_enumerate_eq)
qed

lemma wire_successors_exists:
  "(\<exists>wired. wire_successors labels blocks = Some wired) \<longleftrightarrow>
     (\<forall>k < length blocks. block_successors labels (length blocks) k (blocks ! k) \<noteq> None)"
proof
  assume "\<exists>wired. wire_successors labels blocks = Some wired"
  then show "\<forall>k < length blocks. block_successors labels (length blocks) k (blocks ! k) \<noteq> None"
    using wire_successors_Some(2) by fastforce
next
  assume a: "\<forall>k < length blocks. block_successors labels (length blocks) k (blocks ! k) \<noteq> None"
  let ?f = "\<lambda>(index, bb). map_option (\<lambda>ss. bb\<lparr>b_succs := ss\<rparr>) (block_successors labels (length blocks) index bb)"
  have "\<forall>x \<in> set (map ?f (enumerate 0 blocks)). x \<noteq> None"
    using a by (auto simp: in_set_enumerate_eq)
  then have "map ?f (enumerate 0 blocks) = map Some (map the (map ?f (enumerate 0 blocks)))"
    by (rule all_Some_map)
  then show "\<exists>wired. wire_successors labels blocks = Some wired"
    unfolding wire_successors_def sequence_opt_Some_iff by blast
qed

lemma length_wire_predecessors [simp]: "length (wire_predecessors blocks) = length blocks"
  by (simp add: wire_predecessors_def)

lemma nth_wire_predecessors:
  "k < length blocks \<Longrightarrow> wire_predecessors blocks ! k = (blocks ! k)\<lparr>b_preds := predecessors_of blocks k\<rparr>"
  by (simp add: wire_predecessors_def nth_enumerate_eq)

text \<open>One predecessor entry per successor edge.\<close>

lemma count_predecessors_aux:
  "count_list (concat (map (\<lambda>(index, bb). map (\<lambda>_. index) (filter (\<lambda>s. s = k) (b_succs bb)))
      (enumerate n blocks))) j =
   (if n \<le> j \<and> j < n + length blocks then count_list (b_succs (blocks ! (j - n))) k else 0)"
proof (induction blocks arbitrary: n)
  case (Cons bb blocks)
  have c: "count_list (map (\<lambda>_. n) (filter (\<lambda>s. s = k) ss)) j = (if j = n then count_list ss k else 0)" for ss
    by (induction ss) auto
  show ?case by (auto simp: Cons.IH c nth_Cons')
qed simp

lemma count_predecessors:
  "count_list (predecessors_of blocks k) j =
     (if j < length blocks then count_list (b_succs (blocks ! j)) k else 0)"
  using count_predecessors_aux [of k 0 blocks j] by (simp add: predecessors_of_def)

text \<open>What \<open>build_cfg\<close> leaves in a block besides its edges.\<close>

lemma build_cfg_block:
  assumes "build_cfg b = Some g"
  defines "blocks \<equiv> build_blocks b (identify_block_starts b)"
  shows "length (g_store g) = length blocks" "g_order g = [0..<length blocks]" "g_entry g = 0" "blocks \<noteq> []"
    and "k < length blocks \<Longrightarrow> b_label (g_store g ! k) = b_label (blocks ! k) \<and>
      b_instrs (g_store g ! k) = b_instrs (blocks ! k) \<and> b_term (g_store g ! k) = b_term (blocks ! k) \<and>
      block_successors (label_to_block blocks) (length blocks) k (blocks ! k) = Some (b_succs (g_store g ! k)) \<and>
      (\<forall>j. count_list (b_preds (g_store g ! k)) j =
        (if j < length blocks then count_list (b_succs (g_store g ! j)) k else 0))"
proof -
  obtain wired where w: "wire_successors (label_to_block blocks) blocks = Some wired"
    and g: "g = \<lparr>g_store = wire_predecessors wired, g_order = [0..<length blocks], g_entry = 0\<rparr>"
    using assms by (auto simp: build_cfg_def Let_def)
  note len = wire_successors_Some(1) [OF w]
  show "length (g_store g) = length blocks" "g_order g = [0..<length blocks]" "g_entry g = 0"
    using g len by auto
  show "blocks \<noteq> []"
    using identify_block_starts_bounded [of b] unfolding blocks_def
    by (metis length_0_conv length_build_blocks)
  assume k: "k < length blocks"
  have succs: "b_succs (g_store g ! j) = b_succs (wired ! j)" if "j < length blocks" for j
    using g len that by (simp add: nth_wire_predecessors)
  show "b_label (g_store g ! k) = b_label (blocks ! k) \<and>
      b_instrs (g_store g ! k) = b_instrs (blocks ! k) \<and> b_term (g_store g ! k) = b_term (blocks ! k) \<and>
      block_successors (label_to_block blocks) (length blocks) k (blocks ! k) = Some (b_succs (g_store g ! k)) \<and>
      (\<forall>j. count_list (b_preds (g_store g ! k)) j =
        (if j < length blocks then count_list (b_succs (g_store g ! j)) k else 0))"
    using wire_successors_Some(2) [OF w k] k len succs g
    by (auto simp: nth_wire_predecessors count_predecessors)
qed

subsection \<open>The shape of blocks\<close>

definition covers :: "instr list \<Rightarrow> (nat \<times> string) list \<Rightarrow> bool" where
  "covers b starts = (\<forall>j. fst (hd starts) \<le> j \<longrightarrow> boundary b j \<longrightarrow> j \<in> fst ` set starts)"

lemma identify_block_starts_covers: "covers b (identify_block_starts b)"
  using identify_block_starts_ok [of b] by (auto simp: starts_ok_def covers_def boundary_def)

lemma bounded_starts_Cons:
  assumes bs: "bounded_starts b ((k, l) # rest)" and cv: "covers b ((k, l) # rest)" and "b \<noteq> []"
  shows "k < length b" "good_start b k l" "k < slice_end b rest" "slice_end b rest \<le> length b"
    and "bounded_starts b rest" "rest \<noteq> [] \<Longrightarrow> covers b rest"
    and "k < j \<Longrightarrow> j < slice_end b rest \<Longrightarrow> \<not> boundary b j"
proof -
  have later: "k < k' \<and> k' < length b" if "k' \<in> fst ` set rest" for k'
    using bs that by (fastforce simp: bounded_starts_def)
  show k: "k < length b" "good_start b k l" "bounded_starts b rest"
    using bs assms(3) by (auto simp: bounded_starts_def)
  show "k < slice_end b rest" "slice_end b rest \<le> length b"
    using k(1) later by (auto simp: slice_end_def less_imp_le split: list.splits)
  have least: "slice_end b rest \<le> k'" if "k' \<in> fst ` set rest" for k'
    using that bs by (cases rest) (fastforce simp: slice_end_def bounded_starts_def)+
  have mem: "j \<in> fst ` set rest" if "boundary b j" "k < j" for j
  proof -
    have "j \<in> fst ` set ((k, l) # rest)" using cv [unfolded covers_def, rule_format, of j] that by simp
    then show ?thesis using that(2) by auto
  qed
  show "k < j \<Longrightarrow> j < slice_end b rest \<Longrightarrow> \<not> boundary b j"
    using mem least by fastforce
  show "covers b rest" if "rest \<noteq> []"
    using mem later [of "fst (hd rest)"] that unfolding covers_def
    by (metis hd_in_set image_eqI less_le_trans)
qed

definition straight :: "instr list \<Rightarrow> bool" where
  "straight is = (\<forall>i \<in> set is. \<not> is_Label i \<and> \<not> is_terminator i)"

lemma slice_of_nth: "j < n - k \<Longrightarrow> n \<le> length b \<Longrightarrow> slice_of b k n ! j = b ! (k + j)"
  by (simp add: slice_of_def)

lemma length_slice_of: "n \<le> length b \<Longrightarrow> length (slice_of b k n) = n - k"
  by (simp add: slice_of_def)

text \<open>In a slice, labels stand only first and terminators only last.\<close>

lemma slice_of_shape:
  assumes "k < n" "n \<le> length b" "\<And>j. k < j \<Longrightarrow> j < n \<Longrightarrow> \<not> boundary b j"
  shows "i \<in> set (tl (slice_of b k n)) \<Longrightarrow> \<not> is_Label i"
    and "i \<in> set (butlast (slice_of b k n)) \<Longrightarrow> \<not> is_terminator i"
proof -
  assume "i \<in> set (tl (slice_of b k n))"
  then obtain j where "j < n - k - 1" "i = b ! (k + Suc j)"
    using assms(1,2) by (auto simp: in_set_conv_nth length_slice_of nth_tl slice_of_nth)
  then show "\<not> is_Label i" using assms(3) [of "k + Suc j"] assms(2) by (auto simp: boundary_def)
next
  assume "i \<in> set (butlast (slice_of b k n))"
  then obtain j where "j < n - k - 1" "i = b ! (k + j)"
    using assms(1,2) by (auto simp: in_set_conv_nth length_slice_of nth_butlast slice_of_nth)
  then show "\<not> is_terminator i" using assms(3) [of "Suc (k + j)"] assms(2) by (auto simp: boundary_def)
qed

lemma label_not_terminator: "is_Label i \<Longrightarrow> \<not> is_terminator i"
  by (cases i) auto

lemma make_block_shape:
  assumes "\<And>i. i \<in> set (tl sl) \<Longrightarrow> \<not> is_Label i" "\<And>i. i \<in> set (butlast sl) \<Longrightarrow> \<not> is_terminator i"
  shows "straight (b_instrs (make_block l sl))"
    and "set_option (b_term (make_block l sl)) = {i \<in> set sl. is_terminator i}"
proof -
  define rest where "rest = (case sl of Label _ # rest \<Rightarrow> rest | _ \<Rightarrow> sl)"
  have rest: "rest = sl \<and> (sl = [] \<or> \<not> is_Label (hd sl)) \<or> (\<exists>m. sl = Label m # rest)"
  proof (cases sl)
    case (Cons i r)
    then show ?thesis by (cases "is_Label i") (auto simp: rest_def not_label_case dest: label_eqD)
  qed (simp add: rest_def)
  then have nl: "i \<in> set rest \<Longrightarrow> \<not> is_Label i" for i
    using assms(1) by (cases sl) auto
  have nt: "i \<in> set (butlast rest) \<Longrightarrow> \<not> is_terminator i" for i
    using rest assms(2) by (metis butlast.simps(1,2) in_set_butlastD in_set_butlast_appendI list.set_intros(2) self_append_conv2)
  have mb: "make_block l sl = (if rest \<noteq> [] \<and> is_terminator (last rest)
         then \<lparr>b_label = l, b_instrs = butlast rest, b_term = Some (last rest), b_succs = [], b_preds = []\<rparr>
         else \<lparr>b_label = l, b_instrs = rest, b_term = None, b_succs = [], b_preds = []\<rparr>)"
    by (simp add: make_block_def rest_def Let_def)
  have split: "rest \<noteq> [] \<Longrightarrow> set rest = insert (last rest) (set (butlast rest))"
    by (metis append_butlast_last_id list.simps(15) rotate1.simps(2) set_rotate1)
  show "straight (b_instrs (make_block l sl))"
  proof (cases "rest = []")
    case False
    then show ?thesis using nl nt split [OF False] unfolding mb straight_def
      by (auto dest: in_set_butlastD)
  qed (simp add: mb straight_def)
  have "{i \<in> set sl. is_terminator i} = {i \<in> set rest. is_terminator i}"
    using rest label_not_terminator by auto
  then show "set_option (b_term (make_block l sl)) = {i \<in> set sl. is_terminator i}"
  proof (cases "rest = []")
    case False
    then show ?thesis using nt split [OF False] \<open>{i \<in> set sl. is_terminator i} = _\<close> unfolding mb by auto
  qed (simp add: mb)
qed

lemma build_blocks_shape:
  assumes "bounded_starts b starts" "covers b starts" "b \<noteq> []" "starts \<noteq> []"
  shows "(\<forall>bb \<in> set (build_blocks b starts). straight (b_instrs bb)) \<and>
    (\<Union>bb \<in> set (build_blocks b starts). set_option (b_term bb)) =
      {i \<in> set (drop (fst (hd starts)) b). is_terminator i}"
  using assms
proof (induction starts)
  case (Cons x rest)
  obtain k l where x: "x = (k, l)" by (cases x)
  note k = bounded_starts_Cons [OF Cons.prems(1,2,3) [unfolded x]]
  note shape = make_block_shape [OF slice_of_shape(1) [OF k(3,4,7)] slice_of_shape(2) [OF k(3,4,7)], where l = l]
  have d: "set (drop k b) = set (slice_of b k (slice_end b rest)) \<union> set (drop (slice_end b rest) b)"
    using slice_of_append [of k "slice_end b rest" b] k(3,4) by (metis less_imp_le set_append)
  show ?case
  proof (cases "rest = []")
    case True
    then show ?thesis using shape d x by (simp add: build_blocks_Cons slice_end_def)
  next
    case False
    then have "slice_end b rest = fst (hd rest)" by (cases rest) (auto simp: slice_end_def)
    then show ?thesis using Cons.IH [OF k(5) k(6) [OF False] Cons.prems(3) False] shape d x
      by (auto simp: build_blocks_Cons)
  qed
qed simp

lemma build_blocks_nil: "build_blocks [] (identify_block_starts []) = [make_block (synthetic_label_prefix @ ''entry>'') []]"
  by (simp add: identify_block_starts_def first_start_def)

lemma body_blocks_shape:
  fixes b
  defines "blocks \<equiv> build_blocks b (identify_block_starts b)"
  shows "bb \<in> set blocks \<Longrightarrow> straight (b_instrs bb)"
    and "(\<Union>bb \<in> set blocks. set_option (b_term bb)) = {i \<in> set b. is_terminator i}"
proof -
  have "(\<forall>bb \<in> set blocks. straight (b_instrs bb)) \<and>
    (\<Union>bb \<in> set blocks. set_option (b_term bb)) = {i \<in> set b. is_terminator i}"
  proof (cases "b = []")
    case True
    then show ?thesis by (simp add: blocks_def build_blocks_nil make_block_def straight_def)
  next
    case False
    then show ?thesis unfolding blocks_def
      using build_blocks_shape [of b "identify_block_starts b"] identify_block_starts_covers [of b]
        identify_block_starts_bounded [of b] by simp
  qed
  then show "bb \<in> set blocks \<Longrightarrow> straight (b_instrs bb)"
    and "(\<Union>bb \<in> set blocks. set_option (b_term bb)) = {i \<in> set b. is_terminator i}" by auto
qed

lemma body_blocks_flatten:
  assumes "\<not> (\<exists>m. Label m \<in> set b \<and> synthetic m)"
  shows "concat (map flatten_block (build_blocks b (identify_block_starts b))) = b"
proof (cases "b = []")
  case True
  then show ?thesis
    by (simp add: build_blocks_nil make_block_def flatten_block_def)
next
  case False
  then show ?thesis
    using flatten_build_blocks [OF _ assms, of "identify_block_starts b"] identify_block_starts_bounded [of b]
    by simp
qed

text \<open>The names of the blocks: every label of the body, and otherwise synthetic names.\<close>

lemma body_blocks_labels:
  fixes b
  defines "blocks \<equiv> build_blocks b (identify_block_starts b)"
  shows "Label l \<in> set b \<Longrightarrow> l \<in> b_label ` set blocks"
    and "l \<in> b_label ` set blocks \<Longrightarrow> Label l \<in> set b \<or> synthetic l"
proof -
  have names: "b_label ` set blocks = snd ` set (identify_block_starts b)"
    using map_label_build_blocks [of b "identify_block_starts b"] unfolding blocks_def by (metis set_map)
  have good: "good_start b k m" if "(k, m) \<in> set (identify_block_starts b)" for k m
    using that identify_block_starts_bounded [of b] by (auto simp: bounded_starts_def)
  show "l \<in> b_label ` set blocks" if "Label l \<in> set b"
  proof -
    obtain k where k: "k < length b" "b ! k = Label l" using \<open>Label l \<in> set b\<close> by (auto simp: in_set_conv_nth)
    then have "boundary b k" by (simp add: boundary_def)
    then have "k \<in> fst ` set (identify_block_starts b)"
      using identify_block_starts_covers [of b] identify_block_starts_bounded [of b] by (auto simp: covers_def)
    then obtain m where m: "(k, m) \<in> set (identify_block_starts b)" by auto
    then have "m = l" using good [OF m] good_start_label [of k b l "drop (Suc k) b"] k
      by (metis Cons_nth_drop_Suc)
    then show ?thesis using m names by (metis image_eqI snd_conv)
  qed
  show "Label l \<in> set b \<or> synthetic l" if "l \<in> b_label ` set blocks"
  proof -
    obtain k where "(k, l) \<in> set (identify_block_starts b)" using \<open>l \<in> b_label ` set blocks\<close> names by auto
    from good [OF this] show ?thesis
    proof (cases "drop k b")
      case (Cons i rest)
      then have "i \<in> set b" by (metis in_set_dropD list.set_intros(1))
      then show ?thesis using \<open>good_start b k l\<close> Cons good_start_label [of k b _ rest]
          good_start_other [of k b i rest] by (metis label_eqD)
    qed (auto simp: good_start_nil)
  qed
qed

lemma label_to_block_Some:
  assumes "label_to_block blocks l = Some k"
  shows "k < length blocks" "b_label (blocks ! k) = l"
  using map_of_SomeD [OF assms [unfolded label_to_block_def]] by (auto simp: set_zip)

lemma label_to_block_dom: "label_to_block blocks l = None \<longleftrightarrow> l \<notin> b_label ` set blocks"
proof -
  have "fst ` set (zip (map b_label blocks) [0..<length blocks]) = set (map b_label blocks)"
    by (metis length_map length_upt map_fst_zip minus_nat.diff_0 set_map)
  then show ?thesis by (simp add: label_to_block_def map_of_eq_None_iff)
qed

lemma build_cfg_nonempty: "build_cfg b = Some g \<Longrightarrow> 0 < length (g_store g)"
  using build_cfg_block(1,4) [of b g] by (metis length_greater_0_conv)

end
