(* ===== verification/Cfg_Correct.thy ===== *)
theory Cfg_Correct
  imports Cfg_Facts
begin

text \<open>
  The contracts of \<^verbatim>\<open>cc/cfg.py\<close>: splitting and flattening are inverse, the edges are those of the branch
  instructions, and the depth-first order lists the reachable blocks, each after one of its predecessors.
\<close>

subsection \<open>The depth-first order\<close>

inductive_set reachable_blocks :: "cfg \<Rightarrow> nat set" for g :: cfg where
  reach_entry: "g_entry g \<in> reachable_blocks g"
| reach_edge: "k \<in> reachable_blocks g \<Longrightarrow> s \<in> set (succs_of g k) \<Longrightarrow> s \<in> reachable_blocks g"

text \<open>Each block of the list has a predecessor in \<open>seen\<close> or before it in the list.\<close>

fun rooted :: "cfg \<Rightarrow> nat set \<Rightarrow> nat list \<Rightarrow> bool" where
  "rooted g seen [] = True"
| "rooted g seen (k # ks) = ((\<exists>p \<in> seen. k \<in> set (succs_of g p)) \<and> rooted g (insert k seen) ks)"

lemma rooted_append [simp]: "rooted g seen (xs @ ys) \<longleftrightarrow> rooted g seen xs \<and> rooted g (seen \<union> set xs) ys"
  by (induction xs arbitrary: seen) auto

lemma rooted_mono: "rooted g seen ks \<Longrightarrow> seen \<subseteq> seen' \<Longrightarrow> rooted g seen' ks"
proof (induction ks arbitrary: seen seen')
  case (Cons k ks)
  have "rooted g (insert k seen') ks"
    using Cons.IH [of "insert k seen" "insert k seen'"] Cons.prems by auto
  then show ?case using Cons.prems by auto
qed simp

text \<open>
  The invariant of the search.  The blocks on the stack from the bottom, followed by the postorder built so
  far, form a list that popping leaves alone and visiting extends in the middle.
\<close>

definition trail :: "(nat \<times> nat list) list \<Rightarrow> nat list \<Rightarrow> nat list" where
  "trail stack post = rev (map fst stack) @ post"

definition dfs_ok :: "cfg \<Rightarrow> (nat \<times> nat list) list \<Rightarrow> nat set \<Rightarrow> nat list \<Rightarrow> bool" where
  "dfs_ok g stack visited post =
     (visited = set (trail stack post) \<and> distinct (trail stack post) \<and>
      (\<exists>ks. trail stack post = g_entry g # ks \<and> rooted g {g_entry g} ks) \<and>
      visited \<subseteq> reachable_blocks g \<and>
      (\<forall>k \<in> set post. set (succs_of g k) \<subseteq> visited) \<and>
      (\<forall>(k, remaining) \<in> set stack. set remaining \<subseteq> set (succs_of g k) \<and>
         set (succs_of g k) \<subseteq> visited \<union> set remaining))"

lemma dfs_ok_start: "dfs_ok g [(g_entry g, succs_of g (g_entry g))] {g_entry g} []"
  by (auto simp: dfs_ok_def trail_def reach_entry)

lemma dfs_ok_pop: "dfs_ok g ((k, []) # stack) visited post \<Longrightarrow> dfs_ok g stack visited (k # post)"
  by (auto simp: dfs_ok_def trail_def)

lemma dfs_ok_skip:
  "dfs_ok g ((k, s # remaining) # stack) visited post \<Longrightarrow> s \<in> visited \<Longrightarrow>
   dfs_ok g ((k, remaining) # stack) visited post"
  by (auto simp: dfs_ok_def trail_def)

lemma rooted_insert:
  assumes "rooted g {e} ks" "e # ks = xs @ ys" "p \<in> set xs" "s \<in> set (succs_of g p)"
  shows "\<exists>ks'. xs @ s # ys = e # ks' \<and> rooted g {e} ks'"
proof (cases xs)
  case Nil
  then show ?thesis using assms(3) by simp
next
  case (Cons x xs')
  then have x: "x = e" "ks = xs' @ ys" using assms(2) by auto
  then have r: "rooted g {e} xs'" "rooted g ({e} \<union> set xs') ys" using assms(1) by auto
  have "rooted g (insert s ({e} \<union> set xs')) ys" by (rule rooted_mono [OF r(2)]) auto
  then show ?thesis using r assms(3,4) Cons x by auto
qed

lemma dfs_ok_visit:
  assumes ok: "dfs_ok g ((k, s # remaining) # stack) visited post" and s: "s \<notin> visited"
  shows "dfs_ok g ((s, succs_of g s) # (k, remaining) # stack) (insert s visited) post"
proof -
  define xs where "xs = rev (map fst stack) @ [k]"
  have old: "trail ((k, s # remaining) # stack) post = xs @ post"
    and new: "trail ((s, succs_of g s) # (k, remaining) # stack) post = xs @ s # post"
    by (auto simp: trail_def xs_def)
  have sk: "s \<in> set (succs_of g k)" and kv: "k \<in> visited"
    using ok old by (auto simp: dfs_ok_def xs_def)
  have "\<exists>ks'. xs @ s # post = g_entry g # ks' \<and> rooted g {g_entry g} ks'"
    using ok old sk rooted_insert [of g "g_entry g" _ xs post k s] by (auto simp: dfs_ok_def xs_def)
  moreover have "s \<in> reachable_blocks g"
    using ok kv sk reach_edge [of k g s] by (auto simp: dfs_ok_def)
  moreover have "distinct (xs @ s # post)" "insert s visited = set (xs @ s # post)"
    using ok s old by (auto simp: dfs_ok_def)
  moreover have "\<forall>k \<in> set post. set (succs_of g k) \<subseteq> insert s visited"
    "visited \<subseteq> reachable_blocks g"
    "\<forall>(k, remaining) \<in> set ((s, succs_of g s) # (k, remaining) # stack).
       set remaining \<subseteq> set (succs_of g k) \<and> set (succs_of g k) \<subseteq> insert s visited \<union> set remaining"
    using ok by (auto simp: dfs_ok_def)
  ultimately show ?thesis unfolding dfs_ok_def new by blast
qed

lemma dfs_correct: "dfs_ok g stack visited post \<Longrightarrow> dfs_ok g [] (set (dfs g stack visited post)) (dfs g stack visited post)"
proof (induction g stack visited post rule: dfs.induct)
  case (1 g visited post)
  then show ?case by (auto simp: dfs_ok_def trail_def)
next
  case (2 g k stack visited post)
  then show ?case using dfs_ok_pop by simp
next
  case (3 g k s remaining stack visited post)
  show ?case
  proof (cases "s \<in> visited")
    case True
    then show ?thesis using 3 dfs_ok_skip by simp
  next
    case False
    then show ?thesis using 3 dfs_ok_visit by simp
  qed
qed

lemma dfs_ok_reachable:
  assumes "dfs_ok g [] visited post"
  shows "set post = reachable_blocks g"
proof
  show "set post \<subseteq> reachable_blocks g" using assms by (auto simp: dfs_ok_def trail_def)
  show "reachable_blocks g \<subseteq> set post"
  proof
    fix k assume "k \<in> reachable_blocks g"
    then show "k \<in> set post" using assms by induction (auto simp: dfs_ok_def trail_def)
  qed
qed

lemma reverse_postorder_spec:
  "distinct (reverse_postorder g) \<and> set (reverse_postorder g) = reachable_blocks g \<and>
   (\<exists>ks. reverse_postorder g = g_entry g # ks \<and> rooted g {g_entry g} ks)"
proof -
  have ok: "dfs_ok g [] (set (reverse_postorder g)) (reverse_postorder g)"
    unfolding reverse_postorder_def by (rule dfs_correct [OF dfs_ok_start])
  show ?thesis using dfs_ok_reachable [OF ok] ok by (auto simp: dfs_ok_def trail_def)
qed

text \<open>
  \<open>_reverse_postorder\<close> lists exactly the blocks that are reachable from the entry, each once, the entry
  first and every other block after one of its predecessors.
\<close>

theorem reverse_postorder_correct:
  "distinct (reverse_postorder g) \<and> set (reverse_postorder g) = reachable_blocks g \<and>
   (\<exists>ks. reverse_postorder g = g_entry g # ks \<and> rooted g {g_entry g} ks)"
  by (rule reverse_postorder_spec)

subsection \<open>Building a graph\<close>

definition no_synthetic :: "instr list \<Rightarrow> bool" where
  "no_synthetic b = (\<forall>i \<in> set b. case i of Label l \<Rightarrow> \<not> synthetic l | _ \<Rightarrow> True)"

lemma no_synthetic_label: "no_synthetic b \<Longrightarrow> Label l \<in> set b \<Longrightarrow> \<not> synthetic l"
  by (force simp: no_synthetic_def)

text \<open>
  C27. Building the graph and flattening it gives the body back, for bodies whose labels do not start with
  \<open><\<close> (every label of the lowering starts with a dot).
\<close>

theorem flatten_build_cfg:
  assumes "build_cfg b = Some g" "no_synthetic b"
  shows "flatten_cfg g = b"
proof -
  define blocks where "blocks = build_blocks b (identify_block_starts b)"
  note facts = build_cfg_block [OF assms(1), folded blocks_def]
  have "flatten_cfg g = concat (map (\<lambda>k. flatten_block (blocks ! k)) [0..<length blocks])"
    unfolding flatten_cfg_def facts(2)
    by (rule arg_cong [where f = concat], rule map_cong) (auto simp: flatten_block_def facts(5))
  also have "\<dots> = concat (map flatten_block blocks)"
    by (metis (no_types, lifting) map_map map_nth comp_apply map_eq_conv)
  also have "\<dots> = b"
    unfolding blocks_def by (rule body_blocks_flatten) (use assms(2) no_synthetic_label in blast)
  finally show ?thesis .
qed

lemma flatten_build_cfg_witness:
  "\<exists>g. build_cfg [Label ''.L0'', BranchFalse (VName ''n'') ''!='' (VInt 0) ''.L1'', Jump ''.L0'', Label ''.L1'', Return None] =
     Some g \<and> flatten_cfg g =
       [Label ''.L0'', BranchFalse (VName ''n'') ''!='' (VInt 0) ''.L1'', Jump ''.L0'', Label ''.L1'', Return None]"
proof -
  let ?b = "[Label ''.L0'', BranchFalse (VName ''n'') ''!='' (VInt 0) ''.L1'', Jump ''.L0'', Label ''.L1'', Return None]"
  have "build_cfg ?b \<noteq> None" by code_simp
  moreover have "no_synthetic ?b" by code_simp
  ultimately show ?thesis using flatten_build_cfg [of ?b] by blast
qed

subsection \<open>Edges\<close>

text \<open>Whether control may go to the next instruction.\<close>

fun may_fall_through :: "instr \<Rightarrow> bool" where
  "may_fall_through (Jump _) = False"
| "may_fall_through (Return _) = False"
| "may_fall_through (TailCall _ _) = False"
| "may_fall_through _ = True"

text \<open>The successors a block must have: the target of its branch, then the next block in source order.\<close>

definition edges_ok :: "block list \<Rightarrow> nat \<Rightarrow> bool" where
  "edges_ok store k =
     (let bb = store ! k; next = (if Suc k < length store then [Suc k] else []) in
      case b_term bb of
        None \<Rightarrow> b_succs bb = next
      | Some t \<Rightarrow>
          (case branch_target t of
             None \<Rightarrow> b_succs bb = []
           | Some l \<Rightarrow> (\<exists>j < length store. b_label (store ! j) = l \<and>
               b_succs bb = j # (if may_fall_through t then next else []))))"

lemma block_successors_edges:
  assumes "block_successors (label_to_block blocks) (length blocks) k bb = Some ss"
    and "\<And>t. b_term bb = Some t \<Longrightarrow> is_terminator t"
  shows "case b_term bb of None \<Rightarrow> ss = (if Suc k < length blocks then [Suc k] else [])
    | Some t \<Rightarrow> (case branch_target t of None \<Rightarrow> ss = []
      | Some l \<Rightarrow> (\<exists>j < length blocks. b_label (blocks ! j) = l \<and>
          ss = j # (if may_fall_through t then if Suc k < length blocks then [Suc k] else [] else [])))"
proof (cases "b_term bb")
  case (Some t)
  have "is_terminator t" using assms(2) Some by simp
  then show ?thesis using assms(1) Some label_to_block_Some [of blocks]
    by (cases t rule: is_terminator.cases)
       (auto simp: block_successors_def Let_def map_option_comp_Some)
qed (use assms in \<open>auto simp: block_successors_def Let_def\<close>)

text \<open>
  C28. A graph has the edges of its body: a block holds no branch and no label except the branch that ends
  it, every branch of the body ends a block, its successors are the block its target names and, where
  control can fall through, the next block, and the predecessor lists count the same edges.
\<close>

theorem build_cfg_edges:
  assumes "build_cfg b = Some g" "k < length (g_store g)"
  shows "straight (b_instrs (g_store g ! k)) \<and> edges_ok (g_store g) k \<and>
    (\<Union>bb \<in> set (g_store g). set_option (b_term bb)) = {i \<in> set b. is_terminator i} \<and>
    count_list (b_preds (g_store g ! k)) j =
      (if j < length (g_store g) then count_list (b_succs (g_store g ! j)) k else 0)"
proof -
  define blocks where "blocks = build_blocks b (identify_block_starts b)"
  note facts = build_cfg_block [OF assms(1), folded blocks_def]
  note shape = body_blocks_shape [where b = b, folded blocks_def]
  have k: "k < length blocks" using assms(2) facts(1) by simp
  note fk = facts(5) [OF k]
  have terms: "(\<Union>bb \<in> set (g_store g). set_option (b_term bb)) = {i \<in> set b. is_terminator i}"
  proof -
    have "map b_term (g_store g) = map b_term blocks"
      by (rule nth_equalityI) (auto simp: facts(1,5))
    then have "b_term ` set (g_store g) = b_term ` set blocks" by (metis set_map)
    then show ?thesis using shape(2) by (metis image_image)
  qed
  have is_term: "is_terminator t" if "b_term (blocks ! k) = Some t" for t
  proof -
    have "t \<in> (\<Union>bb \<in> set blocks. set_option (b_term bb))"
      using that nth_mem [OF k] by (auto intro!: bexI [of _ "blocks ! k"])
    then show ?thesis using shape(2) by auto
  qed
  have "edges_ok (g_store g) k"
    using block_successors_edges [of blocks k "blocks ! k" "b_succs (g_store g ! k)"] fk is_term facts(1,5)
    by (auto simp: edges_ok_def Let_def split: option.splits)
  then show ?thesis using shape(1) [OF nth_mem [OF k]] fk terms facts(1) by simp
qed

lemma build_cfg_edges_witness:
  "\<exists>g. build_cfg [Label ''.L0'', BranchFalse (VName ''n'') ''!='' (VInt 0) ''.L1'', Jump ''.L0'', Label ''.L1'', Return None] =
     Some g \<and> edges_ok (g_store g) 0"
proof -
  let ?b = "[Label ''.L0'', BranchFalse (VName ''n'') ''!='' (VInt 0) ''.L1'', Jump ''.L0'', Label ''.L1'', Return None]"
  obtain g where g: "build_cfg ?b = Some g" "0 < length (g_store g)"
  proof -
    have "build_cfg ?b \<noteq> None" by code_simp
    then obtain g where "build_cfg ?b = Some g" by blast
    then show ?thesis using that build_cfg_nonempty [of ?b g] by blast
  qed
  show ?thesis using build_cfg_edges [OF g] g by blast
qed

lemma build_cfg_None_iff:
  assumes "\<forall>i \<in> set b. \<forall>l. branch_target i = Some l \<longrightarrow> \<not> synthetic l"
  shows "build_cfg b = None \<longleftrightarrow> (\<exists>i \<in> set b. \<exists>l. branch_target i = Some l \<and> Label l \<notin> set b)"
proof -
  define blocks where "blocks = build_blocks b (identify_block_starts b)"
  note shape = body_blocks_shape [where b = b, folded blocks_def]
  note names = body_blocks_labels [where b = b, folded blocks_def]
  have branch_term: "branch_target i = Some l \<Longrightarrow> is_terminator i" for i l
    by (cases i rule: branch_target.cases) auto
  have fails: "block_successors (label_to_block blocks) n k bb = None \<longleftrightarrow>
      (\<exists>t l. b_term bb = Some t \<and> branch_target t = Some l \<and> l \<notin> b_label ` set blocks)" for n k bb
  proof (cases "b_term bb")
    case (Some t)
    then show ?thesis using label_to_block_dom [of blocks]
      by (cases t rule: branch_target.cases) (auto simp: block_successors_def Let_def)
  qed (simp add: block_successors_def Let_def)
  have "build_cfg b = None \<longleftrightarrow>
      (\<exists>bb \<in> set blocks. \<exists>t l. b_term bb = Some t \<and> branch_target t = Some l \<and> l \<notin> b_label ` set blocks)"
  proof -
    have "build_cfg b = None \<longleftrightarrow> wire_successors (label_to_block blocks) blocks = None"
      by (simp add: build_cfg_def Let_def blocks_def)
    also have "\<dots> \<longleftrightarrow> (\<exists>k < length blocks.
        block_successors (label_to_block blocks) (length blocks) k (blocks ! k) = None)"
      using wire_successors_exists [of "label_to_block blocks" blocks] by (metis not_Some_eq)
    finally show ?thesis unfolding fails by (metis in_set_conv_nth)
  qed
  also have "\<dots> \<longleftrightarrow> (\<exists>i \<in> set b. \<exists>l. branch_target i = Some l \<and> l \<notin> b_label ` set blocks)"
  proof -
    have "(\<exists>bb \<in> set blocks. b_term bb = Some t) \<longleftrightarrow> t \<in> set b \<and> is_terminator t" for t
      using shape(2) by (auto simp: set_eq_iff)
    then show ?thesis using branch_term by blast
  qed
  also have "\<dots> \<longleftrightarrow> (\<exists>i \<in> set b. \<exists>l. branch_target i = Some l \<and> Label l \<notin> set b)"
    using names assms by blast
  finally show ?thesis .
qed

text \<open>
  C29. \<open>build_cfg\<close> fails exactly on a branch to a label that is not in the body (the \<^verbatim>\<open>KeyError\<close> of the lookup).
\<close>

theorem build_cfg_fails_iff:
  assumes "\<forall>i \<in> set b. \<forall>l. branch_target i = Some l \<longrightarrow> \<not> synthetic l"
  shows "build_cfg b = None \<longleftrightarrow> (\<exists>i \<in> set b. \<exists>l. branch_target i = Some l \<and> Label l \<notin> set b)"
  using assms by (rule build_cfg_None_iff)

lemma build_cfg_fails_iff_witness: "build_cfg [Jump ''.L1'', Label ''.L0''] = None"
  using build_cfg_fails_iff [of "[Jump ''.L1'', Label ''.L0'']"]
  by (simp add: synthetic_def starts_with_def synthetic_label_prefix_def)

end
