(* ===== verification/Ssa.thy ===== *)
theory Ssa
  imports Cfg "HOL-Library.Char_ord" "HOL-Library.List_Lexorder"
begin

text \<open>
  SSA construction, optimization and destruction of \<^verbatim>\<open>cc/ssa.py\<close>.  Blocks are positions of the graph's
  store; a dictionary keyed by blocks is the association list of its items in insertion order, a set of
  names a list.  None is a run of the code that raises an exception or does not return.
\<close>

subsection \<open>The SSA form\<close>

record phi =
  ph_destination :: string
  ph_original :: string
  ph_sources :: "(nat \<times> ir_value) list"

record ssa_form =
  sf_cfg :: cfg
  sf_phis :: "(nat \<times> phi list) list"
  sf_names :: "string list"

definition ssa_version_separator :: string where
  "ssa_version_separator = ''_ssa''"

definition split_label :: "nat \<Rightarrow> string" where
  "split_label counter = ''.ssa_split_'' @ show_nat counter"

text \<open>Python's \<^verbatim>\<open>p in s\<close> on strings.\<close>

fun contains :: "string \<Rightarrow> string \<Rightarrow> bool" where
  "contains p [] = (p = [])"
| "contains p (c # s) = (starts_with p (c # s) \<or> contains p s)"

text \<open>The module's own copies of two helpers of the optimizer.\<close>

fun ssa_instruction_destination :: "instr \<Rightarrow> string option" where
  "ssa_instruction_destination (Address _ d _ _) = Some d"
| "ssa_instruction_destination (AddressOf _ d) = Some d"
| "ssa_instruction_destination (BinaryOperation d _ _ _) = Some d"
| "ssa_instruction_destination (Copy d _) = Some d"
| "ssa_instruction_destination (Index _ d _) = Some d"
| "ssa_instruction_destination (Load _ d _ _) = Some d"
| "ssa_instruction_destination (Call _ d _) = d"
| "ssa_instruction_destination _ = None"

function ssa_iter_ast_var_names :: "node \<Rightarrow> string list" where
  "ssa_iter_ast_var_names n =
     (case own_var_name n of
        Some x \<Rightarrow> [x]
      | None \<Rightarrow> bare_names n @ concat (map ssa_iter_ast_var_names (ast_children n)))"
  by pat_completeness auto
termination
  by (relation "measure size") (auto dest: ast_children_smaller)

declare ssa_iter_ast_var_names.simps [simp del]

text \<open>\<open>dataclasses.replace(instruction, destination=d)\<close>.\<close>

fun set_destination :: "string \<Rightarrow> instr \<Rightarrow> instr" where
  "set_destination d (Address b _ ids sh) = Address b d ids sh"
| "set_destination d (AddressOf a _) = AddressOf a d"
| "set_destination d (BinaryOperation _ l op r) = BinaryOperation d l op r"
| "set_destination d (Copy _ s) = Copy d s"
| "set_destination d (Index b _ i) = Index b d i"
| "set_destination d (Load a _ sg w) = Load a d sg w"
| "set_destination d (Call args _ n) = Call args (Some d) n"
| "set_destination d i = i"

subsection \<open>Names that take part\<close>

text \<open>\<open>_address_taken_names\<close>, with the nested bodies of a switch.\<close>

definition taken_names :: "instr \<Rightarrow> string list" where
  "taken_names i = concat (map (\<lambda>v. case v of VAddr n \<Rightarrow> (case address_of_variable_name n of
       Some x \<Rightarrow> [x] | None \<Rightarrow> []) | _ \<Rightarrow> []) (value_fields i))"

function address_taken_names :: "instr list \<Rightarrow> string list" where
  "address_taken_names [] = []"
| "address_taken_names (i # b) = taken_names i @
     (case i of Switch cases _ _ _ \<Rightarrow> concat (map (\<lambda>c. address_taken_names (case_body c)) cases) | _ \<Rightarrow> []) @
     address_taken_names b"
  by pat_completeness auto
termination
  by (relation "measure (size_list size)") (use switch_body_smaller in auto)

function opaque_referenced_names :: "instr list \<Rightarrow> string list" where
  "opaque_referenced_names [] = []"
| "opaque_referenced_names (i # b) =
     (case i of
        Access n \<Rightarrow> ssa_iter_ast_var_names n
      | Block n \<Rightarrow> ssa_iter_ast_var_names n
      | CarryBranch n _ _ \<Rightarrow> ssa_iter_ast_var_names n
      | Switch cases discriminant _ _ \<Rightarrow>
          ssa_iter_ast_var_names discriminant @
          concat (map (\<lambda>c. opaque_referenced_names (case_body c)) cases)
      | Index base _ _ \<Rightarrow> [base]
      | IndexAssign base _ _ \<Rightarrow> [base]
      | _ \<Rightarrow> []) @ opaque_referenced_names b"
  by pat_completeness auto
termination
  by (relation "measure (size_list size)") (use switch_body_smaller in auto)

declare address_taken_names.simps [simp del] opaque_referenced_names.simps [simp del]

subsection \<open>Critical edges\<close>

definition critical_edges :: "cfg \<Rightarrow> (nat \<times> nat) list" where
  "critical_edges g = concat (map (\<lambda>k. if length (succs_of g k) \<ge> 2
     then map (Pair k) (filter (\<lambda>s. length (preds_of g s) \<ge> 2) (succs_of g k)) else []) (g_order g))"

definition update_block :: "nat \<Rightarrow> (block \<Rightarrow> block) \<Rightarrow> cfg \<Rightarrow> cfg" where
  "update_block k f g = (if k < length (g_store g) then g\<lparr>g_store := (g_store g)[k := f (g_store g ! k)]\<rparr> else g)"

definition label_of :: "cfg \<Rightarrow> nat \<Rightarrow> string" where
  "label_of g k = (if k < length (g_store g) then b_label (g_store g ! k) else [])"

text \<open>The explicit jumps for blocks that fall through to a successor that gets a split block.\<close>

definition materialize :: "string list \<Rightarrow> nat \<Rightarrow> nat \<Rightarrow> cfg \<Rightarrow> cfg" where
  "materialize with_splits k next g =
     (if k < length (g_store g) \<and> b_term (g_store g ! k) = None \<and>
         label_of g next \<in> set with_splits \<and> next \<in> set (succs_of g k)
      then update_block k (\<lambda>bb. bb\<lparr>b_term := Some (Jump (label_of g next))\<rparr>) g else g)"

fun materialize_jumps :: "string list \<Rightarrow> nat list \<Rightarrow> cfg \<Rightarrow> cfg" where
  "materialize_jumps with_splits (k # next # rest) g =
     materialize_jumps with_splits (next # rest) (materialize with_splits k next g)"
| "materialize_jumps with_splits _ g = g"

fun replace_first :: "'a \<Rightarrow> 'a \<Rightarrow> 'a list \<Rightarrow> 'a list" where
  "replace_first old new [] = []"
| "replace_first old new (x # xs) = (if x = old then new # xs else x # replace_first old new xs)"

fun insert_before :: "'a \<Rightarrow> 'a \<Rightarrow> 'a list \<Rightarrow> 'a list" where
  "insert_before y x [] = []"
| "insert_before y x (z # zs) = (if z = y then x # z # zs else z # insert_before y x zs)"

fun retarget :: "string \<Rightarrow> string \<Rightarrow> instr \<Rightarrow> instr" where
  "retarget old new (BranchFalse l op r t) = BranchFalse l op r (if t = old then new else t)"
| "retarget old new (CarryBranch c t w) = CarryBranch c (if t = old then new else t) w"
| "retarget old new (Jump t) = Jump (if t = old then new else t)"
| "retarget old new i = i"

text \<open>One split block, number \<open>counter\<close>, between \<open>p\<close> and \<open>s\<close>.\<close>

definition split_edge :: "nat \<Rightarrow> nat \<Rightarrow> nat \<Rightarrow> cfg \<Rightarrow> cfg" where
  "split_edge counter p s g =
     (let n = length (g_store g);
          label = split_label counter;
          target = label_of g s;
          split = \<lparr>b_label = label, b_instrs = [], b_term = Some (Jump target), b_succs = [s], b_preds = [p]\<rparr>;
          g1 = g\<lparr>g_store := g_store g @ [split]\<rparr>;
          g2 = update_block p (\<lambda>bb. bb\<lparr>b_succs := replace_first s n (b_succs bb)\<rparr>) g1;
          g3 = update_block s (\<lambda>bb. bb\<lparr>b_preds := replace_first p n (b_preds bb)\<rparr>) g2;
          g4 = update_block p (\<lambda>bb. bb\<lparr>b_term := map_option (retarget target label) (b_term bb)\<rparr>) g3
      in g4\<lparr>g_order := insert_before s n (g_order g4)\<rparr>)"

fun split_edges :: "nat \<Rightarrow> (nat \<times> nat) list \<Rightarrow> cfg \<Rightarrow> cfg" where
  "split_edges counter [] g = g"
| "split_edges counter ((p, s) # rest) g = split_edges (Suc counter) rest (split_edge counter p s g)"

definition split_critical_edges :: "cfg \<Rightarrow> cfg" where
  "split_critical_edges g =
     (let critical = critical_edges g in
      if critical = [] then g
      else split_edges 0 critical
        (materialize_jumps (map (\<lambda>(_, s). label_of g s) critical) (g_order g) g))"

subsection \<open>Phi placement\<close>

definition append_item :: "'k \<Rightarrow> 'v \<Rightarrow> ('k \<times> 'v list) list \<Rightarrow> ('k \<times> 'v list) list" where
  "append_item k v m = put_item k ((case map_of m k of None \<Rightarrow> [] | Some vs \<Rightarrow> vs) @ [v]) m"

text \<open>The frontier of one block: every block without a phi gets one, and the work list grows.\<close>

fun place_in :: "string \<Rightarrow> nat list \<Rightarrow> nat list \<Rightarrow> (nat \<times> phi list) list \<times> nat list \<times> nat list \<Rightarrow>
    (nat \<times> phi list) list \<times> nat list \<times> nat list" where
  "place_in name defs [] st = st"
| "place_in name defs (f # fs) (phis, have, worklist) =
     (if f \<in> set have then place_in name defs fs (phis, have, worklist)
      else place_in name defs fs
        (append_item f \<lparr>ph_destination = name, ph_original = name, ph_sources = []\<rparr> phis, f # have,
         if f \<in> set defs then worklist else worklist @ [f]))"

partial_function (option) place_name :: "cfg \<Rightarrow> (nat \<Rightarrow> nat list) \<Rightarrow> string \<Rightarrow> nat list \<Rightarrow>
    (nat \<times> phi list) list \<times> nat list \<times> nat list \<Rightarrow> (nat \<times> phi list) list option" where
  "place_name g frontiers name defs st =
     (case st of (phis, have, worklist) \<Rightarrow>
       if worklist = [] then Some phis
       else place_name g frontiers name defs
         (place_in name defs (sort_key (label_of g) (frontiers (last worklist))) (phis, have, butlast worklist)))"

declare place_name.simps [code]

fun place_names :: "cfg \<Rightarrow> (nat \<Rightarrow> nat list) \<Rightarrow> (string \<times> nat list) list \<Rightarrow> (nat \<times> phi list) list \<Rightarrow>
    (nat \<times> phi list) list option" where
  "place_names g frontiers [] phis = Some phis"
| "place_names g frontiers ((name, defs) # rest) phis =
     Option.bind (place_name g frontiers name defs (phis, [], sort_key (label_of g) defs))
       (place_names g frontiers rest)"

definition place_phi_nodes :: "cfg \<Rightarrow> (string \<times> nat list) list \<Rightarrow> (nat \<Rightarrow> nat list) \<Rightarrow> (nat \<times> phi list) list option" where
  "place_phi_nodes g definitions frontiers = place_names g frontiers (sort_key fst definitions) []"

subsection \<open>Renaming\<close>

definition dominator_children :: "(nat \<times> nat) list \<Rightarrow> nat \<Rightarrow> nat list" where
  "dominator_children idom parent = map fst (filter (\<lambda>(k, d). k \<noteq> d \<and> d = parent) idom)"

text \<open>The closure state of \<open>_rename_variables\<close>; the version stacks hold the latest version first.\<close>

record renaming =
  rn_counter :: "string \<Rightarrow> nat"
  rn_stack :: "string \<Rightarrow> string list"
  rn_cfg :: cfg
  rn_phis :: "(nat \<times> phi list) list"

definition version :: "string \<Rightarrow> nat \<Rightarrow> string" where
  "version name n = name @ ssa_version_separator @ show_nat n"

definition fresh_version :: "string \<Rightarrow> renaming \<Rightarrow> string \<times> renaming" where
  "fresh_version name st =
     (let v = version name (rn_counter st name)
      in (v, st\<lparr>rn_counter := (rn_counter st)(name := Suc (rn_counter st name)),
               rn_stack := (rn_stack st)(name := v # rn_stack st name)\<rparr>))"

definition lookup_version :: "renaming \<Rightarrow> string \<Rightarrow> string" where
  "lookup_version st name = (case rn_stack st name of [] \<Rightarrow> name | v # _ \<Rightarrow> v)"

definition substitute_value_operands :: "(string \<Rightarrow> string) \<Rightarrow> string list \<Rightarrow> instr \<Rightarrow> instr" where
  "substitute_value_operands lookup names =
     map_value_fields (\<lambda>v. case v of VName x \<Rightarrow> VName (if x \<in> set names then lookup x else x) | _ \<Rightarrow> v)"

fun rename_phis :: "phi list \<Rightarrow> renaming \<Rightarrow> phi list \<times> string list \<times> renaming" where
  "rename_phis [] st = ([], [], st)"
| "rename_phis (p # ps) st =
     (let (v, st1) = fresh_version (ph_original p) st;
          (ps', pushed, st2) = rename_phis ps st1
      in (p\<lparr>ph_destination := v\<rparr> # ps', ph_original p # pushed, st2))"

text \<open>One instruction: its uses first, then a fresh version for its destination.\<close>

definition rename_instruction :: "string list \<Rightarrow> instr \<Rightarrow> renaming \<Rightarrow> instr \<times> string list \<times> renaming" where
  "rename_instruction names i st =
     (let rewritten = substitute_value_operands (lookup_version st) names i
      in case ssa_instruction_destination rewritten of
           Some d \<Rightarrow>
             if d \<in> set names
             then (let (v, st1) = fresh_version d st in (set_destination v rewritten, [d], st1))
             else (rewritten, [], st)
         | None \<Rightarrow> (rewritten, [], st))"

fun rename_instructions :: "string list \<Rightarrow> instr list \<Rightarrow> renaming \<Rightarrow> instr list \<times> string list \<times> renaming" where
  "rename_instructions names [] st = ([], [], st)"
| "rename_instructions names (i # is) st =
     (let (i', pushed1, st1) = rename_instruction names i st;
          (is', pushed2, st2) = rename_instructions names is st1
      in (i' # is', pushed1 @ pushed2, st2))"

definition items_of :: "'k \<Rightarrow> ('k \<times> 'v list) list \<Rightarrow> 'v list" where
  "items_of k m = (case map_of m k of None \<Rightarrow> [] | Some vs \<Rightarrow> vs)"

definition replace_items :: "'k \<Rightarrow> 'v list \<Rightarrow> ('k \<times> 'v list) list \<Rightarrow> ('k \<times> 'v list) list" where
  "replace_items k vs m = (case map_of m k of None \<Rightarrow> m | Some _ \<Rightarrow> put_item k vs m)"

text \<open>The values this block feeds to the phis of its successors.\<close>

definition feed_successor :: "nat \<Rightarrow> renaming \<Rightarrow> nat \<Rightarrow> renaming" where
  "feed_successor k st s =
     st\<lparr>rn_phis := replace_items s
       (map (\<lambda>p. p\<lparr>ph_sources := put_item k (VName (lookup_version st (ph_original p))) (ph_sources p)\<rparr>)
         (items_of s (rn_phis st))) (rn_phis st)\<rparr>"

definition pop_versions :: "string list \<Rightarrow> renaming \<Rightarrow> renaming" where
  "pop_versions pushed st = fold (\<lambda>x st. st\<lparr>rn_stack := (rn_stack st)(x := tl (rn_stack st x))\<rparr>) pushed st"

definition enter_block :: "string list \<Rightarrow> nat \<Rightarrow> renaming \<Rightarrow> string list \<times> renaming" where
  "enter_block names k st =
     (let (ps, pushed1, st1) = rename_phis (items_of k (rn_phis st)) st;
          st2 = st1\<lparr>rn_phis := replace_items k ps (rn_phis st1)\<rparr>;
          bb = g_store (rn_cfg st2) ! k;
          (is, pushed2, st3) = rename_instructions names (b_instrs bb) st2;
          term = map_option (substitute_value_operands (lookup_version st3) names) (b_term bb);
          st4 = st3\<lparr>rn_cfg := update_block k (\<lambda>bb. bb\<lparr>b_instrs := is, b_term := term\<rparr>) (rn_cfg st3)\<rparr>
      in (pushed1 @ pushed2, foldl (feed_successor k) st4 (b_succs bb)))"

text \<open>
  \<open>_rename_block\<close>.  The recursion goes down the dominator tree, so its depth is at most the number of
  blocks; \<open>fuel\<close> is that bound and None a recursion that is deeper, which a tree does not have.
\<close>

fun rename_block :: "nat \<Rightarrow> string list \<Rightarrow> (nat \<times> nat) list \<Rightarrow> nat \<Rightarrow> renaming \<Rightarrow> renaming option"
and rename_children :: "nat \<Rightarrow> string list \<Rightarrow> (nat \<times> nat) list \<Rightarrow> nat list \<Rightarrow> renaming \<Rightarrow> renaming option" where
  "rename_block 0 names idom k st = None"
| "rename_block (Suc fuel) names idom k st =
     (let (pushed, st1) = enter_block names k st
      in map_option (pop_versions pushed) (rename_children fuel names idom (dominator_children idom k) st1))"
| "rename_children fuel names idom [] st = Some st"
| "rename_children fuel names idom (c # cs) st =
     Option.bind (rename_block fuel names idom c st) (rename_children fuel names idom cs)"

definition rename_variables ::
    "cfg \<Rightarrow> (nat \<times> nat) list \<Rightarrow> (nat \<times> phi list) list \<Rightarrow> string list \<Rightarrow> (cfg \<times> (nat \<times> phi list) list) option" where
  "rename_variables g idom phis names =
     map_option (\<lambda>st. (rn_cfg st, rn_phis st))
       (rename_block (Suc (length (g_store g))) names idom (g_entry g)
         \<lparr>rn_counter = \<lambda>_. 0, rn_stack = \<lambda>_. [], rn_cfg = g, rn_phis = phis\<rparr>)"

subsection \<open>Construction\<close>

definition block_code :: "cfg \<Rightarrow> nat \<Rightarrow> instr list" where
  "block_code g k = (let bb = g_store g ! k in b_instrs bb @ (case b_term bb of None \<Rightarrow> [] | Some t \<Rightarrow> [t]))"

definition definition_blocks :: "cfg \<Rightarrow> string \<Rightarrow> nat list" where
  "definition_blocks g x =
     filter (\<lambda>k. \<exists>i \<in> set (block_code g k). ssa_instruction_destination i = Some x) (remdups (g_order g))"

definition destinations :: "instr list \<Rightarrow> string list" where
  "destinations b = concat (map (\<lambda>i. case ssa_instruction_destination i of Some d \<Rightarrow> [d] | None \<Rightarrow> []) b)"

definition ssa_safe_names :: "string list \<Rightarrow> instr list \<Rightarrow> string list" where
  "ssa_safe_names excluded_names b =
     (let excluded = opaque_referenced_names b @ excluded_names @ address_taken_names b
      in filter (\<lambda>x. x \<notin> set excluded) (remdups (destinations b)))"

definition is_inline_asm :: "instr \<Rightarrow> bool" where
  "is_inline_asm i = (case i of InlineAsm _ \<Rightarrow> True | _ \<Rightarrow> False)"

definition convert_to_ssa :: "string list \<Rightarrow> instr list \<Rightarrow> ssa_form option" where
  "convert_to_ssa excluded_names b =
     Option.bind (build_cfg b) (\<lambda>g0.
       let names = ssa_safe_names excluded_names b in
       if (\<exists>i \<in> set b. is_inline_asm i) \<or> names = []
       then Some \<lparr>sf_cfg = g0, sf_phis = [], sf_names = []\<rparr>
       else
         (let g = split_critical_edges g0;
              definitions = map (\<lambda>x. (x, definition_blocks g x)) names in
          Option.bind (compute_dominators g) (\<lambda>idom.
          Option.bind (compute_dominance_frontiers g idom) (\<lambda>frontiers.
          Option.bind (place_phi_nodes g definitions frontiers) (\<lambda>phis.
          Option.bind (rename_variables g idom phis names) (\<lambda>(g', phis').
            Some \<lparr>sf_cfg = g', sf_phis = phis', sf_names = names\<rparr>))))))"

end
