(* ===== verification/Ssa_Passes.thy ===== *)
theory Ssa_Passes
  imports Ssa
begin

text \<open>
  The clean-up passes over an SSA form, its destruction and the driver \<open>optimize_ssa\<close> of
  \<^verbatim>\<open>cc/ssa.py\<close>.
\<close>

subsection \<open>Uses and substitution\<close>

definition variable_of :: "ir_value \<Rightarrow> string option" where
  "variable_of v = (case v of VName x \<Rightarrow> Some x | _ \<Rightarrow> None)"

definition name_list :: "ir_value list \<Rightarrow> string list" where
  "name_list vs = List.map_filter variable_of vs"

definition iter_name_uses :: "ssa_form \<Rightarrow> string list" where
  "iter_name_uses ssa =
     concat (map (\<lambda>k. concat (map (\<lambda>i. name_list (value_fields i)) (block_code (sf_cfg ssa) k)))
       (g_order (sf_cfg ssa))) @
     concat (map (\<lambda>(k, ps). concat (map (\<lambda>p. name_list (map snd (ph_sources p))) ps)) (sf_phis ssa))"

definition collect_use_counts :: "ssa_form \<Rightarrow> string \<Rightarrow> nat" where
  "collect_use_counts ssa = foldl bump (\<lambda>_. 0) (iter_name_uses ssa)"

definition mapped_value :: "(string \<times> ir_value) list \<Rightarrow> ir_value \<Rightarrow> ir_value" where
  "mapped_value mapping v =
     (case v of VName x \<Rightarrow> (case map_of mapping x of Some w \<Rightarrow> w | None \<Rightarrow> v) | _ \<Rightarrow> v)"

definition replace_value_uses_in_instruction :: "(string \<times> ir_value) list \<Rightarrow> instr \<Rightarrow> instr" where
  "replace_value_uses_in_instruction mapping = map_value_fields (mapped_value mapping)"

definition map_block :: "(instr \<Rightarrow> instr) \<Rightarrow> block \<Rightarrow> block" where
  "map_block f bb = bb\<lparr>b_instrs := map f (b_instrs bb), b_term := map_option f (b_term bb)\<rparr>"

text \<open>A rewrite of every instruction of every block in the graph's order.\<close>

definition map_blocks :: "(instr \<Rightarrow> instr) \<Rightarrow> cfg \<Rightarrow> cfg" where
  "map_blocks f g =
     g\<lparr>g_store := map (\<lambda>(k, bb). if k \<in> set (g_order g) then map_block f bb else bb) (enumerate 0 (g_store g))\<rparr>"

definition map_sources :: "(ir_value \<Rightarrow> ir_value) \<Rightarrow> phi \<Rightarrow> phi" where
  "map_sources f p = p\<lparr>ph_sources := map (\<lambda>(k, v). (k, f v)) (ph_sources p)\<rparr>"

definition uses_mapped :: "(string \<times> ir_value) list \<Rightarrow> ssa_form \<Rightarrow> bool" where
  "uses_mapped mapping ssa =
     ((\<exists>k \<in> set (g_order (sf_cfg ssa)). \<exists>i \<in> set (block_code (sf_cfg ssa) k).
         replace_value_uses_in_instruction mapping i \<noteq> i) \<or>
      (\<exists>(k, ps) \<in> set (sf_phis ssa). \<exists>p \<in> set ps. \<exists>v \<in> set (map snd (ph_sources p)).
         \<exists>x \<in> set_option (variable_of v). map_of mapping x \<noteq> None))"

definition replace_value_uses :: "(string \<times> ir_value) list \<Rightarrow> ssa_form \<Rightarrow> ssa_form \<times> bool" where
  "replace_value_uses mapping ssa =
     (if mapping = [] then (ssa, False)
      else
        (ssa\<lparr>sf_cfg := map_blocks (replace_value_uses_in_instruction mapping) (sf_cfg ssa),
             sf_phis := map (\<lambda>(k, ps). (k, map (map_sources (mapped_value mapping)) ps)) (sf_phis ssa)\<rparr>,
         uses_mapped mapping ssa))"

subsection \<open>Copy propagation\<close>

text \<open>The walk along a chain of copies; \<open>seen\<close> are the names passed so far.\<close>

function resolve_copy :: "(string \<times> ir_value) list \<Rightarrow> string list \<Rightarrow> ir_value \<Rightarrow> ir_value" where
  "resolve_copy m seen v =
     (case v of
        VName x \<Rightarrow>
          (case map_of m x of
             Some w \<Rightarrow> if x \<in> set seen then v else resolve_copy m (x # seen) w
           | None \<Rightarrow> v)
      | _ \<Rightarrow> v)"
  by pat_completeness auto
termination
proof (relation "measure (\<lambda>(m, seen, v). card (fst ` set m - set seen))", goal_cases)
  case (2 m seen v x w)
  then have "x \<in> fst ` set m - set seen" by (auto dest: map_of_SomeD intro: rev_image_eqI)
  then have "fst ` set m - set (x # seen) \<subset> fst ` set m - set seen" by auto
  then show ?case by (simp add: psubset_card_mono)
qed simp

declare resolve_copy.simps [simp del]

fun direct_copies :: "instr list \<Rightarrow> (string \<times> ir_value) list \<Rightarrow> (string \<times> ir_value) list" where
  "direct_copies [] m = m"
| "direct_copies (Copy d s # is) m =
     (if contains ssa_version_separator d \<and> variable_of s = None
      then direct_copies is (put_item d s m) else direct_copies is m)"
| "direct_copies (_ # is) m = direct_copies is m"

definition propagate_ssa_copies :: "ssa_form \<Rightarrow> ssa_form \<times> bool" where
  "propagate_ssa_copies ssa =
     (let direct = direct_copies
            (concat (map (\<lambda>k. b_instrs (g_store (sf_cfg ssa) ! k)) (g_order (sf_cfg ssa)))) []
      in if direct = [] then (ssa, False)
         else replace_value_uses (map (\<lambda>(k, v). (k, resolve_copy direct [k] v)) direct) ssa)"

subsection \<open>Trivial and dead phis\<close>

text \<open>None: two different values besides the phi itself; Some None: no value besides the phi itself.\<close>

fun unique_source :: "ir_value \<Rightarrow> ir_value option \<Rightarrow> ir_value list \<Rightarrow> ir_value option option" where
  "unique_source self unique [] = Some unique"
| "unique_source self unique (s # ss) =
     (if s = self then unique_source self unique ss
      else case unique of
        None \<Rightarrow> unique_source self (Some s) ss
      | Some u \<Rightarrow> if s \<noteq> u then None else unique_source self unique ss)"

definition trivial_value :: "phi \<Rightarrow> ir_value option" where
  "trivial_value p =
     Option.bind (unique_source (VName (ph_destination p)) None (map snd (ph_sources p))) (\<lambda>u. u)"

fun split_first :: "('a \<Rightarrow> 'b option) \<Rightarrow> 'a list \<Rightarrow> ('a list \<times> 'a \<times> 'b \<times> 'a list) option" where
  "split_first f [] = None"
| "split_first f (x # xs) =
     (case f x of
        Some y \<Rightarrow> Some ([], x, y, xs)
      | None \<Rightarrow> map_option (\<lambda>(pre, z). (x # pre, z)) (split_first f xs))"

text \<open>
  The next trivial phi of \<open>_find_trivial_phi\<close>, as the phi, its replacement and the phi map without it
  (an empty list is deleted).
\<close>

fun find_trivial_phi :: "(nat \<times> phi list) list \<Rightarrow> (phi \<times> ir_value \<times> (nat \<times> phi list) list) option" where
  "find_trivial_phi [] = None"
| "find_trivial_phi ((k, ps) # rest) =
     (case split_first trivial_value ps of
        Some (pre, p, v, post) \<Rightarrow>
          Some (p, v, if pre @ post = [] then rest else (k, pre @ post) # rest)
      | None \<Rightarrow> map_option (\<lambda>(p, v, rest'). (p, v, (k, ps) # rest')) (find_trivial_phi rest))"

definition phi_count :: "(nat \<times> phi list) list \<Rightarrow> nat" where
  "phi_count phis = sum_list (map (\<lambda>x. length (snd x)) phis)"

lemma split_first_length:
  "split_first f xs = Some (pre, x, y, post) \<Longrightarrow> length xs = Suc (length pre + length post)"
  by (induction xs arbitrary: pre) (auto split: option.splits)

lemma find_trivial_phi_count:
  "find_trivial_phi phis = Some (p, v, phis') \<Longrightarrow> phi_count phis = Suc (phi_count phis')"
  by (induction phis arbitrary: phis')
     (auto simp: phi_count_def dest!: split_first_length split: option.splits if_splits)

lemma phi_count_map_sources:
  "phi_count (map (\<lambda>(k, ps). (k, map f ps)) phis) = phi_count phis"
  by (induction phis) (auto simp: phi_count_def)

lemma phi_count_replace:
  "phi_count (sf_phis (fst (replace_value_uses mapping ssa))) = phi_count (sf_phis ssa)"
  by (simp add: replace_value_uses_def phi_count_map_sources)

function eliminate_trivial_phis :: "ssa_form \<Rightarrow> ssa_form \<times> bool" where
  "eliminate_trivial_phis ssa =
     (case find_trivial_phi (sf_phis ssa) of
        None \<Rightarrow> (ssa, False)
      | Some (p, v, phis') \<Rightarrow>
          (fst (eliminate_trivial_phis
             (fst (replace_value_uses [(ph_destination p, v)] (ssa\<lparr>sf_phis := phis'\<rparr>)))), True))"
  by pat_completeness auto
termination
  by (relation "measure (\<lambda>ssa. phi_count (sf_phis ssa))")
     (auto simp: phi_count_replace dest!: find_trivial_phi_count)

declare eliminate_trivial_phis.simps [simp del]

definition is_dead_phi :: "ssa_form \<Rightarrow> phi \<Rightarrow> bool" where
  "is_dead_phi ssa p = (collect_use_counts ssa (ph_destination p) = 0)"

definition without_dead :: "ssa_form \<Rightarrow> (nat \<times> phi list) list" where
  "without_dead ssa = filter (\<lambda>(k, ps). ps \<noteq> [])
     (map (\<lambda>(k, ps). (k, filter (\<lambda>p. \<not> is_dead_phi ssa p) ps)) (sf_phis ssa))"

lemma phi_count_filter:
  "phi_count (filter (\<lambda>(k, ps). ps \<noteq> []) phis) = phi_count phis"
  by (induction phis) (auto simp: phi_count_def)

lemma phi_count_filter_le: "phi_count (map (\<lambda>(k, ps). (k, filter P ps)) phis) \<le> phi_count phis"
proof (induction phis)
  case (Cons x phis)
  then show ?case by (cases x) (auto simp: phi_count_def intro!: add_mono)
qed (simp add: phi_count_def)

lemma phi_count_filter_less:
  "(k, ps) \<in> set phis \<Longrightarrow> p \<in> set ps \<Longrightarrow> \<not> P p \<Longrightarrow>
   phi_count (map (\<lambda>(k, ps). (k, filter P ps)) phis) < phi_count phis"
proof (induction phis)
  case (Cons x phis)
  show ?case
  proof (cases "x = (k, ps)")
    case True
    then have "length (filter P ps) < length ps" using Cons.prems by (simp add: length_filter_less)
    then show ?thesis using True phi_count_filter_le [of P phis] by (simp add: phi_count_def)
  next
    case False
    then show ?thesis using Cons by (cases x) (auto simp: phi_count_def intro!: add_le_less_mono)
  qed
qed simp

function eliminate_dead_phis :: "ssa_form \<Rightarrow> ssa_form \<times> bool" where
  "eliminate_dead_phis ssa =
     (if \<exists>(k, ps) \<in> set (sf_phis ssa). \<exists>p \<in> set ps. is_dead_phi ssa p
      then (fst (eliminate_dead_phis (ssa\<lparr>sf_phis := without_dead ssa\<rparr>)), True)
      else (ssa, False))"
  by pat_completeness auto
termination
proof (relation "measure (\<lambda>ssa. phi_count (sf_phis ssa))", goal_cases)
  case (2 ssa)
  then obtain k ps p where "(k, ps) \<in> set (sf_phis ssa)" "p \<in> set ps" "is_dead_phi ssa p" by auto
  then show ?case
    using phi_count_filter_less [of k ps "sf_phis ssa" p "\<lambda>p. \<not> is_dead_phi ssa p"]
    by (simp add: without_dead_def phi_count_filter)
qed simp

declare eliminate_dead_phis.simps [simp del]

subsection \<open>Redundant expressions\<close>

datatype operand_key = KInt int | KName string | KTaken string

definition commutative_operations :: "string set" where
  "commutative_operations = {''+'', ''*'', ''&'', ''|'', ''^'', ''=='', ''!=''}"

text \<open>\<open>_value_key\<close>; None is the failed assertion.\<close>

definition value_key :: "ir_value \<Rightarrow> operand_key option" where
  "value_key v =
     (case v of
        VInt n \<Rightarrow> Some (KInt n)
      | VName x \<Rightarrow> Some (KName x)
      | VAddr n \<Rightarrow> map_option KTaken (address_of_variable_name n))"

text \<open>\<open>_is_safe\<close>; None is the \<^verbatim>\<open>TypeError\<close> of testing for a substring in a syntax tree.\<close>

definition safe_operand :: "string list \<Rightarrow> ir_value \<Rightarrow> bool option" where
  "safe_operand unsafe_names v =
     (case v of
        VInt _ \<Rightarrow> Some True
      | VAddr n \<Rightarrow> (case address_of_variable_name n of Some _ \<Rightarrow> Some True | None \<Rightarrow> None)
      | VName x \<Rightarrow> Some (contains ssa_version_separator x \<or> x \<notin> set unsafe_names))"

text \<open>The order of the key tuples: the tags are \<open>a\<close>, \<open>i\<close> and \<open>s\<close>.\<close>

fun key_le :: "operand_key \<Rightarrow> operand_key \<Rightarrow> bool" where
  "key_le (KTaken x) (KTaken y) = (x \<le> y)"
| "key_le (KTaken _) _ = True"
| "key_le (KInt m) (KInt n) = (m \<le> n)"
| "key_le (KInt _) (KName _) = True"
| "key_le (KName x) (KName y) = (x \<le> y)"
| "key_le _ _ = False"

type_synonym numbering_key = "string \<times> operand_key \<times> operand_key"

definition expression_key :: "string list \<Rightarrow> ir_value \<Rightarrow> string \<Rightarrow> ir_value \<Rightarrow> numbering_key option option" where
  "expression_key unsafe_names left op right =
     Option.bind (safe_operand unsafe_names left) (\<lambda>sl.
       if \<not> sl then Some None
       else Option.bind (safe_operand unsafe_names right) (\<lambda>sr.
         if \<not> sr then Some None
         else Option.bind (value_key left) (\<lambda>lk. Option.bind (value_key right) (\<lambda>rk.
           Some (Some (if op \<in> commutative_operations \<and> \<not> key_le lk rk then (op, rk, lk) else (op, lk, rk)))))))"

text \<open>One instruction: the rewrite, whether it changed, and the key it makes available.\<close>

definition number_instruction ::
    "string list \<Rightarrow> (numbering_key \<times> string) list \<Rightarrow> instr \<Rightarrow> (instr \<times> bool \<times> (numbering_key \<times> string) list) option" where
  "number_instruction unsafe_names available i =
     (case i of
        BinaryOperation d l op r \<Rightarrow>
          map_option (\<lambda>ko. case ko of
              None \<Rightarrow> (i, False, [])
            | Some key \<Rightarrow>
                (case map_of available key of
                   Some prior \<Rightarrow> (Copy d (VName prior), True, [])
                 | None \<Rightarrow> (i, False, if contains ssa_version_separator d then [(key, d)] else [])))
            (expression_key unsafe_names l op r)
      | _ \<Rightarrow> Some (i, False, []))"

fun number_instructions ::
    "string list \<Rightarrow> (numbering_key \<times> string) list \<Rightarrow> instr list \<Rightarrow>
     (instr list \<times> bool \<times> (numbering_key \<times> string) list) option" where
  "number_instructions unsafe_names available [] = Some ([], False, available)"
| "number_instructions unsafe_names available (i # is) =
     Option.bind (number_instruction unsafe_names available i) (\<lambda>(i', changed, added).
       map_option (\<lambda>(is', changed', available'). (i' # is', changed \<or> changed', available'))
         (number_instructions unsafe_names (added @ available) is))"

text \<open>
  The walk over the dominator tree.  The code's stack visits the children of a block from the last to the
  first, each with what its dominators made available, which is what the recursion passes down; \<open>fuel\<close>
  bounds the depth of the tree by the number of blocks.
\<close>

fun number_block ::
    "nat \<Rightarrow> string list \<Rightarrow> (nat \<times> nat) list \<Rightarrow> (numbering_key \<times> string) list \<Rightarrow> nat \<Rightarrow> cfg \<times> bool \<Rightarrow> (cfg \<times> bool) option"
and number_children ::
    "nat \<Rightarrow> string list \<Rightarrow> (nat \<times> nat) list \<Rightarrow> (numbering_key \<times> string) list \<Rightarrow> nat list \<Rightarrow> cfg \<times> bool \<Rightarrow> (cfg \<times> bool) option" where
  "number_block 0 unsafe_names idom available k st = None"
| "number_block (Suc fuel) unsafe_names idom available k (g, changed) =
     Option.bind (number_instructions unsafe_names available (b_instrs (g_store g ! k))) (\<lambda>(is, changed', available').
       number_children fuel unsafe_names idom available' (rev (dominator_children idom k))
         (update_block k (\<lambda>bb. bb\<lparr>b_instrs := is\<rparr>) g, changed \<or> changed'))"
| "number_children fuel unsafe_names idom available [] st = Some st"
| "number_children fuel unsafe_names idom available (c # cs) st =
     Option.bind (number_block fuel unsafe_names idom available c st)
       (number_children fuel unsafe_names idom available cs)"

definition unsafe_names :: "cfg \<Rightarrow> string list" where
  "unsafe_names g = filter (\<lambda>x. \<not> contains ssa_version_separator x)
     (concat (map (\<lambda>k. destinations (b_instrs (g_store g ! k))) (g_order g)))"

definition eliminate_redundant_expressions :: "(nat \<times> nat) list \<Rightarrow> ssa_form \<Rightarrow> (ssa_form \<times> bool) option" where
  "eliminate_redundant_expressions idom ssa =
     (let g = sf_cfg ssa in
      map_option (\<lambda>(g', changed). (ssa\<lparr>sf_cfg := g'\<rparr>, changed))
        (number_block (Suc (length (g_store g))) (unsafe_names g) idom [] (g_entry g) (g, False)))"

subsection \<open>Destruction\<close>

text \<open>\<open>s.rpartition(sep)\<close>: the parts around the last occurrence, None when there is none.\<close>

fun last_split :: "string \<Rightarrow> string \<Rightarrow> (string \<times> string) option" where
  "last_split sep [] = None"
| "last_split sep (c # s) =
     (case last_split sep s of
        Some (p, q) \<Rightarrow> Some (c # p, q)
      | None \<Rightarrow> if starts_with sep (c # s) then Some ([], drop (length sep) (c # s)) else None)"

definition deversion_name :: "string \<Rightarrow> string" where
  "deversion_name name =
     (case last_split ssa_version_separator name of
        Some (base, digits) \<Rightarrow>
          if base \<noteq> [] \<and> digits \<noteq> [] \<and> list_all is_digit digits then base else name
      | None \<Rightarrow> name)"

fun deversion_value :: "ir_value \<Rightarrow> ir_value" where
  "deversion_value (VName x) = VName (deversion_name x)"
| "deversion_value v = v"

definition deversion_instruction :: "instr \<Rightarrow> instr" where
  "deversion_instruction i =
     (let rewritten = map_value_fields deversion_value i
      in case ssa_instruction_destination rewritten of
           Some d \<Rightarrow> if deversion_name d \<noteq> d then set_destination (deversion_name d) rewritten else rewritten
         | None \<Rightarrow> rewritten)"

definition deversion_phi :: "phi \<Rightarrow> phi" where
  "deversion_phi p = map_sources deversion_value (p\<lparr>ph_destination := deversion_name (ph_destination p)\<rparr>)"

definition deversion_ssa_form :: "ssa_form \<Rightarrow> ssa_form" where
  "deversion_ssa_form ssa =
     ssa\<lparr>sf_cfg := map_blocks deversion_instruction (sf_cfg ssa),
         sf_phis := map (\<lambda>(k, ps). (k, map deversion_phi ps)) (sf_phis ssa)\<rparr>"

definition append_copy :: "string \<Rightarrow> cfg \<Rightarrow> nat \<times> ir_value \<Rightarrow> cfg" where
  "append_copy d g x = (case x of (k, v) \<Rightarrow> update_block k (\<lambda>bb. bb\<lparr>b_instrs := b_instrs bb @ [Copy d v]\<rparr>) g)"

definition convert_from_ssa :: "ssa_form \<Rightarrow> cfg" where
  "convert_from_ssa ssa =
     foldl (\<lambda>g p. foldl (append_copy (ph_destination p)) g (ph_sources p)) (sf_cfg ssa)
       (concat (map snd (sf_phis ssa)))"

definition flatten_ssa_form :: "ssa_form \<Rightarrow> instr list" where
  "flatten_ssa_form ssa = flatten_cfg (convert_from_ssa ssa)"

fun drop_redundant_copies :: "instr list \<Rightarrow> instr list" where
  "drop_redundant_copies [] = []"
| "drop_redundant_copies (Copy d s # rest) =
     (if s = VName d then drop_redundant_copies rest
      else (case rest of
              Copy d' s' # _ \<Rightarrow>
                if d' = d \<and> s' \<noteq> VName d then drop_redundant_copies rest
                else Copy d s # drop_redundant_copies rest
            | _ \<Rightarrow> Copy d s # drop_redundant_copies rest))"
| "drop_redundant_copies (i # rest) = i # drop_redundant_copies rest"

subsection \<open>The driver\<close>

partial_function (option) ssa_loop :: "(nat \<times> nat) list \<Rightarrow> ssa_form \<Rightarrow> ssa_form option" where
  "ssa_loop idom ssa =
     (let (ssa1, propagated) = propagate_ssa_copies ssa;
          (ssa2, collapsed) = eliminate_trivial_phis ssa1
      in Option.bind (eliminate_redundant_expressions idom ssa2) (\<lambda>(ssa3, numbered).
           if propagated \<or> collapsed \<or> numbered then ssa_loop idom ssa3 else Some ssa3))"

declare ssa_loop.simps [code]

definition optimize_ssa :: "string list \<Rightarrow> instr list \<Rightarrow> instr list option" where
  "optimize_ssa excluded_names b =
     Option.bind (convert_to_ssa excluded_names b) (\<lambda>ssa.
       if sf_names ssa = [] then Some b
       else Option.bind (compute_dominators (sf_cfg ssa)) (\<lambda>idom.
         map_option (\<lambda>ssa'. drop_redundant_copies (flatten_ssa_form
             (deversion_ssa_form (fst (eliminate_dead_phis ssa')))))
           (ssa_loop idom ssa)))"

end
