(* ===== verification/Ssa_Renaming.thy ===== *)
theory Ssa_Renaming
  imports Ssa_Passes Cfg_Facts
begin

text \<open>
  Version names: \<open>name_ssaN\<close> is injective in both parts, and stripping the version gives the name back.
  What renaming does to a form: each version is assigned at most once.
\<close>

subsection \<open>Versions\<close>

lemma last_split_append: "last_split sep t = Some (p, q) \<Longrightarrow> last_split sep (s @ t) = Some (s @ p, q)"
  by (induction s) auto

lemma last_split_no_underscore: "CHR ''_'' \<notin> set s \<Longrightarrow> last_split ssa_version_separator s = None"
  by (induction s) (auto simp: starts_with_def ssa_version_separator_def)

lemma digit_not_underscore: "list_all is_digit s \<Longrightarrow> CHR ''_'' \<notin> set s"
  by (induction s) (auto simp: is_digit_def)

lemma last_split_version: "last_split ssa_version_separator (version x n) = Some (x, show_nat n)"
proof -
  have "CHR ''_'' \<notin> set (''ssa'' @ show_nat n)"
    using digit_not_underscore [of "show_nat n"] show_nat_digits [of n] by auto
  then have "last_split ssa_version_separator (''ssa'' @ show_nat n) = None" by (rule last_split_no_underscore)
  then have "last_split ssa_version_separator (ssa_version_separator @ show_nat n) = Some ([], show_nat n)"
    by (simp add: ssa_version_separator_def starts_with_def)
  from last_split_append [OF this, of x] show ?thesis by (simp add: version_def)
qed

lemma deversion_version_name: "x \<noteq> [] \<Longrightarrow> deversion_name (version x n) = x"
  using show_nat_digits [of n] by (simp add: deversion_name_def last_split_version)

lemma version_inj: "version x m = version y n \<longleftrightarrow> x = y \<and> m = n"
proof
  assume "version x m = version y n"
  then have "Some (x, show_nat m) = Some (y, show_nat n)" by (metis last_split_version)
  then show "x = y \<and> m = n" using show_nat_inj by simp
qed simp

lemma version_not_clean: "x \<noteq> [] \<Longrightarrow> deversion_name (version x n) \<noteq> version x n"
  using deversion_version_name [of x n] by (simp add: version_def ssa_version_separator_def)

lemma contains_append: "contains p s \<Longrightarrow> contains p (r @ s)"
  by (induction r) auto

lemma contains_version: "contains ssa_version_separator (version x n)"
proof -
  have "contains ssa_version_separator (ssa_version_separator @ show_nat n)"
    by (simp add: ssa_version_separator_def starts_with_def)
  then show ?thesis using contains_append [of _ _ x] by (simp add: version_def)
qed

text \<open>
  Version names are sound: two versions are equal only when name and number are, every version carries the
  separator the passes look for, and \<open>_deversion_name\<close> recovers the name.
\<close>

theorem version_roundtrip:
  assumes "x \<noteq> []"
  shows "deversion_name (version x n) = x \<and> contains ssa_version_separator (version x n) \<and>
    (version x n = version y m \<longleftrightarrow> x = y \<and> n = m)"
  using deversion_version_name [OF assms] contains_version version_inj by blast

lemma version_roundtrip_witness: "deversion_name (version ''i_ssa'' 12) = ''i_ssa''"
  using version_roundtrip [of "''i_ssa''" 12] by simp

subsection \<open>Counting definitions\<close>

text \<open>How often a name is written: by an instruction of a block or by a phi.\<close>

definition block_defs :: "string \<Rightarrow> block \<Rightarrow> nat" where
  "block_defs v bb = count_list (destinations (b_instrs bb)) v"

definition store_defs :: "string \<Rightarrow> cfg \<Rightarrow> nat" where
  "store_defs v g = sum_list (map (block_defs v) (g_store g))"

definition phi_defs :: "string \<Rightarrow> (nat \<times> phi list) list \<Rightarrow> nat" where
  "phi_defs v phis = sum_list (map (\<lambda>x. count_list (map ph_destination (snd x)) v) phis)"

definition defs_of :: "string \<Rightarrow> renaming \<Rightarrow> nat" where
  "defs_of v st = store_defs v (rn_cfg st) + phi_defs v (rn_phis st)"

text \<open>Going from \<open>st\<close> to \<open>st'\<close> adds at most one definition of each version handed out in between.\<close>

definition fresh_range :: "renaming \<Rightarrow> renaming \<Rightarrow> string \<Rightarrow> nat \<Rightarrow> nat" where
  "fresh_range st st' x n = (if rn_counter st x \<le> n \<and> n < rn_counter st' x then 1 else 0)"

definition adds_fresh :: "renaming \<Rightarrow> renaming \<Rightarrow> bool" where
  "adds_fresh st st' = (\<forall>x. rn_counter st x \<le> rn_counter st' x \<and>
     (\<forall>n. defs_of (version x n) st' \<le> defs_of (version x n) st + fresh_range st st' x n))"

lemma adds_fresh_same: "rn_counter st' = rn_counter st \<Longrightarrow> (\<And>v. defs_of v st' = defs_of v st) \<Longrightarrow> adds_fresh st st'"
  by (simp add: adds_fresh_def)

lemma fresh_range_trans:
  "rn_counter st1 x \<le> rn_counter st2 x \<Longrightarrow> rn_counter st2 x \<le> rn_counter st3 x \<Longrightarrow>
   fresh_range st1 st2 x n + fresh_range st2 st3 x n = fresh_range st1 st3 x n"
  by (simp add: fresh_range_def)

lemma adds_fresh_trans: "adds_fresh st1 st2 \<Longrightarrow> adds_fresh st2 st3 \<Longrightarrow> adds_fresh st1 st3"
  unfolding adds_fresh_def
proof (intro allI conjI)
  fix x n
  assume 1: "\<forall>x. rn_counter st1 x \<le> rn_counter st2 x \<and>
      (\<forall>n. defs_of (version x n) st2 \<le> defs_of (version x n) st1 + fresh_range st1 st2 x n)"
    and 2: "\<forall>x. rn_counter st2 x \<le> rn_counter st3 x \<and>
      (\<forall>n. defs_of (version x n) st3 \<le> defs_of (version x n) st2 + fresh_range st2 st3 x n)"
  have c: "rn_counter st1 x \<le> rn_counter st2 x" "rn_counter st2 x \<le> rn_counter st3 x" using 1 2 by blast+
  show "rn_counter st1 x \<le> rn_counter st3 x" using c by simp
  have "defs_of (version x n) st2 \<le> defs_of (version x n) st1 + fresh_range st1 st2 x n"
    "defs_of (version x n) st3 \<le> defs_of (version x n) st2 + fresh_range st2 st3 x n" using 1 2 by blast+
  then show "defs_of (version x n) st3 \<le> defs_of (version x n) st1 + fresh_range st1 st3 x n"
    using fresh_range_trans [OF c, of n] by linarith
qed

subsection \<open>One block\<close>

lemma fresh_version_simps [simp]:
  "fst (fresh_version x st) = version x (rn_counter st x)"
  "rn_counter (snd (fresh_version x st)) = (rn_counter st)(x := Suc (rn_counter st x))"
  "rn_cfg (snd (fresh_version x st)) = rn_cfg st" "rn_phis (snd (fresh_version x st)) = rn_phis st"
  by (simp_all add: fresh_version_def Let_def)

lemma destination_map_value_fields [simp]:
  "ssa_instruction_destination (map_value_fields f i) = ssa_instruction_destination i"
  by (cases i) auto

lemma destination_substitute_operands [simp]:
  "ssa_instruction_destination (substitute_value_operands l names i) = ssa_instruction_destination i"
  by (simp add: substitute_value_operands_def)

lemma destination_set_destination [simp]:
  "ssa_instruction_destination i = Some d \<Longrightarrow> ssa_instruction_destination (set_destination d' i) = Some d'"
  by (cases i) auto

text \<open>A list of new definitions in place of old ones, with the counters before and after.\<close>

definition renames_defs :: "string list \<Rightarrow> string list \<Rightarrow> renaming \<Rightarrow> renaming \<Rightarrow> bool" where
  "renames_defs old new st st' =
     (rn_cfg st' = rn_cfg st \<and> rn_phis st' = rn_phis st \<and>
      (\<forall>x. rn_counter st x \<le> rn_counter st' x \<and>
        (\<forall>n. count_list new (version x n) \<le> count_list old (version x n) + fresh_range st st' x n)))"

lemma renames_defs_append:
  assumes "renames_defs old1 new1 st1 st2" "renames_defs old2 new2 st2 st3"
  shows "renames_defs (old1 @ old2) (new1 @ new2) st1 st3"
  unfolding renames_defs_def
proof (intro allI conjI)
  fix x n
  have c: "rn_counter st1 x \<le> rn_counter st2 x" "rn_counter st2 x \<le> rn_counter st3 x"
    using assms by (auto simp: renames_defs_def)
  show "rn_counter st1 x \<le> rn_counter st3 x" using c by simp
  have "count_list new1 (version x n) \<le> count_list old1 (version x n) + fresh_range st1 st2 x n"
    "count_list new2 (version x n) \<le> count_list old2 (version x n) + fresh_range st2 st3 x n"
    using assms by (auto simp: renames_defs_def)
  then show "count_list (new1 @ new2) (version x n) \<le>
      count_list (old1 @ old2) (version x n) + fresh_range st1 st3 x n"
    using fresh_range_trans [OF c, of n] by simp
qed (use assms in \<open>auto simp: renames_defs_def\<close>)

lemma renames_defs_refl: "renames_defs xs xs st st"
  by (simp add: renames_defs_def)

lemma renames_defs_fresh: "renames_defs [d] [fst (fresh_version x st)] st (snd (fresh_version x st))"
  by (auto simp: renames_defs_def fresh_range_def version_inj)

lemma rename_instruction_defs:
  assumes "rename_instruction names i st = (i', pushed, st')"
  shows "renames_defs (destinations [i]) (destinations [i']) st st'"
proof (cases "ssa_instruction_destination i")
  case None
  then show ?thesis using assms
    by (auto simp: rename_instruction_def Let_def destinations_def renames_defs_refl)
next
  case (Some d)
  obtain v st1 where f: "fresh_version d st = (v, st1)" by (cases "fresh_version d st")
  show ?thesis
  proof (cases "d \<in> set names")
    case True
    then have "i' = set_destination v (substitute_value_operands (lookup_version st) names i)" "st' = st1"
      using assms Some f by (auto simp: rename_instruction_def Let_def)
    then show ?thesis using renames_defs_fresh [of d d st] f Some by (simp add: destinations_def)
  next
    case False
    then show ?thesis using assms Some
      by (auto simp: rename_instruction_def Let_def destinations_def renames_defs_refl)
  qed
qed

lemma destinations_Cons: "destinations (i # is) = destinations [i] @ destinations is"
  by (simp add: destinations_def)

lemma rename_instructions_defs:
  "rename_instructions names is st = (is', pushed, st') \<Longrightarrow> renames_defs (destinations is) (destinations is') st st'"
proof (induction "is" arbitrary: st is' pushed st')
  case Nil
  then show ?case by (simp add: renames_defs_refl)
next
  case (Cons i "is")
  obtain i1 p1 st1 where 1: "rename_instruction names i st = (i1, p1, st1)" by (cases "rename_instruction names i st")
  obtain is2 p2 st2 where 2: "rename_instructions names is st1 = (is2, p2, st2)"
    by (cases "rename_instructions names is st1")
  have eq: "is' = i1 # is2" "st' = st2" using Cons.prems 1 2 by auto
  show ?case
    using renames_defs_append [OF rename_instruction_defs [OF 1] Cons.IH [OF 2]]
    unfolding eq destinations_Cons [of i "is"] destinations_Cons [of i1 is2] .
qed

lemma rename_phis_defs:
  "rename_phis ps st = (ps', pushed, st') \<Longrightarrow> renames_defs (map ph_destination ps) (map ph_destination ps') st st'"
proof (induction ps arbitrary: st ps' pushed st')
  case Nil
  then show ?case by (simp add: renames_defs_refl)
next
  case (Cons p ps)
  obtain v st1 where 1: "fresh_version (ph_original p) st = (v, st1)" by (cases "fresh_version (ph_original p) st")
  obtain ps2 p2 st2 where 2: "rename_phis ps st1 = (ps2, p2, st2)" by (cases "rename_phis ps st1")
  have "renames_defs [ph_destination p] [v] st st1"
    using renames_defs_fresh [of "ph_destination p" "ph_original p" st] 1 by simp
  moreover have "ps' = p\<lparr>ph_destination := v\<rparr> # ps2" "st' = st2" using Cons.prems 1 2 by auto
  ultimately show ?case using renames_defs_append [OF _ Cons.IH [OF 2]] by fastforce
qed

subsection \<open>The graph and the phi map\<close>

lemma store_defs_update:
  "k < length (g_store g) \<Longrightarrow>
   store_defs v (update_block k f g) + block_defs v (g_store g ! k) =
     store_defs v g + block_defs v (f (g_store g ! k))"
proof -
  assume k: "k < length (g_store g)"
  have "map (block_defs v) (g_store g) ! k \<le> sum_list (map (block_defs v) (g_store g))"
    by (rule elem_le_sum_list) (simp add: k)
  then show ?thesis using k
    by (simp add: store_defs_def update_block_def map_update sum_list_update)
qed

lemma phi_defs_put_item:
  "map_of m k = Some ps \<Longrightarrow>
   phi_defs v (put_item k ps' m) + count_list (map ph_destination ps) v =
     phi_defs v m + count_list (map ph_destination ps') v"
  by (induction m) (auto simp: phi_defs_def split: if_splits)

lemma feed_successor_defs [simp]:
  "defs_of v (feed_successor k st s) = defs_of v st"
  "rn_counter (feed_successor k st s) = rn_counter st" "rn_cfg (feed_successor k st s) = rn_cfg st"
  "rn_stack (feed_successor k st s) = rn_stack st"
proof -
  define ps where "ps = map (\<lambda>p. p\<lparr>ph_sources := put_item k (VName (lookup_version st (ph_original p))) (ph_sources p)\<rparr>)
         (items_of s (rn_phis st))"
  have "map ph_destination ps = map ph_destination (items_of s (rn_phis st))" by (simp add: ps_def)
  then have "phi_defs v (replace_items s ps (rn_phis st)) = phi_defs v (rn_phis st)"
    using phi_defs_put_item [of "rn_phis st" s _ v ps]
    by (auto simp: replace_items_def items_of_def split: option.splits)
  then show "defs_of v (feed_successor k st s) = defs_of v st"
    by (simp add: feed_successor_def ps_def defs_of_def)
qed (simp_all add: feed_successor_def)

lemma feed_successors_defs [simp]:
  "defs_of v (foldl (feed_successor k) st ss) = defs_of v st"
  "rn_counter (foldl (feed_successor k) st ss) = rn_counter st"
  "rn_cfg (foldl (feed_successor k) st ss) = rn_cfg st"
  "rn_stack (foldl (feed_successor k) st ss) = rn_stack st"
  by (induction ss arbitrary: st) simp_all

lemma pop_versions_simps [simp]:
  "rn_counter (pop_versions pushed st) = rn_counter st" "rn_cfg (pop_versions pushed st) = rn_cfg st"
  "rn_phis (pop_versions pushed st) = rn_phis st"
  unfolding pop_versions_def by (induction pushed arbitrary: st) simp_all

lemma pop_versions_adds_fresh: "adds_fresh st (pop_versions pushed st)"
  by (rule adds_fresh_same) (simp_all add: defs_of_def)

lemma enter_block_adds_fresh:
  assumes "enter_block names k st = (pushed, st')"
  shows "adds_fresh st st'"
proof -
  obtain ps p1 st1 where 1: "rename_phis (items_of k (rn_phis st)) st = (ps, p1, st1)"
    by (cases "rename_phis (items_of k (rn_phis st)) st")
  define st2 where "st2 = st1\<lparr>rn_phis := replace_items k ps (rn_phis st1)\<rparr>"
  define bb where "bb = g_store (rn_cfg st2) ! k"
  obtain js p2 st3 where 3: "rename_instructions names (b_instrs bb) st2 = (js, p2, st3)"
    by (cases "rename_instructions names (b_instrs bb) st2")
  define tm where "tm = map_option (substitute_value_operands (lookup_version st3) names) (b_term bb)"
  define st4 where "st4 = st3\<lparr>rn_cfg := update_block k (\<lambda>bb. bb\<lparr>b_instrs := js, b_term := tm\<rparr>) (rn_cfg st3)\<rparr>"
  have st': "st' = foldl (feed_successor k) st4 (b_succs bb)"
    using assms unfolding enter_block_def 1 Let_def prod.case st2_def [symmetric] bb_def [symmetric] 3
      tm_def [symmetric] st4_def [symmetric] by simp
  note r1 = rename_phis_defs [OF 1] and r3 = rename_instructions_defs [OF 3]
  have "adds_fresh st st2"
    unfolding adds_fresh_def
  proof (intro allI conjI)
    fix x n
    show "rn_counter st x \<le> rn_counter st2 x" using r1 by (simp add: renames_defs_def st2_def)
    have "phi_defs (version x n) (replace_items k ps (rn_phis st)) \<le> phi_defs (version x n) (rn_phis st) + fresh_range st st1 x n"
    proof (cases "map_of (rn_phis st) k")
      case (Some ps0)
      have "count_list (map ph_destination ps) (version x n) \<le>
          count_list (map ph_destination ps0) (version x n) + fresh_range st st1 x n"
        using r1 Some by (simp add: renames_defs_def items_of_def)
      then show ?thesis using phi_defs_put_item [OF Some, of "version x n" ps] Some
        by (simp add: replace_items_def)
    qed (simp add: replace_items_def)
    then show "defs_of (version x n) st2 \<le> defs_of (version x n) st + fresh_range st st2 x n"
      using r1 by (simp add: defs_of_def st2_def renames_defs_def fresh_range_def)
  qed
  moreover have "adds_fresh st2 st4"
    unfolding adds_fresh_def
  proof (intro allI conjI)
    fix x n
    show "rn_counter st2 x \<le> rn_counter st4 x" using r3 by (simp add: renames_defs_def st4_def)
    have "count_list (destinations js) (version x n) \<le>
        count_list (destinations (b_instrs bb)) (version x n) + fresh_range st2 st3 x n"
      using r3 by (simp add: renames_defs_def)
    then have "store_defs (version x n) (rn_cfg st4) \<le> store_defs (version x n) (rn_cfg st2) + fresh_range st2 st3 x n"
    proof (cases "k < length (g_store (rn_cfg st2))")
      case True
      have "rn_cfg st3 = rn_cfg st2" using r3 by (simp add: renames_defs_def)
      then show ?thesis
        using store_defs_update [OF True, of "version x n" "\<lambda>bb. bb\<lparr>b_instrs := js, b_term := tm\<rparr>"]
          \<open>count_list (destinations js) (version x n) \<le> _\<close>
        by (simp add: st4_def block_defs_def bb_def)
    next
      case False
      then show ?thesis using r3 by (simp add: st4_def renames_defs_def update_block_def)
    qed
    then show "defs_of (version x n) st4 \<le> defs_of (version x n) st2 + fresh_range st2 st4 x n"
      using r3 by (simp add: defs_of_def st4_def renames_defs_def fresh_range_def)
  qed
  moreover have "adds_fresh st4 st'" unfolding st' by (rule adds_fresh_same) simp_all
  ultimately show ?thesis by (blast intro: adds_fresh_trans)
qed

lemma rename_block_adds_fresh:
  "rename_block fuel names idom k st = Some st' \<Longrightarrow> adds_fresh st st'"
  "rename_children fuel names idom ks st = Some st' \<Longrightarrow> adds_fresh st st'"
proof (induction fuel names idom k st and fuel names idom ks st arbitrary: st' and st'
    rule: rename_block_rename_children.induct)
  case (2 fuel names idom k st)
  obtain pushed st1 where e: "enter_block names k st = (pushed, st1)" by (cases "enter_block names k st")
  obtain st2 where c: "rename_children fuel names idom (dominator_children idom k) st1 = Some st2"
    and "st' = pop_versions pushed st2"
    using "2.prems" e by auto
  then show ?case
    using adds_fresh_trans [OF adds_fresh_trans [OF enter_block_adds_fresh [OF e] "2.IH" [OF e [symmetric] refl c]]]
      pop_versions_adds_fresh by blast
next
  case (3 fuel names idom st)
  then show ?case by (simp add: adds_fresh_def)
next
  case (4 fuel names idom c cs st)
  then obtain st1 where "rename_block fuel names idom c st = Some st1" "rename_children fuel names idom cs st1 = Some st'"
    by (auto simp: bind_eq_Some_conv)
  then show ?case using "4.IH" adds_fresh_trans by blast
qed simp

subsection \<open>Single assignment\<close>

text \<open>The definitions of a form, and those of a list of instructions.\<close>

definition form_defs :: "string \<Rightarrow> ssa_form \<Rightarrow> nat" where
  "form_defs v ssa = store_defs v (sf_cfg ssa) + phi_defs v (sf_phis ssa)"

definition clean_names :: "string list \<Rightarrow> bool" where
  "clean_names xs = (\<forall>x \<in> set xs. x \<noteq> [] \<and> deversion_name x = x)"

text \<open>Splitting edges leaves the instructions of the blocks alone.\<close>

lemma update_block_instrs:
  "(\<And>bb. b_instrs (f bb) = b_instrs bb) \<Longrightarrow>
   map b_instrs (g_store (update_block k f g)) = map b_instrs (g_store g)"
  by (simp add: update_block_def map_update list_update_same_conv)

lemma materialize_jumps_instrs:
  "map b_instrs (g_store (materialize_jumps ls order g)) = map b_instrs (g_store g)"
  by (induction ls order g rule: materialize_jumps.induct)
     (auto simp: materialize_def update_block_instrs)

lemma split_edge_instrs: "map b_instrs (g_store (split_edge c p s g)) = map b_instrs (g_store g) @ [[]]"
  by (simp add: split_edge_def Let_def update_block_instrs)

lemma split_edges_instrs:
  "set (map b_instrs (g_store (split_edges c es g))) \<subseteq> insert [] (set (map b_instrs (g_store g)))"
proof (induction c es g rule: split_edges.induct)
  case (2 c p s rest g)
  have "set (map b_instrs (g_store (split_edge c p s g))) = insert [] (set (map b_instrs (g_store g)))"
    unfolding split_edge_instrs by simp
  then show ?case using 2 by (simp only: split_edges.simps) blast
qed auto

lemma split_critical_edges_instrs:
  "set (map b_instrs (g_store (split_critical_edges g))) \<subseteq> insert [] (set (map b_instrs (g_store g)))"
proof (cases "critical_edges g = []")
  case False
  have "set (map b_instrs (g_store (split_critical_edges g))) \<subseteq>
      insert [] (set (map b_instrs (g_store (materialize_jumps (map (\<lambda>(_, s). label_of g s) (critical_edges g)) (g_order g) g))))"
    using False split_edges_instrs by (simp add: split_critical_edges_def Let_def)
  then show ?thesis unfolding materialize_jumps_instrs .
qed (auto simp: split_critical_edges_def)

lemma make_block_instrs: "set (b_instrs (make_block l sl)) \<subseteq> set sl"
proof -
  have "set (case sl of Label _ # rest \<Rightarrow> rest | _ \<Rightarrow> sl) \<subseteq> set sl"
    by (cases sl; cases "hd sl") auto
  then show ?thesis by (auto simp: make_block_def Let_def dest: in_set_butlastD)
qed

lemma build_blocks_instrs: "bb \<in> set (build_blocks b starts) \<Longrightarrow> set (b_instrs bb) \<subseteq> set b"
proof (induction starts)
  case (Cons x rest)
  obtain k l where x: "x = (k, l)" by (cases x)
  have sl: "set (slice_of b k (slice_end b rest)) \<subseteq> set b"
    by (auto simp: slice_of_def dest: in_set_takeD in_set_dropD)
  have "bb = make_block l (slice_of b k (slice_end b rest)) \<or> bb \<in> set (build_blocks b rest)"
    using Cons.prems by (auto simp: x build_blocks_Cons)
  then show ?case using Cons.IH make_block_instrs [of l "slice_of b k (slice_end b rest)"] sl by blast
qed simp

lemma build_cfg_instrs:
  assumes "build_cfg b = Some g" "is \<in> set (map b_instrs (g_store g))"
  shows "set is \<subseteq> set b"
proof -
  obtain k where k: "k < length (g_store g)" "is = b_instrs (g_store g ! k)"
    using assms(2) by (auto simp: in_set_conv_nth)
  then show ?thesis
    using build_cfg_block(1) [OF assms(1)] build_cfg_block(5) [OF assms(1), of k] build_blocks_instrs nth_mem
    by metis
qed

subsection \<open>Placed phis\<close>

text \<open>Every phi is for a name of the list, which it still carries as its destination, and has no source yet.\<close>

definition placed :: "string set \<Rightarrow> phi \<Rightarrow> bool" where
  "placed N p = (ph_original p \<in> N \<and> ph_destination p = ph_original p \<and> ph_sources p = [])"

definition phis_named :: "string set \<Rightarrow> (nat \<times> phi list) list \<Rightarrow> bool" where
  "phis_named N phis = (\<forall>x \<in> set phis. \<forall>p \<in> set (snd x). placed N p)"

lemma put_item_values: "x \<in> set (put_item k v m) \<Longrightarrow> x = (k, v) \<or> x \<in> set m"
  by (induction k v m rule: put_item.induct) (auto split: if_splits)

lemma phis_named_append_item:
  "phis_named N phis \<Longrightarrow> placed N p \<Longrightarrow> phis_named N (append_item k p phis)"
  unfolding phis_named_def append_item_def
proof
  fix x
  assume N: "\<forall>x \<in> set phis. \<forall>p \<in> set (snd x). placed N p" "placed N p"
    and x: "x \<in> set (put_item k ((case map_of phis k of None \<Rightarrow> [] | Some vs \<Rightarrow> vs) @ [p]) phis)"
  have "\<forall>p \<in> set (case map_of phis k of None \<Rightarrow> [] | Some vs \<Rightarrow> vs). placed N p"
  proof (cases "map_of phis k")
    case (Some vs)
    then show ?thesis using N(1) map_of_SomeD [OF Some] by fastforce
  qed simp
  then have "\<forall>p' \<in> set ((case map_of phis k of None \<Rightarrow> [] | Some vs \<Rightarrow> vs) @ [p]). placed N p'"
    using N(2) by simp
  moreover consider "snd x = (case map_of phis k of None \<Rightarrow> [] | Some vs \<Rightarrow> vs) @ [p]" | "x \<in> set phis"
    using put_item_values [OF x] by force
  ultimately show "\<forall>p \<in> set (snd x). placed N p" using N(1) by cases metis+
qed

lemma place_in_named:
  "place_in name defs fs (phis, have, wl) = (phis', have', wl') \<Longrightarrow> name \<in> N \<Longrightarrow> phis_named N phis \<Longrightarrow> phis_named N phis'"
  by (induction fs arbitrary: phis "have" wl) (auto simp: phis_named_append_item placed_def split: if_splits)

lemma place_name_named:
  assumes "place_name g frontiers name defs (phis, have, wl) = Some phis'" "name \<in> N" "phis_named N phis"
  shows "phis_named N phis'"
proof -
  have "name \<in> N \<longrightarrow> phis_named N (fst (phis, have, wl)) \<longrightarrow> phis_named N phis'"
  proof (rule place_name.raw_induct [where P = "\<lambda>g frontiers name defs st y.
      name \<in> N \<longrightarrow> phis_named N (fst st) \<longrightarrow> phis_named N y", OF _ assms(1)], goal_cases)
    case (1 f g frontiers name defs st y)
    obtain phis "have" wl where st: "st = (phis, have, wl)" by (cases st)
    show ?case
    proof (cases "wl = []")
      case False
      obtain phis1 have1 wl1 where p: "place_in name defs (sort_key (label_of g) (frontiers (last wl))) (phis, have, butlast wl) =
          (phis1, have1, wl1)"
        by (cases "place_in name defs (sort_key (label_of g) (frontiers (last wl))) (phis, have, butlast wl)")
      then have "f g frontiers name defs (phis1, have1, wl1) = Some y" using 1(2) False st by simp
      from 1(1) [OF this] show ?thesis using place_in_named [OF p] st by auto
    qed (use 1(2) st in simp)
  qed
  then show ?thesis using assms by simp
qed

lemma place_names_named:
  "place_names g frontiers defs phis = Some phis' \<Longrightarrow> fst ` set defs \<subseteq> N \<Longrightarrow> phis_named N phis \<Longrightarrow> phis_named N phis'"
proof (induction g frontiers defs phis rule: place_names.induct)
  case (2 g frontiers name defs rest phis)
  then obtain phis1 where "place_name g frontiers name defs (phis, [], sort_key (label_of g) defs) = Some phis1"
    "place_names g frontiers rest phis1 = Some phis'" by (auto simp: bind_eq_Some_conv)
  then show ?case using 2 place_name_named by auto
qed simp

lemma phi_defs_unnamed: "phis_named N phis \<Longrightarrow> v \<notin> N \<Longrightarrow> phi_defs v phis = 0"
  unfolding phi_defs_def phis_named_def placed_def
  by (fastforce simp: sum_list_eq_0_iff count_list_0_iff)

subsection \<open>The construction\<close>

lemma convert_to_ssa_cases:
  assumes "convert_to_ssa ex b = Some ssa" "sf_names ssa \<noteq> []"
  obtains g0 idom phis where "build_cfg b = Some g0" "sf_names ssa = ssa_safe_names ex b"
    "phis_named (set (sf_names ssa)) phis"
    "rename_variables (split_critical_edges g0) idom phis (sf_names ssa) = Some (sf_cfg ssa, sf_phis ssa)"
proof -
  obtain g0 where g0: "build_cfg b = Some g0" using assms by (auto simp: convert_to_ssa_def bind_eq_Some_conv)
  define names where "names = ssa_safe_names ex b"
  define g where "g = split_critical_edges g0"
  define definitions where "definitions = map (\<lambda>x. (x, definition_blocks g x)) names"
  have "\<not> ((\<exists>i \<in> set b. is_inline_asm i) \<or> names = [])"
  proof
    assume "(\<exists>i \<in> set b. is_inline_asm i) \<or> names = []"
    then have "ssa = \<lparr>sf_cfg = g0, sf_phis = [], sf_names = []\<rparr>"
      using assms(1) g0 by (simp add: convert_to_ssa_def names_def)
    then show False using assms(2) by simp
  qed
  then obtain idom frontiers phis where
    p: "place_phi_nodes g definitions frontiers = Some phis"
    and r: "\<exists>g' phis'. rename_variables g idom phis names = Some (g', phis') \<and>
        ssa = \<lparr>sf_cfg = g', sf_phis = phis', sf_names = names\<rparr>"
    using assms g0 unfolding convert_to_ssa_def names_def [symmetric]
    by (auto simp: g_def [symmetric] definitions_def [symmetric] Let_def bind_eq_Some_conv)
  have "phis_named (set names) phis"
    by (rule place_names_named [OF p [unfolded place_phi_nodes_def]])
       (auto simp: definitions_def phis_named_def)
  then show thesis using that g0 r by (auto simp: names_def g_def)
qed

lemma convert_to_ssa_plain:
  assumes "convert_to_ssa ex b = Some ssa" "sf_names ssa = []"
  obtains g0 where "build_cfg b = Some g0" "sf_cfg ssa = g0" "sf_phis ssa = []"
proof -
  obtain g0 where g0: "build_cfg b = Some g0" using assms by (auto simp: convert_to_ssa_def bind_eq_Some_conv)
  define names where "names = ssa_safe_names ex b"
  have "(\<exists>i \<in> set b. is_inline_asm i) \<or> names = []"
  proof (rule ccontr)
    assume n: "\<not> ((\<exists>i \<in> set b. is_inline_asm i) \<or> names = [])"
    then have "sf_names ssa = names"
      using assms(1) g0 unfolding convert_to_ssa_def names_def [symmetric]
      by (auto simp: Let_def bind_eq_Some_conv)
    then show False using n assms(2) by simp
  qed
  then have "ssa = \<lparr>sf_cfg = g0, sf_phis = [], sf_names = []\<rparr>"
    using assms(1) g0 by (simp add: convert_to_ssa_def names_def)
  then show thesis using that g0 by simp
qed

lemma destinations_subset: "set is \<subseteq> set b \<Longrightarrow> set (destinations is) \<subseteq> set (destinations b)"
  by (auto simp: destinations_def)

lemma store_defs_zero:
  assumes "\<And>is. is \<in> set (map b_instrs (g_store g)) \<Longrightarrow> v \<notin> set (destinations is)"
  shows "store_defs v g = 0"
  using assms by (auto simp: store_defs_def block_defs_def sum_list_eq_0_iff count_list_0_iff)

lemma clean_version: "clean_names xs \<Longrightarrow> x \<noteq> [] \<Longrightarrow> version x n \<notin> set xs"
  using version_not_clean by (auto simp: clean_names_def)

text \<open>
  C3. Conversion reaches static single assignment: in the form, each version of each name is written at most
  once, by one instruction or one phi, for every body whose own destinations carry no version.
\<close>

theorem ssa_single_assignment:
  assumes "convert_to_ssa ex b = Some ssa" "clean_names (destinations b)" "x \<noteq> []"
  shows "form_defs (version x n) ssa \<le> 1"
proof (cases "sf_names ssa = []")
  case True
  then obtain g0 where g0: "build_cfg b = Some g0" "sf_cfg ssa = g0" "sf_phis ssa = []"
    using convert_to_ssa_plain [OF assms(1)] by blast
  have "store_defs (version x n) g0 = 0"
    using build_cfg_instrs [OF g0(1)] destinations_subset clean_version [OF assms(2,3)]
    by (intro store_defs_zero) blast
  then show ?thesis using g0 by (simp add: form_defs_def phi_defs_def)
next
  case False
  then obtain g0 idom phis where g0: "build_cfg b = Some g0" and names: "sf_names ssa = ssa_safe_names ex b"
    and phis: "phis_named (set (sf_names ssa)) phis"
    and ren: "rename_variables (split_critical_edges g0) idom phis (sf_names ssa) = Some (sf_cfg ssa, sf_phis ssa)"
    using convert_to_ssa_cases [OF assms(1)] by blast
  define g where "g = split_critical_edges g0"
  define st where "st = \<lparr>rn_counter = \<lambda>_. 0, rn_stack = \<lambda>_. [], rn_cfg = g, rn_phis = phis\<rparr>"
  obtain st' where st': "rename_block (Suc (length (g_store g))) (sf_names ssa) idom (g_entry g) st = Some st'"
    "sf_cfg ssa = rn_cfg st'" "sf_phis ssa = rn_phis st'"
    using ren by (auto simp: rename_variables_def st_def g_def)
  have "version x n \<notin> set (destinations is)" if "is \<in> set (map b_instrs (g_store g))" for "is"
  proof -
    have "is = [] \<or> set is \<subseteq> set b"
      using that split_critical_edges_instrs [of g0] build_cfg_instrs [OF g0] unfolding g_def by blast
    then show ?thesis using clean_version [OF assms(2,3)] destinations_subset [of "is" b]
      by (auto simp: destinations_def)
  qed
  then have "store_defs (version x n) g = 0" by (rule store_defs_zero)
  moreover have "version x n \<notin> set (sf_names ssa)"
    using clean_version [OF assms(2,3)] names by (auto simp: ssa_safe_names_def Let_def)
  then have "phi_defs (version x n) phis = 0" by (rule phi_defs_unnamed [OF phis])
  ultimately have "defs_of (version x n) st = 0" by (simp add: defs_of_def st_def)
  moreover have "defs_of (version x n) st' \<le> defs_of (version x n) st + fresh_range st st' x n"
    using rename_block_adds_fresh(1) [OF st'(1)] by (simp add: adds_fresh_def)
  moreover have "fresh_range st st' x n \<le> 1" by (simp add: fresh_range_def)
  ultimately show ?thesis using st'(2,3) by (simp add: form_defs_def defs_of_def)
qed

text \<open>A loop that counts \<open>x\<close> down.\<close>

definition countdown :: "instr list" where
  "countdown = [Copy ''x'' (VInt 9), Label ''.top'', BranchFalse (VName ''x'') ''!='' (VInt 0) ''.out'',
     BinaryOperation ''x'' (VName ''x'') ''-'' (VInt 1), Jump ''.top'', Label ''.out'', Return (Some (VName ''x''))]"

lemma ssa_single_assignment_witness:
  "\<exists>ssa. convert_to_ssa [] countdown = Some ssa \<and> form_defs (version ''x'' 1) ssa \<le> 1"
proof -
  have "convert_to_ssa [] countdown \<noteq> None" by code_simp
  then obtain ssa where "convert_to_ssa [] countdown = Some ssa" by blast
  moreover have "clean_names (destinations countdown)" by code_simp
  ultimately show ?thesis using ssa_single_assignment [of "[]" countdown ssa "''x''" 1] by simp
qed

end
