(* ===== verification/Ssa_Erasure.thy ===== *)
theory Ssa_Erasure
  imports Ssa_Renaming
begin

text \<open>
  Renaming only adds versions: stripping them from the converted form gives back the instructions, the
  terminators and the edges of the graph, and turns each phi into copies of a name to itself.
\<close>

subsection \<open>Instructions\<close>

lemma set_destination_same: "ssa_instruction_destination i = Some d \<Longrightarrow> set_destination d i = i"
  by (cases i) auto

lemma set_destination_twice: "set_destination d (set_destination d' i) = set_destination d i"
  by (cases i) auto

lemma map_value_fields_set_destination:
  "map_value_fields f (set_destination d i) = set_destination d (map_value_fields f i)"
  by (cases i) auto

lemma deversion_instruction_alt:
  "deversion_instruction i =
     (case ssa_instruction_destination i of
        Some d \<Rightarrow> set_destination (deversion_name d) (map_value_fields deversion_value i)
      | None \<Rightarrow> map_value_fields deversion_value i)"
proof (cases "ssa_instruction_destination i")
  case (Some d)
  then show ?thesis
    using set_destination_same [of "map_value_fields deversion_value i" d]
    by (simp add: deversion_instruction_def Let_def)
qed (simp add: deversion_instruction_def)

lemma deversion_substitute:
  assumes "\<And>x. x \<in> set names \<Longrightarrow> deversion_name (l x) = deversion_name x"
  shows "map_value_fields deversion_value (substitute_value_operands l names i) = map_value_fields deversion_value i"
  unfolding substitute_value_operands_def map_value_fields_comp
  by (rule map_value_fields_cong) (use assms in \<open>auto split: ir_value.splits\<close>)

text \<open>The version stack of a name holds versions of that name.\<close>

definition stacks_ok :: "renaming \<Rightarrow> bool" where
  "stacks_ok st = (\<forall>x. x \<noteq> [] \<longrightarrow> (\<forall>v \<in> set (rn_stack st x). deversion_name v = x))"

lemma stacks_ok_fresh: "stacks_ok st \<Longrightarrow> stacks_ok (snd (fresh_version x st))"
  by (auto simp: stacks_ok_def fresh_version_def Let_def deversion_version_name)

lemma lookup_version_clean:
  assumes "stacks_ok st" "clean_names names" "x \<in> set names"
  shows "deversion_name (lookup_version st x) = deversion_name x"
proof (cases "rn_stack st x")
  case (Cons v vs)
  then show ?thesis using assms by (auto simp: lookup_version_def stacks_ok_def clean_names_def)
qed (simp add: lookup_version_def)

lemma substituted_erased:
  assumes "stacks_ok st" "clean_names names"
  shows "deversion_instruction (substitute_value_operands (lookup_version st) names i) = deversion_instruction i"
proof -
  have "map_value_fields deversion_value (substitute_value_operands (lookup_version st) names i) =
      map_value_fields deversion_value i"
    by (rule deversion_substitute) (use lookup_version_clean assms in blast)
  then have "\<And>c. (case c of Some d \<Rightarrow> set_destination (deversion_name d) (map_value_fields deversion_value
          (substitute_value_operands (lookup_version st) names i))
        | None \<Rightarrow> map_value_fields deversion_value (substitute_value_operands (lookup_version st) names i)) =
      (case c of Some d \<Rightarrow> set_destination (deversion_name d) (map_value_fields deversion_value i)
        | None \<Rightarrow> map_value_fields deversion_value i)"
    by (simp only:)
  then show ?thesis unfolding deversion_instruction_alt destination_substitute_operands .
qed

lemma rename_instruction_erased:
  assumes "rename_instruction names i st = (i', pushed, st')" "stacks_ok st" "clean_names names"
  shows "deversion_instruction i' = deversion_instruction i \<and> stacks_ok st' \<and> rn_cfg st' = rn_cfg st \<and> rn_phis st' = rn_phis st"
proof -
  define r where "r = substitute_value_operands (lookup_version st) names i"
  have r: "map_value_fields deversion_value r = map_value_fields deversion_value i"
    unfolding r_def by (rule deversion_substitute) (use lookup_version_clean assms in blast)
  have dest: "ssa_instruction_destination r = ssa_instruction_destination i" by (simp add: r_def)
  have same: "deversion_instruction r = deversion_instruction i"
    unfolding r_def by (rule substituted_erased [OF assms(2,3)])
  show ?thesis
  proof (cases "\<exists>d. ssa_instruction_destination i = Some d \<and> d \<in> set names")
    case True
    then obtain d where d: "ssa_instruction_destination i = Some d" "d \<in> set names" by blast
    obtain v st1 where f: "fresh_version d st = (v, st1)" by (cases "fresh_version d st")
    have i': "i' = set_destination v r" "st' = st1"
      using assms(1) d f by (auto simp: rename_instruction_def r_def Let_def)
    have v: "deversion_name v = deversion_name d"
      using f d(2) assms(3) fresh_version_simps(1) [of d st] deversion_version_name [of d]
      by (auto simp: clean_names_def)
    have "deversion_instruction i' = set_destination (deversion_name v) (map_value_fields deversion_value r)"
      using d dest by (simp add: i' deversion_instruction_alt map_value_fields_set_destination set_destination_twice)
    then have "deversion_instruction i' = deversion_instruction i"
      using v r d by (simp add: deversion_instruction_alt)
    then show ?thesis using i' f stacks_ok_fresh [OF assms(2), of d] fresh_version_simps(3,4) [of d st] by simp
  next
    case False
    then have "i' = r" "st' = st"
      using assms(1) by (auto simp: rename_instruction_def r_def Let_def split: option.splits if_splits)
    then show ?thesis using same assms(2) by simp
  qed
qed

lemma rename_instructions_erased:
  "rename_instructions names is st = (is', pushed, st') \<Longrightarrow> stacks_ok st \<Longrightarrow> clean_names names \<Longrightarrow>
   map deversion_instruction is' = map deversion_instruction is \<and> stacks_ok st' \<and> rn_cfg st' = rn_cfg st \<and>
   rn_phis st' = rn_phis st"
proof (induction "is" arbitrary: st is' pushed st')
  case (Cons i "is")
  obtain i1 p1 st1 where 1: "rename_instruction names i st = (i1, p1, st1)" by (cases "rename_instruction names i st")
  obtain is2 p2 st2 where 2: "rename_instructions names is st1 = (is2, p2, st2)"
    by (cases "rename_instructions names is st1")
  have "is' = i1 # is2" "st' = st2" using Cons.prems 1 2 by auto
  then show ?case
    using rename_instruction_erased [OF 1 Cons.prems(2,3)] Cons.IH [OF 2 _ Cons.prems(3)] by simp
qed simp

subsection \<open>Phis\<close>

definition phi_erased :: "phi \<Rightarrow> bool" where
  "phi_erased p = (deversion_name (ph_destination p) = ph_original p \<and>
     (\<forall>v \<in> set (map snd (ph_sources p)). deversion_value v = VName (ph_original p)))"

definition phis_erased :: "string list \<Rightarrow> (nat \<times> phi list) list \<Rightarrow> bool" where
  "phis_erased names phis = (\<forall>x \<in> set phis. \<forall>p \<in> set (snd x). ph_original p \<in> set names \<and> phi_erased p)"

lemma rename_phis_erased:
  "rename_phis ps st = (ps', pushed, st') \<Longrightarrow> stacks_ok st \<Longrightarrow>
   \<forall>p \<in> set ps. ph_original p \<in> set names \<and> phi_erased p \<Longrightarrow> clean_names names \<Longrightarrow>
   (\<forall>p \<in> set ps'. ph_original p \<in> set names \<and> phi_erased p) \<and> stacks_ok st' \<and> rn_cfg st' = rn_cfg st \<and>
   rn_phis st' = rn_phis st"
proof (induction ps arbitrary: st ps' pushed st')
  case (Cons p ps)
  obtain v st1 where 1: "fresh_version (ph_original p) st = (v, st1)" by (cases "fresh_version (ph_original p) st")
  obtain ps2 p2 st2 where 2: "rename_phis ps st1 = (ps2, p2, st2)" by (cases "rename_phis ps st1")
  have eq: "ps' = p\<lparr>ph_destination := v\<rparr> # ps2" "st' = st2" using Cons.prems 1 2 by auto
  have st1: "stacks_ok st1" "rn_cfg st1 = rn_cfg st" "rn_phis st1 = rn_phis st"
    using stacks_ok_fresh [OF Cons.prems(2), of "ph_original p"] fresh_version_simps(3,4) [of "ph_original p" st] 1 by auto
  have "ph_original p \<noteq> []" using Cons.prems(3,4) by (auto simp: clean_names_def)
  then have "deversion_name v = ph_original p"
    using fresh_version_simps(1) [of "ph_original p" st] 1 deversion_version_name by auto
  then have "phi_erased (p\<lparr>ph_destination := v\<rparr>)" using Cons.prems(3) by (simp add: phi_erased_def)
  then show ?case using Cons.IH [OF 2 st1(1)] Cons.prems(3,4) st1 eq by simp
qed simp

lemma phis_erased_items:
  assumes "phis_erased names phis" "p \<in> set (items_of k phis)"
  shows "ph_original p \<in> set names \<and> phi_erased p"
proof -
  obtain ps where "map_of phis k = Some ps" "p \<in> set ps"
    using assms(2) by (cases "map_of phis k") (auto simp: items_of_def)
  then show ?thesis using assms(1) map_of_SomeD [of phis k ps] by (force simp: phis_erased_def)
qed

lemma phis_erased_replace:
  "phis_erased names phis \<Longrightarrow> \<forall>p \<in> set ps. ph_original p \<in> set names \<and> phi_erased p \<Longrightarrow>
   phis_erased names (replace_items k ps phis)"
  by (auto simp: phis_erased_def replace_items_def dest!: put_item_values split: option.splits)

lemma feed_successor_erased:
  assumes "phis_erased names (rn_phis st)" "stacks_ok st" "clean_names names"
  shows "phis_erased names (rn_phis (feed_successor k st s))"
  unfolding feed_successor_def
proof (simp, rule phis_erased_replace [OF assms(1)], simp, intro ballI)
  fix p assume p: "p \<in> set (items_of s (rn_phis st))"
  have o: "ph_original p \<in> set names" "phi_erased p" using phis_erased_items [OF assms(1) p] by auto
  have "deversion_name (lookup_version st (ph_original p)) = ph_original p"
    using lookup_version_clean [OF assms(2,3) o(1)] o(1) assms(3) by (auto simp: clean_names_def)
  then show "ph_original p \<in> set names \<and>
      phi_erased (p\<lparr>ph_sources := put_item k (VName (lookup_version st (ph_original p))) (ph_sources p)\<rparr>)"
    using o by (auto simp: phi_erased_def dest!: put_item_values)
qed

lemma feed_successors_erased:
  "phis_erased names (rn_phis st) \<Longrightarrow> stacks_ok st \<Longrightarrow> clean_names names \<Longrightarrow>
   phis_erased names (rn_phis (foldl (feed_successor k) st ss)) \<and> stacks_ok (foldl (feed_successor k) st ss)"
proof (induction ss arbitrary: st)
  case (Cons s ss)
  have "stacks_ok (feed_successor k st s)" using Cons.prems(2) by (simp add: stacks_ok_def)
  then show ?case using Cons.IH feed_successor_erased [OF Cons.prems] Cons.prems(3) by simp
qed simp

subsection \<open>Blocks\<close>

text \<open>The graph with every instruction stripped of versions.\<close>

definition erase_cfg :: "cfg \<Rightarrow> cfg" where
  "erase_cfg g = g\<lparr>g_store := map (map_block deversion_instruction) (g_store g)\<rparr>"

definition erased_as :: "string list \<Rightarrow> cfg \<Rightarrow> renaming \<Rightarrow> bool" where
  "erased_as names g st = (stacks_ok st \<and> phis_erased names (rn_phis st) \<and> erase_cfg (rn_cfg st) = erase_cfg g)"

lemma erase_update_block:
  "map_block deversion_instruction (f (g_store g ! k)) = map_block deversion_instruction (g_store g ! k) \<Longrightarrow>
   erase_cfg (update_block k f g) = erase_cfg g"
  by (auto simp: erase_cfg_def update_block_def map_update list_update_same_conv)

lemma enter_block_erased:
  assumes "enter_block names k st = (pushed, st')" "erased_as names g st" "clean_names names"
  shows "erased_as names g st'"
proof -
  have st: "stacks_ok st" "phis_erased names (rn_phis st)" "erase_cfg (rn_cfg st) = erase_cfg g"
    using assms(2) by (auto simp: erased_as_def)
  obtain ps p1 st1 where 1: "rename_phis (items_of k (rn_phis st)) st = (ps, p1, st1)"
    by (cases "rename_phis (items_of k (rn_phis st)) st")
  define st2 where "st2 = st1\<lparr>rn_phis := replace_items k ps (rn_phis st1)\<rparr>"
  define bb where "bb = g_store (rn_cfg st2) ! k"
  obtain js p2 st3 where 3: "rename_instructions names (b_instrs bb) st2 = (js, p2, st3)"
    by (cases "rename_instructions names (b_instrs bb) st2")
  define tm where "tm = map_option (substitute_value_operands (lookup_version st3) names) (b_term bb)"
  define st4 where "st4 = st3\<lparr>rn_cfg := update_block k (\<lambda>bb. bb\<lparr>b_instrs := js, b_term := tm\<rparr>) (rn_cfg st3)\<rparr>"
  have st': "st' = foldl (feed_successor k) st4 (b_succs bb)"
    using assms(1) unfolding enter_block_def 1 Let_def prod.case st2_def [symmetric] bb_def [symmetric] 3
      tm_def [symmetric] st4_def [symmetric] by simp
  have ph: "\<forall>p \<in> set (items_of k (rn_phis st)). ph_original p \<in> set names \<and> phi_erased p"
    using phis_erased_items [OF st(2)] by blast
  note r1 = rename_phis_erased [OF 1 st(1) ph assms(3)]
  have st2: "stacks_ok st2" "rn_cfg st2 = rn_cfg st" "phis_erased names (rn_phis st2)"
    using r1 phis_erased_replace [OF st(2)] by (auto simp: st2_def stacks_ok_def)
  note r3 = rename_instructions_erased [OF 3 st2(1) assms(3)]
  have "map_option deversion_instruction tm = map_option deversion_instruction (b_term bb)"
    using substituted_erased r3 assms(3) by (cases "b_term bb") (auto simp: tm_def)
  then have "erase_cfg (rn_cfg st4) = erase_cfg (rn_cfg st3)"
    unfolding st4_def using r3 by (simp add: erase_update_block map_block_def bb_def)
  then have st4: "stacks_ok st4" "phis_erased names (rn_phis st4)" "erase_cfg (rn_cfg st4) = erase_cfg g"
    using r3 st2 st(3) by (auto simp: st4_def stacks_ok_def)
  then show ?thesis
    using feed_successors_erased [OF st4(2,1) assms(3), of k "b_succs bb"] by (simp add: st' erased_as_def)
qed

lemma in_set_tl: "v \<in> set (tl xs) \<Longrightarrow> v \<in> set xs"
  by (cases xs) auto

lemma pop_versions_ok: "stacks_ok st \<Longrightarrow> stacks_ok (pop_versions pushed st)"
  unfolding pop_versions_def
proof (induction pushed arbitrary: st)
  case (Cons x pushed)
  have "stacks_ok (st\<lparr>rn_stack := (rn_stack st)(x := tl (rn_stack st x))\<rparr>)"
    using Cons.prems by (auto simp: stacks_ok_def dest: in_set_tl)
  then show ?case using Cons.IH by (simp only: fold_Cons o_apply)
qed simp

lemma pop_versions_erased: "erased_as names g st \<Longrightarrow> erased_as names g (pop_versions pushed st)"
  by (simp add: erased_as_def pop_versions_ok)

lemma rename_block_erased:
  "rename_block fuel names idom k st = Some st' \<Longrightarrow> erased_as names g st \<Longrightarrow> clean_names names \<Longrightarrow>
   erased_as names g st'"
  "rename_children fuel names idom ks st = Some st' \<Longrightarrow> erased_as names g st \<Longrightarrow> clean_names names \<Longrightarrow>
   erased_as names g st'"
proof (induction fuel names idom k st and fuel names idom ks st arbitrary: st' and st'
    rule: rename_block_rename_children.induct)
  case (2 fuel names idom k st)
  obtain pushed st1 where e: "enter_block names k st = (pushed, st1)" by (cases "enter_block names k st")
  obtain st2 where c: "rename_children fuel names idom (dominator_children idom k) st1 = Some st2"
    and "st' = pop_versions pushed st2"
    using "2.prems" e by auto
  then show ?case
    using "2.IH" [OF e [symmetric] refl c enter_block_erased [OF e "2.prems"(2,3)] "2.prems"(3)] pop_versions_erased
    by blast
next
  case (4 fuel names idom c cs st)
  then obtain st1 where "rename_block fuel names idom c st = Some st1" "rename_children fuel names idom cs st1 = Some st'"
    by (auto simp: bind_eq_Some_conv)
  then show ?case using "4.IH" "4.prems"(2,3) by blast
qed simp_all

subsection \<open>The converted form\<close>

lemma placed_erased: "placed (set names) p \<Longrightarrow> clean_names names \<Longrightarrow> ph_original p \<in> set names \<and> phi_erased p"
  by (auto simp: placed_def phi_erased_def clean_names_def)

lemma phis_named_erased: "phis_named (set names) phis \<Longrightarrow> clean_names names \<Longrightarrow> phis_erased names phis"
  using placed_erased by (fastforce simp: phis_named_def phis_erased_def)

lemma clean_names_subset: "clean_names ys \<Longrightarrow> set xs \<subseteq> set ys \<Longrightarrow> clean_names xs"
  by (auto simp: clean_names_def)

subsection \<open>Bodies without versions\<close>

text \<open>
  On a body no instruction of which uses or writes a versioned name, stripping versions changes nothing, and
  nothing in the graph with split edges either.
\<close>

definition unversioned :: "instr list \<Rightarrow> bool" where
  "unversioned b = (\<forall>i \<in> set b. deversion_instruction i = i)"

definition plain_store :: "block list \<Rightarrow> bool" where
  "plain_store bs = (\<forall>bb \<in> set bs. map_block deversion_instruction bb = bb)"

lemma erase_plain: "plain_store (g_store g) \<Longrightarrow> erase_cfg g = g"
  by (simp add: erase_cfg_def plain_store_def map_idI)

lemma plain_block:
  "map_block deversion_instruction bb = bb \<longleftrightarrow>
   map deversion_instruction (b_instrs bb) = b_instrs bb \<and> map_option deversion_instruction (b_term bb) = b_term bb"
  by (cases bb) (auto simp: map_block_def)

lemma deversion_jump [simp]: "deversion_instruction (Jump l) = Jump l"
  by (simp add: deversion_instruction_def)

lemma deversion_retarget:
  "deversion_instruction i = i \<Longrightarrow> deversion_instruction (retarget l l' i) = retarget l l' i"
  by (cases i) (auto simp: deversion_instruction_def Let_def split: option.splits if_splits)

lemma plain_update_block:
  "plain_store (g_store g) \<Longrightarrow>
   (\<And>bb. map_block deversion_instruction bb = bb \<Longrightarrow> map_block deversion_instruction (f bb) = f bb) \<Longrightarrow>
   plain_store (g_store (update_block k f g))"
  by (auto simp: plain_store_def update_block_def dest!: set_update_subset_insert [THEN subsetD])

lemma plain_materialize_jumps:
  "plain_store (g_store g) \<Longrightarrow> plain_store (g_store (materialize_jumps ls order g))"
proof (induction ls order g rule: materialize_jumps.induct)
  case (1 ls k k' rest g)
  have "plain_store (g_store (materialize ls k k' g))"
    unfolding materialize_def
    using "1.prems" by (auto intro!: plain_update_block simp: plain_block)
  then show ?case using "1.IH" by simp
qed auto

lemma plain_split_edge:
  assumes "plain_store (g_store g)"
  shows "plain_store (g_store (split_edge c p s g))"
proof -
  have new: "plain_store (g_store g @
      [\<lparr>b_label = split_label c, b_instrs = [], b_term = Some (Jump (label_of g s)), b_succs = [s], b_preds = [p]\<rparr>])"
    using assms by (auto simp: plain_store_def plain_block)
  have retargeted: "map_option deversion_instruction (map_option (retarget l l') t) = map_option (retarget l l') t"
    if "map_option deversion_instruction t = t" for l l' t
    using that by (cases t) (auto simp: deversion_retarget)
  show ?thesis
    unfolding split_edge_def Let_def
    using new by (auto intro!: plain_update_block simp: plain_block retargeted)
qed

lemma plain_split_edges: "plain_store (g_store g) \<Longrightarrow> plain_store (g_store (split_edges c es g))"
  by (induction c es g rule: split_edges.induct) (simp_all add: plain_split_edge)

lemma plain_split_critical_edges: "plain_store (g_store g) \<Longrightarrow> plain_store (g_store (split_critical_edges g))"
  by (simp add: split_critical_edges_def Let_def plain_split_edges plain_materialize_jumps)

lemma make_block_term: "b_term (make_block l sl) = Some t \<Longrightarrow> t \<in> set sl"
proof -
  have "set (case sl of Label _ # rest \<Rightarrow> rest | _ \<Rightarrow> sl) \<subseteq> set sl"
    by (cases sl; cases "hd sl") auto
  then show "b_term (make_block l sl) = Some t \<Longrightarrow> t \<in> set sl"
    by (auto simp: make_block_def Let_def split: if_splits)
qed

lemma build_blocks_term: "bb \<in> set (build_blocks b starts) \<Longrightarrow> b_term bb = Some t \<Longrightarrow> t \<in> set b"
proof (induction b starts rule: build_blocks.induct)
  case (2 b start label)
  then show ?case by (auto dest!: make_block_term in_set_dropD)
next
  case (3 b start label stop label' rest)
  then show ?case by (auto dest!: make_block_term in_set_dropD in_set_takeD)
qed simp

lemma plain_build_cfg:
  assumes "build_cfg b = Some g" "unversioned b"
  shows "plain_store (g_store g)"
  unfolding plain_store_def plain_block
proof (intro ballI conjI)
  fix bb assume bb: "bb \<in> set (g_store g)"
  then obtain k where k: "k < length (g_store g)" "bb = g_store g ! k" by (auto simp: in_set_conv_nth)
  have "set (b_instrs bb) \<subseteq> set b" using build_cfg_instrs [OF assms(1)] bb by auto
  then show "map deversion_instruction (b_instrs bb) = b_instrs bb"
    using assms(2) by (intro map_idI) (auto simp: unversioned_def)
  have "b_term bb = Some t \<Longrightarrow> t \<in> set b" for t
    using build_cfg_block(1) [OF assms(1)] build_cfg_block(5) [OF assms(1), of k] build_blocks_term nth_mem k
    by metis
  then show "map_option deversion_instruction (b_term bb) = b_term bb"
    using assms(2) by (cases "b_term bb") (auto simp: unversioned_def)
qed

lemma convert_to_ssa_renamed:
  assumes "convert_to_ssa ex b = Some ssa" "sf_names ssa \<noteq> []" "clean_names (sf_names ssa)"
  shows "\<exists>g. build_cfg b = Some g \<and> erase_cfg (sf_cfg ssa) = erase_cfg (split_critical_edges g) \<and>
    phis_erased (sf_names ssa) (sf_phis ssa)"
proof -
  obtain g0 idom phis where g0: "build_cfg b = Some g0" and names: "sf_names ssa = ssa_safe_names ex b"
    and phis: "phis_named (set (sf_names ssa)) phis"
    and ren: "rename_variables (split_critical_edges g0) idom phis (sf_names ssa) = Some (sf_cfg ssa, sf_phis ssa)"
    using convert_to_ssa_cases [OF assms(1,2)] by blast
  define g where "g = split_critical_edges g0"
  define st where "st = \<lparr>rn_counter = \<lambda>_. 0, rn_stack = \<lambda>_. [], rn_cfg = g, rn_phis = phis\<rparr>"
  obtain st' where st': "rename_block (Suc (length (g_store g))) (sf_names ssa) idom (g_entry g) st = Some st'"
    "sf_cfg ssa = rn_cfg st'" "sf_phis ssa = rn_phis st'"
    using ren by (auto simp: rename_variables_def st_def g_def)
  have "erased_as (sf_names ssa) g st"
    using phis_named_erased [OF phis assms(3)] by (simp add: erased_as_def st_def stacks_ok_def)
  then have "erased_as (sf_names ssa) g st'" using rename_block_erased(1) [OF st'(1) _ assms(3)] by blast
  then show ?thesis using g0 st'(2,3) by (simp add: erased_as_def g_def)
qed

text \<open>The graph a conversion starts from, as \<open>convert_to_ssa\<close> chooses it.\<close>

definition split_for :: "ssa_form \<Rightarrow> cfg \<Rightarrow> cfg" where
  "split_for ssa g = (if sf_names ssa = [] then g else split_critical_edges g)"

lemma convert_to_ssa_names:
  assumes "convert_to_ssa ex b = Some ssa"
  shows "set (sf_names ssa) \<subseteq> set (ssa_safe_names ex b)"
proof (cases "sf_names ssa = []")
  case False
  then show ?thesis by (rule convert_to_ssa_cases [OF assms]) simp
qed simp

text \<open>
  C2. Conversion only adds versions.  The condition is on the names that take part, the ones the body writes
  and that are neither excluded, nor have their address taken, nor occur in an opaque tree: none of them is
  empty or itself of the form \<^verbatim>\<open>x_ssa0\<close>.  The graph converted is the body's graph with its
  critical edges split, or the graph as built when the body holds inline assembly or no name takes part (the
  form then has no names and no phi).  After stripping the versions of both, the form and that graph are
  equal: the same blocks, instructions, terminators and edges; and each phi copies a name that takes part to
  itself.  When moreover no instruction of the body uses or writes a versioned name, stripping the form gives
  back that graph itself.
\<close>

theorem ssa_conversion_erases:
  assumes "convert_to_ssa ex b = Some ssa" "clean_names (ssa_safe_names ex b)"
  shows "\<exists>g. build_cfg b = Some g \<and>
    erase_cfg (sf_cfg ssa) = erase_cfg (split_for ssa g) \<and>
    phis_erased (sf_names ssa) (sf_phis ssa) \<and>
    (sf_names ssa = [] \<longleftrightarrow> (\<exists>i \<in> set b. is_inline_asm i) \<or> ssa_safe_names ex b = []) \<and>
    (sf_names ssa = [] \<longrightarrow> sf_phis ssa = []) \<and>
    (unversioned b \<longrightarrow> erase_cfg (sf_cfg ssa) = split_for ssa g)"
proof -
  obtain g where g: "build_cfg b = Some g" "erase_cfg (sf_cfg ssa) = erase_cfg (split_for ssa g)"
    "phis_erased (sf_names ssa) (sf_phis ssa)" "sf_names ssa = [] \<longrightarrow> sf_phis ssa = []"
  proof (cases "sf_names ssa = []")
    case True
    then show ?thesis
      using that convert_to_ssa_plain [OF assms(1)] by (force simp: split_for_def phis_erased_def)
  next
    case False
    then show ?thesis
      using that convert_to_ssa_renamed [OF assms(1) False
          clean_names_subset [OF assms(2) convert_to_ssa_names [OF assms(1)]]]
      by (auto simp: split_for_def)
  qed
  moreover have "sf_names ssa = [] \<longleftrightarrow> (\<exists>i \<in> set b. is_inline_asm i) \<or> ssa_safe_names ex b = []"
    using assms(1) by (auto simp: convert_to_ssa_def Let_def bind_eq_Some_conv split: if_splits)
  moreover have "erase_cfg (split_for ssa g) = split_for ssa g" if "unversioned b"
    using plain_build_cfg [OF g(1) that] by (simp add: erase_plain split_for_def plain_split_critical_edges)
  ultimately show ?thesis by metis
qed

text \<open>A loop on a name that takes part, and the same loop beside inline assembly.\<close>

definition countdown_asm :: "instr list" where
  "countdown_asm = InlineAsm ''nop'' # countdown"

lemma ssa_conversion_erases_witness:
  "(\<exists>ssa g. convert_to_ssa [] countdown = Some ssa \<and> build_cfg countdown = Some g \<and> sf_cfg ssa \<noteq> g \<and>
     erase_cfg (sf_cfg ssa) = split_critical_edges g) \<and>
   (\<exists>ssa g. convert_to_ssa [] countdown_asm = Some ssa \<and> build_cfg countdown_asm = Some g \<and>
     erase_cfg (sf_cfg ssa) = g \<and> sf_phis ssa = [])"
proof
  have "map_option sf_names (convert_to_ssa [] countdown) = Some [''x'']" by code_simp
  then obtain ssa where ssa: "convert_to_ssa [] countdown = Some ssa" "sf_names ssa \<noteq> []" by auto
  have "clean_names (ssa_safe_names [] countdown)" "unversioned countdown" by code_simp+
  then obtain g where g: "build_cfg countdown = Some g" "erase_cfg (sf_cfg ssa) = split_critical_edges g"
    using ssa_conversion_erases [OF ssa(1)] ssa(2) by (auto simp: split_for_def)
  have "map_option sf_cfg (convert_to_ssa [] countdown) \<noteq> build_cfg countdown" by code_simp
  then show "\<exists>ssa g. convert_to_ssa [] countdown = Some ssa \<and> build_cfg countdown = Some g \<and> sf_cfg ssa \<noteq> g \<and>
      erase_cfg (sf_cfg ssa) = split_critical_edges g"
    using ssa(1) g by auto
next
  have "map_option sf_names (convert_to_ssa [] countdown_asm) = Some []" by code_simp
  then obtain ssa where ssa: "convert_to_ssa [] countdown_asm = Some ssa" "sf_names ssa = []" by auto
  have "clean_names (ssa_safe_names [] countdown_asm)" "unversioned countdown_asm" by code_simp+
  then show "\<exists>ssa g. convert_to_ssa [] countdown_asm = Some ssa \<and> build_cfg countdown_asm = Some g \<and>
      erase_cfg (sf_cfg ssa) = g \<and> sf_phis ssa = []"
    using ssa_conversion_erases [OF ssa(1)] ssa by (auto simp: split_for_def)
qed

end
