(* ===== verification/Propagation.thy ===== *)
theory Propagation
  imports Data_Passes
begin

unbundle bit_operations_syntax

text \<open>
  \<open>_propagate\<close>: forwarding the literal of a single-definition temp and folding arithmetic.  The proof
  follows one \<open>Copy\<close> at a time: until the copy runs its temp is unassigned, afterwards it holds the
  literal, so every read that is not stuck reads the literal.  Forwarding a \<^emph>\<open>variable\<close> instead of a
  literal is not sound, as the last section shows.
\<close>

subsection \<open>Bodies related instruction by instruction\<close>

lemma find_label_pointwise:
  assumes "list_all2 P x y" and "\<And>i j l. P i j \<Longrightarrow> i = Label l \<longleftrightarrow> j = Label l"
  shows "rel_option (list_all2 P) (find_label l x) (find_label l y)"
  using assms by (induction rule: list_all2_induct) auto

lemma pointwise_sim:
  assumes run: "runs M b s out" and P: "list_all2 P b b'" and I: "I s"
    and lab: "\<And>i j l. P i j \<Longrightarrow> i = Label l \<longleftrightarrow> j = Label l"
    and step: "\<And>i j x y s. i \<in> set b \<Longrightarrow> P i j \<Longrightarrow> I s \<Longrightarrow> list_all2 P x y \<Longrightarrow> suffix x b \<Longrightarrow>
      (\<And>l. rel_option (\<lambda>x y. list_all2 P x y \<and> suffix x b) (find_label l b) (find_label l b')) \<Longrightarrow>
      conf_sim (\<lambda>x y. list_all2 P x y \<and> suffix x b) (\<lambda>s t. s = t \<and> I s)
        (next_conf M b i x s) (next_conf M b' j y s)"
  shows "runs M b' s out"
proof -
  let ?R = "\<lambda>x y. list_all2 P x y \<and> suffix x b" and ?S = "\<lambda>s t. s = t \<and> I s"
  have L: "rel_option ?R (find_label l b) (find_label l b')" for l
    using find_label_pointwise [OF P lab, of l]
    by (cases "find_label l b") (auto simp: option_rel_Some1 dest: find_label_suffix)
  have "\<exists>s'. exec (next_conf M) b' b' s (fst out, s') \<and> ?S (snd out) s'"
  proof (rule sim_forward [OF run [unfolded runs_def], where R = ?R])
    fix x y s t assume R: "?R x y" and S: "?S s t"
    show "(x = [] \<and> y = []) \<or> left_step (next_conf M) b ?R ?S x s y t \<or> joint_step (next_conf M) b b' ?R ?S x s y t"
    proof (cases x)
      case (Cons i x')
      with R obtain j y' where y: "y = j # y'" "P i j" "list_all2 P x' y'"
        by (auto simp: list_all2_Cons1)
      from R Cons have "i \<in> set b" "suffix x' b" by (auto dest: suffix_in_set suffix_tl)
      with step [OF _ y(2) _ y(3) _ L] S Cons y show ?thesis by (auto simp: joint_step_def)
    qed (use R in simp)
  qed (use P I in auto)
  then show ?thesis by (cases out) (auto simp: runs_def)
qed

subsection \<open>What an instruction writes\<close>

lemma visible_temp: "is_temp d \<Longrightarrow> d \<notin> set xs \<Longrightarrow> visible xs sl d = None"
  by (simp add: visible_def restrict_map_def)

lemma effect_act_keeps:
  "effect_act W i vs s = Some (fl, v, s') \<Longrightarrow> is_temp d \<Longrightarrow> d \<notin> set (assigned i) \<Longrightarrow>
   slots s' d = slots s d"
  by (auto simp: effect_act_def map_add_def visible_temp split: option.splits if_splits)

lemma ir_exec_keeps:
  assumes "ir_exec W i vs s = Some (fl, s')" and d: "is_temp d" "d \<notin> set (assigned i)"
    and "instruction_destination i \<noteq> Some d"
  shows "slots s' d = slots s d"
proof (cases i)
  case (Return v)
  with assms show ?thesis by (cases v) auto
next
  case (Call args t n)
  with assms effect_act_keeps [of W "Call args t n" vs s] show ?thesis
    by (cases t) (auto simp: set_slot_def split: option.splits flow.splits)
next
  case (TailCall args n)
  with assms effect_act_keeps [of W "Call args None n" vs s] show ?thesis
    by (auto simp: assigned_def split: option.splits flow.splits)
qed (use assms effect_act_keeps [of W i vs s] in \<open>auto simp: pure_act_def set_slot_def split: option.splits\<close>)

lemma ir_act_keeps:
  "ir_act W i s = Some (fl, s') \<Longrightarrow> is_temp d \<Longrightarrow> d \<notin> set (assigned i) \<Longrightarrow>
   instruction_destination i \<noteq> Some d \<Longrightarrow> slots s' d = slots s d"
  by (auto simp: ir_act_def split: option.splits dest: ir_exec_keeps)

lemma ir_carries_keeps: "ir_carries W c s = Some (cf, s') \<Longrightarrow> is_temp d \<Longrightarrow> slots s' d = slots s d"
  by (auto simp: ir_carries_def map_add_def visible_temp)

subsection \<open>Substituting a literal for its temp\<close>

definition const_slot :: "string \<Rightarrow> int \<Rightarrow> 'm ir_state \<Rightarrow> bool" where
  "const_slot d c s \<longleftrightarrow> slots s d = None \<or> slots s d = Some (word_of_int c)"

lemma eval_subst_operand:
  "const_slot d c s \<Longrightarrow> eval_value W (slots s) v = Some w \<Longrightarrow>
   eval_value W (slots s) (subst_operand (VInt c) d v) = Some w"
  by (auto simp: subst_operand_def const_slot_def)

lemma value_fields_substitute:
  "value_fields (substitute_value s t i) = map (subst_operand s t) (value_fields i) \<or>
   substitute_value s t i = i"
proof (cases i)
  case (Address b d ids sh)
  then show ?thesis by (cases b) auto
next
  case (Return v)
  then show ?thesis by (cases v) auto
qed auto

lemma substitute_frame:
  "erase (substitute_value s t i) = erase i" "mentioned (substitute_value s t i) = mentioned i"
  "assigned (substitute_value s t i) = assigned i"
  "inner_labels (substitute_value s t i) = inner_labels i"
  by (cases i; simp add: mentioned_def assigned_def inner_labels_def option.map_comp comp_def)+

lemma effect_act_substitute: "effect_act W (substitute_value s t i) = effect_act W i"
proof -
  have "flow_ok (substitute_value s t i) fl = flow_ok i fl" for fl :: "word32 option flow"
    by (cases fl) (simp_all add: substitute_frame)
  then show ?thesis
    by (auto simp: fun_eq_iff effect_act_def substitute_frame split: option.splits)
qed

lemma pure_act_substitute: "pure_act W (substitute_value s t i) = pure_act W i"
  by (simp add: fun_eq_iff pure_act_def substitute_frame)

lemma ir_exec_substitute: "ir_exec W (substitute_value s t i) = ir_exec W i"
proof (cases i)
  case (Return v)
  then show ?thesis by (cases v) (auto simp: fun_eq_iff)
qed (use effect_act_substitute [of W s t i] pure_act_substitute [of W s t i] in \<open>auto simp: fun_eq_iff\<close>)

lemma ir_act_substitute:
  assumes "const_slot d c s" and "ir_act W i s = Some p"
  shows "ir_act W (substitute_value (VInt c) d i) s = Some p"
proof -
  from assms(2) obtain vs where vs: "map (eval_value W (slots s)) (value_fields i) = map Some vs"
    and p: "ir_exec W i vs s = Some p"
    by (auto simp: ir_act_def sequence_opt_Some_iff split: option.splits)
  have "map (eval_value W (slots s)) (map (subst_operand (VInt c) d) (value_fields i)) = map Some vs"
    using vs
    by (auto simp: list_eq_iff_nth_eq intro!: eval_subst_operand [OF assms(1)])
  with vs have "map (eval_value W (slots s)) (value_fields (substitute_value (VInt c) d i)) = map Some vs"
    using value_fields_substitute [of "VInt c" d i] by auto
  then have "sequence_opt (map (eval_value W (slots s)) (value_fields (substitute_value (VInt c) d i))) = Some vs"
    by (simp add: sequence_opt_Some_iff del: map_eq_conv)
  with p show ?thesis by (simp add: ir_act_def ir_exec_substitute)
qed

lemma ir_holds_substitute:
  assumes "const_slot d c s" and "ir_holds W l op r s = Some h"
  shows "ir_holds W (subst_operand (VInt c) d l) op (subst_operand (VInt c) d r) s = Some h"
  using assms(2) eval_subst_operand [OF assms(1), of W]
  by (auto simp: ir_holds_def split: option.splits)

subsection \<open>One copy\<close>

definition unassigned :: "string \<Rightarrow> instr list \<Rightarrow> bool" where
  "unassigned d b \<longleftrightarrow> (\<forall>i \<in> set b. d \<notin> set (assigned i))"

definition may_substitute :: "string \<Rightarrow> int \<Rightarrow> instr \<Rightarrow> instr \<Rightarrow> bool" where
  "may_substitute d c i j \<longleftrightarrow> j = i \<or> j = substitute_value (VInt c) d i"

lemma may_substitute_Label: "may_substitute d c i j \<Longrightarrow> i = Label l \<longleftrightarrow> j = Label l"
  by (cases i) (auto simp: may_substitute_def)

lemma may_substitute_refl: "list_all2 (may_substitute d c) x x"
  by (simp add: list.rel_refl may_substitute_def)

lemma may_substitute_map: "list_all2 (may_substitute d c) x (map (substitute_value (VInt c) d) x)"
  by (induction x) (auto simp: may_substitute_def)

lemma const_slot_kept:
  assumes "ir_act W i s = Some (fl, s')" and "const_slot d c s" and "is_temp d" and "d \<notin> set (assigned i)"
    and "instruction_destination i = Some d \<Longrightarrow> i = Copy d (VInt c)"
  shows "const_slot d c s'"
proof (cases "instruction_destination i = Some d")
  case True
  with assms show ?thesis by (auto simp: const_slot_def ir_act_def set_slot_def)
next
  case False
  with assms ir_act_keeps [OF assms(1,3,4)] show ?thesis by (simp add: const_slot_def)
qed

lemma plain_step_refines:
  assumes act: "\<And>p. act M i s = Some p \<Longrightarrow> act M j s = Some p \<and> I (snd p)" and "R x y"
    and L: "\<And>l. rel_option R (find_label l b) (find_label l b')"
  shows "conf_sim R (\<lambda>s t. s = t \<and> I s) (plain_step M b i x s) (plain_step M b' j y s)"
proof (cases "act M i s")
  case (Some p)
  with act [OF Some] assms(2) L show ?thesis
    by (cases p; cases "fst p") (auto simp: plain_step_def goto_label_sim)
qed (simp add: plain_step_def)

lemma substitute_step:
  assumes ms: "may_substitute d c i j" and I: "const_slot d c s" and d: "is_temp d" "d \<notin> set (assigned i)"
    and sole: "instruction_destination i = Some d \<Longrightarrow> i = Copy d (VInt c)" and R: "R x y"
    and L: "\<And>l. rel_option R (find_label l b) (find_label l b')"
  shows "conf_sim R (\<lambda>s t. s = t \<and> const_slot d c s)
    (next_conf (ir_machine W) b i x s) (next_conf (ir_machine W) b' j y s)"
proof (cases "is_Label i \<or> is_LoopBoundary i \<or> branch_target i \<noteq> None")
  case False
  with ms have "next_conf (ir_machine W) b i x s = plain_step (ir_machine W) b i x s"
    "next_conf (ir_machine W) b' j y s = plain_step (ir_machine W) b' j y s"
    by (cases i; auto simp: may_substitute_def)+
  moreover have "act (ir_machine W) j s = Some p \<and> const_slot d c (snd p)"
    if "act (ir_machine W) i s = Some p" for p
    using that ms ir_act_substitute [OF I, of W i] const_slot_kept [OF _ I d sole, of W "fst p" "snd p"]
    by (auto simp: may_substitute_def)
  ultimately show ?thesis using plain_step_refines [where M = "ir_machine W", OF _ R L] by simp
next
  case True
  show ?thesis
  proof (cases i)
    case (BranchFalse l op r g)
    then obtain l' r' where j: "j = BranchFalse l' op r' g"
      and h: "\<And>h. ir_holds W l op r s = Some h \<Longrightarrow> ir_holds W l' op r' s = Some h"
      using ms ir_holds_substitute [OF I, of W l op r] by (auto simp: may_substitute_def)
    with BranchFalse R L I show ?thesis
      by (cases "ir_holds W l op r s") (auto simp: goto_label_sim)
  next
    case (CarryBranch cc g w)
    with ms have "j = i" by (auto simp: may_substitute_def)
    with CarryBranch R L I show ?thesis
      by (cases "ir_carries W cc s")
         (auto simp: goto_label_sim const_slot_def dest: ir_carries_keeps [OF _ d(1)])
  qed (use True R L I ms in \<open>auto simp: goto_label_sim may_substitute_def\<close>)
qed

lemma copy_propagated:
  assumes run: "runs (ir_machine W) (pre @ Copy d (VInt c) # rest) s out"
    and d: "is_temp d" "unassigned d (pre @ Copy d (VInt c) # rest)" "slots s d = None"
    and sole: "\<forall>i \<in> set pre \<union> set rest. instruction_destination i \<noteq> Some d"
  shows "runs (ir_machine W) (pre @ Copy d (VInt c) # map (substitute_value (VInt c) d) rest) s out"
proof (rule pointwise_sim [OF run, where P = "may_substitute d c" and I = "const_slot d c"])
  show "list_all2 (may_substitute d c) (pre @ Copy d (VInt c) # rest)
     (pre @ Copy d (VInt c) # map (substitute_value (VInt c) d) rest)"
    by (intro list_all2_appendI may_substitute_refl list.rel_intros may_substitute_map)
       (simp add: may_substitute_def)
qed (use d sole in \<open>auto simp: const_slot_def [of d c s] may_substitute_Label unassigned_def
      intro!: substitute_step\<close>)

subsection \<open>All copies of a body\<close>

text \<open>
  \<open>literal_copies\<close>: every copy the pass forwards has a literal source when the pass reaches it, that is
  after the copies before it have been forwarded.
\<close>

function literal_copies :: "(string \<Rightarrow> nat) \<Rightarrow> instr list \<Rightarrow> bool" where
  "literal_copies counts [] = True"
| "literal_copies counts (i # rest) =
     (case propagatable counts i of
        None \<Rightarrow> literal_copies counts rest
      | Some (d, VInt c) \<Rightarrow> literal_copies counts (map (substitute_value (VInt c) d) rest)
      | Some _ \<Rightarrow> False)"
  by pat_completeness auto
termination
  by (relation "measure (\<lambda>(counts, b). length b)") auto

definition temps_disjoint :: "instr list \<Rightarrow> bool" where
  "temps_disjoint b \<longleftrightarrow> (\<forall>i \<in> set b. \<forall>d \<in> set (opt_name (instruction_destination i)).
     is_temp d \<longrightarrow> (\<forall>j \<in> set b. d \<notin> set (assigned j)))"

definition fresh_temps :: "'m ir_state \<Rightarrow> bool" where
  "fresh_temps s \<longleftrightarrow> (\<forall>x. is_temp x \<longrightarrow> slots s x = None)"

lemma destination_substitute [simp]:
  "instruction_destination (substitute_value s t i) = instruction_destination i"
  by (cases i) auto

lemma count_definitions_list:
  "count_definitions b d = count_list (concat (map (\<lambda>i. opt_name (instruction_destination i)) b)) d"
  by (simp add: count_definitions_def foldl_bump_zero)

lemma count_definitions_substitute [simp]:
  "count_definitions (pre @ i # map (substitute_value s t) rest) = count_definitions (pre @ i # rest)"
  by (simp add: fun_eq_iff count_definitions_list comp_def)

lemma temps_disjoint_substitute:
  "temps_disjoint (pre @ i # map (substitute_value s t) rest) = temps_disjoint (pre @ i # rest)"
  by (simp add: temps_disjoint_def substitute_frame ball_Un)

lemma sole_definition:
  assumes "count_definitions (pre @ i # rest) d = 1" and "instruction_destination i = Some d"
  shows "\<forall>j \<in> set pre \<union> set rest. instruction_destination j \<noteq> Some d"
proof -
  from assms have "count_definitions pre d + count_definitions rest d = 0"
    by (simp add: count_definitions_list)
  then show ?thesis by (auto simp: count_definitions_list count_list_zero_iff)
qed

lemma propagatable_Some:
  "propagatable counts i = Some (d, v) \<Longrightarrow> i = Copy d v \<and> is_temp d \<and> counts d = 1"
  by (cases i) (auto split: if_splits)

lemma propagate_copies_sim:
  assumes "runs (ir_machine W) (pre @ b) s out" and "literal_copies (count_definitions (pre @ b)) b"
    and "temps_disjoint (pre @ b)" and "fresh_temps s"
  shows "runs (ir_machine W) (pre @ propagate_copies (count_definitions (pre @ b)) b) s out"
  using assms
proof (induction "length b" arbitrary: pre b)
  case (Suc n)
  then obtain i rest where b: "b = i # rest" by (cases b) auto
  let ?n = "count_definitions (pre @ i # rest)"
  show ?case
  proof (cases "propagatable ?n i")
    case None
    with Suc.hyps(1) [of rest "pre @ [i]"] Suc.hyps(2) Suc.prems b show ?thesis by simp
  next
    case (Some p)
    with Suc.prems(2) b obtain d c where p: "p = (d, VInt c)"
      by (cases p) (auto split: ir_value.splits)
    from propagatable_Some Some p have i: "i = Copy d (VInt c)" "is_temp d" "?n d = 1" by auto
    let ?rest = "map (substitute_value (VInt c) d) rest"
    have "runs (ir_machine W) (pre @ i # ?rest) s out"
      using Suc.prems b sole_definition [OF i(3)] i(1,2)
      by (auto simp: temps_disjoint_def unassigned_def fresh_temps_def intro!: copy_propagated)
    with Suc.hyps(1) [of ?rest "pre @ [i]"] Suc.hyps(2) Suc.prems Some p b
    show ?thesis by (simp add: temps_disjoint_substitute)
  qed
qed simp

subsection \<open>Folding arithmetic\<close>

lemma word_of_int_and: "word_of_int (a AND c) = (word_of_int a AND word_of_int c :: word32)"
  and word_of_int_or: "word_of_int (a OR c) = (word_of_int a OR word_of_int c :: word32)"
  and word_of_int_xor: "word_of_int (a XOR c) = (word_of_int a XOR word_of_int c :: word32)"
  by (rule bit_word_eqI; simp add: bit_word_of_int_iff bit_and_iff bit_or_iff bit_xor_iff)+

lemma fold_binary_operation_act:
  assumes "fold_binary_operation i = Some j" shows "ir_act W j s = ir_act W i s"
proof -
  from assms obtain d a op c where i: "i = BinaryOperation d (VInt a) op (VInt c)"
    by (cases i rule: fold_binary_operation.cases) auto
  with assms show ?thesis
    by (auto simp: foldable_binary_ops_def ir_act_def binop_def word_of_int_and word_of_int_or
        word_of_int_xor split: if_splits)
qed

lemma fold_or_keep_step:
  assumes R: "R x y" and L: "\<And>l. rel_option R (find_label l b) (find_label l b')"
  shows "conf_sim R (\<lambda>s t. s = t \<and> True)
    (next_conf (ir_machine W) b i x s) (next_conf (ir_machine W) b' (fold_or_keep i) y s)"
proof (cases "fold_binary_operation i")
  case None
  then have "fold_or_keep i = i" by (simp add: fold_or_keep_def)
  with conf_eq_sim [OF irm.same_head, of i R x y b b' W s] R L show ?thesis by simp
next
  case (Some j)
  then obtain d a op c e where i: "i = BinaryOperation d (VInt a) op (VInt c)" and j: "j = Copy d (VInt e)"
    by (cases i rule: fold_binary_operation.cases) (auto split: if_splits)
  then have "next_conf (ir_machine W) b i x s = plain_step (ir_machine W) b i x s"
    "next_conf (ir_machine W) b' j y s = plain_step (ir_machine W) b' j y s" by simp_all
  with Some plain_step_refines [where M = "ir_machine W" and I = "\<lambda>_. True", OF _ R L]
    fold_binary_operation_act [OF Some, of W] show ?thesis by (simp add: fold_or_keep_def)
qed

lemma fold_or_keep_Label: "i = Label l \<longleftrightarrow> fold_or_keep i = Label l"
  by (cases i rule: fold_binary_operation.cases) (auto simp: fold_or_keep_def)

lemma fold_sim:
  assumes "runs (ir_machine W) b s out"
  shows "runs (ir_machine W) (map fold_or_keep b) s out"
proof (rule pointwise_sim [OF assms, where P = "\<lambda>i j. j = fold_or_keep i" and I = "\<lambda>_. True"])
  show "list_all2 (\<lambda>i j. j = fold_or_keep i) b (map fold_or_keep b)"
    by (induction b) auto
next
  fix i j :: instr and x y s
  assume "j = fold_or_keep i" "list_all2 (\<lambda>i j. j = fold_or_keep i) x y" "suffix x b"
    and L: "\<And>l. rel_option (\<lambda>x y. list_all2 (\<lambda>i j. j = fold_or_keep i) x y \<and> suffix x b)
      (find_label l b) (find_label l (map fold_or_keep b))"
  then show "conf_sim (\<lambda>x y. list_all2 (\<lambda>i j. j = fold_or_keep i) x y \<and> suffix x b) (\<lambda>s t. s = t \<and> True)
      (next_conf (ir_machine W) b i x s) (next_conf (ir_machine W) (map fold_or_keep b) j y s)"
    using fold_or_keep_step [OF _ L, of x y W i s] by simp
qed (use fold_or_keep_Label in auto)

lemma propagate_sim:
  assumes "literal_copies (count_definitions b) b" "temps_disjoint b" "fresh_temps s"
    and "runs (ir_machine W) b s out"
  shows "runs (ir_machine W) (propagate b) s out"
  using fold_sim [OF propagate_copies_sim [of W "[]" b s out]] assms by (simp add: propagate_def)

subsection \<open>Properties\<close>

text \<open>
  C8. One pass of copy and constant propagation with folding keeps every run of a body in which each copy
  the pass forwards has a literal source: same result, same final state.  Folding happens on unbounded
  integers and running on 32-bit words.
\<close>

theorem propagate_literals_correct:
  assumes "literal_copies (count_definitions b) b" "temps_disjoint b" "fresh_temps s"
    and "runs (ir_machine W) b s out"
  shows "runs (ir_machine W) (propagate b) s out"
  using propagate_sim [OF assms] .

definition plain_world :: "unit world" where
  "plain_world = \<lparr>w_addr = \<lambda>_. 0, w_less = \<lambda>a c. unat a < unat c, w_binop = \<lambda>_ _ _. None,
     w_pure = \<lambda>_ _ _ _. None, w_effect = \<lambda>_ _ _ _. None, w_carry = \<lambda>_ _ _. None\<rparr>"

definition start :: "slots \<Rightarrow> unit ir_state" where
  "start sl = \<lparr>slots = sl, store = ()\<rparr>"

lemma propagate_literals_correct_witness:
  "runs (ir_machine plain_world)
     (propagate [Copy ''_ir_0'' (VInt (-1)), BinaryOperation ''_ir_1'' (VName ''_ir_0'') ''+'' (VInt 3),
        Copy ''x'' (VName ''_ir_1''), Return (Some (VName ''x''))])
     (start Map.empty)
     (Some (Some 2), start [''_ir_0'' \<mapsto> -1, ''_ir_1'' \<mapsto> 2, ''x'' \<mapsto> 2])"
proof (rule propagate_literals_correct)
  show "runs (ir_machine plain_world)
     [Copy ''_ir_0'' (VInt (-1)), BinaryOperation ''_ir_1'' (VName ''_ir_0'') ''+'' (VInt 3),
      Copy ''x'' (VName ''_ir_1''), Return (Some (VName ''x''))]
     (start Map.empty)
     (Some (Some 2), start [''_ir_0'' \<mapsto> -1, ''_ir_1'' \<mapsto> 2, ''x'' \<mapsto> 2])"
    by (rule runs_fuel [of 4]) (simp add: plain_step_def ir_act_def binop_def set_slot_def start_def
        eval_nat_numeral)
qed (simp_all add: count_definitions_def bump_def is_temp_def temp_prefix_def starts_with_def
      temps_disjoint_def assigned_def fresh_temps_def start_def)

text \<open>
  Forwarding a copy of a program variable is not sound: the pass moves the read of \<open>y\<close> past the
  assignment to \<open>y\<close>.  The body is the shape \<open>_lower_assign_expr\<close> emits, a copy of a variable to a
  temp that is read after the variable has changed; the original returns 3, the result returns 5.
\<close>

theorem propagate_moves_variable_read:
  "propagate [Copy ''_ir_0'' (VName ''y''), Copy ''y'' (VInt 5), Return (Some (VName ''_ir_0''))] =
     [Copy ''_ir_0'' (VName ''y''), Copy ''y'' (VInt 5), Return (Some (VName ''y''))] \<and>
   runs (ir_machine plain_world)
     [Copy ''_ir_0'' (VName ''y''), Copy ''y'' (VInt 5), Return (Some (VName ''_ir_0''))]
     (start [''y'' \<mapsto> 3]) (Some (Some 3), start [''y'' \<mapsto> 5, ''_ir_0'' \<mapsto> 3]) \<and>
   runs (ir_machine plain_world)
     (propagate [Copy ''_ir_0'' (VName ''y''), Copy ''y'' (VInt 5), Return (Some (VName ''_ir_0''))])
     (start [''y'' \<mapsto> 3]) (Some (Some 5), start [''y'' \<mapsto> 5, ''_ir_0'' \<mapsto> 3])"
proof (intro conjI)
  show eq: "propagate [Copy ''_ir_0'' (VName ''y''), Copy ''y'' (VInt 5), Return (Some (VName ''_ir_0''))] =
     [Copy ''_ir_0'' (VName ''y''), Copy ''y'' (VInt 5), Return (Some (VName ''y''))]"
    by (simp add: propagate_def fold_or_keep_def count_definitions_def bump_def is_temp_def
        temp_prefix_def starts_with_def subst_operand_def)
  show "runs (ir_machine plain_world)
     [Copy ''_ir_0'' (VName ''y''), Copy ''y'' (VInt 5), Return (Some (VName ''_ir_0''))]
     (start [''y'' \<mapsto> 3]) (Some (Some 3), start [''y'' \<mapsto> 5, ''_ir_0'' \<mapsto> 3])"
    by (rule runs_fuel [of 3]) (simp add: plain_step_def ir_act_def set_slot_def start_def
        eval_nat_numeral fun_upd_twist)
  show "runs (ir_machine plain_world)
     (propagate [Copy ''_ir_0'' (VName ''y''), Copy ''y'' (VInt 5), Return (Some (VName ''_ir_0''))])
     (start [''y'' \<mapsto> 3]) (Some (Some 5), start [''y'' \<mapsto> 5, ''_ir_0'' \<mapsto> 3])"
    unfolding eq by (rule runs_fuel [of 3]) (simp add: plain_step_def ir_act_def set_slot_def start_def
        eval_nat_numeral fun_upd_twist)
qed

text \<open>
  The literal comparison of \<open>_fold_constant_branches\<close> is on unbounded integers: the branch on
  \<open>-1 == 0xFFFFFFFF\<close>, which compares equal words and falls through, is replaced by a jump.
\<close>

theorem constant_branch_ignores_width:
  "fold_constant_branches [BranchFalse (VInt (-1)) ''=='' (VInt 4294967295) ''.l'', Return (Some (VInt 1)),
      Label ''.l'', Return (Some (VInt 0))] =
     [Jump ''.l'', Return (Some (VInt 1)), Label ''.l'', Return (Some (VInt 0))] \<and>
   runs (ir_machine plain_world)
     [BranchFalse (VInt (-1)) ''=='' (VInt 4294967295) ''.l'', Return (Some (VInt 1)),
      Label ''.l'', Return (Some (VInt 0))] (start Map.empty) (Some (Some 1), start Map.empty) \<and>
   runs (ir_machine plain_world)
     [Jump ''.l'', Return (Some (VInt 1)), Label ''.l'', Return (Some (VInt 0))]
     (start Map.empty) (Some (Some 0), start Map.empty)"
proof (intro conjI)
  show "runs (ir_machine plain_world)
     [BranchFalse (VInt (-1)) ''=='' (VInt 4294967295) ''.l'', Return (Some (VInt 1)),
      Label ''.l'', Return (Some (VInt 0))] (start Map.empty) (Some (Some 1), start Map.empty)"
    by (rule runs_fuel [of "Suc (Suc 0)"]) (simp add: ir_holds_def compare_words_def plain_step_def ir_act_def
        start_def)
  show "runs (ir_machine plain_world)
     [Jump ''.l'', Return (Some (VInt 1)), Label ''.l'', Return (Some (VInt 0))]
     (start Map.empty) (Some (Some 0), start Map.empty)"
    by (rule runs_fuel [of "Suc (Suc 0)"]) (simp add: goto_label_def plain_step_def ir_act_def start_def
       )
qed (simp add: evaluate_constant_comparison_def)

end
