(* ===== verification/Ssa_Findings.thy ===== *)
theory Ssa_Findings
  imports Propagation Ssa_Passes
begin

text \<open>
  Bodies on which \<^verbatim>\<open>optimize_ssa\<close> does not keep the result of a run, on the machine of
  \<open>Ir_Machine\<close>: two lost copies and a collision of names.
\<close>

definition returns :: "instr list \<Rightarrow> slots \<Rightarrow> word32 \<Rightarrow> bool" where
  "returns b sl v = (\<exists>s. runs (ir_machine plain_world) b (start sl) (Some (Some v), s))"

lemma returns_fuel:
  "run_fuel n (next_conf (ir_machine plain_world)) b b (start sl) = Some (Some (Some v), s) \<Longrightarrow> returns b sl v"
  unfolding returns_def by (rule exI, rule runs_fuel)

lemmas machine_simps = plain_step_def ir_act_def binop_def ir_holds_def compare_words_def set_slot_def start_def goto_label_def

text \<open>A join that one edge enters by a branch and the next by falling through.\<close>

definition two_ways_in :: "instr list" where
  "two_ways_in = [Copy ''x'' (VInt 5), BranchFalse (VName ''c'') ''!='' (VInt 0) ''.B'',
     Copy ''x'' (VInt 7), BranchFalse (VName ''d'') ''!='' (VInt 0) ''.C'',
     Label ''.B'', Return (Some (VName ''x'')), Label ''.C'', Return (Some (VInt 0))]"

text \<open>
  C35. Critical edges are split without a jump for a conditional branch that falls through: the block falls
  into the copies of another edge.  With \<open>c\<close> and \<open>d\<close> nonzero the body returns 7 and the optimized
  one 5.
\<close>

theorem split_edge_falls_into_other_copies:
  "\<exists>b'. optimize_ssa [] two_ways_in = Some b' \<and>
     returns two_ways_in [''c'' \<mapsto> 1, ''d'' \<mapsto> 1] 7 \<and> returns b' [''c'' \<mapsto> 1, ''d'' \<mapsto> 1] 5"
proof (intro exI conjI)
  show "optimize_ssa [] two_ways_in = Some [Copy ''x'' (VInt 5), BranchFalse (VName ''c'') ''!='' (VInt 0) ''.ssa_split_0'',
      Copy ''x'' (VInt 7), BranchFalse (VName ''d'') ''!='' (VInt 0) ''.C'',
      Label ''.ssa_split_0'', Copy ''x'' (VInt 5), Jump ''.B'', Label ''.ssa_split_1'', Copy ''x'' (VInt 7), Jump ''.B'',
      Label ''.B'', Return (Some (VName ''x'')), Label ''.C'', Return (Some (VInt 0))]"
    by code_simp
  show "returns two_ways_in [''c'' \<mapsto> 1, ''d'' \<mapsto> 1] 7"
    by (rule returns_fuel [of 6]) (simp add: two_ways_in_def machine_simps eval_nat_numeral)
  show "returns [Copy ''x'' (VInt 5), BranchFalse (VName ''c'') ''!='' (VInt 0) ''.ssa_split_0'',
      Copy ''x'' (VInt 7), BranchFalse (VName ''d'') ''!='' (VInt 0) ''.C'',
      Label ''.ssa_split_0'', Copy ''x'' (VInt 5), Jump ''.B'', Label ''.ssa_split_1'', Copy ''x'' (VInt 7), Jump ''.B'',
      Label ''.B'', Return (Some (VName ''x'')), Label ''.C'', Return (Some (VInt 0))] [''c'' \<mapsto> 1, ''d'' \<mapsto> 1] 5"
    by (rule returns_fuel [of 9]) (simp add: machine_simps eval_nat_numeral)
qed

text \<open>An expression whose first destination is written again before the expression is repeated.\<close>

definition overwritten_expression :: "instr list" where
  "overwritten_expression = [BinaryOperation ''x'' (VName ''a'') ''+'' (VName ''b''), Copy ''x'' (VInt 5),
     BinaryOperation ''y'' (VName ''a'') ''+'' (VName ''b''), Return (Some (VName ''y''))]"

text \<open>
  Numbering values and then stripping versions reads a variable after it has changed: the second
  \<open>a + b\<close> becomes a copy of the first version of \<open>x\<close>, which after stripping is the current one.
\<close>

theorem stripped_copy_reads_overwritten_variable:
  "\<exists>b'. optimize_ssa [] overwritten_expression = Some b' \<and>
     returns overwritten_expression [''a'' \<mapsto> 1, ''b'' \<mapsto> 2] 3 \<and> returns b' [''a'' \<mapsto> 1, ''b'' \<mapsto> 2] 5"
proof (intro exI conjI)
  show "optimize_ssa [] overwritten_expression = Some [BinaryOperation ''x'' (VName ''a'') ''+'' (VName ''b''),
      Copy ''x'' (VInt 5), Copy ''y'' (VName ''x''), Return (Some (VName ''y''))]"
    by code_simp
  show "returns overwritten_expression [''a'' \<mapsto> 1, ''b'' \<mapsto> 2] 3"
    by (rule returns_fuel [of 4]) (simp add: overwritten_expression_def machine_simps eval_nat_numeral)
  show "returns [BinaryOperation ''x'' (VName ''a'') ''+'' (VName ''b''),
      Copy ''x'' (VInt 5), Copy ''y'' (VName ''x''), Return (Some (VName ''y''))] [''a'' \<mapsto> 1, ''b'' \<mapsto> 2] 5"
    by (rule returns_fuel [of 4]) (simp add: machine_simps eval_nat_numeral)
qed

text \<open>
  A variable whose own name has the form of a version is taken for that version: the body reads
  \<open>x_ssa0\<close>, the optimized one the literal assigned to \<open>x\<close>.
\<close>

theorem version_captures_variable:
  "optimize_ssa [] [Copy ''x'' (VInt 1), Return (Some (VName ''x_ssa0''))] =
     Some [Copy ''x'' (VInt 1), Return (Some (VInt 1))] \<and>
   returns [Copy ''x'' (VInt 1), Return (Some (VName ''x_ssa0''))] [''x_ssa0'' \<mapsto> 9] 9 \<and>
   returns [Copy ''x'' (VInt 1), Return (Some (VInt 1))] [''x_ssa0'' \<mapsto> 9] 1"
proof (intro conjI)
  show "optimize_ssa [] [Copy ''x'' (VInt 1), Return (Some (VName ''x_ssa0''))] =
     Some [Copy ''x'' (VInt 1), Return (Some (VInt 1))]"
    by code_simp
  show "returns [Copy ''x'' (VInt 1), Return (Some (VName ''x_ssa0''))] [''x_ssa0'' \<mapsto> 9] 9"
    by (rule returns_fuel [of 2]) (simp add: machine_simps eval_nat_numeral)
  show "returns [Copy ''x'' (VInt 1), Return (Some (VInt 1))] [''x_ssa0'' \<mapsto> 9] 1"
    by (rule returns_fuel [of 2]) (simp add: machine_simps eval_nat_numeral)
qed

end
