(* ===== verification/Regalloc.thy ===== *)
theory Regalloc
  imports Cfg Results "HOL-Library.Char_ord" "HOL-Library.List_Lexorder" "HOL-Library.Product_Lexorder"
begin

text \<open>
  The register allocator of \<^verbatim>\<open>cc/regalloc.py\<close>: interference by backward dataflow over the blocks, then
  Chaitin-Briggs colouring.  A set of names is a list in which order and repetitions do not count, a
  dictionary the association list of its items.  A missing key, a chain of aliases that does not end and
  the allocator's own exception are the values of \<open>regalloc_error\<close>.
\<close>

datatype regalloc_error =
    Precolored_clash string string string
  | Missing_key string
  | Alias_cycle string

record allocation =
  al_homes :: "(string \<times> string) list"
  al_spilled :: "string list"

record cost_model =
  co_save :: "(string \<times> (string \<times> int) list) list"
  co_benefit :: "(string \<times> int) list"

record register_constraints =
  rc_allowed :: "(string \<times> string list) list"
  rc_pool :: "string list"
  rc_precolored :: "(string \<times> string) list"

type_synonym graph = "(string \<times> string list) list"

subsection \<open>What an instruction reads and writes\<close>

text \<open>The four tuples of classes; together they name every class, so the \<open>RegallocError\<close> of an unknown
  class is unreachable.\<close>

fun is_call_type :: "instr \<Rightarrow> bool" where
  "is_call_type (Call _ _ _) = True"
| "is_call_type (TailCall _ _) = True"
| "is_call_type (CarryBranch _ _ _) = True"
| "is_call_type _ = False"

fun instruction_defs :: "instr \<Rightarrow> string list" where
  "instruction_defs (Address _ d _ _) = [d]"
| "instruction_defs (AddressOf _ d) = [d]"
| "instruction_defs (BinaryOperation d _ _ _) = [d]"
| "instruction_defs (Copy d _) = [d]"
| "instruction_defs (Index _ d _) = [d]"
| "instruction_defs (Call _ d _) = (case d of None \<Rightarrow> [] | Some x \<Rightarrow> [x])"
| "instruction_defs (Load _ d _ _) = [d]"
| "instruction_defs _ = []"

function regalloc_iter_ast_var_names :: "node \<Rightarrow> string list" where
  "regalloc_iter_ast_var_names n =
     (case own_var_name n of
        Some x \<Rightarrow> [x]
      | None \<Rightarrow> bare_names n @ concat (map regalloc_iter_ast_var_names (ast_children n)))"
  by pat_completeness auto
termination
  by (relation "measure size") (auto dest: ast_children_smaller)

declare regalloc_iter_ast_var_names.simps [simp del]

definition read_operands :: "instr \<Rightarrow> string list" where
  "read_operands i = concat (map (\<lambda>v. case v of VName x \<Rightarrow> [x] | _ \<Rightarrow> []) (value_fields i))"

fun instruction_uses :: "instr \<Rightarrow> string list"
and case_uses :: "switch_case \<Rightarrow> string list" where
  "instruction_uses (Switch cases discriminant e a) =
     regalloc_iter_ast_var_names discriminant @ concat (map case_uses cases)"
| "instruction_uses (Access n) = regalloc_iter_ast_var_names n"
| "instruction_uses (Block n) = regalloc_iter_ast_var_names n"
| "instruction_uses (CarryBranch n t w) = regalloc_iter_ast_var_names n"
| "instruction_uses (Jump t) = []"
| "instruction_uses (Label l) = []"
| "instruction_uses (LoopBoundary c e p) = []"
| "instruction_uses (InlineAsm s) = []"
| "instruction_uses (Index b d i) = read_operands (Index b d i) @ [b]"
| "instruction_uses (IndexAssign b i s) = read_operands (IndexAssign b i s) @ [b]"
| "instruction_uses (RepString op es d s c f sg iv) =
     read_operands (RepString op es d s c f sg iv) @ [d] @ (case s of None \<Rightarrow> [] | Some x \<Rightarrow> [x])"
| "instruction_uses i = read_operands i"
| "case_uses (SwitchCase body v) = concat (map instruction_uses body)"

subsection \<open>Liveness\<close>

definition block_instructions :: "block \<Rightarrow> instr list" where
  "block_instructions bb = b_instrs bb @ (case b_term bb of None \<Rightarrow> [] | Some t \<Rightarrow> [t])"

definition restrict :: "string list \<Rightarrow> string list \<Rightarrow> string list" where
  "restrict allocatable xs = filter (\<lambda>x. x \<in> set allocatable) xs"

definition union_list :: "string list \<Rightarrow> string list \<Rightarrow> string list" where
  "union_list xs ys = fold List.insert ys xs"

definition minus_list :: "string list \<Rightarrow> string list \<Rightarrow> string list" where
  "minus_list xs ys = filter (\<lambda>x. x \<notin> set ys) xs"

text \<open>The upward-exposed uses and the definitions of a block, accumulated forwards.\<close>

fun use_def :: "string list \<Rightarrow> string list \<times> string list \<Rightarrow> instr list \<Rightarrow> string list \<times> string list" where
  "use_def allocatable st [] = st"
| "use_def allocatable (us, ds) (i # is) =
     use_def allocatable
       (union_list us (minus_list (restrict allocatable (instruction_uses i)) ds),
        union_list ds (restrict allocatable (instruction_defs i))) is"

definition block_use_def :: "string list \<Rightarrow> cfg \<Rightarrow> nat \<Rightarrow> string list \<times> string list" where
  "block_use_def allocatable g k = use_def allocatable ([], []) (block_instructions (g_store g ! k))"

record liveness =
  lv_in :: "nat \<Rightarrow> string list"
  lv_out :: "nat \<Rightarrow> string list"

definition live_visit :: "string list \<Rightarrow> cfg \<Rightarrow> nat \<Rightarrow> liveness \<times> bool \<Rightarrow> liveness \<times> bool" where
  "live_visit allocatable g k st =
     (let (lv, changed) = st;
          new_out = fold (\<lambda>s acc. union_list acc (lv_in lv s)) (succs_of g k) [];
          (us, ds) = block_use_def allocatable g k;
          new_in = union_list us (minus_list new_out ds)
      in if set new_in \<noteq> set (lv_in lv k) \<or> set new_out \<noteq> set (lv_out lv k)
         then (\<lparr>lv_in = (lv_in lv)(k := new_in), lv_out = (lv_out lv)(k := new_out)\<rparr>, True)
         else st)"

definition live_pass :: "string list \<Rightarrow> cfg \<Rightarrow> liveness \<Rightarrow> liveness \<times> bool" where
  "live_pass allocatable g lv = fold (live_visit allocatable g) (g_order g) (lv, False)"

partial_function (option) live_loop :: "string list \<Rightarrow> cfg \<Rightarrow> liveness \<Rightarrow> liveness option" where
  "live_loop allocatable g lv =
     (if snd (live_pass allocatable g lv) then live_loop allocatable g (fst (live_pass allocatable g lv))
      else Some (fst (live_pass allocatable g lv)))"

declare live_loop.simps [code]

subsection \<open>Interference\<close>

record interference =
  in_graph :: graph
  in_across :: "((nat \<times> nat) \<times> string list) list"
  in_calls :: "string \<Rightarrow> nat"
  in_moves :: "(string \<times> string) list"

definition neighbours :: "graph \<Rightarrow> string \<Rightarrow> string list" where
  "neighbours g x = (case map_of g x of None \<Rightarrow> [] | Some ns \<Rightarrow> ns)"

definition add_neighbour :: "string \<Rightarrow> string \<Rightarrow> graph \<Rightarrow> graph" where
  "add_neighbour x y g = put_item x (List.insert y (neighbours g x)) g"

definition add_edge :: "string \<Rightarrow> string \<Rightarrow> graph \<Rightarrow> graph" where
  "add_edge x y g = (if x = y then g else add_neighbour y x (add_neighbour x y g))"

definition move_of :: "string list \<Rightarrow> instr \<Rightarrow> (string \<times> string) list" where
  "move_of allocatable i =
     (case i of
        Copy d (VName s) \<Rightarrow>
          if d \<in> set allocatable \<and> s \<in> set allocatable \<and> d \<noteq> s then [(min d s, max d s)] else []
      | _ \<Rightarrow> [])"

text \<open>
  One instruction of the backward walk.  \<open>live\<close> is what is live after it; the instruction is named by its
  block and position, where the code uses its identity.
\<close>

definition interfere_step ::
    "string list \<Rightarrow> nat \<times> nat \<Rightarrow> instr \<Rightarrow> string list \<times> interference \<Rightarrow> string list \<times> interference" where
  "interfere_step allocatable at i st =
     (let (live, r) = st;
          calls = (if is_call_type i then foldl bump (in_calls r) (remdups live) else in_calls r);
          defs = restrict allocatable (instruction_defs i);
          across = in_across r @ [(at, minus_list live defs)];
          graph = fold (\<lambda>d g. fold (add_edge d) live g) defs (in_graph r) in
      (union_list (minus_list live defs) (restrict allocatable (instruction_uses i)),
       \<lparr>in_graph = graph, in_across = across, in_calls = calls,
        in_moves = fold List.insert (move_of allocatable i) (in_moves r)\<rparr>))"

text \<open>The walk over a block from its last instruction, which stands at position \<open>n - 1\<close>.\<close>

fun interfere_block ::
    "string list \<Rightarrow> nat \<Rightarrow> instr list \<Rightarrow> string list \<times> interference \<Rightarrow> string list \<times> interference" where
  "interfere_block allocatable k [] st = st"
| "interfere_block allocatable k (i # reversed) st =
     interfere_block allocatable k reversed (interfere_step allocatable (k, length reversed) i st)"

definition interfere_blocks :: "string list \<Rightarrow> cfg \<Rightarrow> (nat \<Rightarrow> string list) \<Rightarrow> interference \<Rightarrow> interference" where
  "interfere_blocks allocatable g live_out r =
     fold (\<lambda>k r. snd (interfere_block allocatable k (rev (block_instructions (g_store g ! k))) (live_out k, r)))
       (g_order g) r"

definition build_interference :: "string list \<Rightarrow> instr list \<Rightarrow> interference option" where
  "build_interference allocatable body =
     Option.bind (build_cfg body) (\<lambda>g.
     Option.bind (live_loop allocatable g \<lparr>lv_in = \<lambda>_. [], lv_out = \<lambda>_. []\<rparr>) (\<lambda>lv.
       Some (interfere_blocks allocatable g (lv_out lv)
         \<lparr>in_graph = map (\<lambda>x. (x, [])) (remdups allocatable), in_across = [], in_calls = \<lambda>_. 0, in_moves = []\<rparr>)))"

end
