(* ===== verification/Coloring.thy ===== *)
theory Coloring
  imports Regalloc
begin

text \<open>
  The colourer of \<^verbatim>\<open>cc/regalloc.py\<close>: conservative coalescing, simplification with optimistic spilling, and
  selection by save cost.  The quotient of benefit and degree that orders spill candidates is compared by
  cross multiplication; the code compares floating-point quotients of small integers.
\<close>

subsection \<open>Coalescing\<close>

partial_function (option) resolve_alias :: "(string \<times> string) list \<Rightarrow> string \<Rightarrow> string option" where
  "resolve_alias alias x =
     (case map_of alias x of None \<Rightarrow> Some x | Some y \<Rightarrow> resolve_alias alias y)"

declare resolve_alias.simps [code]

definition representative :: "(string \<times> string) list \<Rightarrow> string \<Rightarrow> regalloc_error + string" where
  "representative alias x = (case resolve_alias alias x of None \<Rightarrow> Inl (Alias_cycle x) | Some r \<Rightarrow> Inr r)"

definition adjacent :: "graph \<Rightarrow> string \<Rightarrow> regalloc_error + string list" where
  "adjacent g x = (case map_of g x of None \<Rightarrow> Inl (Missing_key x) | Some ns \<Rightarrow> Inr ns)"

definition same_allowed :: "register_constraints \<Rightarrow> string \<Rightarrow> string \<Rightarrow> bool" where
  "same_allowed c x y = (map_option set (map_of (rc_allowed c) x) = map_option set (map_of (rc_allowed c) y))"

definition del_item :: "'k \<Rightarrow> ('k \<times> 'v) list \<Rightarrow> ('k \<times> 'v) list" where
  "del_item k m = filter (\<lambda>(k', v). k' \<noteq> k) m"

text \<open>The neighbours of \<open>y\<close> become neighbours of \<open>x\<close>, and \<open>y\<close> disappears.\<close>

definition redirect_neighbour :: "string \<Rightarrow> string \<Rightarrow> string \<Rightarrow> graph \<Rightarrow> graph" where
  "redirect_neighbour x y n g =
     (let g1 = put_item n (removeAll y (neighbours g n)) g;
          g2 = put_item n (List.insert x (neighbours g1 n)) g1
      in put_item x (List.insert n (neighbours g2 x)) g2)"

definition merge_nodes :: "string \<Rightarrow> string \<Rightarrow> graph \<Rightarrow> graph" where
  "merge_nodes x y g =
     (let g1 = fold (redirect_neighbour x y) (neighbours g y) g;
          g2 = put_item x (removeAll x (neighbours g1 x)) g1
      in del_item y g2)"

definition coalesce_pair ::
    "register_constraints \<Rightarrow> string \<times> string \<Rightarrow> graph \<times> (string \<times> string) list \<Rightarrow>
     regalloc_error + graph \<times> (string \<times> string) list" where
  "coalesce_pair c pair st =
     (let (graph, alias) = st; (first, second) = pair; k = length (rc_pool c) in
      bind_result (representative alias first) (\<lambda>a.
      bind_result (representative alias second) (\<lambda>b.
        if a = b then Inr st
        else
          bind_result (adjacent graph a) (\<lambda>na.
            if b \<in> set na then Inr st
            else if map_of (rc_precolored c) a \<noteq> None \<or> map_of (rc_precolored c) b \<noteq> None then Inr st
            else if \<not> same_allowed c a b then Inr st
            else
              bind_result (adjacent graph b) (\<lambda>nb.
              bind_result (map_result (adjacent graph) (remdups (union_list na nb))) (\<lambda>nns.
                if length (filter (\<lambda>ns. length (remdups ns) \<ge> k) nns) \<ge> k then Inr st
                else Inr (merge_nodes a b graph, (b, a) # alias)))))))"

fun coalesce_pairs ::
    "register_constraints \<Rightarrow> (string \<times> string) list \<Rightarrow> graph \<times> (string \<times> string) list \<Rightarrow>
     regalloc_error + graph \<times> (string \<times> string) list" where
  "coalesce_pairs c [] st = Inr st"
| "coalesce_pairs c (p # ps) st = bind_result (coalesce_pair c p st) (coalesce_pairs c ps)"

definition conservative_coalesce ::
    "register_constraints \<Rightarrow> graph \<Rightarrow> (string \<times> string) list \<Rightarrow>
     regalloc_error + graph \<times> (string \<times> string) list" where
  "conservative_coalesce c graph moves = coalesce_pairs c (sort moves) (graph, [])"

subsection \<open>Simplification\<close>

definition current_degree :: "graph \<Rightarrow> string list \<Rightarrow> string \<Rightarrow> nat" where
  "current_degree g remaining x = length (filter (\<lambda>n. n \<in> set remaining) (remdups (neighbours g x)))"

definition benefit_of :: "cost_model \<Rightarrow> string \<Rightarrow> int" where
  "benefit_of costs x = (case map_of (co_benefit costs) x of None \<Rightarrow> 0 | Some n \<Rightarrow> n)"

text \<open>Whether \<open>x\<close> comes before \<open>y\<close> in the order of \<open>_spill_metric\<close>; a degree of 0 counts as 1.\<close>

definition spills_before :: "cost_model \<Rightarrow> graph \<Rightarrow> string list \<Rightarrow> string \<Rightarrow> string \<Rightarrow> bool" where
  "spills_before costs g remaining x y =
     (let dx = int (max 1 (current_degree g remaining x)); dy = int (max 1 (current_degree g remaining y));
          l = benefit_of costs x * dy; r = benefit_of costs y * dx
      in l < r \<or> l = r \<and> x < y)"

definition pick_victim :: "cost_model \<Rightarrow> graph \<Rightarrow> string list \<Rightarrow> string" where
  "pick_victim costs g remaining =
     fold (\<lambda>x best. if spills_before costs g remaining x best then x else best) (tl remaining) (hd remaining)"

lemma fold_choice_in: "fold (\<lambda>x best. if P x best then x else best) xs b \<in> insert b (set xs)"
proof (induction xs arbitrary: b)
  case (Cons x xs)
  then show ?case using Cons.IH [of x] Cons.IH [of b] by (cases "P x b") auto
qed simp

lemma pick_victim_in: "remaining \<noteq> [] \<Longrightarrow> pick_victim costs g remaining \<in> set remaining"
  using fold_choice_in [of "spills_before costs g remaining" "tl remaining" "hd remaining"]
  by (cases remaining) (auto simp: pick_victim_def)

text \<open>The order in which nodes are removed; the last removed is coloured first.\<close>

function simplify_order :: "nat \<Rightarrow> cost_model \<Rightarrow> graph \<Rightarrow> string list \<Rightarrow> string list" where
  "simplify_order k costs g remaining =
     (if remaining = [] then []
      else
        (let simplifiable = sort (filter (\<lambda>x. current_degree g remaining x < k) remaining)
         in if simplifiable \<noteq> []
            then simplifiable @ simplify_order k costs g (filter (\<lambda>x. x \<notin> set simplifiable) remaining)
            else pick_victim costs g remaining #
              simplify_order k costs g (removeAll (pick_victim costs g remaining) remaining)))"
  by pat_completeness auto
termination
proof (relation "measure (\<lambda>(k, costs, g, remaining). length remaining)", goal_cases)
  case (2 k costs g remaining simplifiable)
  then obtain x where "x \<in> set simplifiable" "x \<in> set remaining"
    by (metis filter_is_subset last_in_set set_sort subsetD)
  then have "length (filter (\<lambda>x. x \<notin> set simplifiable) remaining) < length remaining"
    by (intro length_filter_less) auto
  then show ?case by simp
next
  case (3 k costs g remaining simplifiable)
  then show ?case using pick_victim_in [of remaining costs g]
    by (simp add: length_removeAll_less)
qed simp

declare simplify_order.simps [simp del]

subsection \<open>Selection\<close>

definition allowed_registers :: "register_constraints \<Rightarrow> string \<Rightarrow> string list" where
  "allowed_registers c x =
     (case map_of (rc_allowed c) x of
        None \<Rightarrow> rc_pool c
      | Some permitted \<Rightarrow> filter (\<lambda>r. r \<in> set permitted) (rc_pool c))"

definition save_cost :: "cost_model \<Rightarrow> string \<Rightarrow> string \<Rightarrow> int" where
  "save_cost costs x r =
     (case map_of (co_save costs) x of
        None \<Rightarrow> 0
      | Some m \<Rightarrow> (case map_of m r of None \<Rightarrow> 0 | Some n \<Rightarrow> n))"

text \<open>\<open>min(legal, key=...)\<close>: the least cost, then the least position in the pool.\<close>

definition cheaper :: "register_constraints \<Rightarrow> cost_model \<Rightarrow> string \<Rightarrow> string \<Rightarrow> string \<Rightarrow> bool" where
  "cheaper c costs x r r' =
     (save_cost costs x r < save_cost costs x r' \<or>
      save_cost costs x r = save_cost costs x r' \<and> the (position r (rc_pool c)) < the (position r' (rc_pool c)))"

definition choose_register :: "register_constraints \<Rightarrow> cost_model \<Rightarrow> string \<Rightarrow> string list \<Rightarrow> string" where
  "choose_register c costs x legal =
     fold (\<lambda>r best. if cheaper c costs x r best then r else best) (tl legal) (hd legal)"

definition select_one ::
    "register_constraints \<Rightarrow> cost_model \<Rightarrow> graph \<Rightarrow> string \<Rightarrow> (string \<times> string) list \<Rightarrow> (string \<times> string) list" where
  "select_one c costs g x homes =
     (let used = List.map_filter (map_of homes) (neighbours g x);
          legal = filter (\<lambda>r. r \<notin> set used) (allowed_registers c x)
      in if legal = [] then homes
         else
           (let choice = choose_register c costs x legal
            in if map_of (co_benefit costs) x \<noteq> None \<and> benefit_of costs x \<le> save_cost costs x choice then homes
               else put_item x choice homes))"

definition precolor_clash :: "register_constraints \<Rightarrow> graph \<Rightarrow> regalloc_error option" where
  "precolor_clash c g =
     (case concat (map (\<lambda>(x, r). map (\<lambda>n. Precolored_clash x n r)
         (filter (\<lambda>n. n \<noteq> x \<and> map_of (rc_precolored c) n = Some r) (neighbours g x))) (rc_precolored c)) of
        [] \<Rightarrow> None | e # _ \<Rightarrow> Some e)"

text \<open>Every value inherits the home of its representative, or is spilled.\<close>

fun expand_homes ::
    "(string \<times> string) list \<Rightarrow> (string \<times> string) list \<Rightarrow> string list \<Rightarrow> allocation \<Rightarrow> regalloc_error + allocation" where
  "expand_homes alias homes [] al = Inr al"
| "expand_homes alias homes (x # xs) al =
     bind_result (representative alias x) (\<lambda>r.
       case map_of homes r of
         Some h \<Rightarrow> expand_homes alias homes xs (al\<lparr>al_homes := put_item x h (al_homes al)\<rparr>)
       | None \<Rightarrow> expand_homes alias homes xs (al\<lparr>al_spilled := List.insert x (al_spilled al)\<rparr>))"

definition color ::
    "register_constraints \<Rightarrow> cost_model \<Rightarrow> graph \<Rightarrow> (string \<times> string) list \<Rightarrow> regalloc_error + allocation" where
  "color c costs g moves =
     (case precolor_clash c g of
        Some e \<Rightarrow> Inl e
      | None \<Rightarrow>
          bind_result (conservative_coalesce c g moves) (\<lambda>(merged, alias).
            let nodes = filter (\<lambda>x. map_of (rc_precolored c) x = None) (map fst merged);
                order = simplify_order (length (rc_pool c)) costs merged nodes;
                homes = fold (select_one c costs merged) (rev order) (rc_precolored c)
            in expand_homes alias homes (map fst g) \<lparr>al_homes = [], al_spilled = []\<rparr>))"

definition allocate ::
    "string list \<Rightarrow> register_constraints \<Rightarrow> cost_model \<Rightarrow> instr list \<Rightarrow> (regalloc_error + allocation) option" where
  "allocate allocatable c costs body =
     map_option (\<lambda>r. color c costs (in_graph r) (in_moves r)) (build_interference allocatable body)"

end
