(* ===== verification/Coloring_Correct.thy ===== *)
theory Coloring_Correct
  imports Coloring
begin

text \<open>
  Correctness of the colourer: neighbours never share a register, every home is one the constraints allow,
  and every value is homed or spilled, through coalescing.
\<close>

subsection \<open>Graphs\<close>

definition nodes :: "graph \<Rightarrow> string set" where
  "nodes g = fst ` set g"

definition nbs :: "graph \<Rightarrow> string \<Rightarrow> string set" where
  "nbs g x = set (neighbours g x)"

definition good_graph :: "graph \<Rightarrow> bool" where
  "good_graph g = (\<forall>x y. y \<in> nbs g x \<longrightarrow> x \<noteq> y \<and> x \<in> nodes g \<and> y \<in> nodes g \<and> x \<in> nbs g y)"

lemma nodes_dom: "nodes g = dom (map_of g)"
  by (simp add: nodes_def dom_map_of_conv_image_fst)

lemma good_graphD:
  assumes "good_graph g" "y \<in> nbs g x"
  shows "x \<noteq> y" "x \<in> nodes g" "y \<in> nodes g" "x \<in> nbs g y"
  using assms unfolding good_graph_def by blast+

lemma nbs_put_item [simp]: "nbs (put_item x ns g) z = (if z = x then set ns else nbs g z)"
  by (cases "z = x") (simp_all add: nbs_def neighbours_def)

lemma nodes_put_item [simp]: "nodes (put_item x ns g) = insert x (nodes g)"
  by (auto simp: nodes_dom)

lemma set_neighbours [simp]: "set (neighbours g x) = nbs g x"
  by (simp add: nbs_def)

lemma map_of_del_item: "map_of (del_item y g) z = (if z = y then None else map_of g z)"
  by (induction g) (auto simp: del_item_def)

lemma nbs_del_item [simp]: "nbs (del_item y g) z = (if z = y then {} else nbs g z)"
  by (simp add: nbs_def neighbours_def map_of_del_item)

lemma nodes_del_item [simp]: "nodes (del_item y g) = nodes g - {y}"
  by (auto simp: nodes_dom map_of_del_item dom_def split: if_splits)

lemma adjacent_Inr: "adjacent g x = Inr ns \<longleftrightarrow> map_of g x = Some ns"
  by (auto simp: adjacent_def split: option.splits)

lemma adjacent_node: "adjacent g x = Inr ns \<Longrightarrow> x \<in> nodes g \<and> set ns = nbs g x"
  by (auto simp: adjacent_Inr nodes_dom nbs_def neighbours_def)

subsection \<open>Merging two nodes\<close>

lemma redirect_neighbour:
  assumes "n \<noteq> x" "n \<noteq> y"
  shows "nbs (redirect_neighbour x y n g) z =
      (if z = n then insert x (nbs g n - {y}) else if z = x then insert n (nbs g x) else nbs g z)"
    and "nodes (redirect_neighbour x y n g) = insert x (insert n (nodes g))"
  using assms by (auto simp: redirect_neighbour_def Let_def)

lemma redirect_neighbours:
  assumes "x \<notin> set ns" "y \<notin> set ns" "x \<noteq> y"
  shows "nbs (fold (redirect_neighbour x y) ns g) z =
      (if z \<in> set ns then insert x (nbs g z - {y}) else if z = x then nbs g x \<union> set ns else nbs g z)"
  using assms
proof (induction ns arbitrary: g)
  case (Cons n ns)
  then have n: "n \<noteq> x" "n \<noteq> y" by auto
  have IH: "nbs (fold (redirect_neighbour x y) ns (redirect_neighbour x y n g)) z =
      (if z \<in> set ns then insert x (nbs (redirect_neighbour x y n g) z - {y})
       else if z = x then nbs (redirect_neighbour x y n g) x \<union> set ns else nbs (redirect_neighbour x y n g) z)"
    using Cons.IH Cons.prems by simp
  show ?case
  proof (cases "z = x")
    case True
    then show ?thesis using IH Cons.prems n by (auto simp: redirect_neighbour(1) [OF n])
  next
    case False
    then show ?thesis using Cons.prems n by (auto simp: IH redirect_neighbour(1) [OF n])
  qed
qed simp

lemma redirect_neighbours_nodes:
  assumes "x \<notin> set ns" "y \<notin> set ns"
  shows "insert x (nodes (fold (redirect_neighbour x y) ns g)) = insert x (nodes g \<union> set ns)"
  using assms
proof (induction ns arbitrary: g)
  case (Cons n ns)
  then have n: "n \<noteq> x" "n \<noteq> y" by auto
  show ?case using Cons.IH [of "redirect_neighbour x y n g"] Cons.prems by (auto simp: redirect_neighbour(2) [OF n])
qed simp

lemma merge_nodes:
  assumes g: "good_graph g" and xy: "x \<noteq> y" "y \<notin> nbs g x" and nodes: "x \<in> nodes g" "y \<in> nodes g"
  shows "nodes (merge_nodes x y g) = nodes g - {y}"
    and "nbs (merge_nodes x y g) z =
      (if z = y then {} else if z = x then nbs g x \<union> nbs g y
       else if y \<in> nbs g z then insert x (nbs g z - {y}) else nbs g z)"
proof -
  define g1 where "g1 = fold (redirect_neighbour x y) (neighbours g y) g"
  have ns: "x \<notin> set (neighbours g y)" "y \<notin> set (neighbours g y)"
    using good_graphD(1,4) [OF g] xy unfolding set_neighbours by blast+
  have old: "nbs g1 z = (if z \<in> nbs g y then insert x (nbs g z - {y})
      else if z = x then nbs g x \<union> nbs g y else nbs g z)" for z
    using redirect_neighbours [OF ns xy(1), of g z] by (simp add: g1_def)
  have nodes1: "insert x (nodes g1) = nodes g"
    using redirect_neighbours_nodes [OF ns, of g] nodes good_graphD(3) [OF g, of _ y] by (auto simp: g1_def)
  have x: "x \<notin> nbs g x" "x \<notin> nbs g y" using good_graphD(1,4) [OF g] xy(2) by blast+
  have mg: "merge_nodes x y g = del_item y (put_item x (removeAll x (neighbours g1 x)) g1)"
    by (simp add: merge_nodes_def g1_def Let_def)
  show "nodes (merge_nodes x y g) = nodes g - {y}"
    unfolding mg using nodes1 by auto
  have sym: "z \<in> nbs g y \<longleftrightarrow> y \<in> nbs g z" using good_graphD(4) [OF g] by blast
  show "nbs (merge_nodes x y g) z =
      (if z = y then {} else if z = x then nbs g x \<union> nbs g y
       else if y \<in> nbs g z then insert x (nbs g z - {y}) else nbs g z)"
  proof (cases "z = x")
    case True
    then show ?thesis using x xy ns by (simp add: mg old)
  next
    case False
    then show ?thesis using sym by (simp add: mg old)
  qed
qed

lemma good_merge_nodes:
  assumes g: "good_graph g" and xy: "x \<noteq> y" "y \<notin> nbs g x" and nodes: "x \<in> nodes g" "y \<in> nodes g"
  shows "good_graph (merge_nodes x y g)"
proof -
  have sym: "v \<in> nbs g u \<longleftrightarrow> u \<in> nbs g v" for u v using good_graphD(4) [OF g] by blast
  have irr: "u \<notin> nbs g u" for u using good_graphD(1) [OF g] by blast
  have ends: "v \<in> nbs g u \<Longrightarrow> u \<in> nodes g" for u v using good_graphD(2) [OF g] by blast
  show ?thesis
    unfolding good_graph_def merge_nodes [OF assms]
  proof (intro allI impI)
    fix u v
    assume v: "v \<in> (if u = y then {} else if u = x then nbs g x \<union> nbs g y
       else if y \<in> nbs g u then insert x (nbs g u - {y}) else nbs g u)"
    then have "u \<noteq> y" by auto
    moreover have "v \<noteq> y" using v xy sym [of x y] irr [of y] by (auto split: if_splits)
    moreover have "u \<noteq> v" using v xy sym [of x y] irr by (auto split: if_splits)
    moreover have "u \<in> nodes g" using v ends nodes by (auto split: if_splits)
    moreover have "v \<in> nodes g" using v ends sym nodes by (auto split: if_splits)
    moreover have "u \<in> (if v = y then {} else if v = x then nbs g x \<union> nbs g y
       else if y \<in> nbs g v then insert x (nbs g v - {y}) else nbs g v)"
      using v \<open>u \<noteq> y\<close> \<open>v \<noteq> y\<close> \<open>u \<noteq> v\<close> sym [of u v] sym [of u y] sym [of v y] sym [of x v] sym [of u x]
      by (auto split: if_splits)
    ultimately show "u \<noteq> v \<and> u \<in> nodes g - {y} \<and> v \<in> nodes g - {y} \<and>
        u \<in> (if v = y then {} else if v = x then nbs g x \<union> nbs g y
          else if y \<in> nbs g v then insert x (nbs g v - {y}) else nbs g v)" by simp
  qed
qed

subsection \<open>Aliases\<close>

lemma resolve_fresh: "map_of am x = None \<Longrightarrow> resolve_alias am x = Some x"
  by (simp add: resolve_alias.simps)

text \<open>Every chain of aliases ends, outside the aliases.\<close>

definition aliases_ok :: "(string \<times> string) list \<Rightarrow> (string \<Rightarrow> string) \<Rightarrow> bool" where
  "aliases_ok am rep = (\<forall>x. resolve_alias am x = Some (rep x) \<and> map_of am (rep x) = None)"

lemma resolve_induct [consumes 1, case_names last link]:
  assumes "resolve_alias am x = Some r" "\<And>x. map_of am x = None \<Longrightarrow> P x x"
    and "\<And>x y r. map_of am x = Some y \<Longrightarrow> P y r \<Longrightarrow> P x r"
  shows "P x r"
  by (rule resolve_alias.raw_induct [where P = "\<lambda>am' x r. am' = am \<longrightarrow> P x r" and xa = "(am, x)" and y = r, simplified])
    (use assms in \<open>auto split: option.splits\<close>)

lemma resolve_extend:
  assumes "resolve_alias am x = Some r" "map_of am b = None" "map_of am a = None" "a \<noteq> b"
  shows "resolve_alias ((b, a) # am) x = Some (if r = b then a else r)"
  using assms
proof (induction rule: resolve_induct)
  case (last x)
  then show ?case by (auto simp: resolve_alias.simps [of _ x] resolve_alias.simps [of _ a])
next
  case (link x y r)
  then show ?case by (auto simp: resolve_alias.simps [of _ x])
qed

lemma aliases_ok_extend:
  assumes "aliases_ok am rep" "map_of am b = None" "map_of am a = None" "a \<noteq> b"
  shows "aliases_ok ((b, a) # am) (\<lambda>x. if rep x = b then a else rep x)"
  using assms resolve_extend [OF _ assms(2,3,4)] by (auto simp: aliases_ok_def)

lemma aliases_ok_empty: "aliases_ok [] (\<lambda>x. x)"
  by (simp add: aliases_ok_def resolve_fresh)

lemma representative_ok: "aliases_ok am rep \<Longrightarrow> representative am x = Inr (rep x)"
  by (simp add: representative_def aliases_ok_def)

subsection \<open>Coalescing\<close>

definition allowed_set :: "register_constraints \<Rightarrow> string \<Rightarrow> string set option" where
  "allowed_set c x = map_option set (map_of (rc_allowed c) x)"

text \<open>The merged graph \<open>m\<close> and the aliases still stand for the graph \<open>g\<close>, through \<open>rep\<close>.\<close>

definition coalesced ::
    "register_constraints \<Rightarrow> graph \<Rightarrow> graph \<Rightarrow> (string \<times> string) list \<Rightarrow> (string \<Rightarrow> string) \<Rightarrow> bool" where
  "coalesced c g m am rep =
     (aliases_ok am rep \<and> good_graph m \<and> (\<forall>x. map_of am x \<noteq> None \<longrightarrow> x \<notin> nodes m) \<and>
      (\<forall>x \<in> nodes g. rep x \<in> nodes m) \<and> (\<forall>x y. y \<in> nbs g x \<longrightarrow> rep y \<in> nbs m (rep x)) \<and>
      (\<forall>x. map_of (rc_precolored c) x \<noteq> None \<or> map_of (rc_precolored c) (rep x) \<noteq> None \<longrightarrow> rep x = x) \<and>
      (\<forall>x. allowed_set c (rep x) = allowed_set c x))"

lemma coalesced_start: "good_graph g \<Longrightarrow> coalesced c g g [] (\<lambda>x. x)"
  by (simp add: coalesced_def aliases_ok_empty)

lemma coalesced_merge:
  assumes co: "coalesced c g m am rep" and ab: "a \<noteq> b" "b \<notin> nbs m a" "a \<in> nodes m" "b \<in> nodes m"
    and pre: "map_of (rc_precolored c) a = None" "map_of (rc_precolored c) b = None" and al: "same_allowed c a b"
  shows "coalesced c g (merge_nodes a b m) ((b, a) # am) (\<lambda>x. if rep x = b then a else rep x)"
proof -
  have m: "good_graph m" and ok: "aliases_ok am rep" using co by (auto simp: coalesced_def)
  have fresh: "map_of am a = None" "map_of am b = None"
    using co ab(3,4) unfolding coalesced_def by blast+
  have ba: "a \<notin> nbs m b" using good_graphD(4) [OF m] ab(2) by blast
  have edge: "(if rep y = b then a else rep y) \<in> nbs (merge_nodes a b m) (if rep x = b then a else rep x)"
    if "y \<in> nbs g x" for x y
  proof -
    have e: "rep y \<in> nbs m (rep x)" using co that by (auto simp: coalesced_def)
    note irr = good_graphD(1) [OF m e]
    show ?thesis using e irr ab(1,2) ba by (auto simp: merge_nodes(2) [OF m ab])
  qed
  have "aliases_ok ((b, a) # am) (\<lambda>x. if rep x = b then a else rep x)"
    by (rule aliases_ok_extend [OF ok fresh(2,1) ab(1)])
  moreover have "good_graph (merge_nodes a b m)" by (rule good_merge_nodes [OF m ab])
  moreover have "\<forall>x. map_of ((b, a) # am) x \<noteq> None \<longrightarrow> x \<notin> nodes (merge_nodes a b m)"
    using co by (auto simp: merge_nodes(1) [OF m ab] coalesced_def)
  moreover have "\<forall>x \<in> nodes g. (if rep x = b then a else rep x) \<in> nodes (merge_nodes a b m)"
    using co ab by (auto simp: merge_nodes(1) [OF m ab] coalesced_def)
  moreover have "\<forall>x. map_of (rc_precolored c) x \<noteq> None \<or>
      map_of (rc_precolored c) (if rep x = b then a else rep x) \<noteq> None \<longrightarrow> (if rep x = b then a else rep x) = x"
    using co pre by (auto simp: coalesced_def)
  moreover have "\<forall>x. allowed_set c (if rep x = b then a else rep x) = allowed_set c x"
    using co al by (auto simp: coalesced_def same_allowed_def allowed_set_def)
  ultimately show ?thesis using edge unfolding coalesced_def by blast
qed

lemma coalesce_pair:
  assumes co: "coalesced c g m am rep" and res: "coalesce_pair c p (m, am) = Inr (m', am')"
  shows "\<exists>rep'. coalesced c g m' am' rep'"
proof -
  obtain u v where p: "p = (u, v)" by (cases p)
  have ok: "aliases_ok am rep" using co by (simp add: coalesced_def)
  show ?thesis
  proof (cases "(m', am') = (m, am)")
    case True
    then show ?thesis using co by auto
  next
    case False
    then obtain na nb where "rep u \<noteq> rep v" "adjacent m (rep u) = Inr na" "adjacent m (rep v) = Inr nb"
        "rep v \<notin> set na" "map_of (rc_precolored c) (rep u) = None" "map_of (rc_precolored c) (rep v) = None"
        "same_allowed c (rep u) (rep v)"
      and m': "m' = merge_nodes (rep u) (rep v) m" "am' = (rep v, rep u) # am"
      using res p
      by (auto simp: coalesce_pair_def Let_def representative_ok [OF ok] bind_result_Inr split: if_splits)
    then show ?thesis
      using coalesced_merge [OF co, of "rep u" "rep v"] adjacent_node by blast
  qed
qed

lemma coalesce_pairs:
  "coalesced c g m am rep \<Longrightarrow> coalesce_pairs c ps (m, am) = Inr (m', am') \<Longrightarrow> \<exists>rep'. coalesced c g m' am' rep'"
proof (induction ps arbitrary: m am rep)
  case (Cons p ps)
  then obtain m1 am1 where 1: "coalesce_pair c p (m, am) = Inr (m1, am1)"
      "coalesce_pairs c ps (m1, am1) = Inr (m', am')"
    by (auto simp: bind_result_Inr)
  then show ?case using coalesce_pair [OF Cons.prems(1) 1(1)] Cons.IH by blast
qed auto

text \<open>Coalescing candidates among the nodes never raise.\<close>

lemma map_result_total: "(\<And>x. x \<in> set xs \<Longrightarrow> \<exists>y. f x = Inr y) \<Longrightarrow> \<exists>ys. map_result f xs = Inr ys"
  by (induction xs) fastforce+

lemma adjacent_total: "x \<in> nodes g \<Longrightarrow> \<exists>ns. adjacent g x = Inr ns"
  by (auto simp: adjacent_def nodes_dom)

lemma coalesce_pair_total:
  assumes co: "coalesced c g m am rep" and uv: "u \<in> nodes g" "v \<in> nodes g"
  shows "\<exists>st. coalesce_pair c (u, v) (m, am) = Inr st"
proof -
  have ok: "aliases_ok am rep" and m: "good_graph m" and "rep u \<in> nodes m" "rep v \<in> nodes m"
    using co uv by (auto simp: coalesced_def)
  then obtain na nb where n: "adjacent m (rep u) = Inr na" "adjacent m (rep v) = Inr nb"
    using adjacent_total by metis
  have "\<exists>ys. map_result (adjacent m) (remdups (union_list na nb)) = Inr ys"
  proof (rule map_result_total)
    fix x assume "x \<in> set (remdups (union_list na nb))"
    moreover have "set (union_list na nb) = set na \<union> set nb"
      unfolding union_list_def by (induction nb arbitrary: na) auto
    ultimately have "x \<in> nbs m (rep u) \<union> nbs m (rep v)" using n adjacent_node by auto
    then show "\<exists>y. adjacent m x = Inr y" using good_graphD(3) [OF m] adjacent_total by blast
  qed
  then show ?thesis using n
    by (auto simp: coalesce_pair_def Let_def representative_ok [OF ok])
qed

lemma coalesce_pairs_total:
  "coalesced c g m am rep \<Longrightarrow> \<forall>(u, v) \<in> set ps. u \<in> nodes g \<and> v \<in> nodes g \<Longrightarrow>
   \<exists>st. coalesce_pairs c ps (m, am) = Inr st"
proof (induction ps arbitrary: m am rep)
  case (Cons p ps)
  obtain u v where p: "p = (u, v)" by (cases p)
  obtain m1 am1 where 1: "coalesce_pair c p (m, am) = Inr (m1, am1)"
    using coalesce_pair_total [OF Cons.prems(1), of u v] Cons.prems(2) p by auto
  then show ?case using coalesce_pair [OF Cons.prems(1) 1] Cons.IH Cons.prems(2) by fastforce
qed auto

subsection \<open>Selection\<close>

lemma simplify_order_subset: "set (simplify_order k costs g xs) \<subseteq> set xs"
proof (induction k costs g xs rule: simplify_order.induct)
  case (1 k costs g xs)
  show ?case
  proof (cases "xs = []")
    case False
    define simp where "simp = sort (filter (\<lambda>x. current_degree g xs x < k) xs)"
    have eq: "simplify_order k costs g xs =
        (if simp \<noteq> [] then simp @ simplify_order k costs g (filter (\<lambda>x. x \<notin> set simp) xs)
         else pick_victim costs g xs # simplify_order k costs g (removeAll (pick_victim costs g xs) xs))"
      using False by (subst simplify_order.simps) (simp add: simp_def Let_def)
    have "set simp \<subseteq> set xs" by (auto simp: simp_def)
    moreover have "set (simplify_order k costs g (filter (\<lambda>x. x \<notin> set simp) xs)) \<subseteq> set xs" if "simp \<noteq> []"
      using "1.IH"(1) [OF False simp_def] that by auto
    moreover have "set (simplify_order k costs g (removeAll (pick_victim costs g xs) xs)) \<subseteq> set xs" if "simp = []"
      using "1.IH"(2) [OF False simp_def] that by auto
    ultimately show ?thesis unfolding eq using pick_victim_in [OF False, of costs g] by auto
  qed (simp add: simplify_order.simps)
qed

definition homes_ok :: "register_constraints \<Rightarrow> graph \<Rightarrow> (string \<times> string) list \<Rightarrow> bool" where
  "homes_ok c m homes =
     ((\<forall>x r. map_of (rc_precolored c) x = Some r \<longrightarrow> map_of homes x = Some r) \<and>
      (\<forall>x h. map_of homes x = Some h \<longrightarrow>
         map_of (rc_precolored c) x = Some h \<or> map_of (rc_precolored c) x = None \<and> h \<in> set (allowed_registers c x)) \<and>
      (\<forall>x y h. y \<in> nbs m x \<longrightarrow> map_of homes x = Some h \<longrightarrow> map_of homes y = Some h \<longrightarrow>
         map_of (rc_precolored c) x \<noteq> None \<and> map_of (rc_precolored c) y \<noteq> None))"

lemma homes_ok_start: "homes_ok c m (rc_precolored c)"
  by (auto simp: homes_ok_def)

lemma choose_register_in: "legal \<noteq> [] \<Longrightarrow> choose_register c costs x legal \<in> set legal"
  using fold_choice_in [of "cheaper c costs x" "tl legal" "hd legal"]
  by (cases legal) (auto simp: choose_register_def)

lemma set_map_filter: "y \<in> set (List.map_filter f xs) \<longleftrightarrow> (\<exists>x \<in> set xs. f x = Some y)"
  by (induction xs) (auto simp: List.map_filter_def split: option.splits)

lemma select_one_cases:
  obtains "select_one c costs g x homes = homes"
  | h where "select_one c costs g x homes = put_item x h homes" "h \<in> set (allowed_registers c x)"
      "\<forall>y \<in> nbs g x. map_of homes y \<noteq> Some h"
proof -
  define used where "used = List.map_filter (map_of homes) (neighbours g x)"
  define legal where "legal = filter (\<lambda>r. r \<notin> set used) (allowed_registers c x)"
  define h where "h = choose_register c costs x legal"
  consider "select_one c costs g x homes = homes"
    | "legal \<noteq> []" "select_one c costs g x homes = put_item x h homes"
    unfolding select_one_def used_def [symmetric] legal_def [symmetric] h_def [symmetric] Let_def
    by metis
  then show thesis
  proof cases
    case 2
    then have "h \<in> set legal" unfolding h_def by (simp add: choose_register_in)
    then show thesis using that(2) [OF 2(2)] by (auto simp: legal_def used_def set_map_filter)
  qed (rule that(1))
qed

lemma homes_ok_select:
  assumes ok: "homes_ok c m homes" and m: "good_graph m" and x: "map_of (rc_precolored c) x = None"
  shows "homes_ok c m (select_one c costs m x homes)"
proof (cases rule: select_one_cases [of c costs m x homes])
  case 1
  then show ?thesis using ok by simp
next
  case (2 h)
  have sym: "\<forall>y. x \<in> nbs m y \<longrightarrow> map_of homes y \<noteq> Some h" using 2(3) good_graphD(4) [OF m] by blast
  have irr: "x \<notin> nbs m x" using good_graphD(1) [OF m] by blast
  show ?thesis
    using ok x 2 sym irr unfolding homes_ok_def by (auto split: if_splits)
qed

lemma homes_ok_fold:
  assumes "good_graph m" "\<forall>x \<in> set xs. map_of (rc_precolored c) x = None"
  shows "homes_ok c m homes \<Longrightarrow> homes_ok c m (fold (select_one c costs m) xs homes)"
  using assms(2)
proof (induction xs arbitrary: homes)
  case (Cons x xs)
  then show ?case using homes_ok_select [OF _ assms(1)] by simp
qed simp

subsection \<open>The result\<close>

lemma expand_homes:
  assumes "aliases_ok am rep"
  shows "\<exists>al'. expand_homes am homes xs al = Inr al' \<and>
    (\<forall>x. map_of (al_homes al') x = (if x \<in> set xs \<and> map_of homes (rep x) \<noteq> None then map_of homes (rep x)
       else map_of (al_homes al) x)) \<and>
    set (al_spilled al') = set (al_spilled al) \<union> {x \<in> set xs. map_of homes (rep x) = None}"
proof (induction xs arbitrary: al)
  case (Cons x xs)
  show ?case
  proof (cases "map_of homes (rep x)")
    case None
    show ?thesis
      using Cons.IH [of "al\<lparr>al_spilled := List.insert x (al_spilled al)\<rparr>"] None
      by (auto simp: representative_ok [OF assms])
  next
    case (Some h)
    show ?thesis
      using Cons.IH [of "al\<lparr>al_homes := put_item x h (al_homes al)\<rparr>"] Some
      by (auto simp: representative_ok [OF assms])
  qed
qed simp

lemma first_of_None: "(case xs of [] \<Rightarrow> None | e # _ \<Rightarrow> Some e) = None \<longleftrightarrow> xs = []"
  by (cases xs) auto

lemma concat_mapI: "a \<in> set xs \<Longrightarrow> z \<in> set (f a) \<Longrightarrow> z \<in> set (concat (map f xs))"
  by auto

lemma precolor_clash_None:
  assumes "precolor_clash c g = None" "map_of (rc_precolored c) x = Some r" "y \<in> nbs g x" "y \<noteq> x"
  shows "map_of (rc_precolored c) y \<noteq> Some r"
proof
  assume y: "map_of (rc_precolored c) y = Some r"
  have "Precolored_clash x y r \<in> set (concat (map (\<lambda>(x, r). map (\<lambda>n. Precolored_clash x n r)
      (filter (\<lambda>n. n \<noteq> x \<and> map_of (rc_precolored c) n = Some r) (neighbours g x))) (rc_precolored c)))"
  proof (rule concat_mapI)
    show "(x, r) \<in> set (rc_precolored c)" using assms(2) by (rule map_of_SomeD)
  qed (use assms(3,4) y in simp)
  then show False using assms(1) [unfolded precolor_clash_def first_of_None]
    by (simp only: list.set empty_iff)
qed

lemma color_Inr:
  assumes "color c costs g moves = Inr al" "good_graph g"
  obtains m am rep homes where "precolor_clash c g = None" "coalesced c g m am rep" "homes_ok c m homes"
    "expand_homes am homes (map fst g) \<lparr>al_homes = [], al_spilled = []\<rparr> = Inr al"
proof -
  obtain m am where clash: "precolor_clash c g = None" and co: "coalesce_pairs c (sort moves) (g, []) = Inr (m, am)"
    and ex: "expand_homes am (fold (select_one c costs m) (rev (simplify_order (length (rc_pool c)) costs m
      (filter (\<lambda>x. map_of (rc_precolored c) x = None) (map fst m)))) (rc_precolored c)) (map fst g)
      \<lparr>al_homes = [], al_spilled = []\<rparr> = Inr al"
    using assms(1) by (auto simp: color_def conservative_coalesce_def bind_result_Inr Let_def split: option.splits)
  obtain rep where rep: "coalesced c g m am rep"
    using coalesce_pairs [OF coalesced_start [OF assms(2)] co] by blast
  have "homes_ok c m (fold (select_one c costs m) (rev (simplify_order (length (rc_pool c)) costs m
      (filter (\<lambda>x. map_of (rc_precolored c) x = None) (map fst m)))) (rc_precolored c))"
    by (rule homes_ok_fold [OF _ _ homes_ok_start])
       (use rep simplify_order_subset in \<open>fastforce simp: coalesced_def\<close>)+
  then show thesis using that clash rep ex by blast
qed

lemma color_properties:
  assumes "color c costs g moves = Inr al" "good_graph g"
  shows "(\<forall>x \<in> nodes g. (map_of (al_homes al) x = None) = (x \<in> set (al_spilled al))) \<and>
    (\<forall>x y h. y \<in> nbs g x \<longrightarrow> map_of (al_homes al) x = Some h \<longrightarrow> map_of (al_homes al) y \<noteq> Some h) \<and>
    (\<forall>x h. map_of (al_homes al) x = Some h \<longrightarrow>
       map_of (rc_precolored c) x = Some h \<or>
       map_of (rc_precolored c) x = None \<and> h \<in> set (rc_pool c) \<and>
         (\<forall>A. allowed_set c x = Some A \<longrightarrow> h \<in> A))"
proof -
  obtain m am rep homes where clash: "precolor_clash c g = None" and co: "coalesced c g m am rep"
    and ok: "homes_ok c m homes"
    and ex: "expand_homes am homes (map fst g) \<lparr>al_homes = [], al_spilled = []\<rparr> = Inr al"
    by (rule color_Inr [OF assms])
  have am: "aliases_ok am rep" using co by (simp add: coalesced_def)
  have homes: "map_of (al_homes al) x = (if x \<in> nodes g then map_of homes (rep x) else None)"
    and spilled: "x \<in> set (al_spilled al) \<longleftrightarrow> x \<in> nodes g \<and> map_of homes (rep x) = None" for x
    using expand_homes [OF am, of homes "map fst g" "\<lparr>al_homes = [], al_spilled = []\<rparr>"] ex
    by (auto simp: nodes_def)
  have pre: "rep x = x" if "map_of (rc_precolored c) x \<noteq> None \<or> map_of (rc_precolored c) (rep x) \<noteq> None" for x
    using co that by (auto simp: coalesced_def)
  have "map_of homes (rep y) \<noteq> Some h" if e: "y \<in> nbs g x" and h: "map_of homes (rep x) = Some h" for x y h
  proof
    assume hy: "map_of homes (rep y) = Some h"
    have "rep y \<in> nbs m (rep x)" using co e by (auto simp: coalesced_def)
    then have p: "map_of (rc_precolored c) (rep x) \<noteq> None" "map_of (rc_precolored c) (rep y) \<noteq> None"
      using ok h hy unfolding homes_ok_def by blast+
    then have xy: "rep x = x" "rep y = y" using pre by auto
    then have "map_of (rc_precolored c) x = Some h" "map_of (rc_precolored c) y = Some h"
      using ok p h hy unfolding homes_ok_def by force+
    then show False using precolor_clash_None [OF clash _ e] good_graphD(1) [OF assms(2) e] by auto
  qed
  moreover have "map_of (rc_precolored c) x = Some h \<or> map_of (rc_precolored c) x = None \<and> h \<in> set (rc_pool c) \<and>
      (\<forall>A. allowed_set c x = Some A \<longrightarrow> h \<in> A)" if h: "map_of homes (rep x) = Some h" for x h
  proof (cases "map_of (rc_precolored c) (rep x) = None")
    case True
    then have "h \<in> set (allowed_registers c (rep x))" using ok h unfolding homes_ok_def by force
    moreover have "allowed_set c (rep x) = allowed_set c x" using co by (simp add: coalesced_def)
    ultimately have "h \<in> set (rc_pool c) \<and> (\<forall>A. allowed_set c x = Some A \<longrightarrow> h \<in> A)"
      by (auto simp: allowed_registers_def allowed_set_def split: option.splits)
    moreover have "map_of (rc_precolored c) x = None" using pre [of x] True by metis
    ultimately show ?thesis by simp
  next
    case False
    then show ?thesis using pre [of x] ok h unfolding homes_ok_def by force
  qed
  ultimately show ?thesis unfolding homes spilled by (auto split: if_splits)
qed

text \<open>
  The colouring is proper: on a symmetric graph without loops, every value is homed or spilled and not
  both, interfering values never share a register, a precoloured value keeps its register, and any other
  home is a register of the pool that the value may occupy, whatever was coalesced.
\<close>

theorem color_proper:
  assumes "color c costs g moves = Inr al" "good_graph g"
  shows "(\<forall>x \<in> nodes g. (map_of (al_homes al) x = None) = (x \<in> set (al_spilled al))) \<and>
    (\<forall>x y h. y \<in> nbs g x \<longrightarrow> map_of (al_homes al) x = Some h \<longrightarrow> map_of (al_homes al) y \<noteq> Some h) \<and>
    (\<forall>x h. map_of (al_homes al) x = Some h \<longrightarrow>
       map_of (rc_precolored c) x = Some h \<or>
       map_of (rc_precolored c) x = None \<and> h \<in> set (rc_pool c) \<and>
         (\<forall>A. allowed_set c x = Some A \<longrightarrow> h \<in> A))"
  by (rule color_properties [OF assms])

text \<open>A graph of four values on two registers, with one copy to coalesce and one precoloured value.\<close>

definition square :: graph where
  "square = [(''a'', [''b'']), (''b'', [''a'', ''c'']), (''c'', [''b'']), (''d'', [])]"

definition two_registers :: register_constraints where
  "two_registers = \<lparr>rc_allowed = [(''a'', [''ax''])], rc_pool = [''ax'', ''bx''], rc_precolored = [(''c'', ''ax'')]\<rparr>"

definition no_costs :: cost_model where
  "no_costs = \<lparr>co_save = [], co_benefit = []\<rparr>"

lemma good_square: "good_graph square"
  by (auto simp: good_graph_def square_def nbs_def neighbours_def nodes_def split: if_splits)

lemma color_proper_witness:
  "color two_registers no_costs square [(''b'', ''d'')] =
     Inr \<lparr>al_homes = [(''a'', ''ax''), (''b'', ''bx''), (''c'', ''ax''), (''d'', ''bx'')], al_spilled = []\<rparr> \<and>
   ''bx'' \<in> set (rc_pool two_registers)"
proof -
  have c: "color two_registers no_costs square [(''b'', ''d'')] =
     Inr \<lparr>al_homes = [(''a'', ''ax''), (''b'', ''bx''), (''c'', ''ax''), (''d'', ''bx'')], al_spilled = []\<rparr>"
    by code_simp
  have "map_of (rc_precolored two_registers) ''b'' \<noteq> Some ''bx''"
    by (simp add: two_registers_def)
  moreover have "map_of (al_homes \<lparr>al_homes = [(''a'', ''ax''), (''b'', ''bx''), (''c'', ''ax''), (''d'', ''bx'')],
      al_spilled = []\<rparr>) ''b'' = Some ''bx''" by simp
  ultimately have "''bx'' \<in> set (rc_pool two_registers)"
    using color_proper [OF c good_square, THEN conjunct2, THEN conjunct2] by blast
  then show ?thesis using c by blast
qed

text \<open>
  The colourer is total: on a symmetric graph without loops whose copy-related pairs are nodes, the loops
  end and the only exception is the one about precoloured neighbours that share a register.
\<close>

theorem color_total:
  assumes "good_graph g" "\<forall>(u, v) \<in> set moves. u \<in> nodes g \<and> v \<in> nodes g" "precolor_clash c g = None"
  shows "\<exists>al. color c costs g moves = Inr al"
proof -
  obtain m am where co: "coalesce_pairs c (sort moves) (g, []) = Inr (m, am)"
    using coalesce_pairs_total [OF coalesced_start [OF assms(1)], of "sort moves" c] assms(2) by auto
  obtain rep where "coalesced c g m am rep"
    using coalesce_pairs [OF coalesced_start [OF assms(1)] co] by blast
  then have "aliases_ok am rep" by (simp add: coalesced_def)
  from expand_homes [OF this] obtain al where
    "expand_homes am (fold (select_one c costs m) (rev (simplify_order (length (rc_pool c)) costs m
      (filter (\<lambda>x. map_of (rc_precolored c) x = None) (map fst m)))) (rc_precolored c)) (map fst g)
      \<lparr>al_homes = [], al_spilled = []\<rparr> = Inr al" by blast
  then show ?thesis
    using assms(3) co by (simp add: color_def conservative_coalesce_def Let_def)
qed

lemma color_total_witness: "\<exists>al. color two_registers no_costs square [(''b'', ''d'')] = Inr al"
  by (rule color_total [OF good_square])
     (simp_all add: square_def nodes_def two_registers_def precolor_clash_def neighbours_def)

end
