(* ===== verification/Backward_Dataflow.thy ===== *)
theory Backward_Dataflow
  imports Regalloc
begin

text \<open>
  The iteration that both liveness analyses of the compiler run, \<^verbatim>\<open>regalloc.build_interference\<close> over the blocks of a
  graph and \<^verbatim>\<open>LivenessAnalyzer._fixed_point\<close> over the statements of a tree: recompute what is live before and
  after each point, in place, until a pass over all points changes nothing.  The iteration ends, and it ends with the
  least solution of the equations, which is the set of names that some path reads before it writes them.
\<close>

subsection \<open>What the sets mean\<close>

text \<open>A point reads \<open>x\<close>, or does not write it and has a successor from which \<open>x\<close> is read first.\<close>

inductive reaches_use ::
    "(nat \<Rightarrow> string set) \<Rightarrow> (nat \<Rightarrow> string set) \<Rightarrow> (nat \<Rightarrow> nat list) \<Rightarrow> string \<Rightarrow> nat \<Rightarrow> bool"
  for uses defs succs where
    used: "x \<in> uses k \<Longrightarrow> reaches_use uses defs succs x k"
  | kept: "s \<in> set (succs k) \<Longrightarrow> x \<notin> defs k \<Longrightarrow> reaches_use uses defs succs x s \<Longrightarrow> reaches_use uses defs succs x k"

inductive_simps reaches_use_iff: "reaches_use uses defs succs x k"

lemma reaches_use_names: "reaches_use uses defs succs x k \<Longrightarrow> (\<And>j. uses j \<subseteq> names) \<Longrightarrow> x \<in> names"
  by (induction rule: reaches_use.induct) blast+

definition nothing_live :: liveness where
  "nothing_live = \<lparr>lv_in = \<lambda>_. [], lv_out = \<lambda>_. []\<rparr>"

definition live_le :: "liveness \<Rightarrow> liveness \<Rightarrow> bool" where
  "live_le lv lv' = (\<forall>k. set (lv_in lv k) \<subseteq> set (lv_in lv' k) \<and> set (lv_out lv k) \<subseteq> set (lv_out lv' k))"

definition live_size :: "nat list \<Rightarrow> liveness \<Rightarrow> nat" where
  "live_size ks lv = (\<Sum>k \<in> set ks. card (set (lv_in lv k)) + card (set (lv_out lv k)))"

lemma live_le_refl [simp]: "live_le lv lv"
  by (simp add: live_le_def)

lemma live_le_trans: "live_le lv1 lv2 \<Longrightarrow> live_le lv2 lv3 \<Longrightarrow> live_le lv1 lv3"
  by (meson live_le_def order_trans)

lemma live_size_mono: "live_le lv lv' \<Longrightarrow> live_size ks lv \<le> live_size ks lv'"
  unfolding live_size_def live_le_def by (intro sum_mono add_mono card_mono) auto

lemma live_size_strict:
  assumes "live_le lv lv'" "k \<in> set ks"
    and "set (lv_in lv k) \<noteq> set (lv_in lv' k) \<or> set (lv_out lv k) \<noteq> set (lv_out lv' k)"
  shows "live_size ks lv < live_size ks lv'"
  unfolding live_size_def
proof (rule sum_strict_mono_ex1)
  have le: "\<And>j. set (lv_in lv j) \<subseteq> set (lv_in lv' j)" "\<And>j. set (lv_out lv j) \<subseteq> set (lv_out lv' j)"
    using assms(1) by (auto simp: live_le_def)
  show "\<forall>j \<in> set ks. card (set (lv_in lv j)) + card (set (lv_out lv j)) \<le>
      card (set (lv_in lv' j)) + card (set (lv_out lv' j))"
    using le by (auto intro!: add_mono card_mono)
  have "card (set (lv_in lv k)) + card (set (lv_out lv k)) < card (set (lv_in lv' k)) + card (set (lv_out lv' k))"
    using assms(3)
  proof
    assume "set (lv_in lv k) \<noteq> set (lv_in lv' k)"
    then have "card (set (lv_in lv k)) < card (set (lv_in lv' k))"
      using le(1) [of k] by (intro psubset_card_mono) auto
    then show ?thesis using card_mono [OF _ le(2) [of k]] by simp
  next
    assume "set (lv_out lv k) \<noteq> set (lv_out lv' k)"
    then have "card (set (lv_out lv k)) < card (set (lv_out lv' k))"
      using le(2) [of k] by (intro psubset_card_mono) auto
    then show ?thesis using card_mono [OF _ le(1) [of k]] by simp
  qed
  then show "\<exists>j \<in> set ks. card (set (lv_in lv j)) + card (set (lv_out lv j)) <
      card (set (lv_in lv' j)) + card (set (lv_out lv' j))"
    using assms(2) by blast
qed simp

lemma live_size_bound:
  assumes "finite names" "\<And>k. set (lv_in lv k) \<subseteq> names" "\<And>k. set (lv_out lv k) \<subseteq> names"
  shows "live_size ks lv \<le> card (set ks) * (2 * card names)"
  unfolding live_size_def
proof (rule sum_bounded_above [of "set ks" _ "2 * card names", simplified])
  fix k
  have "card (set (lv_in lv k)) \<le> card names" "card (set (lv_out lv k)) \<le> card names"
    by (simp_all add: card_mono assms)
  then show "card (set (lv_in lv k)) + card (set (lv_out lv k)) \<le> 2 * card names" by simp
qed

subsection \<open>The iteration\<close>

text \<open>
  A visit recomputes both sets of one point, writes them back and notes a change if one of them is new; the loop repeats
  passes over all points while one notes a change.
\<close>

locale backward_dataflow =
  fixes visit :: "nat \<Rightarrow> liveness \<times> bool \<Rightarrow> liveness \<times> bool"
    and loop :: "liveness \<Rightarrow> liveness option"
    and order :: "nat list"
    and uses defs :: "nat \<Rightarrow> string set"
    and succs :: "nat \<Rightarrow> nat list"
    and names :: "string set"
  assumes finite_names: "finite names"
    and uses_names: "uses k \<subseteq> names"
    and visit: "\<exists>ins out. set out = (\<Union>s \<in> set (succs k). set (lv_in lv s)) \<and> set ins = uses k \<union> (set out - defs k) \<and>
      visit k (lv, ch) =
        (if set ins \<noteq> set (lv_in lv k) \<or> set out \<noteq> set (lv_out lv k)
         then (\<lparr>lv_in = (lv_in lv)(k := ins), lv_out = (lv_out lv)(k := out)\<rparr>, True) else (lv, ch))"
    and loop: "loop lv = (if snd (fold visit order (lv, False)) then loop (fst (fold visit order (lv, False)))
      else Some (fst (fold visit order (lv, False))))"
begin

definition solved :: "liveness \<Rightarrow> nat \<Rightarrow> bool" where
  "solved lv k = (set (lv_out lv k) = (\<Union>s \<in> set (succs k). set (lv_in lv s)) \<and>
     set (lv_in lv k) = uses k \<union> (set (lv_out lv k) - defs k))"

text \<open>The sets only grow, and hold nothing that no path reads.\<close>

definition growing :: "liveness \<Rightarrow> bool" where
  "growing lv = (\<forall>k. set (lv_out lv k) \<subseteq> (\<Union>s \<in> set (succs k). set (lv_in lv s)) \<and>
     set (lv_in lv k) \<subseteq> uses k \<union> (set (lv_out lv k) - defs k))"

definition sound :: "liveness \<Rightarrow> bool" where
  "sound lv = (\<forall>k. set (lv_in lv k) \<subseteq> {x. reaches_use uses defs succs x k} \<and>
     set (lv_out lv k) \<subseteq> (\<Union>s \<in> set (succs k). {x. reaches_use uses defs succs x s}))"

lemma nothing_live_growing: "growing nothing_live" and nothing_live_sound: "sound nothing_live"
  by (simp_all add: growing_def sound_def nothing_live_def)

lemma visit_cases:
  obtains (same) "visit k (lv, ch) = (lv, ch)" "solved lv k"
  | (new) ins out where
      "visit k (lv, ch) = (\<lparr>lv_in = (lv_in lv)(k := ins), lv_out = (lv_out lv)(k := out)\<rparr>, True)"
      "set out = (\<Union>s \<in> set (succs k). set (lv_in lv s))" "set ins = uses k \<union> (set out - defs k)"
      "set ins \<noteq> set (lv_in lv k) \<or> set out \<noteq> set (lv_out lv k)"
proof -
  obtain ins out where v: "set out = (\<Union>s \<in> set (succs k). set (lv_in lv s))" "set ins = uses k \<union> (set out - defs k)"
    "visit k (lv, ch) =
      (if set ins \<noteq> set (lv_in lv k) \<or> set out \<noteq> set (lv_out lv k)
       then (\<lparr>lv_in = (lv_in lv)(k := ins), lv_out = (lv_out lv)(k := out)\<rparr>, True) else (lv, ch))"
    using visit [of lv k ch] by blast
  show thesis
  proof (cases "set ins \<noteq> set (lv_in lv k) \<or> set out \<noteq> set (lv_out lv k)")
    case True
    then show thesis using new [of ins out] v by simp
  next
    case False
    then have eq: "set ins = set (lv_in lv k)" "set out = set (lv_out lv k)" by auto
    show thesis
    proof (rule same)
      show "visit k (lv, ch) = (lv, ch)" using v(3) eq by simp
      show "solved lv k" using v(1,2) unfolding eq solved_def by blast
    qed
  qed
qed

lemma pass_stops:
  "\<not> snd (fold visit ks (lv, ch)) \<Longrightarrow> fold visit ks (lv, ch) = (lv, ch) \<and> \<not> ch \<and> (\<forall>k \<in> set ks. solved lv k)"
proof (induction ks arbitrary: lv ch)
  case (Cons k ks)
  show ?case
  proof (cases rule: visit_cases [of k lv ch])
    case same
    then have "fold visit (k # ks) (lv, ch) = fold visit ks (lv, ch)" by simp
    then show ?thesis using Cons.IH [of lv ch] Cons.prems same(2) by (metis set_ConsD)
  next
    case (new ins out)
    then show ?thesis
      using Cons.IH [of "\<lparr>lv_in = (lv_in lv)(k := ins), lv_out = (lv_out lv)(k := out)\<rparr>" True] Cons.prems by simp
  qed
qed simp

lemma visit_sound:
  assumes "sound lv"
  shows "sound (fst (visit k (lv, ch)))"
proof (cases rule: visit_cases [of k lv ch])
  case (new ins out)
  have o: "set out \<subseteq> (\<Union>s \<in> set (succs k). {x. reaches_use uses defs succs x s})"
    using assms unfolding new(2) sound_def by blast
  then have "set ins \<subseteq> {x. reaches_use uses defs succs x k}"
    unfolding new(3) by (auto intro: reaches_use.intros)
  then show ?thesis using assms o by (simp add: new(1) sound_def)
qed (use assms in simp)

lemma visit_grows:
  assumes gr: "growing lv"
  shows "growing (fst (visit k (lv, ch)))" "live_le lv (fst (visit k (lv, ch)))"
    and "snd (visit k (lv, ch)) \<Longrightarrow> \<not> ch \<Longrightarrow>
      set (lv_in lv k) \<noteq> set (lv_in (fst (visit k (lv, ch))) k) \<or>
      set (lv_out lv k) \<noteq> set (lv_out (fst (visit k (lv, ch))) k)"
proof -
  have "growing (fst (visit k (lv, ch))) \<and> live_le lv (fst (visit k (lv, ch))) \<and>
    (snd (visit k (lv, ch)) \<longrightarrow> \<not> ch \<longrightarrow> set (lv_in lv k) \<noteq> set (lv_in (fst (visit k (lv, ch))) k) \<or>
      set (lv_out lv k) \<noteq> set (lv_out (fst (visit k (lv, ch))) k))"
  proof (cases rule: visit_cases [of k lv ch])
    case (new ins out)
    let ?lv = "fst (visit k (lv, ch))"
    have old: "set (lv_out lv k) \<subseteq> set out" "set (lv_in lv k) \<subseteq> set ins"
      using gr unfolding new(2,3) growing_def by blast+
    then have le: "live_le lv ?lv" by (simp add: live_le_def new(1))
    have "set (lv_out ?lv j) \<subseteq> (\<Union>s \<in> set (succs j). set (lv_in lv s))"
      "set (lv_in ?lv j) \<subseteq> uses j \<union> (set (lv_out ?lv j) - defs j)" for j
      using gr new(2,3) unfolding growing_def by (auto simp: new(1))
    moreover have "(\<Union>s \<in> set (succs j). set (lv_in lv s)) \<subseteq> (\<Union>s \<in> set (succs j). set (lv_in ?lv s))" for j
      using le by (auto simp: live_le_def)
    ultimately have "growing ?lv" unfolding growing_def by (meson order_trans)
    then show ?thesis using le new(1,4) by auto
  qed (use gr in simp)
  then show "growing (fst (visit k (lv, ch)))" "live_le lv (fst (visit k (lv, ch)))"
    "snd (visit k (lv, ch)) \<Longrightarrow> \<not> ch \<Longrightarrow>
      set (lv_in lv k) \<noteq> set (lv_in (fst (visit k (lv, ch))) k) \<or>
      set (lv_out lv k) \<noteq> set (lv_out (fst (visit k (lv, ch))) k)"
    by blast+
qed

lemma pass_grows:
  assumes "growing lv" "sound lv" "set ks \<subseteq> set order"
  shows "growing (fst (fold visit ks (lv, ch))) \<and> sound (fst (fold visit ks (lv, ch))) \<and>
    live_le lv (fst (fold visit ks (lv, ch))) \<and>
    (snd (fold visit ks (lv, ch)) \<longrightarrow> \<not> ch \<longrightarrow> live_size order lv < live_size order (fst (fold visit ks (lv, ch))))"
  using assms
proof (induction ks arbitrary: lv ch)
  case (Cons k ks)
  obtain lv1 ch1 where v: "visit k (lv, ch) = (lv1, ch1)" by (cases "visit k (lv, ch)")
  note one = visit_grows [OF Cons.prems(1), of k ch, unfolded v fst_conv snd_conv]
  have "sound lv1" using visit_sound [OF Cons.prems(2), of k ch] v by simp
  then have IH: "growing (fst (fold visit ks (lv1, ch1))) \<and> sound (fst (fold visit ks (lv1, ch1))) \<and>
    live_le lv1 (fst (fold visit ks (lv1, ch1))) \<and>
    (snd (fold visit ks (lv1, ch1)) \<longrightarrow> \<not> ch1 \<longrightarrow> live_size order lv1 < live_size order (fst (fold visit ks (lv1, ch1))))"
    using Cons.IH [OF one(1)] Cons.prems(3) by simp
  have "live_size order lv < live_size order (fst (fold visit ks (lv1, ch1)))"
    if ch': "snd (fold visit ks (lv1, ch1))" "\<not> ch"
  proof (cases ch1)
    case True
    then have "live_size order lv < live_size order lv1"
      using live_size_strict [OF one(2), of k order] one(3) ch'(2) Cons.prems(3) by simp
    then show ?thesis using live_size_mono [of lv1 "fst (fold visit ks (lv1, ch1))" order] IH by simp
  next
    case False
    then show ?thesis using IH ch'(1) live_size_mono [OF one(2), of order] by simp
  qed
  moreover have "fold visit (k # ks) (lv, ch) = fold visit ks (lv1, ch1)" by (simp add: v)
  ultimately show ?case using IH live_le_trans [OF one(2)] by metis
qed simp

lemma sound_size_bound:
  assumes "sound lv"
  shows "live_size order lv \<le> card (set order) * (2 * card names)"
proof (rule live_size_bound [OF finite_names])
  have "{x. reaches_use uses defs succs x k} \<subseteq> names" for k using reaches_use_names uses_names by blast
  then show "set (lv_in lv k) \<subseteq> names" "set (lv_out lv k) \<subseteq> names" for k
    using assms unfolding sound_def by (blast, fast)
qed

lemma loop_ends:
  assumes "growing lv" "sound lv"
  shows "\<exists>lv'. loop lv = Some lv' \<and> sound lv' \<and> (\<forall>k \<in> set order. solved lv' k)"
  using assms
proof (induction "card (set order) * (2 * card names) - live_size order lv" arbitrary: lv rule: less_induct)
  case less
  define lv1 where "lv1 = fst (fold visit order (lv, False))"
  have one: "growing lv1" "sound lv1" and
    sz: "snd (fold visit order (lv, False)) \<Longrightarrow> live_size order lv < live_size order lv1"
    using pass_grows [OF less.prems subset_refl, of False] by (simp_all add: lv1_def)
  show ?case
  proof (cases "snd (fold visit order (lv, False))")
    case True
    then have "card (set order) * (2 * card names) - live_size order lv1 <
        card (set order) * (2 * card names) - live_size order lv"
      using sz sound_size_bound [OF one(2)] by simp
    from less.hyps [OF this one] show ?thesis using True by (subst loop) (simp add: lv1_def)
  next
    case False
    from pass_stops [OF this] show ?thesis using False less.prems(2) by (subst loop) simp
  qed
qed

lemma loop_from_nothing: "\<exists>lv. loop nothing_live = Some lv \<and> sound lv \<and> (\<forall>k \<in> set order. solved lv k)"
  by (rule loop_ends [OF nothing_live_growing nothing_live_sound])

lemma loop_total: "\<exists>lv. loop nothing_live = Some lv"
  using loop_from_nothing by blast

lemma loop_solved: "loop nothing_live = Some lv \<Longrightarrow> sound lv \<and> (\<forall>k \<in> set order. solved lv k)"
  using loop_from_nothing by auto

text \<open>Where the points are closed under successors, the sets are exactly what the paths read.\<close>

lemma loop_exact:
  assumes "loop nothing_live = Some lv" "\<And>k s. k \<in> set order \<Longrightarrow> s \<in> set (succs k) \<Longrightarrow> s \<in> set order" "k \<in> set order"
  shows "set (lv_in lv k) = {x. reaches_use uses defs succs x k}"
    and "set (lv_out lv k) = (\<Union>s \<in> set (succs k). {x. reaches_use uses defs succs x s})"
proof -
  note facts = loop_solved [OF assms(1)]
  have read: "x \<in> set (lv_in lv j)" if "reaches_use uses defs succs x j" "j \<in> set order" for x j
    using that
  proof (induction rule: reaches_use.induct)
    case (used x j)
    then show ?case using facts unfolding solved_def by blast
  next
    case (kept s j x)
    then have "x \<in> set (lv_in lv s)" using assms(2) by blast
    then show ?case using kept facts unfolding solved_def by blast
  qed
  then show "set (lv_in lv k) = {x. reaches_use uses defs succs x k}"
    using facts assms(3) unfolding sound_def by blast
  have "set (lv_out lv k) = (\<Union>s \<in> set (succs k). set (lv_in lv s))" using facts assms(3) unfolding solved_def by blast
  moreover have "set (lv_in lv s) = {x. reaches_use uses defs succs x s}" if "s \<in> set (succs k)" for s
    using facts read assms(2) [OF assms(3) that] unfolding sound_def by blast
  ultimately show "set (lv_out lv k) = (\<Union>s \<in> set (succs k). {x. reaches_use uses defs succs x s})" by simp
qed

lemma sound_names: "sound lv \<Longrightarrow> set (lv_in lv k) \<subseteq> names \<and> set (lv_out lv k) \<subseteq> names"
  using reaches_use_names uses_names unfolding sound_def by blast

end

end
