(* ===== verification/Interference.thy ===== *)
theory Interference
  imports Coloring_Correct Backward_Dataflow
begin

text \<open>
  Correctness of \<open>build_interference\<close>: the liveness it ends with solves the dataflow equations, and a value
  interferes with everything that is live after a definition of it.
\<close>

subsection \<open>Liveness\<close>

lemma set_union_list [simp]: "set (union_list xs ys) = set xs \<union> set ys"
  unfolding union_list_def by (induction ys arbitrary: xs) auto

lemma set_minus_list [simp]: "set (minus_list xs ys) = set xs - set ys"
  by (auto simp: minus_list_def)

lemma set_restrict [simp]: "set (restrict A xs) = set xs \<inter> set A"
  by (auto simp: restrict_def)

text \<open>What is live before an instruction, and before a list of instructions.\<close>

definition transfer :: "string list \<Rightarrow> instr \<Rightarrow> string list \<Rightarrow> string list" where
  "transfer A i live =
     union_list (minus_list live (restrict A (instruction_defs i))) (restrict A (instruction_uses i))"

definition live_before :: "string list \<Rightarrow> instr list \<Rightarrow> string list \<Rightarrow> string list" where
  "live_before A is live = foldr (transfer A) is live"

lemma live_before_append: "live_before A (xs @ ys) live = live_before A xs (live_before A ys live)"
  by (simp add: live_before_def)

lemma live_before_subset: "set live \<subseteq> set A \<Longrightarrow> set (live_before A is live) \<subseteq> set A"
  by (induction "is") (auto simp: live_before_def transfer_def)

lemma use_def_live_before:
  "use_def A (us, ds) is = (us', ds') \<Longrightarrow>
   set us' \<union> (set live - set ds') = set us \<union> (set (live_before A is live) - set ds)"
proof (induction "is" arbitrary: us ds)
  case (Cons i "is")
  from Cons.IH [OF Cons.prems [unfolded use_def.simps]] show ?case
    by (auto simp: live_before_def transfer_def)
qed (simp add: live_before_def)

definition live_solution :: "string list \<Rightarrow> cfg \<Rightarrow> liveness \<Rightarrow> nat \<Rightarrow> bool" where
  "live_solution A g lv k =
     (set (lv_out lv k) = (\<Union>s \<in> set (succs_of g k). set (lv_in lv s)) \<and>
      set (lv_in lv k) = set (live_before A (block_instructions (g_store g ! k)) (lv_out lv k)))"

lemma set_fold_union: "set (fold (\<lambda>s acc. union_list acc (f s)) xs acc) = set acc \<union> (\<Union>s \<in> set xs. set (f s))"
  by (induction xs arbitrary: acc) auto

text \<open>Only allocatable names are ever live.\<close>

definition live_allocatable :: "string list \<Rightarrow> liveness \<Rightarrow> bool" where
  "live_allocatable A lv = (\<forall>k. set (lv_in lv k) \<subseteq> set A \<and> set (lv_out lv k) \<subseteq> set A)"

lemma use_def_subset:
  "use_def A (us, ds) is = (us', ds') \<Longrightarrow> set us \<subseteq> set A \<Longrightarrow> set us' \<subseteq> set A"
  by (induction "is" arbitrary: us ds) (auto, fastforce)

text \<open>The iteration over the blocks is the general one.\<close>

interpretation block_flow: backward_dataflow "live_visit A g" "live_loop A g" "g_order g"
    "\<lambda>k. set (fst (block_use_def A g k))" "\<lambda>k. set (snd (block_use_def A g k))" "succs_of g" "set A" for A g
proof unfold_locales
  fix k and lv :: liveness and ch :: bool
  obtain us ds where ud: "block_use_def A g k = (us, ds)" by (cases "block_use_def A g k")
  show "set (fst (block_use_def A g k)) \<subseteq> set A"
    using use_def_subset [OF ud [unfolded block_use_def_def]] ud by simp
  let ?out = "fold (\<lambda>s acc. union_list acc (lv_in lv s)) (succs_of g k) []"
  show "\<exists>ins out. set out = (\<Union>s \<in> set (succs_of g k). set (lv_in lv s)) \<and>
      set ins = set (fst (block_use_def A g k)) \<union> (set out - set (snd (block_use_def A g k))) \<and>
      live_visit A g k (lv, ch) =
        (if set ins \<noteq> set (lv_in lv k) \<or> set out \<noteq> set (lv_out lv k)
         then (\<lparr>lv_in = (lv_in lv)(k := ins), lv_out = (lv_out lv)(k := out)\<rparr>, True) else (lv, ch))"
    by (rule exI [of _ "union_list us (minus_list ?out ds)"], rule exI [of _ ?out])
      (simp add: live_visit_def ud Let_def set_fold_union)
  show "live_loop A g lv = (if snd (fold (live_visit A g) (g_order g) (lv, False))
      then live_loop A g (fst (fold (live_visit A g) (g_order g) (lv, False)))
      else Some (fst (fold (live_visit A g) (g_order g) (lv, False))))"
    by (subst live_loop.simps) (simp add: live_pass_def)
qed simp

lemma live_loop_solution:
  assumes "live_loop A g nothing_live = Some lv"
  shows "live_allocatable A lv \<and> (\<forall>k \<in> set (g_order g). live_solution A g lv k)"
proof -
  have sound: "block_flow.sound A g lv" and solved: "\<forall>k \<in> set (g_order g). block_flow.solved A g lv k"
    using block_flow.loop_solved [OF assms] by blast+
  have "live_solution A g lv k" if "block_flow.solved A g lv k" for k
  proof -
    obtain us ds where ud: "block_use_def A g k = (us, ds)" by (cases "block_use_def A g k")
    then show ?thesis
      using that use_def_live_before [OF ud [unfolded block_use_def_def], of "lv_out lv k"]
      by (simp add: live_solution_def block_flow.solved_def)
  qed
  then show ?thesis
    using solved block_flow.sound_names [OF sound] by (simp add: live_allocatable_def)
qed

subsection \<open>Edges\<close>

lemma nbs_add_edge:
  "nbs (add_edge x y g) z =
     (if x = y then nbs g z else if z = x then insert y (nbs g x) else if z = y then insert x (nbs g y) else nbs g z)"
  by (auto simp: add_edge_def add_neighbour_def)

lemma nodes_add_edge: "x \<in> nodes g \<Longrightarrow> y \<in> nodes g \<Longrightarrow> nodes (add_edge x y g) = nodes g"
  by (auto simp: add_edge_def add_neighbour_def)

lemma good_add_edge:
  assumes g: "good_graph g" and xy: "x \<in> nodes g" "y \<in> nodes g"
  shows "good_graph (add_edge x y g)"
proof (cases "x = y")
  case True
  then show ?thesis using g by (simp add: add_edge_def)
next
  case False
  have sym: "v \<in> nbs g u \<longleftrightarrow> u \<in> nbs g v" for u v using good_graphD(4) [OF g] by blast
  note D = good_graphD(1,2,3) [OF g]
  show ?thesis
    unfolding good_graph_def nodes_add_edge [OF xy] nbs_add_edge
    using False xy sym D by (auto split: if_splits)
qed

text \<open>What the walk keeps of the graph under construction: its nodes are the allocatable names.\<close>

definition graph_ok :: "string list \<Rightarrow> interference \<Rightarrow> bool" where
  "graph_ok A r = (good_graph (in_graph r) \<and> nodes (in_graph r) = set A \<and>
     (\<forall>(u, v) \<in> set (in_moves r). u \<in> set A \<and> v \<in> set A))"

lemma fold_add_edge:
  assumes "good_graph g" "x \<in> nodes g" "set ys \<subseteq> nodes g"
  shows "good_graph (fold (add_edge x) ys g) \<and> nodes (fold (add_edge x) ys g) = nodes g \<and>
    (\<forall>z. nbs g z \<subseteq> nbs (fold (add_edge x) ys g) z) \<and> set ys - {x} \<subseteq> nbs (fold (add_edge x) ys g) x"
  using assms
proof (induction ys arbitrary: g)
  case (Cons y ys)
  have n: "nodes (add_edge x y g) = nodes g" using Cons.prems by (simp add: nodes_add_edge)
  define g1 where "g1 = add_edge x y g"
  have IH: "good_graph (fold (add_edge x) ys g1) \<and> nodes (fold (add_edge x) ys g1) = nodes g \<and>
    (\<forall>z. nbs g1 z \<subseteq> nbs (fold (add_edge x) ys g1) z) \<and> set ys - {x} \<subseteq> nbs (fold (add_edge x) ys g1) x"
    using Cons.IH [of g1] good_add_edge [of g x y] Cons.prems n unfolding g1_def by simp
  have "\<forall>z. nbs g z \<subseteq> nbs g1 z" by (auto simp: g1_def nbs_add_edge)
  then have "\<forall>z. nbs g z \<subseteq> nbs (fold (add_edge x) ys g1) z" using IH by (meson order_trans)
  moreover have "y \<noteq> x \<longrightarrow> y \<in> nbs g1 x" by (simp add: g1_def nbs_add_edge)
  moreover have "fold (add_edge x) (y # ys) g = fold (add_edge x) ys g1" by (simp add: g1_def)
  ultimately show ?case using IH by auto
qed simp

lemma fold_edges:
  assumes "good_graph g" "set ds \<subseteq> nodes g" "set live \<subseteq> nodes g"
  shows "good_graph (fold (\<lambda>d g. fold (add_edge d) live g) ds g) \<and>
    nodes (fold (\<lambda>d g. fold (add_edge d) live g) ds g) = nodes g \<and>
    (\<forall>z. nbs g z \<subseteq> nbs (fold (\<lambda>d g. fold (add_edge d) live g) ds g) z) \<and>
    (\<forall>d \<in> set ds. set live - {d} \<subseteq> nbs (fold (\<lambda>d g. fold (add_edge d) live g) ds g) d)"
  using assms
proof (induction ds arbitrary: g)
  case (Cons d ds)
  define g1 where "g1 = fold (add_edge d) live g"
  have 1: "good_graph g1" "nodes g1 = nodes g" "\<forall>z. nbs g z \<subseteq> nbs g1 z" "set live - {d} \<subseteq> nbs g1 d"
    using fold_add_edge [of g d live] Cons.prems by (auto simp: g1_def)
  have IH: "good_graph (fold (\<lambda>d g. fold (add_edge d) live g) ds g1) \<and>
    nodes (fold (\<lambda>d g. fold (add_edge d) live g) ds g1) = nodes g1 \<and>
    (\<forall>z. nbs g1 z \<subseteq> nbs (fold (\<lambda>d g. fold (add_edge d) live g) ds g1) z) \<and>
    (\<forall>d \<in> set ds. set live - {d} \<subseteq> nbs (fold (\<lambda>d g. fold (add_edge d) live g) ds g1) d)"
    using Cons.IH [of g1] 1 Cons.prems by auto
  have f: "fold (\<lambda>d g. fold (add_edge d) live g) (d # ds) g = fold (\<lambda>d g. fold (add_edge d) live g) ds g1"
    by (simp add: g1_def)
  show ?case unfolding f using IH 1 by (metis (no_types, lifting) order_trans set_ConsD)
qed simp

lemma move_of_allocatable: "(u, v) \<in> set (move_of A i) \<Longrightarrow> u \<in> set A \<and> v \<in> set A"
  by (auto simp: move_of_def min_def max_def split: instr.splits ir_value.splits if_splits)

lemma set_fold_insert: "set (fold List.insert xs ys) = set xs \<union> set ys"
  by (induction xs arbitrary: ys) auto

lemma interfere_step:
  assumes "graph_ok A r" "set live \<subseteq> set A"
  shows "fst (interfere_step A at i (live, r)) = transfer A i live"
    and "graph_ok A (snd (interfere_step A at i (live, r)))"
    and "nbs (in_graph r) z \<subseteq> nbs (in_graph (snd (interfere_step A at i (live, r)))) z"
    and "d \<in> set (instruction_defs i) \<Longrightarrow> d \<in> set A \<Longrightarrow>
      set live - {d} \<subseteq> nbs (in_graph (snd (interfere_step A at i (live, r)))) d"
proof -
  show "fst (interfere_step A at i (live, r)) = transfer A i live"
    by (simp add: interfere_step_def transfer_def Let_def)
  define g where "g = fold (\<lambda>d g. fold (add_edge d) live g) (restrict A (instruction_defs i)) (in_graph r)"
  have g: "in_graph (snd (interfere_step A at i (live, r))) = g"
    and m: "in_moves (snd (interfere_step A at i (live, r))) = fold List.insert (move_of A i) (in_moves r)"
    by (simp_all add: interfere_step_def g_def Let_def)
  have e: "good_graph g \<and> nodes g = nodes (in_graph r) \<and> (\<forall>z. nbs (in_graph r) z \<subseteq> nbs g z) \<and>
    (\<forall>d \<in> set (restrict A (instruction_defs i)). set live - {d} \<subseteq> nbs g d)"
    unfolding g_def by (rule fold_edges) (use assms in \<open>auto simp: graph_ok_def\<close>)
  show "graph_ok A (snd (interfere_step A at i (live, r)))"
    using e assms(1) move_of_allocatable [of _ _ A i] unfolding graph_ok_def g m
    by (auto simp: set_fold_insert)
  show "nbs (in_graph r) z \<subseteq> nbs (in_graph (snd (interfere_step A at i (live, r)))) z"
    using e unfolding g by blast
  show "d \<in> set (instruction_defs i) \<Longrightarrow> d \<in> set A \<Longrightarrow>
      set live - {d} \<subseteq> nbs (in_graph (snd (interfere_step A at i (live, r)))) d"
    using e unfolding g by simp
qed

text \<open>A block, walked from its end: every definition meets what is live after it.\<close>

lemma interfere_block_snoc:
  "interfere_block A k (rev (xs @ [i])) st = interfere_block A k (rev xs) (interfere_step A (k, length xs) i st)"
  by simp

lemma interfere_block:
  assumes "graph_ok A r" "set live \<subseteq> set A" "interfere_block A k (rev is) (live, r) = (live', r')"
  shows "graph_ok A r' \<and> (\<forall>z. nbs (in_graph r) z \<subseteq> nbs (in_graph r') z) \<and>
    (\<forall>xs i ys d. is = xs @ i # ys \<longrightarrow> d \<in> set (instruction_defs i) \<longrightarrow> d \<in> set A \<longrightarrow>
       set (live_before A ys live) - {d} \<subseteq> nbs (in_graph r') d)"
  using assms
proof (induction "is" arbitrary: live r rule: rev_induct)
  case (snoc i js)
  define r1 where "r1 = snd (interfere_step A (k, length js) i (live, r))"
  note step = interfere_step [OF snoc.prems(1,2), where at = "(k, length js)" and i = i, folded r1_def]
  have eq: "interfere_step A (k, length js) i (live, r) = (transfer A i live, r1)"
    using step(1) by (simp add: r1_def prod_eq_iff)
  have b: "interfere_block A k (rev js) (transfer A i live, r1) = (live', r')"
    using snoc.prems(3) unfolding interfere_block_snoc eq .
  have sub: "set (transfer A i live) \<subseteq> set A" using snoc.prems(2) by (auto simp: transfer_def)
  have IH: "graph_ok A r' \<and> (\<forall>z. nbs (in_graph r1) z \<subseteq> nbs (in_graph r') z) \<and>
    (\<forall>xs i' ys d. js = xs @ i' # ys \<longrightarrow> d \<in> set (instruction_defs i') \<longrightarrow> d \<in> set A \<longrightarrow>
       set (live_before A ys (transfer A i live)) - {d} \<subseteq> nbs (in_graph r') d)"
    by (rule snoc.IH [OF step(2) sub b])
  have "set (live_before A ys live) - {d} \<subseteq> nbs (in_graph r') d"
    if eq': "js @ [i] = xs @ i' # ys" and d: "d \<in> set (instruction_defs i')" "d \<in> set A" for xs i' ys d
  proof (cases ys rule: rev_cases)
    case Nil
    then show ?thesis using eq' d step(4) [of d] IH by (auto simp: live_before_def)
  next
    case (snoc ys' j)
    then have "js = xs @ i' # ys'" "j = i" using eq' by auto
    then have "set (live_before A ys' (transfer A i live)) - {d} \<subseteq> nbs (in_graph r') d"
      using IH d by blast
    moreover have "live_before A ys live = live_before A ys' (transfer A i live)"
      using snoc \<open>j = i\<close> by (simp add: live_before_def)
    ultimately show ?thesis by simp
  qed
  then show ?case using IH step(3) by (meson order_trans)
qed simp

definition edges_complete :: "string list \<Rightarrow> cfg \<Rightarrow> (nat \<Rightarrow> string list) \<Rightarrow> interference \<Rightarrow> nat \<Rightarrow> bool" where
  "edges_complete A g live_out r k =
     (\<forall>xs i ys d. block_instructions (g_store g ! k) = xs @ i # ys \<longrightarrow> d \<in> set (instruction_defs i) \<longrightarrow>
        d \<in> set A \<longrightarrow> set (live_before A ys (live_out k)) - {d} \<subseteq> nbs (in_graph r) d)"

lemma interfere_blocks:
  assumes "graph_ok A r" "\<forall>k. set (live_out k) \<subseteq> set A"
  shows "graph_ok A (fold (\<lambda>k r. snd (interfere_block A k (rev (block_instructions (g_store g ! k))) (live_out k, r))) ks r) \<and>
    (\<forall>z. nbs (in_graph r) z \<subseteq>
       nbs (in_graph (fold (\<lambda>k r. snd (interfere_block A k (rev (block_instructions (g_store g ! k))) (live_out k, r))) ks r)) z) \<and>
    (\<forall>k \<in> set ks. edges_complete A g live_out
       (fold (\<lambda>k r. snd (interfere_block A k (rev (block_instructions (g_store g ! k))) (live_out k, r))) ks r) k)"
  using assms(1)
proof (induction ks arbitrary: r)
  case (Cons k ks)
  obtain live1 r1 where b: "interfere_block A k (rev (block_instructions (g_store g ! k))) (live_out k, r) = (live1, r1)"
    by (cases "interfere_block A k (rev (block_instructions (g_store g ! k))) (live_out k, r)")
  have "set (live_out k) \<subseteq> set A" using assms(2) by simp
  note blk = interfere_block [OF Cons.prems this b]
  from Cons.IH [of r1] blk show ?case
    by (simp add: b edges_complete_def) (meson order_trans)
qed simp

lemma build_interference_facts:
  assumes "build_interference A body = Some r"
  shows "\<exists>g lv. build_cfg body = Some g \<and> (\<forall>k \<in> set (g_order g). live_solution A g lv k) \<and>
    good_graph (in_graph r) \<and> nodes (in_graph r) = set A \<and>
    (\<forall>k \<in> set (g_order g). edges_complete A g (lv_out lv) r k) \<and>
    (\<forall>(u, v) \<in> set (in_moves r). u \<in> set A \<and> v \<in> set A)"
proof -
  obtain g lv where g: "build_cfg body = Some g"
    and lv: "live_loop A g \<lparr>lv_in = \<lambda>_. [], lv_out = \<lambda>_. []\<rparr> = Some lv"
    and r: "r = interfere_blocks A g (lv_out lv)
         \<lparr>in_graph = map (\<lambda>x. (x, [])) (remdups A), in_across = [], in_calls = \<lambda>_. 0, in_moves = []\<rparr>"
    using assms by (auto simp: build_interference_def bind_eq_Some_conv)
  have sol: "live_allocatable A lv \<and> (\<forall>k \<in> set (g_order g). live_solution A g lv k)"
    by (rule live_loop_solution [OF lv [folded nothing_live_def]])
  have empty: "map_of (map (\<lambda>x. (x, [])) xs) z = (if z \<in> set xs then Some [] else None)" for xs :: "string list" and z
    by (induction xs) auto
  have "nbs (map (\<lambda>x. (x, [])) (remdups A)) z = {}" for z
    unfolding nbs_def neighbours_def empty by simp
  then have "graph_ok A \<lparr>in_graph = map (\<lambda>x. (x, [])) (remdups A), in_across = [], in_calls = \<lambda>_. 0, in_moves = []\<rparr>"
    by (simp add: graph_ok_def good_graph_def nodes_def image_image)
  from interfere_blocks [OF this, of "lv_out lv" g "g_order g"] sol
  show ?thesis using g unfolding r interfere_blocks_def
    by (auto simp: live_allocatable_def graph_ok_def)
qed

lemma build_interference_total: "build_cfg body = Some g \<Longrightarrow> \<exists>r. build_interference A body = Some r"
  using block_flow.loop_total [of A g] by (auto simp: build_interference_def nothing_live_def)

subsection \<open>The allocator\<close>

lemma precolor_clash_iff:
  "precolor_clash c g = Some e \<Longrightarrow> \<exists>x n h. e = Precolored_clash x n h \<and> (x, h) \<in> set (rc_precolored c) \<and>
     n \<in> nbs g x \<and> n \<noteq> x \<and> map_of (rc_precolored c) n = Some h"
  "precolor_clash c g = None \<longleftrightarrow> \<not> (\<exists>x n h. (x, h) \<in> set (rc_precolored c) \<and> n \<in> nbs g x \<and> n \<noteq> x \<and>
     map_of (rc_precolored c) n = Some h)"
proof -
  define clashes where "clashes = concat (map (\<lambda>(x, r). map (\<lambda>n. Precolored_clash x n r)
    (filter (\<lambda>n. n \<noteq> x \<and> map_of (rc_precolored c) n = Some r) (neighbours g x))) (rc_precolored c))"
  have clash: "precolor_clash c g = (case clashes of [] \<Rightarrow> None | e # _ \<Rightarrow> Some e)"
    unfolding precolor_clash_def clashes_def ..
  have mem: "e \<in> set clashes \<longleftrightarrow> (\<exists>x n h. e = Precolored_clash x n h \<and> (x, h) \<in> set (rc_precolored c) \<and>
      n \<in> nbs g x \<and> n \<noteq> x \<and> map_of (rc_precolored c) n = Some h)" for e
    unfolding nbs_def clashes_def by fastforce
  show "precolor_clash c g = Some e \<Longrightarrow> \<exists>x n h. e = Precolored_clash x n h \<and> (x, h) \<in> set (rc_precolored c) \<and>
      n \<in> nbs g x \<and> n \<noteq> x \<and> map_of (rc_precolored c) n = Some h"
    using mem [of e] unfolding clash by (cases clashes) auto
  have "precolor_clash c g = None \<longleftrightarrow> (\<forall>e. e \<notin> set clashes)"
    unfolding clash by (cases clashes) auto
  then show "precolor_clash c g = None \<longleftrightarrow> \<not> (\<exists>x n h. (x, h) \<in> set (rc_precolored c) \<and> n \<in> nbs g x \<and> n \<noteq> x \<and>
      map_of (rc_precolored c) n = Some h)"
    unfolding mem by blast
qed

text \<open>Two interfering values that the constraints put in one register.\<close>

definition precolored_together ::
    "register_constraints \<Rightarrow> interference \<Rightarrow> string \<Rightarrow> string \<Rightarrow> string \<Rightarrow> bool" where
  "precolored_together c r x n h =
     ((x, h) \<in> set (rc_precolored c) \<and> n \<in> nbs (in_graph r) x \<and> n \<noteq> x \<and> map_of (rc_precolored c) n = Some h)"

text \<open>
  C33. The dataflow iteration and the colouring loops end for every body and every constraints: the allocator has no result
  exactly when the graph of the body cannot be built, which is a branch to a missing label.  It raises exactly when two
  interfering values are precoloured to one register, and then the error names such a pair and its register;
  no other exception of the colourer is possible.
\<close>

theorem allocate_total:
  "(allocate A c costs body = None \<longleftrightarrow> build_cfg body = None) \<and>
   ((\<exists>e. allocate A c costs body = Some (Inl e)) \<longleftrightarrow>
     (\<exists>r x n h. build_interference A body = Some r \<and> precolored_together c r x n h)) \<and>
   (\<forall>e. allocate A c costs body = Some (Inl e) \<longrightarrow>
     (\<exists>r x n h. build_interference A body = Some r \<and> precolored_together c r x n h \<and> e = Precolored_clash x n h))"
proof (cases "build_cfg body")
  case None
  then show ?thesis by (simp add: allocate_def build_interference_def)
next
  case (Some g)
  obtain r where r: "build_interference A body = Some r" using build_interference_total [OF Some] by blast
  have facts: "good_graph (in_graph r)" "\<forall>(u, v) \<in> set (in_moves r). u \<in> nodes (in_graph r) \<and> v \<in> nodes (in_graph r)"
    using build_interference_facts [OF r] by auto
  have al: "allocate A c costs body = Some (color c costs (in_graph r) (in_moves r))" by (simp add: allocate_def r)
  show ?thesis
  proof (cases "precolor_clash c (in_graph r)")
    case None
    then obtain a where "color c costs (in_graph r) (in_moves r) = Inr a" using color_total [OF facts] by blast
    then show ?thesis using None Some unfolding al r precolor_clash_iff(2) precolored_together_def by simp
  next
    case (Some e)
    then have "color c costs (in_graph r) (in_moves r) = Inl e" by (simp add: color_def)
    moreover obtain x n h where "e = Precolored_clash x n h" "precolored_together c r x n h"
      using precolor_clash_iff(1) [OF Some] unfolding precolored_together_def by blast
    ultimately show ?thesis using \<open>build_cfg body = Some g\<close> by (auto simp: al r)
  qed
qed

definition sum_body :: "instr list" where
  "sum_body = [Copy ''a'' (VInt 1), Copy ''b'' (VInt 2), Copy ''c'' (VName ''a''),
     BinaryOperation ''d'' (VName ''b'') ''+'' (VName ''c''), Return (Some (VName ''d''))]"

definition one_pool :: register_constraints where
  "one_pool = \<lparr>rc_allowed = [], rc_pool = [''ax'', ''bx''], rc_precolored = []\<rparr>"

definition sum_allocation :: allocation where
  "sum_allocation = \<lparr>al_homes = [(''a'', ''bx''), (''b'', ''ax''), (''c'', ''bx''), (''d'', ''ax'')], al_spilled = []\<rparr>"

lemma sum_body_allocated:
  "allocate [''a'', ''b'', ''c'', ''d''] one_pool no_costs sum_body = Some (Inr sum_allocation)"
  by code_simp

definition one_register_each :: register_constraints where
  "one_register_each = \<lparr>rc_allowed = [], rc_pool = [''ax'', ''bx''], rc_precolored = [(''a'', ''ax''), (''b'', ''ax'')]\<rparr>"

lemma allocate_total_witness:
  "(\<exists>al. allocate [''a'', ''b''] one_pool no_costs sum_body = Some (Inr al)) \<and>
   (\<exists>r x n h. build_interference [''a'', ''b''] sum_body = Some r \<and> precolored_together one_register_each r x n h)"
proof
  have g: "build_cfg sum_body \<noteq> None" by code_simp
  then have "allocate [''a'', ''b''] one_pool no_costs sum_body \<noteq> None"
    using allocate_total [of "[''a'', ''b'']" one_pool no_costs sum_body] by simp
  then obtain r where "allocate [''a'', ''b''] one_pool no_costs sum_body = Some r" by blast
  moreover have "\<not> precolored_together one_pool r x n h" for r x n h by (simp add: precolored_together_def one_pool_def)
  ultimately show "\<exists>al. allocate [''a'', ''b''] one_pool no_costs sum_body = Some (Inr al)"
    using allocate_total [of "[''a'', ''b'']" one_pool no_costs sum_body] by (cases r) auto
  have "allocate [''a'', ''b''] one_register_each no_costs sum_body = Some (Inl (Precolored_clash ''a'' ''b'' ''ax''))"
    by code_simp
  then show "\<exists>r x n h. build_interference [''a'', ''b''] sum_body = Some r \<and> precolored_together one_register_each r x n h"
    using allocate_total [of "[''a'', ''b'']" one_register_each no_costs sum_body] by blast
qed

text \<open>
  C1. The allocator is sound for the program: when an instruction of a block writes \<open>d\<close>, no other value that
  is live after it lives in the register of \<open>d\<close>, where liveness is a solution of the dataflow equations of
  the body's graph; and every register comes from the pool.
\<close>

theorem allocate_sound:
  assumes "allocate A c costs body = Some (Inr al)"
  shows "\<exists>g lv. build_cfg body = Some g \<and> (\<forall>k \<in> set (g_order g). live_solution A g lv k) \<and>
    (\<forall>k \<in> set (g_order g). \<forall>xs i ys d x h.
       block_instructions (g_store g ! k) = xs @ i # ys \<longrightarrow> d \<in> set (instruction_defs i) \<longrightarrow> d \<in> set A \<longrightarrow>
       x \<in> set (live_before A ys (lv_out lv k)) \<longrightarrow> x \<noteq> d \<longrightarrow>
       map_of (al_homes al) d = Some h \<longrightarrow> map_of (al_homes al) x \<noteq> Some h) \<and>
    (\<forall>x h. map_of (rc_precolored c) x = None \<longrightarrow> map_of (al_homes al) x = Some h \<longrightarrow> h \<in> set (rc_pool c))"
proof -
  obtain r where r: "build_interference A body = Some r" and col: "color c costs (in_graph r) (in_moves r) = Inr al"
    using assms by (auto simp: allocate_def)
  obtain g lv where g: "build_cfg body = Some g" and sol: "\<forall>k \<in> set (g_order g). live_solution A g lv k"
    and good: "good_graph (in_graph r)"
    and ed: "\<forall>k \<in> set (g_order g). edges_complete A g (lv_out lv) r k"
    using build_interference_facts [OF r] by blast
  have proper: "map_of (al_homes al) x = Some h \<Longrightarrow> map_of (al_homes al) y \<noteq> Some h"
    if "y \<in> nbs (in_graph r) x" for x y h
    using color_properties [OF col good] that by blast
  have "map_of (al_homes al) x \<noteq> Some h"
    if "k \<in> set (g_order g)" "block_instructions (g_store g ! k) = xs @ i # ys" "d \<in> set (instruction_defs i)"
      "d \<in> set A" "x \<in> set (live_before A ys (lv_out lv k))" "x \<noteq> d" "map_of (al_homes al) d = Some h"
    for k xs i ys d x h
  proof -
    have "set (live_before A ys (lv_out lv k)) - {d} \<subseteq> nbs (in_graph r) d"
      using ed that(1-4) unfolding edges_complete_def by blast
    then show ?thesis using proper that(5-7) by blast
  qed
  moreover have "\<forall>x h. map_of (rc_precolored c) x = None \<longrightarrow> map_of (al_homes al) x = Some h \<longrightarrow> h \<in> set (rc_pool c)"
    using color_properties [OF col good] by fastforce
  ultimately show ?thesis using g sol by blast
qed

lemma allocate_sound_witness:
  "\<exists>g. build_cfg sum_body = Some g \<and> map_of (al_homes sum_allocation) ''d'' = Some ''ax'' \<and> ''ax'' \<in> set (rc_pool one_pool)"
proof -
  have "rc_precolored one_pool = []" "map_of (al_homes sum_allocation) ''d'' = Some ''ax''"
    by (simp_all add: one_pool_def sum_allocation_def)
  then show ?thesis using allocate_sound [OF sum_body_allocated] by fastforce
qed

end
