(* ===== verification/Ir_Shapes.thy ===== *)
theory Ir_Shapes
  imports Ir
begin

text \<open>
  The predicates by which the builder of \<^verbatim>\<open>cc/ir.py\<close> recognises the shapes of syntax trees it lowers to
  addresses, loads and stores.  \<open>Char\<close> is a subclass of \<open>Int\<close>, so the class tests accept both; equality of
  nodes distinguishes them.
\<close>

subsection \<open>Leaves and constants\<close>

fun int_literal :: "node \<Rightarrow> int option" where
  "int_literal (Int_node v) = Some v"
| "int_literal (Char_node v) = Some v"
| "int_literal _ = None"

fun is_var :: "node \<Rightarrow> bool" where
  "is_var (Var_node _) = True"
| "is_var _ = False"

definition is_simple_index :: "node \<Rightarrow> bool" where
  "is_simple_index n = (int_literal n \<noteq> None \<or> is_var n)"

definition is_constant_true :: "node \<Rightarrow> bool" where
  "is_constant_true condition =
     ((case int_literal condition of Some v \<Rightarrow> v \<noteq> 0 | None \<Rightarrow> False) \<or>
      (case condition of
         BinaryOperation_node l op r \<Rightarrow>
           op = ''!='' \<and> r = Int_node 0 \<and> (case int_literal l of Some v \<Rightarrow> v \<noteq> 0 | None \<Rightarrow> False)
       | _ \<Rightarrow> False))"

fun is_byte_safe_binary_operation :: "node \<Rightarrow> bool" where
  "is_byte_safe_binary_operation (BinaryOperation_node l _ r) =
     ((int_literal l \<noteq> None \<or> is_var l \<or> is_byte_safe_binary_operation l) \<and>
      (int_literal r \<noteq> None \<or> is_var r \<or> is_byte_safe_binary_operation r))"
| "is_byte_safe_binary_operation _ = False"

definition is_byte_safe_store_rhs :: "node \<Rightarrow> bool" where
  "is_byte_safe_store_rhs n =
     (int_literal n \<noteq> None \<or> is_byte_safe_binary_operation n \<or> address_of_variable_name n \<noteq> None \<or>
      (case n of
         Index_node _ _ \<Rightarrow> True
       | PlaceLoad_node _ \<Rightarrow> True
       | String_node _ \<Rightarrow> True
       | Var_node _ \<Rightarrow> True
       | _ \<Rightarrow> False))"

subsection \<open>Chains of places\<close>

text \<open>
  The pointer variable of \<open>pointer->member\<close> and of \<open>pointer->outer.inner\<close>, and the variable of
  \<open>variable.member\<close> and of \<open>array[index].member\<close> with its index.
\<close>

definition arrow_member :: "node \<Rightarrow> string option" where
  "arrow_member n =
     (case n of MemberPlace_node b _ \<Rightarrow> (case b of DereferencePlace_node p \<Rightarrow>
        (case p of VariablePlace_node x \<Rightarrow> Some x | _ \<Rightarrow> None) | _ \<Rightarrow> None) | _ \<Rightarrow> None)"

definition arrow_member_member :: "node \<Rightarrow> string option" where
  "arrow_member_member n =
     (case n of MemberPlace_node b _ \<Rightarrow> (case b of MemberPlace_node _ _ \<Rightarrow> arrow_member b | _ \<Rightarrow> None) | _ \<Rightarrow> None)"

definition static_member :: "node \<Rightarrow> bool" where
  "static_member n =
     (case n of MemberPlace_node b _ \<Rightarrow> (case b of VariablePlace_node _ \<Rightarrow> True | _ \<Rightarrow> False) | _ \<Rightarrow> False)"

definition struct_array_member :: "node \<Rightarrow> node option" where
  "struct_array_member n =
     (case n of MemberPlace_node b _ \<Rightarrow> (case b of SubscriptPlace_node v i \<Rightarrow>
        (case v of VariablePlace_node _ \<Rightarrow> Some i | _ \<Rightarrow> None) | _ \<Rightarrow> None) | _ \<Rightarrow> None)"

definition is_arrow_member_address_of :: "node \<Rightarrow> string option" where
  "is_arrow_member_address_of n = (case n of PlaceAddressOf_node place \<Rightarrow> arrow_member place | _ \<Rightarrow> None)"

definition is_arrow_member_increment_decrement :: "node \<Rightarrow> string option" where
  "is_arrow_member_increment_decrement n =
     (case n of PlaceIncrementDecrement_node _ _ place \<Rightarrow> arrow_member place | _ \<Rightarrow> None)"

definition is_arrow_member_load :: "node \<Rightarrow> string option" where
  "is_arrow_member_load n = (case n of PlaceLoad_node place \<Rightarrow> arrow_member place | _ \<Rightarrow> None)"

definition is_arrow_member_member_load :: "node \<Rightarrow> string option" where
  "is_arrow_member_member_load n = (case n of PlaceLoad_node place \<Rightarrow> arrow_member_member place | _ \<Rightarrow> None)"

definition is_static_member_load :: "node \<Rightarrow> bool" where
  "is_static_member_load n = (case n of PlaceLoad_node place \<Rightarrow> static_member place | _ \<Rightarrow> False)"

definition is_struct_array_member_load :: "node \<Rightarrow> node option" where
  "is_struct_array_member_load n = (case n of PlaceLoad_node place \<Rightarrow> struct_array_member place | _ \<Rightarrow> None)"

text \<open>The store twins, with the test of the stored value.\<close>

definition store_place :: "node \<Rightarrow> node option" where
  "store_place n =
     (case n of PlaceStore_node place v \<Rightarrow> if is_byte_safe_store_rhs v then Some place else None | _ \<Rightarrow> None)"

definition is_arrow_member_member_store :: "node \<Rightarrow> string option" where
  "is_arrow_member_member_store n = Option.bind (store_place n) arrow_member_member"

definition is_arrow_member_store :: "node \<Rightarrow> string option" where
  "is_arrow_member_store n = Option.bind (store_place n) arrow_member"

definition is_static_member_store :: "node \<Rightarrow> bool" where
  "is_static_member_store n = (case store_place n of Some place \<Rightarrow> static_member place | None \<Rightarrow> False)"

definition is_struct_array_member_store :: "node \<Rightarrow> node option" where
  "is_struct_array_member_store n = Option.bind (store_place n) struct_array_member"

definition is_deref_store :: "node \<Rightarrow> string option" where
  "is_deref_store n =
     Option.bind (store_place n) (\<lambda>place. case place of
       DereferencePlace_node p \<Rightarrow> (case p of Var_node x \<Rightarrow> Some x | _ \<Rightarrow> None) | _ \<Rightarrow> None)"

text \<open>The walk down a chain of members and subscripts: its indices in source order and its root.\<close>

fun chain_indices :: "node \<Rightarrow> node list" where
  "chain_indices (SubscriptPlace_node base index) = chain_indices base @ [index]"
| "chain_indices (MemberPlace_node base _) = chain_indices base"
| "chain_indices _ = []"

fun chain_root :: "node \<Rightarrow> node" where
  "chain_root (SubscriptPlace_node base _) = chain_root base"
| "chain_root (MemberPlace_node base _) = chain_root base"
| "chain_root n = n"

definition is_mixed_subscript_chain_store :: "node \<Rightarrow> bool" where
  "is_mixed_subscript_chain_store n =
     (case store_place n of
        Some place \<Rightarrow>
          (case place of SubscriptPlace_node _ _ \<Rightarrow>
             (case chain_root place of
                VariablePlace_node _ \<Rightarrow> True
              | DereferencePlace_node p \<Rightarrow> (case p of VariablePlace_node _ \<Rightarrow> True | _ \<Rightarrow> False)
              | _ \<Rightarrow> False)
           | _ \<Rightarrow> False)
      | None \<Rightarrow> False)"

fun simple_subscripts :: "node \<Rightarrow> bool" where
  "simple_subscripts (SubscriptPlace_node base index) = (is_simple_index index \<and> simple_subscripts base)"
| "simple_subscripts (MemberPlace_node _ _) = True"
| "simple_subscripts (VariablePlace_node _) = True"
| "simple_subscripts _ = False"

definition is_nested_named_subscript_chain :: "node \<Rightarrow> bool" where
  "is_nested_named_subscript_chain place =
     (case place of SubscriptPlace_node b _ \<Rightarrow>
        (case b of SubscriptPlace_node _ _ \<Rightarrow> simple_subscripts place | _ \<Rightarrow> False) | _ \<Rightarrow> False)"

definition is_nested_subscript_load :: "node \<Rightarrow> bool" where
  "is_nested_subscript_load n =
     (case n of PlaceLoad_node place \<Rightarrow> is_nested_named_subscript_chain place | _ \<Rightarrow> False)"

definition is_subscript_call :: "node \<Rightarrow> node option" where
  "is_subscript_call n =
     (case n of
        PlaceCall_node args place \<Rightarrow>
          (case place of SubscriptPlace_node v index \<Rightarrow>
             (case v of VariablePlace_node _ \<Rightarrow> if args = [] then Some index else None | _ \<Rightarrow> None)
           | _ \<Rightarrow> None)
      | _ \<Rightarrow> None)"

definition is_migrated_access :: "node \<Rightarrow> bool" where
  "is_migrated_access n =
     (case n of PlaceCall_node _ _ \<Rightarrow> True | PlaceLoad_node _ \<Rightarrow> True | PlaceStore_node _ _ \<Rightarrow> True | _ \<Rightarrow> False)"

subsection \<open>Shapes left to the code generator\<close>

definition is_guarded_update :: "node \<Rightarrow> string \<Rightarrow> bool" where
  "is_guarded_update expression name =
     (case expression of
        Conditional_node _ else_expr then_expr \<Rightarrow> then_expr = Var_node name \<or> else_expr = Var_node name
      | _ \<Rightarrow> False)"

definition is_inplace_self_modify :: "node \<Rightarrow> string \<Rightarrow> bool" where
  "is_inplace_self_modify expression name =
     (case expression of
        BinaryOperation_node l op _ \<Rightarrow>
          op \<in> {''+'', ''-'', ''&'', ''|'', ''^'', ''<<'', ''>>'', ''*''} \<and> l = Var_node name
      | _ \<Rightarrow> False)"

text \<open>\<open>str.upper\<close> on the characters of an identifier.\<close>

definition upper_char :: "char \<Rightarrow> char" where
  "upper_char c = (if 97 \<le> (of_char c :: nat) \<and> (of_char c :: nat) \<le> 122 then char_of ((of_char c :: nat) - 32) else c)"

definition chain_operations :: "string set" where
  "chain_operations = {''+'', ''-'', ''*'', ''&'', ''|'', ''^''}"

fun is_named_constant_chain :: "node \<Rightarrow> bool" where
  "is_named_constant_chain (Int_node _) = True"
| "is_named_constant_chain (Char_node _) = True"
| "is_named_constant_chain (Var_node x) = (x = map upper_char x)"
| "is_named_constant_chain (BinaryOperation_node l op r) =
     (op \<in> chain_operations \<and> is_named_constant_chain l \<and> is_named_constant_chain r)"
| "is_named_constant_chain _ = False"

fun is_binary_operation :: "node \<Rightarrow> bool" where
  "is_binary_operation (BinaryOperation_node _ _ _) = True"
| "is_binary_operation _ = False"

definition is_multi_binop_constant_chain :: "node \<Rightarrow> bool" where
  "is_multi_binop_constant_chain expression =
     (case expression of
        BinaryOperation_node l op r \<Rightarrow>
          op \<in> chain_operations \<and> is_named_constant_chain l \<and> is_named_constant_chain r \<and>
          (is_binary_operation l \<or> is_binary_operation r)
      | _ \<Rightarrow> False)"

lemma chain_indices_smaller: "i \<in> set (chain_indices place) \<Longrightarrow> size i < size place"
  by (induction place rule: chain_indices.induct) auto

lemma struct_array_member_smaller: "struct_array_member place = Some i \<Longrightarrow> size i < size place"
  by (auto simp: struct_array_member_def split: node.splits)

end
