(* ===== verification/Ir_Builder.thy ===== *)
theory Ir_Builder
  imports Ir_Shapes Results Decimal
begin

text \<open>
  The \<open>Builder\<close> of \<^verbatim>\<open>cc/ir.py\<close>, which lowers syntax trees to three-address code.  A method is a
  computation on the builder's state that may raise.  The methods call each other; each is a definition
  over the methods it calls, \<open>calls\<close>, and \<open>methods\<close> ties them together with the number of stack frames
  that are left, since Python raises \<^verbatim>\<open>RecursionError\<close> when it runs out of them.
\<close>

subsection \<open>State and errors\<close>

datatype build_error =
    Goto_without_label string string
  | Duplicate_label string
  | Long_assign_expr
  | Assertion_failed string
  | Attribute_error
  | Recursion_error

text \<open>
  The counters of the builder, the instructions and strings emitted so far, and the user labels of the
  function; the line numbers the code keeps with the labels are left out.
\<close>

record builder =
  bd_counter :: nat
  bd_str_counter :: nat
  bd_out :: "instr list"
  bd_strings :: "(string \<times> string) list"
  bd_defined :: "string list"
  bd_referenced :: "string list"

text \<open>What does not change within a function: the carry-return functions and the types of variables.\<close>

record build_context =
  cx_carry :: "string list"
  cx_types :: "string \<rightharpoonup> string"

type_synonym 'a build = "builder \<Rightarrow> build_error + 'a \<times> builder"

definition return_build :: "'a \<Rightarrow> 'a build" where
  "return_build x s = Inr (x, s)"

definition raise_build :: "build_error \<Rightarrow> 'a build" where
  "raise_build e s = Inl e"

definition bind_build :: "'a build \<Rightarrow> ('a \<Rightarrow> 'b build) \<Rightarrow> 'b build" where
  "bind_build m f s = (case m s of Inl e \<Rightarrow> Inl e | Inr (x, s') \<Rightarrow> f x s')"

definition then_build :: "unit build \<Rightarrow> 'b build \<Rightarrow> 'b build" where
  "then_build m m' = bind_build m (\<lambda>_. m')"

definition emit :: "instr list \<Rightarrow> unit build" where
  "emit is s = Inr ((), s\<lparr>bd_out := bd_out s @ is\<rparr>)"

definition label_name :: "string \<Rightarrow> nat \<Rightarrow> string" where
  "label_name tag n = ''._ir_'' @ tag @ show_nat n"

definition temp_name :: "nat \<Rightarrow> string" where
  "temp_name n = ''_ir_'' @ show_nat n"

definition user_label :: "string \<Rightarrow> string" where
  "user_label name = ''.user_'' @ name"

definition new_label :: "string \<Rightarrow> string build" where
  "new_label tag s = Inr (label_name tag (bd_counter s), s\<lparr>bd_counter := Suc (bd_counter s)\<rparr>)"

definition new_tmp :: "string build" where
  "new_tmp s = Inr (temp_name (bd_counter s), s\<lparr>bd_counter := Suc (bd_counter s)\<rparr>)"

definition new_string :: "string \<Rightarrow> string build" where
  "new_string content s =
     (let l = ''_ir_s'' @ show_nat (bd_str_counter s)
      in Inr (l, s\<lparr>bd_str_counter := Suc (bd_str_counter s), bd_strings := bd_strings s @ [(l, content)]\<rparr>))"

text \<open>
  A call of one of the methods that call each other through the syntax tree; what comes back is Python's
  None for the methods that return nothing.
\<close>

datatype builder_call =
    Cond_false node string
  | Cond_true node string
  | Expr node
  | Stmt "string option" "string option" node

type_synonym builder_calls = "builder_call \<Rightarrow> ir_value option build"

definition call_cond_false :: "builder_calls \<Rightarrow> node \<Rightarrow> string \<Rightarrow> unit build" where
  "call_cond_false calls cond target = bind_build (calls (Cond_false cond target)) (\<lambda>_. return_build ())"

definition call_cond_true :: "builder_calls \<Rightarrow> node \<Rightarrow> string \<Rightarrow> unit build" where
  "call_cond_true calls cond target = bind_build (calls (Cond_true cond target)) (\<lambda>_. return_build ())"

definition call_expr :: "builder_calls \<Rightarrow> node \<Rightarrow> ir_value build" where
  "call_expr calls e =
     bind_build (calls (Expr e)) (\<lambda>r. case r of Some v \<Rightarrow> return_build v | None \<Rightarrow> raise_build Attribute_error)"

definition call_stmt :: "builder_calls \<Rightarrow> string option \<Rightarrow> string option \<Rightarrow> node \<Rightarrow> unit build" where
  "call_stmt calls break_tgt cont_tgt stmt = bind_build (calls (Stmt break_tgt cont_tgt stmt)) (\<lambda>_. return_build ())"

subsection \<open>Conditions\<close>

definition comparison_operations :: "string set" where
  "comparison_operations = {''=='', ''!='', ''<'', ''<='', ''>'', ''>=''}"

definition invert_operation :: "string \<Rightarrow> string" where
  "invert_operation op =
     (if op = ''!='' then ''=='' else if op = ''<'' then ''>='' else if op = ''<='' then ''>''
      else if op = ''=='' then ''!='' else if op = ''>'' then ''<='' else ''<'')"

definition is_carry_return_call :: "build_context \<Rightarrow> node \<Rightarrow> bool" where
  "is_carry_return_call C n = (case n of Call_node _ name \<Rightarrow> name \<in> set (cx_carry C) | _ \<Rightarrow> False)"

text \<open>The last two cases of both methods: a comparison, and the general case.\<close>

definition build_compare :: "builder_calls \<Rightarrow> node \<Rightarrow> string \<Rightarrow> node \<Rightarrow> string \<Rightarrow> unit build" where
  "build_compare calls left op right target =
     bind_build (call_expr calls left) (\<lambda>l.
     bind_build (call_expr calls right) (\<lambda>r. emit [BranchFalse l op r target]))"

definition build_test :: "builder_calls \<Rightarrow> node \<Rightarrow> string \<Rightarrow> string \<Rightarrow> unit build" where
  "build_test calls cond op target =
     bind_build (call_expr calls cond) (\<lambda>v. emit [BranchFalse v op (VInt 0) target])"

definition build_cond_false :: "builder_calls \<Rightarrow> build_context \<Rightarrow> node \<Rightarrow> string \<Rightarrow> unit build" where
  "build_cond_false calls C cond target =
     (case cond of
        LogicalAnd_node left right \<Rightarrow>
          then_build (call_cond_false calls left target) (call_cond_false calls right target)
      | LogicalOr_node left right \<Rightarrow>
          bind_build (new_label ''lor'') (\<lambda>skip_lbl.
          then_build (call_cond_true calls left skip_lbl)
          (then_build (call_cond_false calls right target) (emit [Label skip_lbl])))
      | BinaryOperation_node left op right \<Rightarrow>
          if op \<in> {''!='', ''==''} \<and> is_carry_return_call C left \<and> right = Int_node 0
          then emit [CarryBranch left target (if op = ''!='' then ''set'' else ''clear'')]
          else if op \<in> comparison_operations then build_compare calls left op right target
          else build_test calls cond ''!='' target
      | _ \<Rightarrow> build_test calls cond ''!='' target)"

definition build_cond_true :: "builder_calls \<Rightarrow> build_context \<Rightarrow> node \<Rightarrow> string \<Rightarrow> unit build" where
  "build_cond_true calls C cond target =
     (case cond of
        LogicalOr_node left right \<Rightarrow>
          then_build (call_cond_true calls left target) (call_cond_true calls right target)
      | LogicalAnd_node left right \<Rightarrow>
          bind_build (new_label ''land'') (\<lambda>skip_lbl.
          then_build (call_cond_false calls left skip_lbl)
          (then_build (call_cond_true calls right target) (emit [Label skip_lbl])))
      | BinaryOperation_node left op right \<Rightarrow>
          if op \<in> {''!='', ''==''} \<and> is_carry_return_call C left \<and> right = Int_node 0
          then emit [CarryBranch left target (if op = ''!='' then ''clear'' else ''set'')]
          else if op \<in> comparison_operations then build_compare calls left (invert_operation op) right target
          else build_test calls cond ''=='' target
      | _ \<Rightarrow> build_test calls cond ''=='' target)"

subsection \<open>Expressions\<close>

fun build_exprs :: "builder_calls \<Rightarrow> node list \<Rightarrow> ir_value list build" where
  "build_exprs calls [] = return_build []"
| "build_exprs calls (e # es) =
     bind_build (call_expr calls e) (\<lambda>v. bind_build (build_exprs calls es) (\<lambda>vs. return_build (v # vs)))"

definition lower_subscript_chain_indices :: "builder_calls \<Rightarrow> node \<Rightarrow> ir_value list build" where
  "lower_subscript_chain_indices calls place = build_exprs calls (chain_indices place)"

text \<open>An address into a fresh temp and what is done through it: a load, \<open>lea\<close>, a store, a call.\<close>

definition build_load :: "ir_value option \<Rightarrow> ir_value list \<Rightarrow> node \<Rightarrow> ir_value build" where
  "build_load base_value indices place =
     bind_build new_tmp (\<lambda>address_temp. bind_build new_tmp (\<lambda>result_temp.
     then_build (emit [Address base_value address_temp indices place, Load (VName address_temp) result_temp False 0])
     (return_build (VName result_temp))))"

definition build_address_of :: "string \<Rightarrow> node \<Rightarrow> ir_value build" where
  "build_address_of p place =
     bind_build new_tmp (\<lambda>address_temp. bind_build new_tmp (\<lambda>result_temp.
     then_build (emit [Address (Some (VName p)) address_temp [] place, AddressOf (VName address_temp) result_temp])
     (return_build (VName result_temp))))"

definition build_opaque :: "(node \<Rightarrow> instr) \<Rightarrow> node \<Rightarrow> ir_value build" where
  "build_opaque wrap e =
     bind_build new_tmp (\<lambda>temp. then_build (emit [wrap (Assign_node e temp)]) (return_build (VName temp)))"

text \<open>\<open>_assign_rhs_field_name\<close> with the field's value, and \<open>dataclasses.replace\<close> of that field.\<close>

fun assign_rhs :: "node \<Rightarrow> node option" where
  "assign_rhs (PlaceStore_node _ v) = Some v"
| "assign_rhs (Assign_node e _) = Some e"
| "assign_rhs (IndexAssign_node _ e _) = Some e"
| "assign_rhs (DerefIncrementAssign_node _ e _ _) = Some e"
| "assign_rhs _ = None"

fun rebind_rhs :: "node \<Rightarrow> node \<Rightarrow> node" where
  "rebind_rhs v (PlaceStore_node p _) = PlaceStore_node p v"
| "rebind_rhs v (Assign_node _ x) = Assign_node v x"
| "rebind_rhs v (IndexAssign_node a _ i) = IndexAssign_node a v i"
| "rebind_rhs v (DerefIncrementAssign_node d _ p t) = DerefIncrementAssign_node d v p t"
| "rebind_rhs v n = n"

definition is_long_variable :: "build_context \<Rightarrow> string \<Rightarrow> bool" where
  "is_long_variable C x = (cx_types C x = Some ''unsigned long'')"

definition lower_assign_expr :: "builder_calls \<Rightarrow> build_context \<Rightarrow> node \<Rightarrow> ir_value build" where
  "lower_assign_expr calls C inner =
     (case assign_rhs inner of
        None \<Rightarrow> raise_build Attribute_error
      | Some original_rhs \<Rightarrow>
          if (case inner of Assign_node _ x \<Rightarrow> is_long_variable C x | _ \<Rightarrow> False)
          then raise_build Long_assign_expr
          else
            bind_build (call_expr calls original_rhs) (\<lambda>rhs_value.
            bind_build new_tmp (\<lambda>temp.
            then_build (emit [Copy temp rhs_value])
            (then_build (call_stmt calls None None (rebind_rhs (Var_node temp) inner))
            (return_build (VName temp))))))"

definition build_logical :: "builder_calls \<Rightarrow> node \<Rightarrow> ir_value build" where
  "build_logical calls e =
     bind_build new_tmp (\<lambda>temp. bind_build (new_label ''btrue'') (\<lambda>true_lbl. bind_build (new_label ''bend'') (\<lambda>end_lbl.
     then_build (call_cond_true calls e true_lbl)
     (then_build (emit [Copy temp (VInt 0), Jump end_lbl, Label true_lbl, Copy temp (VInt 1), Label end_lbl])
     (return_build (VName temp))))))"

definition build_place_load :: "builder_calls \<Rightarrow> node \<Rightarrow> node \<Rightarrow> ir_value build" where
  "build_place_load calls e place =
     (case is_arrow_member_member_load e of
        Some p \<Rightarrow> build_load (Some (VName p)) [] place
      | None \<Rightarrow> (case is_arrow_member_load e of
          Some p \<Rightarrow> build_load (Some (VName p)) [] place
        | None \<Rightarrow>
            if is_nested_subscript_load e
            then bind_build (lower_subscript_chain_indices calls place) (\<lambda>indices. build_load None indices place)
            else if is_static_member_load e then build_load None [] place
            else (case is_struct_array_member_load e of
                Some index \<Rightarrow> bind_build (call_expr calls index) (\<lambda>v. build_load None [v] place)
              | None \<Rightarrow> build_opaque Access e)))"

definition build_expr :: "builder_calls \<Rightarrow> build_context \<Rightarrow> node \<Rightarrow> ir_value build" where
  "build_expr calls C e =
     (case e of
        Int_node v \<Rightarrow> return_build (VInt v)
      | Char_node v \<Rightarrow> return_build (VInt v)
      | Var_node x \<Rightarrow> return_build (VName x)
      | String_node content \<Rightarrow> bind_build (new_string content) (\<lambda>l. return_build (VName l))
      | BinaryOperation_node left op right \<Rightarrow>
          bind_build (call_expr calls left) (\<lambda>l. bind_build (call_expr calls right) (\<lambda>r.
          bind_build new_tmp (\<lambda>temp. then_build (emit [BinaryOperation temp l op r]) (return_build (VName temp)))))
      | Call_node args name \<Rightarrow>
          if name \<in> set (cx_carry C) then build_opaque Block e
          else bind_build (build_exprs calls args) (\<lambda>vs.
            bind_build new_tmp (\<lambda>temp. then_build (emit [Call vs (Some temp) name]) (return_build (VName temp))))
      | Index_node array index \<Rightarrow>
          (case array of
             Var_node base \<Rightarrow>
               bind_build (call_expr calls index) (\<lambda>v.
               bind_build new_tmp (\<lambda>temp. then_build (emit [Index base temp v]) (return_build (VName temp))))
           | _ \<Rightarrow> build_opaque Block e)
      | LogicalOr_node _ _ \<Rightarrow> build_logical calls e
      | LogicalAnd_node _ _ \<Rightarrow> build_logical calls e
      | PlaceAddressOf_node place \<Rightarrow>
          if address_of_variable_name e \<noteq> None then return_build (VAddr e)
          else (case is_arrow_member_address_of e of
              Some p \<Rightarrow> build_address_of p place
            | None \<Rightarrow> build_opaque Block e)
      | AssignExpr_node inner \<Rightarrow> lower_assign_expr calls C inner
      | PlaceLoad_node place \<Rightarrow> build_place_load calls e place
      | _ \<Rightarrow> build_opaque (if is_migrated_access e then Access else Block) e)"

end
