(* ===== verification/Ir_Lowering.thy ===== *)
theory Ir_Lowering
  imports Ir_Builder
begin

text \<open>
  Statements, functions and programs of the \<open>Builder\<close> of \<^verbatim>\<open>cc/ir.py\<close>, and the knot that ties the methods.
\<close>

subsection \<open>Assignments and calls\<close>

definition is_long_pointee_index :: "build_context \<Rightarrow> node \<Rightarrow> bool" where
  "is_long_pointee_index C e =
     (case e of
        Index_node array _ \<Rightarrow> (case array of Var_node x \<Rightarrow> cx_types C x = Some ''unsigned long*'' | _ \<Rightarrow> False)
      | _ \<Rightarrow> False)"

definition build_assign :: "builder_calls \<Rightarrow> build_context \<Rightarrow> node \<Rightarrow> node \<Rightarrow> string \<Rightarrow> unit build" where
  "build_assign calls C stmt e name =
     (if is_long_variable C name \<or> is_long_pointee_index C e \<or> is_guarded_update e name
      then emit [Block stmt]
      else if is_multi_binop_constant_chain e then emit [Block stmt]
      else if is_inplace_self_modify e name then emit [Block stmt]
      else bind_build (call_expr calls e) (\<lambda>source. emit [Copy name source]))"

definition build_return :: "builder_calls \<Rightarrow> build_context \<Rightarrow> node \<Rightarrow> node option \<Rightarrow> unit build" where
  "build_return calls C stmt v =
     (case v of
        None \<Rightarrow> emit [Return None]
      | Some e \<Rightarrow>
          if is_long_pointee_index C e then emit [Block stmt]
          else bind_build (call_expr calls e) (\<lambda>r. emit [Return (Some r)]))"

text \<open>A store of \<open>value\<close> through the address of \<open>place\<close>.\<close>

definition build_store :: "builder_calls \<Rightarrow> string option \<Rightarrow> ir_value list \<Rightarrow> node \<Rightarrow> node \<Rightarrow> unit build" where
  "build_store calls base indices place v =
     bind_build (call_expr calls v) (\<lambda>store_value. bind_build new_tmp (\<lambda>address_temp.
     emit [Address (map_option VName base) address_temp indices place, Store (VName address_temp) store_value 0]))"

definition build_place_store :: "builder_calls \<Rightarrow> node \<Rightarrow> node \<Rightarrow> node \<Rightarrow> unit build" where
  "build_place_store calls stmt place v =
     (case is_arrow_member_member_store stmt of
        Some p \<Rightarrow> build_store calls (Some p) [] place v
      | None \<Rightarrow> (case is_arrow_member_store stmt of
          Some p \<Rightarrow> build_store calls (Some p) [] place v
        | None \<Rightarrow>
            if is_static_member_store stmt then build_store calls None [] place v
            else (case is_deref_store stmt of
                Some p \<Rightarrow> build_store calls (Some p) [] place v
              | None \<Rightarrow>
                  if is_mixed_subscript_chain_store stmt
                  then bind_build (lower_subscript_chain_indices calls place)
                    (\<lambda>indices. build_store calls None indices place v)
                  else (case is_struct_array_member_store stmt of
                      Some index \<Rightarrow> bind_build (call_expr calls index) (\<lambda>i. build_store calls None [i] place v)
                    | None \<Rightarrow> emit [Access stmt]))))"

definition build_place_call :: "builder_calls \<Rightarrow> node \<Rightarrow> node \<Rightarrow> unit build" where
  "build_place_call calls stmt place =
     (case is_subscript_call stmt of
        Some index \<Rightarrow>
          bind_build (call_expr calls index) (\<lambda>v. bind_build new_tmp (\<lambda>address_temp.
          emit [Address None address_temp [v] place, IndirectCall (VName address_temp)]))
      | None \<Rightarrow> emit [Access stmt])"

definition build_increment :: "node \<Rightarrow> int \<Rightarrow> bool \<Rightarrow> node \<Rightarrow> unit build" where
  "build_increment stmt delta is_postfix place =
     (case is_arrow_member_increment_decrement stmt of
        Some p \<Rightarrow> bind_build new_tmp (\<lambda>address_temp.
          emit [Address (Some (VName p)) address_temp [] place, IncrementDecrement (VName address_temp) delta is_postfix])
      | None \<Rightarrow> emit [Block stmt])"

subsection \<open>Blocks, branches and loops\<close>

fun build_stmts :: "builder_calls \<Rightarrow> string option \<Rightarrow> string option \<Rightarrow> node list \<Rightarrow> unit build" where
  "build_stmts calls break_tgt cont_tgt [] = return_build ()"
| "build_stmts calls break_tgt cont_tgt (s # ss) =
     then_build (call_stmt calls break_tgt cont_tgt s) (build_stmts calls break_tgt cont_tgt ss)"

definition build_if ::
    "builder_calls \<Rightarrow> string option \<Rightarrow> string option \<Rightarrow> node list \<Rightarrow> node \<Rightarrow> node list option \<Rightarrow> unit build" where
  "build_if calls break_tgt cont_tgt body cond else_body =
     (case else_body of
        Some else_stmts \<Rightarrow>
          bind_build (new_label ''else'') (\<lambda>else_lbl. bind_build (new_label ''endif'') (\<lambda>end_lbl.
          then_build (call_cond_false calls cond else_lbl)
          (then_build (build_stmts calls break_tgt cont_tgt body)
          (then_build (emit [Jump end_lbl, Label else_lbl])
          (then_build (build_stmts calls break_tgt cont_tgt else_stmts)
          (emit [Label end_lbl]))))))
      | None \<Rightarrow>
          bind_build (new_label ''endif'') (\<lambda>end_lbl.
          then_build (call_cond_false calls cond end_lbl)
          (then_build (build_stmts calls break_tgt cont_tgt body)
          (emit [Label end_lbl]))))"

definition build_while :: "builder_calls \<Rightarrow> node list \<Rightarrow> node \<Rightarrow> unit build" where
  "build_while calls body cond =
     bind_build (new_label ''wloop'') (\<lambda>loop_lbl. bind_build (new_label ''wend'') (\<lambda>end_lbl.
     then_build (emit [Label loop_lbl])
     (then_build (if is_constant_true cond then return_build () else call_cond_false calls cond end_lbl)
     (then_build (emit [LoopBoundary (Some loop_lbl) end_lbl True])
     (then_build (build_stmts calls (Some end_lbl) (Some loop_lbl) body)
     (then_build (emit [LoopBoundary (Some loop_lbl) end_lbl False])
     (emit [Jump loop_lbl, Label end_lbl])))))))"

definition build_do_while :: "builder_calls \<Rightarrow> node list \<Rightarrow> node \<Rightarrow> unit build" where
  "build_do_while calls body cond =
     bind_build (new_label ''dloop'') (\<lambda>loop_lbl. bind_build (new_label ''dcond'') (\<lambda>cond_lbl.
     bind_build (new_label ''dend'') (\<lambda>end_lbl.
     then_build (emit [Label loop_lbl, LoopBoundary (Some cond_lbl) end_lbl True])
     (then_build (build_stmts calls (Some end_lbl) (Some cond_lbl) body)
     (then_build (emit [LoopBoundary (Some cond_lbl) end_lbl False, Label cond_lbl])
     (then_build (call_cond_true calls cond loop_lbl)
     (emit [Label end_lbl])))))))"

definition build_for ::
    "builder_calls \<Rightarrow> node list \<Rightarrow> node option \<Rightarrow> node list \<Rightarrow> node list \<Rightarrow> unit build" where
  "build_for calls body cond ini step =
     then_build (build_stmts calls None None ini)
     (bind_build (new_label ''floop'') (\<lambda>loop_lbl. bind_build (new_label ''fstep'') (\<lambda>step_lbl.
     bind_build (new_label ''fend'') (\<lambda>end_lbl.
     then_build (emit [Label loop_lbl])
     (then_build (case cond of
          Some c \<Rightarrow> if is_constant_true c then return_build () else call_cond_false calls c end_lbl
        | None \<Rightarrow> return_build ())
     (then_build (emit [LoopBoundary (Some step_lbl) end_lbl True])
     (then_build (build_stmts calls (Some end_lbl) (Some step_lbl) body)
     (then_build (emit [LoopBoundary (Some step_lbl) end_lbl False, Label step_lbl])
     (bind_build (build_exprs calls step) (\<lambda>_.
     emit [Jump loop_lbl, Label end_lbl]))))))))))"

text \<open>The instructions of a case go to a list of their own.\<close>

definition build_case_body :: "builder_calls \<Rightarrow> string \<Rightarrow> string option \<Rightarrow> node list \<Rightarrow> instr list build" where
  "build_case_body calls end_lbl cont_tgt body s =
     (case build_stmts calls (Some end_lbl) cont_tgt body (s\<lparr>bd_out := []\<rparr>) of
        Inl e \<Rightarrow> Inl e
      | Inr (u, s') \<Rightarrow> Inr (bd_out s', s'\<lparr>bd_out := bd_out s\<rparr>))"

fun build_cases :: "builder_calls \<Rightarrow> string \<Rightarrow> string option \<Rightarrow> node list \<Rightarrow> switch_case list build" where
  "build_cases calls end_lbl cont_tgt [] = return_build []"
| "build_cases calls end_lbl cont_tgt (c # cs) =
     (case c of
        SwitchCase_node body v \<Rightarrow>
          bind_build (build_case_body calls end_lbl cont_tgt body) (\<lambda>b.
          bind_build (build_cases calls end_lbl cont_tgt cs) (\<lambda>rest. return_build (SwitchCase b v # rest)))
      | _ \<Rightarrow> raise_build Attribute_error)"

definition build_switch :: "builder_calls \<Rightarrow> string option \<Rightarrow> node list \<Rightarrow> node \<Rightarrow> node \<Rightarrow> unit build" where
  "build_switch calls cont_tgt cases discriminant original_ast =
     bind_build (new_label ''swend'') (\<lambda>end_lbl.
     bind_build (build_cases calls end_lbl cont_tgt cases) (\<lambda>ir_cases.
     emit [Switch ir_cases discriminant end_lbl original_ast]))"

definition build_goto :: "string \<Rightarrow> unit build" where
  "build_goto name s =
     emit [Jump (user_label name)] (s\<lparr>bd_referenced :=
       (if name \<in> set (bd_referenced s) then bd_referenced s else bd_referenced s @ [name])\<rparr>)"

definition build_user_label :: "string \<Rightarrow> unit build" where
  "build_user_label name s =
     (if name \<in> set (bd_defined s) then Inl (Duplicate_label name)
      else emit [Label (user_label name)] (s\<lparr>bd_defined := bd_defined s @ [name]\<rparr>))"

definition build_stmt :: "builder_calls \<Rightarrow> build_context \<Rightarrow> string option \<Rightarrow> string option \<Rightarrow> node \<Rightarrow> unit build" where
  "build_stmt calls C break_tgt cont_tgt stmt =
     (case stmt of
        Assign_node e name \<Rightarrow> build_assign calls C stmt e name
      | IndexAssign_node array e index \<Rightarrow>
          (case array of
             Var_node base \<Rightarrow>
               bind_build (call_expr calls index) (\<lambda>i. bind_build (call_expr calls e) (\<lambda>source.
               emit [IndexAssign base i source]))
           | _ \<Rightarrow> emit [Block stmt])
      | Call_node args name \<Rightarrow>
          if name = ''asm'' then emit [Block stmt]
          else bind_build (build_exprs calls args) (\<lambda>vs. emit [Call vs None name])
      | If_node body cond else_body \<Rightarrow> build_if calls break_tgt cont_tgt body cond else_body
      | While_node body cond \<Rightarrow> build_while calls body cond
      | DoWhile_node body cond \<Rightarrow> build_do_while calls body cond
      | For_node body cond ini step \<Rightarrow> build_for calls body cond ini step
      | Break_node \<Rightarrow>
          (case break_tgt of Some t \<Rightarrow> emit [Jump t] | None \<Rightarrow> raise_build (Assertion_failed ''break outside loop''))
      | Compound_node body \<Rightarrow> build_stmts calls break_tgt cont_tgt body
      | Continue_node \<Rightarrow>
          (case cont_tgt of Some t \<Rightarrow> emit [Jump t] | None \<Rightarrow> raise_build (Assertion_failed ''continue outside loop''))
      | Goto_node name \<Rightarrow> build_goto name
      | Label_node name \<Rightarrow> build_user_label name
      | Return_node v \<Rightarrow> build_return calls C stmt v
      | InlineAsm_node content \<Rightarrow> emit [InlineAsm content]
      | Switch_node cases discriminant \<Rightarrow> build_switch calls cont_tgt cases discriminant stmt
      | PlaceCall_node _ place \<Rightarrow> build_place_call calls stmt place
      | PlaceIncrementDecrement_node delta is_postfix place \<Rightarrow> build_increment stmt delta is_postfix place
      | PlaceStore_node place v \<Rightarrow> build_place_store calls stmt place v
      | _ \<Rightarrow> emit [if is_migrated_access stmt then Access stmt else Block stmt])"

subsection \<open>Tying the knot\<close>

fun methods :: "build_context \<Rightarrow> nat \<Rightarrow> builder_calls" where
  "methods C 0 call = raise_build Recursion_error"
| "methods C (Suc frames) (Cond_false cond target) =
     then_build (build_cond_false (methods C frames) C cond target) (return_build None)"
| "methods C (Suc frames) (Cond_true cond target) =
     then_build (build_cond_true (methods C frames) C cond target) (return_build None)"
| "methods C (Suc frames) (Expr e) = bind_build (build_expr (methods C frames) C e) (\<lambda>v. return_build (Some v))"
| "methods C (Suc frames) (Stmt break_tgt cont_tgt stmt) =
     then_build (build_stmt (methods C frames) C break_tgt cont_tgt stmt) (return_build None)"

subsection \<open>Functions and programs\<close>

text \<open>The types of the local variables; the walk does not enter \<open>for\<close> loops.\<close>

fun nested_statements :: "node \<Rightarrow> node list" where
  "nested_statements (If_node body _ else_body) = body @ (case else_body of None \<Rightarrow> [] | Some e \<Rightarrow> e)"
| "nested_statements (Compound_node body) = body"
| "nested_statements (DoWhile_node body _) = body"
| "nested_statements (While_node body _) = body"
| "nested_statements (Switch_node cases _) = concat (map (\<lambda>c. case c of SwitchCase_node body _ \<Rightarrow> body | _ \<Rightarrow> []) cases)"
| "nested_statements _ = []"

lemma size_list_append: "size_list f (xs @ ys) = size_list f xs + size_list f ys"
  by (induction xs) auto

lemma case_bodies_smaller:
  "size_list size (concat (map (\<lambda>c. case c of SwitchCase_node body _ \<Rightarrow> body | _ \<Rightarrow> []) cases)) \<le> size_list size cases"
proof (induction cases)
  case (Cons c cases)
  have "size_list size (case c of SwitchCase_node body _ \<Rightarrow> body | _ \<Rightarrow> []) \<le> size c" by (cases c) auto
  then show ?case using Cons by (simp add: size_list_append)
qed simp

lemma nested_statements_smaller: "size_list size (nested_statements n) \<le> size n"
proof (induction n rule: nested_statements.induct)
  case (1 body cond else_body)
  then show ?case by (cases else_body) (auto simp: size_list_append)
next
  case (5 cases d)
  then show ?case using case_bodies_smaller [of cases] by simp
qed auto

lemma nested_statements_bound: "size_list size (nested_statements n) < Suc (size n + k)"
  using nested_statements_smaller [of n] by simp

function collect_local_types :: "node list \<Rightarrow> (string \<rightharpoonup> string) \<Rightarrow> string \<rightharpoonup> string" where
  "collect_local_types [] types = types"
| "collect_local_types (n # ns) types =
     collect_local_types ns
       (case n of
          VarDecl_node _ _ _ _ _ name _ _ type_name \<Rightarrow> types(name \<mapsto> type_name)
        | _ \<Rightarrow> collect_local_types (nested_statements n) types)"
  by pat_completeness auto
termination
  by (relation "measure (\<lambda>(ns, types). size_list size ns)")
     (auto simp del: nested_statements.simps node.size intro: nested_statements_bound)

declare collect_local_types.simps [simp del]

fun param_type :: "node \<Rightarrow> (string \<times> string) option" where
  "param_type (Param_node _ _ _ name _ _ type_name) = Some (name, type_name)"
| "param_type _ = None"

definition variable_types :: "node list \<Rightarrow> node list \<Rightarrow> string \<rightharpoonup> string" where
  "variable_types params body =
     collect_local_types body (foldl (\<lambda>types (x, t). types(x \<mapsto> t)) Map.empty (List.map_filter param_type params))"

text \<open>One function: its counters go on from those of the functions before it.\<close>

definition build_function :: "string list \<Rightarrow> nat \<Rightarrow> node \<Rightarrow> nat \<times> nat \<Rightarrow> build_error + ir_function \<times> (nat \<times> nat)" where
  "build_function carry frames f counters =
     (case f of
        Function_node _ body _ _ _ _ name params _ _ \<Rightarrow>
          (let C = \<lparr>cx_carry = carry, cx_types = variable_types params body\<rparr>;
               s = \<lparr>bd_counter = fst counters, bd_str_counter = snd counters, bd_out = [], bd_strings = [],
                 bd_defined = [], bd_referenced = []\<rparr>
           in case build_stmts (methods C frames) None None body s of
                Inl e \<Rightarrow> Inl e
              | Inr (_, s') \<Rightarrow>
                  (case filter (\<lambda>x. x \<notin> set (bd_defined s')) (bd_referenced s') of
                     x # _ \<Rightarrow> Inl (Goto_without_label x name)
                   | [] \<Rightarrow> Inr (\<lparr>fn_ast_node = f, fn_body = bd_out s', fn_strings = bd_strings s'\<rparr>,
                            (bd_counter s', bd_str_counter s'))))
      | _ \<Rightarrow> Inl Attribute_error)"

fun build_functions :: "string list \<Rightarrow> nat \<Rightarrow> node list \<Rightarrow> nat \<times> nat \<Rightarrow> build_error + ir_function list" where
  "build_functions carry frames [] counters = Inr []"
| "build_functions carry frames (f # fs) counters =
     bind_result (build_function carry frames f counters) (\<lambda>(fn, counters').
     bind_result (build_functions carry frames fs counters') (\<lambda>fns. Inr (fn # fns)))"

text \<open>
  \<open>build_program\<close>.  The table of bit-field names it also fills is read by no method.
\<close>

definition build_program :: "string list \<Rightarrow> nat \<Rightarrow> node \<Rightarrow> build_error + ir_program" where
  "build_program carry frames program =
     (case program of
        Program_node fns globals \<Rightarrow>
          bind_result (build_functions carry frames fns (0, 0))
            (\<lambda>built. Inr \<lparr>prog_functions = built, prog_globals = globals\<rparr>)
      | _ \<Rightarrow> Inl Attribute_error)"

end
