(* ===== verification/Ir_Labels.thy ===== *)
theory Ir_Labels
  imports Ir_Lowering
begin

text \<open>
  The labels of lowered code: no label is placed twice, and every branch goes to a label that is placed.
  The builder takes the names of labels before it places them; a method is described by the labels it
  places out of those that were taken before, and by the labels it may branch to.
\<close>

subsection \<open>Labels and targets\<close>

function all_labels :: "instr list \<Rightarrow> string list" where
  "all_labels [] = []"
| "all_labels (i # b) =
     (case i of
        Label l \<Rightarrow> [l]
      | Switch cases _ end_label _ \<Rightarrow> concat (map (\<lambda>c. all_labels (case_body c)) cases) @ [end_label]
      | _ \<Rightarrow> []) @ all_labels b"
  by pat_completeness auto
termination
  by (relation "measure (size_list size)") (use switch_body_smaller in auto)

function all_targets :: "instr list \<Rightarrow> string list" where
  "all_targets [] = []"
| "all_targets (i # b) =
     (case i of
        Jump t \<Rightarrow> [t]
      | BranchFalse _ _ _ t \<Rightarrow> [t]
      | CarryBranch _ t _ \<Rightarrow> [t]
      | Switch cases _ _ _ \<Rightarrow> concat (map (\<lambda>c. all_targets (case_body c)) cases)
      | _ \<Rightarrow> []) @ all_targets b"
  by pat_completeness auto
termination
  by (relation "measure (size_list size)") (use switch_body_smaller in auto)

lemma all_labels_append [simp]: "all_labels (a @ b) = all_labels a @ all_labels b"
  by (induction a) auto

lemma all_targets_append [simp]: "all_targets (a @ b) = all_targets a @ all_targets b"
  by (induction a) auto

lemma all_labels_concat: "all_labels (concat (map case_body cs)) = concat (map (\<lambda>c. all_labels (case_body c)) cs)"
  by (induction cs) auto

lemma all_targets_concat: "all_targets (concat (map case_body cs)) = concat (map (\<lambda>c. all_targets (case_body c)) cs)"
  by (induction cs) auto

subsection \<open>Names\<close>

definition clean_tag :: "string \<Rightarrow> bool" where
  "clean_tag tag = (tag \<noteq> [] \<and> \<not> is_digit (last tag))"

lemma digits_suffix: "list_all is_digit ds \<Longrightarrow> p \<noteq> [] \<Longrightarrow> \<not> is_digit (last p) \<Longrightarrow> takeWhile is_digit (rev (p @ ds)) = rev ds"
  by (cases p rule: rev_cases) (auto simp: takeWhile_append2 list_all_iff takeWhile_tail)

lemma label_name_inj:
  assumes "label_name tag m = label_name tag' n" "clean_tag tag" "clean_tag tag'"
  shows "m = n"
proof -
  have "rev (show_nat m) = takeWhile is_digit (rev ((''._ir_'' @ tag) @ show_nat m))"
    using show_nat_digits [of m] assms(2) by (subst digits_suffix) (auto simp: clean_tag_def)
  also have "\<dots> = takeWhile is_digit (rev ((''._ir_'' @ tag') @ show_nat n))"
    using assms(1) by (simp add: label_name_def)
  also have "\<dots> = rev (show_nat n)"
    using show_nat_digits [of n] assms(3) by (subst digits_suffix) (auto simp: clean_tag_def)
  finally show ?thesis using show_nat_inj by simp
qed

lemma user_label_inj: "user_label x = user_label y \<longleftrightarrow> x = y"
  by (simp add: user_label_def)

lemma user_label_not_label_name [simp]: "user_label x \<noteq> label_name tag n" "label_name tag n \<noteq> user_label x"
  by (simp_all add: user_label_def label_name_def)

subsection \<open>What a method keeps\<close>

definition known_label :: "builder \<Rightarrow> string \<Rightarrow> bool" where
  "known_label s l =
     ((\<exists>tag n. clean_tag tag \<and> l = label_name tag n \<and> n < bd_counter s) \<or> l \<in> user_label ` set (bd_defined s))"

definition available :: "string list \<Rightarrow> builder \<Rightarrow> string set" where
  "available P s = set P \<union> set (all_labels (bd_out s))"

text \<open>\<open>P\<close> are the labels that are taken and not yet placed.\<close>

definition labels_kept :: "string list \<Rightarrow> builder \<Rightarrow> bool" where
  "labels_kept P s =
     (distinct (P @ all_labels (bd_out s)) \<and> (\<forall>l \<in> available P s. known_label s l) \<and>
      user_label ` set (bd_defined s) \<subseteq> available P s \<and>
      set (all_targets (bd_out s)) \<subseteq> available P s \<union> user_label ` set (bd_referenced s))"

text \<open>\<open>m\<close> places the labels \<open>Q\<close> and branches to labels in \<open>T\<close>.\<close>

definition lowers :: "string list \<Rightarrow> string list \<Rightarrow> 'a build \<Rightarrow> bool" where
  "lowers Q T m = (\<forall>P s x s'. labels_kept (Q @ P) s \<longrightarrow> set T \<subseteq> available (Q @ P) s \<longrightarrow> m s = Inr (x, s') \<longrightarrow>
     labels_kept P s' \<and> available (Q @ P) s \<subseteq> available P s' \<and> set (bd_referenced s) \<subseteq> set (bd_referenced s'))"

lemma lowersI:
  assumes "\<And>P s x s'. labels_kept (Q @ P) s \<Longrightarrow> set T \<subseteq> available (Q @ P) s \<Longrightarrow> m s = Inr (x, s') \<Longrightarrow>
    labels_kept P s' \<and> available (Q @ P) s \<subseteq> available P s' \<and> set (bd_referenced s) \<subseteq> set (bd_referenced s')"
  shows "lowers Q T m"
  using assms unfolding lowers_def by blast

lemma lowersD:
  "lowers Q T m \<Longrightarrow> labels_kept (Q @ P) s \<Longrightarrow> set T \<subseteq> available (Q @ P) s \<Longrightarrow> m s = Inr (x, s') \<Longrightarrow>
   labels_kept P s' \<and> available (Q @ P) s \<subseteq> available P s' \<and> set (bd_referenced s) \<subseteq> set (bd_referenced s')"
  unfolding lowers_def by blast

lemma lowers_weaken: "lowers Q T m \<Longrightarrow> set T \<subseteq> set T' \<Longrightarrow> lowers Q T' m"
  unfolding lowers_def by blast

named_theorems lowers_intros

lemma bind_build_Inr: "bind_build m f s = Inr (y, s') \<longleftrightarrow> (\<exists>x t. m s = Inr (x, t) \<and> f x t = Inr (y, s'))"
  by (auto simp: bind_build_def split: sum.splits prod.splits)

lemma lowers_bind:
  assumes "lowers [] T m" "\<And>x. lowers Q T (f x)"
  shows "lowers Q T (bind_build m f)"
proof (rule lowersI)
  fix P s y s'
  assume ok: "labels_kept (Q @ P) s" "set T \<subseteq> available (Q @ P) s" "bind_build m f s = Inr (y, s')"
  then obtain x t where m: "m s = Inr (x, t)" and f: "f x t = Inr (y, s')" by (auto simp: bind_build_Inr)
  have t: "labels_kept (Q @ P) t" "available (Q @ P) s \<subseteq> available (Q @ P) t" "set (bd_referenced s) \<subseteq> set (bd_referenced t)"
    using lowersD [OF assms(1), of "Q @ P" s x t] ok m by auto
  have "labels_kept P s' \<and> available (Q @ P) t \<subseteq> available P s' \<and> set (bd_referenced t) \<subseteq> set (bd_referenced s')"
    by (rule lowersD [OF assms(2) t(1) _ f]) (use ok t in blast)
  then show "labels_kept P s' \<and> available (Q @ P) s \<subseteq> available P s' \<and> set (bd_referenced s) \<subseteq> set (bd_referenced s')" using t by blast
qed

lemma lowers_then: "lowers [] T m \<Longrightarrow> lowers Q T m' \<Longrightarrow> lowers Q T (then_build m m')"
  unfolding then_build_def by (rule lowers_bind)

lemma lowers_return [lowers_intros]: "lowers [] T (return_build x)"
  by (auto simp: lowers_def return_build_def)

lemma lowers_raise [lowers_intros]: "lowers Q T (raise_build e)"
  by (simp add: lowers_def raise_build_def)

lemma known_label_out [simp]: "known_label (s\<lparr>bd_out := b\<rparr>) = known_label s"
  by (auto simp: known_label_def fun_eq_iff)

lemma emit_step:
  assumes "all_labels is = Q" "set (all_targets is) \<subseteq> set T" "labels_kept (Q @ P) s" "set T \<subseteq> available (Q @ P) s"
  shows "labels_kept P (s\<lparr>bd_out := bd_out s @ is\<rparr>) \<and> available (Q @ P) s \<subseteq> available P (s\<lparr>bd_out := bd_out s @ is\<rparr>)"
proof -
  have "available P (s\<lparr>bd_out := bd_out s @ is\<rparr>) = available (Q @ P) s"
    using assms(1) by (auto simp: available_def)
  moreover have "distinct (P @ all_labels (bd_out s @ is))" using assms(1,3) by (auto simp: labels_kept_def)
  ultimately show ?thesis using assms(2-4) by (auto simp: labels_kept_def)
qed

lemma lowers_emit: "all_labels is = Q \<Longrightarrow> set (all_targets is) \<subseteq> set T \<Longrightarrow> lowers Q T (emit is)"
proof (rule lowersI)
  fix P s x s'
  assume "all_labels is = Q" "set (all_targets is) \<subseteq> set T" "labels_kept (Q @ P) s" "set T \<subseteq> available (Q @ P) s"
    "emit is s = Inr (x, s')"
  then show "labels_kept P s' \<and> available (Q @ P) s \<subseteq> available P s' \<and> set (bd_referenced s) \<subseteq> set (bd_referenced s')"
    using emit_step [of "is" Q T P s] by (auto simp: emit_def)
qed

lemma lowers_then_emit:
  assumes "all_labels is = take (length (all_labels is)) Q" "set (all_targets is) \<subseteq> set T"
    "lowers (drop (length (all_labels is)) Q) T m"
  shows "lowers Q T (then_build (emit is) m)"
proof (rule lowersI)
  fix P s y s'
  define Q' where "Q' = drop (length (all_labels is)) Q"
  have Q: "Q = all_labels is @ Q'" unfolding Q'_def using assms(1) append_take_drop_id by metis
  assume ok: "labels_kept (Q @ P) s" "set T \<subseteq> available (Q @ P) s" "then_build (emit is) m s = Inr (y, s')"
  define t where "t = s\<lparr>bd_out := bd_out s @ is\<rparr>"
  have m: "m t = Inr (y, s')" using ok(3) by (simp add: then_build_def bind_build_def emit_def t_def)
  have t: "labels_kept (Q' @ P) t" "available (Q @ P) s \<subseteq> available (Q' @ P) t" "bd_referenced t = bd_referenced s"
    using emit_step [of "is" "all_labels is" T "Q' @ P" s] assms(2) ok Q by (auto simp: t_def)
  have "labels_kept P s' \<and> available (Q' @ P) t \<subseteq> available P s' \<and> set (bd_referenced t) \<subseteq> set (bd_referenced s')"
    by (rule lowersD [OF assms(3) [folded Q'_def] t(1) _ m]) (use ok t in blast)
  then show "labels_kept P s' \<and> available (Q @ P) s \<subseteq> available P s' \<and> set (bd_referenced s) \<subseteq> set (bd_referenced s')" using t by auto
qed

lemma known_label_later:
  "known_label s l \<Longrightarrow> bd_counter s \<le> bd_counter t \<Longrightarrow> bd_defined t = bd_defined s \<Longrightarrow> known_label t l"
  unfolding known_label_def by (metis less_le_trans)

lemma labels_kept_counter:
  "labels_kept P s \<Longrightarrow> bd_counter s \<le> bd_counter t \<Longrightarrow> bd_out t = bd_out s \<Longrightarrow> bd_defined t = bd_defined s \<Longrightarrow>
   bd_referenced t = bd_referenced s \<Longrightarrow> labels_kept P t \<and> available P t = available P s"
  using known_label_later [of s _ t] by (auto simp: labels_kept_def available_def)

lemma lowers_tmp [lowers_intros]: "lowers [] T new_tmp"
proof (rule lowersI)
  fix P s x s'
  assume "labels_kept ([] @ P) s" "new_tmp s = Inr (x, s')"
  then show "labels_kept P s' \<and> available ([] @ P) s \<subseteq> available P s' \<and> set (bd_referenced s) \<subseteq> set (bd_referenced s')"
    using labels_kept_counter [of P s s'] by (auto simp: new_tmp_def)
qed

lemma lowers_string [lowers_intros]: "lowers [] T (new_string content)"
proof (rule lowersI)
  fix P s x s'
  assume "labels_kept ([] @ P) s" "new_string content s = Inr (x, s')"
  then show "labels_kept P s' \<and> available ([] @ P) s \<subseteq> available P s' \<and> set (bd_referenced s) \<subseteq> set (bd_referenced s')"
    using labels_kept_counter [of P s s'] by (auto simp: new_string_def Let_def)
qed

text \<open>Taking a name.\<close>

lemma lowers_label:
  assumes "clean_tag tag" "\<And>l. lowers (Q @ [l]) (l # T) (f l)"
  shows "lowers Q T (bind_build (new_label tag) f)"
proof (rule lowersI)
  fix P s y s'
  assume ok: "labels_kept (Q @ P) s" "set T \<subseteq> available (Q @ P) s" "bind_build (new_label tag) f s = Inr (y, s')"
  define l where "l = label_name tag (bd_counter s)"
  define t where "t = s\<lparr>bd_counter := Suc (bd_counter s)\<rparr>"
  have f: "f l t = Inr (y, s')" using ok(3) by (simp add: bind_build_def new_label_def l_def t_def)
  have new: "l \<notin> available (Q @ P) s"
  proof
    assume "l \<in> available (Q @ P) s"
    then have "known_label s l" using ok(1) by (simp add: labels_kept_def)
    then show False using label_name_inj [of tag "bd_counter s"] assms(1) by (auto simp: known_label_def l_def)
  qed
  have av: "available ((Q @ [l]) @ P) t = insert l (available (Q @ P) s)" by (auto simp: available_def t_def)
  have "known_label t l" using assms(1) by (auto simp: known_label_def l_def t_def)
  moreover have "known_label t x" if "known_label s x" for x by (rule known_label_later [OF that]) (simp_all add: t_def)
  moreover have "distinct (((Q @ [l]) @ P) @ all_labels (bd_out t))"
    using ok(1) new by (auto simp: labels_kept_def available_def t_def)
  ultimately have "labels_kept ((Q @ [l]) @ P) t"
    using ok(1) unfolding labels_kept_def av by (auto simp: t_def)
  moreover have "set (l # T) \<subseteq> available ((Q @ [l]) @ P) t" using ok(2) av by auto
  ultimately have "labels_kept P s' \<and> available ((Q @ [l]) @ P) t \<subseteq> available P s' \<and>
      set (bd_referenced t) \<subseteq> set (bd_referenced s')"
    using lowersD [OF assms(2) _ _ f] by blast
  then show "labels_kept P s' \<and> available (Q @ P) s \<subseteq> available P s' \<and> set (bd_referenced s) \<subseteq> set (bd_referenced s')" unfolding av by (auto simp: t_def)
qed

end
