(* ===== verification/Ir_Lowered.thy ===== *)
theory Ir_Lowered
  imports Ir_Labels
begin

text \<open>
  The label discipline of the builder's methods: proved once for methods that may call any methods that
  keep it, and then for the methods tied together, whatever the depth of the stack.
\<close>

subsection \<open>The methods under the contract of the methods they call\<close>

definition opt_labels :: "string option \<Rightarrow> string option \<Rightarrow> string list" where
  "opt_labels b c = (case b of None \<Rightarrow> [] | Some l \<Rightarrow> [l]) @ (case c of None \<Rightarrow> [] | Some l \<Rightarrow> [l])"

lemma lowers_if: "lowers Q T m \<Longrightarrow> lowers Q T m' \<Longrightarrow> lowers Q T (if c then m else m')"
  by simp

lemma lowers_option:
  "lowers Q T m \<Longrightarrow> (\<And>x. lowers Q T (f x)) \<Longrightarrow> lowers Q T (case opt of None \<Rightarrow> m | Some x \<Rightarrow> f x)"
  by (cases opt) auto

lemmas lowers_rules = lowers_label lowers_then_emit lowers_emit lowers_then lowers_bind lowers_if lowers_option
  lowers_return lowers_raise lowers_tmp lowers_string

lemmas tag_simps = clean_tag_def is_digit_def

locale lowering_calls =
  fixes calls :: builder_calls
  assumes cond_false: "lowers [] [t] (calls (Cond_false c t))"
    and cond_true: "lowers [] [t] (calls (Cond_true c t))"
    and expr: "lowers [] [] (calls (Expr e))"
    and stmt: "lowers [] (opt_labels b k) (calls (Stmt b k n))"
begin

lemma call_cond_false: "t \<in> set T \<Longrightarrow> lowers [] T (call_cond_false calls c t)"
  unfolding call_cond_false_def by (rule lowers_bind [OF lowers_weaken [OF cond_false]]) (auto intro: lowers_return)

lemma call_cond_true: "t \<in> set T \<Longrightarrow> lowers [] T (call_cond_true calls c t)"
  unfolding call_cond_true_def by (rule lowers_bind [OF lowers_weaken [OF cond_true]]) (auto intro: lowers_return)

lemma call_expr: "lowers [] T (call_expr calls e)"
  unfolding call_expr_def
  by (rule lowers_bind [OF lowers_weaken [OF expr]]) (auto intro: lowers_return lowers_raise split: option.splits)

lemma call_stmt: "set (opt_labels b k) \<subseteq> set T \<Longrightarrow> lowers [] T (call_stmt calls b k n)"
  unfolding call_stmt_def by (rule lowers_bind [OF lowers_weaken [OF stmt]]) (auto intro: lowers_return)

lemma exprs: "lowers [] T (build_exprs calls es)"
  by (induction es) (auto intro!: lowers_bind lowers_return call_expr)

lemma stmts: "set (opt_labels b k) \<subseteq> set T \<Longrightarrow> lowers [] T (build_stmts calls b k ns)"
  by (induction ns) (auto intro!: lowers_then lowers_return call_stmt)

lemmas parts = lowers_rules call_cond_false call_cond_true call_expr call_stmt exprs stmts

lemma compare: "t \<in> set T \<Longrightarrow> lowers [] T (build_compare calls l op r t)"
  unfolding build_compare_def by (rule parts | simp)+

lemma test: "t \<in> set T \<Longrightarrow> lowers [] T (build_test calls c op t)"
  unfolding build_test_def by (rule parts | simp)+

lemma build_cond_false: "lowers [] [t] (build_cond_false calls C c t)"
proof (cases c)
  case (BinaryOperation_node l op r)
  show ?thesis unfolding build_cond_false_def BinaryOperation_node node.case
    by (rule parts compare test | simp)+
next
  case (LogicalAnd_node l r)
  show ?thesis unfolding build_cond_false_def LogicalAnd_node node.case by (rule parts | simp add: tag_simps)+
next
  case (LogicalOr_node l r)
  show ?thesis unfolding build_cond_false_def LogicalOr_node node.case by (rule parts | simp add: tag_simps)+
qed (simp_all add: build_cond_false_def test)

lemma build_cond_true: "lowers [] [t] (build_cond_true calls C c t)"
proof (cases c)
  case (BinaryOperation_node l op r)
  show ?thesis unfolding build_cond_true_def BinaryOperation_node node.case
    by (rule parts compare test | simp)+
next
  case (LogicalAnd_node l r)
  show ?thesis unfolding build_cond_true_def LogicalAnd_node node.case by (rule parts | simp add: tag_simps)+
next
  case (LogicalOr_node l r)
  show ?thesis unfolding build_cond_true_def LogicalOr_node node.case by (rule parts | simp add: tag_simps)+
qed (simp_all add: build_cond_true_def test)

subsection \<open>Expressions\<close>

lemma load: "lowers [] T (build_load b is p)"
  unfolding build_load_def by (rule parts | simp)+

lemma address_of: "lowers [] T (build_address_of b p)"
  unfolding build_address_of_def by (rule parts | simp)+

lemma opaque: "lowers [] T (build_opaque Access e)" "lowers [] T (build_opaque Block e)"
  unfolding build_opaque_def by (rule parts | simp)+

lemma place_load: "lowers [] T (build_place_load calls e p)"
  unfolding build_place_load_def lower_subscript_chain_indices_def by (rule parts load opaque | simp)+

lemma assign_expr: "lowers [] T (lower_assign_expr calls C n)"
  unfolding lower_assign_expr_def by (rule parts | simp add: opt_labels_def)+

lemma logical: "lowers [] T (build_logical calls e)"
  unfolding build_logical_def by (rule parts | simp add: tag_simps)+

lemma build_expr: "lowers [] [] (build_expr calls C e)"
proof (cases e)
  case (Index_node a i)
  show ?thesis
  proof (cases a)
    case (Var_node x)
    show ?thesis unfolding build_expr_def Index_node Var_node node.case by (rule parts | simp)+
  qed (simp_all add: build_expr_def Index_node opaque)
next
  case (BinaryOperation_node l op r)
  show ?thesis unfolding build_expr_def BinaryOperation_node node.case by (rule parts | simp)+
next
  case (Call_node args name)
  show ?thesis unfolding build_expr_def Call_node node.case by (rule parts opaque | simp)+
next
  case (PlaceAddressOf_node p)
  show ?thesis unfolding build_expr_def PlaceAddressOf_node node.case by (rule parts opaque address_of | simp)+
next
  case (String_node x)
  show ?thesis unfolding build_expr_def String_node node.case by (rule parts | simp)+
qed (simp_all add: build_expr_def opaque assign_expr logical place_load lowers_return)

subsection \<open>Statements\<close>

lemma build_if: "set (opt_labels b k) \<subseteq> set T \<Longrightarrow> lowers [] T (build_if calls b k body c else_body)"
  unfolding build_if_def by (cases else_body) (simp_all, (rule parts | simp add: tag_simps subset_insertI2)+)

lemma build_while: "lowers [] T (build_while calls body c)"
  unfolding build_while_def by (rule parts | simp add: tag_simps opt_labels_def)+

lemma build_do_while: "lowers [] T (build_do_while calls body c)"
  unfolding build_do_while_def by (rule parts | simp add: tag_simps opt_labels_def)+

lemma build_for: "lowers [] T (build_for calls body c ini step)"
  unfolding build_for_def by (rule parts | simp add: tag_simps opt_labels_def)+

lemma build_store: "lowers [] T (build_store calls b is p v)"
  unfolding build_store_def by (rule parts | simp)+

lemma build_place_store: "lowers [] T (build_place_store calls s p v)"
  unfolding build_place_store_def lower_subscript_chain_indices_def by (rule parts build_store | simp)+

lemma build_place_call: "lowers [] T (build_place_call calls s p)"
  unfolding build_place_call_def by (rule parts | simp)+

lemma build_increment: "lowers [] T (build_increment s d q p)"
  unfolding build_increment_def by (rule parts | simp)+

lemma build_assign: "lowers [] T (build_assign calls C s e x)"
  unfolding build_assign_def by (rule parts | simp)+

lemma build_return: "lowers [] T (build_return calls C s v)"
  unfolding build_return_def by (rule parts | simp)+

lemma case_body:
  assumes "labels_kept P (s\<lparr>bd_out := bd_out s @ acc\<rparr>)" "set (opt_labels (Some e) k) \<subseteq> available P (s\<lparr>bd_out := bd_out s @ acc\<rparr>)"
    "build_case_body calls e k body s = Inr (b, s')"
  shows "bd_out s' = bd_out s \<and> labels_kept P (s'\<lparr>bd_out := bd_out s @ acc @ b\<rparr>) \<and>
    set (bd_referenced s) \<subseteq> set (bd_referenced s')"
proof -
  obtain t where m: "build_stmts calls (Some e) k body (s\<lparr>bd_out := []\<rparr>) = Inr ((), t)"
    and b: "b = bd_out t" "s' = t\<lparr>bd_out := bd_out s\<rparr>"
    using assms(3) by (auto simp: build_case_body_def split: sum.splits)
  define P' where "P' = P @ all_labels (bd_out s @ acc)"
  have av: "available P' (s\<lparr>bd_out := []\<rparr>) = available P (s\<lparr>bd_out := bd_out s @ acc\<rparr>)"
    by (auto simp: available_def P'_def)
  have "labels_kept P' (s\<lparr>bd_out := []\<rparr>)" using assms(1) unfolding labels_kept_def av by (auto simp: P'_def)
  then have t: "labels_kept P' t" "set (bd_referenced s) \<subseteq> set (bd_referenced t)"
    using lowersD [OF stmts [of "Some e" k "opt_labels (Some e) k" body], of P' "s\<lparr>bd_out := []\<rparr>"] assms(2) av m by auto
  have av': "available P (t\<lparr>bd_out := bd_out s @ acc @ b\<rparr>) = available P' t" by (auto simp: available_def P'_def b)
  have "set (all_targets (bd_out s @ acc)) \<subseteq> available P' t \<union> user_label ` set (bd_referenced t)"
  proof -
    have "set (all_targets (bd_out s @ acc)) \<subseteq> available P (s\<lparr>bd_out := bd_out s @ acc\<rparr>) \<union> user_label ` set (bd_referenced s)"
      using assms(1) by (simp add: labels_kept_def)
    moreover have "available P (s\<lparr>bd_out := bd_out s @ acc\<rparr>) \<subseteq> available P' t"
      by (auto simp: available_def P'_def)
    ultimately show ?thesis using image_mono [OF t(2), of user_label] by blast
  qed
  then have "labels_kept P (t\<lparr>bd_out := bd_out s @ acc @ b\<rparr>)"
    using t(1) unfolding labels_kept_def av' by (auto simp: P'_def b)
  then show ?thesis using t(2) b by simp
qed

lemma cases_bodies:
  "labels_kept P (s\<lparr>bd_out := bd_out s @ acc\<rparr>) \<Longrightarrow> set (opt_labels (Some e) k) \<subseteq> available P (s\<lparr>bd_out := bd_out s @ acc\<rparr>) \<Longrightarrow>
   build_cases calls e k cs s = Inr (ics, s') \<Longrightarrow>
   bd_out s' = bd_out s \<and> labels_kept P (s'\<lparr>bd_out := bd_out s @ acc @ concat (map case_body ics)\<rparr>) \<and>
   set (bd_referenced s) \<subseteq> set (bd_referenced s')"
proof (induction cs arbitrary: s acc ics)
  case Nil
  then show ?case by (simp add: return_build_def)
next
  case (Cons c cs)
  obtain body v where c: "c = SwitchCase_node body v"
    using Cons.prems(3) by (cases c) (auto simp: raise_build_def)
  obtain b t rest where 1: "build_case_body calls e k body s = Inr (b, t)"
    and 2: "build_cases calls e k cs t = Inr (rest, s')" and ics: "ics = SwitchCase b v # rest"
    using Cons.prems(3) by (auto simp: c bind_build_Inr return_build_def)
  note t = case_body [OF Cons.prems(1,2) 1]
  have "labels_kept P (t\<lparr>bd_out := bd_out t @ acc @ b\<rparr>)" using t by simp
  moreover have "set (opt_labels (Some e) k) \<subseteq> available P (t\<lparr>bd_out := bd_out t @ acc @ b\<rparr>)"
    using Cons.prems(2) t by (auto simp: available_def)
  ultimately show ?case using Cons.IH [of t "acc @ b" rest, OF _ _ 2] t ics by auto
qed

lemma build_switch: "set (opt_labels None k) \<subseteq> set T \<Longrightarrow> lowers [] T (build_switch calls k cs d a)"
  unfolding build_switch_def
proof (rule lowers_label)
  fix e assume T: "set (opt_labels None k) \<subseteq> set T"
  show "lowers ([] @ [e]) (e # T) (bind_build (build_cases calls e k cs) (\<lambda>ics. emit [Switch ics d e a]))"
  proof (rule lowersI)
    fix P s x s'
    assume ok: "labels_kept (([] @ [e]) @ P) s" "set (e # T) \<subseteq> available (([] @ [e]) @ P) s"
      and m: "bind_build (build_cases calls e k cs) (\<lambda>ics. emit [Switch ics d e a]) s = Inr (x, s')"
    obtain ics t where 1: "build_cases calls e k cs s = Inr (ics, t)" and s': "s' = t\<lparr>bd_out := bd_out t @ [Switch ics d e a]\<rparr>"
      using m by (auto simp: bind_build_Inr emit_def)
    have "set (opt_labels (Some e) k) \<subseteq> available (e # P) (s\<lparr>bd_out := bd_out s @ []\<rparr>)"
      using ok(2) T by (auto simp: opt_labels_def)
    then have t: "bd_out t = bd_out s" "labels_kept (e # P) (t\<lparr>bd_out := bd_out s @ concat (map case_body ics)\<rparr>)"
      "set (bd_referenced s) \<subseteq> set (bd_referenced t)"
      using cases_bodies [of "e # P" s "[]", OF _ _ 1] ok(1) by auto
    have av: "available P s' = available (e # P) (t\<lparr>bd_out := bd_out s @ concat (map case_body ics)\<rparr>)"
      by (auto simp: available_def s' t(1) all_labels_concat)
    have "labels_kept P s'" using t(2) unfolding labels_kept_def av
      by (auto simp: s' t(1) all_labels_concat all_targets_concat)
    moreover have "available (([] @ [e]) @ P) s \<subseteq> available P s'" by (auto simp: available_def s' t(1))
    ultimately show "labels_kept P s' \<and> available (([] @ [e]) @ P) s \<subseteq> available P s' \<and>
        set (bd_referenced s) \<subseteq> set (bd_referenced s')"
      using t(3) s' by simp
  qed
qed (simp add: tag_simps)

lemma build_goto: "lowers [] T (build_goto x)"
proof (rule lowersI)
  fix P s y s'
  assume ok: "labels_kept ([] @ P) s" "build_goto x s = Inr (y, s')"
  define r where "r = (if x \<in> set (bd_referenced s) then bd_referenced s else bd_referenced s @ [x])"
  have s': "s' = s\<lparr>bd_referenced := r, bd_out := bd_out s @ [Jump (user_label x)]\<rparr>"
    using ok(2) by (simp add: build_goto_def emit_def r_def)
  have r: "set r = insert x (set (bd_referenced s))" by (auto simp: r_def)
  have "known_label s' = known_label s" by (auto simp: known_label_def s' fun_eq_iff)
  moreover have av: "available P s' = available P s" by (simp add: available_def s')
  ultimately have "labels_kept P s'" using ok(1) unfolding labels_kept_def av by (auto simp: s' r)
  then show "labels_kept P s' \<and> available ([] @ P) s \<subseteq> available P s' \<and> set (bd_referenced s) \<subseteq> set (bd_referenced s')"
    using av by (auto simp: s' r)
qed

lemma build_user_label: "lowers [] T (build_user_label x)"
proof (rule lowersI)
  fix P s y s'
  assume ok: "labels_kept ([] @ P) s" "build_user_label x s = Inr (y, s')"
  have x: "x \<notin> set (bd_defined s)" and s': "s' = s\<lparr>bd_defined := bd_defined s @ [x], bd_out := bd_out s @ [Label (user_label x)]\<rparr>"
    using ok(2) by (auto simp: build_user_label_def emit_def split: if_splits)
  have "\<not> known_label s (user_label x)" using x user_label_inj by (auto simp: known_label_def)
  then have new: "user_label x \<notin> available P s" using ok(1) by (auto simp: labels_kept_def)
  have av: "available P s' = insert (user_label x) (available P s)" by (auto simp: available_def s')
  have "known_label s' l" if "l \<in> available P s'" for l
    using that ok(1) unfolding av by (auto simp: labels_kept_def known_label_def s')
  moreover have "distinct (P @ all_labels (bd_out s'))" using ok(1) new by (auto simp: labels_kept_def available_def s')
  ultimately have "labels_kept P s'" using ok(1) unfolding labels_kept_def av by (auto simp: s')
  then show "labels_kept P s' \<and> available ([] @ P) s \<subseteq> available P s' \<and> set (bd_referenced s) \<subseteq> set (bd_referenced s')"
    unfolding av by (auto simp: s')
qed

lemma build_stmt: "lowers [] (opt_labels b k) (build_stmt calls C b k n)"
proof (cases n)
  case (IndexAssign_node a e i)
  show ?thesis
  proof (cases a)
    case (Var_node x)
    show ?thesis unfolding build_stmt_def IndexAssign_node Var_node node.case by (rule parts | simp)+
  qed (simp_all add: build_stmt_def IndexAssign_node lowers_emit)
next
  case (Call_node args name)
  show ?thesis unfolding build_stmt_def Call_node node.case by (rule parts | simp)+
next
  case Break_node
  show ?thesis unfolding build_stmt_def Break_node node.case by (cases b) (auto intro: lowers_emit lowers_raise simp: opt_labels_def)
next
  case Continue_node
  show ?thesis unfolding build_stmt_def Continue_node node.case by (cases k) (auto intro: lowers_emit lowers_raise simp: opt_labels_def)
next
  case (Switch_node cs d)
  have "set (opt_labels None k) \<subseteq> set (opt_labels b k)" by (auto simp: opt_labels_def)
  then show ?thesis unfolding build_stmt_def Switch_node node.case by (rule build_switch)
qed (simp_all add: build_stmt_def build_assign build_if build_while build_do_while build_for build_goto
    build_user_label build_return build_place_call build_increment build_place_store stmts lowers_emit)

end

subsection \<open>The methods tied together\<close>

lemma methods_lower: "lowering_calls (methods C frames)"
proof (induction frames)
  case 0
  show ?case by unfold_locales (simp_all add: lowers_raise)
next
  case (Suc frames)
  note rules = lowering_calls.build_cond_false [OF Suc] lowering_calls.build_cond_true [OF Suc]
    lowering_calls.build_expr [OF Suc] lowering_calls.build_stmt [OF Suc]
  show ?case
    by unfold_locales (simp_all, (rule lowers_then lowers_bind rules lowers_return)+)
qed

end
