(* ===== verification/Ir_Frames.thy ===== *)
theory Ir_Frames
  imports Ir_Lowering
begin

text \<open>
  How deep the builder's recursion goes: three frames for each level of the syntax tree are enough.
\<close>

definition is_logical :: "node \<Rightarrow> bool" where
  "is_logical n = (case n of LogicalAnd_node _ _ \<Rightarrow> True | LogicalOr_node _ _ \<Rightarrow> True | _ \<Rightarrow> False)"

definition frames_for_cond :: "node \<Rightarrow> nat" where
  "frames_for_cond c = 3 * size c + (if is_logical c then 1 else 3)"

fun frames_for :: "builder_call \<Rightarrow> nat" where
  "frames_for (Expr e) = 3 * size e + 2"
| "frames_for (Cond_false c t) = frames_for_cond c"
| "frames_for (Cond_true c t) = frames_for_cond c"
| "frames_for (Stmt b k n) = 3 * size n + 2"

text \<open>A computation that does not run out of frames.\<close>

definition in_frames :: "'a build \<Rightarrow> bool" where
  "in_frames m = (\<forall>s. m s \<noteq> Inl Recursion_error)"

lemma in_frames_bind: "in_frames m \<Longrightarrow> (\<And>x. in_frames (f x)) \<Longrightarrow> in_frames (bind_build m f)"
  unfolding in_frames_def bind_build_def by (auto split: sum.splits)

lemma in_frames_then: "in_frames m \<Longrightarrow> in_frames m' \<Longrightarrow> in_frames (then_build m m')"
  unfolding then_build_def by (rule in_frames_bind)

lemma in_frames_basic:
  "in_frames (return_build x)" "in_frames (emit is)" "in_frames new_tmp" "in_frames (new_label tag)"
  "in_frames (new_string c)" "in_frames (build_goto l)" "in_frames (build_user_label l)"
  "e \<noteq> Recursion_error \<Longrightarrow> in_frames (raise_build e)"
  by (simp_all add: in_frames_def return_build_def emit_def new_tmp_def new_label_def new_string_def Let_def
      build_goto_def build_user_label_def raise_build_def)

lemma in_frames_if: "in_frames m \<Longrightarrow> in_frames m' \<Longrightarrow> in_frames (if c then m else m')"
  by simp

lemma in_frames_option:
  "(opt = None \<Longrightarrow> in_frames m) \<Longrightarrow> (\<And>x. opt = Some x \<Longrightarrow> in_frames (f x)) \<Longrightarrow>
   in_frames (case opt of None \<Rightarrow> m | Some x \<Rightarrow> f x)"
  by (cases opt) auto

lemmas in_frames_rules = in_frames_bind in_frames_then in_frames_basic in_frames_if in_frames_option

lemma assign_rhs_size: "assign_rhs n = Some e \<Longrightarrow> size e < size n"
  by (cases n) auto

lemma rebind_size: "assign_rhs n = Some e \<Longrightarrow> size (rebind_rhs (Var_node x) n) \<le> size n"
  by (cases n) auto

lemma list_node_size: "n \<in> set ns \<Longrightarrow> size n < size_list size ns"
  by (rule list_elem_size)

locale frames_enough =
  fixes calls :: builder_calls and k :: nat
  assumes enough: "frames_for c \<le> k \<Longrightarrow> in_frames (calls c)"
begin

lemma cond_false: "frames_for_cond c \<le> k \<Longrightarrow> in_frames (call_cond_false calls c t)"
  unfolding call_cond_false_def by (intro in_frames_bind enough in_frames_basic) simp

lemma cond_true: "frames_for_cond c \<le> k \<Longrightarrow> in_frames (call_cond_true calls c t)"
  unfolding call_cond_true_def by (intro in_frames_bind enough in_frames_basic) simp

lemma expr: "3 * size e + 2 \<le> k \<Longrightarrow> in_frames (call_expr calls e)"
  unfolding call_expr_def by (intro in_frames_bind enough in_frames_option in_frames_basic) simp_all

lemma stmt: "3 * size n + 2 \<le> k \<Longrightarrow> in_frames (call_stmt calls b c n)"
  unfolding call_stmt_def by (intro in_frames_bind enough in_frames_basic) simp

lemma exprs: "3 * size_list size es \<le> k + 1 \<Longrightarrow> in_frames (build_exprs calls es)"
  by (induction es) (auto intro!: in_frames_bind in_frames_basic expr)

lemma exprs_each: "(\<And>e. e \<in> set es \<Longrightarrow> 3 * size e + 2 \<le> k) \<Longrightarrow> in_frames (build_exprs calls es)"
  by (induction es) (auto intro!: in_frames_bind in_frames_basic expr)

lemma stmts: "3 * size_list size ns \<le> k + 1 \<Longrightarrow> in_frames (build_stmts calls b c ns)"
  by (induction ns) (auto intro!: in_frames_then in_frames_basic stmt)

lemma cond_size: "3 * size c + 3 \<le> k \<Longrightarrow> frames_for_cond c \<le> k"
  by (simp add: frames_for_cond_def)

lemmas parts = in_frames_rules cond_false cond_true expr stmt exprs stmts cond_size

lemma compare: "3 * size l + 2 \<le> k \<Longrightarrow> 3 * size r + 2 \<le> k \<Longrightarrow> in_frames (build_compare calls l op r t)"
  unfolding build_compare_def by (rule parts | simp)+

lemma test: "3 * size c + 2 \<le> k \<Longrightarrow> in_frames (build_test calls c op t)"
  unfolding build_test_def by (rule parts | simp)+

lemma build_cond_false: "frames_for_cond c \<le> Suc k \<Longrightarrow> in_frames (build_cond_false calls C c t)"
proof (cases c)
  case (BinaryOperation_node l op r)
  then show "frames_for_cond c \<le> Suc k \<Longrightarrow> ?thesis"
    unfolding build_cond_false_def BinaryOperation_node node.case frames_for_cond_def is_logical_def
    by (intro in_frames_if in_frames_basic compare test) simp_all
qed (auto simp: build_cond_false_def frames_for_cond_def is_logical_def
       intro!: test in_frames_bind in_frames_then in_frames_basic cond_false cond_true cond_size)

lemma build_cond_true: "frames_for_cond c \<le> Suc k \<Longrightarrow> in_frames (build_cond_true calls C c t)"
proof (cases c)
  case (BinaryOperation_node l op r)
  then show "frames_for_cond c \<le> Suc k \<Longrightarrow> ?thesis"
    unfolding build_cond_true_def BinaryOperation_node node.case frames_for_cond_def is_logical_def
    by (intro in_frames_if in_frames_basic compare test) simp_all
qed (auto simp: build_cond_true_def frames_for_cond_def is_logical_def
       intro!: test in_frames_bind in_frames_then in_frames_basic cond_false cond_true cond_size)

subsection \<open>Expressions\<close>

lemma load: "in_frames (build_load b is p)"
  unfolding build_load_def by (rule parts | simp)+

lemma address_of: "in_frames (build_address_of b p)"
  unfolding build_address_of_def by (rule parts | simp)+

lemma opaque: "in_frames (build_opaque w e)"
  unfolding build_opaque_def by (rule parts | simp)+

lemma chain: "3 * size p + 2 \<le> k + 3 \<Longrightarrow> in_frames (lower_subscript_chain_indices calls p)"
  unfolding lower_subscript_chain_indices_def using chain_indices_smaller by (intro exprs_each) fastforce

lemma struct_array_size:
  "is_struct_array_member_load e = Some i \<Longrightarrow> 3 * size e + 2 \<le> Suc k \<Longrightarrow> 3 * size i + 2 \<le> k"
  by (auto simp: is_struct_array_member_load_def dest: struct_array_member_smaller split: node.splits)

lemma place_load: "3 * size p + 5 \<le> Suc k \<Longrightarrow> e = PlaceLoad_node p \<Longrightarrow> in_frames (build_place_load calls e p)"
  unfolding build_place_load_def
  by (intro in_frames_option in_frames_if in_frames_bind load opaque chain expr)
     (auto dest: struct_array_size)

lemma assign_expr: "3 * size n + 4 \<le> Suc k \<Longrightarrow> in_frames (lower_assign_expr calls C n)"
  unfolding lower_assign_expr_def
proof (intro in_frames_option in_frames_basic in_frames_if in_frames_bind in_frames_then)
  fix e x
  assume n: "3 * size n + 4 \<le> Suc k" and e: "assign_rhs n = Some e"
  show "in_frames (call_expr calls e)" using assign_rhs_size [OF e] n by (intro expr) simp
  show "in_frames (call_stmt calls None None (rebind_rhs (Var_node x) n))"
    using rebind_size [OF e, of x] n by (intro stmt) simp
qed simp_all

lemma logical: "is_logical e \<Longrightarrow> 3 * size e + 2 \<le> Suc k \<Longrightarrow> in_frames (build_logical calls e)"
  unfolding build_logical_def by (intro in_frames_bind in_frames_then in_frames_basic cond_true) (simp add: frames_for_cond_def)

lemma build_expr: "3 * size e + 2 \<le> Suc k \<Longrightarrow> in_frames (build_expr calls C e)"
proof (cases e)
  case (Index_node a i)
  show "3 * size e + 2 \<le> Suc k \<Longrightarrow> ?thesis"
  proof (cases a)
    case (Var_node x)
    show "3 * size e + 2 \<le> Suc k \<Longrightarrow> ?thesis"
      unfolding build_expr_def Index_node Var_node node.case by (rule parts | simp)+
  qed (simp_all add: build_expr_def Index_node opaque)
next
  case (PlaceAddressOf_node p)
  show ?thesis unfolding build_expr_def PlaceAddressOf_node node.case by (rule parts opaque address_of | simp)+
next
  case (PlaceLoad_node p)
  then show "3 * size e + 2 \<le> Suc k \<Longrightarrow> ?thesis" by (simp add: build_expr_def place_load)
next
  case (AssignExpr_node n)
  then show "3 * size e + 2 \<le> Suc k \<Longrightarrow> ?thesis" by (simp add: build_expr_def assign_expr)
next
  case (Call_node args name)
  then show "3 * size e + 2 \<le> Suc k \<Longrightarrow> ?thesis"
    unfolding build_expr_def Call_node node.case by (intro parts opaque) simp_all
qed (auto simp: build_expr_def is_logical_def intro!: opaque logical in_frames_bind in_frames_then in_frames_basic expr)

subsection \<open>Statements\<close>

lemma build_if:
  "3 * (size_list size body + size c + size_option (size_list size) eb) + 3 \<le> k \<Longrightarrow>
   in_frames (build_if calls b t body c eb)"
  unfolding build_if_def
  by (cases eb) (auto intro!: in_frames_bind in_frames_then in_frames_basic cond_false cond_size stmts)

lemma build_while: "3 * (size_list size body + size c) + 3 \<le> k \<Longrightarrow> in_frames (build_while calls body c)"
  unfolding build_while_def
  by (intro in_frames_bind in_frames_then in_frames_if in_frames_basic cond_false cond_size stmts) simp_all

lemma build_do_while: "3 * (size_list size body + size c) + 3 \<le> k \<Longrightarrow> in_frames (build_do_while calls body c)"
  unfolding build_do_while_def
  by (intro in_frames_bind in_frames_then in_frames_if in_frames_basic cond_true cond_size stmts) simp_all

lemma build_for:
  "3 * (size_list size body + size_option size c + size_list size ini + size_list size step) + 3 \<le> k \<Longrightarrow>
   in_frames (build_for calls body c ini step)"
  unfolding build_for_def
  by (intro in_frames_bind in_frames_then in_frames_if in_frames_option in_frames_basic cond_false cond_size stmts exprs)
     simp_all

lemma build_store: "3 * size v + 2 \<le> k \<Longrightarrow> in_frames (build_store calls b is p v)"
  unfolding build_store_def by (rule parts | simp)+

lemma struct_array_store_size:
  "is_struct_array_member_store e = Some i \<Longrightarrow> 3 * size e + 2 \<le> Suc k \<Longrightarrow> 3 * size i + 2 \<le> k"
  by (cases e) (auto simp: is_struct_array_member_store_def store_place_def dest: struct_array_member_smaller split: if_splits)

lemma build_place_store:
  "e = PlaceStore_node p v \<Longrightarrow> 3 * size e + 2 \<le> Suc k \<Longrightarrow> in_frames (build_place_store calls e p v)"
  unfolding build_place_store_def
  by (intro in_frames_option in_frames_if in_frames_bind in_frames_basic build_store chain expr)
     (auto dest: struct_array_store_size)

lemma subscript_call_size:
  "is_subscript_call e = Some i \<Longrightarrow> 3 * size e + 2 \<le> Suc k \<Longrightarrow> 3 * size i + 2 \<le> k"
  by (auto simp: is_subscript_call_def split: node.splits if_splits)

lemma build_place_call: "3 * size e + 2 \<le> Suc k \<Longrightarrow> in_frames (build_place_call calls e p)"
  unfolding build_place_call_def
  by (intro in_frames_option in_frames_bind in_frames_basic expr) (auto dest: subscript_call_size)

lemma case_body: "3 * size_list size body \<le> k + 1 \<Longrightarrow> in_frames (build_case_body calls e t body)"
  using stmts [of body "Some e" t] by (auto simp: in_frames_def build_case_body_def split: sum.splits)

lemma switch_cases: "3 * size_list size cs \<le> k + 1 \<Longrightarrow> in_frames (build_cases calls e t cs)"
proof (induction cs)
  case (Cons c cs)
  then show ?case by (cases c) (auto intro!: in_frames_bind in_frames_basic case_body)
qed (simp add: in_frames_basic)

lemma build_switch: "3 * size_list size cs \<le> k + 1 \<Longrightarrow> in_frames (build_switch calls t cs d a)"
  unfolding build_switch_def by (intro in_frames_bind in_frames_basic switch_cases)

lemma build_stmt: "3 * size n + 2 \<le> Suc k \<Longrightarrow> in_frames (build_stmt calls C b t n)"
proof (cases n)
  case (IndexAssign_node a e i)
  show "3 * size n + 2 \<le> Suc k \<Longrightarrow> ?thesis"
  proof (cases a)
    case (Var_node x)
    show "3 * size n + 2 \<le> Suc k \<Longrightarrow> ?thesis"
      unfolding build_stmt_def IndexAssign_node Var_node node.case by (rule parts | simp)+
  qed (simp_all add: build_stmt_def IndexAssign_node in_frames_basic)
next
  case Break_node
  show ?thesis unfolding build_stmt_def Break_node node.case by (rule parts | simp)+
next
  case Continue_node
  show ?thesis unfolding build_stmt_def Continue_node node.case by (rule parts | simp)+
next
  case (Call_node args name)
  then show "3 * size n + 2 \<le> Suc k \<Longrightarrow> ?thesis"
    unfolding build_stmt_def Call_node node.case by (intro in_frames_if in_frames_basic in_frames_bind exprs) simp_all
next
  case (Assign_node e x)
  then show "3 * size n + 2 \<le> Suc k \<Longrightarrow> ?thesis"
    unfolding build_stmt_def Assign_node node.case build_assign_def
    by (intro in_frames_if in_frames_basic in_frames_bind expr) simp_all
next
  case (Return_node v)
  then show "3 * size n + 2 \<le> Suc k \<Longrightarrow> ?thesis"
    unfolding build_stmt_def Return_node node.case build_return_def
    by (intro in_frames_option in_frames_if in_frames_basic in_frames_bind expr) simp_all
next
  case (PlaceIncrementDecrement_node d q p)
  show ?thesis unfolding build_stmt_def PlaceIncrementDecrement_node node.case build_increment_def by (rule parts | simp)+
qed (auto simp: build_stmt_def intro!: in_frames_basic build_if build_while build_do_while build_for stmts build_switch
       build_place_store build_place_call)

end

subsection \<open>The methods tied together\<close>

lemma methods_frames: "frames_enough (methods C k) k"
proof (induction k)
  case 0
  have pos: "frames_for c \<noteq> 0" for c by (cases c) (auto simp: frames_for_cond_def)
  show ?case
  proof
    fix c assume "frames_for c \<le> 0"
    then show "in_frames (methods C 0 c)" using pos [of c] by simp
  qed
next
  case (Suc k)
  show ?case
  proof
    fix c assume c: "frames_for c \<le> Suc k"
    show "in_frames (methods C (Suc k) c)"
      using c by (cases c) (auto intro!: in_frames_bind in_frames_then in_frames_basic
          frames_enough.build_cond_false [OF Suc] frames_enough.build_cond_true [OF Suc]
          frames_enough.build_expr [OF Suc] frames_enough.build_stmt [OF Suc])
  qed
qed

interpretation tied: frames_enough "methods C k" k for C k
  by (rule methods_frames)

lemma build_function_frames: "3 * size f \<le> frames \<Longrightarrow> build_function carry frames f counters \<noteq> Inl Recursion_error"
proof (cases f)
  case (Function_node a body c d e g name params r t)
  assume "3 * size f \<le> frames"
  then have "in_frames (build_stmts (methods C frames) None None body)" for C
    by (intro tied.stmts) (simp add: Function_node)
  then show ?thesis
    by (auto simp: build_function_def Function_node in_frames_def Let_def split: sum.splits list.splits)
qed (simp_all add: build_function_def)

lemma build_functions_frames:
  "3 * size_list size fs \<le> frames \<Longrightarrow> build_functions carry frames fs counters \<noteq> Inl Recursion_error"
proof (induction fs arbitrary: counters)
  case (Cons f fs)
  have "build_function carry frames f counters \<noteq> Inl Recursion_error"
    by (rule build_function_frames) (use Cons.prems in simp)
  then show ?case using Cons by (auto simp: bind_result_def split: sum.splits)
qed simp

text \<open>
  C32. The builder returns: three stack frames for every level of the syntax tree are enough for every program,
  so the only errors are those it raises itself.
\<close>

theorem build_program_frames:
  assumes "3 * size program \<le> frames"
  shows "build_program carry frames program \<noteq> Inl Recursion_error"
proof (cases program)
  case (Program_node fs gs)
  have "build_functions carry frames fs (0, 0) \<noteq> Inl Recursion_error"
    by (rule build_functions_frames) (use assms Program_node in simp)
  then show ?thesis by (auto simp: build_program_def Program_node bind_result_def split: sum.splits)
qed (simp_all add: build_program_def)

lemma build_program_frames_witness:
  "build_program [] 30 (Program_node [Function_node False [Return_node (Some (Int_node 0))] False False False False ''main'' [] [] 0] [])
     \<noteq> Inl Recursion_error"
  by (rule build_program_frames) simp

end
