(* ===== verification/Ir_Lowering_Correct.thy ===== *)
theory Ir_Lowering_Correct
  imports Ir_Lowered Ir_Frames Cfg_Correct
begin

text \<open>
  Guarantees of the builder of \<^verbatim>\<open>cc/ir.py\<close> for whole programs: the labels of a function and the graph of
  its body.
\<close>

interpretation lowered: lowering_calls "methods C frames" for C frames
  by (rule methods_lower)

subsection \<open>Labels\<close>

lemma build_function_labels:
  assumes "build_function carry frames f counters = Inr (fn, counters')"
  shows "distinct (all_labels (fn_body fn)) \<and> set (all_targets (fn_body fn)) \<subseteq> set (all_labels (fn_body fn)) \<and>
     (\<forall>l \<in> set (all_labels (fn_body fn)). hd l = CHR ''.'')"
proof -
  obtain a body c d e g name params r t where f: "f = Function_node a body c d e g name params r t"
    using assms by (cases f) (auto simp: build_function_def)
  define C where "C = \<lparr>cx_carry = carry, cx_types = variable_types params body\<rparr>"
  define s where "s = \<lparr>bd_counter = fst counters, bd_str_counter = snd counters, bd_out = [], bd_strings = [],
    bd_defined = [], bd_referenced = []\<rparr>"
  obtain s' where s': "build_stmts (methods C frames) None None body s = Inr ((), s')"
    and goto: "filter (\<lambda>x. x \<notin> set (bd_defined s')) (bd_referenced s') = []" and body: "fn_body fn = bd_out s'"
    using assms unfolding build_function_def f node.case Let_def C_def [symmetric] s_def [symmetric]
    by (auto split: sum.splits list.splits)
  have "labels_kept [] s" by (simp add: s_def labels_kept_def available_def)
  then have ok: "labels_kept [] s'"
    using lowersD [OF lowered.stmts [of None None "[]" C frames body], of "[]" s] s' by (auto simp: opt_labels_def)
  have "set (bd_referenced s') \<subseteq> set (bd_defined s')" using goto by (auto simp: filter_empty_conv)
  then have ref: "user_label ` set (bd_referenced s') \<subseteq> set (all_labels (bd_out s'))"
    using ok by (auto simp: labels_kept_def available_def)
  have parts: "distinct (all_labels (bd_out s'))" "\<forall>l \<in> set (all_labels (bd_out s')). known_label s' l"
    "set (all_targets (bd_out s')) \<subseteq> set (all_labels (bd_out s')) \<union> user_label ` set (bd_referenced s')"
    using ok by (simp_all add: labels_kept_def available_def)
  have dot: "known_label s' l \<Longrightarrow> hd l = CHR ''.''" for l
    by (auto simp: known_label_def label_name_def user_label_def)
  show ?thesis unfolding body
  proof (intro conjI ballI)
    show "set (all_targets (bd_out s')) \<subseteq> set (all_labels (bd_out s'))"
      by (rule subset_trans [OF parts(3) Un_least [OF subset_refl ref]])
  qed (use parts(1,2) dot in blast)+
qed

lemma build_functions_labels:
  "build_functions carry frames fs counters = Inr fns \<Longrightarrow> fn \<in> set fns \<Longrightarrow>
   distinct (all_labels (fn_body fn)) \<and> set (all_targets (fn_body fn)) \<subseteq> set (all_labels (fn_body fn)) \<and>
     (\<forall>l \<in> set (all_labels (fn_body fn)). hd l = CHR ''.'')"
proof (induction fs arbitrary: counters fns)
  case (Cons f fs)
  then obtain fn1 c1 fns1 where 1: "build_function carry frames f counters = Inr (fn1, c1)"
    and 2: "build_functions carry frames fs c1 = Inr fns1" and fns: "fns = fn1 # fns1"
    by (auto simp: bind_result_Inr)
  show ?case
  proof (cases "fn = fn1")
    case True
    then show ?thesis using build_function_labels [OF 1] by simp
  next
    case False
    then have "fn \<in> set fns1" using Cons.prems(2) fns by simp
    then show ?thesis by (rule Cons.IH [OF 2])
  qed
qed simp

lemma build_program_labels:
  "build_program carry frames program = Inr p \<Longrightarrow> fn \<in> set (prog_functions p) \<Longrightarrow>
   distinct (all_labels (fn_body fn)) \<and> set (all_targets (fn_body fn)) \<subseteq> set (all_labels (fn_body fn)) \<and>
     (\<forall>l \<in> set (all_labels (fn_body fn)). hd l = CHR ''.'')"
  by (cases program) (auto simp: build_program_def bind_result_Inr dest: build_functions_labels)

text \<open>
  C6. Lowering is closed under control flow: in every function the builder returns, no label is placed twice,
  also not inside the cases of a switch, and every jump and branch goes to a label that is placed.
\<close>

theorem lowered_labels_closed:
  assumes "build_program carry frames program = Inr p" "fn \<in> set (prog_functions p)"
  shows "distinct (all_labels (fn_body fn)) \<and> set (all_targets (fn_body fn)) \<subseteq> set (all_labels (fn_body fn))"
  using build_program_labels [OF assms] by blast

text \<open>A loop with a test of two variables, a conditional exit and a backward \<open>goto\<close>.\<close>

definition search_loop :: node where
  "search_loop = Program_node [Function_node False
     [Label_node ''again'',
      While_node [If_node [Break_node] (BinaryOperation_node (Var_node ''x'') ''=='' (Int_node 3)) None,
          Assign_node (BinaryOperation_node (Var_node ''y'') ''+'' (Int_node 1)) ''x'']
        (LogicalAnd_node (Var_node ''x'') (LogicalOr_node (Var_node ''y'') (Var_node ''z''))),
      If_node [Goto_node ''again''] (Var_node ''z'') None,
      Return_node (Some (Var_node ''x''))] False False False False ''search'' [] [] 0] []"

lemma search_loop_lowered: "\<exists>p fn. build_program [] 60 search_loop = Inr p \<and> prog_functions p = [fn] \<and>
   all_labels (fn_body fn) = [''.user_again'', ''._ir_wloop0'', ''._ir_lor2'', ''._ir_endif3'', ''._ir_wend1'', ''._ir_endif5''] \<and>
   (\<forall>i \<in> set (fn_body fn). \<not> (\<exists>cs d e a. i = Switch cs d e a))"
proof -
  define r where "r = build_program [] 60 search_loop"
  have "(case r of Inr p \<Rightarrow> (case prog_functions p of [fn] \<Rightarrow>
     all_labels (fn_body fn) = [''.user_again'', ''._ir_wloop0'', ''._ir_lor2'', ''._ir_endif3'', ''._ir_wend1'', ''._ir_endif5''] \<and>
     list_all (\<lambda>i. case i of Switch _ _ _ _ \<Rightarrow> False | _ \<Rightarrow> True) (fn_body fn) | _ \<Rightarrow> False) | _ \<Rightarrow> False)"
    unfolding r_def by code_simp
  then show ?thesis unfolding r_def [symmetric]
    by (fastforce simp: list_all_iff split: sum.splits list.splits instr.splits)
qed

lemma lowered_labels_closed_witness:
  "\<exists>p fn. build_program [] 60 search_loop = Inr p \<and> fn \<in> set (prog_functions p) \<and> distinct (all_labels (fn_body fn))"
proof -
  obtain p fn where "build_program [] 60 search_loop = Inr p" "prog_functions p = [fn]" using search_loop_lowered by blast
  then show ?thesis using lowered_labels_closed [of "[]" 60 search_loop p fn] by auto
qed

subsection \<open>The graph of a lowered body\<close>

lemma targets_of_branch: "i \<in> set b \<Longrightarrow> branch_target i = Some l \<Longrightarrow> l \<in> set (all_targets b)"
proof (induction b)
  case (Cons j b)
  then show ?case by (cases "i = j") (auto, cases j rule: branch_target.cases, auto)
qed simp

lemma labels_of_flat:
  "\<forall>i \<in> set b. \<not> (\<exists>cs d e a. i = Switch cs d e a) \<Longrightarrow> l \<in> set (all_labels b) \<Longrightarrow> Label l \<in> set b"
proof (induction b)
  case (Cons j b)
  then show ?case by (cases j) auto
qed simp

text \<open>
  The optimizer can build the control-flow graph of every lowered function without a switch.
\<close>

theorem lowered_body_has_graph:
  assumes "build_program carry frames program = Inr p" "fn \<in> set (prog_functions p)"
    "\<forall>i \<in> set (fn_body fn). \<not> (\<exists>cs d e a. i = Switch cs d e a)"
  shows "build_cfg (fn_body fn) \<noteq> None"
proof -
  note labels = build_program_labels [OF assms(1,2)]
  have "\<forall>i \<in> set (fn_body fn). \<forall>l. branch_target i = Some l \<longrightarrow> \<not> synthetic l"
  proof (intro ballI allI impI)
    fix i l assume "i \<in> set (fn_body fn)" "branch_target i = Some l"
    then have "hd l = CHR ''.''" using targets_of_branch labels by blast
    then show "\<not> synthetic l"
      by (cases l) (auto simp: synthetic_def starts_with_def synthetic_label_prefix_def)
  qed
  note none = build_cfg_None_iff [OF this]
  have "Label l \<in> set (fn_body fn)" if "i \<in> set (fn_body fn)" "branch_target i = Some l" for i l
    using targets_of_branch [OF that] labels labels_of_flat [OF assms(3)] by blast
  then show ?thesis using none by blast
qed

lemma lowered_body_has_graph_witness:
  "\<exists>p fn. build_program [] 60 search_loop = Inr p \<and> fn \<in> set (prog_functions p) \<and> build_cfg (fn_body fn) \<noteq> None"
proof -
  obtain p fn where "build_program [] 60 search_loop = Inr p" "prog_functions p = [fn]"
    "\<forall>i \<in> set (fn_body fn). \<not> (\<exists>cs d e a. i = Switch cs d e a)"
    using search_loop_lowered by blast
  then show ?thesis using lowered_body_has_graph [of "[]" 60 search_loop p fn] by auto
qed

end
