(* ===== verification/Ir_Eval.thy ===== *)
theory Ir_Eval
  imports Ir_Lowering_Correct Ir_Machine
begin

text \<open>
  What lowering an expression means.  The values of arithmetic, comparison and short-circuit expressions over
  program variables are given on the syntax tree; the lowered code computes them on the machine of
  \<open>Ir_Machine\<close>, with jumps where the source has \<open>&&\<close> and \<open>||\<close>.
\<close>

subsection \<open>The meaning of an expression\<close>

fun pure_node :: "node \<Rightarrow> bool" where
  "pure_node (Int_node _) = True"
| "pure_node (Char_node _) = True"
| "pure_node (Var_node x) = (\<not> is_temp x)"
| "pure_node (BinaryOperation_node l _ r) = (pure_node l \<and> pure_node r)"
| "pure_node (LogicalAnd_node l r) = (pure_node l \<and> pure_node r)"
| "pure_node (LogicalOr_node l r) = (pure_node l \<and> pure_node r)"
| "pure_node _ = False"

definition truth :: "word32 option \<Rightarrow> bool option" where
  "truth = map_option (\<lambda>v. v \<noteq> 0)"

definition number :: "bool option \<Rightarrow> word32 option" where
  "number = map_option (\<lambda>h. if h then 1 else 0)"

definition both :: "('a \<Rightarrow> 'b \<Rightarrow> 'c option) \<Rightarrow> 'a option \<Rightarrow> 'b option \<Rightarrow> 'c option" where
  "both f a b = Option.bind a (\<lambda>x. Option.bind b (f x))"

text \<open>The second condition counts only when the first is \<open>go\<close>.\<close>

definition short :: "bool \<Rightarrow> bool option \<Rightarrow> bool option \<Rightarrow> bool option" where
  "short go a b = (if a = Some go then b else a)"

text \<open>The value of an expression and its truth as a condition.\<close>

fun meaning :: "'m world \<Rightarrow> slots \<Rightarrow> node \<Rightarrow> word32 option \<times> bool option" where
  "meaning W sl (Int_node v) = (Some (word_of_int v), truth (Some (word_of_int v)))"
| "meaning W sl (Char_node v) = (Some (word_of_int v), truth (Some (word_of_int v)))"
| "meaning W sl (Var_node x) = (sl x, truth (sl x))"
| "meaning W sl (BinaryOperation_node l op r) =
     (let v = both (binop W op) (fst (meaning W sl l)) (fst (meaning W sl r))
      in (v, if op \<in> comparison_operations
             then both (compare_words W op) (fst (meaning W sl l)) (fst (meaning W sl r)) else truth v))"
| "meaning W sl (LogicalAnd_node l r) =
     (let h = short True (snd (meaning W sl l)) (snd (meaning W sl r)) in (number h, h))"
| "meaning W sl (LogicalOr_node l r) =
     (let h = short False (snd (meaning W sl l)) (snd (meaning W sl r)) in (number h, h))"
| "meaning W sl _ = (None, None)"

definition eval_node :: "'m world \<Rightarrow> slots \<Rightarrow> node \<Rightarrow> word32 option" where
  "eval_node W sl e = fst (meaning W sl e)"

definition holds_node :: "'m world \<Rightarrow> slots \<Rightarrow> node \<Rightarrow> bool option" where
  "holds_node W sl e = snd (meaning W sl e)"

lemma temp_name_is_temp: "is_temp (temp_name n)"
  by (simp add: is_temp_def temp_prefix_def temp_name_def starts_with_def)

lemma temp_name_inj: "temp_name m = temp_name n \<longleftrightarrow> m = n"
  using show_nat_inj by (auto simp: temp_name_def)

lemma meaning_cong:
  "pure_node e \<Longrightarrow> (\<And>x. \<not> is_temp x \<Longrightarrow> sl x = sl' x) \<Longrightarrow> meaning W sl e = meaning W sl' e"
  by (induction e rule: pure_node.induct) (simp_all add: Let_def)

subsection \<open>Runs of a piece of code\<close>

definition reaches :: "'m world \<Rightarrow> instr list \<Rightarrow> instr list \<Rightarrow> 'm ir_state \<Rightarrow> instr list \<Rightarrow> 'm ir_state \<Rightarrow> bool" where
  "reaches W B x s y t = (\<forall>out. exec (next_conf (ir_machine W)) B x s out \<longleftrightarrow> exec (next_conf (ir_machine W)) B y t out)"

lemma reaches_refl: "reaches W B x s x s"
  by (simp add: reaches_def)

lemma reaches_trans: "reaches W B x s y t \<Longrightarrow> reaches W B y t z u \<Longrightarrow> reaches W B x s z u"
  by (simp add: reaches_def)

lemma reaches_go: "next_conf (ir_machine W) B i rest s = Go y t \<Longrightarrow> reaches W B (i # rest) s y t"
  by (simp add: reaches_def exec_Cons_iff)

lemma reaches_Label: "reaches W B (Label l # x) s x s"
  by (rule reaches_go) simp

lemma reaches_Jump: "find_label t B = Some d \<Longrightarrow> reaches W B (Jump t # x) s d s"
  by (rule reaches_go) (simp add: goto_label_def)

lemma reaches_Branch:
  "ir_holds W l op r s = Some h \<Longrightarrow> (\<not> h \<Longrightarrow> find_label t B = Some d) \<Longrightarrow>
   reaches W B (BranchFalse l op r t # x) s (if h then x else d) s"
  by (rule reaches_go) (auto simp: goto_label_def)

lemma reaches_Copy: "eval_value W (slots s) v = Some w \<Longrightarrow> reaches W B (Copy d v # x) s x (set_slot d w s)"
  by (rule reaches_go) (simp add: plain_step_def ir_act_def)

lemma reaches_Binary:
  "eval_value W (slots s) l = Some a \<Longrightarrow> eval_value W (slots s) r = Some c \<Longrightarrow> binop W op a c = Some w \<Longrightarrow>
   reaches W B (BinaryOperation d l op r # x) s x (set_slot d w s)"
  by (rule reaches_go) (simp add: plain_step_def ir_act_def)

text \<open>Only the temps of the counters from \<open>m\<close> to \<open>n\<close> have changed.\<close>

definition changes :: "nat \<Rightarrow> nat \<Rightarrow> 'm ir_state \<Rightarrow> 'm ir_state \<Rightarrow> bool" where
  "changes m n s t = (store t = store s \<and> (\<forall>x. x \<notin> temp_name ` {m..<n} \<longrightarrow> slots t x = slots s x))"

lemma changes_refl: "changes m n s s"
  by (simp add: changes_def)

lemma changes_trans: "changes m n s t \<Longrightarrow> changes m' n' t u \<Longrightarrow> k \<le> m \<Longrightarrow> k \<le> m' \<Longrightarrow> n \<le> l \<Longrightarrow> n' \<le> l \<Longrightarrow> changes k l s u"
  unfolding changes_def by (auto simp: image_iff)

lemma changes_widen: "changes m n s t \<Longrightarrow> k \<le> m \<Longrightarrow> n \<le> l \<Longrightarrow> changes k l s t"
  by (auto simp: changes_def image_iff)

lemma changes_set_slot: "m \<le> k \<Longrightarrow> k < n \<Longrightarrow> changes m n s (set_slot (temp_name k) w s)"
  by (auto simp: changes_def set_slot_def)

lemma changes_variable: "changes m n s t \<Longrightarrow> \<not> is_temp x \<Longrightarrow> slots t x = slots s x"
  unfolding changes_def using temp_name_is_temp by (metis imageE)

lemma changes_lower_temp: "changes m n s t \<Longrightarrow> k < m \<Longrightarrow> slots t (temp_name k) = slots s (temp_name k)"
  unfolding changes_def by (metis atLeastLessThan_iff imageE not_less temp_name_inj)

lemma changes_meaning: "changes m n s t \<Longrightarrow> pure_node e \<Longrightarrow> meaning W (slots t) e = meaning W (slots s) e"
  by (rule meaning_cong) (auto intro: changes_variable)

text \<open>A value that a change of later temps leaves alone.\<close>

definition value_below :: "nat \<Rightarrow> ir_value \<Rightarrow> bool" where
  "value_below n v = (case v of VInt _ \<Rightarrow> True | VName x \<Rightarrow> \<not> is_temp x \<or> x \<in> temp_name ` {..<n} | VAddr _ \<Rightarrow> False)"

lemma value_below_eval: "value_below m v \<Longrightarrow> changes m n s t \<Longrightarrow> eval_value W (slots t) v = eval_value W (slots s) v"
  by (cases v) (auto simp: value_below_def changes_variable changes_lower_temp)

lemma value_below_later: "value_below m v \<Longrightarrow> m \<le> n \<Longrightarrow> value_below n v"
  by (auto simp: value_below_def split: ir_value.splits)

subsection \<open>What a method computes\<close>

text \<open>
  \<open>appends bs bs' code\<close>: the instructions emitted between two states of the builder.  A body is split at
  them as \<open>bd_out bs @ code @ post\<close>, and its labels are distinct.
\<close>

definition appends :: "builder \<Rightarrow> builder \<Rightarrow> instr list \<Rightarrow> bool" where
  "appends bs bs' code =
     (bd_out bs' = bd_out bs @ code \<and> bd_counter bs \<le> bd_counter bs' \<and> bd_referenced bs' = bd_referenced bs)"

definition expr_code :: "'m world \<Rightarrow> node \<Rightarrow> builder \<Rightarrow> instr list \<Rightarrow> ir_value \<Rightarrow> builder \<Rightarrow> bool" where
  "expr_code W e bs code v bs' = (appends bs bs' code \<and> value_below (bd_counter bs') v \<and>
     (\<forall>B post s w. B = bd_out bs @ code @ post \<longrightarrow> distinct (label_names B) \<longrightarrow> eval_node W (slots s) e = Some w \<longrightarrow>
       (\<exists>t. reaches W B (code @ post) s post t \<and> changes (bd_counter bs) (bd_counter bs') s t \<and>
         eval_value W (slots t) v = Some w)))"

text \<open>A condition goes on after the code when its truth is \<open>go\<close>, and to the target otherwise.\<close>

definition cond_code :: "'m world \<Rightarrow> node \<Rightarrow> bool \<Rightarrow> string \<Rightarrow> builder \<Rightarrow> instr list \<Rightarrow> builder \<Rightarrow> bool" where
  "cond_code W c go target bs code bs' = (appends bs bs' code \<and>
     (\<forall>B post s h d. B = bd_out bs @ code @ post \<longrightarrow> distinct (label_names B) \<longrightarrow> holds_node W (slots s) c = Some h \<longrightarrow>
       (h \<noteq> go \<longrightarrow> find_label target B = Some d) \<longrightarrow>
       (\<exists>t. reaches W B (code @ post) s (if h = go then post else d) t \<and> changes (bd_counter bs) (bd_counter bs') s t)))"

text \<open>The only error is running out of frames.\<close>

definition yields :: "'a build \<Rightarrow> (builder \<Rightarrow> 'a \<Rightarrow> builder \<Rightarrow> bool) \<Rightarrow> bool" where
  "yields m Q = (\<forall>bs. case m bs of Inl err \<Rightarrow> err = Recursion_error | Inr (x, bs') \<Rightarrow> Q bs x bs')"

definition expr_computes :: "'m world \<Rightarrow> node \<Rightarrow> ir_value build \<Rightarrow> bool" where
  "expr_computes W e m = yields m (\<lambda>bs v bs'. \<exists>code. expr_code W e bs code v bs')"

definition cond_computes :: "'m world \<Rightarrow> node \<Rightarrow> bool \<Rightarrow> string \<Rightarrow> unit build \<Rightarrow> bool" where
  "cond_computes W c go target m = yields m (\<lambda>bs u bs'. \<exists>code. cond_code W c go target bs code bs')"

lemma yields_bind: "yields m Q \<Longrightarrow> (\<And>x. yields (f x) (R x)) \<Longrightarrow>
   yields (bind_build m f) (\<lambda>bs y bs''. \<exists>x bs'. Q bs x bs' \<and> R x bs' y bs'')"
  unfolding yields_def bind_build_def by (fastforce split: sum.splits prod.splits)

lemma yields_then: "yields m Q \<Longrightarrow> yields m' R \<Longrightarrow> yields (then_build m m') (\<lambda>bs y bs''. \<exists>x bs'. Q bs x bs' \<and> R bs' y bs'')"
  unfolding then_build_def by (rule yields_bind)

lemma yields_mono: "yields m Q \<Longrightarrow> (\<And>bs x bs'. Q bs x bs' \<Longrightarrow> R bs x bs') \<Longrightarrow> yields m R"
  unfolding yields_def by (auto split: sum.splits prod.splits)

lemma yields_basic:
  "yields (return_build x) (\<lambda>bs y bs'. y = x \<and> bs' = bs)"
  "yields (emit is) (\<lambda>bs u bs'. bs' = bs\<lparr>bd_out := bd_out bs @ is\<rparr>)"
  "yields new_tmp (\<lambda>bs x bs'. x = temp_name (bd_counter bs) \<and> bs' = bs\<lparr>bd_counter := Suc (bd_counter bs)\<rparr>)"
  "yields (new_label tag) (\<lambda>bs x bs'. x = label_name tag (bd_counter bs) \<and> bs' = bs\<lparr>bd_counter := Suc (bd_counter bs)\<rparr>)"
  by (simp_all add: yields_def return_build_def emit_def new_tmp_def new_label_def)

lemma appends_trans: "appends a b x \<Longrightarrow> appends b c y \<Longrightarrow> appends a c (x @ y)"
  by (simp add: appends_def)

text \<open>What the pieces of code give when they are put together.\<close>

lemma expr_codeD:
  "expr_code W e bs code v bs' \<Longrightarrow> B = bd_out bs @ code @ post \<Longrightarrow> distinct (label_names B) \<Longrightarrow>
   eval_node W (slots s) e = Some w \<Longrightarrow>
   \<exists>t. reaches W B (code @ post) s post t \<and> changes (bd_counter bs) (bd_counter bs') s t \<and> eval_value W (slots t) v = Some w"
  unfolding expr_code_def by blast

lemma cond_codeD:
  "cond_code W c go target bs code bs' \<Longrightarrow> B = bd_out bs @ code @ post \<Longrightarrow> distinct (label_names B) \<Longrightarrow>
   holds_node W (slots s) c = Some h \<Longrightarrow> (h \<noteq> go \<Longrightarrow> find_label target B = Some d) \<Longrightarrow>
   \<exists>t. reaches W B (code @ post) s (if h = go then post else d) t \<and> changes (bd_counter bs) (bd_counter bs') s t"
  unfolding cond_code_def by blast

lemma code_appends: "expr_code W e bs code v bs' \<Longrightarrow> appends bs bs' code"
  "cond_code W c go target bs code bs' \<Longrightarrow> appends bs bs' code"
  by (simp_all add: expr_code_def cond_code_def)

lemma changes_eval: "changes m n s t \<Longrightarrow> pure_node e \<Longrightarrow> eval_node W (slots t) e = eval_node W (slots s) e"
  by (simp add: eval_node_def changes_meaning)

lemma changes_holds: "changes m n s t \<Longrightarrow> pure_node e \<Longrightarrow> holds_node W (slots t) e = holds_node W (slots s) e"
  by (simp add: holds_node_def changes_meaning)

text \<open>Two operands in order.\<close>

lemma operands_code:
  assumes l: "expr_code W l bs code1 v1 bs1" and r: "expr_code W r bs1 code2 v2 bs2" and pure: "pure_node r"
    and B: "B = bd_out bs @ code1 @ code2 @ post" "distinct (label_names B)"
    and w: "eval_node W (slots s) l = Some w1" "eval_node W (slots s) r = Some w2"
  shows "\<exists>t. reaches W B (code1 @ code2 @ post) s post t \<and> changes (bd_counter bs) (bd_counter bs2) s t \<and>
    eval_value W (slots t) v1 = Some w1 \<and> eval_value W (slots t) v2 = Some w2"
proof -
  note a1 = code_appends(1) [OF l, unfolded appends_def] and a2 = code_appends(1) [OF r, unfolded appends_def]
  obtain t where t: "reaches W B (code1 @ code2 @ post) s (code2 @ post) t" "changes (bd_counter bs) (bd_counter bs1) s t"
    "eval_value W (slots t) v1 = Some w1"
    using expr_codeD [OF l B w(1)] by blast
  have "eval_node W (slots t) r = Some w2" using changes_eval [OF t(2) pure, of W] w(2) by simp
  then obtain u where u: "reaches W B (code2 @ post) t post u" "changes (bd_counter bs1) (bd_counter bs2) t u"
    "eval_value W (slots u) v2 = Some w2"
    using expr_codeD [OF r _ B(2), of post t w2] B(1) a1 by auto
  have "eval_value W (slots u) v1 = Some w1"
    using value_below_eval [OF _ u(2), of v1 W] l t(3) by (auto simp: expr_code_def)
  moreover have "changes (bd_counter bs) (bd_counter bs2) s u"
    by (rule changes_trans [OF t(2) u(2)]) (use a1 a2 in auto)
  ultimately show ?thesis using reaches_trans [OF t(1) u(1)] u(3) by blast
qed

lemma short_code_same:
  fixes W :: "'m world"
  assumes l: "cond_code W l go target bs code1 bs1" and r: "cond_code W r go target bs1 code2 bs2" and pure: "pure_node r"
    and c: "\<And>sl. holds_node W sl c = short go (holds_node W sl l) (holds_node W sl r)"
  shows "cond_code W c go target bs (code1 @ code2) bs2"
  unfolding cond_code_def
proof (intro conjI allI impI)
  note a1 = code_appends(2) [OF l] and a2 = code_appends(2) [OF r]
  show "appends bs bs2 (code1 @ code2)" by (rule appends_trans [OF a1 a2])
  fix B post d h and s :: "'m ir_state"
  assume B: "B = bd_out bs @ (code1 @ code2) @ post" "distinct (label_names B)"
    and h: "holds_node W (slots s) c = Some h" and d: "h \<noteq> go \<longrightarrow> find_label target B = Some d"
  obtain hl where hl: "holds_node W (slots s) l = Some hl" using h c by (cases "holds_node W (slots s) l") (auto simp: short_def)
  have 1: "hl \<noteq> go \<Longrightarrow> find_label target B = Some d" using d h hl c [of "slots s"] by (auto simp: short_def)
  obtain t where t: "reaches W B (code1 @ code2 @ post) s (if hl = go then code2 @ post else d) t"
    "changes (bd_counter bs) (bd_counter bs1) s t"
    using cond_codeD [OF l _ B(2) hl 1, of "code2 @ post"] B(1) by auto
  show "\<exists>t. reaches W B ((code1 @ code2) @ post) s (if h = go then post else d) t \<and> changes (bd_counter bs) (bd_counter bs2) s t"
  proof (cases "hl = go")
    case False
    have "h = hl" using h hl c [of "slots s"] False by (auto simp: short_def)
    then show ?thesis using t False changes_widen [OF t(2), of "bd_counter bs" "bd_counter bs2"] a1 a2
      by (auto simp: appends_def)
  next
    case True
    have "holds_node W (slots t) r = Some h"
      using changes_holds [OF t(2) pure, of W] h hl c [of "slots s"] True by (auto simp: short_def)
    then obtain u where u: "reaches W B (code2 @ post) t (if h = go then post else d) u" "changes (bd_counter bs1) (bd_counter bs2) t u"
      using cond_codeD [OF r _ B(2), of post t h d] B(1) a1 d by (auto simp: appends_def)
    have "changes (bd_counter bs) (bd_counter bs2) s u"
      by (rule changes_trans [OF t(2) u(2)]) (use a1 a2 in \<open>auto simp: appends_def\<close>)
    then show ?thesis using reaches_trans [OF t(1) [unfolded True, simplified] u(1)] by auto
  qed
qed

lemma short_code_skip:
  fixes W :: "'m world"
  assumes l: "cond_code W l (\<not> go) skip bs code1 bs1" and r: "cond_code W r go target bs1 code2 bs2" and pure: "pure_node r"
    and c: "\<And>sl. holds_node W sl c = short (\<not> go) (holds_node W sl l) (holds_node W sl r)"
  shows "cond_code W c go target bs (code1 @ code2 @ [Label skip]) (bs2\<lparr>bd_out := bd_out bs2 @ [Label skip]\<rparr>)"
  unfolding cond_code_def
proof (intro conjI allI impI)
  note a1 = code_appends(2) [OF l] and a2 = code_appends(2) [OF r]
  show "appends bs (bs2\<lparr>bd_out := bd_out bs2 @ [Label skip]\<rparr>) (code1 @ code2 @ [Label skip])"
    using a1 a2 by (simp add: appends_def)
  fix B post d h and s :: "'m ir_state"
  assume B: "B = bd_out bs @ (code1 @ code2 @ [Label skip]) @ post" "distinct (label_names B)"
    and h: "holds_node W (slots s) c = Some h" and d: "h \<noteq> go \<longrightarrow> find_label target B = Some d"
  have skip: "find_label skip B = Some post"
    using find_label_distinct [of "bd_out bs @ code1 @ code2" skip post] B by simp
  obtain hl where hl: "holds_node W (slots s) l = Some hl" using h c by (cases "holds_node W (slots s) l") (auto simp: short_def)
  obtain t where t: "reaches W B (code1 @ code2 @ Label skip # post) s (if hl = (\<not> go) then code2 @ Label skip # post else post) t"
    "changes (bd_counter bs) (bd_counter bs1) s t"
    using cond_codeD [OF l _ B(2) hl, of "code2 @ Label skip # post" post] skip B(1) by auto
  show "\<exists>t. reaches W B ((code1 @ code2 @ [Label skip]) @ post) s (if h = go then post else d) t \<and>
      changes (bd_counter bs) (bd_counter (bs2\<lparr>bd_out := bd_out bs2 @ [Label skip]\<rparr>)) s t"
  proof (cases "hl = go")
    case True
    have "h = hl" using h hl c [of "slots s"] True by (auto simp: short_def)
    then show ?thesis using t True changes_widen [OF t(2), of "bd_counter bs" "bd_counter bs2"] a1 a2
      by (auto simp: appends_def)
  next
    case False
    then have hl': "hl = (\<not> go)" by simp
    have "holds_node W (slots t) r = Some h"
      using changes_holds [OF t(2) pure, of W] h hl c [of "slots s"] hl' by (auto simp: short_def)
    then obtain u where u: "reaches W B (code2 @ Label skip # post) t (if h = go then Label skip # post else d) u"
      "changes (bd_counter bs1) (bd_counter bs2) t u"
      using cond_codeD [OF r _ B(2), of "Label skip # post" t h d] B(1) a1 d by (auto simp: appends_def)
    have "reaches W B (if h = go then Label skip # post else d) u (if h = go then post else d) u"
      by (simp add: reaches_Label reaches_refl)
    then have "reaches W B (code1 @ code2 @ Label skip # post) s (if h = go then post else d) u"
      using reaches_trans [OF reaches_trans [OF t(1) [unfolded hl', simplified] u(1)]] by blast
    moreover have "changes (bd_counter bs) (bd_counter bs2) s u"
      by (rule changes_trans [OF t(2) u(2)]) (use a1 a2 in \<open>auto simp: appends_def\<close>)
    ultimately show ?thesis by auto
  qed
qed

text \<open>A comparison of two operands, and the test of a value against 0.\<close>

lemma compare_code:
  fixes W :: "'m world"
  assumes l: "expr_code W l bs code1 v1 bs1" and r: "expr_code W r bs1 code2 v2 bs2" and pure: "pure_node r"
    and op: "\<And>a b. compare_words W op' a b = map_option (\<lambda>h. h = go) (compare_words W op a b)"
    and c: "\<And>sl. holds_node W sl c = both (compare_words W op) (eval_node W sl l) (eval_node W sl r)"
  shows "cond_code W c go target bs (code1 @ code2 @ [BranchFalse v1 op' v2 target])
    (bs2\<lparr>bd_out := bd_out bs2 @ [BranchFalse v1 op' v2 target]\<rparr>)"
  unfolding cond_code_def
proof (intro conjI allI impI)
  show "appends bs (bs2\<lparr>bd_out := bd_out bs2 @ [BranchFalse v1 op' v2 target]\<rparr>) (code1 @ code2 @ [BranchFalse v1 op' v2 target])"
    using code_appends(1) [OF l] code_appends(1) [OF r] by (simp add: appends_def)
  fix B post d h and s :: "'m ir_state"
  assume B: "B = bd_out bs @ (code1 @ code2 @ [BranchFalse v1 op' v2 target]) @ post" "distinct (label_names B)"
    and h: "holds_node W (slots s) c = Some h" and d: "h \<noteq> go \<longrightarrow> find_label target B = Some d"
  obtain w1 w2 where w: "eval_node W (slots s) l = Some w1" "eval_node W (slots s) r = Some w2" "compare_words W op w1 w2 = Some h"
    using h c by (auto simp: both_def bind_eq_Some_conv)
  obtain t where t: "reaches W B (code1 @ code2 @ BranchFalse v1 op' v2 target # post) s (BranchFalse v1 op' v2 target # post) t"
    "changes (bd_counter bs) (bd_counter bs2) s t" "eval_value W (slots t) v1 = Some w1" "eval_value W (slots t) v2 = Some w2"
    using operands_code [OF l r pure _ B(2) w(1,2), of "BranchFalse v1 op' v2 target # post"] B(1) by auto
  have "ir_holds W v1 op' v2 t = Some (h = go)" using t(3,4) w(3) op by (simp add: ir_holds_def)
  then have "reaches W B (BranchFalse v1 op' v2 target # post) t (if h = go then post else d) t"
    by (rule reaches_Branch) (use d in simp)
  from reaches_trans [OF t(1) this] t(2) show "\<exists>t. reaches W B ((code1 @ code2 @ [BranchFalse v1 op' v2 target]) @ post) s (if h = go then post else d) t \<and>
      changes (bd_counter bs) (bd_counter (bs2\<lparr>bd_out := bd_out bs2 @ [BranchFalse v1 op' v2 target]\<rparr>)) s t"
    by (intro exI [of _ t]) simp
qed

lemma test_code:
  fixes W :: "'m world"
  assumes e: "expr_code W c bs code v bs1"
    and op: "\<And>a. compare_words W op a 0 = Some ((a \<noteq> 0) = go)"
    and c: "\<And>sl. holds_node W sl c = truth (eval_node W sl c)"
  shows "cond_code W c go target bs (code @ [BranchFalse v op (VInt 0) target]) (bs1\<lparr>bd_out := bd_out bs1 @ [BranchFalse v op (VInt 0) target]\<rparr>)"
  unfolding cond_code_def
proof (intro conjI allI impI)
  show "appends bs (bs1\<lparr>bd_out := bd_out bs1 @ [BranchFalse v op (VInt 0) target]\<rparr>) (code @ [BranchFalse v op (VInt 0) target])"
    using code_appends(1) [OF e] by (simp add: appends_def)
  fix B post d h and s :: "'m ir_state"
  assume B: "B = bd_out bs @ (code @ [BranchFalse v op (VInt 0) target]) @ post" "distinct (label_names B)"
    and h: "holds_node W (slots s) c = Some h" and d: "h \<noteq> go \<longrightarrow> find_label target B = Some d"
  obtain w where w: "eval_node W (slots s) c = Some w" "h = (w \<noteq> 0)" using h c by (auto simp: truth_def)
  obtain t where t: "reaches W B (code @ BranchFalse v op (VInt 0) target # post) s (BranchFalse v op (VInt 0) target # post) t"
    "changes (bd_counter bs) (bd_counter bs1) s t" "eval_value W (slots t) v = Some w"
    using expr_codeD [OF e _ B(2) w(1), of "BranchFalse v op (VInt 0) target # post"] B(1) by auto
  have "ir_holds W v op (VInt 0) t = Some (h = go)" using t(3) w(2) op by (simp add: ir_holds_def)
  then have "reaches W B (BranchFalse v op (VInt 0) target # post) t (if h = go then post else d) t"
    by (rule reaches_Branch) (use d in simp)
  from reaches_trans [OF t(1) this] t(2) show "\<exists>t. reaches W B ((code @ [BranchFalse v op (VInt 0) target]) @ post) s (if h = go then post else d) t \<and>
      changes (bd_counter bs) (bd_counter (bs1\<lparr>bd_out := bd_out bs1 @ [BranchFalse v op (VInt 0) target]\<rparr>)) s t"
    by (intro exI [of _ t]) simp
qed

subsection \<open>Values\<close>

lemma leaf_code:
  "(\<And>sl. eval_value W sl v = eval_node W sl e) \<Longrightarrow> value_below (bd_counter bs) v \<Longrightarrow> expr_code W e bs [] v bs"
  unfolding expr_code_def appends_def using reaches_refl changes_refl by fastforce

lemma binary_code:
  fixes W :: "'m world"
  assumes l: "expr_code W l bs code1 v1 bs1" and r: "expr_code W r bs1 code2 v2 bs2" and pure: "pure_node r"
    and d: "d = temp_name (bd_counter bs2)"
  shows "expr_code W (BinaryOperation_node l op r) bs (code1 @ code2 @ [BinaryOperation d v1 op v2]) (VName d)
    (bs2\<lparr>bd_counter := Suc (bd_counter bs2), bd_out := bd_out bs2 @ [BinaryOperation d v1 op v2]\<rparr>)" (is "expr_code W _ bs _ _ ?bs'")
  unfolding expr_code_def
proof (intro conjI allI impI)
  note a1 = code_appends(1) [OF l] and a2 = code_appends(1) [OF r]
  show "appends bs ?bs' (code1 @ code2 @ [BinaryOperation d v1 op v2])" using a1 a2 by (simp add: appends_def)
  show "value_below (bd_counter ?bs') (VName d)" by (simp add: value_below_def d)
  fix B post w and s :: "'m ir_state"
  assume B: "B = bd_out bs @ (code1 @ code2 @ [BinaryOperation d v1 op v2]) @ post" "distinct (label_names B)"
    and w: "eval_node W (slots s) (BinaryOperation_node l op r) = Some w"
  obtain w1 w2 where ws: "eval_node W (slots s) l = Some w1" "eval_node W (slots s) r = Some w2" "binop W op w1 w2 = Some w"
    using w by (auto simp: eval_node_def both_def bind_eq_Some_conv Let_def)
  obtain t where t: "reaches W B (code1 @ code2 @ BinaryOperation d v1 op v2 # post) s (BinaryOperation d v1 op v2 # post) t"
    "changes (bd_counter bs) (bd_counter bs2) s t" "eval_value W (slots t) v1 = Some w1" "eval_value W (slots t) v2 = Some w2"
    using operands_code [OF l r pure _ B(2) ws(1,2), of "BinaryOperation d v1 op v2 # post"] B(1) by auto
  have "changes (bd_counter bs) (Suc (bd_counter bs2)) s (set_slot d w t)"
    by (rule changes_trans [OF t(2) changes_set_slot [of "bd_counter bs2" "bd_counter bs2" "Suc (bd_counter bs2)" t w, folded d]])
       (use a1 a2 in \<open>auto simp: appends_def\<close>)
  moreover note reaches_trans [OF t(1) reaches_Binary [OF t(3,4) ws(3)]]
  moreover have "eval_value W (slots (set_slot d w t)) (VName d) = Some w" by (simp add: set_slot_def)
  ultimately show "\<exists>t. reaches W B ((code1 @ code2 @ [BinaryOperation d v1 op v2]) @ post) s post t \<and>
      changes (bd_counter bs) (bd_counter ?bs') s t \<and> eval_value W (slots t) (VName d) = Some w"
    by (intro exI [of _ "set_slot d w t"]) simp
qed

text \<open>The value of a short-circuit expression is set on the two ways out of its condition.\<close>

definition set_truth :: "string \<Rightarrow> string \<Rightarrow> string \<Rightarrow> instr list" where
  "set_truth d true_lbl end_lbl = [Copy d (VInt 0), Jump end_lbl, Label true_lbl, Copy d (VInt 1), Label end_lbl]"

lemma logical_code:
  fixes W :: "'m world"
  assumes c: "cond_code W e False true_lbl bs1 code bs2" and bs1: "bd_out bs1 = bd_out bs" "bd_counter bs < bd_counter bs1"
      "bd_referenced bs1 = bd_referenced bs"
    and d: "d = temp_name (bd_counter bs)"
    and e: "\<And>sl. eval_node W sl e = number (holds_node W sl e)"
  shows "expr_code W e bs (code @ set_truth d true_lbl end_lbl) (VName d) (bs2\<lparr>bd_out := bd_out bs2 @ set_truth d true_lbl end_lbl\<rparr>)"
    (is "expr_code W _ bs _ _ ?bs'")
  unfolding expr_code_def
proof (intro conjI allI impI)
  note a = code_appends(2) [OF c]
  show "appends bs ?bs' (code @ set_truth d true_lbl end_lbl)" using a bs1 by (simp add: appends_def)
  show "value_below (bd_counter ?bs') (VName d)" using a bs1(2) by (simp add: value_below_def d appends_def)
  fix B post w and s :: "'m ir_state"
  assume B: "B = bd_out bs @ (code @ set_truth d true_lbl end_lbl) @ post" "distinct (label_names B)"
    and w: "eval_node W (slots s) e = Some w"
  obtain h where h: "holds_node W (slots s) e = Some h" "w = (if h then 1 else 0)"
    using w unfolding e by (auto simp: number_def)
  have tl: "find_label true_lbl B = Some (Copy d (VInt 1) # Label end_lbl # post)"
    using find_label_distinct [of "bd_out bs @ code @ [Copy d (VInt 0), Jump end_lbl]" true_lbl "Copy d (VInt 1) # Label end_lbl # post"] B
    by (simp add: set_truth_def)
  have el: "find_label end_lbl B = Some post"
    using find_label_distinct [of "bd_out bs @ code @ [Copy d (VInt 0), Jump end_lbl, Label true_lbl, Copy d (VInt 1)]" end_lbl post] B
    by (simp add: set_truth_def)
  obtain t where t: "reaches W B (code @ set_truth d true_lbl end_lbl @ post) s
      (if h = False then set_truth d true_lbl end_lbl @ post else Copy d (VInt 1) # Label end_lbl # post) t"
    "changes (bd_counter bs1) (bd_counter bs2) s t"
    using cond_codeD [OF c _ B(2) h(1), of "set_truth d true_lbl end_lbl @ post" "Copy d (VInt 1) # Label end_lbl # post"] tl B(1) bs1(1)
    by auto
  have "reaches W B (if h = False then set_truth d true_lbl end_lbl @ post else Copy d (VInt 1) # Label end_lbl # post) t post (set_slot d w t)"
  proof (cases h)
    case True
    have "eval_value W (slots t) (VInt 1) = Some w" using h(2) True by simp
    from reaches_trans [OF reaches_Copy [OF this] reaches_Label] show ?thesis using True by simp
  next
    case False
    have "eval_value W (slots t) (VInt 0) = Some w" using h(2) False by simp
    from reaches_trans [OF reaches_Copy [OF this] reaches_Jump [OF el]] show ?thesis using False by (simp add: set_truth_def)
  qed
  note reaches_trans [OF t(1) this]
  moreover have "changes (bd_counter bs) (bd_counter bs2) s (set_slot d w t)"
    by (rule changes_trans [OF t(2) changes_set_slot [of "bd_counter bs" "bd_counter bs" "Suc (bd_counter bs)" t w, folded d]])
       (use a bs1 in \<open>auto simp: appends_def\<close>)
  moreover have "eval_value W (slots (set_slot d w t)) (VName d) = Some w" by (simp add: set_slot_def)
  ultimately show "\<exists>t. reaches W B ((code @ set_truth d true_lbl end_lbl) @ post) s post t \<and>
      changes (bd_counter bs) (bd_counter ?bs') s t \<and> eval_value W (slots t) (VName d) = Some w"
    by (intro exI [of _ "set_slot d w t"]) simp
qed

end
