(* ===== verification/Ir_Eval_Correct.thy ===== *)
theory Ir_Eval_Correct
  imports Ir_Eval
begin

text \<open>
  The builder's methods for conditions and expressions compute the meaning of the tree, proved once for any
  methods they call that do, and then for the methods tied together.
\<close>

lemma cond_code_start:
  fixes W :: "'m world"
  assumes "cond_code W c go target (bs\<lparr>bd_counter := Suc (bd_counter bs)\<rparr>) code bs'"
  shows "cond_code W c go target bs code bs'"
  unfolding cond_code_def
proof (intro conjI allI impI)
  note ap = code_appends(2) [OF assms]
  show "appends bs bs' code" using ap by (simp add: appends_def)
  fix B post d h and s :: "'m ir_state"
  assume "B = bd_out bs @ code @ post" "distinct (label_names B)" "holds_node W (slots s) c = Some h"
    "h \<noteq> go \<longrightarrow> find_label target B = Some d"
  then obtain t where "reaches W B (code @ post) s (if h = go then post else d) t"
    and t: "changes (Suc (bd_counter bs)) (bd_counter bs') s t"
    using cond_codeD [OF assms, of B post s h d] by auto
  then show "\<exists>t. reaches W B (code @ post) s (if h = go then post else d) t \<and> changes (bd_counter bs) (bd_counter bs') s t"
    using changes_widen [OF t, of "bd_counter bs" "bd_counter bs'"] by auto
qed

locale pure_calls =
  fixes W :: "'m world" and calls :: builder_calls
  assumes expr: "pure_node e \<Longrightarrow> expr_computes W e (call_expr calls e)"
    and cond_false: "pure_node c \<Longrightarrow> cond_computes W c True target (call_cond_false calls c target)"
    and cond_true: "pure_node c \<Longrightarrow> cond_computes W c False target (call_cond_true calls c target)"
begin

lemmas expr_yields = expr [unfolded expr_computes_def]
lemmas cond_false_yields = cond_false [unfolded cond_computes_def]
lemmas cond_true_yields = cond_true [unfolded cond_computes_def]

lemma compare:
  assumes "pure_node l" "pure_node r"
    and op: "\<And>a b. compare_words W op' a b = map_option (\<lambda>h. h = go) (compare_words W op a b)"
    and c: "\<And>sl. holds_node W sl c = both (compare_words W op) (eval_node W sl l) (eval_node W sl r)"
  shows "cond_computes W c go target (build_compare calls l op' r target)"
  unfolding cond_computes_def build_compare_def
  by (rule yields_mono [OF yields_bind [OF expr_yields [OF assms(1)] yields_bind [OF expr_yields [OF assms(2)] yields_basic(2)]]])
     (use compare_code [OF _ _ assms(2) op c] in blast)

lemma test:
  assumes "pure_node c"
    and op: "\<And>a. compare_words W op a 0 = Some ((a \<noteq> 0) = go)"
    and c: "\<And>sl. holds_node W sl c = truth (eval_node W sl c)"
  shows "cond_computes W c go target (build_test calls c op target)"
  unfolding cond_computes_def build_test_def
  by (rule yields_mono [OF yields_bind [OF expr_yields [OF assms(1)] yields_basic(2)]]) (use test_code [OF _ op c] in blast)

lemma in_order_false:
  assumes "pure_node l" "pure_node r"
  shows "cond_computes W (LogicalAnd_node l r) True target
    (then_build (call_cond_false calls l target) (call_cond_false calls r target))"
  unfolding cond_computes_def
  by (rule yields_mono [OF yields_then [OF cond_false_yields [OF assms(1)] cond_false_yields [OF assms(2)]]])
     (use short_code_same [OF _ _ assms(2), where c = "LogicalAnd_node l r" and l = l and go = True] in
      \<open>fastforce simp: holds_node_def Let_def\<close>)

lemma in_order_true:
  assumes "pure_node l" "pure_node r"
  shows "cond_computes W (LogicalOr_node l r) False target
    (then_build (call_cond_true calls l target) (call_cond_true calls r target))"
  unfolding cond_computes_def
  by (rule yields_mono [OF yields_then [OF cond_true_yields [OF assms(1)] cond_true_yields [OF assms(2)]]])
     (use short_code_same [OF _ _ assms(2), where c = "LogicalOr_node l r" and l = l and go = False] in
      \<open>fastforce simp: holds_node_def Let_def\<close>)

lemma skip_false:
  assumes "pure_node l" "pure_node r"
  shows "cond_computes W (LogicalOr_node l r) True target
    (bind_build (new_label tag) (\<lambda>skip. then_build (call_cond_true calls l skip)
      (then_build (call_cond_false calls r target) (emit [Label skip]))))"
  unfolding cond_computes_def
proof (rule yields_mono [OF yields_bind [OF yields_basic(4) yields_then [OF cond_true_yields [OF assms(1)]
          yields_then [OF cond_false_yields [OF assms(2)] yields_basic(2)]]]])
qed (use short_code_skip [OF _ _ assms(2), where c = "LogicalOr_node l r" and l = l and go = True] cond_code_start in
      \<open>fastforce simp: holds_node_def Let_def\<close>)

lemma skip_true:
  assumes "pure_node l" "pure_node r"
  shows "cond_computes W (LogicalAnd_node l r) False target
    (bind_build (new_label tag) (\<lambda>skip. then_build (call_cond_false calls l skip)
      (then_build (call_cond_true calls r target) (emit [Label skip]))))"
  unfolding cond_computes_def
proof (rule yields_mono [OF yields_bind [OF yields_basic(4) yields_then [OF cond_false_yields [OF assms(1)]
          yields_then [OF cond_true_yields [OF assms(2)] yields_basic(2)]]]])
qed (use short_code_skip [OF _ _ assms(2), where c = "LogicalAnd_node l r" and l = l and go = False] cond_code_start in
      \<open>fastforce simp: holds_node_def Let_def\<close>)

lemma no_carry_call: "pure_node l \<Longrightarrow> \<not> is_carry_return_call C l"
  by (cases l) (auto simp: is_carry_return_call_def)

lemma compare_inverted:
  "op \<in> comparison_operations \<Longrightarrow>
   compare_words W (invert_operation op) a b = map_option (\<lambda>h. h = False) (compare_words W op a b)"
  by (auto simp: comparison_operations_def invert_operation_def compare_words_def)

lemma build_cond_false:
  assumes "pure_node c"
  shows "cond_computes W c True target (build_cond_false calls C c target)"
proof (cases c)
  case (BinaryOperation_node l op r)
  have pure: "pure_node l" "pure_node r" using assms BinaryOperation_node by auto
  show ?thesis
  proof (cases "op \<in> comparison_operations")
    case True
    have "build_cond_false calls C c target = build_compare calls l op r target"
      using True no_carry_call [OF pure(1)] by (simp add: build_cond_false_def BinaryOperation_node)
    moreover have "cond_computes W c True target (build_compare calls l op r target)"
      by (rule compare [OF pure])
         (simp_all add: BinaryOperation_node True holds_node_def eval_node_def Let_def option.map_ident)
    ultimately show ?thesis by simp
  next
    case False
    have "build_cond_false calls C c target = build_test calls c ''!='' target"
      using False no_carry_call [OF pure(1)] by (simp add: build_cond_false_def BinaryOperation_node)
    moreover have "cond_computes W c True target (build_test calls c ''!='' target)"
      by (rule test [OF assms])
         (simp_all add: BinaryOperation_node False holds_node_def eval_node_def Let_def compare_words_def)
    ultimately show ?thesis by simp
  qed
qed (use assms in \<open>auto simp: build_cond_false_def holds_node_def eval_node_def compare_words_def
       intro!: test in_order_false skip_false\<close>)

lemma build_cond_true:
  assumes "pure_node c"
  shows "cond_computes W c False target (build_cond_true calls C c target)"
proof (cases c)
  case (BinaryOperation_node l op r)
  have pure: "pure_node l" "pure_node r" using assms BinaryOperation_node by auto
  show ?thesis
  proof (cases "op \<in> comparison_operations")
    case True
    have "build_cond_true calls C c target = build_compare calls l (invert_operation op) r target"
      using True no_carry_call [OF pure(1)] by (simp add: build_cond_true_def BinaryOperation_node)
    moreover have "cond_computes W c False target (build_compare calls l (invert_operation op) r target)"
      by (rule compare [OF pure compare_inverted [OF True]])
         (simp add: BinaryOperation_node True holds_node_def eval_node_def Let_def)
    ultimately show ?thesis by simp
  next
    case False
    have "build_cond_true calls C c target = build_test calls c ''=='' target"
      using False no_carry_call [OF pure(1)] by (simp add: build_cond_true_def BinaryOperation_node)
    moreover have "cond_computes W c False target (build_test calls c ''=='' target)"
      by (rule test [OF assms])
         (simp_all add: BinaryOperation_node False holds_node_def eval_node_def Let_def compare_words_def)
    ultimately show ?thesis by simp
  qed
qed (use assms in \<open>auto simp: build_cond_true_def holds_node_def eval_node_def compare_words_def
       intro!: test in_order_true skip_true\<close>)

subsection \<open>Expressions\<close>

lemma leaf:
  "(\<And>sl. eval_value W sl v = eval_node W sl e) \<Longrightarrow> value_below 0 v \<Longrightarrow> expr_computes W e (return_build v)"
  unfolding expr_computes_def
  by (rule yields_mono [OF yields_basic(1)]) (use leaf_code value_below_later in blast)

lemma binary:
  assumes "pure_node l" "pure_node r"
  shows "expr_computes W (BinaryOperation_node l op r)
    (bind_build (call_expr calls l) (\<lambda>v1. bind_build (call_expr calls r) (\<lambda>v2.
     bind_build new_tmp (\<lambda>d. then_build (emit [BinaryOperation d v1 op v2]) (return_build (VName d))))))"
  unfolding expr_computes_def
  by (rule yields_mono [OF yields_bind [OF expr_yields [OF assms(1)] yields_bind [OF expr_yields [OF assms(2)]
          yields_bind [OF yields_basic(3) yields_then [OF yields_basic(2) yields_basic(1)]]]]])
     (use binary_code [OF _ _ assms(2)] in fastforce)

lemma logical:
  assumes "pure_node e" "\<And>sl. eval_node W sl e = number (holds_node W sl e)"
  shows "expr_computes W e (build_logical calls e)"
  unfolding expr_computes_def build_logical_def set_truth_def [symmetric]
  by (rule yields_mono [OF yields_bind [OF yields_basic(3) yields_bind [OF yields_basic(4) yields_bind [OF yields_basic(4)
          yields_then [OF cond_true_yields [OF assms(1)] yields_then [OF yields_basic(2) yields_basic(1)]]]]]])
     (use logical_code [OF _ _ _ _ _ assms(2)] in fastforce)

lemma build_expr:
  assumes "pure_node e"
  shows "expr_computes W e (build_expr calls C e)"
proof (cases e)
  case (LogicalAnd_node l r)
  have "expr_computes W e (build_logical calls e)"
    by (rule logical [OF assms]) (simp add: LogicalAnd_node eval_node_def holds_node_def Let_def)
  then show ?thesis by (simp add: build_expr_def LogicalAnd_node)
next
  case (LogicalOr_node l r)
  have "expr_computes W e (build_logical calls e)"
    by (rule logical [OF assms]) (simp add: LogicalOr_node eval_node_def holds_node_def Let_def)
  then show ?thesis by (simp add: build_expr_def LogicalOr_node)
qed (use assms in \<open>auto simp: build_expr_def eval_node_def value_below_def intro!: leaf binary\<close>)

end

subsection \<open>The methods tied together\<close>

lemma call_Suc:
  "call_expr (methods C (Suc n)) e = build_expr (methods C n) C e"
  "call_cond_false (methods C (Suc n)) c t = build_cond_false (methods C n) C c t"
  "call_cond_true (methods C (Suc n)) c t = build_cond_true (methods C n) C c t"
  by (rule ext, simp add: call_expr_def call_cond_false_def call_cond_true_def then_build_def bind_build_def
      return_build_def split: sum.split)+

lemma methods_pure: "pure_calls W (methods C n)"
proof (induction n)
  case 0
  show ?case
    by unfold_locales (simp_all add: expr_computes_def cond_computes_def yields_def call_expr_def call_cond_false_def
        call_cond_true_def bind_build_def raise_build_def)
next
  case (Suc n)
  show ?case
    by unfold_locales (simp_all only: call_Suc pure_calls.build_expr [OF Suc] pure_calls.build_cond_false [OF Suc]
        pure_calls.build_cond_true [OF Suc])
qed

interpretation pure_methods: pure_calls W "methods C n" for W C n
  by (rule methods_pure)

subsection \<open>Functions that return an expression\<close>

lemma label_names_all: "set (label_names b) \<subseteq> set (all_labels b)"
proof (induction b)
  case (Cons i b)
  then show ?case by (cases i) auto
qed simp

lemma distinct_label_names: "distinct (all_labels b) \<Longrightarrow> distinct (label_names b)"
proof (induction b)
  case (Cons i b)
  then show ?case using label_names_all [of b] by (cases i) auto
qed simp

text \<open>With enough frames the methods return, and the code they emit computes the value.\<close>

lemma expr_returns:
  assumes "pure_node e" "3 * size e + 2 \<le> n"
  obtains v bs' code where "call_expr (methods C n) e bs = Inr (v, bs')" "expr_code W e bs code v bs'"
proof (cases "call_expr (methods C n) e bs")
  case (Inl err)
  have "in_frames (call_expr (methods C n) e)" by (rule tied.expr [OF assms(2)])
  then have "err \<noteq> Recursion_error" using Inl by (auto simp: in_frames_def)
  then show thesis using pure_methods.expr [OF assms(1), of W C n] Inl by (auto simp: expr_computes_def yields_def dest: spec [of _ bs])
next
  case (Inr x)
  then show thesis using that pure_methods.expr [OF assms(1), of W C n]
    by (cases x) (auto simp: expr_computes_def yields_def dest!: spec [of _ bs])
qed

lemma return_stmt:
  assumes "pure_node e" "call_expr (methods C n) e bs = Inr (v, bs')"
  shows "call_stmt (methods C (Suc n)) b k (Return_node (Some e)) bs = Inr ((), bs'\<lparr>bd_out := bd_out bs' @ [Return (Some v)]\<rparr>)"
proof -
  have "\<not> is_long_pointee_index C e" using assms(1) by (cases e) (auto simp: is_long_pointee_index_def)
  then show ?thesis using assms(2)
    by (simp add: call_stmt_def build_stmt_def build_return_def then_build_def bind_build_def emit_def return_build_def)
qed

lemma exec_return: "eval_value W (slots t) v = Some w \<Longrightarrow> exec (next_conf (ir_machine W)) B (Return (Some v) # x) t (Some (Some w), t)"
  by (rule exec_stop) (simp add: plain_step_def ir_act_def)

lemma returned_value:
  assumes "expr_code W e bs code v bs'" "B = bd_out bs @ code @ Return (Some v) # post" "distinct (label_names B)"
    "eval_node W (slots s) e = Some w"
  shows "\<exists>t. exec (next_conf (ir_machine W)) B (code @ Return (Some v) # post) s (Some (Some w), t) \<and>
    changes (bd_counter bs) (bd_counter bs') s t"
proof -
  obtain t where "reaches W B (code @ Return (Some v) # post) s (Return (Some v) # post) t"
    "changes (bd_counter bs) (bd_counter bs') s t" "eval_value W (slots t) v = Some w"
    using expr_codeD [OF assms] by blast
  then show ?thesis using exec_return [of W t v w] unfolding reaches_def by blast
qed

definition same_program_state :: "'m ir_state \<Rightarrow> 'm ir_state \<Rightarrow> bool" where
  "same_program_state s t = (store t = store s \<and> (\<forall>x. \<not> is_temp x \<longrightarrow> slots t x = slots s x))"

lemma changes_program_state: "changes m n s t \<Longrightarrow> same_program_state s t"
  using changes_variable [of m n s t] by (auto simp: same_program_state_def) (simp add: changes_def)

text \<open>A program of one function.\<close>

definition first_builder :: builder where
  "first_builder = \<lparr>bd_counter = 0, bd_str_counter = 0, bd_out = [], bd_strings = [], bd_defined = [], bd_referenced = []\<rparr>"

lemma build_single_function:
  assumes "build_stmts (methods \<lparr>cx_carry = carry, cx_types = variable_types params body\<rparr> frames) None None body first_builder = Inr ((), bs)"
    "bd_referenced bs = []"
  shows "\<exists>p fn. build_program carry frames (Program_node [Function_node ai body cr ip iv nk name params pr rc] globals) = Inr p \<and>
    prog_functions p = [fn] \<and> fn_body fn = bd_out bs \<and> distinct (label_names (bd_out bs))"
proof -
  define f where "f = Function_node ai body cr ip iv nk name params pr rc"
  define fn where "fn = \<lparr>fn_ast_node = f, fn_body = bd_out bs, fn_strings = bd_strings bs\<rparr>"
  have fn: "build_function carry frames f (0, 0) = Inr (fn, (bd_counter bs, bd_str_counter bs))"
    using assms by (simp add: build_function_def f_def fn_def first_builder_def Let_def)
  have "distinct (label_names (fn_body fn))" using build_function_labels [OF fn] distinct_label_names by blast
  then show ?thesis using fn by (simp add: build_program_def f_def fn_def)
qed

text \<open>
  C5. Lowering an expression is correct: for \<open>return e;\<close> over arithmetic, comparisons, \<open>&&\<close> and \<open>||\<close>, the
  builder returns a body whose run returns the value of \<open>e\<close>, with the store and the variables of the program
  as they were.
\<close>

theorem lowered_return_computes:
  assumes "pure_node e" "eval_node W (slots s) e = Some w"
    "program = Program_node [Function_node ai [Return_node (Some e)] cr ip iv nk name params pr rc] globals"
    "3 * size program \<le> frames"
  shows "\<exists>p fn t. build_program carry frames program = Inr p \<and> prog_functions p = [fn] \<and>
    runs (ir_machine W) (fn_body fn) s (Some (Some w), t) \<and> same_program_state s t"
proof -
  define C where "C = \<lparr>cx_carry = carry, cx_types = variable_types params [Return_node (Some e)]\<rparr>"
  obtain n where n: "frames = Suc n" "3 * size e + 2 \<le> n" using assms(3,4) by (cases frames) auto
  obtain v bs' code where e: "call_expr (methods C n) e first_builder = Inr (v, bs')"
    and code: "expr_code W e first_builder code v bs'"
    using expr_returns [OF assms(1) n(2), where C = C and bs = first_builder and W = W] by blast
  note ap = code_appends(1) [OF code, unfolded appends_def first_builder_def, simplified]
  have "build_stmts (methods C frames) None None [Return_node (Some e)] first_builder =
      Inr ((), bs'\<lparr>bd_out := code @ [Return (Some v)]\<rparr>)"
    using return_stmt [OF assms(1) e, of None None] ap by (simp add: n(1) then_build_def bind_build_def return_build_def)
  from build_single_function [OF this [unfolded C_def]] ap
  obtain p fn where p: "build_program carry frames program = Inr p" "prog_functions p = [fn]"
    "fn_body fn = code @ [Return (Some v)]" "distinct (label_names (code @ [Return (Some v)]))"
    unfolding assms(3) by fastforce
  obtain t where "exec (next_conf (ir_machine W)) (fn_body fn) (code @ [Return (Some v)]) s (Some (Some w), t)"
    "changes (bd_counter first_builder) (bd_counter bs') s t"
    using returned_value [OF code _ _ assms(2), of "fn_body fn" "[]"] p(3,4) by (auto simp: first_builder_def)
  then show ?thesis using p changes_program_state unfolding runs_def by metis
qed

text \<open>\<open>return a && (b != c || a == 3);\<close>\<close>

definition sample_expression :: node where
  "sample_expression = LogicalAnd_node (Var_node ''a'')
     (LogicalOr_node (BinaryOperation_node (Var_node ''b'') ''!='' (Var_node ''c''))
        (BinaryOperation_node (Var_node ''a'') ''=='' (Int_node 3)))"

lemma lowered_return_computes_witness:
  "\<forall>W :: unit world. \<exists>p fn t. build_program [] 99 (Program_node [Function_node False [Return_node (Some sample_expression)] False False False False
      ''f'' [] [] 0] []) = Inr p \<and> prog_functions p = [fn] \<and>
    runs (ir_machine W) (fn_body fn) \<lparr>slots = [''a'' \<mapsto> 3, ''b'' \<mapsto> 1, ''c'' \<mapsto> 1], store = ()\<rparr> (Some (Some 1), t)"
proof
  fix W :: "unit world"
  define s where "s = \<lparr>slots = [''a'' \<mapsto> (3 :: word32), ''b'' \<mapsto> 1, ''c'' \<mapsto> 1], store = ()\<rparr>"
  have "pure_node sample_expression" by (simp add: sample_expression_def is_temp_def temp_prefix_def starts_with_def)
  moreover have "eval_node W (slots s) sample_expression = Some 1"
    by (simp add: s_def sample_expression_def eval_node_def comparison_operations_def truth_def number_def short_def both_def
        compare_words_def Let_def)
  ultimately show "\<exists>p fn t. build_program [] 99 (Program_node [Function_node False [Return_node (Some sample_expression)] False False False False
      ''f'' [] [] 0] []) = Inr p \<and> prog_functions p = [fn] \<and> runs (ir_machine W) (fn_body fn) \<lparr>slots = [''a'' \<mapsto> 3, ''b'' \<mapsto> 1, ''c'' \<mapsto> 1], store = ()\<rparr> (Some (Some 1), t)"
    using lowered_return_computes [of sample_expression W s 1 _ False False False False False "''f''" "[]" "[]" 0 "[]" 99 "[]"]
    unfolding s_def by (fastforce simp: sample_expression_def)
qed

end
