(* ===== verification/Lowering_Findings.thy ===== *)
theory Lowering_Findings
  imports Ir_Lowering Ssa_Passes
begin

text \<open>
  A program the builder lowers and the optimizer cannot process: the builder keeps the cases of a switch in
  instruction lists of their own, so that a label in a case is no label of the function's body.
\<close>

text \<open>\<open>if (x) goto a; switch (x) { case 1: a: return 1; } return 0;\<close>\<close>

definition goto_into_switch :: node where
  "goto_into_switch = Program_node [Function_node False
     [If_node [Goto_node ''a''] (BinaryOperation_node (Var_node ''x'') ''!='' (Int_node 0)) None,
      Switch_node [SwitchCase_node [Label_node ''a'', Return_node (Some (Int_node 1))] (Some 1)] (Var_node ''x''),
      Return_node (Some (Int_node 0))] False False False False ''f'' [] [] 0] []"

text \<open>
  C36. A \<open>goto\<close> into a case of a switch passes the builder's check of labels, and the optimizer then raises
  the \<^verbatim>\<open>KeyError\<close> of a missing label, whether the branch over the jump has been inverted or not.
\<close>

theorem goto_into_switch_stops_optimizer:
  "\<exists>p fn sw. build_program [] 40 goto_into_switch = Inr p \<and> prog_functions p = [fn] \<and>
     fn_body fn = [BranchFalse (VName ''x'') ''!='' (VInt 0) ''._ir_endif0'', Jump ''.user_a'', Label ''._ir_endif0'', sw,
       Return (Some (VInt 0))] \<and>
     optimize_ssa [] (fn_body fn) = None \<and>
     optimize_ssa [] [BranchFalse (VName ''x'') ''=='' (VInt 0) ''.user_a'', sw, Return (Some (VInt 0))] = None"
proof -
  define r where "r = build_program [] 40 goto_into_switch"
  define sw where "sw = Switch [SwitchCase [Label ''.user_a'', Return (Some (VInt 1))] (Some 1)] (Var_node ''x'') ''._ir_swend1''
    (Switch_node [SwitchCase_node [Label_node ''a'', Return_node (Some (Int_node 1))] (Some 1)] (Var_node ''x''))"
  define body where "body = [BranchFalse (VName ''x'') ''!='' (VInt 0) ''._ir_endif0'', Jump ''.user_a'', Label ''._ir_endif0'', sw,
    Return (Some (VInt 0))]"
  have *: "(case r of Inr p \<Rightarrow> (case prog_functions p of [fn] \<Rightarrow> fn_body fn = body | _ \<Rightarrow> False) | _ \<Rightarrow> False)"
    unfolding r_def body_def sw_def by code_simp
  obtain p where r: "r = Inr p" using * by (cases r) simp_all
  obtain fn where p: "prog_functions p = [fn]" and fn: "fn_body fn = body"
    using * unfolding r sum.case by (cases "prog_functions p" rule: remdups_adj.cases) simp_all
  have "optimize_ssa [] body = None" unfolding body_def sw_def by code_simp
  then have 1: "optimize_ssa [] (fn_body fn) = None" by (simp only: fn)
  have 2: "optimize_ssa [] [BranchFalse (VName ''x'') ''=='' (VInt 0) ''.user_a'', sw, Return (Some (VInt 0))] = None"
    unfolding sw_def by code_simp
  show ?thesis
    by (intro exI conjI) (fact r [unfolded r_def] p fn [unfolded body_def] 1 2)+
qed

end
