(* ===== verification/Loops.thy ===== *)
theory Loops
  imports Ssa
begin

text \<open>
  Natural loops, preheaders and the hoisting of loop invariants, from \<^verbatim>\<open>cc/loops.py\<close>.  Blocks are positions
  of a graph's store.  The code's sets of blocks are lists in the order of the source; an instruction, which
  the code tells apart by identity, is told apart by its value, which is the same for those that are hoisted,
  since the name they define is defined once.  None is a run that raises or does not return; where the code
  goes through the exits of a loop, a set, the model goes through them in the order of the source.
\<close>

subsection \<open>Natural loops\<close>

record natural_loop =
  nl_body :: "nat list"
  nl_exits :: "nat list"
  nl_header :: nat
  nl_latches :: "nat list"

partial_function (option) idom_chain :: "(nat \<times> nat) list \<Rightarrow> nat \<Rightarrow> nat list option" where
  "idom_chain idom k =
     Option.bind (map_of idom k) (\<lambda>parent.
       if parent = k then Some [k] else Option.bind (idom_chain idom parent) (\<lambda>chain. Some (k # chain)))"

declare idom_chain.simps [code]

definition dominator_sets :: "(nat \<times> nat) list \<Rightarrow> (nat \<times> nat list) list option" where
  "dominator_sets idom = sequence_opt (map (\<lambda>(k, _). map_option (Pair k) (idom_chain idom k)) idom)"

definition back_edges :: "cfg \<Rightarrow> (nat \<times> nat list) list \<Rightarrow> (nat \<times> nat) list" where
  "back_edges g dominators_of =
     concat (map (\<lambda>k. case map_of dominators_of k of
         None \<Rightarrow> []
       | Some doms \<Rightarrow> map (Pair k) (filter (\<lambda>s. s \<in> set doms) (succs_of g k))) (g_order g))"

text \<open>The walk from the latches against the edges: what is in the body, and what is still to look at.\<close>

fun push_predecessors :: "nat \<Rightarrow> nat list \<Rightarrow> nat list \<Rightarrow> nat list \<Rightarrow> nat list \<times> nat list" where
  "push_predecessors header [] body stack = (body, stack)"
| "push_predecessors header (p # ps) body stack =
     (if p = header \<or> p \<in> set body then push_predecessors header ps body stack
      else push_predecessors header ps (p # body) (p # stack))"

definition all_preds :: "cfg \<Rightarrow> nat set" where
  "all_preds g = (\<Union>bb \<in> set (g_store g). set (b_preds bb))"

lemma preds_of_subset: "set (preds_of g k) \<subseteq> all_preds g"
  by (auto simp: preds_of_def all_preds_def intro!: bexI [OF _ nth_mem])

lemma push_predecessors_measure:
  "push_predecessors header ps body stack = (body', stack') \<Longrightarrow> set ps \<subseteq> U \<Longrightarrow>
   set body \<subseteq> set body' \<and> (length stack' = length stack \<or> (\<exists>x \<in> U. x \<notin> set body \<and> x \<in> set body'))"
  by (induction header ps body stack rule: push_predecessors.induct) (auto split: if_splits)

lemma push_predecessors_smaller:
  assumes "push_predecessors header (preds_of g k) body stack = (body', stack')"
  shows "card (all_preds g - set body') < card (all_preds g - set body) \<or>
    (card (all_preds g - set body') = card (all_preds g - set body) \<and> length stack' = length stack)"
proof -
  have fin: "finite (all_preds g)" by (simp add: all_preds_def)
  note m = push_predecessors_measure [OF assms preds_of_subset]
  then consider (grows) x where "x \<in> all_preds g" "x \<notin> set body" "x \<in> set body'" | (same) "length stack' = length stack"
    by blast
  then show ?thesis
  proof cases
    case grows
    have "all_preds g - set body' \<subset> all_preds g - set body" using m grows by blast
    then show ?thesis using fin by (simp add: psubset_card_mono)
  next
    case same
    have "card (all_preds g - set body') \<le> card (all_preds g - set body)" using m fin by (intro card_mono) auto
    then show ?thesis using same by linarith
  qed
qed

function loop_walk :: "cfg \<Rightarrow> nat \<Rightarrow> nat list \<Rightarrow> nat list \<Rightarrow> nat list" where
  "loop_walk g header body [] = body"
| "loop_walk g header body (k # stack) =
     loop_walk g header (fst (push_predecessors header (preds_of g k) body stack))
       (snd (push_predecessors header (preds_of g k) body stack))"
  by pat_completeness auto
termination
proof (relation "inv_image (less_than <*lex*> less_than)
    (\<lambda>(g, header, body, stack). (card (all_preds g - set body), length stack))", goal_cases)
  case (2 g header body k stack)
  show ?case
    using push_predecessors_smaller [of header g k body stack] by (cases "push_predecessors header (preds_of g k) body stack") auto
qed auto

definition loop_body :: "cfg \<Rightarrow> nat \<Rightarrow> nat list \<Rightarrow> nat list" where
  "loop_body g header latches =
     loop_walk g header (header # latches) (rev (filter (\<lambda>latch. latch \<noteq> header) latches))"

definition loop_exits :: "cfg \<Rightarrow> nat list \<Rightarrow> nat list" where
  "loop_exits g body = filter (\<lambda>k. \<exists>s \<in> set (succs_of g k). s \<notin> set body) body"

definition natural_loops :: "cfg \<Rightarrow> natural_loop list option" where
  "natural_loops g =
     Option.bind (compute_dominators g) (\<lambda>idom.
     Option.bind (dominator_sets idom) (\<lambda>dominators_of.
       let edges = back_edges g dominators_of in
       Some (map (\<lambda>header.
           let latches = remdups (map fst (filter (\<lambda>(_, h). h = header) edges));
               body = filter (\<lambda>k. k \<in> set (loop_body g header latches)) (g_order g)
           in \<lparr>nl_body = body, nl_exits = loop_exits g body, nl_header = header, nl_latches = latches\<rparr>)
         (filter (\<lambda>k. k \<in> snd ` set edges) (g_order g)))))"

subsection \<open>Preheaders\<close>

definition preheader_label :: "nat \<Rightarrow> string" where
  "preheader_label counter = ''.licm_preheader_'' @ show_nat counter"

text \<open>The explicit jump of the block in front of the header, when it falls through to it.\<close>

definition materialize_fall_through :: "nat \<Rightarrow> nat \<Rightarrow> cfg \<Rightarrow> cfg" where
  "materialize_fall_through header header_index g =
     (if header_index = 0 then g
      else let previous = g_order g ! (header_index - 1) in
        if previous < length (g_store g) \<and> b_term (g_store g ! previous) = None \<and> header \<in> set (succs_of g previous)
        then update_block previous (\<lambda>bb. bb\<lparr>b_term := Some (Jump (label_of g header))\<rparr>) g
        else g)"

text \<open>One predecessor is led to the preheader; \<^verbatim>\<open>list.index\<close> raises when there is no such edge.\<close>

fun redirect_predecessors :: "nat \<Rightarrow> nat \<Rightarrow> string \<Rightarrow> string \<Rightarrow> nat list \<Rightarrow> cfg \<Rightarrow> cfg option" where
  "redirect_predecessors header preheader header_label label [] g = Some g"
| "redirect_predecessors header preheader header_label label (p # ps) g =
     (if header \<notin> set (succs_of g p) then None
      else redirect_predecessors header preheader header_label label ps
        (update_block p (\<lambda>bb. bb\<lparr>b_succs := replace_first header preheader (b_succs bb),
           b_term := map_option (retarget header_label label) (b_term bb)\<rparr>) g))"

definition insert_preheader :: "natural_loop \<Rightarrow> nat \<Rightarrow> cfg \<Rightarrow> (nat \<times> cfg) option" where
  "insert_preheader loop counter g =
     (let header = nl_header loop;
          outside = filter (\<lambda>p. p \<notin> set (nl_latches loop)) (preds_of g header)
      in Option.bind (position header (g_order g)) (\<lambda>header_index.
         let g1 = materialize_fall_through header header_index g;
             preheader = length (g_store g);
             label = preheader_label counter;
             g2 = g1\<lparr>g_store := g_store g1 @ [\<lparr>b_label = label, b_instrs = [], b_term = Some (Jump (label_of g header)),
               b_succs = [header], b_preds = outside\<rparr>]\<rparr>
         in Option.bind (redirect_predecessors header preheader (label_of g header) label outside g2) (\<lambda>g3.
            let g4 = update_block header (\<lambda>bb. bb\<lparr>b_preds :=
                  preheader # filter (\<lambda>p. p \<in> set (nl_latches loop)) (b_preds bb)\<rparr>) g3
            in Some (preheader, g4\<lparr>g_order := insert_before header preheader (g_order g4)\<rparr>))))"

text \<open>The loops that get a preheader with it, and the graph.\<close>

fun insert_preheaders :: "natural_loop list \<Rightarrow> nat \<Rightarrow> cfg \<Rightarrow> ((natural_loop \<times> nat) list \<times> cfg) option" where
  "insert_preheaders [] counter g = Some ([], g)"
| "insert_preheaders (loop # loops) counter g =
     (if \<forall>p \<in> set (preds_of g (nl_header loop)). p \<in> set (nl_latches loop) then insert_preheaders loops counter g
      else Option.bind (insert_preheader loop counter g) (\<lambda>(preheader, g).
        Option.bind (insert_preheaders loops (Suc counter) g) (\<lambda>(rest, g). Some ((loop, preheader) # rest, g))))"

subsection \<open>Names an instruction mentions\<close>

text \<open>The string-valued fields of a node; a list or tuple of strings is not one.\<close>

fun string_fields :: "node \<Rightarrow> string list" where
  "string_fields (ArrayDecl_node _ _ _ name _ type_name) = [name, type_name]"
| "string_fields (AsmOperand_node con _ name) = con # opt_name name"
| "string_fields (Assign_node _ name) = [name]"
| "string_fields (BinaryOperation_node _ op _) = [op]"
| "string_fields (Call_node _ name) = [name]"
| "string_fields (Cast_node _ target_type) = [target_type]"
| "string_fields (DerefIncrement_node _ _ x) = [x]"
| "string_fields (DerefIncrementAssign_node _ _ _ x) = [x]"
| "string_fields (EnumDecl_node name _) = [name]"
| "string_fields (ExtendedAsm_node _ _ _ _ template) = [template]"
| "string_fields (Function_node _ _ _ _ _ _ name _ _ _) = [name]"
| "string_fields (Goto_node name) = [name]"
| "string_fields (InlineAsm_node content) = [content]"
| "string_fields (Label_node name) = [name]"
| "string_fields (MemberPlace_node _ member_name) = [member_name]"
| "string_fields (Param_node _ in_register _ name out_register _ type_name) =
     opt_name in_register @ name # opt_name out_register @ [type_name]"
| "string_fields (SizeofType_node type_name) = [type_name]"
| "string_fields (SizeofVar_node name) = [name]"
| "string_fields (String_node content) = [content]"
| "string_fields (StructDecl_node _ name) = [name]"
| "string_fields (StructField_node _ field_name type_name) = opt_name field_name @ [type_name]"
| "string_fields (TailCall_node _ name) = [name]"
| "string_fields (VaArg_node _ type_name) = [type_name]"
| "string_fields (Var_node name) = [name]"
| "string_fields (VarDecl_node asm_register asm_symbol _ _ _ name pinned_register _ type_name) =
     opt_name asm_register @ opt_name asm_symbol @ name # opt_name pinned_register @ [type_name]"
| "string_fields (VariablePlace_node name) = [name]"
| "string_fields _ = []"

function iter_ast_referenced_names :: "node \<Rightarrow> string list" where
  "iter_ast_referenced_names n = string_fields n @ concat (map iter_ast_referenced_names (ast_children n))"
  by pat_completeness auto
termination
  by (relation "measure size") (auto dest: ast_children_smaller)

declare iter_ast_referenced_names.simps [simp del]

text \<open>The same walk from an instruction: its string fields, the nodes in its fields, and the bodies of its cases.\<close>

definition value_string :: "ir_value \<Rightarrow> string list" where
  "value_string v = (case v of VName x \<Rightarrow> [x] | _ \<Rightarrow> [])"

definition value_node :: "ir_value \<Rightarrow> node list" where
  "value_node v = (case v of VAddr n \<Rightarrow> [n] | _ \<Rightarrow> [])"

definition instr_strings :: "instr \<Rightarrow> string list" where
  "instr_strings i =
     (case i of
        Address b d _ _ \<Rightarrow> concat (map value_string (opt_value b)) @ [d]
      | AddressOf a d \<Rightarrow> value_string a @ [d]
      | BinaryOperation d l op r \<Rightarrow> d # value_string l @ op # value_string r
      | BranchFalse l op r t \<Rightarrow> value_string l @ op # value_string r @ [t]
      | Call _ d name \<Rightarrow> opt_name d @ [name]
      | CarryBranch _ t w \<Rightarrow> [t, w]
      | Copy d s \<Rightarrow> d # value_string s
      | IncrementDecrement a _ _ \<Rightarrow> value_string a
      | Index b d ix \<Rightarrow> b # d # value_string ix
      | IndexAssign b ix s \<Rightarrow> b # value_string ix @ value_string s
      | IndirectCall a \<Rightarrow> value_string a
      | InlineAsm content \<Rightarrow> [content]
      | Jump t \<Rightarrow> [t]
      | Label name \<Rightarrow> [name]
      | Load a d _ _ \<Rightarrow> value_string a @ [d]
      | LoopBoundary c e _ \<Rightarrow> opt_name c @ [e]
      | RepString op _ d s c f _ _ \<Rightarrow> op # d # opt_name s @ value_string c @ concat (map value_string (opt_value f))
      | Return v \<Rightarrow> concat (map value_string (opt_value v))
      | Store a v _ \<Rightarrow> value_string a @ value_string v
      | Switch _ _ e _ \<Rightarrow> [e]
      | TailCall _ name \<Rightarrow> [name]
      | _ \<Rightarrow> [])"

definition instr_nodes :: "instr \<Rightarrow> node list" where
  "instr_nodes i =
     (case i of
        Access n \<Rightarrow> [n]
      | Block n \<Rightarrow> [n]
      | CarryBranch n _ _ \<Rightarrow> [n]
      | Address _ _ _ shape \<Rightarrow> concat (map value_node (value_fields i)) @ [shape]
      | Switch _ discriminant _ original_ast \<Rightarrow> [discriminant, original_ast]
      | RepString _ _ _ _ _ _ _ final_iv \<Rightarrow>
          concat (map value_node (value_fields i)) @ (case final_iv of None \<Rightarrow> [] | Some (_, v) \<Rightarrow> value_node v)
      | _ \<Rightarrow> concat (map value_node (value_fields i)))"

function nested_instrs :: "instr list \<Rightarrow> instr list" where
  "nested_instrs [] = []"
| "nested_instrs (i # b) =
     i # (case i of Switch cases _ _ _ \<Rightarrow> concat (map (\<lambda>c. nested_instrs (case_body c)) cases) | _ \<Rightarrow> []) @ nested_instrs b"
  by pat_completeness auto
termination
  by (relation "measure (size_list size)") (use switch_body_smaller in auto)

declare nested_instrs.simps [simp del]

definition referenced_names :: "instr \<Rightarrow> string list" where
  "referenced_names i =
     concat (map (\<lambda>j. instr_strings j @ concat (map iter_ast_referenced_names (instr_nodes j))) (nested_instrs [i]))"

definition is_opaque :: "instr \<Rightarrow> bool" where
  "is_opaque i =
     (case i of Access _ \<Rightarrow> True | Block _ \<Rightarrow> True | CarryBranch _ _ _ \<Rightarrow> True | Switch _ _ _ _ \<Rightarrow> True | _ \<Rightarrow> False)"

subsection \<open>Hoisting invariants\<close>

definition block_instrs :: "cfg \<Rightarrow> nat \<Rightarrow> instr list" where
  "block_instrs g k = b_instrs (g_store g ! k)"

definition count_destination_definitions :: "cfg \<Rightarrow> string \<Rightarrow> nat" where
  "count_destination_definitions g =
     foldl bump (\<lambda>_. 0) (concat (map (\<lambda>k. concat (map (\<lambda>i. opt_name (ssa_instruction_destination i)) (block_instrs g k))) (g_order g)))"

definition names_defined_in_loop :: "cfg \<Rightarrow> nat list \<Rightarrow> string list" where
  "names_defined_in_loop g body =
     concat (map (\<lambda>i. opt_name (ssa_instruction_destination i) @ (if is_opaque i then referenced_names i else []))
       (concat (map (block_code g) body)))"

definition is_hoistable_kind :: "instr \<Rightarrow> bool" where
  "is_hoistable_kind i = (case i of BinaryOperation _ _ _ _ \<Rightarrow> True | Index _ _ _ \<Rightarrow> True | _ \<Rightarrow> False)"

definition operands_invariant :: "string list \<Rightarrow> string list \<Rightarrow> instr \<Rightarrow> bool" where
  "operands_invariant invariant_destinations defined i =
     (\<forall>v \<in> set (value_fields i). case v of
        VName x \<Rightarrow> x \<in> set invariant_destinations \<or> x \<notin> set defined
      | _ \<Rightarrow> True)"

definition is_call_kind :: "instr \<Rightarrow> bool" where
  "is_call_kind i = (case i of Call _ _ _ \<Rightarrow> True | CarryBranch _ _ _ \<Rightarrow> True | TailCall _ _ \<Rightarrow> True | _ \<Rightarrow> False)"

definition is_index_assign :: "instr \<Rightarrow> bool" where
  "is_index_assign i = (case i of IndexAssign _ _ _ \<Rightarrow> True | _ \<Rightarrow> False)"

text \<open>
  What is fixed while the invariants of a loop are collected: the definition counts, the names defined in the
  loop, whether it may write memory, and whether a block dominates every exit (None when an exit has no
  dominators, where the code raises).
\<close>

record hoist_context =
  hc_count :: "string \<Rightarrow> nat"
  hc_defined :: "string list"
  hc_writer :: bool
  hc_dominates_exits :: "nat \<Rightarrow> bool option"

text \<open>Whether an instruction of block \<open>k\<close> is marked, given the ones that are.\<close>

definition is_invariant :: "hoist_context \<Rightarrow> instr list \<Rightarrow> nat \<Rightarrow> instr \<Rightarrow> bool option" where
  "is_invariant c invariant k i =
     (case ssa_instruction_destination i of
        None \<Rightarrow> Some False
      | Some d \<Rightarrow>
          if i \<in> set invariant \<or> \<not> is_hoistable_kind i \<or> hc_count c d \<noteq> 1 \<or>
             \<not> operands_invariant (concat (map (\<lambda>j. opt_name (ssa_instruction_destination j)) invariant)) (hc_defined c) i
          then Some False
          else (case i of
             Index base _ _ \<Rightarrow> if hc_writer c \<or> base \<in> set (hc_defined c) then Some False else hc_dominates_exits c k
           | _ \<Rightarrow> Some True))"

fun mark_pass :: "hoist_context \<Rightarrow> (nat \<times> instr) list \<Rightarrow> instr list \<Rightarrow> instr list option" where
  "mark_pass c [] invariant = Some invariant"
| "mark_pass c ((k, i) # rest) invariant =
     Option.bind (is_invariant c invariant k i) (\<lambda>yes. mark_pass c rest (if yes then invariant @ [i] else invariant))"

lemma mark_pass_grows:
  "mark_pass c xs invariant = Some invariant' \<Longrightarrow>
   \<exists>new. invariant' = invariant @ new \<and> set new \<subseteq> snd ` set xs \<and> distinct new \<and> set new \<inter> set invariant = {}"
proof (induction c xs invariant arbitrary: invariant' rule: mark_pass.induct)
  case (2 c k i rest invariant)
  then obtain yes where yes: "is_invariant c invariant k i = Some yes"
    "mark_pass c rest (if yes then invariant @ [i] else invariant) = Some invariant'" by (auto split: Option.bind_splits)
  from "2.IH" [OF yes] obtain new where new: "invariant' = (if yes then invariant @ [i] else invariant) @ new"
    "set new \<subseteq> snd ` set rest" "distinct new" "set new \<inter> set (if yes then invariant @ [i] else invariant) = {}" by blast
  have "yes \<Longrightarrow> i \<notin> set invariant" using yes(1) by (auto simp: is_invariant_def split: option.splits if_splits)
  then show ?case using new by (cases yes) (auto intro!: exI [where x = "(if yes then [i] else []) @ new"])
qed simp

function mark_invariants :: "hoist_context \<Rightarrow> (nat \<times> instr) list \<Rightarrow> instr list \<Rightarrow> instr list option" where
  "mark_invariants c xs invariant =
     (case mark_pass c xs invariant of
        None \<Rightarrow> None
      | Some invariant' \<Rightarrow> if invariant' = invariant then Some invariant else mark_invariants c xs invariant')"
  by pat_completeness auto
termination
proof (relation "measure (\<lambda>(c, xs, invariant). card (snd ` set xs - set invariant))", goal_cases)
  case (2 c xs invariant invariant')
  from mark_pass_grows [OF 2(1)] obtain new where new: "invariant' = invariant @ new" "set new \<subseteq> snd ` set xs"
    "set new \<inter> set invariant = {}" by blast
  with 2(2) obtain x where "x \<in> set new" by (cases new) auto
  then have "snd ` set xs - set invariant' \<subset> snd ` set xs - set invariant" using new by auto
  then show ?case by (simp add: psubset_card_mono)
qed simp

declare mark_invariants.simps [simp del]

text \<open>\<open>all(block in dominator_sets[exit] for exit in exits)\<close>.\<close>

fun dominates_all :: "(nat \<times> nat list) list \<Rightarrow> nat \<Rightarrow> nat list \<Rightarrow> bool option" where
  "dominates_all dominator_of k [] = Some True"
| "dominates_all dominator_of k (e # es) =
     (case map_of dominator_of e of
        None \<Rightarrow> None
      | Some doms \<Rightarrow> if k \<in> set doms then dominates_all dominator_of k es else Some False)"

definition hoist_context_of ::
    "cfg \<Rightarrow> (string \<Rightarrow> nat) \<Rightarrow> (nat \<times> nat list) list \<Rightarrow> string list \<Rightarrow> nat list \<Rightarrow> nat list \<Rightarrow> hoist_context" where
  "hoist_context_of g definition_count dominator_of excluded_names exits body =
     (let has_call = (\<exists>i \<in> set (concat (map (block_code g) body)). is_call_kind i)
      in \<lparr>hc_count = definition_count,
          hc_defined = names_defined_in_loop g body @ (if has_call then excluded_names else []),
          hc_writer = (has_call \<or> (\<exists>i \<in> set (concat (map (block_instrs g) body)). is_index_assign i)),
          hc_dominates_exits = (\<lambda>k. dominates_all dominator_of k exits)\<rparr>)"

definition hoist_into_preheader ::
    "(string \<Rightarrow> nat) \<Rightarrow> (nat \<times> nat list) list \<Rightarrow> string list \<Rightarrow> nat list \<Rightarrow> nat list \<Rightarrow> nat \<Rightarrow> cfg \<Rightarrow> (bool \<times> cfg) option" where
  "hoist_into_preheader definition_count dominator_of excluded_names exits body preheader g =
     map_option
       (\<lambda>invariant.
          if invariant = [] then (False, g)
          else (True, update_block preheader (\<lambda>bb. bb\<lparr>b_instrs := b_instrs bb @ invariant\<rparr>)
            (fold (\<lambda>k. update_block k (\<lambda>bb. bb\<lparr>b_instrs := filter (\<lambda>i. i \<notin> set invariant) (b_instrs bb)\<rparr>)) body g)))
       (mark_invariants (hoist_context_of g definition_count dominator_of excluded_names exits body)
         (concat (map (\<lambda>k. map (Pair k) (block_instrs g k)) body)) [])"

fun hoist_loops ::
    "(string \<Rightarrow> nat) \<Rightarrow> (nat \<times> nat list) list \<Rightarrow> string list \<Rightarrow> (natural_loop \<times> nat) list \<Rightarrow> bool \<times> cfg \<Rightarrow> (bool \<times> cfg) option" where
  "hoist_loops definition_count dominator_of excluded_names [] st = Some st"
| "hoist_loops definition_count dominator_of excluded_names ((loop, preheader) # rest) (hoisted_any, g) =
     Option.bind (hoist_into_preheader definition_count dominator_of excluded_names (nl_exits loop)
         (filter (\<lambda>k. k \<in> set (nl_body loop)) (g_order g)) preheader g)
       (\<lambda>(hoisted, g). hoist_loops definition_count dominator_of excluded_names rest (hoisted_any \<or> hoisted, g))"

definition hoist_loop_invariants :: "string list \<Rightarrow> instr list \<Rightarrow> instr list option" where
  "hoist_loop_invariants excluded_names b =
     (if list_ex is_inline_asm b then Some b
      else
        Option.bind (build_cfg b) (\<lambda>g.
        Option.bind (natural_loops g) (\<lambda>loops.
        if loops = [] then Some b
        else
          Option.bind (insert_preheaders loops 0 g) (\<lambda>(preheaders, g).
          if preheaders = [] then Some b
          else
            Option.bind (compute_dominators g) (\<lambda>idom.
            Option.bind (dominator_sets idom) (\<lambda>dominator_of.
            Option.bind (hoist_loops (count_destination_definitions g) dominator_of excluded_names preheaders (False, g))
              (\<lambda>(hoisted_any, g). Some (if hoisted_any then flatten_cfg g else b))))))))"

end
