(* ===== verification/Loop_Strings.thy ===== *)
theory Loop_Strings
  imports Loops Ir_Lowering
begin

text \<open>
  Induction variables and the loops that become one string instruction, from \<^verbatim>\<open>cc/loops.py\<close>: a loop
  \<open>for (i = 0; i < n; i++)\<close> over a single store, or a load and a store, is cut out of the body and replaced.
\<close>

subsection \<open>Induction variables\<close>

text \<open>The variable that \<open>x++\<close> changes, where it is the whole right-hand side of an assignment.\<close>

definition incremented_variable :: "node \<Rightarrow> (string \<times> int) option" where
  "incremented_variable n =
     (case n of PlaceIncrementDecrement_node delta _ (VariablePlace_node x) \<Rightarrow> Some (x, delta) | _ \<Rightarrow> None)"

definition assignment_destination :: "instr \<Rightarrow> string option" where
  "assignment_destination i =
     (case ssa_instruction_destination i of
        Some d \<Rightarrow> Some d
      | None \<Rightarrow>
          (case i of
             Block (Assign_node e x) \<Rightarrow> (case incremented_variable e of Some (y, _) \<Rightarrow> Some y | None \<Rightarrow> Some x)
           | _ \<Rightarrow> None))"

definition count_loop_definitions :: "cfg \<Rightarrow> nat list \<Rightarrow> string \<Rightarrow> nat" where
  "count_loop_definitions g body =
     foldl bump (\<lambda>_. 0) (concat (map (\<lambda>i. opt_name (assignment_destination i)) (concat (map (block_instrs g) body))))"

definition additive_step :: "string \<Rightarrow> int \<Rightarrow> int option" where
  "additive_step op k = (if op = ''+'' then Some k else if op = ''-'' then Some (- k) else None)"

definition self_increment_step :: "string \<Rightarrow> instr \<Rightarrow> int option" where
  "self_increment_step x i =
     (case i of
        Block (Assign_node e y) \<Rightarrow>
          (case incremented_variable e of
             Some (z, delta) \<Rightarrow> if z = x then Some delta else None
           | None \<Rightarrow>
               (case e of
                  BinaryOperation_node (Var_node z) op r \<Rightarrow>
                    if y = x \<and> z = x then Option.bind (int_literal r) (additive_step op) else None
                | _ \<Rightarrow> None))
      | BinaryOperation d (VName l) op (VInt k) \<Rightarrow> if d = x \<and> l = x then additive_step op k else None
      | _ \<Rightarrow> None)"

definition induction_entry :: "(string \<Rightarrow> nat) \<Rightarrow> instr \<Rightarrow> (string \<times> int) option" where
  "induction_entry loop_definition_count i =
     (case assignment_destination i of
        None \<Rightarrow> None
      | Some d \<Rightarrow> if loop_definition_count d \<noteq> 1 then None else map_option (Pair d) (self_increment_step d i))"

definition find_induction_variables :: "cfg \<Rightarrow> nat list \<Rightarrow> (string \<Rightarrow> nat) \<Rightarrow> (string \<times> int) list" where
  "find_induction_variables g body loop_definition_count =
     fold (\<lambda>(x, step). put_item x step)
       (List.map_filter (induction_entry loop_definition_count) (concat (map (block_instrs g) body))) []"

subsection \<open>Names that are read\<close>

definition own_read_names :: "node \<Rightarrow> string list option" where
  "own_read_names n =
     (case n of
        Var_node x \<Rightarrow> Some [x]
      | PlaceAddressOf_node (VariablePlace_node x) \<Rightarrow> Some [x]
      | PlaceIncrementDecrement_node _ _ (VariablePlace_node x) \<Rightarrow> Some [x]
      | _ \<Rightarrow> None)"

definition read_children :: "node \<Rightarrow> node list" where
  "read_children n =
     (case n of VarDecl_node _ _ _ ini _ _ _ _ _ \<Rightarrow> opt_nodes ini | _ \<Rightarrow> ast_children n)"

lemma read_children_smaller: "c \<in> set (read_children n) \<Longrightarrow> size c < size n"
  by (cases n) (auto simp: read_children_def dest: opt_nodes_size opt_lists_size list_elem_size)

function iter_ast_read_names :: "node \<Rightarrow> string list" where
  "iter_ast_read_names n =
     (case own_read_names n of Some xs \<Rightarrow> xs | None \<Rightarrow> concat (map iter_ast_read_names (read_children n)))"
  by pat_completeness auto
termination
  by (relation "measure size") (auto dest: read_children_smaller)

declare iter_ast_read_names.simps [simp del]

function ast_takes_address_of :: "string \<Rightarrow> node \<Rightarrow> bool" where
  "ast_takes_address_of x n =
     (address_of_variable_name n = Some x \<or> list_ex (ast_takes_address_of x) (ast_children n))"
  by pat_completeness auto
termination
  by (relation "measure (\<lambda>(x, n). size n)") (auto dest: ast_children_smaller)

declare ast_takes_address_of.simps [simp del]

definition value_address_name :: "ir_value \<Rightarrow> string option" where
  "value_address_name v = (case v of VAddr n \<Rightarrow> address_of_variable_name n | _ \<Rightarrow> None)"

definition value_reads :: "ir_value \<Rightarrow> string list" where
  "value_reads v = value_string v @ opt_name (value_address_name v)"

text \<open>The nodes below an instruction, through the bodies of a switch.\<close>

definition opaque_nodes :: "instr \<Rightarrow> node list" where
  "opaque_nodes i = (if is_opaque i then concat (map instr_nodes (nested_instrs [i])) else [])"

definition iter_read_names :: "instr \<Rightarrow> string list" where
  "iter_read_names i =
     concat (map value_reads (value_fields i)) @
     (case i of
        Index base _ _ \<Rightarrow> [base]
      | IndexAssign base _ _ \<Rightarrow> [base]
      | RepString _ _ dest source _ _ _ final_iv \<Rightarrow>
          dest # opt_name source @ (case final_iv of None \<Rightarrow> [] | Some (_, v) \<Rightarrow> value_string v)
      | _ \<Rightarrow> []) @
     concat (map iter_ast_read_names (opaque_nodes i))"

definition iv_address_taken_in_loop :: "cfg \<Rightarrow> nat list \<Rightarrow> string \<Rightarrow> bool" where
  "iv_address_taken_in_loop g body x =
     (\<exists>i \<in> set (concat (map (block_code g) body)).
        (\<exists>v \<in> set (value_fields i). value_address_name v = Some x) \<or> list_ex (ast_takes_address_of x) (opaque_nodes i))"

definition iv_live_after_loop :: "cfg \<Rightarrow> nat list \<Rightarrow> string \<Rightarrow> bool" where
  "iv_live_after_loop g body x =
     (\<exists>k \<in> set (g_order g). k \<notin> set body \<and> (\<exists>i \<in> set (block_code g k). x \<in> set (iter_read_names i)))"

subsection \<open>The counter starts at zero\<close>

definition is_zero_copy :: "instr \<Rightarrow> bool" where
  "is_zero_copy i = (case i of Copy _ (VInt k) \<Rightarrow> k = 0 | _ \<Rightarrow> False)"

definition value_starts_at_zero ::
    "instr list \<Rightarrow> cfg \<Rightarrow> (nat \<times> nat list) list \<Rightarrow> nat \<Rightarrow> nat list \<Rightarrow> string \<Rightarrow> bool" where
  "value_starts_at_zero b g dominator_of header loop_blocks x =
     (let writes = (\<lambda>i. assignment_destination i = Some x);
          outside = filter (\<lambda>k. k \<notin> set loop_blocks) (g_order g)
      in case position (Label (label_of g header)) b of
           None \<Rightarrow> False
         | Some header_index \<Rightarrow>
             (case List.find writes (rev (take header_index b)) of None \<Rightarrow> False | Some i \<Rightarrow> is_zero_copy i) \<and>
             (case map_of dominator_of header of
                None \<Rightarrow> False
              | Some doms \<Rightarrow>
                  (\<forall>k \<in> set outside. \<forall>i \<in> set (block_code g k). writes i \<longrightarrow> is_zero_copy i) \<and>
                  (case filter (\<lambda>k. list_ex writes (block_code g k)) outside of
                     [k] \<Rightarrow> k \<in> set doms
                   | _ \<Rightarrow> False)))"

subsection \<open>Fill and copy\<close>

record string_types =
  st_element_sizes :: "string \<rightharpoonup> int"
  st_signed_counters :: "string \<rightharpoonup> bool"

definition rep_widths :: "int set" where
  "rep_widths = {1, 2, 4}"

definition match_fill_body ::
    "ir_value \<Rightarrow> bool \<Rightarrow> string \<Rightarrow> string list \<Rightarrow> (string \<rightharpoonup> int) \<Rightarrow> instr list \<Rightarrow> instr option" where
  "match_fill_body bound counter_signed x defined element_size_of significant =
     (case significant of
        [IndexAssign base index source] \<Rightarrow>
          if index \<noteq> VName x \<or> set (value_string source) \<inter> set defined \<noteq> {} then None
          else (case element_size_of base of
             None \<Rightarrow> None
           | Some w \<Rightarrow>
               if w \<in> rep_widths then Some (RepString ''fill'' w base None bound (Some source) counter_signed None)
               else None)
      | _ \<Rightarrow> None)"

definition match_copy_body ::
    "ir_value \<Rightarrow> bool \<Rightarrow> string \<Rightarrow> (string \<rightharpoonup> int) \<Rightarrow> instr list \<Rightarrow> instr option" where
  "match_copy_body bound counter_signed x element_size_of significant =
     (case significant of
        [Index load_base temp load_index, IndexAssign base index source] \<Rightarrow>
          if load_index \<noteq> VName x \<or> index \<noteq> VName x \<or> source \<noteq> VName temp \<or> bound = VName temp then None
          else (case (element_size_of load_base, element_size_of base) of
             (Some load_width, Some w) \<Rightarrow>
               if load_width = w \<and> w \<in> rep_widths
               then Some (RepString ''copy'' w base (Some load_base) bound None counter_signed None) else None
           | _ \<Rightarrow> None)
      | _ \<Rightarrow> None)"

text \<open>What the matcher leaves aside: markers, jumps and branches, and the step of the counter.\<close>

definition is_scaffolding :: "string \<Rightarrow> instr \<Rightarrow> bool" where
  "is_scaffolding x i =
     (is_Label i \<or> is_LoopBoundary i \<or> is_Jump i \<or> (case i of BranchFalse _ _ _ _ \<Rightarrow> True | _ \<Rightarrow> False) \<or>
      self_increment_step x i \<noteq> None)"

definition match_string_loop ::
    "cfg \<Rightarrow> instr list \<Rightarrow> (nat \<times> nat list) list \<Rightarrow> string_types \<Rightarrow> natural_loop \<Rightarrow> (string \<times> instr) option" where
  "match_string_loop g b dominator_of types loop =
     (let header = nl_header loop; body = nl_body loop in
      case b_term (g_store g ! header) of
        Some (BranchFalse (VName x) op bound _) \<Rightarrow>
          if op \<noteq> ''<'' \<or>
             find_induction_variables g body (count_loop_definitions g body) \<noteq> [(x, 1)] \<or>
             iv_live_after_loop g body x \<or>
             iv_address_taken_in_loop g body x \<or>
             \<not> value_starts_at_zero b g dominator_of header body x
          then None
          else
            let significant = filter (\<lambda>i. \<not> is_scaffolding x i) (concat (map (block_code g) body));
                counter_signed = (case st_signed_counters types x of None \<Rightarrow> True | Some s \<Rightarrow> s);
                found = (case match_fill_body bound counter_signed x (names_defined_in_loop g body) (st_element_sizes types) significant of
                   Some rep \<Rightarrow> Some rep
                 | None \<Rightarrow> match_copy_body bound counter_signed x (st_element_sizes types) significant)
            in map_option (Pair (label_of g header)) found
      | _ \<Rightarrow> None)"

subsection \<open>Splicing\<close>

definition last_position :: "'a \<Rightarrow> 'a list \<Rightarrow> nat option" where
  "last_position x xs = map_option (\<lambda>k. length xs - Suc k) (position x (rev xs))"

definition rewrite_span :: "instr list \<Rightarrow> string \<times> instr \<Rightarrow> (nat \<times> nat \<times> instr) option" where
  "rewrite_span b m =
     (case (position (Label (fst m)) b, last_position (Jump (fst m)) b) of
        (Some start, Some stop) \<Rightarrow> if stop < start then None else Some (start, stop, snd m)
      | _ \<Rightarrow> None)"

fun spans_apart :: "(nat \<times> nat \<times> instr) list \<Rightarrow> bool" where
  "spans_apart ((s1, e1, r1) # (s2, e2, r2) # rest) = (e1 < s2 \<and> spans_apart ((s2, e2, r2) # rest))"
| "spans_apart _ = True"

text \<open>Spans that overlap fail an assertion.\<close>

definition apply_string_rewrites :: "instr list \<Rightarrow> (string \<times> instr) list \<Rightarrow> instr list option" where
  "apply_string_rewrites b rewrites =
     (let spans = sort_key fst (List.map_filter (rewrite_span b) rewrites)
      in if \<not> spans_apart spans then None
         else Some (foldr (\<lambda>(start, stop, rep) result. take start result @ rep # drop (Suc stop) result) spans b))"

definition recognize_string_loops :: "string_types \<Rightarrow> instr list \<Rightarrow> instr list option" where
  "recognize_string_loops types b =
     (if list_ex is_inline_asm b then Some b
      else
        Option.bind (build_cfg b) (\<lambda>g.
        Option.bind (natural_loops g) (\<lambda>loops.
        if loops = [] then Some b
        else
          Option.bind (compute_dominators g) (\<lambda>idom.
          Option.bind (dominator_sets idom) (\<lambda>dominator_of.
            let rewrites = List.map_filter (match_string_loop g b dominator_of types) loops
            in if rewrites = [] then Some b else apply_string_rewrites b rewrites)))))"

subsection \<open>Types of a function\<close>

text \<open>\<open>X86CodegenTarget.type_size\<close>; None is \<^verbatim>\<open>KeyError\<close>.\<close>

definition type_sizes :: "string \<rightharpoonup> int" where
  "type_sizes =
     map_of [(''char'', 1), (''double'', 8), (''float'', 4), (''unsigned char'', 1), (''unsigned long'', 4),
       (''unsigned short'', 2), (''void'', 0)]"

definition type_size :: "int \<Rightarrow> string \<Rightarrow> int option" where
  "type_size int_size t =
     (if t = ''int'' \<or> t = ''unsigned int'' \<or> CHR ''*'' \<in> set t then Some int_size else type_sizes t)"

definition is_space :: "char \<Rightarrow> bool" where
  "is_space c = (let k = of_char c :: nat in 9 \<le> k \<and> k \<le> 13 \<or> 28 \<le> k \<and> k \<le> 32 \<or> k = 133 \<or> k = 160)"

definition rstrip_type :: "string \<Rightarrow> string" where
  "rstrip_type s = rev (dropWhile is_space (rev s))"

definition known_size :: "int \<Rightarrow> string \<Rightarrow> int" where
  "known_size int_size t = (case type_size int_size t of Some k \<Rightarrow> k | None \<Rightarrow> int_size)"

definition element_size_for_type :: "int \<Rightarrow> string option \<Rightarrow> string option \<Rightarrow> int option" where
  "element_size_for_type int_size element_type pointer_type =
     (case element_type of
        Some t \<Rightarrow> Some (known_size int_size t)
      | None \<Rightarrow>
          (case pointer_type of
             Some t \<Rightarrow> if t \<noteq> [] \<and> last t = CHR ''*'' then Some (known_size int_size (rstrip_type (butlast t))) else None
           | None \<Rightarrow> None))"

text \<open>The two tables of declared types: elements of arrays, and scalars.\<close>

type_synonym declared_types = "(string \<rightharpoonup> string) \<times> (string \<rightharpoonup> string)"

function collect_array_and_scalar_types :: "node list \<Rightarrow> declared_types \<Rightarrow> declared_types" where
  "collect_array_and_scalar_types [] types = types"
| "collect_array_and_scalar_types (n # ns) types =
     collect_array_and_scalar_types ns
       (case n of
          ArrayDecl_node _ _ _ x _ t \<Rightarrow> ((fst types)(x \<mapsto> t), snd types)
        | VarDecl_node _ _ _ _ _ x _ _ t \<Rightarrow> (fst types, (snd types)(x \<mapsto> t))
        | _ \<Rightarrow> collect_array_and_scalar_types (nested_statements n) types)"
  by pat_completeness auto
termination
  by (relation "measure (\<lambda>(ns, types). size_list size ns)")
     (auto simp del: nested_statements.simps node.size intro: nested_statements_bound)

declare collect_array_and_scalar_types.simps [simp del]

definition add_param_type :: "node \<Rightarrow> declared_types \<Rightarrow> declared_types" where
  "add_param_type p types =
     (case p of
        Param_node _ _ is_array x _ _ t \<Rightarrow>
          if is_array then ((fst types)(x \<mapsto> t), snd types) else (fst types, (snd types)(x \<mapsto> t))
      | _ \<Rightarrow> types)"

definition string_loop_type_maps :: "int \<Rightarrow> node list \<Rightarrow> node list \<Rightarrow> node list \<Rightarrow> string_types" where
  "string_loop_type_maps int_size program_globals params body =
     (let (arrays, scalars) = collect_array_and_scalar_types body
            (fold add_param_type params (collect_array_and_scalar_types program_globals (Map.empty, Map.empty)))
      in \<lparr>st_element_sizes = (\<lambda>x. case arrays x of
             Some t \<Rightarrow> element_size_for_type int_size (Some t) None
           | None \<Rightarrow> element_size_for_type int_size None (scalars x)),
          st_signed_counters = (\<lambda>x. case scalars x of
             Some t \<Rightarrow> if CHR ''*'' \<in> set t then None else Some (\<not> starts_with ''unsigned'' t)
           | None \<Rightarrow> None)\<rparr>)"

end
