(* ===== verification/Optimizer.thy ===== *)
theory Optimizer
  imports Loop_Strings Ssa_Passes
begin

text \<open>
  Strength reduction of the multiplications by an induction variable (\<^verbatim>\<open>cc/loops.py\<close>), and the driver that
  puts all passes together (\<open>Optimizer\<close> of \<^verbatim>\<open>cc/ir_optimize.py\<close>).  None is a run that raises or does not
  return.
\<close>

subsection \<open>Strength reduction\<close>

definition accumulator_name :: "nat \<Rightarrow> string" where
  "accumulator_name counter = ''_ir_lsr_acc_'' @ show_nat counter"

definition multiplicative_use ::
    "(string \<Rightarrow> nat) \<Rightarrow> (string \<times> int) list \<Rightarrow> instr \<Rightarrow> (string \<times> int) option" where
  "multiplicative_use definition_count induction_variables i =
     (case i of
        BinaryOperation d l op r \<Rightarrow>
          if op \<noteq> ''*'' \<or> definition_count d \<noteq> 1 then None
          else (case (l, r) of
             (VName x, VInt k) \<Rightarrow> if map_of induction_variables x \<noteq> None then Some (x, k) else None
           | (VInt k, VName x) \<Rightarrow> if map_of induction_variables x \<noteq> None then Some (x, k) else None
           | _ \<Rightarrow> None)
      | _ \<Rightarrow> None)"

text \<open>The candidates: block, instruction, induction variable and constant.\<close>

definition find_multiplicative_iv_uses ::
    "cfg \<Rightarrow> nat list \<Rightarrow> (string \<Rightarrow> nat) \<Rightarrow> (string \<times> int) list \<Rightarrow> (nat \<times> instr \<times> string \<times> int) list" where
  "find_multiplicative_iv_uses g body definition_count induction_variables =
     concat (map (\<lambda>k. List.map_filter
         (\<lambda>i. map_option (\<lambda>(x, c). (k, i, x, c)) (multiplicative_use definition_count induction_variables i))
         (block_instrs g k)) body)"

definition step_after :: "string \<Rightarrow> string \<Rightarrow> int \<Rightarrow> instr \<Rightarrow> instr list" where
  "step_after x accumulator increment i =
     (if self_increment_step x i \<noteq> None
      then [i, BinaryOperation accumulator (VName accumulator) ''+'' (VInt increment)] else [i])"

definition map_instrs :: "(instr list \<Rightarrow> instr list) \<Rightarrow> nat \<Rightarrow> cfg \<Rightarrow> cfg" where
  "map_instrs f k g = update_block k (\<lambda>bb. bb\<lparr>b_instrs := f (b_instrs bb)\<rparr>) g"

definition instr_destination_name :: "instr \<Rightarrow> string" where
  "instr_destination_name i = (case i of BinaryOperation d _ _ _ \<Rightarrow> d | _ \<Rightarrow> [])"

fun reduce_uses ::
    "nat list \<Rightarrow> nat \<Rightarrow> (string \<times> int) list \<Rightarrow> (nat \<times> instr \<times> string \<times> int) list \<Rightarrow> nat \<times> cfg \<Rightarrow> nat \<times> cfg" where
  "reduce_uses body preheader induction_variables [] st = st"
| "reduce_uses body preheader induction_variables ((k, i, x, c) # rest) (counter, g) =
     (let accumulator = accumulator_name counter;
          step = (case map_of induction_variables x of Some s \<Rightarrow> s | None \<Rightarrow> 0);
          g1 = map_instrs (\<lambda>b. b @ [BinaryOperation accumulator (VName x) ''*'' (VInt c)]) preheader g;
          g2 = map_instrs (replace_first i (Copy (instr_destination_name i) (VName accumulator))) k g1;
          g3 = fold (map_instrs (\<lambda>b. concat (map (step_after x accumulator (step * c)) b))) body g2
      in reduce_uses body preheader induction_variables rest (Suc counter, g3))"

definition reduce_strength_in_loop :: "(string \<Rightarrow> nat) \<Rightarrow> nat list \<Rightarrow> nat \<Rightarrow> nat \<times> cfg \<Rightarrow> nat \<times> cfg" where
  "reduce_strength_in_loop definition_count body preheader st =
     (let g = snd st;
          induction_variables = find_induction_variables g body (count_loop_definitions g body)
      in reduce_uses body preheader induction_variables
           (find_multiplicative_iv_uses g body definition_count induction_variables) st)"

definition reduce_loop_strength :: "instr list \<Rightarrow> instr list option" where
  "reduce_loop_strength b =
     (if list_ex is_inline_asm b then Some b
      else
        Option.bind (build_cfg b) (\<lambda>g.
        Option.bind (natural_loops g) (\<lambda>loops.
        if loops = [] then Some b
        else
          Option.bind (insert_preheaders loops 0 g) (\<lambda>(preheaders, g).
          if preheaders = [] then Some b
          else
            let (counter, g') = fold (\<lambda>(loop, preheader).
                reduce_strength_in_loop (count_destination_definitions g)
                  (filter (\<lambda>k. k \<in> set (nl_body loop)) (g_order g)) preheader) preheaders (0, g)
            in Some (if counter = 0 then b else flatten_cfg g')))))"

subsection \<open>The driver\<close>

text \<open>A pass of the pipeline, and the scalar passes again when it changed the body.\<close>

definition then_scalar :: "(instr list \<Rightarrow> instr list option) \<Rightarrow> instr list \<Rightarrow> instr list option" where
  "then_scalar pass b = Option.bind (pass b) (\<lambda>b'. if b' \<noteq> b then scalar_fixed_point b' else Some b)"

text \<open>Names of the globals of a program, \<open>getattr(node, "name", None)\<close> where it is a string.\<close>

definition collect_global_names :: "ir_program \<Rightarrow> string list" where
  "collect_global_names p = concat (map (\<lambda>n. opt_name (node_name n)) (prog_globals p))"

text \<open>No target is None, and leaves out the string loops.\<close>

definition optimize_body :: "bool \<Rightarrow> string list \<Rightarrow> string_types option \<Rightarrow> instr list \<Rightarrow> instr list option" where
  "optimize_body carry_return excluded_names types b =
     Option.bind (scalar_fixed_point b) (\<lambda>b.
     Option.bind (case types of None \<Rightarrow> Some b | Some t \<Rightarrow> then_scalar (recognize_string_loops t) b) (\<lambda>b.
     Option.bind (then_scalar (optimize_ssa excluded_names) b) (\<lambda>b.
     Option.bind (then_scalar (hoist_loop_invariants excluded_names) b) (\<lambda>b.
     Option.bind (then_scalar reduce_loop_strength b) (\<lambda>b.
       Some (if carry_return then b else eliminate_unreachable_code (eliminate_tail_calls b)))))))"

definition optimize_function :: "int option \<Rightarrow> ir_program \<Rightarrow> ir_function \<Rightarrow> ir_function option" where
  "optimize_function int_size p f =
     (case fn_ast_node f of
        Function_node _ body carry_return _ _ _ _ params _ _ \<Rightarrow>
          map_option (\<lambda>b. f\<lparr>fn_body := b\<rparr>)
            (optimize_body carry_return (collect_global_names p)
              (map_option (\<lambda>s. string_loop_type_maps s (prog_globals p) params body) int_size) (fn_body f))
      | _ \<Rightarrow> None)"

definition optimize :: "int option \<Rightarrow> ir_program \<Rightarrow> ir_program option" where
  "optimize int_size p =
     map_option (\<lambda>fs. p\<lparr>prog_functions := fs\<rparr>) (sequence_opt (map (optimize_function int_size p) (prog_functions p)))"

end
