(* ===== verification/Dominators.thy ===== *)
theory Dominators
  imports Cfg_Correct
begin

text \<open>
  The dominators of \<^verbatim>\<open>cc/cfg.py\<close>: the iteration ends, and the chain of immediate dominators above a block
  holds exactly the blocks that every path from the entry passes.
\<close>

subsection \<open>Dominance\<close>

text \<open>The blocks that a path from the entry reaches without passing \<open>d\<close>.\<close>

inductive_set reachable_avoiding :: "cfg \<Rightarrow> nat \<Rightarrow> nat set" for g :: cfg and d :: nat where
  avoid_entry: "g_entry g \<noteq> d \<Longrightarrow> g_entry g \<in> reachable_avoiding g d"
| avoid_edge: "k \<in> reachable_avoiding g d \<Longrightarrow> s \<in> set (succs_of g k) \<Longrightarrow> s \<noteq> d \<Longrightarrow> s \<in> reachable_avoiding g d"

definition dominates :: "cfg \<Rightarrow> nat \<Rightarrow> nat \<Rightarrow> bool" where
  "dominates g d k = (k \<in> reachable_blocks g \<and> k \<notin> reachable_avoiding g d)"

definition linked :: "cfg \<Rightarrow> bool" where
  "linked g = (\<forall>k s. s \<in> set (succs_of g k) \<longleftrightarrow> k \<in> set (preds_of g s))"

lemma avoiding_reachable: "k \<in> reachable_avoiding g d \<Longrightarrow> k \<in> reachable_blocks g"
  by (induction rule: reachable_avoiding.induct) (auto intro: reachable_blocks.intros)

lemma dominates_pred:
  "dominates g d k \<Longrightarrow> d \<noteq> k \<Longrightarrow> k \<in> set (succs_of g p) \<Longrightarrow> p \<in> reachable_blocks g \<Longrightarrow> dominates g d p"
  by (auto simp: dominates_def intro: avoid_edge)

subsection \<open>Trees of immediate dominators\<close>

definition up :: "(nat \<times> nat) list \<Rightarrow> (nat \<times> nat) set" where
  "up idom = {(a, b). map_of idom a = Some b}"

definition anc :: "(nat \<times> nat) list \<Rightarrow> nat \<Rightarrow> nat set" where
  "anc idom a = {b. (a, b) \<in> (up idom)\<^sup>*}"

definition rank :: "nat list \<Rightarrow> nat \<Rightarrow> nat" where
  "rank rpo k = length (takeWhile (\<lambda>x. x \<noteq> k) rpo)"

definition tree_ok :: "nat list \<Rightarrow> (nat \<times> nat) list \<Rightarrow> bool" where
  "tree_ok rpo idom =
     (rpo \<noteq> [] \<and> dom (map_of idom) \<subseteq> set rpo \<and> map_of idom (hd rpo) = Some (hd rpo) \<and>
      (\<forall>k d. map_of idom k = Some d \<longrightarrow> d \<in> dom (map_of idom) \<and> (k \<noteq> hd rpo \<longrightarrow> rank rpo d < rank rpo k)))"

lemma rank_less: "k \<in> set rpo \<Longrightarrow> rank rpo k < length rpo"
  by (induction rpo) (auto simp: rank_def)

lemma nth_rank: "k \<in> set rpo \<Longrightarrow> rpo ! rank rpo k = k"
  by (induction rpo) (auto simp: rank_def)

lemma rank_nth: "distinct rpo \<Longrightarrow> i < length rpo \<Longrightarrow> rank rpo (rpo ! i) = i"
  by (metis nth_rank rank_less nth_mem nth_eq_iff_index_eq)

lemma rank_inj: "a \<in> set rpo \<Longrightarrow> b \<in> set rpo \<Longrightarrow> rank rpo a = rank rpo b \<Longrightarrow> a = b"
  by (metis nth_rank)

lemma anc_refl [simp]: "a \<in> anc idom a"
  by (simp add: anc_def)

lemma anc_trans: "b \<in> anc idom a \<Longrightarrow> c \<in> anc idom b \<Longrightarrow> c \<in> anc idom a"
  by (auto simp: anc_def)

lemma anc_step: "map_of idom a = Some b \<Longrightarrow> anc idom a = insert a (anc idom b)"
  by (auto simp: anc_def up_def elim: converse_rtranclE intro: converse_rtrancl_into_rtrancl)

lemma anc_rank:
  assumes "tree_ok rpo idom" "b \<in> anc idom a" "a \<in> dom (map_of idom)"
  shows "b \<in> dom (map_of idom) \<and> (b \<noteq> a \<longrightarrow> rank rpo b < rank rpo a)"
proof -
  have "(a, b) \<in> (up idom)\<^sup>*" using assms(2) by (simp add: anc_def)
  then show ?thesis using assms(3)
  proof (induction rule: converse_rtrancl_induct)
    case (step a c)
    then have ac: "map_of idom a = Some c" by (simp add: up_def)
    then have c: "c \<in> dom (map_of idom)" "a \<noteq> hd rpo \<Longrightarrow> rank rpo c < rank rpo a"
      using assms(1) by (auto simp: tree_ok_def)
    show ?case
    proof (cases "a = hd rpo")
      case True
      then have "c = a" using ac assms(1) by (simp add: tree_ok_def)
      then show ?thesis using step.IH c(1) by simp
    next
      case False
      then show ?thesis using step.IH c by (cases "b = c") auto
    qed
  qed auto
qed

lemma anc_rank_le: "tree_ok rpo idom \<Longrightarrow> b \<in> anc idom a \<Longrightarrow> a \<in> dom (map_of idom) \<Longrightarrow> rank rpo b \<le> rank rpo a"
  using anc_rank [of rpo idom b a] by (cases "b = a") auto

lemma anc_linear:
  assumes ok: "tree_ok rpo idom" and a: "a \<in> dom (map_of idom)"
    and b: "b \<in> anc idom a" and c: "c \<in> anc idom a" and le: "rank rpo b \<le> rank rpo c"
  shows "b \<in> anc idom c"
proof -
  have "single_valued (up idom)" by (auto simp: single_valued_def up_def)
  then have "(b, c) \<in> (up idom)\<^sup>* \<or> (c, b) \<in> (up idom)\<^sup>*"
    using b c by (auto simp: anc_def dest: single_valued_confluent)
  moreover have "b = c" if "c \<in> anc idom b"
    using anc_rank [OF ok that] anc_rank [OF ok b a] le by auto
  ultimately show ?thesis by (auto simp: anc_def)
qed

subsection \<open>Intersecting two chains\<close>

lemma position_take: "k \<in> set xs \<Longrightarrow> position k xs = Some (rank xs k)"
  by (induction xs) (auto simp: rank_def)

lemma postorder_index_rank:
  assumes "distinct rpo" "k \<in> set rpo"
  shows "postorder_index rpo k = Some (length rpo - Suc (rank rpo k))"
proof -
  have r: "rank rpo k < length rpo" by (rule rank_less [OF assms(2)])
  have "rank (rev rpo) k = length rpo - Suc (rank rpo k)"
    using rank_nth [of "rev rpo" "length rpo - Suc (rank rpo k)"] assms r nth_rank [OF assms(2)]
    by (simp add: rev_nth Suc_diff_Suc)
  then show ?thesis using assms by (simp add: postorder_index_def position_take)
qed

lemma climb_correct:
  assumes ok: "tree_ok rpo idom" and d: "distinct rpo"
    and a: "a \<in> dom (map_of idom)" and c: "c \<in> dom (map_of idom)"
  shows "\<exists>x. climb idom rpo a c = Some x \<and> x \<in> anc idom a \<and> rank rpo x \<le> rank rpo c \<and>
    (rank rpo a \<le> rank rpo c \<longrightarrow> x = a) \<and> anc idom a \<inter> anc idom c = anc idom x \<inter> anc idom c"
  using a
proof (induction "rank rpo a" arbitrary: a rule: less_induct)
  case less
  have in_rpo: "a \<in> set rpo" "c \<in> set rpo" using ok less.prems c by (auto simp: tree_ok_def)
  note idx = postorder_index_rank [OF d in_rpo(1)] postorder_index_rank [OF d in_rpo(2)]
  have cmp: "length rpo - Suc (rank rpo a) < length rpo - Suc (rank rpo c) \<longleftrightarrow> rank rpo c < rank rpo a"
    using rank_less [OF in_rpo(1)] rank_less [OF in_rpo(2)] by auto
  show ?case
  proof (cases "rank rpo c < rank rpo a")
    case True
    obtain a' where a': "map_of idom a = Some a'" using less.prems by auto
    have "a \<noteq> hd rpo" using True ok by (cases rpo) (auto simp: rank_def tree_ok_def)
    then have a'd: "a' \<in> dom (map_of idom)" "rank rpo a' < rank rpo a" using ok a' by (auto simp: tree_ok_def)
    from less.hyps [OF a'd(2,1)] obtain x where x: "climb idom rpo a' c = Some x" "x \<in> anc idom a'" "rank rpo x \<le> rank rpo c"
      "anc idom a' \<inter> anc idom c = anc idom x \<inter> anc idom c" by auto
    have "a \<notin> anc idom c" using anc_rank_le [OF ok _ c, of a] True by auto
    then have "anc idom a \<inter> anc idom c = anc idom x \<inter> anc idom c" using x(4) by (auto simp: anc_step [OF a'])
    moreover have "climb idom rpo a c = Some x" using True x(1) a' by (subst climb.simps) (simp add: idx cmp)
    ultimately show ?thesis using x(2,3) True by (auto simp: anc_step [OF a'])
  next
    case False
    then have "climb idom rpo a c = Some a" by (subst climb.simps) (simp add: idx cmp)
    then show ?thesis using False by auto
  qed
qed

lemma intersect_correct:
  assumes ok: "tree_ok rpo idom" and d: "distinct rpo"
    and a: "a \<in> dom (map_of idom)" and c: "c \<in> dom (map_of idom)"
  shows "\<exists>x. intersect_dominators idom rpo a c = Some x \<and> x \<in> dom (map_of idom) \<and>
    anc idom x = anc idom a \<inter> anc idom c"
  using a c
proof (induction "rank rpo a + rank rpo c" arbitrary: a c rule: less_induct)
  case less
  show ?case
  proof (cases "a = c")
    case True
    then show ?thesis using less.prems by (subst intersect_dominators.simps) auto
  next
    case False
    from climb_correct [OF ok d less.prems] obtain a' where a': "climb idom rpo a c = Some a'" "a' \<in> anc idom a"
      "rank rpo a' \<le> rank rpo c" "rank rpo a \<le> rank rpo c \<longrightarrow> a' = a"
      "anc idom a \<inter> anc idom c = anc idom a' \<inter> anc idom c" by blast
    have a'd: "a' \<in> dom (map_of idom)" "rank rpo a' \<le> rank rpo a"
      using anc_rank [OF ok a'(2) less.prems(1)] anc_rank_le [OF ok a'(2) less.prems(1)] by auto
    from climb_correct [OF ok d less.prems(2) a'd(1)] obtain c' where c': "climb idom rpo c a' = Some c'" "c' \<in> anc idom c"
      "rank rpo c' \<le> rank rpo a'" "anc idom c \<inter> anc idom a' = anc idom c' \<inter> anc idom a'" by blast
    have c'd: "c' \<in> dom (map_of idom)" "rank rpo c' \<le> rank rpo c"
      using anc_rank [OF ok c'(2) less.prems(2)] anc_rank_le [OF ok c'(2) less.prems(2)] by auto
    have in_rpo: "a \<in> set rpo" "c \<in> set rpo" using ok less.prems by (auto simp: tree_ok_def)
    have smaller: "rank rpo a' + rank rpo c' < rank rpo a + rank rpo c"
    proof (cases "rank rpo a \<le> rank rpo c")
      case True
      then have "rank rpo a < rank rpo c" using False rank_inj [OF in_rpo] by force
      then show ?thesis using a'd c'(3) a'(4) True by auto
    next
      case False
      then show ?thesis using a'(3) c'd(2) by linarith
    qed
    from less.hyps [OF smaller a'd(1) c'd(1)] obtain x where x: "intersect_dominators idom rpo a' c' = Some x"
      "x \<in> dom (map_of idom)" "anc idom x = anc idom a' \<inter> anc idom c'" by blast
    have "intersect_dominators idom rpo a c = Some x"
      using False a'(1) c'(1) x(1) by (subst intersect_dominators.simps) simp
    then show ?thesis using x(2,3) a'(5) c'(4) by auto
  qed
qed

lemma intersect_all_correct:
  assumes ok: "tree_ok rpo idom" and d: "distinct rpo"
  shows "p \<in> dom (map_of idom) \<Longrightarrow> set ps \<subseteq> dom (map_of idom) \<Longrightarrow>
    \<exists>x. intersect_all idom rpo p ps = Some x \<and> x \<in> dom (map_of idom) \<and> anc idom x = (\<Inter>q \<in> set (p # ps). anc idom q)"
proof (induction ps arbitrary: p)
  case (Cons q ps)
  from intersect_correct [OF ok d, of q p] Cons.prems obtain y where y: "intersect_dominators idom rpo q p = Some y"
    "y \<in> dom (map_of idom)" "anc idom y = anc idom q \<inter> anc idom p" by auto
  from Cons.IH [of y] Cons.prems y(2) obtain x where x: "intersect_all idom rpo y ps = Some x" "x \<in> dom (map_of idom)"
    "anc idom x = (\<Inter>q \<in> set (y # ps). anc idom q)" by auto
  then show ?case using y by auto
qed simp

subsection \<open>One visit\<close>

lemma rooted_rank:
  "rooted g seen ks \<Longrightarrow> distinct ks \<Longrightarrow> set ks \<inter> seen = {} \<Longrightarrow> k \<in> set ks \<Longrightarrow>
   \<exists>p. k \<in> set (succs_of g p) \<and> (p \<in> seen \<or> p \<in> set ks \<and> rank ks p < rank ks k)"
proof (induction ks arbitrary: seen)
  case (Cons x ks)
  show ?case
  proof (cases "k = x")
    case True
    then show ?thesis using Cons.prems(1) by auto
  next
    case False
    then have "k \<in> set ks" using Cons.prems(4) by simp
    then obtain p where p: "k \<in> set (succs_of g p)" "p \<in> insert x seen \<or> p \<in> set ks \<and> rank ks p < rank ks k"
      using Cons.IH [of "insert x seen"] Cons.prems by auto
    then show ?thesis using False Cons.prems(2) by (intro exI [of _ p]) (auto simp: rank_def)
  qed
qed simp

lemma earlier_predecessor:
  assumes "rpo = reverse_postorder g" "k \<in> set rpo" "k \<noteq> g_entry g"
  shows "\<exists>p. p \<in> set rpo \<and> k \<in> set (succs_of g p) \<and> rank rpo p < rank rpo k"
proof -
  obtain ks where ks: "rpo = g_entry g # ks" "rooted g {g_entry g} ks" "distinct rpo"
    using reverse_postorder_spec [of g] assms(1) by auto
  then have "distinct ks" "g_entry g \<notin> set ks" "k \<in> set ks" using assms(2,3) by auto
  with rooted_rank [OF ks(2), of k] obtain p where
    "k \<in> set (succs_of g p)" "p = g_entry g \<or> p \<in> set ks \<and> rank ks p < rank ks k" by auto
  moreover have "p \<noteq> g_entry g" if "p \<in> set ks" using that ks(1,3) by auto
  ultimately show ?thesis using ks(1) assms(3) by (intro exI [of _ p]) (auto simp: rank_def)
qed

text \<open>
  The invariant of the iteration after the first \<open>i\<close> blocks of a pass: common ancestors of the predecessors of
  a block are ancestors of its immediate dominator; the ancestors of the latter that have not been visited
  since are also ancestors of an earlier predecessor; every dominator of a block is an ancestor of it.
\<close>

definition dom_inv :: "cfg \<Rightarrow> nat list \<Rightarrow> nat \<Rightarrow> (nat \<times> nat) list \<Rightarrow> bool" where
  "dom_inv g rpo i idom =
     (tree_ok rpo idom \<and> (\<forall>j < i. rpo ! j \<in> dom (map_of idom)) \<and>
      (\<forall>k d. map_of idom k = Some d \<longrightarrow> k \<noteq> g_entry g \<longrightarrow>
         (\<forall>x. (\<forall>p \<in> set (preds_of g k) \<inter> dom (map_of idom). x \<in> anc idom p) \<longrightarrow> x \<in> anc idom d) \<and>
         (\<exists>f \<in> set (preds_of g k) \<inter> dom (map_of idom). rank rpo f < rank rpo k \<and>
            (\<forall>m \<in> anc idom d. rank rpo k < i \<or> i \<le> rank rpo m \<longrightarrow> m \<in> anc idom f))) \<and>
      (\<forall>k \<in> dom (map_of idom). \<forall>x. dominates g x k \<longrightarrow> x \<in> anc idom k))"

lemma dom_invD:
  assumes "dom_inv g rpo i idom"
  shows "tree_ok rpo idom" "j < i \<Longrightarrow> rpo ! j \<in> dom (map_of idom)"
    "map_of idom k = Some d \<Longrightarrow> k \<noteq> g_entry g \<Longrightarrow> (\<And>p. p \<in> set (preds_of g k) \<Longrightarrow> p \<in> dom (map_of idom) \<Longrightarrow> x \<in> anc idom p) \<Longrightarrow>
       x \<in> anc idom d"
    "map_of idom k = Some d \<Longrightarrow> k \<noteq> g_entry g \<Longrightarrow> \<exists>f \<in> set (preds_of g k) \<inter> dom (map_of idom). rank rpo f < rank rpo k \<and>
       (\<forall>m \<in> anc idom d. rank rpo k < i \<or> i \<le> rank rpo m \<longrightarrow> m \<in> anc idom f)"
    "k \<in> dom (map_of idom) \<Longrightarrow> dominates g x k \<Longrightarrow> x \<in> anc idom k"
  using assms unfolding dom_inv_def by blast+

subsection \<open>Moving a block up\<close>

lemma anc_moved_same:
  assumes new: "map_of idom' = (map_of idom)(k \<mapsto> d)" and k: "k \<notin> anc idom a"
  shows "anc idom' a = anc idom a"
proof
  show "anc idom' a \<subseteq> anc idom a"
  proof
    fix x assume "x \<in> anc idom' a"
    then have "(a, x) \<in> (up idom')\<^sup>*" by (simp add: anc_def)
    then show "x \<in> anc idom a"
    proof (induction rule: rtrancl_induct)
      case (step y z)
      then have "y \<noteq> k" using k by auto
      then have "(y, z) \<in> up idom" using step.hyps(2) new by (simp add: up_def)
      then show ?case using step.IH by (auto simp: anc_def)
    qed simp
  qed
  show "anc idom a \<subseteq> anc idom' a"
  proof
    fix x assume x: "x \<in> anc idom a"
    then have "(a, x) \<in> (up idom)\<^sup>*" by (simp add: anc_def)
    then have "(a, x) \<in> (up idom')\<^sup>* \<and> (a, x) \<in> (up idom)\<^sup>*"
    proof (induction rule: rtrancl_induct)
      case (step y z)
      then have "y \<noteq> k" using k by (auto simp: anc_def)
      then have "(y, z) \<in> up idom'" using step.hyps(2) new by (simp add: up_def)
      then show ?case using step by auto
    qed simp
    then show "x \<in> anc idom' a" by (simp add: anc_def)
  qed
qed

lemma anc_moved_high:
  assumes ok: "tree_ok rpo idom" and new: "map_of idom' = (map_of idom)(k \<mapsto> d)"
    and x: "x \<in> anc idom a" "a \<in> dom (map_of idom)" "rank rpo k \<le> rank rpo x"
  shows "x \<in> anc idom' a"
proof -
  have "(a, x) \<in> (up idom)\<^sup>*" using x(1) by (simp add: anc_def)
  then show ?thesis using x(2)
  proof (induction rule: converse_rtrancl_induct)
    case (step y z)
    then have yz: "map_of idom y = Some z" by (simp add: up_def)
    then have z: "z \<in> dom (map_of idom)" using ok by (auto simp: tree_ok_def)
    show ?case
    proof (cases "y = x")
      case False
      have "x \<in> anc idom y" using step.hyps by (auto simp: anc_def)
      then have "rank rpo x < rank rpo y" using anc_rank [OF ok _ step.prems] False by auto
      then have "y \<noteq> k" using x(3) by auto
      then have "map_of idom' y = Some z" using yz new by simp
      then show ?thesis using step.IH [OF z] by (simp add: anc_step)
    qed simp
  qed simp
qed

lemma anc_moved_less:
  assumes new: "map_of idom' = (map_of idom)(k \<mapsto> d)" and e: "map_of idom k = Some e" "d \<in> anc idom e"
  shows "anc idom' a \<subseteq> anc idom a"
proof
  fix x assume "x \<in> anc idom' a"
  then have "(a, x) \<in> (up idom')\<^sup>*" by (simp add: anc_def)
  then show "x \<in> anc idom a"
  proof (induction rule: rtrancl_induct)
    case (step y z)
    show ?case
    proof (cases "y = k")
      case True
      then have "z = d" using step.hyps(2) new by (auto simp: up_def)
      moreover have "d \<in> anc idom k" using e by (auto simp: anc_step [OF e(1)])
      ultimately show ?thesis using step.IH True by (blast intro: anc_trans)
    next
      case False
      then have "(y, z) \<in> up idom" using step.hyps(2) new by (simp add: up_def)
      then show ?thesis using step.IH by (auto simp: anc_def)
    qed
  qed simp
qed

lemma tree_ok_moved:
  assumes "tree_ok rpo idom" "map_of idom' = (map_of idom)(k \<mapsto> d)" "d \<in> dom (map_of idom)"
    "rank rpo d < rank rpo k" "k \<in> set rpo" "k \<noteq> hd rpo"
  shows "tree_ok rpo idom'"
  using assms unfolding tree_ok_def by auto

lemma dom_inv_same:
  assumes inv: "dom_inv g rpo i idom" and i: "rpo ! i \<in> dom (map_of idom)"
    and k: "\<And>k. rank rpo k = i \<Longrightarrow> k \<in> dom (map_of idom) \<Longrightarrow> k \<noteq> g_entry g \<Longrightarrow>
      \<exists>f \<in> set (preds_of g k) \<inter> dom (map_of idom). rank rpo f < rank rpo k \<and> anc idom (the (map_of idom k)) \<subseteq> anc idom f"
  shows "dom_inv g rpo (Suc i) idom"
proof -
  have "\<exists>f \<in> set (preds_of g k) \<inter> dom (map_of idom). rank rpo f < rank rpo k \<and>
      (\<forall>m \<in> anc idom d. rank rpo k < Suc i \<or> Suc i \<le> rank rpo m \<longrightarrow> m \<in> anc idom f)"
    if kd: "map_of idom k = Some d" "k \<noteq> g_entry g" for k d
  proof (cases "rank rpo k = i")
    case True
    then show ?thesis using k [OF True] kd by auto
  next
    case False
    from dom_invD(4) [OF inv kd] obtain f where "f \<in> set (preds_of g k) \<inter> dom (map_of idom)" "rank rpo f < rank rpo k"
      "\<forall>m \<in> anc idom d. rank rpo k < i \<or> i \<le> rank rpo m \<longrightarrow> m \<in> anc idom f" by auto
    then show ?thesis using False by (intro bexI [of _ f]) auto
  qed
  moreover have "\<forall>j < Suc i. rpo ! j \<in> dom (map_of idom)" using i dom_invD(2) [OF inv] less_Suc_eq by auto
  ultimately show ?thesis using inv unfolding dom_inv_def by blast
qed

text \<open>A block between a dominator and a block in the tree is dominated as well.\<close>

lemma dominates_between:
  assumes inv: "dom_inv g rpo i idom" and g: "linked g" "set rpo = reachable_blocks g"
    and k: "k \<in> anc idom a" "a \<in> dom (map_of idom)" "i \<le> rank rpo k"
    and x: "dominates g x a" "rank rpo x < rank rpo k"
  shows "dominates g x k"
  using k(1,2) x(1)
proof (induction "rank rpo a" arbitrary: a rule: less_induct)
  case less
  note ok = dom_invD(1) [OF inv]
  show ?case
  proof (cases "k = a")
    case False
    obtain d where d: "map_of idom a = Some d" using less.prems(2) by auto
    have ka: "k \<in> anc idom d" using less.prems(1) False by (simp add: anc_step [OF d])
    have "a \<noteq> g_entry g"
    proof
      assume "a = g_entry g"
      then have "x = a" using less.prems(3) avoid_entry [of g x] by (auto simp: dominates_def)
      then show False using anc_rank_le [OF ok less.prems(1,2)] x(2) by simp
    qed
    from dom_invD(4) [OF inv d this] obtain f where f: "f \<in> set (preds_of g a)" "f \<in> dom (map_of idom)"
      "rank rpo f < rank rpo a" "k \<in> anc idom f" using ka k(3) by auto
    have "f \<in> reachable_blocks g" using f(2) ok g(2) by (auto simp: tree_ok_def)
    moreover have "a \<in> set (succs_of g f)" using f(1) g(1) by (simp add: linked_def)
    moreover have "x \<noteq> a" using anc_rank_le [OF ok less.prems(1,2)] x(2) by auto
    ultimately have "dominates g x f" using dominates_pred [OF less.prems(3)] by blast
    then show ?thesis using less.hyps [OF f(3,4,2)] by simp
  qed (use less.prems in simp)
qed

lemma dom_inv_moved:
  assumes inv: "dom_inv g rpo i idom" and g: "linked g" "set rpo = reachable_blocks g" "hd rpo = g_entry g" "distinct rpo"
    and i: "i < length rpo" "k = rpo ! i" "k \<noteq> g_entry g"
    and new: "map_of idom' = (map_of idom)(k \<mapsto> d)"
    and d: "d \<in> dom (map_of idom)" "anc idom d = (\<Inter>p \<in> set (preds_of g k) \<inter> dom (map_of idom). anc idom p)"
    and f: "f \<in> set (preds_of g k)" "f \<in> dom (map_of idom)" "rank rpo f < i"
  shows "dom_inv g rpo (Suc i) idom'"
proof -
  note ok = dom_invD(1) [OF inv]
  have rk: "rank rpo k = i" using rank_nth [OF g(4) i(1)] i(2) by simp
  have d_f: "d \<in> anc idom f" using d(2) f(1,2) anc_refl [of d idom] by blast
  then have rd: "rank rpo d < i" using anc_rank_le [OF ok d_f f(2)] f(3) by simp
  have kr: "k \<in> set rpo" using i by simp
  have ok': "tree_ok rpo idom'" by (rule tree_ok_moved [OF ok new d(1)]) (use rd rk kr i(3) g(3) in auto)
  have same: "anc idom' a = anc idom a" if "a \<in> dom (map_of idom)" "rank rpo a < i" for a
    using anc_rank_le [OF ok _ that(1), of k] rk that(2) by (intro anc_moved_same [OF new]) auto
  have same_d: "anc idom' d = anc idom d" by (rule same [OF d(1) rd])
  have less: "anc idom' a \<subseteq> anc idom a" if a: "a \<in> dom (map_of idom)" for a
  proof (cases "map_of idom k")
    case None
    then have "k \<notin> anc idom a" using anc_rank [OF ok _ a] by auto
    then show ?thesis by (simp add: anc_moved_same [OF new])
  next
    case (Some e)
    have "d \<in> anc idom e" by (rule dom_invD(3) [OF inv Some i(3)]) (use d(2) anc_refl [of d idom] in auto)
    then show ?thesis by (rule anc_moved_less [OF new Some])
  qed
  have high: "x \<in> anc idom' a" if "x \<in> anc idom a" "a \<in> dom (map_of idom)" "i \<le> rank rpo x" for a x
    using anc_moved_high [OF ok new that(1,2)] that(3) rk by simp
  have dom': "dom (map_of idom') = insert k (dom (map_of idom))" using new by auto
  have k': "anc idom' k = insert k (anc idom d)" using anc_step [of idom' k d] new same_d by simp
  text \<open>common ancestors\<close>
  have A: "x \<in> anc idom' d'" if kd: "map_of idom' j = Some d'" "j \<noteq> g_entry g"
    and x: "\<And>p. p \<in> set (preds_of g j) \<Longrightarrow> p \<in> dom (map_of idom') \<Longrightarrow> x \<in> anc idom' p" for j d' x
  proof (cases "j = k")
    case True
    then have "d' = d" using kd(1) new by simp
    have "x \<in> anc idom p" if "p \<in> set (preds_of g k) \<inter> dom (map_of idom)" for p
      using x [of p] that less [of p] True by (auto simp: dom')
    then show ?thesis using d(2) same_d \<open>d' = d\<close> by blast
  next
    case False
    then have old: "map_of idom j = Some d'" using kd(1) new by simp
    then have d'd: "d' \<in> dom (map_of idom)" using ok by (auto simp: tree_ok_def)
    have xo: "x \<in> anc idom d'"
      by (rule dom_invD(3) [OF inv old kd(2)]) (use x less in \<open>auto simp: dom'\<close>)
    show ?thesis
    proof (cases "k \<in> anc idom d' \<and> rank rpo x < i")
      case True
      from dom_invD(4) [OF inv old kd(2)] obtain f' where f': "f' \<in> set (preds_of g j)" "f' \<in> dom (map_of idom)"
        "k \<in> anc idom f'" using True rk by auto
      have "k \<in> anc idom' f'" "x \<in> anc idom' f'" using high [OF f'(3,2)] rk x [OF f'(1)] f'(2) by (auto simp: dom')
      then have "x \<in> anc idom' k" using anc_linear [OF ok' _ _ _, of f' x k] f'(2) True rk by (auto simp: dom')
      moreover have "k \<in> anc idom' d'" using high [of k d'] True d'd rk by auto
      ultimately show ?thesis by (blast intro: anc_trans)
    next
      case False
      then show ?thesis using high [OF xo d'd] anc_moved_same [OF new, of d'] xo by auto
    qed
  qed
  text \<open>an earlier predecessor\<close>
  have B: "\<exists>f \<in> set (preds_of g j) \<inter> dom (map_of idom'). rank rpo f < rank rpo j \<and>
      (\<forall>m \<in> anc idom' d'. rank rpo j < Suc i \<or> Suc i \<le> rank rpo m \<longrightarrow> m \<in> anc idom' f)"
    if kd: "map_of idom' j = Some d'" "j \<noteq> g_entry g" for j d'
  proof (cases "j = k")
    case True
    then have "d' = d" using kd(1) new by simp
    have "anc idom' d \<subseteq> anc idom' f" using same_d same [OF f(2,3)] d(2) f(1,2) by auto
    then show ?thesis using True \<open>d' = d\<close> f rk by (intro bexI [of _ f]) (auto simp: dom')
  next
    case False
    then have old: "map_of idom j = Some d'" using kd(1) new by simp
    then have d'd: "d' \<in> dom (map_of idom)" "j \<in> set rpo" using ok by (auto simp: tree_ok_def)
    have ne: "rank rpo j \<noteq> i" using False rk rank_inj [OF d'd(2) kr] by auto
    from dom_invD(4) [OF inv old kd(2)] obtain f' where f': "f' \<in> set (preds_of g j)" "f' \<in> dom (map_of idom)"
      "rank rpo f' < rank rpo j" "\<forall>m \<in> anc idom d'. rank rpo j < i \<or> i \<le> rank rpo m \<longrightarrow> m \<in> anc idom f'" by auto
    have "m \<in> anc idom' f'" if m: "m \<in> anc idom' d'" "rank rpo j < Suc i \<or> Suc i \<le> rank rpo m" for m
    proof -
      have mo: "m \<in> anc idom f'" using f'(4) m less [OF d'd(1)] ne by auto
      show ?thesis using m(2) same [OF f'(2)] f'(3) ne mo high [OF mo f'(2)] by auto
    qed
    then show ?thesis using f' by (intro bexI [of _ f']) (auto simp: dom')
  qed
  text \<open>dominators\<close>
  have D: "x \<in> anc idom' a" if a: "a \<in> dom (map_of idom')" and x: "dominates g x a" for a x
  proof -
    have at_k: "x \<in> anc idom' k" if x: "dominates g x k" for x
    proof (cases "x = k")
      case False
      have "x \<in> anc idom p" if "p \<in> set (preds_of g k) \<inter> dom (map_of idom)" for p
      proof -
        have "p \<in> reachable_blocks g" "k \<in> set (succs_of g p)"
          using that ok g(1,2) by (auto simp: tree_ok_def linked_def)
        then have "dominates g x p" using dominates_pred [OF x False] by blast
        then show ?thesis using dom_invD(5) [OF inv] that by auto
      qed
      then show ?thesis using d(2) k' by blast
    qed (simp add: k')
    show ?thesis
    proof (cases "a = k")
      case False
      then have ad: "a \<in> dom (map_of idom)" using a by (simp add: dom')
      have xo: "x \<in> anc idom a" by (rule dom_invD(5) [OF inv ad x])
      show ?thesis
      proof (cases "k \<in> anc idom a \<and> rank rpo x < i")
        case True
        then have "dominates g x k" using dominates_between [OF inv g(1,2) _ ad _ x] rk by auto
        moreover have "k \<in> anc idom' a" using high [of k a] True ad rk by auto
        ultimately show ?thesis using at_k by (blast intro: anc_trans)
      next
        case False
        then show ?thesis using high [OF xo ad] anc_moved_same [OF new, of a] xo by auto
      qed
    qed (use at_k x in simp)
  qed
  have P: "\<forall>j < Suc i. rpo ! j \<in> dom (map_of idom')"
    using dom_invD(2) [OF inv] i(2) by (auto simp: dom' less_Suc_eq)
  show ?thesis
    unfolding dom_inv_def using ok' P A B D by auto
qed

subsection \<open>The iteration\<close>

definition dom_measure :: "nat list \<Rightarrow> (nat \<times> nat) list \<Rightarrow> nat" where
  "dom_measure rpo idom =
     (\<Sum>k \<in> set rpo. case map_of idom k of None \<Rightarrow> length rpo | Some d \<Rightarrow> rank rpo d)"

lemma dom_measure_moved:
  assumes k: "k \<in> set rpo" and new: "map_of idom' = (map_of idom)(k \<mapsto> d)" and d: "d \<in> set rpo"
    and e: "\<And>e. map_of idom k = Some e \<Longrightarrow> rank rpo d < rank rpo e"
  shows "dom_measure rpo idom' < dom_measure rpo idom"
  unfolding dom_measure_def
proof (rule sum_strict_mono_ex1)
  show "\<forall>x \<in> set rpo. (case map_of idom' x of None \<Rightarrow> length rpo | Some d \<Rightarrow> rank rpo d)
      \<le> (case map_of idom x of None \<Rightarrow> length rpo | Some d \<Rightarrow> rank rpo d)"
    using new e rank_less [OF d] by (auto split: option.splits intro: less_imp_le)
  show "\<exists>a \<in> set rpo. (case map_of idom' a of None \<Rightarrow> length rpo | Some d \<Rightarrow> rank rpo d)
      < (case map_of idom a of None \<Rightarrow> length rpo | Some d \<Rightarrow> rank rpo d)"
    using k new e rank_less [OF d] by (intro bexI [OF _ k]) (auto split: option.splits)
qed simp

definition good_order :: "cfg \<Rightarrow> nat list \<Rightarrow> bool" where
  "good_order g rpo = (linked g \<and> rpo = reverse_postorder g)"

lemma good_orderD:
  assumes "good_order g rpo"
  shows "linked g" "rpo = reverse_postorder g" "set rpo = reachable_blocks g" "hd rpo = g_entry g" "distinct rpo" "rpo \<noteq> []"
  using assms reverse_postorder_spec [of g] by (auto simp: good_order_def)

text \<open>The immediate dominator that a visit computes.\<close>

lemma visit_intersection:
  assumes ok: "tree_ok rpo idom" and before: "\<And>j. j < i \<Longrightarrow> rpo ! j \<in> dom (map_of idom)"
    and g: "good_order g rpo" and i: "i < length rpo" "k = rpo ! i" "k \<noteq> g_entry g"
  obtains f p ps d where "f \<in> set (preds_of g k)" "f \<in> dom (map_of idom)" "rank rpo f < i"
    "filter (\<lambda>p. map_of idom p \<noteq> None) (preds_of g k) = p # ps" "intersect_all idom rpo p ps = Some d"
    "d \<in> dom (map_of idom)" "anc idom d = (\<Inter>p \<in> set (preds_of g k) \<inter> dom (map_of idom). anc idom p)"
proof -
  note go = good_orderD [OF g]
  have rk: "rank rpo k = i" "k \<in> set rpo" using rank_nth [OF go(5) i(1)] i by auto
  from earlier_predecessor [OF go(2) rk(2) i(3)] obtain f where f: "f \<in> set rpo" "k \<in> set (succs_of g f)" "rank rpo f < i"
    using rk(1) by auto
  have fd: "f \<in> dom (map_of idom)" using before [OF f(3)] nth_rank [OF f(1)] by simp
  have fp: "f \<in> set (preds_of g k)" using f(2) go(1) by (simp add: linked_def)
  let ?qs = "filter (\<lambda>p. map_of idom p \<noteq> None) (preds_of g k)"
  have qs: "set ?qs = set (preds_of g k) \<inter> dom (map_of idom)" by auto
  with fd fp have "f \<in> set ?qs" by blast
  then obtain p ps where ps: "?qs = p # ps" by (metis list.exhaust emptyE list.set(1))
  have pps: "set (p # ps) = set (preds_of g k) \<inter> dom (map_of idom)" using qs ps by metis
  then have "p \<in> dom (map_of idom)" "set ps \<subseteq> dom (map_of idom)" by auto
  from intersect_all_correct [OF ok go(5) this] obtain d where
    "intersect_all idom rpo p ps = Some d" "d \<in> dom (map_of idom)" "anc idom d = (\<Inter>q \<in> set (p # ps). anc idom q)" by auto
  then show ?thesis using that [OF fp fd f(3) ps] pps by metis
qed

lemma dom_visit_step:
  assumes inv: "dom_inv g rpo i idom" and g: "good_order g rpo" and i: "i < length rpo"
  obtains idom' ch' where "dom_visit g rpo (rpo ! i) (idom, ch) = Some (idom', ch')" "dom_inv g rpo (Suc i) idom'"
    "idom' = idom \<and> ch' = ch \<or> ch' \<and> dom_measure rpo idom' < dom_measure rpo idom"
proof (cases "rpo ! i = g_entry g")
  case True
  note go = good_orderD [OF g]
  have "i = 0" using True go(4,5,6) i nth_eq_iff_index_eq [of rpo i 0] by (simp add: hd_conv_nth)
  have "dom_inv g rpo (Suc i) idom"
  proof (rule dom_inv_same [OF inv])
    show "rpo ! i \<in> dom (map_of idom)" using dom_invD(1) [OF inv] True go(4) by (auto simp: tree_ok_def)
    fix k assume "rank rpo k = i" "k \<in> dom (map_of idom)" "k \<noteq> g_entry g"
    then show "\<exists>f \<in> set (preds_of g k) \<inter> dom (map_of idom). rank rpo f < rank rpo k \<and> anc idom (the (map_of idom k)) \<subseteq> anc idom f"
      using nth_rank [of k rpo] dom_invD(1) [OF inv] True by (auto simp: tree_ok_def)
  qed
  then show ?thesis using that [of idom ch] True by (simp add: dom_visit_def)
next
  case False
  note go = good_orderD [OF g]
  note ok = dom_invD(1) [OF inv]
  define k where "k = rpo ! i"
  have rk: "rank rpo k = i" "k \<in> set rpo" using rank_nth [OF go(5) i] i by (auto simp: k_def)
  from visit_intersection [OF ok dom_invD(2) [OF inv] g i k_def] False obtain f p ps d where
    f: "f \<in> set (preds_of g k)" "f \<in> dom (map_of idom)" "rank rpo f < i"
    and ps: "filter (\<lambda>p. map_of idom p \<noteq> None) (preds_of g k) = p # ps" "intersect_all idom rpo p ps = Some d"
    and d: "d \<in> dom (map_of idom)" "anc idom d = (\<Inter>p \<in> set (preds_of g k) \<inter> dom (map_of idom). anc idom p)"
    by (metis k_def)
  have visit: "dom_visit g rpo k (idom, ch) = Some (if map_of idom k \<noteq> Some d then (put_item k d idom, True) else (idom, ch))"
    using False ps by (simp add: dom_visit_def k_def [symmetric])
  show ?thesis
  proof (cases "map_of idom k = Some d")
    case True
    have "dom_inv g rpo (Suc i) idom"
    proof (rule dom_inv_same [OF inv])
      show "rpo ! i \<in> dom (map_of idom)" using True by (auto simp: k_def)
      fix j assume j: "rank rpo j = i" "j \<in> dom (map_of idom)" "j \<noteq> g_entry g"
      then have "j = k" using rank_inj [of j rpo k] rk ok by (auto simp: tree_ok_def)
      then show "\<exists>f \<in> set (preds_of g j) \<inter> dom (map_of idom). rank rpo f < rank rpo j \<and>
          anc idom (the (map_of idom j)) \<subseteq> anc idom f"
        using True f d(2) rk by (intro bexI [of _ f]) auto
    qed
    then show ?thesis using that [of idom ch] visit True by (simp add: k_def)
  next
    case change: False
    have new: "map_of (put_item k d idom) = (map_of idom)(k \<mapsto> d)" by simp
    have "dom_inv g rpo (Suc i) (put_item k d idom)"
      by (rule dom_inv_moved [OF inv go(1,3,4,5) i k_def _ new d f]) (use False in \<open>simp add: k_def\<close>)
    moreover have "dom_measure rpo (put_item k d idom) < dom_measure rpo idom"
    proof (rule dom_measure_moved [OF rk(2) new])
      show "d \<in> set rpo" using d(1) ok by (auto simp: tree_ok_def)
      fix e assume e: "map_of idom k = Some e"
      have "d \<in> anc idom e"
        by (rule dom_invD(3) [OF inv e]) (use False d(2) anc_refl [of d idom] in \<open>auto simp: k_def\<close>)
      moreover have "e \<in> dom (map_of idom)" using e ok by (auto simp: tree_ok_def)
      ultimately show "rank rpo d < rank rpo e" using anc_rank [OF ok, of d e] change e by auto
    qed
    ultimately show ?thesis using that [of "put_item k d idom" True] visit change by (simp add: k_def)
  qed
qed

lemma dom_pass_steps:
  assumes g: "good_order g rpo"
  shows "dom_inv g rpo i idom \<Longrightarrow> i \<le> length rpo \<Longrightarrow>
    \<exists>idom' ch'. dom_pass g rpo (drop i rpo) (idom, ch) = Some (idom', ch') \<and> dom_inv g rpo (length rpo) idom' \<and>
      (idom' = idom \<and> ch' = ch \<or> ch' \<and> dom_measure rpo idom' < dom_measure rpo idom)"
proof (induction "length rpo - i" arbitrary: i idom ch)
  case (Suc n)
  then have i: "i < length rpo" by simp
  from dom_visit_step [OF Suc.prems(1) g i, of ch] obtain idom1 ch1 where
    1: "dom_visit g rpo (rpo ! i) (idom, ch) = Some (idom1, ch1)" "dom_inv g rpo (Suc i) idom1"
    "idom1 = idom \<and> ch1 = ch \<or> ch1 \<and> dom_measure rpo idom1 < dom_measure rpo idom" by blast
  have "n = length rpo - Suc i" "Suc i \<le> length rpo" using Suc.hyps(2) i by auto
  from Suc.hyps(1) [OF this(1) 1(2) this(2), of ch1] obtain idom2 ch2 where
    2: "dom_pass g rpo (drop (Suc i) rpo) (idom1, ch1) = Some (idom2, ch2)" "dom_inv g rpo (length rpo) idom2"
    "idom2 = idom1 \<and> ch2 = ch1 \<or> ch2 \<and> dom_measure rpo idom2 < dom_measure rpo idom1" by auto
  have "dom_pass g rpo (drop i rpo) (idom, ch) = Some (idom2, ch2)"
    using 1(1) 2(1) by (simp add: Cons_nth_drop_Suc [OF i, symmetric])
  then show ?case using 1(3) 2(2,3) by auto
qed simp

lemma dom_inv_restart:
  assumes inv: "dom_inv g rpo (length rpo) idom"
  shows "dom_inv g rpo 0 idom"
proof -
  note ok = dom_invD(1) [OF inv]
  have all: "rank rpo k < length rpo" if "map_of idom k = Some d" for k d
    using that ok by (intro rank_less) (auto simp: tree_ok_def)
  have "\<exists>f \<in> set (preds_of g k) \<inter> dom (map_of idom). rank rpo f < rank rpo k \<and>
      (\<forall>m \<in> anc idom d. rank rpo k < 0 \<or> 0 \<le> rank rpo m \<longrightarrow> m \<in> anc idom f)"
    if kd: "map_of idom k = Some d" "k \<noteq> g_entry g" for k d
    using dom_invD(4) [OF inv kd] all [OF kd(1)] by blast
  then show ?thesis
    unfolding dom_inv_def using ok dom_invD(3,5) [OF inv] by blast
qed

text \<open>What holds when a pass changes nothing.\<close>

definition dom_fixed :: "cfg \<Rightarrow> nat list \<Rightarrow> (nat \<times> nat) list \<Rightarrow> bool" where
  "dom_fixed g rpo idom =
     (dom_inv g rpo (length rpo) idom \<and> dom_pass g rpo rpo (idom, False) = Some (idom, False))"

lemma dom_loop_returns:
  assumes g: "good_order g rpo"
  shows "dom_inv g rpo 0 idom \<Longrightarrow> \<exists>idom'. dom_loop g rpo idom = Some idom' \<and> dom_fixed g rpo idom'"
proof (induction "dom_measure rpo idom" arbitrary: idom rule: less_induct)
  case less
  from dom_pass_steps [OF g less.prems, of False] obtain idom' ch' where
    pass: "dom_pass g rpo rpo (idom, False) = Some (idom', ch')" "dom_inv g rpo (length rpo) idom'"
    "idom' = idom \<and> \<not> ch' \<or> ch' \<and> dom_measure rpo idom' < dom_measure rpo idom" by auto
  show ?case
  proof (cases ch')
    case True
    from less.hyps [OF _ dom_inv_restart [OF pass(2)]] pass(1,3) True show ?thesis by (subst dom_loop.simps) auto
  next
    case False
    then show ?thesis using pass by (subst dom_loop.simps) (auto simp: dom_fixed_def)
  qed
qed

lemma dom_inv_start:
  assumes g: "good_order g rpo"
  shows "dom_inv g rpo 0 [(g_entry g, g_entry g)]"
proof -
  have "x = g_entry g" if "dominates g x (g_entry g)" for x
    using that avoid_entry [of g x] by (auto simp: dominates_def)
  then have "x \<in> anc [(g_entry g, g_entry g)] (g_entry g)" if "dominates g x (g_entry g)" for x
    using that by (metis anc_refl)
  then show ?thesis using good_orderD [OF g] by (auto simp: dom_inv_def tree_ok_def intro: reach_entry split: if_splits)
qed

subsection \<open>Exactness\<close>

lemma visit_flag: "dom_visit g rpo k st = Some st' \<Longrightarrow> st' = st \<or> snd st'"
  by (auto simp: dom_visit_def Let_def split: if_splits prod.splits list.splits Option.bind_splits)

lemma pass_flag: "dom_pass g rpo ks st = Some st' \<Longrightarrow> snd st \<Longrightarrow> snd st'"
proof (induction ks arbitrary: st)
  case (Cons k ks)
  then show ?case using visit_flag [of g rpo k st] by (auto split: Option.bind_splits)
qed simp

lemma pass_unchanged:
  "dom_pass g rpo ks st = Some st' \<Longrightarrow> \<not> snd st' \<Longrightarrow> st' = st \<and> (\<forall>k \<in> set ks. dom_visit g rpo k st = Some st)"
proof (induction ks arbitrary: st)
  case (Cons k ks)
  then obtain st1 where 1: "dom_visit g rpo k st = Some st1" "dom_pass g rpo ks st1 = Some st'"
    by (auto split: Option.bind_splits)
  then have "st1 = st" using visit_flag [OF 1(1)] pass_flag [OF 1(2)] Cons.prems(2) by blast
  then show ?case using Cons.IH [OF 1(2)] 1 Cons.prems(2) by simp
qed simp

lemma fixed_predecessor:
  assumes fixed: "dom_fixed g rpo idom" and g: "good_order g rpo"
    and s: "s \<in> set (succs_of g k)" "k \<in> reachable_blocks g" "s \<noteq> g_entry g" "map_of idom s = Some d"
  shows "anc idom d \<subseteq> anc idom k"
proof -
  note go = good_orderD [OF g]
  have inv: "dom_inv g rpo (length rpo) idom" using fixed by (simp add: dom_fixed_def)
  note ok = dom_invD(1) [OF inv]
  have all: "x \<in> dom (map_of idom)" if "x \<in> set rpo" for x
    using dom_invD(2) [OF inv rank_less [OF that]] nth_rank [OF that] by simp
  have s_rpo: "s \<in> set rpo" using s(1,2) go(3) reach_edge by metis
  have before: "rpo ! j \<in> dom (map_of idom)" if "j < rank rpo s" for j
    using that rank_less [OF s_rpo] by (intro all) auto
  from visit_intersection [OF ok before g rank_less [OF s_rpo] nth_rank [OF s_rpo, symmetric] s(3)] obtain p ps e where
    e: "filter (\<lambda>p. map_of idom p \<noteq> None) (preds_of g s) = p # ps" "intersect_all idom rpo p ps = Some e"
    "anc idom e = (\<Inter>p \<in> set (preds_of g s) \<inter> dom (map_of idom). anc idom p)" by metis
  have "dom_visit g rpo s (idom, False) = Some (idom, False)"
    using fixed s_rpo pass_unchanged [of g rpo rpo "(idom, False)" "(idom, False)"] by (auto simp: dom_fixed_def)
  then have "map_of idom s = Some e" using s(3) e(1,2) by (auto simp: dom_visit_def split: if_splits)
  then have "d = e" using s(4) by simp
  moreover have "k \<in> set (preds_of g s) \<inter> dom (map_of idom)"
    using s(1,2) all go(1,3) by (auto simp: linked_def)
  ultimately show ?thesis using e(3) by blast
qed

lemma fixed_sound:
  assumes fixed: "dom_fixed g rpo idom" and g: "good_order g rpo" and k: "k \<in> reachable_avoiding g x"
  shows "x \<notin> anc idom k"
proof -
  note go = good_orderD [OF g]
  have inv: "dom_inv g rpo (length rpo) idom" using fixed by (simp add: dom_fixed_def)
  note ok = dom_invD(1) [OF inv]
  have entry: "x = g_entry g" if "x \<in> anc idom (g_entry g)" for x
  proof -
    have "g_entry g \<in> dom (map_of idom)" using ok go(4) by (auto simp: tree_ok_def)
    moreover have "rank rpo (g_entry g) = 0" using go(4,6) by (cases rpo) (auto simp: rank_def)
    ultimately show ?thesis using anc_rank [OF ok that] by auto
  qed
  show ?thesis using k
  proof (induction rule: reachable_avoiding.induct)
    case (avoid_edge k s)
    have "s \<noteq> g_entry g \<Longrightarrow> map_of idom s \<noteq> None"
      using dom_invD(2) [OF inv rank_less, of s] nth_rank [of s rpo] go(3)
        reach_edge [OF avoiding_reachable [OF avoid_edge.hyps(1)] avoid_edge.hyps(2)] by auto
    then consider "s = g_entry g" | d where "s \<noteq> g_entry g" "map_of idom s = Some d" by blast
    then show ?case
    proof cases
      case 1
      then show ?thesis using entry avoid_edge.hyps(3) by auto
    next
      case 2
      then show ?thesis
        using fixed_predecessor [OF fixed g avoid_edge.hyps(2) avoiding_reachable [OF avoid_edge.hyps(1)] 2]
          avoid_edge.IH avoid_edge.hyps(3) by (auto simp: anc_step [OF 2(2)])
    qed
  qed (use entry in auto)
qed

lemma compute_dominators_spec:
  assumes "linked g"
  obtains idom where "compute_dominators g = Some idom" "tree_ok (reverse_postorder g) idom"
    "dom (map_of idom) = reachable_blocks g" "\<And>k. k \<in> reachable_blocks g \<Longrightarrow> anc idom k = {x. dominates g x k}"
proof -
  define rpo where "rpo = reverse_postorder g"
  have g: "good_order g rpo" using assms by (simp add: good_order_def rpo_def)
  note go = good_orderD [OF g]
  from dom_loop_returns [OF g dom_inv_start [OF g]] obtain idom where
    loop: "dom_loop g rpo [(g_entry g, g_entry g)] = Some idom" and fixed: "dom_fixed g rpo idom" by blast
  have inv: "dom_inv g rpo (length rpo) idom" using fixed by (simp add: dom_fixed_def)
  note ok = dom_invD(1) [OF inv]
  have "x \<in> dom (map_of idom)" if "x \<in> set rpo" for x
    using dom_invD(2) [OF inv rank_less [OF that]] nth_rank [OF that] by simp
  then have dom: "dom (map_of idom) = set rpo" using ok by (auto simp: tree_ok_def)
  have "filter (\<lambda>(k, d). k \<in> set rpo) idom = idom"
    using dom by (intro filter_True) (force simp: dom_map_of_conv_image_fst)
  then have "compute_dominators g = Some idom" using loop by (simp add: compute_dominators_def rpo_def)
  moreover have "anc idom k = {x. dominates g x k}" if "k \<in> reachable_blocks g" for k
    using fixed_sound [OF fixed g, of k] dom_invD(5) [OF inv, of k] that dom go(3) by (auto simp: dominates_def)
  ultimately show ?thesis using that ok dom go(3) by (simp add: rpo_def)
qed

subsection \<open>The graph of a body\<close>

lemma block_successors_range:
  assumes "block_successors (label_to_block blocks) (length blocks) k bb = Some ss" "s \<in> set ss"
  shows "s < length blocks"
  using assms label_to_block_Some [of blocks]
  by (auto simp: block_successors_def Let_def map_option_comp_Some split: option.splits instr.splits if_splits)

lemma build_cfg_linked:
  assumes "build_cfg b = Some g"
  shows "linked g"
proof -
  define blocks where "blocks = build_blocks b (identify_block_starts b)"
  note facts = build_cfg_block [OF assms, folded blocks_def]
  have "s < length blocks" if "s \<in> set (succs_of g k)" for s k
    using that facts(5) [of k] facts(1) block_successors_range [of blocks k "blocks ! k" "succs_of g k" s]
    by (auto simp: succs_of_def split: if_splits)
  moreover have "k \<in> set (preds_of g s) \<longleftrightarrow> s \<in> set (succs_of g k)" if "s < length blocks" for s k
  proof -
    have "k \<in> set (preds_of g s) \<longleftrightarrow> count_list (preds_of g s) k \<noteq> 0" by (simp add: count_list_zero_iff)
    also have "\<dots> \<longleftrightarrow> count_list (succs_of g k) s \<noteq> 0"
      using facts(5) [OF that] facts(1) that by (simp add: preds_of_def succs_of_def)
    finally show ?thesis by (simp add: count_list_zero_iff)
  qed
  moreover have "preds_of g s = []" if "\<not> s < length blocks" for s
    using that facts(1) by (simp add: preds_of_def)
  ultimately show ?thesis unfolding linked_def by (metis list.set(1) empty_iff)
qed

end
