(* ===== verification/Loop_Facts.thy ===== *)
theory Loop_Facts
  imports Loop_Strings Dominators
begin

text \<open>
  What \<^verbatim>\<open>cc/loops.py\<close> finds: the dominators of each block, and natural loops, whose body is the header and the
  blocks that reach a latch without passing it, all of them dominated by the header; and what it puts in the
  place of a string loop.
\<close>

subsection \<open>Sets of dominators\<close>

lemma idom_chain_returns:
  assumes ok: "tree_ok rpo idom"
  shows "k \<in> dom (map_of idom) \<Longrightarrow> \<exists>chain. idom_chain idom k = Some chain \<and> set chain = anc idom k"
proof (induction "rank rpo k" arbitrary: k rule: less_induct)
  case less
  then obtain d where d: "map_of idom k = Some d" by auto
  show ?case
  proof (cases "d = k")
    case True
    have "b = k" if "b \<in> anc idom k" for b
      using that unfolding anc_def mem_Collect_eq
      by (induction rule: rtrancl_induct) (use d True in \<open>auto simp: up_def\<close>)
    then have "anc idom k = {k}" by auto
    moreover have "idom_chain idom k = Some [k]" using d True by (subst idom_chain.simps) simp
    ultimately show ?thesis by simp
  next
    case False
    then have "k \<noteq> hd rpo" using d ok by (auto simp: tree_ok_def)
    then have "rank rpo d < rank rpo k" "d \<in> dom (map_of idom)" using d ok by (auto simp: tree_ok_def)
    from less.hyps [OF this] obtain chain where "idom_chain idom d = Some chain" "set chain = anc idom d" by blast
    then show ?thesis using d False by (subst idom_chain.simps) (simp add: anc_step)
  qed
qed

lemma map_of_keyed: "map_of (map (\<lambda>(k, _). (k, f k)) xs) k = (if k \<in> fst ` set xs then Some (f k) else None)"
  by (induction xs) auto

lemma dominator_sets_spec:
  assumes ok: "tree_ok rpo idom"
  obtains doms where "dominator_sets idom = Some doms" "dom (map_of doms) = dom (map_of idom)"
    "\<And>k ds. map_of doms k = Some ds \<Longrightarrow> set ds = anc idom k"
proof -
  define f where "f k = the (idom_chain idom k)" for k
  have chain: "idom_chain idom k = Some (f k) \<and> set (f k) = anc idom k" if "k \<in> dom (map_of idom)" for k
    using idom_chain_returns [OF ok that] unfolding f_def by (metis option.sel)
  have "(\<lambda>(k, _). map_option (Pair k) (idom_chain idom k)) x = (Some \<circ> (\<lambda>(k, _). (k, f k))) x" if "x \<in> set idom" for x
    using chain [of "fst x"] imageI [OF that, of fst] by (cases x) (simp add: dom_map_of_conv_image_fst)
  then have "map (\<lambda>(k, _). map_option (Pair k) (idom_chain idom k)) idom = map Some (map (\<lambda>(k, _). (k, f k)) idom)"
    unfolding map_map by (rule map_cong [OF refl])
  then have "dominator_sets idom = Some (map (\<lambda>(k, _). (k, f k)) idom)"
    by (simp add: dominator_sets_def sequence_opt_Some_iff)
  moreover have "dom (map_of (map (\<lambda>(k, _). (k, f k)) idom)) = dom (map_of idom)"
    by (force simp: dom_map_of_conv_image_fst)
  moreover have "set ds = anc idom k" if "map_of (map (\<lambda>(k, _). (k, f k)) idom) k = Some ds" for k ds
    using that chain [of k] by (auto simp: map_of_keyed dom_map_of_conv_image_fst split: if_splits)
  ultimately show ?thesis using that by blast
qed

lemma dominator_sets_exact:
  assumes "linked g"
  obtains idom doms where "compute_dominators g = Some idom" "dominator_sets idom = Some doms"
    "dom (map_of doms) = reachable_blocks g" "\<And>k ds. map_of doms k = Some ds \<Longrightarrow> set ds = {x. dominates g x k}"
proof -
  from compute_dominators_spec [OF assms] obtain idom where 1: "compute_dominators g = Some idom"
    "tree_ok (reverse_postorder g) idom" "dom (map_of idom) = reachable_blocks g"
    "\<And>k. k \<in> reachable_blocks g \<Longrightarrow> anc idom k = {x. dominates g x k}" by blast
  from dominator_sets_spec [OF 1(2)] obtain doms where 2: "dominator_sets idom = Some doms"
    "dom (map_of doms) = dom (map_of idom)" "\<And>k ds. map_of doms k = Some ds \<Longrightarrow> set ds = anc idom k" by blast
  have "set ds = {x. dominates g x k}" if "map_of doms k = Some ds" for k ds
  proof -
    have "k \<in> reachable_blocks g" using that 1(3) 2(2) by (auto simp: dom_def)
    then show ?thesis using 1(4) 2(3) [OF that] by simp
  qed
  then show ?thesis using that 1(1,3) 2(1,2) by blast
qed

text \<open>
  C4. For every body whose branches have their labels, the iteration for dominators ends, and the set of
  dominators of each block that can be reached holds exactly the blocks that every path from the entry passes.
\<close>

theorem dominators_exact:
  assumes "build_cfg b = Some g"
  shows "\<exists>idom doms. compute_dominators g = Some idom \<and> dominator_sets idom = Some doms \<and>
    dom (map_of doms) = reachable_blocks g \<and> (\<forall>k ds. map_of doms k = Some ds \<longrightarrow> set ds = {x. dominates g x k})"
  using dominator_sets_exact [OF build_cfg_linked [OF assms]] by metis

definition nested_loops :: "instr list" where
  "nested_loops = [Label ''.outer'', BranchFalse (VName ''i'') ''<'' (VName ''n'') ''.done'', Label ''.inner'',
     BranchFalse (VName ''j'') ''<'' (VName ''m'') ''.step'', BinaryOperation ''j'' (VName ''j'') ''+'' (VInt 1), Jump ''.inner'',
     Label ''.step'', BinaryOperation ''i'' (VName ''i'') ''+'' (VInt 1), Jump ''.outer'', Label ''.done'', Return None]"

lemma dominators_exact_witness:
  "\<exists>g idom doms. build_cfg nested_loops = Some g \<and> compute_dominators g = Some idom \<and> dominator_sets idom = Some doms \<and>
     {0, 1} \<subseteq> dom (map_of doms)"
proof -
  have "build_cfg nested_loops \<noteq> None" by code_simp
  then obtain g where g: "build_cfg nested_loops = Some g" by blast
  have "(case build_cfg nested_loops of None \<Rightarrow> False | Some g \<Rightarrow> g_entry g = 0 \<and> 1 \<in> set (succs_of g 0))" by code_simp
  then have "g_entry g = 0" "1 \<in> set (succs_of g 0)" using g by auto
  then have "{0, 1} \<subseteq> reachable_blocks g" using reach_entry [of g] reach_edge [of 0 g 1] by auto
  then show ?thesis using dominators_exact [OF g] g by metis
qed

subsection \<open>Natural loops\<close>

text \<open>The blocks from which a latch is reached without passing the header.\<close>

inductive_set latch_reaching :: "cfg \<Rightarrow> nat \<Rightarrow> nat set \<Rightarrow> nat set" for g :: cfg and header :: nat and latches :: "nat set" where
  at_latch: "latch \<in> latches \<Longrightarrow> latch \<noteq> header \<Longrightarrow> latch \<in> latch_reaching g header latches"
| before: "k \<in> latch_reaching g header latches \<Longrightarrow> k \<in> set (succs_of g p) \<Longrightarrow> p \<noteq> header \<Longrightarrow>
    p \<in> latch_reaching g header latches"

lemma push_predecessors_spec:
  "push_predecessors header ps body stack = (body', stack') \<Longrightarrow>
   set body' = set body \<union> (set ps - {header}) \<and> set stack' = set stack \<union> (set ps - {header} - set body)"
  by (induction header ps body stack rule: push_predecessors.induct) (auto split: if_splits)

lemma loop_walk_spec:
  assumes "header \<in> set body" "set stack \<subseteq> set body \<inter> R" "set body - {header} \<subseteq> R"
    and "\<And>k. k \<in> set body \<Longrightarrow> k \<noteq> header \<Longrightarrow> k \<notin> set stack \<Longrightarrow> set (preds_of g k) \<subseteq> set body"
    and "\<And>k. k \<in> R \<Longrightarrow> set (preds_of g k) - {header} \<subseteq> R"
  shows "set body \<subseteq> set (loop_walk g header body stack) \<and> set (loop_walk g header body stack) - {header} \<subseteq> R \<and>
    (\<forall>k \<in> set (loop_walk g header body stack) - {header}. set (preds_of g k) \<subseteq> set (loop_walk g header body stack))"
  using assms
proof (induction g header body stack rule: loop_walk.induct)
  case (2 g header body k stack)
  define body' where "body' = fst (push_predecessors header (preds_of g k) body stack)"
  define stack' where "stack' = snd (push_predecessors header (preds_of g k) body stack)"
  have new: "set body' = set body \<union> (set (preds_of g k) - {header})"
    "set stack' = set stack \<union> (set (preds_of g k) - {header} - set body)"
    using push_predecessors_spec [of header "preds_of g k" body stack body' stack'] by (simp_all add: body'_def stack'_def)
  have kR: "k \<in> R" using "2.prems"(2) by simp
  have "set body' \<subseteq> set (loop_walk g header body' stack') \<and> set (loop_walk g header body' stack') - {header} \<subseteq> R \<and>
      (\<forall>k \<in> set (loop_walk g header body' stack') - {header}. set (preds_of g k) \<subseteq> set (loop_walk g header body' stack'))"
  proof (rule "2.IH" [folded body'_def stack'_def])
    show "header \<in> set body'" using "2.prems"(1) new by simp
    show "set stack' \<subseteq> set body' \<inter> R" using "2.prems"(2) "2.prems"(5) [OF kR] new by auto
    show "set body' - {header} \<subseteq> R" using "2.prems"(3) "2.prems"(5) [OF kR] new by auto
    fix j assume j: "j \<in> set body'" "j \<noteq> header" "j \<notin> set stack'"
    show "set (preds_of g j) \<subseteq> set body'"
    proof (cases "j = k")
      case True
      then show ?thesis using new "2.prems"(1) by auto
    next
      case False
      then show ?thesis using j new "2.prems"(4) [of j] by auto
    qed
  qed (rule "2.prems"(5))
  moreover have "loop_walk g header body (k # stack) = loop_walk g header body' stack'"
    by (simp add: body'_def stack'_def)
  ultimately show ?case using new by simp
qed auto

lemma loop_body_spec:
  assumes g: "linked g"
  shows "set (loop_body g header latches) = insert header (latch_reaching g header (set latches))"
proof -
  let ?R = "latch_reaching g header (set latches)"
  let ?B = "set (loop_body g header latches)"
  have walk: "set (header # latches) \<subseteq> ?B \<and> ?B - {header} \<subseteq> ?R \<and> (\<forall>k \<in> ?B - {header}. set (preds_of g k) \<subseteq> ?B)"
    unfolding loop_body_def
  proof (rule loop_walk_spec)
    fix k assume "k \<in> ?R"
    then show "set (preds_of g k) - {header} \<subseteq> ?R" using g by (auto simp: linked_def intro: before)
  qed (auto intro: at_latch)
  have "?R \<subseteq> ?B"
  proof
    fix k assume "k \<in> ?R"
    then show "k \<in> ?B"
    proof (induction rule: latch_reaching.induct)
      case (before k p)
      have "k \<noteq> header" using before.hyps(1) by (cases rule: latch_reaching.cases) auto
      then have "set (preds_of g k) \<subseteq> ?B" using before.IH walk by blast
      moreover have "p \<in> set (preds_of g k)" using before.hyps(2) g by (simp add: linked_def)
      ultimately show ?case by blast
    qed (use walk in auto)
  qed
  then show ?thesis using walk by auto
qed

lemma back_edges_iff:
  "(latch, header) \<in> set (back_edges g doms) \<longleftrightarrow>
   latch \<in> set (g_order g) \<and> header \<in> set (succs_of g latch) \<and> (\<exists>ds. map_of doms latch = Some ds \<and> header \<in> set ds)"
proof -
  have "(latch, header) \<in> set (case map_of doms k of None \<Rightarrow> [] | Some ds \<Rightarrow> map (Pair k) (filter (\<lambda>s. s \<in> set ds) (succs_of g k)))
      \<longleftrightarrow> k = latch \<and> header \<in> set (succs_of g latch) \<and> (\<exists>ds. map_of doms latch = Some ds \<and> header \<in> set ds)" for k
    by (cases "map_of doms k") auto
  then show ?thesis unfolding back_edges_def by auto
qed

text \<open>No path from the entry enters the body but through the header.\<close>

lemma latch_reaching_dominated:
  assumes "k \<in> latch_reaching g header latches" "\<And>latch. latch \<in> latches \<Longrightarrow> dominates g header latch"
  shows "k \<notin> reachable_avoiding g header"
  using assms(1)
proof (induction rule: latch_reaching.induct)
  case (before k p)
  have "k \<noteq> header" using before.hyps(1) by (cases rule: latch_reaching.cases) auto
  then show ?case using before.IH before.hyps(2) avoid_edge by blast
qed (use assms(2) in \<open>auto simp: dominates_def\<close>)

lemma natural_loops_spec:
  assumes g: "linked g"
  obtains loops where "natural_loops g = Some loops"
    "\<And>loop. loop \<in> set loops \<Longrightarrow>
       set (nl_latches loop) = {latch \<in> set (g_order g). nl_header loop \<in> set (succs_of g latch) \<and> dominates g (nl_header loop) latch} \<and>
       set (nl_body loop) = set (g_order g) \<inter> insert (nl_header loop) (latch_reaching g (nl_header loop) (set (nl_latches loop))) \<and>
       nl_exits loop = loop_exits g (nl_body loop) \<and> nl_header loop \<in> set (g_order g)"
    "\<And>latch header. latch \<in> set (g_order g) \<Longrightarrow> header \<in> set (g_order g) \<Longrightarrow> header \<in> set (succs_of g latch) \<Longrightarrow>
       dominates g header latch \<Longrightarrow> header \<in> nl_header ` set loops"
proof -
  from dominator_sets_exact [OF g] obtain idom doms where d: "compute_dominators g = Some idom"
    "dominator_sets idom = Some doms" "dom (map_of doms) = reachable_blocks g"
    "\<And>k ds. map_of doms k = Some ds \<Longrightarrow> set ds = {x. dominates g x k}" by metis
  define edges where "edges = back_edges g doms"
  have "(\<exists>ds. map_of doms latch = Some ds \<and> header \<in> set ds) \<longleftrightarrow> dominates g header latch" for latch header
  proof (cases "map_of doms latch")
    case None
    then have "latch \<notin> reachable_blocks g" using d(3) by blast
    then show ?thesis using None by (simp add: dominates_def)
  next
    case (Some ds)
    then show ?thesis using d(4) [OF Some] by auto
  qed
  then have edges: "(latch, header) \<in> set edges \<longleftrightarrow>
      latch \<in> set (g_order g) \<and> header \<in> set (succs_of g latch) \<and> dominates g header latch" for latch header
    by (simp add: edges_def back_edges_iff)
  define mk where "mk = (\<lambda>header. let latches = remdups (map fst (filter (\<lambda>(_, h). h = header) edges));
      body = filter (\<lambda>k. k \<in> set (loop_body g header latches)) (g_order g)
    in \<lparr>nl_body = body, nl_exits = loop_exits g body, nl_header = header, nl_latches = latches\<rparr>)"
  define loops where "loops = map mk (filter (\<lambda>k. k \<in> snd ` set edges) (g_order g))"
  have "natural_loops g = Some loops"
    by (simp add: natural_loops_def d(1,2) edges_def [symmetric] loops_def mk_def Let_def)
  moreover have "set (nl_latches (mk h)) = fst ` {e \<in> set edges. snd e = h}" "nl_header (mk h) = h"
      "set (nl_body (mk h)) = set (g_order g) \<inter> insert h (latch_reaching g h (set (nl_latches (mk h))))"
      "nl_exits (mk h) = loop_exits g (nl_body (mk h))" for h
    by (auto simp: mk_def Let_def loop_body_spec [OF g] case_prod_beta)
  moreover have "fst ` {e \<in> set edges. snd e = h} = {latch \<in> set (g_order g). h \<in> set (succs_of g latch) \<and> dominates g h latch}" for h
    using edges by force
  moreover have "header \<in> nl_header ` set loops"
    if "latch \<in> set (g_order g)" "header \<in> set (g_order g)" "header \<in> set (succs_of g latch)" "dominates g header latch" for latch header
  proof -
    have "(latch, header) \<in> set edges" using edges that by simp
    then show ?thesis using that(2) by (force simp: loops_def mk_def Let_def)
  qed
  ultimately show ?thesis
    by (intro that [of loops]) (auto simp: loops_def)
qed

definition natural_loop_ok :: "cfg \<Rightarrow> natural_loop \<Rightarrow> bool" where
  "natural_loop_ok g loop =
     (let header = nl_header loop; body = set (nl_body loop); latches = set (nl_latches loop) in
      latches = {latch \<in> set (g_order g). header \<in> set (succs_of g latch) \<and> dominates g header latch} \<and>
      body = set (g_order g) \<inter> insert header (latch_reaching g header latches) \<and>
      nl_exits loop = loop_exits g (nl_body loop) \<and>
      body \<inter> reachable_avoiding g header = {})"

text \<open>
  C30. The natural loops of a body are found.  Every edge to a block that dominates its source makes a loop; the
  latches of a loop are the sources of these edges, its body is the header and the blocks that reach a latch
  without passing the header, and no path from the entry reaches a block of the body without passing the header.
\<close>

theorem natural_loops_found:
  assumes "build_cfg b = Some g"
  shows "\<exists>loops. natural_loops g = Some loops \<and> list_all (natural_loop_ok g) loops \<and>
    (\<forall>latch header. latch \<in> set (g_order g) \<and> header \<in> set (g_order g) \<and> header \<in> set (succs_of g latch) \<and>
       dominates g header latch \<longrightarrow> header \<in> nl_header ` set loops)"
proof -
  obtain loops where loops: "natural_loops g = Some loops"
    "\<And>loop. loop \<in> set loops \<Longrightarrow>
       set (nl_latches loop) = {latch \<in> set (g_order g). nl_header loop \<in> set (succs_of g latch) \<and> dominates g (nl_header loop) latch} \<and>
       set (nl_body loop) = set (g_order g) \<inter> insert (nl_header loop) (latch_reaching g (nl_header loop) (set (nl_latches loop))) \<and>
       nl_exits loop = loop_exits g (nl_body loop) \<and> nl_header loop \<in> set (g_order g)"
    "\<And>latch header. latch \<in> set (g_order g) \<Longrightarrow> header \<in> set (g_order g) \<Longrightarrow> header \<in> set (succs_of g latch) \<Longrightarrow>
       dominates g header latch \<Longrightarrow> header \<in> nl_header ` set loops"
    by (rule natural_loops_spec [OF build_cfg_linked [OF assms]]) blast
  have "natural_loop_ok g loop" if loop: "loop \<in> set loops" for loop
  proof -
    have "k \<notin> reachable_avoiding g (nl_header loop)" if "k = nl_header loop" for k
      unfolding that by (rule notI, erule reachable_avoiding.cases) auto
    moreover have "k \<notin> reachable_avoiding g (nl_header loop)" if "k \<in> latch_reaching g (nl_header loop) (set (nl_latches loop))" for k
      using latch_reaching_dominated [OF that] loops(2) [OF loop] by blast
    ultimately have "set (nl_body loop) \<inter> reachable_avoiding g (nl_header loop) = {}" using loops(2) [OF loop] by blast
    then show ?thesis using loops(2) [OF loop] by (simp add: natural_loop_ok_def Let_def)
  qed
  then have "list_all (natural_loop_ok g) loops" by (simp add: list_all_iff)
  then show ?thesis using loops(1,3) by blast
qed

lemma natural_loops_found_witness:
  "\<exists>g loops. build_cfg nested_loops = Some g \<and> natural_loops g = Some loops \<and> 0 \<in> nl_header ` set loops"
proof -
  have "build_cfg nested_loops \<noteq> None" by code_simp
  then obtain g where g: "build_cfg nested_loops = Some g" by blast
  from natural_loops_found [OF g] obtain loops where loops: "natural_loops g = Some loops" by blast
  have "(case build_cfg nested_loops of None \<Rightarrow> False | Some g \<Rightarrow>
      (case natural_loops g of None \<Rightarrow> False | Some loops \<Rightarrow> 0 \<in> nl_header ` set loops))" by code_simp
  then show ?thesis using g loops by auto
qed

subsection \<open>String instructions\<close>

definition rep_ok :: "string_types \<Rightarrow> instr \<Rightarrow> bool" where
  "rep_ok types i =
     (case i of
        RepString op w dest source bound fill_value counter_signed final_iv \<Rightarrow>
          w \<in> {1, 2, 4} \<and> st_element_sizes types dest = Some w \<and> final_iv = None \<and>
          (op = ''fill'' \<and> source = None \<and> fill_value \<noteq> None \<or>
           op = ''copy'' \<and> fill_value = None \<and> (case source of None \<Rightarrow> False | Some x \<Rightarrow> st_element_sizes types x = Some w))
      | _ \<Rightarrow> False)"

lemma match_fill_ok:
  "match_fill_body bound sg x defined (st_element_sizes types) significant = Some i \<Longrightarrow> rep_ok types i"
  by (auto simp: match_fill_body_def rep_ok_def rep_widths_def split: list.splits instr.splits option.splits if_splits)

lemma match_copy_ok:
  "match_copy_body bound sg x (st_element_sizes types) significant = Some i \<Longrightarrow> rep_ok types i"
  by (auto simp: match_copy_body_def rep_ok_def rep_widths_def split: list.splits instr.splits option.splits if_splits)

lemma match_string_loop_ok:
  assumes "match_string_loop g b doms types loop = Some (l, i)"
  shows "rep_ok types i"
  using assms match_fill_ok match_copy_ok
  by (auto simp: match_string_loop_def Let_def split: option.splits instr.splits ir_value.splits if_splits)

lemma splice_subset:
  "set (foldr (\<lambda>(start, stop, rep) result. take start result @ rep # drop (Suc stop) result) spans b)
   \<subseteq> set b \<union> (\<lambda>(start, stop, rep). rep) ` set spans"
proof (induction spans)
  case (Cons m spans)
  obtain start stop rep where m: "m = (start, stop, rep)" by (cases m)
  then show ?case using Cons.IH by (auto dest: in_set_takeD in_set_dropD)
qed simp

text \<open>
  C31. Whatever the recognizer of string loops adds is a fill or a copy whose width is 1, 2 or 4 (the only ones
  the code generator has an instruction for) and is the declared width of the elements it writes and reads.
\<close>

theorem string_instructions_typed:
  assumes "recognize_string_loops types b = Some b'"
  shows "set b' \<subseteq> set b \<union> {i. rep_ok types i}"
proof (cases "b' = b")
  case False
  with assms obtain g doms loops where
    applied: "apply_string_rewrites b (List.map_filter (match_string_loop g b doms types) loops) = Some b'"
    by (auto simp: recognize_string_loops_def Let_def split: if_splits Option.bind_splits)
  define found where "found = List.map_filter (match_string_loop g b doms types) loops"
  have "rep_ok types i" if "(l, i) \<in> set found" for l i
    using that match_string_loop_ok by (auto simp: found_def List.map_filter_def)
  then have spans: "rep_ok types rep" if "(start, stop, rep) \<in> set (List.map_filter (rewrite_span b) found)" for start stop rep
    using that by (auto simp: List.map_filter_def rewrite_span_def split: option.splits if_splits)
  have "b' = foldr (\<lambda>(start, stop, rep) result. take start result @ rep # drop (Suc stop) result)
      (sort_key fst (List.map_filter (rewrite_span b) found)) b"
    using applied by (simp add: apply_string_rewrites_def Let_def found_def split: if_splits)
  then show ?thesis using splice_subset [of "sort_key fst (List.map_filter (rewrite_span b) found)" b] spans by fastforce
qed simp

definition fill_loop :: "instr list" where
  "fill_loop = [Copy ''i'' (VInt 0), Label ''.loop'', BranchFalse (VName ''i'') ''<'' (VName ''n'') ''.end'',
     IndexAssign ''words'' (VName ''i'') (VInt 0), BinaryOperation ''i'' (VName ''i'') ''+'' (VInt 1), Jump ''.loop'', Label ''.end'']"

definition fill_loop_types :: string_types where
  "fill_loop_types = \<lparr>st_element_sizes = [''words'' \<mapsto> 4], st_signed_counters = Map.empty\<rparr>"

lemma string_instructions_typed_witness:
  "rep_ok fill_loop_types (RepString ''fill'' 4 ''words'' None (VName ''n'') (Some (VInt 0)) True None)"
proof -
  let ?rep = "RepString ''fill'' 4 ''words'' None (VName ''n'') (Some (VInt 0)) True None"
  have "recognize_string_loops fill_loop_types fill_loop = Some [Copy ''i'' (VInt 0), ?rep, Label ''.end'']"
    by code_simp
  from string_instructions_typed [OF this] show ?thesis by (auto simp: fill_loop_def)
qed

end
