(* ===== verification/Loop_Findings.thy ===== *)
theory Loop_Findings
  imports Optimizer Loop_Facts Propagation
begin

text \<open>
  Programs that the loop passes change the meaning of, from the syntax tree to the optimized body: a string loop
  that ignores a condition, and a division that is moved in front of its test.
\<close>

text \<open>Parameters \<open>int\<close> and a function over them.\<close>

definition int_param :: "string \<Rightarrow> node" where
  "int_param x = Param_node None None False x None None ''int''"

definition one_function :: "string list \<Rightarrow> node list \<Rightarrow> node list \<Rightarrow> node" where
  "one_function params globals body =
     Program_node [Function_node False body False False False False ''f'' (map int_param params) [] 0] globals"

definition count_up :: "string \<Rightarrow> node list \<Rightarrow> node" where
  "count_up x body = For_node body (Some (BinaryOperation_node (Var_node x) ''<'' (Var_node ''n''))) [Assign_node (Int_node 0) x]
     [PlaceIncrementDecrement_node 1 True (VariablePlace_node x)]"

text \<open>\<open>int dst[16]; void f(int n, int flag, int i) { for (i = 0; i < n; i++) if (flag) dst[i] = 0; }\<close>\<close>

definition guarded_fill :: node where
  "guarded_fill = one_function [''n'', ''flag'', ''i''] [ArrayDecl_node None None False ''dst'' (Some (Int_node 16)) ''int'']
     [count_up ''i'' [If_node [IndexAssign_node (Var_node ''dst'') (Int_node 0) (Var_node ''i'')] (Var_node ''flag'') None]]"

text \<open>\<open>void f(int n, int a, int d, int i) { for (i = 0; i < n; i++) if (d) g(a / d); }\<close>\<close>

definition guarded_division :: node where
  "guarded_division = one_function [''n'', ''a'', ''d'', ''i''] []
     [count_up ''i'' [If_node [Call_node [BinaryOperation_node (Var_node ''a'') ''/'' (Var_node ''d'')] ''g''] (Var_node ''d'') None]]"

text \<open>The two bodies after lowering.\<close>

definition fill_body :: "instr list" where
  "fill_body = [Copy ''i'' (VInt 0), Label ''._ir_floop0'', BranchFalse (VName ''i'') ''<'' (VName ''n'') ''._ir_fend2'',
     LoopBoundary (Some ''._ir_fstep1'') ''._ir_fend2'' True,
     BranchFalse (VName ''flag'') ''!='' (VInt 0) ''._ir_endif3'', IndexAssign ''dst'' (VName ''i'') (VInt 0), Label ''._ir_endif3'',
     LoopBoundary (Some ''._ir_fstep1'') ''._ir_fend2'' False, Label ''._ir_fstep1'',
     Block (Assign_node (PlaceIncrementDecrement_node 1 True (VariablePlace_node ''i'')) ''_ir_4''),
     Jump ''._ir_floop0'', Label ''._ir_fend2'']"

definition division_body :: "instr list" where
  "division_body = [Copy ''i'' (VInt 0), Label ''._ir_floop0'', BranchFalse (VName ''i'') ''<'' (VName ''n'') ''._ir_fend2'',
     LoopBoundary (Some ''._ir_fstep1'') ''._ir_fend2'' True,
     BranchFalse (VName ''d'') ''!='' (VInt 0) ''._ir_endif3'',
     BinaryOperation ''_ir_4'' (VName ''a'') ''/'' (VName ''d''), Call [VName ''_ir_4''] None ''g'', Label ''._ir_endif3'',
     LoopBoundary (Some ''._ir_fstep1'') ''._ir_fend2'' False, Label ''._ir_fstep1'',
     Block (Assign_node (PlaceIncrementDecrement_node 1 True (VariablePlace_node ''i'')) ''_ir_5''),
     Jump ''._ir_floop0'', Label ''._ir_fend2'']"

definition lowers_to :: "node \<Rightarrow> instr list \<Rightarrow> bool" where
  "lowers_to n b = (case build_program [] 60 n of Inl _ \<Rightarrow> False | Inr p \<Rightarrow> map fn_body (prog_functions p) = [b])"

lemma fill_lowered: "lowers_to guarded_fill fill_body"
  by code_simp

lemma division_lowered: "lowers_to guarded_division division_body"
  by code_simp

definition fill_types :: string_types where
  "fill_types = (case guarded_fill of
     Program_node [Function_node _ body _ _ _ _ _ params _ _] globals \<Rightarrow> string_loop_type_maps 4 globals params body
   | _ \<Rightarrow> \<lparr>st_element_sizes = Map.empty, st_signed_counters = Map.empty\<rparr>)"

lemma fill_recognized:
  "recognize_string_loops fill_types fill_body =
     Some [Copy ''i'' (VInt 0), RepString ''fill'' 4 ''dst'' None (VName ''n'') (Some (VInt 0)) True None, Label ''._ir_fend2'']"
  by code_simp

definition hoisted_body :: "instr list" where
  "hoisted_body = [Copy ''i'' (VInt 0), Jump ''.licm_preheader_0'', Label ''.licm_preheader_0'',
     BinaryOperation ''_ir_4'' (VName ''a'') ''/'' (VName ''d''), Jump ''._ir_floop0''] @
     filter (\<lambda>i. i \<noteq> BinaryOperation ''_ir_4'' (VName ''a'') ''/'' (VName ''d'')) (tl division_body)"

lemma division_hoisted: "hoist_loop_invariants [] division_body = Some hoisted_body"
  by code_simp

text \<open>A world that counts stores to memory, and where a division by zero does not return.\<close>

definition counting_world :: "nat world" where
  "counting_world = \<lparr>w_addr = \<lambda>_. 0, w_less = \<lambda>a c. a < c,
     w_binop = \<lambda>op a c. if op = ''/'' \<and> c \<noteq> 0 then Some (a div c) else None,
     w_pure = \<lambda>_ _ _ _. None,
     w_effect = \<lambda>i vs sl m. (case i of
         IndexAssign _ _ _ \<Rightarrow> Some (Fall, 0, Map.empty, Suc m)
       | RepString _ _ _ _ _ _ _ _ \<Rightarrow> Some (Fall, 0, Map.empty, m + unat (vs ! 0))
       | Call _ _ _ \<Rightarrow> Some (Fall, 0, Map.empty, m)
       | Block (Assign_node (PlaceIncrementDecrement_node delta _ (VariablePlace_node x)) _) \<Rightarrow>
           (case sl x of None \<Rightarrow> None | Some v \<Rightarrow> Some (Fall, v, [x \<mapsto> v + word_of_int delta], m))
       | _ \<Rightarrow> None),
     w_carry = \<lambda>_ _ _. None\<rparr>"

definition finishes :: "instr list \<Rightarrow> slots \<Rightarrow> nat \<Rightarrow> bool" where
  "finishes b sl stores = (\<exists>s. runs (ir_machine counting_world) b \<lparr>slots = sl, store = 0\<rparr> (None, s) \<and> store s = stores)"

lemma finishes_fuel:
  "run_fuel n (next_conf (ir_machine counting_world)) b b \<lparr>slots = sl, store = 0\<rparr> = Some (None, s) \<Longrightarrow> store s = stores \<Longrightarrow> finishes b sl stores"
  unfolding finishes_def by (blast intro: runs_fuel)

lemmas counting_simps = plain_step_def ir_act_def binop_def ir_holds_def compare_words_def set_slot_def goto_label_def
  effect_act_def visible_def mentioned_def assigned_def assign_target_def is_temp_def temp_prefix_def counting_world_def restrict_map_def map_add_def starts_with_def

text \<open>
  C37. A loop that fills an array under a condition becomes an unconditional fill: the matcher leaves every
  branch aside as part of the loop itself.  With \<open>flag\<close> zero and \<open>n\<close> two the lowered body stores nothing and
  the rewritten one two elements.
\<close>

theorem guarded_fill_loses_guard:
  "\<exists>b b'. lowers_to guarded_fill b \<and> recognize_string_loops fill_types b = Some b' \<and>
     finishes b [''n'' \<mapsto> 2, ''flag'' \<mapsto> 0] 0 \<and> finishes b' [''n'' \<mapsto> 2, ''flag'' \<mapsto> 0] 2"
proof (intro exI conjI)
  show "lowers_to guarded_fill fill_body" by (rule fill_lowered)
  show "finishes fill_body [''n'' \<mapsto> 2, ''flag'' \<mapsto> 0] 0"
    by (rule finishes_fuel [of 40]) (simp add: fill_body_def counting_simps eval_nat_numeral, simp)
  show "finishes [Copy ''i'' (VInt 0), RepString ''fill'' 4 ''dst'' None (VName ''n'') (Some (VInt 0)) True None, Label ''._ir_fend2'']
      [''n'' \<mapsto> 2, ''flag'' \<mapsto> 0] 2"
    by (rule finishes_fuel [of 3]) (simp add: counting_simps numeral_3_eq_3, simp)
qed (rule fill_recognized)

text \<open>
  C38. A division under a test of its divisor is moved in front of the loop, and of the test: instructions that
  cannot fault are moved wherever they stand, and a division counts as one.  With \<open>d\<close> zero the lowered body
  comes to its end and the rewritten one does not.
\<close>

theorem guarded_division_hoisted:
  "\<exists>b b'. lowers_to guarded_division b \<and> hoist_loop_invariants [] b = Some b' \<and>
     finishes b [''n'' \<mapsto> 1, ''a'' \<mapsto> 1, ''d'' \<mapsto> 0] 0 \<and>
     \<not> (\<exists>out. runs (ir_machine counting_world) b' \<lparr>slots = [''n'' \<mapsto> 1, ''a'' \<mapsto> 1, ''d'' \<mapsto> 0], store = 0\<rparr> out)"
proof (intro exI conjI)
  show "lowers_to guarded_division division_body" by (rule division_lowered)
  show "finishes division_body [''n'' \<mapsto> 1, ''a'' \<mapsto> 1, ''d'' \<mapsto> 0] 0"
    by (rule finishes_fuel [of 40]) (simp add: division_body_def counting_simps eval_nat_numeral, simp)
  show "\<not> (\<exists>out. runs (ir_machine counting_world) hoisted_body
      \<lparr>slots = [''n'' \<mapsto> 1, ''a'' \<mapsto> 1, ''d'' \<mapsto> 0], store = 0\<rparr> out)"
    unfolding runs_def hoisted_body_def append_Cons
    by (auto elim!: exec_ConsE simp: counting_simps)
qed (rule division_hoisted)

end
