(* ===== verification/Bbfs.thy ===== *)
theory Bbfs
  imports Bytes Results
begin

text \<open>
  The writer of \<^verbatim>\<open>add_file.py\<close> for images with a bbfs file system: directories of 32-byte entries, a name of
  25 bytes, a byte of flags, the first sector in 16 bits and the size in 32.  An img is the list of its
  bytes.  A file name is the list of its code points; what the host's files hold is an argument.  An ext2
  partition is handed to \<^verbatim>\<open>debugfs\<close> and is left out.
\<close>

unbundle bit_operations_syntax

subsection \<open>UTF-8\<close>

type_synonym file_name = "nat list"

text \<open>\<open>str.encode\<close> of a character; surrogates have no encoding.\<close>

definition utf8_char :: "nat \<Rightarrow> byte list option" where
  "utf8_char c =
     (if c < 0x80 then Some [of_nat c]
      else if c < 0x800 then Some [of_nat (0xC0 + c div 64), of_nat (0x80 + c mod 64)]
      else if 0xD800 \<le> c \<and> c < 0xE000 then None
      else if c < 0x10000
      then Some [of_nat (0xE0 + c div 4096), of_nat (0x80 + c div 64 mod 64), of_nat (0x80 + c mod 64)]
      else if c < 0x110000
      then Some [of_nat (0xF0 + c div 262144), of_nat (0x80 + c div 4096 mod 64), of_nat (0x80 + c div 64 mod 64),
        of_nat (0x80 + c mod 64)]
      else None)"

fun utf8_encode :: "file_name \<Rightarrow> byte list option" where
  "utf8_encode [] = Some []"
| "utf8_encode (c # cs) =
     (case utf8_char c of
        None \<Rightarrow> None
      | Some bs \<Rightarrow> map_option ((@) bs) (utf8_encode cs))"

text \<open>
  \<open>bytes.decode\<close>: the leading byte tells the length of a character; a sequence is accepted when it is the
  encoding of the character it spells, which excludes overlong forms and surrogates.
\<close>

definition utf8_length :: "byte \<Rightarrow> nat" where
  "utf8_length b = (if b < 0x80 then 1 else if b < 0xE0 then 2 else if b < 0xF0 then 3 else 4)"

definition utf8_lead :: "byte \<Rightarrow> nat" where
  "utf8_lead b =
     (if b < 0x80 then unat b else if b < 0xE0 then unat b mod 32 else if b < 0xF0 then unat b mod 16 else unat b mod 8)"

definition decode_char :: "byte list \<Rightarrow> nat option" where
  "decode_char bs =
     (let c = foldl (\<lambda>v b. v * 64 + unat b mod 64) (utf8_lead (hd bs)) (tl (take (utf8_length (hd bs)) bs))
      in if utf8_char c = Some (take (utf8_length (hd bs)) bs) then Some c else None)"

lemma utf8_length_pos: "0 < utf8_length b"
  by (simp add: utf8_length_def)

function utf8_decode :: "byte list \<Rightarrow> file_name option" where
  "utf8_decode [] = Some []"
| "utf8_decode (b # bs) =
     (case decode_char (b # bs) of
        None \<Rightarrow> None
      | Some c \<Rightarrow> map_option ((#) c) (utf8_decode (drop (utf8_length b) (b # bs))))"
  by pat_completeness auto
termination
  by (relation "measure length") (auto simp: utf8_length_pos)

subsection \<open>Reading and writing the img\<close>

datatype add_error =
    Name_too_long file_name
  | File_empty file_name
  | Directory_not_found file_name
  | Directory_full
  | Already_exists file_name
  | Past_end nat
  | Uses_debugfs
  | Unicode_error
  | Index_error
  | Struct_error

definition read_byte :: "nat \<Rightarrow> byte list \<Rightarrow> add_error + byte" where
  "read_byte offset img = require (offset < length img) Index_error (Inr (img ! offset))"

definition unpack_from :: "nat \<Rightarrow> nat \<Rightarrow> byte list \<Rightarrow> add_error + nat" where
  "unpack_from width offset img =
     require (offset + width \<le> length img) Struct_error (Inr (nat (le_int (slice offset (offset + width) img))))"

definition pack_into :: "nat \<Rightarrow> nat \<Rightarrow> nat \<Rightarrow> byte list \<Rightarrow> add_error + byte list" where
  "pack_into width offset v img =
     (case pack_unsigned width (int v) of
        None \<Rightarrow> Inl Struct_error
      | Some bs \<Rightarrow> require (offset + width \<le> length img) Struct_error (Inr (slice_assign offset (offset + width) bs img)))"

definition ljust :: "nat \<Rightarrow> byte list \<Rightarrow> byte list" where
  "ljust width bs = bs @ replicate (width - length bs) 0"

definition rstrip :: "byte list \<Rightarrow> byte list" where
  "rstrip bs = rev (dropWhile (\<lambda>b. b = 0) (rev bs))"

definition sector_size :: nat where "sector_size = 512"
definition entry_size :: nat where "entry_size = 32"
definition entries_per_sector :: nat where "entries_per_sector = 16"
definition name_field :: nat where "name_field = 25"
definition offset_flags :: nat where "offset_flags = 25"
definition offset_sector :: nat where "offset_sector = 26"
definition offset_size :: nat where "offset_size = 28"
definition filename_max :: nat where "filename_max = 24"
definition flag_execute :: byte where "flag_execute = 1"
definition flag_directory :: byte where "flag_directory = 2"
definition kernel_bytes_offset :: nat where "kernel_bytes_offset = 506"

definition iter_entries :: "nat \<Rightarrow> nat \<Rightarrow> nat list" where
  "iter_entries base_offset sector_count =
     map (\<lambda>i. base_offset + i * entry_size) [0..<entries_per_sector * sector_count]"

definition sectors_of :: "nat \<Rightarrow> nat" where
  "sectors_of file_size = (file_size + sector_size - 1) div sector_size"

definition entry_name :: "nat \<Rightarrow> byte list \<Rightarrow> byte list" where
  "entry_name entry_offset img = rstrip (slice entry_offset (entry_offset + name_field) img)"

definition entry_end_sector :: "nat \<Rightarrow> byte list \<Rightarrow> add_error + nat" where
  "entry_end_sector entry_offset img =
     bind_result (unpack_from 2 (entry_offset + offset_sector) img) (\<lambda>start.
     bind_result (unpack_from 4 (entry_offset + offset_size) img) (\<lambda>size. Inr (start + sectors_of size)))"

definition compute_directory_sector :: "byte list \<Rightarrow> add_error + nat" where
  "compute_directory_sector img =
     bind_result (unpack_from 4 kernel_bytes_offset img) (\<lambda>kernel_bytes. Inr (sectors_of kernel_bytes + 1))"

text \<open>A short read makes \<open>struct.unpack\<close> raise, which the code takes for bbfs.\<close>

definition detects_ext2 :: "nat \<Rightarrow> byte list \<Rightarrow> bool" where
  "detects_ext2 ext2_start_sector img =
     (unpack_from 2 (ext2_start_sector * sector_size + 1024 + 56) img = Inr 0xEF53)"

subsection \<open>Directories\<close>

fun find_entry_in :: "nat list \<Rightarrow> byte list \<Rightarrow> byte list \<Rightarrow> add_error + (byte \<times> nat \<times> nat) option" where
  "find_entry_in [] target img = Inr None"
| "find_entry_in (entry_offset # rest) target img =
     bind_result (read_byte entry_offset img) (\<lambda>b.
     if b = 0 \<or> entry_name entry_offset img \<noteq> target then find_entry_in rest target img
     else
       bind_result (read_byte (entry_offset + offset_flags) img) (\<lambda>flags.
       bind_result (unpack_from 2 (entry_offset + offset_sector) img) (\<lambda>sector.
       bind_result (unpack_from 4 (entry_offset + offset_size) img) (\<lambda>size. Inr (Some (flags, sector, size))))))"

definition find_entry :: "nat \<Rightarrow> nat \<Rightarrow> byte list \<Rightarrow> file_name \<Rightarrow> add_error + (byte \<times> nat \<times> nat) option" where
  "find_entry directory_sectors directory_start_sector img name =
     (case utf8_encode name of
        None \<Rightarrow> Inl Unicode_error
      | Some target \<Rightarrow> find_entry_in (iter_entries (directory_start_sector * sector_size) directory_sectors) target img)"

fun find_free_in :: "nat list \<Rightarrow> file_name \<Rightarrow> byte list \<Rightarrow> add_error + nat option" where
  "find_free_in [] filename img = Inr None"
| "find_free_in (entry_offset # rest) filename img =
     bind_result (read_byte entry_offset img) (\<lambda>b.
     if b = 0 then Inr (Some entry_offset)
     else case utf8_decode (entry_name entry_offset img) of
         None \<Rightarrow> Inl Unicode_error
       | Some name \<Rightarrow> if name = filename then Inl (Already_exists filename) else find_free_in rest filename img)"

definition find_free_entry :: "nat \<Rightarrow> file_name \<Rightarrow> byte list \<Rightarrow> nat \<Rightarrow> add_error + nat option" where
  "find_free_entry directory_sectors filename img parent_offset =
     find_free_in (iter_entries parent_offset directory_sectors) filename img"

fun find_subdirectory_in :: "nat list \<Rightarrow> file_name \<Rightarrow> byte list \<Rightarrow> add_error + nat option" where
  "find_subdirectory_in [] name img = Inr None"
| "find_subdirectory_in (entry_offset # rest) name img =
     bind_result (read_byte entry_offset img) (\<lambda>b.
     if b = 0 then find_subdirectory_in rest name img
     else case utf8_decode (entry_name entry_offset img) of
         None \<Rightarrow> Inl Unicode_error
       | Some found \<Rightarrow>
           if found \<noteq> name then find_subdirectory_in rest name img
           else bind_result (read_byte (entry_offset + offset_flags) img) (\<lambda>flags.
             Inr (if flags AND flag_directory = 0 then None else Some entry_offset)))"

definition find_subdirectory_entry :: "nat \<Rightarrow> nat \<Rightarrow> byte list \<Rightarrow> file_name \<Rightarrow> add_error + nat option" where
  "find_subdirectory_entry directory_sector directory_sectors img name =
     find_subdirectory_in (iter_entries (directory_sector * sector_size) directory_sectors) name img"

text \<open>The largest end of an entry of one directory.\<close>

fun entries_end :: "nat list \<Rightarrow> byte list \<Rightarrow> nat \<Rightarrow> add_error + nat" where
  "entries_end [] img next_sector = Inr next_sector"
| "entries_end (entry_offset # rest) img next_sector =
     bind_result (read_byte entry_offset img) (\<lambda>b.
     if b = 0 then entries_end rest img next_sector
     else bind_result (entry_end_sector entry_offset img) (\<lambda>e. entries_end rest img (max next_sector e)))"

fun next_data_sector :: "nat list \<Rightarrow> nat \<Rightarrow> byte list \<Rightarrow> nat \<Rightarrow> add_error + nat" where
  "next_data_sector [] directory_sectors img next_sector = Inr next_sector"
| "next_data_sector (entry_offset # rest) directory_sectors img next_sector =
     bind_result (read_byte entry_offset img) (\<lambda>b.
     if b = 0 then next_data_sector rest directory_sectors img next_sector
     else
       bind_result (entry_end_sector entry_offset img) (\<lambda>e.
       bind_result (read_byte (entry_offset + offset_flags) img) (\<lambda>flags.
       if flags AND flag_directory = 0 then next_data_sector rest directory_sectors img (max next_sector e)
       else
         bind_result (unpack_from 2 (entry_offset + offset_sector) img) (\<lambda>start.
         bind_result (entries_end (iter_entries (start * sector_size) directory_sectors) img (max next_sector e))
           (next_data_sector rest directory_sectors img)))))"

definition compute_next_data_sector :: "nat \<Rightarrow> nat \<Rightarrow> byte list \<Rightarrow> add_error + nat" where
  "compute_next_data_sector directory_sector directory_sectors img =
     next_data_sector (iter_entries (directory_sector * sector_size) directory_sectors) directory_sectors img
       (directory_sector + directory_sectors)"

subsection \<open>Adding files and directories\<close>

definition write_entry :: "nat \<Rightarrow> byte \<Rightarrow> file_name \<Rightarrow> nat \<Rightarrow> nat \<Rightarrow> byte list \<Rightarrow> add_error + byte list" where
  "write_entry entry_offset flags name file_size start_sector img =
     (case utf8_encode name of
        None \<Rightarrow> Inl Unicode_error
      | Some encoded \<Rightarrow>
          let named = slice_assign entry_offset (entry_offset + name_field) (ljust name_field encoded) img
          in require (entry_offset + offset_flags < length named) Index_error
            (bind_result (pack_into 2 (entry_offset + offset_sector) start_sector (named[entry_offset + offset_flags := flags]))
              (pack_into 4 (entry_offset + offset_size) file_size)))"

definition write_data :: "byte list \<Rightarrow> nat \<Rightarrow> byte list \<Rightarrow> add_error + byte list" where
  "write_data data start_sector img =
     require (start_sector * sector_size + length data \<le> length img) (Past_end (start_sector * sector_size + length data))
       (Inr (slice_assign (start_sector * sector_size) (start_sector * sector_size + length data) data img))"

fun add_records :: "nat \<Rightarrow> nat \<Rightarrow> byte \<Rightarrow> (file_name \<times> byte list) list \<Rightarrow> nat \<Rightarrow> byte list \<Rightarrow> add_error + byte list" where
  "add_records directory_sectors parent_offset flags [] next_sector img = Inr img"
| "add_records directory_sectors parent_offset flags ((filename, data) # files) next_sector img =
     bind_result (find_free_entry directory_sectors filename img parent_offset) (\<lambda>entry.
     case entry of
       None \<Rightarrow> Inl Directory_full
     | Some entry_offset \<Rightarrow>
         bind_result (write_entry entry_offset flags filename (length data) next_sector img) (\<lambda>img.
         bind_result (write_data data next_sector img) (\<lambda>img.
         add_records directory_sectors parent_offset flags files (next_sector + sectors_of (length data)) img)))"

fun check_records :: "bool \<Rightarrow> (file_name \<times> byte list) list \<Rightarrow> add_error + unit" where
  "check_records allow_empty [] = Inr ()"
| "check_records allow_empty ((filename, data) # files) =
     require (length filename \<le> filename_max) (Name_too_long filename)
     (require (data \<noteq> [] \<or> allow_empty) (File_empty filename) (check_records allow_empty files))"

definition parent_sector :: "nat \<Rightarrow> nat \<Rightarrow> file_name option \<Rightarrow> byte list \<Rightarrow> add_error + nat" where
  "parent_sector directory_sector directory_sectors subdirectory img =
     (case subdirectory of
        None \<Rightarrow> Inr directory_sector
      | Some name \<Rightarrow>
          bind_result (find_subdirectory_entry directory_sector directory_sectors img name) (\<lambda>entry.
          case entry of
            None \<Rightarrow> Inl (Directory_not_found name)
          | Some entry_offset \<Rightarrow> unpack_from 2 (entry_offset + offset_sector) img))"

text \<open>\<open>add_files\<close>; \<open>directory_sectors\<close> is what \<open>read_assign\<close> finds in the kernel's constants.\<close>

definition add_files ::
    "bool \<Rightarrow> bool \<Rightarrow> (file_name \<times> byte list) list \<Rightarrow> file_name option \<Rightarrow> nat \<Rightarrow> byte list \<Rightarrow> add_error + byte list" where
  "add_files allow_empty executable files subdirectory directory_sectors img =
     (if files = [] then Inr img
      else
        bind_result (check_records allow_empty files) (\<lambda>_.
        bind_result (compute_directory_sector img) (\<lambda>directory_sector.
        if detects_ext2 directory_sector img then Inl Uses_debugfs
        else
          bind_result (parent_sector directory_sector directory_sectors subdirectory img) (\<lambda>parent.
          bind_result (compute_next_data_sector directory_sector directory_sectors img) (\<lambda>next_sector.
          add_records directory_sectors (parent * sector_size) (if executable then flag_execute else 0) files next_sector
            img)))))"

definition make_directory :: "file_name \<Rightarrow> nat \<Rightarrow> byte list \<Rightarrow> add_error + byte list" where
  "make_directory dirname directory_sectors img =
     require (length dirname \<le> filename_max) (Name_too_long dirname)
     (bind_result (compute_directory_sector img) (\<lambda>directory_sector.
      if detects_ext2 directory_sector img then Inl Uses_debugfs
      else
        bind_result (find_free_entry directory_sectors dirname img (directory_sector * sector_size)) (\<lambda>entry.
        case entry of
          None \<Rightarrow> Inl Directory_full
        | Some entry_offset \<Rightarrow>
            bind_result (compute_next_data_sector directory_sector directory_sectors img) (\<lambda>next_sector.
            bind_result (write_entry entry_offset flag_directory dirname (directory_sectors * sector_size) next_sector img)
              (write_data (replicate (directory_sectors * sector_size) 0) next_sector)))))"

end
