(* ===== verification/Bbfs_Directory.thy ===== *)
theory Bbfs_Directory
  imports Bbfs
begin

text \<open>
  A directory as a table of entries: what the scans over its bytes in \<open>Bbfs\<close> find, and what writing an entry
  or a file's data changes.
\<close>

subsection \<open>UTF-8\<close>

lemma unat_of_nat_byte: "x < 256 \<Longrightarrow> unat (of_nat x :: byte) = x"
  by (simp add: unat_of_nat take_bit_eq_mod)

lemma utf8_length_unat:
  "utf8_length b = (if unat b < 128 then 1 else if unat b < 224 then 2 else if unat b < 240 then 3 else 4)"
  by (simp add: utf8_length_def word_less_nat_alt)

lemma utf8_lead_unat:
  "utf8_lead b = (if unat b < 128 then unat b else if unat b < 224 then unat b mod 32
     else if unat b < 240 then unat b mod 16 else unat b mod 8)"
  by (simp add: utf8_lead_def word_less_nat_alt)

definition spells :: "byte list \<Rightarrow> nat \<Rightarrow> bool" where
  "spells bs c \<longleftrightarrow> bs \<noteq> [] \<and> utf8_length (hd bs) = length bs \<and>
     foldl (\<lambda>v b. v * 64 + unat b mod 64) (utf8_lead (hd bs)) (tl bs) = c"

lemma mod_of_sum: "x < m \<Longrightarrow> (k * m + x) mod m = (x :: nat)"
  by simp

lemma utf8_low_bits:
  fixes x :: nat
  shows "x < 32 \<Longrightarrow> (192 + x) mod 32 = x" "x < 16 \<Longrightarrow> (224 + x) mod 16 = x" "x < 8 \<Longrightarrow> (240 + x) mod 8 = x"
    "x < 64 \<Longrightarrow> (128 + x) mod 64 = x"
  using mod_of_sum [of x 32 6] mod_of_sum [of x 16 14] mod_of_sum [of x 8 30] mod_of_sum [of x 64 2] by simp_all

lemma spells1: "c < 128 \<Longrightarrow> spells [of_nat c] c"
  by (simp add: spells_def utf8_length_unat utf8_lead_unat unat_of_nat_byte)

lemma spells2:
  assumes "x < 32" "y < 64"
  shows "spells [of_nat (192 + x), of_nat (128 + y)] (x * 64 + y)"
proof -
  have "unat (of_nat (192 + x) :: byte) = 192 + x" "unat (of_nat (128 + y) :: byte) = 128 + y"
    using assms by (intro unat_of_nat_byte; simp)+
  then show ?thesis using assms utf8_low_bits(1) [OF assms(1)] utf8_low_bits(4) [OF assms(2)]
    by (simp add: spells_def utf8_length_unat utf8_lead_unat del: of_nat_add)
qed

lemma spells3:
  assumes "x < 16" "y < 64" "z < 64"
  shows "spells [of_nat (224 + x), of_nat (128 + y), of_nat (128 + z)] ((x * 64 + y) * 64 + z)"
proof -
  have "unat (of_nat (224 + x) :: byte) = 224 + x" "unat (of_nat (128 + y) :: byte) = 128 + y"
    "unat (of_nat (128 + z) :: byte) = 128 + z"
    using assms by (intro unat_of_nat_byte; simp)+
  then show ?thesis using assms utf8_low_bits(2) [OF assms(1)] utf8_low_bits(4) [OF assms(2)] utf8_low_bits(4) [OF assms(3)]
    by (simp add: spells_def utf8_length_unat utf8_lead_unat del: of_nat_add)
qed

lemma spells4:
  assumes "x < 8" "y < 64" "z < 64" "w < 64"
  shows "spells [of_nat (240 + x), of_nat (128 + y), of_nat (128 + z), of_nat (128 + w)] (((x * 64 + y) * 64 + z) * 64 + w)"
proof -
  have "unat (of_nat (240 + x) :: byte) = 240 + x" "unat (of_nat (128 + y) :: byte) = 128 + y"
    "unat (of_nat (128 + z) :: byte) = 128 + z" "unat (of_nat (128 + w) :: byte) = 128 + w"
    using assms by (intro unat_of_nat_byte; simp)+
  then show ?thesis
    using assms utf8_low_bits(3) [OF assms(1)] utf8_low_bits(4) [OF assms(2)] utf8_low_bits(4) [OF assms(3)]
      utf8_low_bits(4) [OF assms(4)]
    by (simp add: spells_def utf8_length_unat utf8_lead_unat del: of_nat_add)
qed

lemma base64_digits:
  fixes c :: nat
  shows "c div 64 * 64 + c mod 64 = c" "(c div 4096 * 64 + c div 64 mod 64) * 64 + c mod 64 = c"
    "((c div 262144 * 64 + c div 4096 mod 64) * 64 + c div 64 mod 64) * 64 + c mod 64 = c"
proof -
  have "c div 4096 = c div 64 div 64" "c div 262144 = c div 4096 div 64" by (simp_all add: div_mult2_eq [symmetric])
  then show "c div 64 * 64 + c mod 64 = c" "(c div 4096 * 64 + c div 64 mod 64) * 64 + c mod 64 = c"
    "((c div 262144 * 64 + c div 4096 mod 64) * 64 + c div 64 mod 64) * 64 + c mod 64 = c"
    by (simp_all only: div_mult_mod_eq)
qed

lemma utf8_char_spells:
  assumes "utf8_char c = Some bs"
  shows "spells bs c"
proof -
  consider (one) "c < 128" | (two) "128 \<le> c" "c < 2048" | (three) "2048 \<le> c" "c < 65536" | (four) "65536 \<le> c" "c < 1114112"
    using assms by (fastforce simp: utf8_char_def split: if_splits)
  then show ?thesis
  proof cases
    case one
    then have "bs = [of_nat c]" using assms by (simp add: utf8_char_def)
    then show ?thesis using spells1 one by simp
  next
    case two
    have "bs = [of_nat (192 + c div 64), of_nat (128 + c mod 64)]" using assms two by (simp add: utf8_char_def del: of_nat_add)
    moreover have "c div 64 < 32" using two by simp
    ultimately show ?thesis using spells2 [of "c div 64" "c mod 64"] by (simp only: base64_digits mod_less_divisor zero_less_numeral)
  next
    case three
    have "bs = [of_nat (224 + c div 4096), of_nat (128 + c div 64 mod 64), of_nat (128 + c mod 64)]"
      using assms three by (simp add: utf8_char_def del: of_nat_add split: if_splits)
    moreover have "c div 4096 < 16" using three by simp
    ultimately show ?thesis using spells3 [of "c div 4096" "c div 64 mod 64" "c mod 64"]
      by (simp only: base64_digits mod_less_divisor zero_less_numeral)
  next
    case four
    have "bs = [of_nat (240 + c div 262144), of_nat (128 + c div 4096 mod 64), of_nat (128 + c div 64 mod 64), of_nat (128 + c mod 64)]"
      using assms four by (simp add: utf8_char_def del: of_nat_add split: if_splits)
    moreover have "c div 262144 < 8" using four by simp
    ultimately show ?thesis using spells4 [of "c div 262144" "c div 4096 mod 64" "c div 64 mod 64" "c mod 64"]
      by (simp only: base64_digits mod_less_divisor zero_less_numeral)
  qed
qed

lemma decode_utf8_char:
  assumes "utf8_char c = Some bs"
  shows "decode_char (bs @ rest) = Some c \<and> bs \<noteq> [] \<and> utf8_length (hd bs) = length bs"
  using utf8_char_spells [OF assms] assms by (auto simp: spells_def decode_char_def)

lemma utf8_decode_encode: "utf8_encode cs = Some bs \<Longrightarrow> utf8_decode bs = Some cs"
proof (induction cs arbitrary: bs)
  case (Cons c cs)
  then obtain b bs' where b: "utf8_char c = Some b" "utf8_encode cs = Some bs'" "bs = b @ bs'"
    by (auto split: option.splits)
  note d = decode_utf8_char [OF b(1), of bs']
  then obtain x xs where "b = x # xs" by (cases b) auto
  then show ?case using d b Cons.IH by simp
qed simp

subsection \<open>Slices of slices\<close>

lemma slice_slice: "d \<le> b - a \<Longrightarrow> slice c d (slice a b xs) = slice (a + c) (a + d) xs"
  by (simp add: slice_def drop_take add.commute)

lemma length_slice: "b \<le> length xs \<Longrightarrow> length (slice a b xs) = b - a"
  by (simp add: slice_def)

lemma nth_slice: "a + i < b \<Longrightarrow> b \<le> length xs \<Longrightarrow> slice a b xs ! i = xs ! (a + i)"
  by (simp add: slice_def)

lemma slice_assign_other:
  assumes "a + length ys = b" "b \<le> length xs" "d \<le> length xs" "d \<le> a \<or> b \<le> c"
  shows "slice c d (slice_assign a b ys xs) = slice c d xs"
  by (rule slice_cong) (use assms in \<open>auto simp: slice_assign_length intro!: nth_slice_assign\<close>)

lemma slice_assign_inside:
  assumes "length xs = n" "c + length zs \<le> n"
  shows "slice_assign c (c + length zs) zs xs = take c xs @ zs @ drop (c + length zs) xs"
  by (simp add: slice_assign_def)

subsection \<open>Entries and tables\<close>

text \<open>
  An entry as the scans see it: None is free, else the bytes of the name, the flags, the first sector and the
  size.  A directory of \<open>count\<close> sectors from byte \<open>base\<close> on is the table of its entries.
\<close>

type_synonym dir_entry = "byte list \<times> byte \<times> nat \<times> nat"

definition decode_entry :: "byte list \<Rightarrow> dir_entry option" where
  "decode_entry r =
     (if r ! 0 = 0 then None
      else Some (rstrip (slice 0 25 r), r ! 25, nat (le_int (slice 26 28 r)), nat (le_int (slice 28 32 r))))"

definition entry_at :: "nat \<Rightarrow> byte list \<Rightarrow> dir_entry option" where
  "entry_at offset img = decode_entry (slice offset (offset + 32) img)"

definition directory :: "nat \<Rightarrow> nat \<Rightarrow> byte list \<Rightarrow> dir_entry option list" where
  "directory count base img = map (\<lambda>i. entry_at (base + 32 * i) img) [0..<16 * count]"

lemmas bbfs_layout = sector_size_def entry_size_def entries_per_sector_def name_field_def offset_flags_def
  offset_sector_def offset_size_def

lemma entry_at_eq:
  assumes "off + 32 \<le> length img"
  shows "entry_at off img =
    (if img ! off = 0 then None
     else Some (entry_name off img, img ! (off + 25), nat (le_int (slice (off + 26) (off + 28) img)),
       nat (le_int (slice (off + 28) (off + 32) img))))"
  using assms by (simp add: entry_at_def decode_entry_def nth_slice slice_slice entry_name_def name_field_def)

lemma entry_reads:
  assumes "off + 32 \<le> length img"
  shows "read_byte off img = Inr (img ! off)" "read_byte (off + offset_flags) img = Inr (img ! (off + 25))"
    "unpack_from 2 (off + offset_sector) img = Inr (nat (le_int (slice (off + 26) (off + 28) img)))"
    "unpack_from 4 (off + offset_size) img = Inr (nat (le_int (slice (off + 28) (off + 32) img)))"
  using assms by (simp_all add: read_byte_def unpack_from_def require_def bbfs_layout ac_simps)

fun table_lookup :: "dir_entry option list \<Rightarrow> byte list \<Rightarrow> (byte \<times> nat \<times> nat) option" where
  "table_lookup [] target = None"
| "table_lookup (e # es) target =
     (case e of
        None \<Rightarrow> table_lookup es target
      | Some (name, rest) \<Rightarrow> if name = target then Some rest else table_lookup es target)"

lemma find_entry_in_table:
  "\<forall>off \<in> set offs. off + 32 \<le> length img \<Longrightarrow>
   find_entry_in offs target img = Inr (table_lookup (map (\<lambda>off. entry_at off img) offs) target)"
  by (induction offs) (auto simp: entry_reads entry_at_eq)

lemma iter_entries_eq: "iter_entries base count = map (\<lambda>i. base + 32 * i) [0..<16 * count]"
  by (simp add: iter_entries_def bbfs_layout mult.commute)

lemma directory_eq: "directory count base img = map (\<lambda>off. entry_at off img) (iter_entries base count)"
  by (simp add: directory_def iter_entries_eq)

lemma iter_entries_inside:
  "off \<in> set (iter_entries base count) \<Longrightarrow> base + 512 * count \<le> length img \<Longrightarrow> off + 32 \<le> length img"
  by (auto simp: iter_entries_eq)

theorem find_entry_table:
  assumes "start * 512 + 512 * count \<le> length img" "utf8_encode name = Some target"
  shows "find_entry count start img name = Inr (table_lookup (directory count (start * 512) img) target)"
  using assms find_entry_in_table [of "iter_entries (start * 512) count" img target] iter_entries_inside [of _ "start * 512" count img]
  by (simp add: find_entry_def directory_eq sector_size_def)

text \<open>The slot a scan for a free entry stops at: the first one, with no entry of that name before it.\<close>

definition free_slot :: "dir_entry option list \<Rightarrow> file_name \<Rightarrow> nat \<Rightarrow> bool" where
  "free_slot table filename i \<longleftrightarrow>
     i < length table \<and> table ! i = None \<and>
     (\<forall>j < i. \<exists>name rest. table ! j = Some (name, rest) \<and> utf8_decode name \<noteq> None \<and> utf8_decode name \<noteq> Some filename)"

lemma find_free_in_slot:
  assumes "\<forall>off \<in> set offs. off + 32 \<le> length img" "find_free_in offs filename img = Inr (Some off)"
  shows "\<exists>i < length offs. off = offs ! i \<and> free_slot (map (\<lambda>off. entry_at off img) offs) filename i"
  using assms
proof (induction offs)
  case (Cons o1 offs)
  have o1: "o1 + 32 \<le> length img" using Cons.prems by simp
  show ?case
  proof (cases "img ! o1 = 0")
    case True
    then show ?thesis using Cons.prems o1
      by (intro exI [where x = 0]) (auto simp: entry_reads entry_at_eq free_slot_def)
  next
    case False
    with Cons.prems o1 obtain name where name: "utf8_decode (entry_name o1 img) = Some name" "name \<noteq> filename"
      "find_free_in offs filename img = Inr (Some off)"
      by (auto simp: entry_reads split: option.splits if_splits)
    then obtain i where i: "i < length offs" "off = offs ! i" "free_slot (map (\<lambda>off. entry_at off img) offs) filename i"
      using Cons by auto
    have "free_slot (map (\<lambda>off. entry_at off img) (o1 # offs)) filename (Suc i)"
      using i(3) name False o1 by (auto simp: free_slot_def entry_at_eq nth_Cons split: nat.splits)
    then show ?thesis using i by (intro exI [where x = "Suc i"]) auto
  qed
qed simp

lemma find_free_entry_slot:
  assumes "base + 512 * count \<le> length img" "find_free_entry count filename img base = Inr (Some off)"
  shows "\<exists>i < 16 * count. off = base + 32 * i \<and> free_slot (directory count base img) filename i"
  using find_free_in_slot [of "iter_entries base count" img filename off] assms iter_entries_inside [of _ base count img]
  by (auto simp: find_free_entry_def directory_def iter_entries_eq comp_def)

lemma table_lookup_insert:
  assumes "free_slot table filename i" "utf8_encode filename = Some target"
  shows "table_lookup (table[i := Some (target, rest)]) target = Some rest"
  using assms(1)
proof (induction table arbitrary: i)
  case (Cons e table)
  show ?case
  proof (cases i)
    case (Suc j)
    then obtain name r where e: "e = Some (name, r)" "utf8_decode name \<noteq> Some filename"
      using Cons.prems by (force simp: free_slot_def)
    have "free_slot table filename j" using Cons.prems Suc by (force simp: free_slot_def)
    moreover have "name \<noteq> target" using e(2) utf8_decode_encode [OF assms(2)] by auto
    ultimately show ?thesis using Cons.IH Suc e by simp
  qed simp
qed (simp add: free_slot_def)

lemma table_lookup_insert_other:
  "i < length table \<Longrightarrow> table ! i = None \<Longrightarrow> name \<noteq> target \<Longrightarrow>
   table_lookup (table[i := Some (name, rest)]) target = table_lookup table target"
proof (induction table arbitrary: i)
  case (Cons e table)
  then show ?case by (cases i) (auto split: option.splits)
qed simp

subsection \<open>Writing\<close>

text \<open>A name fits when its encoding is neither empty nor longer than its field and has no zero byte.\<close>

definition name_fits :: "file_name \<Rightarrow> bool" where
  "name_fits name =
     (case utf8_encode name of
        None \<Rightarrow> False
      | Some bs \<Rightarrow> bs \<noteq> [] \<and> length bs \<le> name_field \<and> 0 \<notin> set bs)"

definition record_bytes :: "byte list \<Rightarrow> byte \<Rightarrow> nat \<Rightarrow> nat \<Rightarrow> byte list" where
  "record_bytes encoded flags start file_size =
     ljust name_field encoded @ [flags] @ le_bytes 2 (int start) @ le_bytes 4 (int file_size)"

lemma length_record_bytes: "length encoded \<le> 25 \<Longrightarrow> length (record_bytes encoded flags start file_size) = 32"
  by (simp add: record_bytes_def ljust_def name_field_def)

lemma rstrip_ljust: "bs \<noteq> [] \<Longrightarrow> 0 \<notin> set bs \<Longrightarrow> rstrip (ljust width bs) = bs"
proof -
  assume bs: "bs \<noteq> []" "0 \<notin> set bs"
  then obtain b r where "rev bs = b # r" by (cases "rev bs") auto
  moreover have "b \<noteq> 0" using bs calculation by (metis list.set_intros(1) set_rev)
  ultimately have "dropWhile (\<lambda>b. b = 0) (rev bs) = rev bs" by simp
  moreover have "dropWhile (\<lambda>b. b = 0) (replicate n 0 @ xs) = dropWhile (\<lambda>b. b = 0) xs" for n and xs :: "byte list"
    by (induction n) auto
  ultimately show ?thesis by (simp add: rstrip_def ljust_def)
qed

lemma decode_record_bytes:
  assumes "bs \<noteq> []" "length bs \<le> 25" "0 \<notin> set bs" "start < 65536" "file_size < 4294967296"
  shows "decode_entry (record_bytes bs flags start file_size) = Some (bs, flags, start, file_size)"
proof -
  define r where "r = record_bytes bs flags start file_size"
  have len: "length (ljust name_field bs) = 25" using assms(2) by (simp add: ljust_def name_field_def)
  have "r ! 0 \<noteq> 0"
    using assms(1,3) by (cases bs) (auto simp: r_def record_bytes_def ljust_def)
  moreover have "slice 0 25 r = ljust name_field bs" using len by (simp add: slice_def r_def record_bytes_def)
  moreover have "r ! 25 = flags" using len by (simp add: r_def record_bytes_def nth_append)
  moreover have "slice 26 28 r = le_bytes 2 (int start)" using len by (simp add: slice_def r_def record_bytes_def)
  moreover have "slice 28 32 r = le_bytes 4 (int file_size)" using len by (simp add: slice_def r_def record_bytes_def)
  moreover have "le_int (le_bytes 2 (int start)) = int start" "le_int (le_bytes 4 (int file_size)) = int file_size"
    using assms(4,5) by (simp_all add: le_int_eq)
  ultimately show ?thesis using rstrip_ljust [OF assms(1,3)] by (simp add: decode_entry_def r_def [symmetric])
qed

lemma slice_assign_split:
  "length as = a \<Longrightarrow> a + length bs = b \<Longrightarrow> slice_assign a b ys (as @ bs @ cs) = as @ ys @ cs"
  by (auto simp: slice_assign_def)

lemma take_drop_join: "take n (drop m xs) @ drop (m + n) xs = drop m xs"
  by (metis add.commute append_take_drop_id drop_drop)

lemma pack_into_Inr:
  "pack_into width off v img = Inr img' \<longleftrightarrow>
   int v < 256 ^ width \<and> off + width \<le> length img \<and> img' = slice_assign off (off + width) (le_bytes width (int v)) img"
  by (auto simp: pack_into_def pack_unsigned_def require_Inr split: option.splits)

lemma write_entry_eq:
  assumes "utf8_encode name = Some bs" "length bs \<le> 25" "off + 32 \<le> length img"
  shows "write_entry off flags name file_size start img =
    (if start < 65536 \<and> file_size < 4294967296
     then Inr (slice_assign off (off + 32) (record_bytes bs flags start file_size) img) else Inl Struct_error)"
proof -
  define as ns fs ss zs cs where "as = take off img" and "ns = take 25 (drop off img)"
    and "fs = take 1 (drop (off + 25) img)" and "ss = take 2 (drop (off + 26) img)"
    and "zs = take 4 (drop (off + 28) img)" and "cs = drop (off + 32) img"
  have lens: "length as = off" "length ns = 25" "length fs = 1" "length ss = 2" "length zs = 4"
    using assms(3) by (auto simp: as_def ns_def fs_def ss_def zs_def)
  have img: "img = as @ ns @ fs @ ss @ zs @ cs"
    using take_drop_join [of 4 "off + 28" img] take_drop_join [of 2 "off + 26" img] take_drop_join [of 1 "off + 25" img]
      take_drop_join [of 25 off img] by (simp add: add.commute as_def ns_def fs_def ss_def zs_def cs_def)
  obtain f where f: "fs = [f]" using lens(3) by (cases fs) auto
  have name_len: "length (ljust 25 bs) = 25" using assms(2) by (simp add: ljust_def)
  have named: "slice_assign off (off + 25) (ljust 25 bs) img = as @ ljust 25 bs @ fs @ ss @ zs @ cs"
    unfolding img by (rule slice_assign_split) (use lens in auto)
  have flagged: "(as @ ljust 25 bs @ fs @ ss @ zs @ cs)[off + 25 := flags] = as @ ljust 25 bs @ flags # ss @ zs @ cs"
    using lens name_len f by (simp add: list_update_append)
  have sector: "slice_assign (off + 26) (28 + off) ys (as @ ljust 25 bs @ flags # ss @ zs @ cs) =
      as @ ljust 25 bs @ flags # ys @ zs @ cs" for ys
    using slice_assign_split [of "as @ ljust 25 bs @ [flags]" "off + 26" ss "28 + off" ys "zs @ cs"] lens name_len by simp
  have last: "slice_assign (off + 28) (32 + off) ys (as @ ljust 25 bs @ flags # le_bytes 2 v @ zs @ cs) =
      as @ ljust 25 bs @ flags # le_bytes 2 v @ ys @ cs" for ys v
    using slice_assign_split [of "as @ ljust 25 bs @ [flags] @ le_bytes 2 v" "off + 28" zs "32 + off" ys cs] lens name_len by simp
  have "slice_assign off (off + 32) (record_bytes bs flags start file_size) img =
      as @ record_bytes bs flags start file_size @ cs"
    using slice_assign_split [of as off "ns @ fs @ ss @ zs" "off + 32" "record_bytes bs flags start file_size" cs] lens img by simp
  moreover have "int start < 256 ^ 2 \<longleftrightarrow> start < 65536" "int file_size < 256 ^ 4 \<longleftrightarrow> file_size < 4294967296" by auto
  ultimately show ?thesis
    using assms(1) lens name_len
    by (simp add: write_entry_def bbfs_layout named flagged sector last require_def pack_into_def pack_unsigned_def
        record_bytes_def Let_def)
qed

lemma write_entry_record:
  assumes "utf8_encode name = Some bs" "length bs \<le> 25" "off + 32 \<le> length img"
    "write_entry off flags name file_size start img = Inr img'"
  shows "start < 65536 \<and> file_size < 4294967296 \<and>
    img' = slice_assign off (off + 32) (record_bytes bs flags start file_size) img"
  using assms(4) unfolding write_entry_eq [OF assms(1-3)] by (simp split: if_splits)

lemma directory_write:
  assumes "i < 16 * count" "base + 512 * count \<le> length img" "length r = 32"
  shows "directory count base (slice_assign (base + 32 * i) (base + 32 * i + 32) r img) =
    (directory count base img)[i := decode_entry r]"
proof (rule nth_equalityI)
  fix j assume "j < length (directory count base (slice_assign (base + 32 * i) (base + 32 * i + 32) r img))"
  then have j: "j < 16 * count" by (simp add: directory_def)
  have "slice (base + 32 * j) (base + 32 * j + 32) (slice_assign (base + 32 * i) (base + 32 * i + 32) r img) =
      (if j = i then r else slice (base + 32 * j) (base + 32 * j + 32) img)"
    using assms j
    by (cases i j rule: linorder_cases) (auto intro!: slice_assign_other slice_slice_assign)
  then show "directory count base (slice_assign (base + 32 * i) (base + 32 * i + 32) r img) ! j =
      (directory count base img)[i := decode_entry r] ! j"
    using j by (auto simp: directory_def entry_at_def)
qed (simp add: directory_def)

lemma directory_other:
  assumes "a + length ys \<le> length img" "base + 512 * count \<le> length img" "a + length ys \<le> base \<or> base + 512 * count \<le> a"
  shows "directory count base (slice_assign a (a + length ys) ys img) = directory count base img"
proof -
  have "slice (base + 32 * j) (base + 32 * j + 32) (slice_assign a (a + length ys) ys img) =
      slice (base + 32 * j) (base + 32 * j + 32) img" if "j < 16 * count" for j
    by (rule slice_assign_other) (use assms that in auto)
  then show ?thesis by (auto simp: directory_def entry_at_def)
qed

end
