(* ===== verification/Bbfs_Correct.thy ===== *)
theory Bbfs_Correct
  imports Bbfs_Directory
begin

text \<open>
  The writer of bbfs images keeps what an image holds: a file that was added is found with its contents, and
  what was there before stays.
\<close>

subsection \<open>One file\<close>

lemma name_fits_encodes: "name_fits name \<Longrightarrow> \<exists>bs. utf8_encode name = Some bs \<and> bs \<noteq> [] \<and> length bs \<le> 25 \<and> 0 \<notin> set bs"
  by (auto simp: name_fits_def name_field_def split: option.splits)

lemma write_data_Inr:
  "write_data data start img = Inr img' \<longleftrightarrow>
   start * 512 + length data \<le> length img \<and> img' = slice_assign (start * 512) (start * 512 + length data) data img"
  by (auto simp: write_data_def require_Inr sector_size_def)

lemma add_step:
  assumes found: "find_free_entry count filename img base = Inr (Some off)"
    and entry: "write_entry off flags filename (length data) start img = Inr img1"
    and data: "write_data data start img1 = Inr img2"
    and fits: "name_fits filename" and inside: "base + 512 * count \<le> length img" and below: "base + 512 * count \<le> start * 512"
  shows "\<exists>i target. i < 16 * count \<and> free_slot (directory count base img) filename i \<and> utf8_encode filename = Some target \<and>
    directory count base img2 = (directory count base img)[i := Some (target, flags, start, length data)] \<and>
    length img2 = length img \<and> slice (start * 512) (start * 512 + length data) img2 = data \<and>
    (\<forall>k < start * 512. k < base \<or> base + 512 * count \<le> k \<longrightarrow> img2 ! k = img ! k) \<and>
    start * 512 + length data \<le> length img"
proof -
  obtain i where i: "i < 16 * count" "off = base + 32 * i" "free_slot (directory count base img) filename i"
    using find_free_entry_slot [OF inside found] by blast
  obtain bs where bs: "utf8_encode filename = Some bs" "bs \<noteq> []" "length bs \<le> 25" "0 \<notin> set bs"
    using name_fits_encodes [OF fits] by blast
  have off: "off + 32 \<le> length img" using i inside by simp
  note w = write_entry_record [OF bs(1,3) off entry]
  define r where "r = record_bytes bs flags start (length data)"
  have r: "length r = 32" using bs(3) by (simp add: r_def length_record_bytes)
  have img1: "img1 = slice_assign (base + 32 * i) (base + 32 * i + 32) r img" using w i(2) by (simp add: r_def)
  have len1: "length img1 = length img" using r off i(2) by (simp add: img1 slice_assign_length)
  have d: "start * 512 + length data \<le> length img1" "img2 = slice_assign (start * 512) (start * 512 + length data) data img1"
    using data by (simp_all add: write_data_Inr)
  have "directory count base img1 = (directory count base img)[i := Some (bs, flags, start, length data)]"
    using directory_write [OF i(1) inside r] decode_record_bytes [OF bs(2,3,4)] w by (simp add: img1 r_def)
  then have "directory count base img2 = (directory count base img)[i := Some (bs, flags, start, length data)]"
    using directory_other [OF d(1), of base count] below inside len1 d(2) by simp
  moreover have "slice (start * 512) (start * 512 + length data) img2 = data" using d by (simp add: slice_slice_assign)
  moreover have "length img2 = length img" using d len1 by (simp add: slice_assign_length)
  moreover have "img2 ! k = img ! k" if k: "k < start * 512" "k < base \<or> base + 512 * count \<le> k" for k
  proof -
    have kl: "k < length img1" using k(1) d(1) by linarith
    have "img2 ! k = img1 ! k" unfolding d(2) by (rule nth_slice_assign) (use k kl d(1) in auto)
    also have "\<dots> = img ! k" unfolding img1 by (rule nth_slice_assign) (use k kl len1 i inside r in auto)
    finally show ?thesis .
  qed
  ultimately show ?thesis using i bs(1) d(1) len1 by (intro exI [where x = i] exI [where x = bs]) simp
qed

subsection \<open>A batch\<close>

text \<open>
  A file is stored when its name leads to an entry with its data, in a slot with no free one before it.
\<close>

definition stored :: "nat \<Rightarrow> nat \<Rightarrow> byte \<Rightarrow> nat \<Rightarrow> byte list \<Rightarrow> file_name \<times> byte list \<Rightarrow> bool" where
  "stored count base flags next_sector img f \<longleftrightarrow>
     (\<exists>i target start. i < 16 * count \<and> utf8_encode (fst f) = Some target \<and>
        directory count base img ! i = Some (target, flags, start, length (snd f)) \<and>
        (\<forall>j \<le> i. directory count base img ! j \<noteq> None) \<and>
        table_lookup (directory count base img) target = Some (flags, start, length (snd f)) \<and>
        base + 512 * count \<le> start * 512 \<and> start * 512 + length (snd f) \<le> next_sector * 512 \<and>
        slice (start * 512) (start * 512 + length (snd f)) img = snd f)"

lemma sectors_of_bound: "n \<le> sectors_of n * 512"
    using div_mult_mod_eq [of "n + 511" 512] mod_less_divisor [of 512 "n + 511"]
  by (simp add: sectors_of_def sector_size_def)

lemma stored_step:
  assumes old: "stored count base flags start img f"
    and new: "i < 16 * count" "free_slot (directory count base img) filename i" "utf8_encode filename = Some target"
    "directory count base img' = (directory count base img)[i := Some (target, rest)]"
    "length img' = length img" "start * 512 \<le> length img" "start \<le> start'"
    "\<forall>k < start * 512. k < base \<or> base + 512 * count \<le> k \<longrightarrow> img' ! k = img ! k"
  shows "stored count base flags start' img' f"
proof -
  obtain i' target' s where o: "i' < 16 * count" "utf8_encode (fst f) = Some target'"
    "directory count base img ! i' = Some (target', flags, s, length (snd f))"
    "\<forall>j \<le> i'. directory count base img ! j \<noteq> None"
    "table_lookup (directory count base img) target' = Some (flags, s, length (snd f))"
    "base + 512 * count \<le> s * 512" "s * 512 + length (snd f) \<le> start * 512"
    "slice (s * 512) (s * 512 + length (snd f)) img = snd f"
    using old unfolding stored_def by blast
  have free: "i < length (directory count base img)" "directory count base img ! i = None"
    "\<forall>j < i. \<exists>name rest. directory count base img ! j = Some (name, rest) \<and> utf8_decode name \<noteq> Some filename"
    using new(2) by (force simp: free_slot_def)+
  have "i' < i" using o(4) free(2) by (metis not_le)
  then have "utf8_decode target' \<noteq> Some filename" using free(3) o(3) by force
  then have ne: "target' \<noteq> target" using utf8_decode_encode [OF new(3)] by auto
  obtain r where "rest = r" "target' \<noteq> target" using ne by blast
  have "table_lookup (directory count base img') target' = table_lookup (directory count base img) target'"
    unfolding new(4) by (cases rest) (metis free(1,2) ne table_lookup_insert_other)
  moreover have "directory count base img' ! j = directory count base img ! j" if "j \<le> i'" for j
    using that \<open>i' < i\<close> by (simp add: new(4))
  moreover have "slice (s * 512) (s * 512 + length (snd f)) img' = slice (s * 512) (s * 512 + length (snd f)) img"
    by (rule slice_cong) (use new(5,8) o(6,7) in auto)
  ultimately show ?thesis unfolding stored_def
    using o new(7) by (intro exI [where x = i'] exI [where x = target'] exI [where x = s]) auto
qed

lemma stored_new:
  assumes "i < 16 * count" "free_slot (directory count base img) (fst f) i" "utf8_encode (fst f) = Some target"
    "directory count base img' = (directory count base img)[i := Some (target, flags, start, length (snd f))]"
    "slice (start * 512) (start * 512 + length (snd f)) img' = snd f" "base + 512 * count \<le> start * 512"
  shows "stored count base flags (start + sectors_of (length (snd f))) img' f"
proof -
  have "\<forall>j < i. directory count base img ! j \<noteq> None" "i < length (directory count base img)"
    using assms(2) by (force simp: free_slot_def)+
  then have "\<forall>j \<le> i. directory count base img' ! j \<noteq> None" "directory count base img' ! i = Some (target, flags, start, length (snd f))"
    unfolding assms(4) by (auto simp: nth_list_update le_less)
  moreover have "table_lookup (directory count base img') target = Some (flags, start, length (snd f))"
    unfolding assms(4) by (rule table_lookup_insert) (rule assms)+
  moreover have "start * 512 + length (snd f) \<le> (start + sectors_of (length (snd f))) * 512"
    using sectors_of_bound [of "length (snd f)"] by (simp add: algebra_simps)
  ultimately show ?thesis unfolding stored_def using assms(1,3,5,6) by blast
qed

lemma add_records_stored:
  assumes "add_records count base flags files start img = Inr img'"
    "\<forall>f \<in> set files. name_fits (fst f)" "base + 512 * count \<le> length img" "base + 512 * count \<le> start * 512"
    "\<forall>f \<in> set before. stored count base flags start img f"
  shows "length img' = length img \<and> (\<exists>end. \<forall>f \<in> set before \<union> set files. stored count base flags end img' f) \<and>
    (\<forall>i < 16 * count. directory count base img ! i \<noteq> None \<longrightarrow> directory count base img' ! i = directory count base img ! i) \<and>
    (\<forall>k < start * 512. k < base \<or> base + 512 * count \<le> k \<longrightarrow> img' ! k = img ! k)"
  using assms
proof (induction files arbitrary: start img before)
  case (Cons f files)
  obtain filename data where f_eq: "f = (filename, data)" by fastforce
  obtain off img1 img2 where steps: "find_free_entry count filename img base = Inr (Some off)"
    "write_entry off flags filename (length data) start img = Inr img1" "write_data data start img1 = Inr img2"
    "add_records count base flags files (start + sectors_of (length data)) img2 = Inr img'"
    using Cons.prems(1) by (auto simp: f_eq bind_result_Inr split: option.splits)
  have fits: "name_fits filename" using Cons.prems(2) by (simp add: f_eq)
  obtain i target where n: "i < 16 * count" "free_slot (directory count base img) filename i" "utf8_encode filename = Some target"
    "directory count base img2 = (directory count base img)[i := Some (target, flags, start, length data)]"
    "length img2 = length img" "slice (start * 512) (start * 512 + length data) img2 = data"
    "\<forall>k < start * 512. k < base \<or> base + 512 * count \<le> k \<longrightarrow> img2 ! k = img ! k" "start * 512 + length data \<le> length img"
    using add_step [OF steps(1-3) fits Cons.prems(3,4)] by blast
  have "stored count base flags (start + sectors_of (length data)) img2 g" if "g \<in> set (f # before)" for g
  proof (cases "g = f")
    case True
    then show ?thesis using stored_new [of i count base img f target img2 flags start] n Cons.prems(4) by (simp add: f_eq)
  next
    case False
    then show ?thesis using that Cons.prems(5) n(8) by (auto intro!: stored_step [OF _ n(1-5) _ _ n(7)])
  qed
  then have "\<forall>g \<in> set (f # before). stored count base flags (start + sectors_of (length data)) img2 g" by blast
  note IH = Cons.IH [OF steps(4) _ _ _ this]
  have "length img' = length img2 \<and> (\<exists>end. \<forall>g \<in> set (f # before) \<union> set files. stored count base flags end img' g) \<and>
    (\<forall>i < 16 * count. directory count base img2 ! i \<noteq> None \<longrightarrow> directory count base img' ! i = directory count base img2 ! i) \<and>
    (\<forall>k < (start + sectors_of (length data)) * 512. k < base \<or> base + 512 * count \<le> k \<longrightarrow> img' ! k = img2 ! k)"
    by (rule IH) (use Cons.prems n(5) in \<open>auto simp: algebra_simps\<close>)
  moreover have "directory count base img2 ! j = directory count base img ! j" if "directory count base img ! j \<noteq> None" for j
    using that n(2) by (cases "j = i") (auto simp: n(4) free_slot_def)
  ultimately show ?case using n(5,7) by (auto simp: algebra_simps)
qed auto

subsection \<open>Where free space begins\<close>

lemma entry_at_free: "off < length img \<Longrightarrow> img ! off = 0 \<Longrightarrow> entry_at off img = None"
  by (simp add: entry_at_def decode_entry_def slice_def)

lemma entry_end_sector_entry:
  assumes "entry_end_sector off img = Inr e" "entry_at off img = Some (name, flags, start, file_size)"
  shows "off + 32 \<le> length img \<and> e = start + sectors_of file_size"
proof -
  have off: "off + 32 \<le> length img"
    using assms(1) by (auto simp: entry_end_sector_def bind_result_Inr unpack_from_def require_Inr bbfs_layout)
  then show ?thesis using assms by (auto simp: entry_end_sector_def entry_reads entry_at_eq split: if_splits)
qed

lemma entries_end_bound:
  "entries_end offs img k = Inr s \<Longrightarrow> k \<le> s \<and>
   (\<forall>off \<in> set offs. \<forall>name flags start file_size.
      entry_at off img = Some (name, flags, start, file_size) \<longrightarrow> start + sectors_of file_size \<le> s)"
proof (induction offs arbitrary: k)
  case (Cons off offs)
  have off: "off < length img" using Cons.prems by (auto simp: bind_result_Inr read_byte_def require_Inr)
  show ?case
  proof (cases "img ! off = 0")
    case True
    then show ?thesis using Cons off by (auto simp: read_byte_def require_def entry_at_free)
  next
    case False
    then obtain e where e: "entry_end_sector off img = Inr e" "entries_end offs img (max k e) = Inr s"
      using Cons.prems off by (auto simp: read_byte_def require_def bind_result_Inr)
    then show ?thesis using Cons.IH [OF e(2)] entry_end_sector_entry [OF e(1)] by fastforce
  qed
qed simp

definition subdirectories :: "nat \<Rightarrow> nat \<Rightarrow> byte list \<Rightarrow> nat set" where
  "subdirectories count base img =
     {start. \<exists>name flags file_size. Some (name, flags, start, file_size) \<in> set (directory count base img) \<and>
        flags AND flag_directory \<noteq> 0}"

definition entries_below :: "nat \<Rightarrow> nat \<Rightarrow> byte list \<Rightarrow> nat \<Rightarrow> bool" where
  "entries_below count base img s \<longleftrightarrow>
     (\<forall>name flags start file_size. Some (name, flags, start, file_size) \<in> set (directory count base img) \<longrightarrow>
        start + sectors_of file_size \<le> s)"

lemma next_data_sector_bound:
  "next_data_sector offs count img k = Inr s \<Longrightarrow> k \<le> s \<and>
   (\<forall>off \<in> set offs. \<forall>name flags start file_size. entry_at off img = Some (name, flags, start, file_size) \<longrightarrow>
      start + sectors_of file_size \<le> s \<and> (flags AND flag_directory \<noteq> 0 \<longrightarrow> entries_below count (start * 512) img s))"
proof (induction offs arbitrary: k)
  case (Cons off offs)
  have off: "off < length img" using Cons.prems by (auto simp: bind_result_Inr read_byte_def require_Inr)
  show ?case
  proof (cases "img ! off = 0")
    case True
    then show ?thesis using Cons off by (auto simp: read_byte_def require_def entry_at_free)
  next
    case False
    then obtain e where e: "entry_end_sector off img = Inr e"
      using Cons.prems off by (auto simp: read_byte_def require_def bind_result_Inr)
    then have off32: "off + 32 \<le> length img"
      by (auto simp: entry_end_sector_def bind_result_Inr unpack_from_def require_Inr bbfs_layout)
    obtain name flags start file_size where entry: "entry_at off img = Some (name, flags, start, file_size)"
      "flags = img ! (off + 25)" "start = nat (le_int (slice (off + 26) (off + 28) img))"
      using False off32 by (simp add: entry_at_eq)
    note e' = entry_end_sector_entry [OF e entry(1)]
    show ?thesis
    proof (cases "flags AND flag_directory = 0")
      case True
      then have "next_data_sector offs count img (max k e) = Inr s"
        using Cons.prems False e entry(2) off32 by (simp add: entry_reads)
      note IH = Cons.IH [OF this]
      moreover have "start + sectors_of file_size \<le> s" "k \<le> s" using e' conjunct1 [OF IH] by auto
      ultimately show ?thesis using True by (simp add: entry(1))
    next
      case dir: False
      then obtain m where m: "entries_end (iter_entries (start * 512) count) img (max k e) = Inr m"
        "next_data_sector offs count img m = Inr s"
        using Cons.prems False e entry(2,3) off32 by (auto simp: entry_reads bind_result_Inr sector_size_def)
      note b = entries_end_bound [OF m(1)] and IH = Cons.IH [OF m(2)]
      have "entries_below count (start * 512) img s"
        unfolding entries_below_def directory_eq set_map
      proof (intro allI impI, elim imageE)
        fix n f st sz o'
        assume "Some (n, f, st, sz) = entry_at o' img" "o' \<in> set (iter_entries (start * 512) count)"
        then have "st + sectors_of sz \<le> m" using conjunct2 [OF b] by (metis (no_types))
        then show "st + sectors_of sz \<le> s" using conjunct1 [OF IH] by simp
      qed
      moreover have "start + sectors_of file_size \<le> s" "k \<le> s" using e' conjunct1 [OF b] conjunct1 [OF IH] by auto
      ultimately show ?thesis using conjunct2 [OF IH] by (simp add: entry(1))
    qed
  qed
qed simp

lemma compute_next_data_sector_bound:
  assumes "compute_next_data_sector d count img = Inr s"
  shows "d + count \<le> s \<and> entries_below count (d * 512) img s \<and>
    (\<forall>start \<in> subdirectories count (d * 512) img. entries_below count (start * 512) img s)"
proof -
  note b = next_data_sector_bound [OF assms [unfolded compute_next_data_sector_def sector_size_def]]
  have "\<exists>off \<in> set (iter_entries (d * 512) count). entry_at off img = Some e"
    if "Some e \<in> set (directory count (d * 512) img)" for e
    using that unfolding directory_eq by force
  then have "\<forall>name flags start file_size. Some (name, flags, start, file_size) \<in> set (directory count (d * 512) img) \<longrightarrow>
      start + sectors_of file_size \<le> s \<and> (flags AND flag_directory \<noteq> 0 \<longrightarrow> entries_below count (start * 512) img s)"
    using b by metis
  then show ?thesis using conjunct1 [OF b] unfolding entries_below_def [of count "d * 512"] subdirectories_def by blast
qed

end
