(* ===== verification/Bbfs_Image.thy ===== *)
theory Bbfs_Image
  imports Bbfs_Correct
begin

text \<open>
  What \<open>add_files\<close> and \<open>make_directory\<close> promise of a whole image.
\<close>

subsection \<open>Adding files\<close>

lemma stored_found:
  assumes "stored count (p * 512) flags next_sector img f" "(p + count) * 512 \<le> length img"
  shows "\<exists>start. find_entry count p img (fst f) = Inr (Some (flags, start, length (snd f))) \<and>
    slice (start * 512) (start * 512 + length (snd f)) img = snd f"
proof -
  obtain target start where "utf8_encode (fst f) = Some target"
    "table_lookup (directory count (p * 512) img) target = Some (flags, start, length (snd f))"
    "slice (start * 512) (start * 512 + length (snd f)) img = snd f"
    using assms(1) unfolding stored_def by blast
  then show ?thesis using find_entry_table [of p count img "fst f" target] assms(2) by (auto simp: algebra_simps)
qed

text \<open>The directory the files go to ends before the data that is added; the root does by construction.\<close>

definition reserved :: "nat \<Rightarrow> nat \<Rightarrow> nat \<Rightarrow> byte list \<Rightarrow> bool" where
  "reserved d p count img =
     (p = d \<or> (case compute_next_data_sector d count img of Inl _ \<Rightarrow> True | Inr s \<Rightarrow> p + count \<le> s))"

lemma add_files_records:
  assumes "add_files allow_empty executable files subdirectory count img = Inr img'" "files \<noteq> []"
    "\<forall>f \<in> set files. name_fits (fst f)" "compute_directory_sector img = Inr d"
    "parent_sector d count subdirectory img = Inr p" "reserved d p count img" "(p + count) * 512 \<le> length img"
  obtains s end_sector where "compute_next_data_sector d count img = Inr s" "p + count \<le> s" "length img' = length img"
    "\<forall>f \<in> set files. stored count (p * 512) (if executable then flag_execute else 0) end_sector img' f"
    "\<forall>i < 16 * count. directory count (p * 512) img ! i \<noteq> None \<longrightarrow>
       directory count (p * 512) img' ! i = directory count (p * 512) img ! i"
    "\<forall>k < s * 512. k < p * 512 \<or> (p + count) * 512 \<le> k \<longrightarrow> img' ! k = img ! k"
proof -
  define flags where "flags = (if executable then flag_execute else 0 :: byte)"
  obtain s where s: "compute_next_data_sector d count img = Inr s"
    "add_records count (p * 512) flags files s img = Inr img'"
    using assms(1,2,4,5) by (auto simp: add_files_def bind_result_Inr flags_def sector_size_def split: if_splits)
  have ps: "p + count \<le> s"
    using assms(6) s(1) compute_next_data_sector_bound [OF s(1)] by (auto simp: reserved_def)
  have r: "length img' = length img \<and>
    (\<exists>e. \<forall>f \<in> set [] \<union> set files. stored count (p * 512) flags e img' f) \<and>
    (\<forall>i < 16 * count. directory count (p * 512) img ! i \<noteq> None \<longrightarrow>
       directory count (p * 512) img' ! i = directory count (p * 512) img ! i) \<and>
    (\<forall>k < s * 512. k < p * 512 \<or> p * 512 + 512 * count \<le> k \<longrightarrow> img' ! k = img ! k)"
    by (rule add_records_stored [OF s(2) assms(3)]) (use assms(7) ps in \<open>auto simp: algebra_simps\<close>)
  then obtain e where "\<forall>f \<in> set files. stored count (p * 512) flags e img' f" by auto
  then show thesis using r by (intro that [OF s(1) ps, of e]) (auto simp: flags_def algebra_simps)
qed

text \<open>
  A file that was added is read back: when the batch succeeds, looking the name up in the directory finds
  the flags, a first sector and the size, and the sectors from there on hold the file's bytes.
\<close>

theorem add_files_found:
  assumes "add_files allow_empty executable files subdirectory count img = Inr img'"
    "\<forall>f \<in> set files. name_fits (fst f)" "compute_directory_sector img = Inr d"
    "parent_sector d count subdirectory img = Inr p" "reserved d p count img" "(p + count) * 512 \<le> length img"
    "(name, data) \<in> set files"
  shows "\<exists>start. find_entry count p img' name = Inr (Some (if executable then flag_execute else 0, start, length data)) \<and>
    slice (start * 512) (start * 512 + length data) img' = data"
proof -
  have "files \<noteq> []" using assms(7) by auto
  from add_files_records [OF assms(1) this assms(2-6)]
  obtain end_sector where "stored count (p * 512) (if executable then flag_execute else 0) end_sector img' (name, data)"
    "length img' = length img" using assms(7) by metis
  then show ?thesis using stored_found [of count p _ end_sector img' "(name, data)"] assms(6) by simp
qed

text \<open>
  C16. Adding files keeps what is there, on three conditions.  Every name encodes to between 1 and 25 bytes,
  none of them zero: the code bounds the number of characters only, and an accepted name with a longer encoding
  shifts what follows it in the image (\<open>long_encoding_grows_image\<close>).  The directory the files go to
  lies inside the image; and, unless it is the root, it ends before the sector the next data goes to.  Then the
  image keeps its length, entries of the directory stay in their slots, and the data of every file of the root
  and of its subdirectories outside the directory's own sectors is untouched.
\<close>

theorem add_files_keeps:
  assumes "add_files allow_empty executable files subdirectory count img = Inr img'"
    "\<forall>f \<in> set files. name_fits (fst f)" "compute_directory_sector img = Inr d"
    "parent_sector d count subdirectory img = Inr p" "reserved d p count img" "(p + count) * 512 \<le> length img"
  shows "length img' = length img \<and>
    (\<forall>i < 16 * count. directory count (p * 512) img ! i \<noteq> None \<longrightarrow>
       directory count (p * 512) img' ! i = directory count (p * 512) img ! i) \<and>
    (\<forall>dir \<in> insert d (subdirectories count (d * 512) img). \<forall>name flags start file_size.
       Some (name, flags, start, file_size) \<in> set (directory count (dir * 512) img) \<longrightarrow>
       start * 512 + file_size \<le> p * 512 \<or> (p + count) * 512 \<le> start * 512 \<longrightarrow>
       slice (start * 512) (start * 512 + file_size) img' = slice (start * 512) (start * 512 + file_size) img)"
proof (cases "files = []")
  case True
  then show ?thesis using assms(1) by (simp add: add_files_def)
next
  case False
  from add_files_records [OF assms(1) False assms(2-6)]
  obtain s where s: "compute_next_data_sector d count img = Inr s" "length img' = length img"
    "\<forall>i < 16 * count. directory count (p * 512) img ! i \<noteq> None \<longrightarrow>
       directory count (p * 512) img' ! i = directory count (p * 512) img ! i"
    "\<forall>k < s * 512. k < p * 512 \<or> (p + count) * 512 \<le> k \<longrightarrow> img' ! k = img ! k" by metis
  have "slice (start * 512) (start * 512 + file_size) img' = slice (start * 512) (start * 512 + file_size) img"
    if "dir \<in> insert d (subdirectories count (d * 512) img)"
      "Some (name, flags, start, file_size) \<in> set (directory count (dir * 512) img)"
      "start * 512 + file_size \<le> p * 512 \<or> (p + count) * 512 \<le> start * 512" for dir name flags start file_size
  proof -
    have "entries_below count (dir * 512) img s" using compute_next_data_sector_bound [OF s(1)] that(1) by blast
    then have "start + sectors_of file_size \<le> s" using that(2) unfolding entries_below_def by blast
    then have "start * 512 + file_size \<le> s * 512" using sectors_of_bound [of file_size] by linarith
    then show ?thesis using that(3) s(2,4) by (intro slice_cong) auto
  qed
  then show ?thesis using s(2,3) by blast
qed

subsection \<open>Making a directory\<close>

lemma find_subdirectory_in_slot:
  assumes "\<forall>off \<in> set offs. off + 32 \<le> length img" "i < length offs"
    "\<forall>j < i. \<exists>name rest. entry_at (offs ! j) img = Some (name, rest) \<and> utf8_decode name \<noteq> None \<and> utf8_decode name \<noteq> Some dirname"
    "entry_at (offs ! i) img = Some (target, flags, rest)" "utf8_decode target = Some dirname" "flags AND flag_directory \<noteq> 0"
  shows "find_subdirectory_in offs dirname img = Inr (Some (offs ! i))"
  using assms(1-4)
proof (induction offs arbitrary: i)
  case (Cons off offs)
  have off: "off + 32 \<le> length img" using Cons.prems(1) by simp
  show ?case
  proof (cases i)
    case 0
    then show ?thesis using Cons.prems(4) off assms(5,6) by (auto simp: entry_reads entry_at_eq split: if_splits)
  next
    case (Suc j)
    then obtain name r where e: "entry_at off img = Some (name, r)" "utf8_decode name \<noteq> None" "utf8_decode name \<noteq> Some dirname"
      using Cons.prems(3) by force
    have "find_subdirectory_in offs dirname img = Inr (Some (offs ! j))"
    proof (rule Cons.IH)
      show "\<forall>k < j. \<exists>name rest. entry_at (offs ! k) img = Some (name, rest) \<and> utf8_decode name \<noteq> None \<and>
          utf8_decode name \<noteq> Some dirname"
        using Cons.prems(3) Suc by force
    qed (use Cons.prems Suc in auto)
    moreover have "img ! off \<noteq> 0" "entry_name off img = name" using e(1) off by (auto simp: entry_at_eq split: if_splits)
    ultimately show ?thesis using e off Suc by (auto simp: entry_reads)
  qed
qed simp

lemma compute_directory_sector_positive: "compute_directory_sector img = Inr d \<Longrightarrow> 1 \<le> d"
  by (auto simp: compute_directory_sector_def bind_result_Inr)

lemma compute_directory_sector_cong:
  assumes "compute_directory_sector img = Inr d" "length img' = length img" "\<forall>k < 512. img' ! k = img ! k"
  shows "compute_directory_sector img' = Inr d"
proof -
  have "slice 506 510 img' = slice 506 510 img" by (rule slice_cong) (use assms in auto)
  then show ?thesis using assms(1,2) by (simp add: compute_directory_sector_def unpack_from_def kernel_bytes_offset_def)
qed

lemma make_directory_made:
  assumes made: "make_directory dirname count img = Inr img'" and fits: "name_fits dirname"
    and d: "compute_directory_sector img = Inr d" and inside: "(d + count) * 512 \<le> length img"
  obtains p where "compute_directory_sector img' = Inr d" "length img' = length img"
    "parent_sector d count (Some dirname) img' = Inr p" "reserved d p count img'" "d + count \<le> p"
    "(p + count) * 512 \<le> length img"
    "find_entry count d img' dirname = Inr (Some (flag_directory, p, count * 512))"
proof -
  obtain off p img1 where steps: "find_free_entry count dirname img (d * 512) = Inr (Some off)"
    "compute_next_data_sector d count img = Inr p"
    "write_entry off flag_directory dirname (count * 512) p img = Inr img1"
    "write_data (replicate (count * 512) 0) p img1 = Inr img'"
    using made d by (auto simp: make_directory_def require_Inr bind_result_Inr sector_size_def split: if_splits option.splits)
  have dp: "d + count \<le> p" using compute_next_data_sector_bound [OF steps(2)] by blast
  have "write_entry off flag_directory dirname (length (replicate (count * 512) (0 :: byte))) p img = Inr img1"
    using steps(3) by simp
  from add_step [OF steps(1) this steps(4) fits] inside dp
  obtain i target where n: "i < 16 * count" "free_slot (directory count (d * 512) img) dirname i" "utf8_encode dirname = Some target"
    "directory count (d * 512) img' = (directory count (d * 512) img)[i := Some (target, flag_directory, p, count * 512)]"
    "length img' = length img" "\<forall>k < p * 512. k < d * 512 \<or> d * 512 + 512 * count \<le> k \<longrightarrow> img' ! k = img ! k"
    "p * 512 + count * 512 \<le> length img"
    by (auto simp: algebra_simps)
  have d': "compute_directory_sector img' = Inr d"
    by (rule compute_directory_sector_cong [OF d n(5)])
      (use n(6) dp compute_directory_sector_positive [OF d] in auto)
  have free: "i < length (directory count (d * 512) img)"
    "\<forall>j < i. \<exists>name rest. directory count (d * 512) img ! j = Some (name, rest) \<and> utf8_decode name \<noteq> None \<and>
       utf8_decode name \<noteq> Some dirname"
    using n(2) by (auto simp: free_slot_def)
  define offs where "offs = iter_entries (d * 512) count"
  have offs: "length offs = 16 * count" "\<forall>j < 16 * count. directory count (d * 512) img' ! j = entry_at (offs ! j) img'"
    "\<forall>off \<in> set offs. off + 32 \<le> length img'"
    using inside n(5) by (auto simp: offs_def iter_entries_eq directory_def algebra_simps)
  have entry: "entry_at (offs ! i) img' = Some (target, flag_directory, p, count * 512)"
    using offs(2) n(1) n(4) free(1) by (metis nth_list_update_eq)
  have before: "\<forall>j < i. \<exists>name rest. entry_at (offs ! j) img' = Some (name, rest) \<and> utf8_decode name \<noteq> None \<and>
      utf8_decode name \<noteq> Some dirname"
  proof (intro allI impI)
    fix j assume "j < i"
    then have "j < 16 * count" using n(1) by simp
    then have "entry_at (offs ! j) img' = directory count (d * 512) img' ! j" using offs(2) by metis
    also have "\<dots> = directory count (d * 512) img ! j" using \<open>j < i\<close> by (simp add: n(4))
    finally show "\<exists>name rest. entry_at (offs ! j) img' = Some (name, rest) \<and> utf8_decode name \<noteq> None \<and>
        utf8_decode name \<noteq> Some dirname"
      using free(2) \<open>j < i\<close> by simp
  qed
  have "find_subdirectory_in offs dirname img' = Inr (Some (offs ! i))"
    by (rule find_subdirectory_in_slot [OF offs(3) _ before entry])
      (use offs(1) n(1) utf8_decode_encode [OF n(3)] in \<open>auto simp: flag_directory_def\<close>)
  moreover have "offs ! i + 32 \<le> length img'" using offs(1,3) n(1) by simp
  then have "unpack_from 2 (offs ! i + offset_sector) img' = Inr p"
    using entry by (auto simp: entry_reads entry_at_eq split: if_splits)
  ultimately have parent: "parent_sector d count (Some dirname) img' = Inr p"
    by (simp add: parent_sector_def find_subdirectory_entry_def offs_def sector_size_def)
  have "p + count \<le> s" if "compute_next_data_sector d count img' = Inr s" for s
  proof -
    have "Some (target, flag_directory, p, count * 512) \<in> set (directory count (d * 512) img')"
      using n(1,4) free(1) by (metis set_update_memI)
    then have "p + sectors_of (count * 512) \<le> s"
      using compute_next_data_sector_bound [OF that] unfolding entries_below_def by blast
    then show ?thesis using sectors_of_bound [of "count * 512"] by simp
  qed
  then have "reserved d p count img'" by (auto simp: reserved_def split: sum.splits)
  moreover have "find_entry count d img' dirname = Inr (Some (flag_directory, p, count * 512))"
    using find_entry_table [of d count img' dirname target] inside n(3,5)
      table_lookup_insert [OF n(2,3), of "(flag_directory, p, count * 512)"] n(4) by (simp add: algebra_simps)
  ultimately show thesis using that d' n(5) parent dp n(7) by (simp add: algebra_simps)
qed

text \<open>
  C15. Files added to a directory that was just made are found through it: the root leads to the directory and
  the directory to each file and its contents.  The conditions: the directory's name and every file's name
  encode to between 1 and 25 bytes, none of them zero (the code bounds the number of characters only, and an
  accepted name with a longer encoding shifts what follows it in the image), and the image is long enough to
  hold the root directory.
\<close>

theorem made_directory_holds_files:
  assumes "make_directory dirname count img = Inr img1" "name_fits dirname" "compute_directory_sector img = Inr d"
    "(d + count) * 512 \<le> length img" "add_files allow_empty executable files (Some dirname) count img1 = Inr img2"
    "\<forall>f \<in> set files. name_fits (fst f)"
  shows "\<exists>p. find_entry count d img2 dirname = Inr (Some (flag_directory, p, count * 512)) \<and>
    (\<forall>(name, data) \<in> set files. \<exists>start.
       find_entry count p img2 name = Inr (Some (if executable then flag_execute else 0, start, length data)) \<and>
       slice (start * 512) (start * 512 + length data) img2 = data)"
proof -
  obtain p where p: "compute_directory_sector img1 = Inr d" "length img1 = length img"
    "parent_sector d count (Some dirname) img1 = Inr p" "reserved d p count img1" "d + count \<le> p"
    "(p + count) * 512 \<le> length img" "find_entry count d img1 dirname = Inr (Some (flag_directory, p, count * 512))"
    by (rule make_directory_made [OF assms(1-4)])
  have in1: "(p + count) * 512 \<le> length img1" using p(2,6) by simp
  show ?thesis
  proof (cases "files = []")
    case True
    then show ?thesis using assms(5) p(7) by (simp add: add_files_def)
  next
    case False
    from add_files_records [OF assms(5) False assms(6) p(1,3,4) in1]
    obtain s e where s: "p + count \<le> s" "length img2 = length img1"
      "\<forall>f \<in> set files. stored count (p * 512) (if executable then flag_execute else 0) e img2 f"
      "\<forall>k < s * 512. k < p * 512 \<or> (p + count) * 512 \<le> k \<longrightarrow> img2 ! k = img1 ! k" by metis
    have "slice off (off + 32) img2 = slice off (off + 32) img1" if "off + 32 \<le> (d + count) * 512" for off
      by (rule slice_cong) (use that s p(5) in auto)
    then have "directory count (d * 512) img2 = directory count (d * 512) img1"
      by (auto simp: directory_def entry_at_def)
    moreover obtain target where "utf8_encode dirname = Some target" using name_fits_encodes [OF assms(2)] by blast
    ultimately have "find_entry count d img2 dirname = find_entry count d img1 dirname"
      using find_entry_table [of d count _ dirname target] assms(4) p(2) s(2) by (simp add: algebra_simps)
    moreover have "\<forall>(name, data) \<in> set files. \<exists>start.
       find_entry count p img2 name = Inr (Some (if executable then flag_execute else 0, start, length data)) \<and>
       slice (start * 512) (start * 512 + length data) img2 = data"
      using stored_found s(2,3) in1 by fastforce
    ultimately show ?thesis using p(7) by auto
  qed
qed

subsection \<open>Images to try it on\<close>

text \<open>An image of five sectors with an empty root directory of one sector, and what making a directory turns it into.\<close>

definition blank_image :: "byte list" where
  "blank_image = replicate 2560 0"

definition image_with_directory :: "byte list" where
  "image_with_directory = replicate 512 0 @ [98] @ replicate 24 0 @ [2, 2, 0, 0, 2, 0, 0] @ replicate 2016 0"

lemma slots_of_one_sector: "iter_entries base (Suc 0) = map (\<lambda>i. base + i) [0, 32, 64, 96, 128, 160, 192, 224, 256, 288, 320, 352, 384, 416, 448, 480]"
  by (simp add: iter_entries_eq upt_conv_Cons)

lemma le_int_zeros: "le_int (replicate n 0) = 0"
  by (induction n) auto

lemmas image_eval = require_def read_byte_def unpack_from_def bbfs_layout slice_def slots_of_one_sector entry_name_def
  blank_image_def image_with_directory_def nth_append le_int_zeros

lemma blank_sector: "compute_directory_sector blank_image = Inr 1"
  by (simp add: compute_directory_sector_def kernel_bytes_offset_def sectors_of_def image_eval)

lemma blank_next: "compute_next_data_sector 1 1 blank_image = Inr 2"
  by (simp add: compute_next_data_sector_def image_eval)

lemma blank_not_ext2: "\<not> detects_ext2 1 blank_image"
  by (simp add: detects_ext2_def image_eval)



lemma le_bytes_numeral:
  "le_bytes 2 v = [word_of_int v, word_of_int (v div 256)]"
  "le_bytes 4 v = [word_of_int v, word_of_int (v div 256), word_of_int (v div 65536), word_of_int (v div 16777216)]"
  by (simp_all add: eval_nat_numeral(2,3) zdiv_zmult2_eq [symmetric])

lemma directory_record: "record_bytes [98] flag_directory 2 512 = [98] @ replicate 24 0 @ [2, 2, 0, 0, 2, 0, 0]"
  by (simp add: record_bytes_def ljust_def name_field_def le_bytes_numeral flag_directory_def)


lemma blank_free: "find_free_entry 1 name blank_image 512 = Inr (Some 512)"
  by (simp add: find_free_entry_def image_eval)

lemma directory_made: "make_directory [98] 1 blank_image = Inr image_with_directory"
proof -
  have "utf8_encode [98] = Some [98]" by (simp add: utf8_char_def)
  then have "write_entry 512 flag_directory [98] 512 2 blank_image =
      Inr (slice_assign 512 544 (record_bytes [98] flag_directory 2 512) blank_image)"
    using write_entry_eq [of "[98]" "[98]" 512 blank_image flag_directory 512 2] by (simp add: blank_image_def)
  moreover have "write_data (replicate 512 0) 2 (slice_assign 512 544 (record_bytes [98] flag_directory 2 512) blank_image) =
      Inr image_with_directory"
    by (simp add: directory_record slice_assign_def write_data_def sector_size_def require_def blank_image_def image_with_directory_def
        flip: replicate_add)
  ultimately show ?thesis
    using blank_sector blank_not_ext2 blank_next blank_free
    by (simp add: make_directory_def filename_max_def require_def sector_size_def)
qed

lemma file_added: "\<exists>img. add_files False True [([104, 105], [7])] (Some [98]) 1 image_with_directory = Inr img"
proof -
  have dir: "compute_directory_sector image_with_directory = Inr 1"
    by (simp add: compute_directory_sector_def kernel_bytes_offset_def sectors_of_def image_eval)
  have ext2: "\<not> detects_ext2 1 image_with_directory"
    by (simp add: detects_ext2_def image_eval)

  have name: "entry_name 512 image_with_directory = [98]"
  proof -
    have "slice 512 537 image_with_directory = ljust 25 [98]" by (simp add: image_eval ljust_def)
    then show ?thesis using rstrip_ljust [of "[98]" 25] by (simp add: entry_name_def name_field_def)
  qed
  have decoded: "utf8_decode [98] = Some [98]" by (rule utf8_decode_encode) (simp add: utf8_char_def)
  have reads: "read_byte 512 image_with_directory = Inr 98" "read_byte (512 + offset_flags) image_with_directory = Inr 2"
    by (simp_all add: image_eval)
  have "find_subdirectory_in (512 # offs) [98] image_with_directory = Inr (Some 512)" for offs
    using name decoded reads by (simp add: flag_directory_def)
  then have parent: "parent_sector 1 1 (Some [98]) image_with_directory = Inr 2"
    by (simp add: parent_sector_def find_subdirectory_entry_def slots_of_one_sector sector_size_def)
      (simp add: image_eval)
  have ne: "compute_next_data_sector 1 1 image_with_directory = Inr 3"
    by (simp add: compute_next_data_sector_def entry_end_sector_def sectors_of_def image_eval flag_directory_def)
  have free: "find_free_entry 1 name image_with_directory 1024 = Inr (Some 1024)" for name
    by (simp add: find_free_entry_def image_eval)
  have "utf8_encode [104, 105] = Some [104, 105]" by (simp add: utf8_char_def)
  then have "write_entry 1024 flag_execute [104, 105] 1 3 image_with_directory =
      Inr (slice_assign 1024 1056 (record_bytes [104, 105] flag_execute 3 1) image_with_directory)"
    using write_entry_eq [of "[104, 105]" "[104, 105]" 1024 image_with_directory flag_execute 1 3]
    by (simp add: image_with_directory_def)
  moreover have "length (slice_assign 1024 1056 (record_bytes [104, 105] flag_execute 3 1) image_with_directory) = 2560"
    by (simp add: slice_assign_length length_record_bytes image_with_directory_def)
  ultimately show ?thesis using dir ext2 parent ne free
    by (simp add: add_files_def filename_max_def require_def sector_size_def write_data_def)
qed
lemma made_directory_holds_files_witness:
  "\<exists>img p start. find_entry 1 1 img [98] = Inr (Some (flag_directory, p, 512)) \<and>
     find_entry 1 p img [104, 105] = Inr (Some (flag_execute, start, 1)) \<and> slice (start * 512) (start * 512 + 1) img = [7]"
proof -
  obtain img where img: "add_files False True [([104, 105], [7])] (Some [98]) 1 image_with_directory = Inr img"
    using file_added by blast
  have "name_fits [98]" "name_fits [104, 105]" by (simp_all add: name_fits_def utf8_char_def name_field_def)
  then have "\<exists>p. find_entry 1 1 img [98] = Inr (Some (flag_directory, p, 1 * 512)) \<and>
    (\<forall>(name, data) \<in> set [([104, 105], [7])]. \<exists>start.
       find_entry 1 p img name = Inr (Some (if True then flag_execute else 0, start, length data)) \<and>
       slice (start * 512) (start * 512 + length data) img = data)"
    by (intro made_directory_holds_files [OF directory_made _ blank_sector _ img]) (auto simp: blank_image_def)
  then show ?thesis by (intro exI [where x = img]) simp
qed

lemma blank_added: "\<exists>img. add_files False True [([104, 105], [7])] None 1 blank_image = Inr img"
proof -
  have "utf8_encode [104, 105] = Some [104, 105]" by (simp add: utf8_char_def)
  then have "write_entry 512 flag_execute [104, 105] 1 2 blank_image =
      Inr (slice_assign 512 544 (record_bytes [104, 105] flag_execute 2 1) blank_image)"
    using write_entry_eq [of "[104, 105]" "[104, 105]" 512 blank_image flag_execute 1 2]
    by (simp add: blank_image_def)
  moreover have "length (slice_assign 512 544 (record_bytes [104, 105] flag_execute 2 1) blank_image) = 2560"
    by (simp add: slice_assign_length length_record_bytes blank_image_def)
  ultimately show ?thesis using blank_sector blank_not_ext2 blank_next blank_free
    by (simp add: add_files_def filename_max_def require_def sector_size_def write_data_def parent_sector_def)
qed

lemma add_files_found_witness:
  "\<exists>img start. find_entry 1 1 img [104, 105] = Inr (Some (flag_execute, start, 1)) \<and>
     slice (start * 512) (start * 512 + 1) img = [7]"
proof -
  obtain img where img: "add_files False True [([104, 105], [7])] None 1 blank_image = Inr img"
    using blank_added by blast
  have "name_fits [104, 105]" by (simp add: name_fits_def utf8_char_def name_field_def)
  then have "\<exists>start. find_entry 1 1 img [104, 105] = Inr (Some (if True then flag_execute else 0, start, length [7 :: byte])) \<and>
      slice (start * 512) (start * 512 + length [7 :: byte]) img = [7]"
    by (intro add_files_found [OF img _ blank_sector]) (auto simp: parent_sector_def reserved_def blank_image_def)
  then show ?thesis by auto
qed

text \<open>An image whose root directory holds one executable file \<open>hi\<close> of one byte, in the sector after the directory.\<close>

definition image_with_file :: "byte list" where
  "image_with_file = replicate 512 0 @ [104, 105] @ replicate 23 0 @ [1, 2, 0, 1, 0, 0, 0] @ replicate 480 0 @ [7] @ replicate 1535 0"

lemmas file_eval = require_def read_byte_def unpack_from_def bbfs_layout slice_def slots_of_one_sector
  image_with_file_def nth_append le_int_zeros

lemma image_with_file_name: "entry_name 512 image_with_file = [104, 105]"
proof -
  have "slice 512 537 image_with_file = ljust 25 [104, 105]" by (simp add: file_eval ljust_def)
  then show ?thesis using rstrip_ljust [of "[104, 105]" 25] by (simp add: entry_name_def name_field_def)
qed

lemma image_with_file_facts:
  "compute_directory_sector image_with_file = Inr 1" "\<not> detects_ext2 1 image_with_file"
  "compute_next_data_sector 1 1 image_with_file = Inr 3"
  "find_free_entry 1 [104, 111] image_with_file 512 = Inr (Some 544)"
  "entry_at 512 image_with_file = Some ([104, 105], flag_execute, 2, 1)"
  "length image_with_file = 2560" "slice 1024 1025 image_with_file = [7]"
proof -
  have decoded: "utf8_decode [104, 105] = Some [104, 105]" by (rule utf8_decode_encode) (simp add: utf8_char_def)
  show "compute_directory_sector image_with_file = Inr 1"
    by (simp add: compute_directory_sector_def kernel_bytes_offset_def sectors_of_def file_eval)
  show "\<not> detects_ext2 1 image_with_file" by (simp add: detects_ext2_def file_eval)
  show "compute_next_data_sector 1 1 image_with_file = Inr 3"
    by (simp add: compute_next_data_sector_def entry_end_sector_def sectors_of_def file_eval flag_directory_def)
  have "read_byte 512 image_with_file = Inr 104" "read_byte 544 image_with_file = Inr 0" by (simp_all add: file_eval)
  then show "find_free_entry 1 [104, 111] image_with_file 512 = Inr (Some 544)"
    using decoded by (simp add: find_free_entry_def slots_of_one_sector image_with_file_name)
  show "entry_at 512 image_with_file = Some ([104, 105], flag_execute, 2, 1)"
    by (subst entry_at_eq) (simp_all add: image_with_file_name flag_execute_def, simp_all add: file_eval)
  show "length image_with_file = 2560" "slice 1024 1025 image_with_file = [7]" by (simp_all add: image_with_file_def slice_def)
qed

lemma second_file_added: "\<exists>img. add_files False True [([104, 111], [9])] None 1 image_with_file = Inr img"
proof -
  have "utf8_encode [104, 111] = Some [104, 111]" by (simp add: utf8_char_def)
  then have "write_entry 544 flag_execute [104, 111] 1 3 image_with_file =
      Inr (slice_assign 544 576 (record_bytes [104, 111] flag_execute 3 1) image_with_file)"
    using write_entry_eq [of "[104, 111]" "[104, 111]" 544 image_with_file flag_execute 1 3] image_with_file_facts(6) by simp
  moreover have "length (slice_assign 544 576 (record_bytes [104, 111] flag_execute 3 1) image_with_file) = 2560"
    by (simp add: slice_assign_length length_record_bytes image_with_file_facts(6))
  ultimately show ?thesis using image_with_file_facts(1-4)
    by (simp add: add_files_def filename_max_def require_def sector_size_def write_data_def parent_sector_def)
qed

lemma add_files_keeps_witness:
  "\<exists>img. add_files False True [([104, 111], [9])] None 1 image_with_file = Inr img \<and> length img = length image_with_file \<and>
     directory 1 512 img ! 0 = Some ([104, 105], flag_execute, 2, 1) \<and> slice 1024 1025 img = [7]"
proof -
  obtain img where img: "add_files False True [([104, 111], [9])] None 1 image_with_file = Inr img"
    using second_file_added by blast
  have "name_fits [104, 111]" by (simp add: name_fits_def utf8_char_def name_field_def)
  then have kept: "length img = length image_with_file \<and>
    (\<forall>i < 16 * 1. directory 1 (1 * 512) image_with_file ! i \<noteq> None \<longrightarrow>
       directory 1 (1 * 512) img ! i = directory 1 (1 * 512) image_with_file ! i) \<and>
    (\<forall>dir \<in> insert 1 (subdirectories 1 (1 * 512) image_with_file). \<forall>name flags start file_size.
       Some (name, flags, start, file_size) \<in> set (directory 1 (dir * 512) image_with_file) \<longrightarrow>
       start * 512 + file_size \<le> 1 * 512 \<or> (1 + 1) * 512 \<le> start * 512 \<longrightarrow>
       slice (start * 512) (start * 512 + file_size) img = slice (start * 512) (start * 512 + file_size) image_with_file)"
    by (intro add_files_keeps [OF img _ image_with_file_facts(1)])
      (auto simp: parent_sector_def reserved_def image_with_file_facts(6))
  have dir: "directory 1 512 image_with_file = Some ([104, 105], flag_execute, 2, 1) # tl (directory 1 512 image_with_file)"
    using image_with_file_facts(5) by (simp add: directory_def upt_conv_Cons)
  then have "directory 1 512 image_with_file ! 0 = Some ([104, 105], flag_execute, 2, 1)"
    "Some ([104, 105], flag_execute, 2, 1) \<in> set (directory 1 512 image_with_file)"
    by (metis nth_Cons_0, metis list.set_intros(1))
  then show ?thesis using img kept image_with_file_facts(7) by fastforce
qed

end
