(* ===== verification/Bbfs_Findings.thy ===== *)
theory Bbfs_Findings
  imports Bbfs_Image
begin

text \<open>
  Batches on which \<^verbatim>\<open>add_file.py\<close> does not do what its messages and comments say.
\<close>

text \<open>
  The length check counts characters, the field holds bytes: a name of 24 two-byte characters is accepted
  and its 48 bytes replace the 25 of the field, so the image grows and everything behind the entry moves.
\<close>

theorem long_encoding_grows_image:
  "\<exists>img. add_files False False [(replicate 24 233, [7])] None 1 blank_image = Inr img \<and> length img = length blank_image + 23"
proof -
  define bs :: "byte list" where "bs = concat (replicate 24 [195, 169])"
  have "utf8_encode (replicate n 233) = Some (concat (replicate n [195, 169]))" for n
    by (induction n) (simp_all add: utf8_char_def)
  then have bs: "utf8_encode (replicate 24 233) = Some bs" by (simp only: bs_def)
  have "length (concat (replicate n [195, 169 :: byte])) = 2 * n" for n by (induction n) simp_all
  then have len: "length bs = 48" by (simp add: bs_def)
  define named where "named = slice_assign 512 537 bs blank_image"
  have named: "length named = 2583" using len by (simp add: named_def slice_assign_def blank_image_def)
  have "\<exists>img. write_entry 512 0 (replicate 24 233) 1 2 blank_image = Inr img \<and> length img = 2583"
    using bs named
    by (simp add: write_entry_def ljust_def len bbfs_layout named_def [symmetric] require_def pack_into_def pack_unsigned_def
        slice_assign_length)
  then obtain img1 where img1: "write_entry 512 0 (replicate 24 233) (length [7 :: byte]) 2 blank_image = Inr img1" "length img1 = 2583"
    by auto
  have "write_data [7] 2 img1 = Inr (slice_assign 1024 1025 [7] img1)" using img1(2)
    by (simp add: write_data_def require_def sector_size_def)
  moreover have "length (slice_assign 1024 1025 [7] img1) = 2583" using img1(2) by (simp add: slice_assign_length)
  ultimately show ?thesis using blank_sector blank_not_ext2 blank_next blank_free img1(1)
    by (simp add: add_files_def filename_max_def require_def sector_size_def parent_sector_def blank_image_def)
qed

definition image_with_gap :: "byte list" where
  "image_with_gap = replicate 544 0 @ [97] @ replicate 24 0 @ [0, 2, 0, 1, 0, 0, 0] @ replicate 1984 0"

text \<open>
  The scan stops at the first free slot, so a name that is in use behind a gap is added a second time.
\<close>

theorem name_behind_gap_added_twice:
  "find_entry 1 1 image_with_gap [97] = Inr (Some (0, 2, 1)) \<and>
   (\<exists>img. add_files False False [([97], [7])] None 1 image_with_gap = Inr img \<and>
      find_entry 1 1 img [97] = Inr (Some (0, 3, 1)) \<and> directory 1 512 img ! 1 = Some ([97], 0, 2, 1))"
proof -
  define R where "R = record_bytes [97] 0 2 1"
  have R: "length R = 32" "decode_entry R = Some ([97], 0, 2, 1)" "R = [97] @ replicate 24 0 @ [0, 2, 0, 1, 0, 0, 0]"
    using decode_record_bytes [of "[97]" 2 1 0]
    by (simp_all add: R_def length_record_bytes record_bytes_def ljust_def name_field_def le_bytes_numeral)
  have dir: "compute_directory_sector image_with_gap = Inr 1"
    by (simp add: compute_directory_sector_def kernel_bytes_offset_def sectors_of_def image_with_gap_def image_eval)
  have ext2: "\<not> detects_ext2 1 image_with_gap"
    by (simp add: detects_ext2_def image_with_gap_def image_eval)
  have ne: "compute_next_data_sector 1 1 image_with_gap = Inr 3"
    by (simp add: compute_next_data_sector_def entry_end_sector_def sectors_of_def image_with_gap_def image_eval flag_directory_def)
  have free: "find_free_entry 1 [97] image_with_gap 512 = Inr (Some 512)"
    by (simp add: find_free_entry_def image_with_gap_def image_eval)
  have a: "utf8_encode [97] = Some [97]" by (simp add: utf8_char_def)
  have slots: "directory 1 512 image_with_gap ! 0 = None" "directory 1 512 image_with_gap ! 1 = Some ([97], 0, 2, 1)"
    using R(2) by (simp_all add: directory_def entry_at_def image_with_gap_def slice_def R(3) decode_entry_def [of "replicate _ _"])

  define es where "es = map (\<lambda>i. entry_at (512 + i) image_with_gap)
    [64, 96, 128, 160, 192, 224, 256, 288, 320, 352, 384, 416, 448, 480]"
  have table: "directory 1 512 image_with_gap = None # Some ([97], 0, 2, 1) # es"
    using slots by (simp add: directory_eq slots_of_one_sector es_def)
  have len: "length image_with_gap = 2560" by (simp add: image_with_gap_def)
  have find: "find_entry 1 1 img [97] = Inr (table_lookup (directory 1 512 img) [97])" if "length img = 2560" for img
    using find_entry_table [of 1 1 img "[97]" "[97]"] a that by simp
  have fits: "name_fits [97]" by (simp add: name_fits_def utf8_char_def name_field_def)
  obtain img1 where img1: "write_entry 512 0 [97] (length [7 :: byte]) 3 image_with_gap = Inr img1" "length img1 = 2560"
    using write_entry_eq [of "[97]" "[97]" 512 image_with_gap 0 1 3] a len by (simp add: slice_assign_length length_record_bytes)
  obtain img where img: "write_data [7] 3 img1 = Inr img"
    using img1(2) by (simp add: write_data_def require_def sector_size_def)
  have added: "add_files False False [([97], [7])] None 1 image_with_gap = Inr img"
    using dir ext2 ne free img1(1) img
    by (simp add: add_files_def filename_max_def require_def sector_size_def parent_sector_def)
  obtain i where i: "free_slot (directory 1 512 image_with_gap) [97] i" "length img = 2560"
    "directory 1 512 img = (directory 1 512 image_with_gap)[i := Some ([97], 0, 3, 1)]"
    using add_step [OF free img1(1) img fits] len a by auto
  have "directory 1 512 image_with_gap ! 0 \<noteq> None" if "0 < i" using i(1) that unfolding free_slot_def by blast
  then have "i = 0" using slots(1) by blast
  then show ?thesis using find [of image_with_gap] find [of img] len i(2,3) added table [simplified] by simp
qed

end
