(* ===== verification/Pystr.thy ===== *)
theory Pystr
  imports Prelude
begin

text \<open>
  What the sources use of Python's \<^verbatim>\<open>str\<close> and \<^verbatim>\<open>dict\<close>: classes of characters, stripping, line breaks, insertion.  Characters
  are code points below 256.
\<close>

subsection \<open>Characters\<close>

definition code :: "char \<Rightarrow> nat" where
  "code c = of_char c"

definition is_white :: "char \<Rightarrow> bool" where
  "is_white c = (let k = code c in 9 \<le> k \<and> k \<le> 13 \<or> 28 \<le> k \<and> k \<le> 32 \<or> k = 133 \<or> k = 160)"

definition is_digit10 :: "char \<Rightarrow> bool" where
  "is_digit10 c = (48 \<le> code c \<and> code c \<le> 57)"

definition is_upper_char :: "char \<Rightarrow> bool" where
  "is_upper_char c = (65 \<le> code c \<and> code c \<le> 90)"

definition is_name_start :: "char \<Rightarrow> bool" where
  "is_name_start c = (is_upper_char c \<or> 97 \<le> code c \<and> code c \<le> 122 \<or> c = CHR ''_'')"

definition is_name_char :: "char \<Rightarrow> bool" where
  "is_name_char c = (is_name_start c \<or> is_digit10 c)"

text \<open>\<open>str.isalnum\<close> or an underscore, which is \<open>\\w\<close>.\<close>

definition is_word_char :: "char \<Rightarrow> bool" where
  "is_word_char c = (is_name_char c \<or>
     (let k = code c in k \<in> {170, 178, 179, 181, 185, 186, 188, 189, 190} \<or> 192 \<le> k \<and> k \<noteq> 215 \<and> k \<noteq> 247))"

definition is_hex :: "char \<Rightarrow> bool" where
  "is_hex c = (is_digit10 c \<or> 65 \<le> code c \<and> code c \<le> 70 \<or> 97 \<le> code c \<and> code c \<le> 102)"

definition hex_value :: "char \<Rightarrow> nat" where
  "hex_value c = (if is_digit10 c then code c - 48 else if code c \<le> 70 then code c - 55 else code c - 87)"

text \<open>A full match of \<open>[A-Za-z_][A-Za-z0-9_]*\<close>.\<close>

definition is_identifier :: "string \<Rightarrow> bool" where
  "is_identifier s = (s \<noteq> [] \<and> is_name_start (hd s) \<and> list_all is_name_char s)"

subsection \<open>Stripping\<close>

definition lstrip :: "string \<Rightarrow> string" where
  "lstrip s = dropWhile is_white s"

definition rstrip_white :: "string \<Rightarrow> string" where
  "rstrip_white s = rev (lstrip (rev s))"

definition strip :: "string \<Rightarrow> string" where
  "strip s = rstrip_white (lstrip s)"

lemma length_lstrip: "length (lstrip s) \<le> length s"
  by (simp add: lstrip_def length_dropWhile_le)

subsection \<open>Lines\<close>

text \<open>The lines of \<open>str.splitlines\<close>, each with its break: a carriage return with a newline after it is one break.\<close>

definition is_line_break :: "char \<Rightarrow> bool" where
  "is_line_break c = (let k = code c in 10 \<le> k \<and> k \<le> 13 \<or> 28 \<le> k \<and> k \<le> 30 \<or> k = 133)"

definition take_break :: "string \<Rightarrow> string \<times> string" where
  "take_break s =
     (case s of
        [] \<Rightarrow> ([], [])
      | c # rest \<Rightarrow>
          if code c = 13 \<and> rest \<noteq> [] \<and> code (hd rest) = 10 then ([c, hd rest], tl rest) else ([c], rest))"

lemma take_break_append: "take_break s = (b, rest) \<Longrightarrow> s = b @ rest \<and> (s \<noteq> [] \<longrightarrow> b \<noteq> [])"
  by (auto simp: take_break_def split: list.splits if_splits)

function line_pieces :: "string \<Rightarrow> (string \<times> string) list" where
  "line_pieces s =
     (if s = [] then []
      else let (break, rest) = take_break (dropWhile (\<lambda>c. \<not> is_line_break c) s) in
        (takeWhile (\<lambda>c. \<not> is_line_break c) s, break) # line_pieces rest)"
  by pat_completeness auto
termination
proof (relation "measure length", goal_cases)
  case (2 s x break rest)
  have eq: "dropWhile (\<lambda>c. \<not> is_line_break c) s = break @ rest" "dropWhile (\<lambda>c. \<not> is_line_break c) s \<noteq> [] \<longrightarrow> break \<noteq> []"
    using take_break_append [of "dropWhile (\<lambda>c. \<not> is_line_break c) s" "break" rest] 2(2,3) by auto
  have "length (break @ rest) \<le> length s" unfolding eq(1) [symmetric] by (rule length_dropWhile_le)
  then show ?case using 2(1) eq by (cases "break") auto
qed simp

declare line_pieces.simps [simp del]

lemma line_pieces_concat: "concat (map (\<lambda>(line, break). line @ break) (line_pieces s)) = s"
proof (induction s rule: line_pieces.induct)
  case (1 s)
  show ?case
  proof (cases "s = []")
    case True
    then show ?thesis by (simp add: line_pieces.simps)
  next
    case False
    obtain b rest where t: "take_break (dropWhile (\<lambda>c. \<not> is_line_break c) s) = (b, rest)" by fastforce
    from 1 [OF False t [symmetric] refl] have IH: "concat (map (\<lambda>(line, break). line @ break) (line_pieces rest)) = rest" .
    have "line_pieces s = (takeWhile (\<lambda>c. \<not> is_line_break c) s, b) # line_pieces rest"
      using False t by (subst line_pieces.simps) simp
    then show ?thesis using IH take_break_append [OF t] takeWhile_dropWhile_id [of "\<lambda>c. \<not> is_line_break c" s]
      by (simp del: takeWhile_dropWhile_id)
  qed
qed

definition splitlines :: "string \<Rightarrow> string list" where
  "splitlines s = map fst (line_pieces s)"

definition splitlines_keepends :: "string \<Rightarrow> string list" where
  "splitlines_keepends s = map (\<lambda>(line, break). line @ break) (line_pieces s)"

lemma splitlines_keepends_concat: "concat (splitlines_keepends s) = s"
  by (simp add: splitlines_keepends_def line_pieces_concat)

subsection \<open>Dictionaries\<close>

text \<open>\<open>d[k] = v\<close> on the items of a dictionary in their order.\<close>

fun set_item :: "'k \<Rightarrow> 'v \<Rightarrow> ('k \<times> 'v) list \<Rightarrow> ('k \<times> 'v) list" where
  "set_item k v [] = [(k, v)]"
| "set_item k v ((k', v') # xs) = (if k' = k then (k, v) # xs else (k', v') # set_item k v xs)"

lemma map_of_set_item [simp]: "map_of (set_item k v xs) = (map_of xs)(k \<mapsto> v)"
  by (induction k v xs rule: set_item.induct) auto

lemma keys_set_item: "fst ` set (set_item k v xs) = insert k (fst ` set xs)"
  by (induction k v xs rule: set_item.induct) auto

lemma distinct_set_item: "distinct (map fst (set_item k v xs)) \<longleftrightarrow> distinct (map fst xs)"
proof (induction k v xs rule: set_item.induct)
  case (2 k v k' v' xs)
  then show ?case using keys_set_item [of k v xs] by (auto simp: image_iff)
qed simp

lemma set_set_item: "set (set_item k v xs) \<subseteq> insert (k, v) (set xs)"
  by (induction k v xs rule: set_item.induct) auto

text \<open>\<open>d.update(e)\<close>.\<close>

definition update_items :: "('k \<times> 'v) list \<Rightarrow> ('k \<times> 'v) list \<Rightarrow> ('k \<times> 'v) list" where
  "update_items d e = fold (\<lambda>(k, v). set_item k v) e d"

end
