(* ===== verification/Ccobj.thy ===== *)
theory Ccobj
  imports Ccld_Objects Pystr
begin

text \<open>
  The object packer \<^verbatim>\<open>cc/ccobj.py\<close>: rows of an assembler listing, and the state it collects from them.  Characters
  are code points below 256.  The regular expressions are the functions they denote, with the repetition that
  Python's engine chooses.  An uncaught exception is a value of \<open>pack_error\<close>.
\<close>

datatype pack_error = Marker_not_closed | Unknown_section_name string | Unknown_macro string | No_target nat string

subsection \<open>Characters\<close>

text \<open>\<open>str.isdigit\<close> holds of superscript digits as well.\<close>

definition is_digit_char :: "char \<Rightarrow> bool" where
  "is_digit_char c = (is_digit10 c \<or> code c \<in> {178, 179, 185})"

definition is_label_start :: "char \<Rightarrow> bool" where
  "is_label_start c = (is_name_start c \<or> c = CHR ''.'')"

definition is_label_char :: "char \<Rightarrow> bool" where
  "is_label_char c = (is_name_char c \<or> c = CHR ''.'')"

definition hex_number :: "string \<Rightarrow> nat" where
  "hex_number s = foldl (\<lambda>n c. 16 * n + hex_value c) 0 s"

text \<open>\<open>int(s, 16)\<close>; None is \<^verbatim>\<open>ValueError\<close>.  Single underscores may stand between digits.\<close>

fun hex_digits_value :: "nat \<Rightarrow> string \<Rightarrow> nat option" where
  "hex_digits_value n [] = Some n"
| "hex_digits_value n (c # s) =
     (if is_hex c then hex_digits_value (16 * n + hex_value c) s
      else if c = CHR ''_'' then (case s of d # s' \<Rightarrow> if is_hex d then hex_digits_value (16 * n + hex_value d) s' else None | [] \<Rightarrow> None)
      else None)"

definition int16_unsigned :: "string \<Rightarrow> nat option" where
  "int16_unsigned s =
     (let body = (if take 2 s \<in> {''0x'', ''0X''} then (case drop 2 s of c # s' \<Rightarrow> if c = CHR ''_'' then s' else c # s' | [] \<Rightarrow> []) else s)
      in case body of c # _ \<Rightarrow> if is_hex c then hex_digits_value 0 body else None | [] \<Rightarrow> None)"

definition int16 :: "string \<Rightarrow> int option" where
  "int16 s =
     (case strip s of
        c # rest \<Rightarrow>
          if c = CHR ''-'' then map_option (\<lambda>n. - int n) (int16_unsigned rest)
          else if c = CHR ''+'' then map_option int (int16_unsigned rest)
          else map_option int (int16_unsigned (c # rest))
      | [] \<Rightarrow> None)"

subsection \<open>Regular expressions\<close>

text \<open>\<open>^(-?)(\s{2,}|\t|\s+<|\s*$)\<close>: the text behind the match.\<close>

definition after_terminator :: "string \<Rightarrow> string" where
  "after_terminator s =
     (let body = (case s of c # s' \<Rightarrow> if c = CHR ''-'' then s' else s | [] \<Rightarrow> []);
          white = takeWhile is_white body; rest = dropWhile is_white body
      in if 2 \<le> length white then rest
         else case body of
           [] \<Rightarrow> []
         | c # body' \<Rightarrow>
             if code c = 9 then body'
             else if white \<noteq> [] \<and> rest \<noteq> [] \<and> hd rest = CHR ''<'' then tl rest
             else if rest = [] then []
             else s)"

text \<open>One token of the bytes column: a hexadecimal run, one in brackets, one in parentheses.\<close>

datatype bytes_token = Plain string | Bracket string | Paren string

definition closed_run :: "char \<Rightarrow> string \<Rightarrow> (string \<times> string) option" where
  "closed_run close s =
     (let run = takeWhile is_hex s in
      case dropWhile is_hex s of
        c # rest \<Rightarrow> if run \<noteq> [] \<and> c = close then Some (run, rest) else None
      | [] \<Rightarrow> None)"

definition is_hex_or_mark :: "char \<Rightarrow> bool" where
  "is_hex_or_mark c = (is_hex c \<or> c = CHR ''?'')"

definition bytes_token_at :: "string \<Rightarrow> (bytes_token \<times> string) option" where
  "bytes_token_at s =
     (case s of
        [] \<Rightarrow> None
      | c # rest \<Rightarrow>
          if is_hex_or_mark c then Some (Plain (takeWhile is_hex_or_mark s), dropWhile is_hex_or_mark s)
          else if c = CHR ''['' then map_option (\<lambda>(run, rest). (Bracket run, rest)) (closed_run (CHR '']'') rest)
          else if c = CHR ''('' then map_option (\<lambda>(run, rest). (Paren run, rest)) (closed_run (CHR '')'') rest)
          else None)"

lemma closed_run_shorter: "closed_run c s = Some (run, rest) \<Longrightarrow> length rest < length s"
  using length_dropWhile_le [of is_hex s]
  by (auto simp: closed_run_def Let_def split: list.splits if_splits)

lemma bytes_token_shorter: "bytes_token_at s = Some (t, rest) \<Longrightarrow> length rest < length s"
  using closed_run_shorter dropWhile_Cons_length
  by (fastforce simp: bytes_token_at_def length_dropWhile_le less_Suc_eq_le split: list.splits if_splits)

text \<open>The tokens from the start of the column, and the text behind them.\<close>

function bytes_tokens :: "string \<Rightarrow> bytes_token list \<times> string" where
  "bytes_tokens s =
     (case bytes_token_at s of
        None \<Rightarrow> ([], s)
      | Some (t, rest) \<Rightarrow>
          if rest \<noteq> [] \<and> \<not> is_hex (hd rest) \<and> hd rest \<notin> {CHR ''['', CHR ''(''} then ([t], rest)
          else let (ts, behind) = bytes_tokens rest in (t # ts, behind))"
  by pat_completeness auto
termination
  by (relation "measure length") (auto dest: bytes_token_shorter)

declare bytes_tokens.simps [simp del]

text \<open>\<open>re.sub(r"^<\d+>\s+", "", s)\<close>.\<close>

definition drop_level :: "string \<Rightarrow> string" where
  "drop_level s =
     (case s of
        c # s' \<Rightarrow>
          (let digits = takeWhile is_digit10 s' in
           case dropWhile is_digit10 s' of
             d # rest \<Rightarrow>
               if c = CHR ''<'' \<and> digits \<noteq> [] \<and> d = CHR ''>'' \<and> rest \<noteq> [] \<and> is_white (hd rest) then lstrip rest else s
           | [] \<Rightarrow> s)
      | [] \<Rightarrow> [])"

fun run_of_labels :: "bool \<Rightarrow> string \<Rightarrow> string \<Rightarrow> string list" where
  "run_of_labels inside current [] = (if current = [] then [] else [current])"
| "run_of_labels inside current (c # s) =
     (if current \<noteq> [] then (if is_label_char c then run_of_labels True (current @ [c]) s else current # run_of_labels False [] s)
      else if is_label_start c \<and> \<not> inside then run_of_labels True [c] s
      else run_of_labels (is_label_char c) [] s)"

text \<open>\<open>RE_IDENTIFIER.finditer\<close>: identifiers that do not follow an identifier character.\<close>

definition identifiers :: "string \<Rightarrow> string list" where
  "identifiers s = run_of_labels False [] s"

definition data_directives :: "string list" where
  "data_directives = [''db'', ''dw'', ''dd'', ''dq'', ''do'', ''resb'', ''resw'', ''resd'', ''resq'', ''reso'', ''times'', ''equ'']"

definition starts_word :: "string \<Rightarrow> string \<Rightarrow> bool" where
  "starts_word w s = (starts_with w s \<and> (case drop (length w) s of [] \<Rightarrow> True | c # _ \<Rightarrow> \<not> is_word_char c))"

definition label_with_colon :: "string \<Rightarrow> string option" where
  "label_with_colon s =
     (let body = (case s of c # s' \<Rightarrow> if c = CHR ''$'' then s' else s | [] \<Rightarrow> []);
          name = takeWhile is_label_char body
      in if name \<noteq> [] \<and> is_label_start (hd name) \<and> starts_with '':'' (dropWhile is_label_char body) then Some name else None)"

definition label_without_colon :: "string \<Rightarrow> string option" where
  "label_without_colon s =
     (let name = takeWhile is_label_char s; rest = dropWhile is_label_char s
      in if name \<noteq> [] \<and> is_label_start (hd name) \<and> rest \<noteq> [] \<and> is_white (hd rest) \<and>
            list_ex (\<lambda>w. starts_word w (lstrip rest)) data_directives then Some name else None)"

definition match_label_at_line_start :: "string \<Rightarrow> string option" where
  "match_label_at_line_start s =
     (case label_with_colon s of Some name \<Rightarrow> Some name | None \<Rightarrow> label_without_colon s)"

text \<open>A name that fills the rest of the line up to white space.\<close>

definition final_name :: "string \<Rightarrow> string option" where
  "final_name s =
     (let name = takeWhile is_name_char s
      in if name \<noteq> [] \<and> is_name_start (hd name) \<and> lstrip (dropWhile is_name_char s) = [] then Some name else None)"

definition after_keyword :: "string \<Rightarrow> string \<Rightarrow> string option" where
  "after_keyword w s =
     (let rest = drop (length w) s in if starts_with w s \<and> rest \<noteq> [] \<and> is_white (hd rest) then Some (lstrip rest) else None)"

definition match_section :: "string \<Rightarrow> string option" where
  "match_section s =
     Option.bind (after_keyword ''section'' s) (\<lambda>rest. if starts_with ''.'' rest then final_name (tl rest) else None)"

definition match_global :: "string \<Rightarrow> string option" where
  "match_global s = Option.bind (after_keyword ''global'' s) final_name"

definition match_macro :: "string \<Rightarrow> (string \<times> string) option" where
  "match_macro s =
     (let macro = takeWhile (\<lambda>c. is_upper_char c \<or> c = CHR ''_'') s
      in if starts_with ''CCREL_'' macro \<and> 6 < length macro
         then Option.bind (after_keyword macro s) (\<lambda>rest. map_option (Pair macro) (final_name rest)) else None)"

subsection \<open>Rows\<close>

record listing_row =
  row_offset :: "nat option"
  row_bytes :: "byte list"
  row_opcode :: "nat option"
  row_reserved :: int
  row_source :: string

fun token_text :: "bytes_token \<Rightarrow> string" where
  "token_text (Plain s) = s"
| "token_text (Bracket s) = s"
| "token_text (Paren s) = s"

text \<open>The digits of the tokens, and half the number of those in front of the first bracket.\<close>

definition column_digits :: "bytes_token list \<Rightarrow> string" where
  "column_digits ts = concat (map token_text ts)"

fun opcode_length :: "bytes_token list \<Rightarrow> nat \<Rightarrow> nat option" where
  "opcode_length [] n = None"
| "opcode_length (Bracket s # ts) n = Some (n div 2)"
| "opcode_length (t # ts) n = opcode_length ts (n + length (token_text t))"

fun fromhex :: "string \<Rightarrow> byte list" where
  "fromhex (a # b # s) = of_nat (16 * hex_value a + hex_value b) # fromhex s"
| "fromhex _ = []"

definition parse_reservation :: "nat \<Rightarrow> string \<Rightarrow> pack_error + listing_row" where
  "parse_reservation offset after_offset =
     (case dropWhile (\<lambda>c. c \<noteq> CHR ''>'') after_offset of
        [] \<Rightarrow> Inl Marker_not_closed
      | _ # behind \<Rightarrow>
          (let body = strip (drop 5 (takeWhile (\<lambda>c. c \<noteq> CHR ''>'') after_offset));
               count = (if body \<noteq> [] \<and> last body = CHR ''h'' then case int16 (butlast body) of Some n \<Rightarrow> n | None \<Rightarrow> 0 else 0)
           in Inr \<lparr>row_offset = Some offset, row_bytes = [], row_opcode = None, row_reserved = count,
                row_source = drop_level (lstrip behind)\<rparr>))"

definition parse_bytes :: "nat \<Rightarrow> string \<Rightarrow> listing_row" where
  "parse_bytes offset after_offset =
     (let (ts, behind) = bytes_tokens after_offset; digits = column_digits ts; marked = CHR ''?'' \<in> set digits in
      if ts = [] then \<lparr>row_offset = Some offset, row_bytes = [], row_opcode = None, row_reserved = 0, row_source = drop_level after_offset\<rparr>
      else \<lparr>row_offset = Some offset,
         row_bytes = (if marked \<or> odd (length digits) then [] else fromhex digits),
         row_opcode = opcode_length ts 0,
         row_reserved = (if marked then int (length digits div 2) else 0),
         row_source = drop_level (lstrip (after_terminator behind))\<rparr>)"

definition has_offset :: "string \<Rightarrow> bool" where
  "has_offset s = (8 \<le> length s \<and> list_all is_hex (take 8 s) \<and> (length s = 8 \<or> s ! 8 \<in> {CHR '' '', CHR 0x09}))"

definition parse_listing_row :: "string \<Rightarrow> pack_error + listing_row option" where
  "parse_listing_row raw_line =
     (let stripped = strip raw_line in
      if stripped = [] \<or> \<not> is_digit_char (hd stripped) then Inr None
      else case dropWhile (\<lambda>c. c \<noteq> CHR '' '') stripped of
        [] \<Rightarrow> Inr None
      | _ # behind \<Rightarrow>
          (let rest = lstrip behind in
           if has_offset rest
           then let offset = hex_number (take 8 rest); after_offset = lstrip (drop 8 rest) in
             if starts_with ''<res '' after_offset then map_sum id Some (parse_reservation offset after_offset)
             else Inr (Some (parse_bytes offset after_offset))
           else Inr (Some \<lparr>row_offset = None, row_bytes = [], row_opcode = None, row_reserved = 0, row_source = drop_level rest\<rparr>)))"

text \<open>The rows of a listing, without the blank ones.\<close>

definition parse_listing :: "string list \<Rightarrow> pack_error + listing_row list" where
  "parse_listing listing_lines =
     bind_result (map_result parse_listing_row listing_lines) (\<lambda>rows. Inr (List.map_filter id rows))"

definition prescan_defined_labels :: "listing_row list \<Rightarrow> string list" where
  "prescan_defined_labels rows = List.map_filter (\<lambda>r. match_label_at_line_start (lstrip (row_source r))) rows"

subsection \<open>Packing\<close>

definition ccrel_macros :: "string \<rightharpoonup> string \<times> nat" where
  "ccrel_macros = map_of [(''CCREL_CALL'', (''rel32'', 1)), (''CCREL_JMP'', (''rel32'', 1)),
     (''CCREL_MOVABS_LOAD_EAX'', (''abs32'', 1)), (''CCREL_MOVABS_STORE_EAX'', (''abs32'', 1))]"

definition pack_default_align :: "string \<Rightarrow> int" where
  "pack_default_align name = (if name = ''text'' then 16 else 4)"

definition pack_sections :: "string list" where
  "pack_sections = [''text'', ''rodata'', ''data'', ''bss'']"

definition nasm_global_prefix :: string where
  "nasm_global_prefix = ''__nasm_global_''"

record packed_symbol =
  ps_global :: bool
  ps_offset :: nat
  ps_section :: string

text \<open>A relocation; the value of its placeholder when it comes from a bracket.\<close>

record packed_reloc =
  pr_placeholder :: "int option"
  pr_offset :: nat
  pr_section :: string
  pr_symbol :: string
  pr_type :: string

record pack_state =
  pk_bytes :: "(string \<times> byte list) list"
  pk_bss_size :: int
  pk_symbols :: "(string \<times> packed_symbol) list"
  pk_globals :: "string list"
  pk_relocations :: "packed_reloc list"
  pk_extern :: "string list"
  pk_section :: "string option"
  pk_macro :: "(string \<times> string) option"
  pk_pending :: "string list"

definition pack_start :: pack_state where
  "pack_start = \<lparr>pk_bytes = [], pk_bss_size = 0, pk_symbols = [], pk_globals = [], pk_relocations = [], pk_extern = [],
     pk_section = None, pk_macro = None, pk_pending = []\<rparr>"

definition bytes_of :: "string \<Rightarrow> pack_state \<Rightarrow> byte list" where
  "bytes_of name st = (case map_of (pk_bytes st) name of Some bs \<Rightarrow> bs | None \<Rightarrow> [])"

definition accumulate_bytes :: "byte list \<Rightarrow> nat \<Rightarrow> byte list \<Rightarrow> byte list" where
  "accumulate_bytes column offset buffer =
     (let stop = offset + length column in
      slice_assign offset stop column (buffer @ replicate (stop - length buffer) 0))"

definition refresh_pending :: "string list \<Rightarrow> string \<Rightarrow> pack_state \<Rightarrow> pack_state" where
  "refresh_pending defined source st =
     (if source = [] then st
      else st\<lparr>pk_pending := filter (\<lambda>x. x \<in> set defined \<and> Some x \<noteq> match_label_at_line_start source) (identifiers source)\<rparr>)"

definition enter_section :: "string \<Rightarrow> pack_state \<Rightarrow> pack_error + pack_state" where
  "enter_section name st =
     (if name \<notin> set pack_sections then Inl (Unknown_section_name name)
      else Inr (st\<lparr>pk_section := Some name, pk_bytes := set_item name (bytes_of name st) (pk_bytes st)\<rparr>))"

definition declare_global :: "string \<Rightarrow> pack_state \<Rightarrow> pack_state" where
  "declare_global name st =
     st\<lparr>pk_globals := (if starts_with nasm_global_prefix name then drop (length nasm_global_prefix) name else name) # pk_globals st\<rparr>"

definition reserve :: "int \<Rightarrow> pack_state \<Rightarrow> pack_state" where
  "reserve n st = (if 0 < n \<and> pk_section st = Some ''bss'' then st\<lparr>pk_bss_size := pk_bss_size st + n\<rparr> else st)"

text \<open>A label without an offset is at the end of the bytes of its section, which are none in \<open>bss\<close>.\<close>

definition define_label :: "string \<Rightarrow> nat option \<Rightarrow> string \<Rightarrow> pack_state \<Rightarrow> pack_state" where
  "define_label sec offset name st =
     (let st = (case offset of Some _ \<Rightarrow> st | None \<Rightarrow> st\<lparr>pk_bytes := set_item sec (bytes_of sec st) (pk_bytes st)\<rparr>);
          place = (case offset of Some k \<Rightarrow> k | None \<Rightarrow> length (bytes_of sec st))
      in st\<lparr>pk_symbols := set_item name \<lparr>ps_global = (name \<in> set (pk_globals st)), ps_offset = place, ps_section = sec\<rparr> (pk_symbols st)\<rparr>)"

definition macro_relocation :: "string \<Rightarrow> nat \<Rightarrow> string \<Rightarrow> string \<Rightarrow> pack_state \<Rightarrow> pack_state" where
  "macro_relocation sec offset macro symbol st =
     (case ccrel_macros macro of
        None \<Rightarrow> st
      | Some (ty, len) \<Rightarrow>
          st\<lparr>pk_relocations := pk_relocations st @ [\<lparr>pr_placeholder = None, pr_offset = offset + len, pr_section = sec,
               pr_symbol = symbol, pr_type = ty\<rparr>],
             pk_extern := (if symbol \<notin> set (pk_extern st) \<and> symbol \<notin> set (pk_globals st) then pk_extern st @ [symbol] else pk_extern st),
             pk_macro := None\<rparr>)"

definition bracket_relocation :: "string \<Rightarrow> nat \<Rightarrow> nat \<Rightarrow> listing_row \<Rightarrow> pack_state \<Rightarrow> pack_error + pack_state" where
  "bracket_relocation sec offset len row st =
     (case pk_pending st of
        [] \<Rightarrow> Inl (No_target offset (row_source row))
      | symbol # pending \<Rightarrow>
          Inr (st\<lparr>pk_pending := pending,
             pk_relocations := pk_relocations st @ [\<lparr>pr_placeholder = Some (le_sint (slice len (len + 4) (row_bytes row))),
               pr_offset = offset + len, pr_section = sec, pr_symbol = symbol, pr_type = ''abs32''\<rparr>]\<rparr>))"

definition emit_bytes :: "string \<Rightarrow> nat \<Rightarrow> listing_row \<Rightarrow> pack_state \<Rightarrow> pack_error + pack_state" where
  "emit_bytes sec offset row st =
     bind_result
       (case pk_macro st of
          Some (macro, symbol) \<Rightarrow> Inr (macro_relocation sec offset macro symbol st)
        | None \<Rightarrow> (case row_opcode row of Some len \<Rightarrow> bracket_relocation sec offset len row st | None \<Rightarrow> Inr st))
       (\<lambda>st. Inr (st\<lparr>pk_bytes := set_item sec (accumulate_bytes (row_bytes row) offset (bytes_of sec st)) (pk_bytes st)\<rparr>))"

text \<open>What is left of a row that is no section and no global: reservation, macro, label, bytes.\<close>

definition pack_content :: "string \<Rightarrow> listing_row \<Rightarrow> pack_state \<Rightarrow> pack_error + pack_state" where
  "pack_content source row st =
     (let st = reserve (row_reserved row) st in
      case match_macro source of
        Some (macro, symbol) \<Rightarrow> if ccrel_macros macro = None then Inl (Unknown_macro macro) else Inr (st\<lparr>pk_macro := Some (macro, symbol)\<rparr>)
      | None \<Rightarrow>
          (case pk_section st of
             None \<Rightarrow> Inr st
           | Some sec \<Rightarrow>
               (let st = (case match_label_at_line_start source of None \<Rightarrow> st | Some name \<Rightarrow> define_label sec (row_offset row) name st) in
                case row_offset row of
                  Some offset \<Rightarrow> if row_bytes row = [] then Inr st else emit_bytes sec offset row st
                | None \<Rightarrow> Inr st)))"

definition pack_row :: "string list \<Rightarrow> listing_row \<Rightarrow> pack_state \<Rightarrow> pack_error + pack_state" where
  "pack_row defined row st =
     (let source = lstrip (row_source row); st = refresh_pending defined source st in
      case match_section source of
        Some name \<Rightarrow> enter_section name st
      | None \<Rightarrow>
          (case match_global source of
             Some name \<Rightarrow> Inr (declare_global name st)
           | None \<Rightarrow> pack_content source row st))"

fun pack_rows :: "string list \<Rightarrow> listing_row list \<Rightarrow> pack_state \<Rightarrow> pack_error + pack_state" where
  "pack_rows defined [] st = Inr st"
| "pack_rows defined (row # rows) st = bind_result (pack_row defined row st) (pack_rows defined rows)"

subsection \<open>The object\<close>

text \<open>The constant in a placeholder is what it holds above the offset of its symbol.\<close>

definition pack_addend :: "pack_state \<Rightarrow> packed_reloc \<Rightarrow> int" where
  "pack_addend st r =
     (case (pr_placeholder r, map_of (pk_symbols st) (pr_symbol r)) of
        (Some v, Some y) \<Rightarrow> v - int (ps_offset y)
      | _ \<Rightarrow> 0)"

definition json_reloc :: "pack_state \<Rightarrow> packed_reloc \<Rightarrow> json" where
  "json_reloc st r =
     JDict ([(''offset'', JInt (int (pr_offset r))), (''section'', JStr (pr_section r)), (''symbol'', JStr (pr_symbol r)),
         (''type'', JStr (pr_type r))] @
       (if pack_addend st r \<noteq> 0 then [(''addend'', JInt (pack_addend st r))] else []))"

definition json_symbol :: "packed_symbol \<Rightarrow> json" where
  "json_symbol y =
     JDict [(''binding'', JStr (if ps_global y then ''global'' else ''local'')), (''offset'', JInt (int (ps_offset y))),
       (''section'', JStr (ps_section y))]"

definition json_section :: "pack_state \<Rightarrow> string \<Rightarrow> (string \<times> json) list" where
  "json_section st name =
     (if name = ''bss''
      then (if 0 < pk_bss_size st then [(name, JDict [(''align'', JInt (pack_default_align name)), (''size'', JInt (pk_bss_size st))])] else [])
      else if bytes_of name st = [] then []
      else [(name, JDict [(''align'', JInt (pack_default_align name)), (''bytes'', JStr (b64encode (bytes_of name st)))])])"

definition packed_externs :: "pack_state \<Rightarrow> string list" where
  "packed_externs st = filter (\<lambda>x. map_of (pk_symbols st) x = None) (pk_extern st)"

definition ccobj_json :: "string \<Rightarrow> pack_state \<Rightarrow> json" where
  "ccobj_json source st =
     JDict [(''extern'', JList (map JStr (packed_externs st))),
       (''relocations'', JList (map (json_reloc st) (pk_relocations st))),
       (''sections'', JDict (concat (map (json_section st) pack_sections))),
       (''source'', JStr source),
       (''symbols'', JDict (map (\<lambda>(x, y). (x, json_symbol y)) (pk_symbols st))),
       (''version'', JInt 1)]"

definition pack_listing :: "string \<Rightarrow> pack_error + pack_state" where
  "pack_listing listing =
     bind_result (parse_listing (splitlines listing)) (\<lambda>rows. pack_rows (prescan_defined_labels rows) rows pack_start)"

text \<open>\<open>source\<close> is the path of the listing with the suffix \<^verbatim>\<open>.asm\<close>; the result is what is written as JSON.\<close>

definition pack_ccobj :: "string \<Rightarrow> string \<Rightarrow> pack_error + json" where
  "pack_ccobj source listing = bind_result (pack_listing listing) (\<lambda>st. Inr (ccobj_json source st))"

end
