(* ===== verification/Ccobj_Correct.thy ===== *)
theory Ccobj_Correct
  imports Ccobj
begin

text \<open>
  What the packer writes, the linker reads: the loader accepts the object exactly when labels and patched slots
  lie inside sections that have contents, and it then sees the bytes, symbols and relocations that were collected.
\<close>

subsection \<open>What packing keeps\<close>

definition pack_inv :: "pack_state \<Rightarrow> bool" where
  "pack_inv st =
     ((\<forall>sec. pk_section st = Some sec \<longrightarrow> sec \<in> set pack_sections) \<and>
      (\<forall>macro symbol. pk_macro st = Some (macro, symbol) \<longrightarrow> symbol \<noteq> []) \<and>
      [] \<notin> set (pk_pending st) \<and> [] \<notin> set (pk_extern st) \<and> distinct (pk_extern st) \<and>
      distinct (map fst (pk_symbols st)) \<and>
      (\<forall>(x, y) \<in> set (pk_symbols st). x \<noteq> [] \<and> ps_section y \<in> set pack_sections) \<and>
      (\<forall>r \<in> set (pk_relocations st). pr_symbol r \<noteq> [] \<and> pr_section r \<in> set pack_sections \<and>
         pr_type r \<in> set known_relocation_types \<and> (pr_placeholder r \<noteq> None \<longrightarrow> pr_type r = ''abs32'')))"

lemma run_of_labels_nonempty: "[] \<notin> set (run_of_labels inside current s)"
  by (induction inside current s rule: run_of_labels.induct) auto

lemma label_nonempty: "match_label_at_line_start s = Some name \<Longrightarrow> name \<noteq> []"
  by (auto simp: match_label_at_line_start_def label_with_colon_def label_without_colon_def Let_def
      split: option.splits if_splits)

lemma macro_symbol_nonempty: "match_macro s = Some (macro, symbol) \<Longrightarrow> symbol \<noteq> []"
  by (auto simp: match_macro_def final_name_def Let_def split: if_splits Option.bind_splits)

lemma ccrel_types: "ccrel_macros macro = Some (ty, len) \<Longrightarrow> ty \<in> set known_relocation_types"
  by (auto simp: ccrel_macros_def known_relocation_types_def split: if_splits)

lemma refresh_inv: "pack_inv st \<Longrightarrow> pack_inv (refresh_pending defined source st)"
  using run_of_labels_nonempty [of False "[]" source] by (auto simp: pack_inv_def refresh_pending_def identifiers_def)

lemma define_label_inv:
  assumes "pack_inv st" "sec \<in> set pack_sections" "name \<noteq> []"
  shows "pack_inv (define_label sec offset name st)"
  using assms set_set_item [of name _ "pk_symbols st"]
  by (cases offset) (fastforce simp: pack_inv_def define_label_def Let_def distinct_set_item)+

lemma macro_relocation_inv:
  assumes "pack_inv st" "sec \<in> set pack_sections" "symbol \<noteq> []"
  shows "pack_inv (macro_relocation sec offset macro symbol st)"
  using assms ccrel_types [of macro]
  by (auto simp: pack_inv_def macro_relocation_def split: option.splits)

lemma bracket_relocation_inv:
  assumes "pack_inv st" "sec \<in> set pack_sections" "bracket_relocation sec offset len row st = Inr st'"
  shows "pack_inv st'"
  using assms by (auto simp: pack_inv_def bracket_relocation_def known_relocation_types_def split: list.splits)

lemma emit_bytes_inv:
  assumes inv: "pack_inv st" and sec: "sec \<in> set pack_sections" and emit: "emit_bytes sec offset row st = Inr st'"
  shows "pack_inv st'"
proof -
  have keep: "pack_inv (st1\<lparr>pk_bytes := bs\<rparr>)" if "pack_inv st1" for st1 bs
    using that by (simp add: pack_inv_def)
  show ?thesis
  proof (cases "pk_macro st")
    case None
    then show ?thesis using emit inv sec bracket_relocation_inv keep
      by (cases "row_opcode row") (auto simp: emit_bytes_def bind_result_Inr)
  next
    case (Some m)
    obtain macro symbol where m: "m = (macro, symbol)" by (cases m)
    then have "symbol \<noteq> []" using inv Some by (auto simp: pack_inv_def)
    then show ?thesis using emit inv sec macro_relocation_inv keep Some m by (auto simp: emit_bytes_def)
  qed
qed

lemma pack_row_inv:
  assumes inv: "pack_inv st" and row: "pack_row defined row st = Inr st'"
  shows "pack_inv st'"
proof -
  define source where "source = lstrip (row_source row)"
  define st1 where "st1 = refresh_pending defined source st"
  have 1: "pack_inv st1" using refresh_inv [OF inv] by (simp add: st1_def)
  show ?thesis
  proof (cases "match_section source")
    case (Some name)
    then show ?thesis using row 1
      by (auto simp: pack_row_def Let_def source_def [symmetric] st1_def [symmetric] enter_section_def pack_inv_def split: if_splits)
  next
    case None
    show ?thesis
    proof (cases "match_global source")
      case (Some name)
      then show ?thesis using row 1 None
        by (auto simp: pack_row_def Let_def source_def [symmetric] st1_def [symmetric] declare_global_def pack_inv_def)
    next
      case no_global: None
      define st2 where "st2 = reserve (row_reserved row) st1"
      have 2: "pack_inv st2" using 1 by (simp add: st2_def reserve_def pack_inv_def)
      have content: "pack_content source row st1 = Inr st'"
        using row None no_global by (simp add: pack_row_def Let_def source_def [symmetric] st1_def [symmetric])
      show ?thesis
      proof (cases "match_macro source")
        case (Some m)
        obtain macro symbol where "m = (macro, symbol)" by (cases m)
        then show ?thesis using content 2 Some macro_symbol_nonempty [of source macro symbol]
          by (auto simp: pack_content_def Let_def st2_def [symmetric] pack_inv_def split: if_splits)
      next
        case no_macro: None
        show ?thesis
        proof (cases "pk_section st2")
          case None
          then show ?thesis using content 2 no_macro by (simp add: pack_content_def Let_def st2_def [symmetric])
        next
          case (Some sec)
          then have sec: "sec \<in> set pack_sections" using 2 by (simp add: pack_inv_def)
          define st3 where "st3 = (case match_label_at_line_start source of None \<Rightarrow> st2
            | Some name \<Rightarrow> define_label sec (row_offset row) name st2)"
          have 3: "pack_inv st3"
            using 2 define_label_inv [OF 2 sec label_nonempty] by (auto simp: st3_def split: option.splits)
          have "(case row_offset row of Some offset \<Rightarrow> if row_bytes row = [] then Inr st3 else emit_bytes sec offset row st3
              | None \<Rightarrow> Inr st3) = Inr st'"
            using content no_macro Some by (simp add: pack_content_def Let_def st2_def [symmetric] st3_def [symmetric])
          then show ?thesis using 3 emit_bytes_inv [OF 3 sec] by (auto split: option.splits if_splits)
        qed
      qed
    qed
  qed
qed

lemma pack_rows_inv: "pack_inv st \<Longrightarrow> pack_rows defined rows st = Inr st' \<Longrightarrow> pack_inv st'"
proof (induction defined rows st rule: pack_rows.induct)
  case (2 defined row rows st)
  then obtain st1 where "pack_row defined row st = Inr st1" "pack_rows defined rows st1 = Inr st'"
    by (auto simp: bind_result_Inr)
  then show ?case using "2.IH" pack_row_inv [OF "2.prems"(1)] by blast
qed simp

lemma pack_listing_inv:
  assumes "pack_listing listing = Inr st"
  shows "pack_inv st"
proof -
  have "pack_inv pack_start" by (simp add: pack_inv_def pack_start_def)
  then show ?thesis using assms pack_rows_inv by (auto simp: pack_listing_def bind_result_Inr)
qed

subsection \<open>What the linker reads\<close>

text \<open>The sizes of the sections that are written.\<close>

definition packed_body :: "pack_state \<Rightarrow> string \<Rightarrow> section_body option" where
  "packed_body st name =
     (if name = ''bss'' then (if 0 < pk_bss_size st then Some (Reserved (pk_bss_size st)) else None)
      else if bytes_of name st = [] then None else Some (Content (bytes_of name st)))"

definition packed_sections :: "pack_state \<Rightarrow> (string \<times> sect) list" where
  "packed_sections st =
     List.map_filter (\<lambda>name. map_option (\<lambda>body. (name, \<lparr>s_align = default_align name, s_body = body, s_slot = None\<rparr>)) (packed_body st name))
       pack_sections"

definition read_symbol :: "packed_symbol \<Rightarrow> symbol" where
  "read_symbol y = \<lparr>y_binding = (if ps_global y then ''global'' else ''local''), y_section = ps_section y, y_offset = int (ps_offset y)\<rparr>"

definition read_reloc :: "pack_state \<Rightarrow> packed_reloc \<Rightarrow> reloc" where
  "read_reloc st r = \<lparr>r_section = pr_section r, r_offset = int (pr_offset r), r_symbol = pr_symbol r, r_type = pr_type r,
     r_addend = pack_addend st r\<rparr>"

definition packed_object :: "string \<Rightarrow> pack_state \<Rightarrow> ccobj" where
  "packed_object source st =
     \<lparr>o_source = source, o_sections = packed_sections st,
      o_symbols = map (\<lambda>(x, y). (x, read_symbol y)) (pk_symbols st), o_extern = packed_externs st,
      o_relocations = map (read_reloc st) (pk_relocations st), o_locals = []\<rparr>"

definition fits :: "pack_state \<Rightarrow> string \<Rightarrow> int \<Rightarrow> bool" where
  "fits st name stop = (case packed_body st name of None \<Rightarrow> False | Some body \<Rightarrow> stop \<le> body_size body)"

text \<open>
  Every label is in a section with contents and not past its end, every patched slot is inside the contents of
  its section, no slot is patched twice, and the reserved size is below the linker's bound.
\<close>

definition packed_ok :: "pack_state \<Rightarrow> bool" where
  "packed_ok st =
     (pk_bss_size st \<le> max_bss_size \<and>
      list_all (\<lambda>(x, y). fits st (ps_section y) (int (ps_offset y))) (pk_symbols st) \<and>
      list_all (\<lambda>r. fits st (pr_section r) (int (pr_offset r) + 4)) (pk_relocations st) \<and>
      distinct (map (\<lambda>r. (pr_section r, pr_offset r)) (pk_relocations st)))"

lemma b64_char_ascii: "n < 64 \<Longrightarrow> of_char (b64_char n) < (128 :: nat)"
proof -
  have "list_all (\<lambda>n. of_char (b64_char n) < (128 :: nat)) [0..<64]" by code_simp
  then show "n < 64 \<Longrightarrow> of_char (b64_char n) < (128 :: nat)" by (simp add: list_all_iff)
qed

lemma b64encode_ascii: "ascii_only (b64encode bs)"
proof (induction bs rule: b64encode.induct)
  case (2 a)
  have "octet a div 4 < 64" "octet a mod 4 * 16 < 64" using octet_less [of a] by auto
  then show ?case by (simp add: ascii_only_def b64_char_ascii)
next
  case (3 a b)
  have "octet a div 4 < 64" "octet a mod 4 * 16 + octet b div 16 < 64" "octet b mod 16 * 4 < 64"
    using octet_less [of a] octet_less [of b] by auto
  then show ?case by (simp add: ascii_only_def b64_char_ascii)
next
  case (4 a b c rest)
  have "octet a div 4 < 64" "octet a mod 4 * 16 + octet b div 16 < 64"
    "octet b mod 16 * 4 + octet c div 64 < 64" "octet c mod 64 < 64"
    using octet_less [of a] octet_less [of b] octet_less [of c] by auto
  with 4 show ?case by (simp add: ascii_only_def b64_char_ascii)
qed (simp add: ascii_only_def)

lemma packed_align: "pack_default_align name = default_align name" "power_of_two_align (default_align name)"
proof -
  have "power_of_two_align 16" "power_of_two_align 4" by code_simp+
  then show "power_of_two_align (default_align name)" by (simp add: default_align_def)
qed (simp add: pack_default_align_def default_align_def)

definition packed_section :: "pack_state \<Rightarrow> string \<Rightarrow> (string \<times> sect) list" where
  "packed_section st name =
     (case packed_body st name of None \<Rightarrow> []
      | Some body \<Rightarrow> [(name, \<lparr>s_align = default_align name, s_body = body, s_slot = None\<rparr>)])"

lemma packed_sections_concat: "packed_sections st = concat (map (packed_section st) pack_sections)"
  by (simp add: packed_sections_def packed_section_def pack_sections_def List.map_filter_def split: option.split)

lemma map_result_append:
  "map_result f (xs @ ys) = bind_result (map_result f xs) (\<lambda>as. bind_result (map_result f ys) (\<lambda>bs. Inr (as @ bs)))"
  by (induction xs) (auto simp: bind_result_def split: sum.splits)

lemma pack_known: "set pack_sections = set known_sections"
  by (auto simp: pack_sections_def known_sections_def)

lemma read_content:
  assumes "name \<in> set known_sections" "name \<noteq> ''bss''"
  shows "validate_section_entry name (JDict [(''align'', JInt (pack_default_align name)), (''bytes'', JStr (b64encode bs))])
    = Inr \<lparr>s_align = default_align name, s_body = Content bs, s_slot = None\<rparr>"
  using assms b64encode_ascii [of bs] b64_roundtrip [of bs]
  by (simp add: validate_section_entry_def validate_section_bytes_def require_def packed_align)

lemma read_bss:
  "validate_section_entry ''bss'' (JDict [(''align'', JInt (pack_default_align ''bss'')), (''size'', JInt n)])
    = require (0 \<le> n \<and> n \<le> max_bss_size) Bad_bss_size
        (Inr \<lparr>s_align = default_align ''bss'', s_body = Reserved n, s_slot = None\<rparr>)"
  by (simp add: validate_section_entry_def require_def packed_align known_sections_def)

lemma load_section:
  assumes "name \<in> set pack_sections" "pk_bss_size st \<le> max_bss_size"
  shows "map_result (named_result validate_section_entry) (json_section st name) = Inr (packed_section st name)"
proof (cases "name = ''bss''")
  case True
  then show ?thesis using assms(2) read_bss [of "pk_bss_size st"]
    by (simp add: json_section_def packed_section_def packed_body_def named_result_def require_def)
next
  case False
  then show ?thesis using assms(1) read_content [of name "bytes_of name st"]
    by (simp add: json_section_def packed_section_def packed_body_def named_result_def pack_known)
qed

lemma load_bss_too_large:
  assumes "max_bss_size < pk_bss_size st"
  shows "map_result (named_result validate_section_entry) (json_section st ''bss'') = Inl Bad_bss_size"
proof -
  have "0 \<le> max_bss_size" by (simp add: max_bss_size_def)
  then show ?thesis using assms read_bss [of "pk_bss_size st"]
    by (simp add: json_section_def named_result_def require_def)
qed

lemma load_sections:
  "map_result (named_result validate_section_entry) (concat (map (json_section st) pack_sections)) = Inr secs
   \<longleftrightarrow> pk_bss_size st \<le> max_bss_size \<and> secs = packed_sections st"
proof (cases "pk_bss_size st \<le> max_bss_size")
  case True
  then show ?thesis using load_section [of _ st]
    by (auto simp: packed_sections_concat pack_sections_def map_result_append)
next
  case False
  then have "map_result (named_result validate_section_entry) (json_section st ''bss'') \<noteq> Inr xs" for xs
    using load_bss_too_large [of st] by simp
  then show ?thesis using False by (auto simp: pack_sections_def map_result_append bind_result_Inr)
qed

lemma sizes_packed:
  assumes "name \<in> set pack_sections"
  shows "map_of (section_sizes (packed_sections st)) name = map_option body_size (packed_body st name)"
proof -
  have "map_of (section_sizes (concat (map (packed_section st) names))) name
    = (if name \<in> set names then map_option body_size (packed_body st name) else None)" for names
    by (induction names)
      (auto simp: packed_section_def section_sizes_def map_add_def split: option.splits)
  then show ?thesis using assms by (simp add: packed_sections_concat)
qed

lemma load_reference:
  assumes "name \<in> set pack_sections"
  shows "validate_section_reference owner (Some (JStr name)) (section_sizes (packed_sections st)) = Inr sec
    \<longleftrightarrow> packed_body st name \<noteq> None \<and> sec = name"
  using assms sizes_packed [OF assms, of st]
  by (auto simp: validate_section_reference_def require_Inr pack_known)

lemma load_symbol:
  assumes "x \<noteq> []" "ps_section y \<in> set pack_sections"
  shows "validate_symbol_item (section_sizes (packed_sections st)) x (json_symbol y) = Inr z
    \<longleftrightarrow> fits st (ps_section y) (int (ps_offset y)) \<and> z = read_symbol y"
  using assms sizes_packed [OF assms(2), of st]
  by (auto simp: validate_symbol_item_def json_symbol_def validate_symbol_entry_def require_Inr bind_result_Inr
      load_reference known_bindings_def fits_def read_symbol_def split: option.splits)

lemma load_symbols:
  assumes "\<forall>(x, y) \<in> set ys. x \<noteq> [] \<and> ps_section y \<in> set pack_sections"
  shows "map_result (named_result (validate_symbol_item (section_sizes (packed_sections st)))) (map (\<lambda>(x, y). (x, json_symbol y)) ys) = Inr zs
    \<longleftrightarrow> list_all (\<lambda>(x, y). fits st (ps_section y) (int (ps_offset y))) ys \<and> zs = map (\<lambda>(x, y). (x, read_symbol y)) ys"
  using assms
proof (induction ys arbitrary: zs)
  case (Cons p ys)
  then show ?case by (cases p) (auto simp: named_result_def bind_result_Inr load_symbol)
qed auto

lemma load_reloc:
  assumes "pr_symbol r \<noteq> []" "pr_section r \<in> set pack_sections" "pr_type r \<in> set known_relocation_types"
  shows "validate_relocation_entry (section_sizes (packed_sections st)) index (json_reloc st r) = Inr z
    \<longleftrightarrow> fits st (pr_section r) (int (pr_offset r) + 4) \<and> z = read_reloc st r"
  using assms sizes_packed [OF assms(2), of st]
  by (auto simp: json_reloc_def validate_relocation_entry_def require_Inr bind_result_Inr load_reference fits_def read_reloc_def
      split: option.splits)

definition patch_site :: "packed_reloc \<Rightarrow> string \<times> int" where
  "patch_site r = (pr_section r, int (pr_offset r))"

lemma load_relocs:
  assumes "\<forall>r \<in> set rs. pr_symbol r \<noteq> [] \<and> pr_section r \<in> set pack_sections \<and> pr_type r \<in> set known_relocation_types"
  shows "validate_relocation_list (section_sizes (packed_sections st)) seen index (map (json_reloc st) rs) = Inr zs
    \<longleftrightarrow> list_all (\<lambda>r. fits st (pr_section r) (int (pr_offset r) + 4)) rs \<and> distinct (map patch_site rs) \<and>
      set (map patch_site rs) \<inter> set seen = {} \<and> zs = map (read_reloc st) rs"
  using assms
proof (induction rs arbitrary: seen index zs)
  case (Cons r rs)
  have s: "(r_section (read_reloc st r), r_offset (read_reloc st r)) = patch_site r" by (simp add: read_reloc_def patch_site_def)
  from Cons show ?case by (auto simp: bind_result_Inr require_Inr load_reloc s)
qed auto

lemma sites_distinct: "distinct (map patch_site rs) \<longleftrightarrow> distinct (map (\<lambda>r. (pr_section r, pr_offset r)) rs)"
  by (induction rs) (auto simp: patch_site_def)

lemma load_externs:
  assumes "[] \<notin> set xs" "distinct xs"
  shows "validate_string_list e e' (Some (JList (map JStr xs))) = Inr xs"
proof -
  have "sequence_opt (map (\<lambda>x. as_str (Some x)) (map JStr xs)) = Some xs" for xs by (induction xs) auto
  then show ?thesis using assms by (simp add: validate_string_list_def require_def)
qed

lemma pack_fields:
  assumes "pack_inv st"
  shows "\<forall>(x, y) \<in> set (pk_symbols st). x \<noteq> [] \<and> ps_section y \<in> set pack_sections"
    "\<forall>r \<in> set (pk_relocations st). pr_symbol r \<noteq> [] \<and> pr_section r \<in> set pack_sections \<and> pr_type r \<in> set known_relocation_types"
    "[] \<notin> set (packed_externs st)" "distinct (packed_externs st)"
  using assms unfolding pack_inv_def packed_externs_def by auto

lemma load_packed:
  assumes inv: "pack_inv st"
  shows "load_ccobj (\<lambda>_. Some (ccobj_json source st)) path = Inr ob \<longleftrightarrow> packed_ok st \<and> ob = packed_object source st"
proof -
  note sym = load_symbols [OF pack_fields(1) [OF inv], of st] and rel = load_relocs [OF pack_fields(2) [OF inv], of st]
    and ext = load_externs [OF pack_fields(3,4) [OF inv]]
  show ?thesis
    by (auto simp: load_ccobj_def load_json_dict_def ccobj_json_def ccobj_version_def required_keys_def require_Inr require_def bind_result_Inr
        validate_ccobj_shape_def validate_ccobj_relocations_def load_sections sym rel ext packed_ok_def packed_object_def sites_distinct)
qed

end
