(* ===== verification/Packed_Link.thy ===== *)
theory Packed_Link
  imports Ccobj_Correct Linker
begin

text \<open>
  Packing and linking together: a reference the assembler left in brackets is, in the linked image, the address
  of the section it points into plus the value the assembler had put there.
\<close>

subsection \<open>Tables of local symbols\<close>

definition local_table :: "ccobj \<Rightarrow> (string \<times> symbol) list \<Rightarrow> (string \<times> int) list" where
  "local_table ob syms = map (\<lambda>(n, y). (n, the (symbol_address ob y))) (filter (\<lambda>(n, y). y_binding y \<noteq> ''global'') syms)"

lemma collect_symbols_locals:
  assumes "collect_symbols ob syms l g = Inr (l', g')"
  shows "l' = l @ local_table ob syms \<and> (\<forall>(n, y) \<in> set syms. symbol_address ob y \<noteq> None)"
  using assms
proof (induction ob syms l g rule: collect_symbols.induct)
  case (1 ob l g)
  then show ?case by (simp add: local_table_def)
next
  case (2 ob n y rest l g)
  then obtain slot where slot: "slot_of ob (y_section y) = Some slot" by (auto split: option.splits)
  show ?case
  proof (cases "y_binding y = ''global''")
    case False
    with 2 slot show ?thesis by (auto simp: local_table_def symbol_address_def)
  next
    case True
    with "2.prems" slot have none: "map_of g n = None" by (auto split: option.splits)
    from True have nb: "\<not> y_binding y \<noteq> ''global''" by simp
    from "2.IH"(2) [OF slot nb none] "2.prems" True slot none show ?thesis
      by (auto simp: local_table_def symbol_address_def)
  qed
qed

lemma symbol_address_locals [simp]: "symbol_address (ob\<lparr>o_locals := l\<rparr>) y = symbol_address ob y"
  by (simp add: symbol_address_def slot_of_locals)

lemma local_table_locals [simp]: "local_table (ob\<lparr>o_locals := l\<rparr>) syms = local_table ob syms"
  by (simp add: local_table_def)

lemma collect_all_locals:
  assumes "collect_all_symbols obs g = Inr (obs', g')"
  shows "\<forall>ob \<in> set obs'. o_locals ob = local_table ob (o_symbols ob) \<and> (\<forall>(n, y) \<in> set (o_symbols ob). symbol_address ob y \<noteq> None)"
  using assms
proof (induction obs g arbitrary: obs' g' rule: collect_all_symbols.induct)
  case (2 ob obs g)
  then obtain l g1 obs1 where one: "collect_symbols ob (o_symbols ob) [] g = Inr (l, g1)"
    and rest: "collect_all_symbols obs g1 = Inr (obs1, g')" and obs': "obs' = ob\<lparr>o_locals := l\<rparr> # obs1"
    by (auto simp: bind_result_Inr)
  from collect_symbols_locals [OF one] "2.IH" [OF rest] obs' show ?case by simp
qed auto

lemma local_table_lookup:
  assumes "distinct (map fst syms)" "(n, y) \<in> set syms" "symbol_address ob y = Some a"
  shows "map_of (local_table ob syms) n = (if y_binding y = ''global'' then None else Some a)"
  using assms
proof -
  have keys: "map fst (local_table ob syms) = map fst (filter (\<lambda>(n, y). y_binding y \<noteq> ''global'') syms)"
    by (simp add: local_table_def case_prod_unfold comp_def)
  have d: "distinct (map fst (local_table ob syms))"
    unfolding keys using assms(1) by (simp add: distinct_map_filter)
  show ?thesis
  proof (cases "y_binding y = ''global''")
    case True
    have "z = y" if "(n, z) \<in> set syms" for z
      using assms(1,2) that by (metis map_of_eq_Some_iff option.inject)
    then have "n \<notin> fst ` set (local_table ob syms)"
      using True by (auto simp: local_table_def)
    then show ?thesis using True by (simp add: map_of_eq_None_iff)
  next
    case False
    then have "(n, a) \<in> set (local_table ob syms)" using assms(2,3) by (force simp: local_table_def)
    then show ?thesis using False d by simp
  qed
qed

lemma resolve_own_symbol:
  assumes lay: "lay_out_sections base objs = Inr (layout, obs)" and ob: "ob \<in> set obs"
    and d: "distinct (map fst (o_symbols ob))" and y: "(n, y) \<in> set (o_symbols ob)"
  shows "resolve_symbol_address (o_locals ob) (l_symbols layout) n = symbol_address ob y \<and> symbol_address ob y \<noteq> None"
proof -
  from lay obtain obs2 globs where s: "collect_all_symbols obs2 [] = Inr (obs, globs)"
    by (auto simp: lay_out_sections_def Let_def bind_result_Inr split: prod.splits)
  from collect_all_locals [OF s] ob have l: "o_locals ob = local_table ob (o_symbols ob)"
    and some: "\<forall>(n, y) \<in> set (o_symbols ob). symbol_address ob y \<noteq> None" by auto
  from some y obtain a where a: "symbol_address ob y = Some a" by auto
  show ?thesis
  proof (cases "y_binding y = ''global''")
    case True
    with layout_symbols [OF lay] ob y have "map_of (l_symbols layout) n = symbol_address ob y" by fastforce
    with True a show ?thesis using local_table_lookup [OF d y a] by (simp add: resolve_symbol_address_def l)
  next
    case False
    then show ?thesis using local_table_lookup [OF d y a] a by (simp add: resolve_symbol_address_def l)
  qed
qed

lemma same_objects_mem: "same_objects objs obs \<Longrightarrow> ob \<in> set objs \<Longrightarrow> \<exists>ob' \<in> set obs. same_contents ob ob'"
  unfolding same_objects_def by (metis in_set_conv_nth list_all2_conv_all_nth)

subsection \<open>Bracketed references\<close>

lemma packed_reference:
  assumes link: "link_objects base objs = Inr (out, syms)" and ok: "\<forall>ob \<in> set objs. patchable ob"
    and inv: "pack_inv st" and ob: "packed_object source st \<in> set objs"
    and r: "r \<in> set (pk_relocations st)" "pr_placeholder r = Some v"
    and y: "map_of (pk_symbols st) (pr_symbol r) = Some y"
  shows "\<exists>layout obs ob start place. lay_out_sections base objs = Inr (layout, obs) \<and> ob \<in> set obs \<and>
    same_contents (packed_object source st) ob \<and> slot_of ob (ps_section y) = Some start \<and>
    slot_of ob (pr_section r) = Some place \<and>
    (let p = nat (place + int (pr_offset r) - base) in p + 4 \<le> length (l_image layout) \<and>
       le_int (slice p (p + 4) out) = (start + v) mod 2 ^ 32)"
proof -
  obtain layout obs img where l: "lay_out_sections base objs = Inr (layout, obs)"
    and out: "out = img @ le_bytes 4 (l_bss_size layout) @ [0x32, 0xB0]" and len: "length img = length (l_image layout)"
    and p: "\<forall>x \<in> set (all_relocs obs). patched base (l_symbols layout) img x"
    and lay: "laid_out base (set section_order) (l_image layout) obs" and same: "same_objects objs obs"
    using link_objects_spec [OF link ok] by metis
  obtain ob' where ob': "ob' \<in> set obs" and sc: "same_contents (packed_object source st) ob'"
    using same_objects_mem [OF same ob] by blast
  have fields: "o_symbols ob' = map (\<lambda>(x, y). (x, read_symbol y)) (pk_symbols st)" "o_relocations ob' = map (read_reloc st) (pk_relocations st)"
    using sc by (simp_all add: same_contents_def packed_object_def)
  have x: "(ob', read_reloc st r) \<in> set (all_relocs obs)"
    using ob' r(1) fields(2) by (auto simp: all_relocs_def intro!: bexI [of _ ob'])
  have d: "distinct (map fst (o_symbols ob'))"
  proof -
    have "map fst (o_symbols ob') = map fst (pk_symbols st)" by (simp add: fields case_prod_unfold comp_def)
    then show ?thesis using inv by (simp add: pack_inv_def)
  qed
  have ys: "(pr_symbol r, read_symbol y) \<in> set (o_symbols ob')"
    using map_of_SomeD [OF y] by (force simp: fields)
  obtain start where start: "slot_of ob' (ps_section y) = Some start"
    and res: "resolve_symbol_address (o_locals ob') (l_symbols layout) (pr_symbol r) = Some (start + int (ps_offset y))"
    using resolve_own_symbol [OF l ob' d ys] by (auto simp: symbol_address_def read_symbol_def)
  have ty: "pr_type r = ''abs32''"
    using inv r by (auto simp: pack_inv_def)
  from p x have "patched base (l_symbols layout) img (ob', read_reloc st r)" by blast
  then obtain q where q: "patch_address ob' (read_reloc st r) = Some q"
    and val: "patched_value (start + int (ps_offset y)) q (read_reloc st r)
      (slice (nat (q - base)) (nat (q - base) + 4) img)"
    using res by (auto simp: patched_def site_def read_reloc_def)
  have "pack_addend st r = v - int (ps_offset y)" by (simp add: pack_addend_def r(2) y)
  with val ty have eq: "le_int (slice (nat (q - base)) (nat (q - base) + 4) img) = (start + v) mod 2 ^ 32"
    by (simp add: patched_value_def read_reloc_def)
  obtain place where place: "slot_of ob' (pr_section r) = Some place" "q = place + int (pr_offset r)"
    using q by (auto simp: patch_address_def read_reloc_def)
  have "\<forall>ob \<in> set obs. patchable ob"
    using same ok unfolding same_objects_def by (metis in_set_conv_nth list_all2_conv_all_nth patchable_same)
  from all_relocs_sites [OF lay this] x q have bound: "nat (q - base) + 4 \<le> length img"
    by (auto simp: site_in_def len)
  have "slice (nat (q - base)) (nat (q - base) + 4) out = slice (nat (q - base)) (nat (q - base) + 4) img"
    unfolding out by (rule slice_append [OF bound])
  with eq bound len place start l ob' sc show ?thesis by (auto simp: Let_def)
qed

subsection \<open>A listing\<close>

definition listing_of :: "string list \<Rightarrow> string" where
  "listing_of rows = concat (map (\<lambda>row. row @ [CHR 0x0A]) rows)"

definition counter_listing :: string where
  "counter_listing = listing_of
     [''1 section .text'', ''2 m:'', ''3 00000000 A1[03000000]  mov eax,[n+3]'', ''4 section .data'', ''5 00000000 2A000000  n: dd 42'']"

definition counter_state :: pack_state where
  "counter_state =
     \<lparr>pk_bytes = [(''text'', [0xA1, 3, 0, 0, 0]), (''data'', [0x2A, 0, 0, 0])], pk_bss_size = 0,
      pk_symbols = [(''m'', \<lparr>ps_global = False, ps_offset = 0, ps_section = ''text''\<rparr>),
        (''n'', \<lparr>ps_global = False, ps_offset = 0, ps_section = ''data''\<rparr>)],
      pk_globals = [],
      pk_relocations = [\<lparr>pr_placeholder = Some 3, pr_offset = 1, pr_section = ''text'', pr_symbol = ''n'', pr_type = ''abs32''\<rparr>],
      pk_extern = [], pk_section = Some ''data'', pk_macro = None, pk_pending = []\<rparr>"

lemma counter_packed: "pack_listing counter_listing = Inr counter_state"
  by code_simp

lemma counter_linked:
  "link_objects 4096 [packed_object ''a.asm'' counter_state] =
     Inr ([0xA1, 0x0B, 0x10, 0, 0, 0, 0, 0, 0x2A, 0, 0, 0, 0, 0, 0, 0, 0x32, 0xB0], [])"
  by code_simp

subsection \<open>Properties\<close>

text \<open>
  C22. The linker's loader accepts what the packer writes for a listing exactly when every label is in a section that has
  contents and not past their end, every patched slot lies inside its section and none is patched twice, and the
  reserved space is below the linker's bound; it then reads the bytes, symbols and relocations that were packed.
\<close>

theorem packed_object_loads:
  assumes "pack_listing listing = Inr st"
  shows "load_ccobj (\<lambda>_. Some (ccobj_json source st)) path = Inr ob \<longleftrightarrow> packed_ok st \<and> ob = packed_object source st"
  by (rule load_packed [OF pack_listing_inv [OF assms]])

theorem packed_object_loads_witness:
  "load_ccobj (\<lambda>_. Some (ccobj_json ''a.asm'' counter_state)) ''a.ccobj'' = Inr (packed_object ''a.asm'' counter_state)"
proof -
  have "packed_ok counter_state" by code_simp
  then show ?thesis using packed_object_loads [OF counter_packed] by simp
qed

text \<open>
  C23. Packing and linking compose: where the assembler left the value \<open>v\<close> in a bracketed reference to a label
  of the listing, the linked image holds the address of the label's section plus \<open>v\<close>, modulo \<open>2 ^ 32\<close>.
\<close>

theorem packed_reference_links:
  assumes "pack_listing listing = Inr st" "link_objects base objs = Inr (out, syms)"
    and "packed_object source st \<in> set objs" "\<forall>ob \<in> set objs. patchable ob"
    and "r \<in> set (pk_relocations st)" "pr_placeholder r = Some v" "map_of (pk_symbols st) (pr_symbol r) = Some y"
  shows "\<exists>layout obs ob start place. lay_out_sections base objs = Inr (layout, obs) \<and> ob \<in> set obs \<and>
    same_contents (packed_object source st) ob \<and> slot_of ob (ps_section y) = Some start \<and>
    slot_of ob (pr_section r) = Some place \<and>
    (let p = nat (place + int (pr_offset r) - base) in p + 4 \<le> length (l_image layout) \<and>
       le_int (slice p (p + 4) out) = (start + v) mod 2 ^ 32)"
  using packed_reference assms pack_listing_inv by blast

theorem packed_reference_links_witness:
  "\<exists>layout obs ob start place. lay_out_sections 4096 [packed_object ''a.asm'' counter_state] = Inr (layout, obs) \<and>
    ob \<in> set obs \<and> same_contents (packed_object ''a.asm'' counter_state) ob \<and> slot_of ob ''data'' = Some start \<and>
    slot_of ob ''text'' = Some place \<and>
    (let p = nat (place + 1 - 4096) in p + 4 \<le> length (l_image layout) \<and>
       le_int (slice p (p + 4) [0xA1, 0x0B, 0x10, 0, 0, 0, 0, 0, 0x2A, 0, 0, 0, 0, 0, 0, 0, 0x32, 0xB0]) =
         (start + 3) mod 2 ^ 32)"
proof -
  have ok: "\<forall>ob \<in> set [packed_object ''a.asm'' counter_state]. patchable ob"
    by (simp add: patchable_def packed_object_def packed_sections_def packed_body_def bytes_of_def counter_state_def
        read_reloc_def reloc_inside_def section_order_def pack_sections_def List.map_filter_def section_of_def contribution_def)
  have n: "map_of (pk_symbols counter_state) ''n'' = Some \<lparr>ps_global = False, ps_offset = 0, ps_section = ''data''\<rparr>"
    by (simp add: counter_state_def)
  show ?thesis
    using packed_reference_links [OF counter_packed counter_linked _ ok, of "''a.asm''" "hd (pk_relocations counter_state)" 3] n
    by (simp add: counter_state_def)
qed

subsection \<open>Listings the packer accepts and does not handle\<close>

text \<open>
  A label on a row of its own has no offset in the listing; in \<open>bss\<close> the packer gives it the number of bytes of
  the section, which is always 0, not the space reserved so far: the label then names the first variable of the section.
\<close>

definition two_rooms :: string where
  "two_rooms = listing_of [''1 section .bss'', ''2 00000000 <res 4h>  a: resd 1'', ''3 b:'', ''4 00000004 <res 4h>  resd 1'']"

theorem bss_label_row_names_first_variable:
  "map_sum id (\<lambda>st. (pk_symbols st, pk_bss_size st)) (pack_listing two_rooms) =
     Inr ([(''a'', \<lparr>ps_global = False, ps_offset = 0, ps_section = ''bss''\<rparr>),
       (''b'', \<lparr>ps_global = False, ps_offset = 0, ps_section = ''bss''\<rparr>)], 8)"
  by code_simp

text \<open>
  A label in a section without contents is packed, and the linker refuses the object.
\<close>

theorem label_of_empty_section_refused:
  "map_sum id (\<lambda>st. load_ccobj (\<lambda>_. Some (ccobj_json ''a.asm'' st)) ''a.ccobj'')
     (pack_listing (listing_of [''1 section .text'', ''2 end:''])) = Inr (Inl (Undefined_section_of ''end'' ''text''))"
  by code_simp

text \<open>
  A datum that holds its own address stops the packer: the label of the row is not among the candidates for its
  bracket.
\<close>

theorem own_address_stops_packer:
  "pack_listing (listing_of [''1 section .data'', ''2 00000000 [00000000]  p: dd p'']) = Inl (No_target 0 ''p: dd p'')"
  by code_simp

end
