(* ===== verification/Lexer.thy ===== *)
theory Lexer
  imports Pystr Decimal Results
begin

text \<open>
  The tokenizer \<^verbatim>\<open>cc/lexer.py\<close> and the tables of \<^verbatim>\<open>cc/tokens.py\<close>.  Each alternative of the token pattern is the function
  that gives the length of its match at the start of a text; the first alternative that matches wins.  A literal with
  a point or an exponent goes through a double, of which only the integer part is kept.
\<close>

datatype lex_error = Unexpected_character char nat | Float_infinite

type_synonym token = "string \<times> string \<times> nat"

definition keyword_texts :: "string list" where
  "keyword_texts = [''break'', ''case'', ''char'', ''const'', ''continue'', ''default'', ''do'', ''double'', ''else'', ''enum'',
     ''extern'', ''float'', ''for'', ''goto'', ''if'', ''int'', ''long'', ''return'', ''short'', ''signed'', ''sizeof'',
     ''static'', ''struct'', ''switch'', ''typedef'', ''unsigned'', ''void'', ''volatile'', ''while'']"

definition ascii_upper :: "char \<Rightarrow> char" where
  "ascii_upper c = (if 97 \<le> code c \<and> code c \<le> 122 then char_of (code c - 32) else c)"

subsection \<open>Alternatives of the pattern\<close>

definition lex_white :: "string \<Rightarrow> nat option" where
  "lex_white s = (let n = length (takeWhile is_white s) in if n = 0 then None else Some n)"

text \<open>The number of characters through the first \<open>*/\<close>.\<close>

fun comment_end :: "string \<Rightarrow> nat option" where
  "comment_end (c # d # s) = (if c = CHR ''*'' \<and> d = CHR ''/'' then Some 2 else map_option Suc (comment_end (d # s)))"
| "comment_end _ = None"

definition lex_block_comment :: "string \<Rightarrow> nat option" where
  "lex_block_comment s = (if starts_with ''/*'' s then map_option ((+) 2) (comment_end (drop 2 s)) else None)"

definition lex_line_comment :: "string \<Rightarrow> nat option" where
  "lex_line_comment s =
     (if starts_with ''//'' s then Some (2 + length (takeWhile (\<lambda>c. code c \<noteq> 10) (drop 2 s))) else None)"

text \<open>The inside of a character literal: a plain character, a hexadecimal escape, or any other escape.\<close>

definition char_bodies :: "string \<Rightarrow> nat list" where
  "char_bodies s =
     (case s of
        [] \<Rightarrow> []
      | c # rest \<Rightarrow>
          if c = CHR 0x27 then []
          else if code c \<noteq> 92 then [1]
          else (case rest of
              [] \<Rightarrow> []
            | d # rest' \<Rightarrow>
                (if d = CHR ''x''
                 then (let n = min 2 (length (takeWhile is_hex rest')) in
                   if n = 2 then [4, 3] else if n = 1 then [3] else [])
                 else []) @ (if code d = 10 then [] else [2])))"

definition lex_char :: "string \<Rightarrow> nat option" where
  "lex_char s =
     (case s of
        [] \<Rightarrow> None
      | c # rest \<Rightarrow>
          if c = CHR 0x27
          then (case filter (\<lambda>n. starts_with [CHR 0x27] (drop n rest)) (char_bodies rest) of
              [] \<Rightarrow> None
            | n # _ \<Rightarrow> Some (n + 2))
          else None)"

definition lex_identifier :: "string \<Rightarrow> nat option" where
  "lex_identifier s = (if s \<noteq> [] \<and> is_name_start (hd s) then Some (length (takeWhile is_name_char s)) else None)"

text \<open>The digits of a number with its fraction and exponent, and the suffix behind them.\<close>

definition digit_run :: "string \<Rightarrow> nat" where
  "digit_run s = length (takeWhile is_digit10 s)"

definition fraction_length :: "string \<Rightarrow> nat" where
  "fraction_length s = (if starts_with ''.'' s then Suc (digit_run (tl s)) else 0)"

definition exponent_length :: "string \<Rightarrow> nat" where
  "exponent_length s =
     (if s \<noteq> [] \<and> hd s \<in> {CHR ''e'', CHR ''E''}
      then let k = (if tl s \<noteq> [] \<and> hd (tl s) \<in> {CHR ''+'', CHR ''-''} then 2 else 1); n = digit_run (drop k s)
        in if n = 0 then 0 else k + n
      else 0)"

definition number_body :: "string \<Rightarrow> nat option" where
  "number_body s =
     (let hex = length (takeWhile is_hex (drop 2 s)) in
      if take 2 s \<in> {''0x'', ''0X''} \<and> hex \<noteq> 0 then Some (2 + hex)
      else let n = digit_run s in
        if n = 0 then None
        else let m = n + fraction_length (drop n s) in Some (m + exponent_length (drop m s)))"

fun letter_run :: "char set \<Rightarrow> nat \<Rightarrow> string \<Rightarrow> nat" where
  "letter_run letters (Suc n) (c # s) = (if c \<in> letters then Suc (letter_run letters n s) else 0)"
| "letter_run letters _ _ = 0"

definition number_suffix :: "string \<Rightarrow> nat" where
  "number_suffix s =
     (let f = letter_run {CHR ''f'', CHR ''F''} 1 s; u = letter_run {CHR ''u'', CHR ''U''} 1 s;
          ul = (if u = 1 then letter_run {CHR ''l'', CHR ''L''} 2 (drop 1 s) else 0);
          l = letter_run {CHR ''l'', CHR ''L''} 2 s
      in if f \<noteq> 0 then f
         else if ul \<noteq> 0 then 1 + ul
         else if l \<noteq> 0 then l + letter_run {CHR ''u'', CHR ''U''} 1 (drop l s)
         else u)"

definition lex_number :: "string \<Rightarrow> nat option" where
  "lex_number s = map_option (\<lambda>n. n + number_suffix (drop n s)) (number_body s)"

text \<open>The number of characters through the quote that ends a string.\<close>

fun string_end :: "string \<Rightarrow> nat option" where
  "string_end [] = None"
| "string_end (c # s) =
     (if c = CHR 0x22 then Some 1
      else if code c \<noteq> 92 then map_option Suc (string_end s)
      else case s of
          [] \<Rightarrow> None
        | d # s' \<Rightarrow> if code d = 10 then None else map_option ((+) 2) (string_end s'))"

definition lex_string :: "string \<Rightarrow> nat option" where
  "lex_string s = (if starts_with [CHR 0x22] s then map_option Suc (string_end (tl s)) else None)"

definition operators :: "(string \<times> string) list" where
  "operators =
     [(''EQ'', ''==''), (''GE'', ''>=''), (''SHR_ASSIGN'', ''>>=''), (''SHR'', ''>>''), (''LE'', ''<=''),
      (''SHL_ASSIGN'', ''<<=''), (''SHL'', ''<<''), (''NE'', ''!=''), (''PLUS_PLUS'', ''++''), (''PLUS_ASSIGN'', ''+=''),
      (''ASSIGN'', ''=''), (''GT'', ''>''), (''LT'', ''<''), (''MINUS_MINUS'', ''--''), (''MINUS_ASSIGN'', ''-=''),
      (''ARROW'', ''->''), (''MINUS'', ''-''), (''AND_AND'', ''&&''), (''AMP_ASSIGN'', ''&=''), (''AMP'', ''&''),
      (''OR_OR'', ''||''), (''PIPE_ASSIGN'', ''|=''), (''PIPE'', ''|''), (''CARET_ASSIGN'', ''^=''), (''CARET'', ''^''),
      (''TILDE'', ''~''), (''NOT'', ''!''), (''PERCENT_ASSIGN'', ''%=''), (''PERCENT'', ''%''), (''PLUS'', ''+''),
      (''SLASH_ASSIGN'', ''/=''), (''SLASH'', ''/''), (''STAR_ASSIGN'', ''*=''), (''STAR'', ''*''), (''LBRACE'', ''{''),
      (''LBRACKET'', ''[''), (''LPAREN'', ''(''), (''RBRACE'', ''}''), (''RBRACKET'', '']''), (''RPAREN'', '')''),
      (''COLON'', '':''), (''COMMA'', '',''), (''ELLIPSIS'', ''...''), (''DOT'', ''.''), (''QUESTION'', ''?''), (''SEMI'', '';'')]"

definition lex_operator :: "string \<Rightarrow> (string \<times> nat) option" where
  "lex_operator s = map_option (\<lambda>(kind, text). (kind, length text)) (find (\<lambda>(kind, text). starts_with text s) operators)"

fun first_alternative :: "(string \<times> (string \<Rightarrow> nat option)) list \<Rightarrow> string \<Rightarrow> (string \<times> nat) option" where
  "first_alternative [] s = lex_operator s"
| "first_alternative ((kind, alternative) # alternatives) s =
     (case alternative s of Some n \<Rightarrow> Some (kind, n) | None \<Rightarrow> first_alternative alternatives s)"

text \<open>\<open>TOKEN_PATTERN.match\<close>: the kind and the length.\<close>

definition match_token :: "string \<Rightarrow> (string \<times> nat) option" where
  "match_token s =
     first_alternative
       [(''WS'', lex_white), (''BLOCK_COMMENT'', lex_block_comment), (''LINE_COMMENT'', lex_line_comment), (''CHAR_LIT'', lex_char),
        (''IDENT'', lex_identifier), (''NUMBER'', lex_number), (''STRING'', lex_string)] s"

subsection \<open>Numbers\<close>

function bit_length :: "int \<Rightarrow> nat" where
  "bit_length n = (if n \<le> 0 then 0 else Suc (bit_length (n div 2)))"
  by pat_completeness auto
termination by (relation "measure nat") auto

declare bit_length.simps [simp del]

definition round_half_even :: "int \<Rightarrow> int \<Rightarrow> int" where
  "round_half_even num den =
     (let q = num div den; r = num mod den in
      if 2 * r < den then q else if den < 2 * r then q + 1 else if even q then q else q + 1)"

text \<open>\<open>int\<close> of the double nearest to \<open>num / den\<close>; an infinity has no integer.\<close>

definition int_of_double :: "int \<Rightarrow> int \<Rightarrow> lex_error + int" where
  "int_of_double num den =
     (let bits = bit_length (num div den) in
      if bits \<le> 53 then Inr (round_half_even (num * 2 ^ (53 - bits)) den div 2 ^ (53 - bits))
      else let v = round_half_even num (den * 2 ^ (bits - 53)) * 2 ^ (bits - 53) in
        if v < 2 ^ 1024 then Inr v else Inl Float_infinite)"

definition decimal_value :: "string \<Rightarrow> int" where
  "decimal_value s = foldl (\<lambda>n c. 10 * n + int (code c - 48)) 0 s"

definition truncated_float :: "string \<Rightarrow> lex_error + int" where
  "truncated_float s =
     (let n = digit_run s; m = n + fraction_length (drop n s);
          fraction = takeWhile is_digit10 (drop (Suc n) s);
          digits = decimal_value (take n s @ (if m = n then [] else fraction));
          scale = (if m = n then 0 else length fraction);
          exponent = drop (Suc m) s; magnitude = nat (decimal_value (filter is_digit10 exponent))
      in if exponent \<noteq> [] \<and> hd exponent = CHR ''-'' then int_of_double digits (10 ^ (scale + magnitude))
         else int_of_double (digits * 10 ^ magnitude) (10 ^ scale))"

function show_digits :: "int \<Rightarrow> string" where
  "show_digits n = (if n < 10 then [digit_char (nat n)] else show_digits (n div 10) @ [digit_char (nat (n mod 10))])"
  by pat_completeness auto
termination by (relation "measure nat") auto

declare show_digits.simps [simp del]

definition strip_suffix :: "char set \<Rightarrow> string \<Rightarrow> string" where
  "strip_suffix letters s = rev (dropWhile (\<lambda>c. c \<in> letters) (rev s))"

definition number_text :: "string \<Rightarrow> lex_error + string" where
  "number_text s =
     (if 2 < length s \<and> take 2 s \<in> {''0x'', ''0X''} then Inr (strip_suffix (set ''uUlL'') s)
      else let t = strip_suffix (set ''fFuUlL'') s in
        if set t \<inter> set ''.eE'' \<noteq> {} then map_sum id show_digits (truncated_float t) else Inr t)"

subsection \<open>The tokenizer\<close>

definition is_skipped :: "string \<Rightarrow> bool" where
  "is_skipped kind = (kind \<in> {''BLOCK_COMMENT'', ''LINE_COMMENT'', ''WS''})"

definition newlines :: "string \<Rightarrow> nat" where
  "newlines s = length (filter (\<lambda>c. code c = 10) s)"

text \<open>The kind and text of a token that is kept.\<close>

definition classify :: "string \<Rightarrow> string \<Rightarrow> lex_error + string \<times> string" where
  "classify kind text =
     (if kind = ''IDENT'' \<and> text \<in> set keyword_texts then Inr (map ascii_upper text, text)
      else if kind = ''NUMBER'' then map_sum id (Pair kind) (number_text text)
      else Inr (kind, text))"

lemma comment_end_length: "comment_end s = Some n \<Longrightarrow> 0 < n \<and> n \<le> length s"
  by (induction s arbitrary: n rule: comment_end.induct) (auto split: if_splits)

lemma string_end_length: "string_end s = Some n \<Longrightarrow> 0 < n \<and> n \<le> length s"
  by (induction s arbitrary: n rule: string_end.induct) (fastforce split: if_splits list.splits)+

lemma lex_operator_length: "lex_operator s = Some (kind, n) \<Longrightarrow> 0 < n \<and> n \<le> length s"
proof -
  assume "lex_operator s = Some (kind, n)"
  then obtain w where t: "(kind, w) \<in> set operators" "starts_with w s" "n = length w"
    unfolding lex_operator_def by (auto simp: find_Some_iff) (metis nth_mem)
  have "\<forall>(kind, w) \<in> set operators. w \<noteq> []" by (simp add: operators_def)
  with t(1) have "w \<noteq> []" by blast
  moreover have "length w \<le> length s" using t(2) by (metis starts_with_def length_take min.absorb_iff2 min.commute nat_le_linear)
  ultimately show ?thesis using t(3) by simp
qed

lemma char_body_length: "n \<in> set (char_bodies s) \<Longrightarrow> n \<le> length s"
proof (cases s)
  case (Cons c rest)
  assume n: "n \<in> set (char_bodies s)"
  show ?thesis
  proof (cases rest)
    case Nil
    with n Cons show ?thesis by (auto simp: char_bodies_def split: if_splits)
  next
    case rest: (Cons d rest')
    have "length (takeWhile is_hex rest') \<le> length rest'" by (rule length_takeWhile_le)
    with n Cons rest show ?thesis by (auto simp: char_bodies_def Let_def split: if_splits)
  qed
qed (simp add: char_bodies_def)

lemma starts_with_length: "starts_with p s \<Longrightarrow> length p \<le> length s"
  by (metis starts_with_def length_take min.bounded_iff order_refl)

lemma lex_char_length: "lex_char s = Some n \<Longrightarrow> 0 < n \<and> n \<le> length s"
proof -
  assume cl: "lex_char s = Some n"
  then obtain c rest where s: "s = c # rest" by (cases s) (auto simp: lex_char_def)
  define ms where "ms = filter (\<lambda>n. starts_with [CHR 0x27] (drop n rest)) (char_bodies rest)"
  obtain k ks where k: "ms = k # ks" "n = k + 2"
    using cl s by (auto simp: lex_char_def ms_def [symmetric] split: list.splits if_splits)
  then have "k \<in> set ms" by simp
  then have "starts_with [CHR 0x27] (drop k rest)" by (simp add: ms_def)
  from starts_with_length [OF this] k(2) s show ?thesis by simp
qed

lemma digit_run_length: "digit_run s \<le> length s"
  by (simp add: digit_run_def length_takeWhile_le)

lemma fraction_length_le: "fraction_length s \<le> length s"
  using digit_run_length [of "tl s"] starts_with_length [of "''.''" s] by (cases s) (auto simp: fraction_length_def)

lemma exponent_length_le: "exponent_length s \<le> length s"
  using digit_run_length [of "drop 2 s"] digit_run_length [of "drop 1 s"] by (auto simp: exponent_length_def Let_def)

lemma number_body_length: "number_body s = Some n \<Longrightarrow> 0 < n \<and> n \<le> length s"
proof -
  assume body: "number_body s = Some n"
  have hex: "2 + length (takeWhile is_hex (drop 2 s)) \<le> length s" if "takeWhile is_hex (drop 2 s) \<noteq> []"
    using length_takeWhile_le [of is_hex "drop 2 s"] that by (cases "2 \<le> length s") auto
  define d m where "d = digit_run s" and "m = d + fraction_length (drop d s)"
  have "m \<le> length s" "m + exponent_length (drop m s) \<le> length s"
    using digit_run_length [of s] fraction_length_le [of "drop d s"] exponent_length_le [of "drop m s"]
    by (auto simp: d_def m_def)
  then show ?thesis using body hex
    by (auto simp: number_body_def Let_def d_def m_def split: if_splits)
qed

lemma letter_run_length: "letter_run letters k s \<le> length s"
  by (induction letters k s rule: letter_run.induct) auto

lemma number_suffix_length: "number_suffix s \<le> length s"
proof -
  let ?ul = "letter_run {CHR ''l'', CHR ''L''} 2 (drop 1 s)"
    and ?lu = "letter_run {CHR ''u'', CHR ''U''} 1 (drop (letter_run {CHR ''l'', CHR ''L''} 2 s) s)"
  have "?ul \<le> length s - 1" "?lu \<le> length s - letter_run {CHR ''l'', CHR ''L''} 2 s"
    "letter_run {CHR ''l'', CHR ''L''} 2 s \<le> length s" "letter_run {CHR ''u'', CHR ''U''} 1 s \<le> length s"
    "letter_run {CHR ''f'', CHR ''F''} 1 s \<le> length s"
    using letter_run_length [of _ _ "drop _ s"] letter_run_length [of _ _ s] by (metis length_drop)+
  moreover have "?ul = 0" if "s = []" using that by simp
  ultimately show ?thesis by (cases s) (auto simp: number_suffix_def Let_def)
qed

lemma lex_number_length: "lex_number s = Some n \<Longrightarrow> 0 < n \<and> n \<le> length s"
  using number_body_length [of s] number_suffix_length [of "drop (the (number_body s)) s"]
  by (auto simp: lex_number_def)

lemma lex_string_length: "lex_string s = Some n \<Longrightarrow> 0 < n \<and> n \<le> length s"
  using string_end_length [of "tl s"] starts_with_length [of "[CHR 0x22]" s]
  by (cases s) (auto simp: lex_string_def split: if_splits)

lemma match_token_length: "match_token s = Some (kind, n) \<Longrightarrow> 0 < n \<and> n \<le> length s"
proof -
  assume m: "match_token s = Some (kind, n)"
  have white: "lex_white s = Some n \<Longrightarrow> 0 < n \<and> n \<le> length s"
    using length_takeWhile_le [of is_white s] by (auto simp: lex_white_def Let_def split: if_splits)
  have block: "lex_block_comment s = Some n \<Longrightarrow> 0 < n \<and> n \<le> length s"
    using comment_end_length [of "drop 2 s"] starts_with_length [of "''/*''" s]
    by (auto simp: lex_block_comment_def split: if_splits)
  have line: "lex_line_comment s = Some n \<Longrightarrow> 0 < n \<and> n \<le> length s"
    using length_takeWhile_le [of "\<lambda>c. code c \<noteq> 10" "drop 2 s"] starts_with_length [of "''//''" s]
    by (auto simp: lex_line_comment_def split: if_splits)
  have ident: "lex_identifier s = Some n \<Longrightarrow> 0 < n \<and> n \<le> length s"
    using length_takeWhile_le [of is_name_char s]
    by (cases s) (auto simp: lex_identifier_def is_name_char_def split: if_splits)
  from m show ?thesis
    unfolding match_token_def first_alternative.simps
    by (auto simp del: lex_number_length split: option.splits
        dest: white block line ident lex_char_length lex_number_length lex_string_length lex_operator_length)
qed

text \<open>The tokens of a text that starts on a line, and the end of the file.\<close>

function tokenize_from :: "nat \<Rightarrow> string \<Rightarrow> lex_error + token list" where
  "tokenize_from line s =
     (if s = [] then Inr [(''EOF'', [], line)]
      else case match_token s of
          None \<Rightarrow> Inl (Unexpected_character (hd s) line)
        | Some (kind, n) \<Rightarrow>
            if is_skipped kind then tokenize_from (line + newlines (take n s)) (drop n s)
            else bind_result (classify kind (take n s)) (\<lambda>(kind, text).
              bind_result (tokenize_from line (drop n s)) (\<lambda>tokens. Inr ((kind, text, line) # tokens))))"
  by pat_completeness auto
termination
proof (relation "measure (length \<circ> snd)", goal_cases)
  case (2 line s kn kind n)
  then show ?case using match_token_length [of s kind n] by auto
next
  case (3 line s kn kind n)
  then show ?case using match_token_length [of s kind n] by auto
qed simp

declare tokenize_from.simps [simp del]

definition tokenize :: "string \<Rightarrow> lex_error + token list" where
  "tokenize source = tokenize_from 1 source"

end
