(* ===== verification/Lexer_Correct.thy ===== *)
theory Lexer_Correct
  imports Lexer
begin

text \<open>
  The tokens of a source cover it: between them lie white space and comments, an operator is the longest that fits,
  and lines are counted right where no literal runs over the end of a line.
\<close>

subsection \<open>Operators\<close>

lemma operators_before_prefixes:
  "sorted_wrt (\<lambda>a b. \<not> (starts_with (snd a) (snd b) \<and> length (snd a) < length (snd b))) operators"
  by code_simp

lemma starts_with_shorter:
  assumes "starts_with p s" "starts_with q s" "length p \<le> length q"
  shows "starts_with p q"
  using assms by (metis min.absorb1 starts_with_def take_take)

lemma first_operator_longest:
  assumes "lex_operator s = Some (kind, n)" "(kind', op') \<in> set operators" "starts_with op' s"
  shows "length op' \<le> n"
proof (rule ccontr)
  assume long: "\<not> length op' \<le> n"
  from assms(1) obtain i where i: "i < length operators" "fst (operators ! i) = kind" "n = length (snd (operators ! i))"
    "starts_with (snd (operators ! i)) s" "\<forall>j < i. \<not> starts_with (snd (operators ! j)) s"
    unfolding lex_operator_def by (auto simp: find_Some_iff case_prod_unfold) (metis fst_conv snd_conv)
  from assms(2) obtain j where j: "j < length operators" "operators ! j = (kind', op')" by (metis in_set_conv_nth)
  have "i < j"
  proof (rule ccontr)
    assume "\<not> i < j"
    with long i(3) j(2) have "j < i" by (metis linorder_neqE_nat order_refl snd_conv)
    with i(5) j(2) assms(3) show False by auto
  qed
  with operators_before_prefixes j i(3) long
  have "\<not> starts_with (snd (operators ! i)) op'" unfolding sorted_wrt_iff_nth_less by force
  then show False using starts_with_shorter [OF i(4) assms(3)] long i(3) by simp
qed

subsection \<open>Pieces\<close>

text \<open>The pieces a source is cut into, each the match at its place.\<close>

definition matched_pieces :: "string \<Rightarrow> (string \<times> string) list \<Rightarrow> bool" where
  "matched_pieces s ps =
     (concat (map snd ps) = s \<and>
      (\<forall>i < length ps. match_token (concat (map snd (drop i ps))) = Some (fst (ps ! i), length (snd (ps ! i)))))"

definition kept_pieces :: "(string \<times> string) list \<Rightarrow> (string \<times> string) list" where
  "kept_pieces ps = filter (\<lambda>(kind, s). \<not> is_skipped kind) ps"

definition skipped_newlines :: "(string \<times> string) list \<Rightarrow> nat" where
  "skipped_newlines ps = newlines (concat (map snd (filter (\<lambda>(kind, s). is_skipped kind) ps)))"

text \<open>The line of each piece that is kept, when the newlines of the pieces in front of it are counted.\<close>

fun kept_lines :: "nat \<Rightarrow> (string \<times> string) list \<Rightarrow> nat list" where
  "kept_lines line [] = []"
| "kept_lines line ((kind, s) # ps) =
     (if is_skipped kind then kept_lines (line + newlines s) ps else line # kept_lines (line + newlines s) ps)"

definition one_line_tokens :: "(string \<times> string) list \<Rightarrow> bool" where
  "one_line_tokens ps = list_all (\<lambda>(kind, s). newlines s = 0) (kept_pieces ps)"

lemma newlines_append [simp]: "newlines (a @ b) = newlines a + newlines b"
  by (simp add: newlines_def)

lemma newlines_Nil [simp]: "newlines [] = 0"
  by (simp add: newlines_def)

lemma matched_pieces_Cons:
  assumes "match_token s = Some (kind, n)" "matched_pieces (drop n s) ps"
  shows "matched_pieces s ((kind, take n s) # ps)"
proof -
  have n: "n \<le> length s" using match_token_length [OF assms(1)] by simp
  have "match_token (concat (map snd (drop i ((kind, take n s) # ps)))) =
      Some (fst (((kind, take n s) # ps) ! i), length (snd (((kind, take n s) # ps) ! i)))"
    if "i < length ((kind, take n s) # ps)" for i
    using assms that n by (cases i) (auto simp: matched_pieces_def)
  then show ?thesis using assms(2) by (simp add: matched_pieces_def)
qed

lemma tokenize_from_pieces:
  assumes "tokenize_from line s = Inr tokens"
  shows "\<exists>ps ts. matched_pieces s ps \<and> tokens = ts @ [(''EOF'', [], line + skipped_newlines ps)] \<and>
    map (\<lambda>(kind, t, l). Inr (kind, t)) ts = map (\<lambda>(kind, t). classify kind t) (kept_pieces ps) \<and>
    (one_line_tokens ps \<longrightarrow> map (\<lambda>(kind, t, l). l) ts = kept_lines line ps)"
  using assms
proof (induction line s arbitrary: tokens rule: tokenize_from.induct)
  case (1 line s)
  show ?case
  proof (cases "s = []")
    case True
    then show ?thesis using "1.prems"
      by (intro exI [of _ "[]"]) (simp add: tokenize_from.simps matched_pieces_def kept_pieces_def skipped_newlines_def)
  next
    case False
    then obtain kind n where m: "match_token s = Some (kind, n)"
      using "1.prems" by (cases "match_token s") (auto simp: tokenize_from.simps [of line s])
    show ?thesis
    proof (cases "is_skipped kind")
      case True
      then have rest: "tokenize_from (line + newlines (take n s)) (drop n s) = Inr tokens"
        using "1.prems" False m by (simp add: tokenize_from.simps [of line s])
      from "1.IH"(1) [OF False m refl True rest] obtain ps ts where p: "matched_pieces (drop n s) ps"
        "tokens = ts @ [(''EOF'', [], line + newlines (take n s) + skipped_newlines ps)]"
        "map (\<lambda>(kind, t, l). Inr (kind, t)) ts = map (\<lambda>(kind, t). classify kind t) (kept_pieces ps)"
        "one_line_tokens ps \<longrightarrow> map (\<lambda>(kind, t, l). l) ts = kept_lines (line + newlines (take n s)) ps" by blast
      then show ?thesis using True matched_pieces_Cons [OF m p(1)]
        by (intro exI [of _ "(kind, take n s) # ps"] exI [of _ ts])
          (simp add: kept_pieces_def skipped_newlines_def one_line_tokens_def ac_simps)
    next
      case kept: False
      then obtain kt ts1 where c: "classify kind (take n s) = Inr kt" and rest: "tokenize_from line (drop n s) = Inr ts1"
        and t: "tokens = (fst kt, snd kt, line) # ts1"
        using "1.prems" False m by (auto simp: tokenize_from.simps [of line s] bind_result_Inr)
      obtain k t' where kt: "kt = (k, t')" by (cases kt)
      from "1.IH"(2) [OF False m refl kept rest] obtain ps ts where p: "matched_pieces (drop n s) ps"
        "ts1 = ts @ [(''EOF'', [], line + skipped_newlines ps)]"
        "map (\<lambda>(kind, t, l). Inr (kind, t)) ts = map (\<lambda>(kind, t). classify kind t) (kept_pieces ps)"
        "one_line_tokens ps \<longrightarrow> map (\<lambda>(kind, t, l). l) ts = kept_lines line ps" by blast
      then show ?thesis using kept c t kt matched_pieces_Cons [OF m p(1)]
        by (intro exI [of _ "(kind, take n s) # ps"] exI [of _ "(k, t', line) # ts"])
          (simp add: kept_pieces_def skipped_newlines_def one_line_tokens_def)
    qed
  qed
qed

end
