(* ===== verification/Preprocessor.thy ===== *)
theory Preprocessor
  imports Lexer
begin

text \<open>
  The preprocessor \<^verbatim>\<open>cc/preprocessor.py\<close>: macro tables, expansion of macros in tokens, and the pass over the lines of a
  source.  A call that recurses takes the number of Python stack frames that are left for such calls; none left is
  \<open>Recursion_limit\<close>.
\<close>

datatype pp_error =
    Lexical lex_error
  | Unterminated_arguments string nat
  | Wrong_argument_count string nat nat nat
  | Missing_parameter string
  | Too_many_rounds
  | Recursion_limit
  | Malformed_parameter string string nat
  | Duplicate_parameter string string nat
  | Stray_hash string nat
  | Endif_without_ifndef nat
  | Else_without_ifndef nat
  | Malformed_ifndef string nat
  | Malformed_include string nat
  | Include_not_found string nat
  | Circular_include string nat
  | Include_unreadable string nat
  | Malformed_define string nat
  | Unterminated_ifndef string nat

type_synonym macro = "string list \<times> token list"

definition lexical :: "lex_error + 'a \<Rightarrow> pp_error + 'a" where
  "lexical = map_sum Lexical id"

definition tokens_of :: "string \<Rightarrow> pp_error + token list" where
  "tokens_of s = map_sum Lexical butlast (tokenize s)"

subsection \<open>Arguments\<close>

text \<open>
  The arguments of an invocation from behind its opening parenthesis, and the tokens behind the closing one.
\<close>

fun collect_arguments ::
    "string \<Rightarrow> nat \<Rightarrow> nat \<Rightarrow> token list list \<Rightarrow> token list \<Rightarrow> token list \<Rightarrow> pp_error + token list list \<times> token list" where
  "collect_arguments name line depth arguments current [] = Inl (Unterminated_arguments name line)"
| "collect_arguments name line depth arguments current (t # tokens) =
     (let kind = fst t in
      if kind = ''EOF'' then Inl (Unterminated_arguments name line)
      else if kind = ''LPAREN'' then collect_arguments name line (Suc depth) arguments (current @ [t]) tokens
      else if kind = ''RPAREN''
      then (if depth = 1 then Inr (if arguments \<noteq> [] \<or> current \<noteq> [] then arguments @ [current] else arguments, tokens)
            else collect_arguments name line (depth - 1) arguments (current @ [t]) tokens)
      else if kind = ''COMMA'' \<and> depth = 1 then collect_arguments name line depth (arguments @ [current]) [] tokens
      else collect_arguments name line depth arguments (current @ [t]) tokens)"

lemma collect_arguments_shorter:
  "collect_arguments name line depth arguments current tokens = Inr (args, rest) \<Longrightarrow> length rest < length tokens"
  by (induction name line depth arguments current tokens rule: collect_arguments.induct)
    (auto simp: Let_def split: if_splits)

fun escape :: "string \<Rightarrow> string" where
  "escape [] = []"
| "escape (c # s) = (if code c = 92 \<or> c = CHR 0x22 then [CHR 0x5C, c] else [c]) @ escape s"

fun spaced :: "string list \<Rightarrow> string" where
  "spaced [] = []"
| "spaced [s] = s"
| "spaced (s # t # ss) = s @ [CHR '' ''] @ spaced (t # ss)"

definition stringify_argument :: "token list \<Rightarrow> string" where
  "stringify_argument tokens = [CHR 0x22] @ escape (spaced (map (fst \<circ> snd) tokens)) @ [CHR 0x22]"

text \<open>
  One token of a body, with the argument that \<open>expand\<close> returns for a parameter.  Repeated uses of a parameter read
  the same expansion.
\<close>

definition substitute_token ::
    "(token list \<Rightarrow> pp_error + token list) \<Rightarrow> nat \<Rightarrow> (string \<times> token list) list \<Rightarrow> token \<Rightarrow> pp_error + token list" where
  "substitute_token expand line bindings t =
     (let (kind, s, l) = t in
      if kind = ''STRINGIFY''
      then (case map_of bindings s of
          None \<Rightarrow> Inl (Missing_parameter s)
        | Some argument \<Rightarrow> Inr [(''STRING'', stringify_argument argument, line)])
      else case (if kind = ''IDENT'' then map_of bindings s else None) of
          Some argument \<Rightarrow> map_sum id (map (\<lambda>(k, s, l). (k, s, line))) (expand argument)
        | None \<Rightarrow> Inr [(kind, s, line)])"

definition expand_function_macro ::
    "(token list \<Rightarrow> pp_error + token list) \<Rightarrow> string \<Rightarrow> macro \<Rightarrow> token list list \<Rightarrow> nat \<Rightarrow> pp_error + token list" where
  "expand_function_macro expand name m arguments line =
     (let (params, body) = m in
      if length arguments \<noteq> length params then Inl (Wrong_argument_count name (length params) (length arguments) line)
      else map_sum id concat (map_result (substitute_token expand line (zip params arguments)) body))"

subsection \<open>Expansion\<close>

definition restamp :: "nat \<Rightarrow> token list \<Rightarrow> token list" where
  "restamp line tokens = map (\<lambda>(kind, s, l). (kind, s, line)) tokens"

lemma bind_result_cong [fundef_cong]:
  "m = m' \<Longrightarrow> (\<And>x. m' = Inr x \<Longrightarrow> f x = f' x) \<Longrightarrow> bind_result m f = bind_result m' f'"
  by (cases m) auto

definition emit_tokens :: "token list \<Rightarrow> bool \<Rightarrow> pp_error + token list \<times> bool \<Rightarrow> pp_error + token list \<times> bool" where
  "emit_tokens tokens flag r = bind_result r (\<lambda>(result, changed). Inr (tokens @ result, flag \<or> changed))"

text \<open>One pass over the tokens; the flag says that something was expanded.\<close>

function expand_round ::
    "(token list \<Rightarrow> pp_error + token list) \<Rightarrow> (string \<times> string) list \<Rightarrow> (string \<times> macro) list \<Rightarrow> token list \<Rightarrow>
     pp_error + token list \<times> bool" where
  "expand_round expand defines macros [] = Inr ([], False)"
| "expand_round expand defines macros ((kind, s, line) # tokens) =
     (if kind = ''IDENT'' \<and> map_of macros s \<noteq> None
      then (if tokens \<noteq> [] \<and> fst (hd tokens) = ''LPAREN''
        then bind_result (collect_arguments s (snd (snd (hd tokens))) 1 [] [] (tl tokens)) (\<lambda>(arguments, behind).
          bind_result (expand_function_macro expand s (the (map_of macros s)) arguments line) (\<lambda>expanded.
            emit_tokens expanded True (expand_round expand defines macros behind)))
        else emit_tokens [(kind, s, line)] False (expand_round expand defines macros tokens))
      else if kind = ''IDENT'' \<and> map_of defines s \<noteq> None
      then bind_result (tokens_of (the (map_of defines s))) (\<lambda>expanded.
        emit_tokens (restamp line expanded) True (expand_round expand defines macros tokens))
      else emit_tokens [(kind, s, line)] False (expand_round expand defines macros tokens))"
  by pat_completeness auto
termination
proof (relation "measure (\<lambda>(_, _, _, tokens). length tokens)", goal_cases)
  case (2 f ds ms kind s line tokens x arguments behind expanded)
  from 2(3) have "collect_arguments s (snd (snd (hd tokens))) 1 [] [] (tl tokens) = Inr (arguments, behind)"
    using 2(4) by simp
  from collect_arguments_shorter [OF this] show ?case by simp
qed auto

fun apply_rounds ::
    "(token list \<Rightarrow> pp_error + token list) \<Rightarrow> (string \<times> string) list \<Rightarrow> (string \<times> macro) list \<Rightarrow> nat \<Rightarrow> token list \<Rightarrow>
     pp_error + token list" where
  "apply_rounds expand defines macros 0 tokens = Inl Too_many_rounds"
| "apply_rounds expand defines macros (Suc n) tokens =
     bind_result (expand_round expand defines macros tokens) (\<lambda>(result, changed).
       if changed then apply_rounds expand defines macros n result else Inr result)"

definition max_rounds :: nat where
  "max_rounds = 16"

fun apply_defines ::
    "nat \<Rightarrow> (string \<times> string) list \<Rightarrow> (string \<times> macro) list \<Rightarrow> token list \<Rightarrow> pp_error + token list" where
  "apply_defines 0 defines macros tokens = Inl Recursion_limit"
| "apply_defines (Suc frames) defines macros tokens =
     (if defines = [] \<and> macros = [] then Inr tokens
      else apply_rounds (apply_defines frames defines macros) defines macros max_rounds tokens)"

subsection \<open>Definitions of macros\<close>

fun split_commas :: "string \<Rightarrow> string \<Rightarrow> string list" where
  "split_commas current [] = [current]"
| "split_commas current (c # s) = (if c = CHR '','' then current # split_commas [] s else split_commas (current @ [c]) s)"

fun check_parameters :: "string \<Rightarrow> nat \<Rightarrow> string list \<Rightarrow> string list \<Rightarrow> pp_error + unit" where
  "check_parameters name line seen [] = Inr ()"
| "check_parameters name line seen (p # ps) =
     require (is_identifier p) (Malformed_parameter name p line)
       (require (p \<notin> set seen) (Duplicate_parameter name p line) (check_parameters name line (p # seen) ps))"

text \<open>The tokens of a body, with \<open>STRINGIFY\<close> for a parameter behind \<open>#\<close>.\<close>

function body_tokens :: "string \<Rightarrow> nat \<Rightarrow> string list \<Rightarrow> string \<Rightarrow> pp_error + token list" where
  "body_tokens name line params s =
     (let prefix = takeWhile (\<lambda>c. c \<noteq> CHR ''#'') s; rest = dropWhile (\<lambda>c. c \<noteq> CHR ''#'') s in
      if rest = [] then tokens_of prefix
      else let after = lstrip (tl rest); identifier = takeWhile is_name_char after in
        if after \<noteq> [] \<and> is_name_start (hd after) \<and> identifier \<in> set params
        then bind_result (tokens_of prefix) (\<lambda>tokens.
          bind_result (body_tokens name line params (drop (length identifier) after)) (\<lambda>more.
            Inr (tokens @ (''STRINGIFY'', identifier, line) # more)))
        else Inl (Stray_hash name line))"
  by pat_completeness auto
termination
proof (relation "measure (\<lambda>(_, _, _, s). length s)", goal_cases)
  case (2 name line params s prefix rest after ident tokens)
  have "length after \<le> length (tl rest)" unfolding 2(4) by (rule length_lstrip)
  moreover have "length rest \<le> length s" unfolding 2(2) by (rule length_dropWhile_le)
  ultimately show ?case using 2(3) by (cases rest) auto
qed simp

declare body_tokens.simps [simp del]

definition parse_function_define :: "string \<Rightarrow> nat \<Rightarrow> string \<Rightarrow> string \<Rightarrow> pp_error + macro" where
  "parse_function_define name line params_text body_text =
     (let params = (if strip params_text = [] then [] else map strip (split_commas [] params_text)) in
      bind_result (check_parameters name line [] params) (\<lambda>_.
        bind_result (body_tokens name line params body_text) (\<lambda>body. Inr (params, body))))"

text \<open>\<open>FUNCTION_DEFINE_PATTERN\<close>: name, parameters and body.\<close>

definition match_function_define :: "string \<Rightarrow> (string \<times> string \<times> string) option" where
  "match_function_define s =
     (let after = lstrip s; name = takeWhile is_name_char after; rest = dropWhile is_name_char after in
      if name \<noteq> [] \<and> is_name_start (hd name) \<and> starts_with ''('' rest
      then let params = takeWhile (\<lambda>c. c \<noteq> CHR '')'') (tl rest); behind = dropWhile (\<lambda>c. c \<noteq> CHR '')'') (tl rest) in
        if behind = [] then None else Some (name, params, strip (tl behind))
      else None)"

text \<open>\<open>INCLUDE_PATTERN\<close>: the name between quotes or angle brackets.\<close>

definition delimited :: "char \<Rightarrow> string \<Rightarrow> string option" where
  "delimited close s =
     (let name = takeWhile (\<lambda>c. c \<noteq> close) s; behind = dropWhile (\<lambda>c. c \<noteq> close) s in
      if name \<noteq> [] \<and> behind \<noteq> [] \<and> lstrip (tl behind) = [] then Some name else None)"

definition match_include :: "string \<Rightarrow> string option" where
  "match_include s =
     (case lstrip s of
        [] \<Rightarrow> None
      | c # rest \<Rightarrow>
          if c = CHR 0x22 then delimited (CHR 0x22) rest else if c = CHR ''<'' then delimited (CHR ''>'') rest else None)"

subsection \<open>Lines\<close>

fun has_substring :: "string \<Rightarrow> string \<Rightarrow> bool" where
  "has_substring p [] = (p = [])"
| "has_substring p (c # s) = (starts_with p (c # s) \<or> has_substring p s)"

definition rstrip_breaks :: "string \<Rightarrow> string" where
  "rstrip_breaks s = rev (dropWhile (\<lambda>c. code c \<in> {10, 13}) (rev s))"

fun join_line :: "string \<Rightarrow> nat \<Rightarrow> string list \<Rightarrow> string \<times> nat \<times> string list" where
  "join_line current joined [] = (current, joined, [])"
| "join_line current joined (l # ls) =
     (let stripped = rstrip_breaks current in
      if stripped \<noteq> [] \<and> code (last stripped) = 92 then join_line (butlast stripped @ l) (Suc joined) ls
      else (current, joined, l # ls))"

lemma join_line_shorter: "join_line current joined ls = (c, j, rest) \<Longrightarrow> length rest \<le> length ls"
  by (induction current joined ls rule: join_line.induct) (auto simp: Let_def split: if_splits)

function splice_lines :: "string list \<Rightarrow> string list" where
  "splice_lines [] = []"
| "splice_lines (l # ls) =
     (let (current, joined, rest) = join_line l 0 ls in current # replicate joined [CHR 0x0A] @ splice_lines rest)"
  by pat_completeness auto
termination
proof (relation "measure length", goal_cases)
  case (2 l ls x current y joined rest)
  then show ?case using join_line_shorter [of l 0 ls current joined rest] by simp
qed simp

definition splice_line_continuations :: "string \<Rightarrow> string" where
  "splice_line_continuations source =
     (if \<not> has_substring [CHR 0x5C, CHR 0x0A] source \<and> \<not> has_substring [CHR 0x5C, CHR 0x0D, CHR 0x0A] source then source
      else concat (splice_lines (splitlines_keepends source)))"

definition builtin_defines :: "nat \<Rightarrow> (string \<times> string) list" where
  "builtin_defines bits =
     [(''__INT16_TYPE__'', ''signed short''), (''__INT32_TYPE__'', ''signed int''), (''__INT64_TYPE__'', ''signed long long''),
      (''__INT8_TYPE__'', ''signed char''), (''__PTRDIFF_TYPE__'', ''int''), (''__SIZE_TYPE__'', ''unsigned int''),
      (''__UINT16_TYPE__'', ''unsigned short''),
      (''__UINT32_TYPE__'', if bits = 32 then ''unsigned int'' else ''unsigned long''),
      (''__UINT64_TYPE__'', ''unsigned long long''), (''__UINT8_TYPE__'', ''unsigned char''), (''__builtin_va_list'', ''int *'')]"

text \<open>The tables, the output, and the open conditionals, the innermost first: name, skipping, line.\<close>

record pp_state =
  pp_defines :: "(string \<times> string) list"
  pp_macros :: "(string \<times> macro) list"
  pp_output :: "string list"
  pp_stack :: "(string \<times> bool \<times> nat) list"

type_synonym pp_result = "string \<times> (string \<times> string) list \<times> (string \<times> macro) list"

definition any_skipping :: "(string \<times> bool \<times> nat) list \<Rightarrow> bool" where
  "any_skipping stack = list_ex (\<lambda>(name, skipping, line). skipping) stack"

definition output_line :: "string \<Rightarrow> pp_state \<Rightarrow> pp_state" where
  "output_line s st = st\<lparr>pp_output := pp_output st @ [s]\<rparr>"

definition blank_line :: "pp_state \<Rightarrow> pp_state" where
  "blank_line st = output_line [CHR 0x0A] st"

definition close_conditional :: "nat \<Rightarrow> pp_state \<Rightarrow> pp_error + pp_state" where
  "close_conditional line st =
     (case pp_stack st of
        [] \<Rightarrow> Inl (Endif_without_ifndef line)
      | _ # stack \<Rightarrow> Inr (blank_line (st\<lparr>pp_stack := stack\<rparr>)))"

definition flip_conditional :: "nat \<Rightarrow> pp_state \<Rightarrow> pp_error + pp_state" where
  "flip_conditional line st =
     (case pp_stack st of
        [] \<Rightarrow> Inl (Else_without_ifndef line)
      | (name, skipping, opened) # stack \<Rightarrow>
          Inr (blank_line (st\<lparr>pp_stack := (name, any_skipping stack \<or> \<not> skipping, opened) # stack\<rparr>)))"

definition open_conditional :: "bool \<Rightarrow> string \<Rightarrow> string \<Rightarrow> nat \<Rightarrow> pp_state \<Rightarrow> pp_error + pp_state" where
  "open_conditional negate name raw line st =
     require (is_identifier name) (Malformed_ifndef (rstrip_white raw) line)
       (let defined = (map_of (pp_defines st) name \<noteq> None \<or> map_of (pp_macros st) name \<noteq> None);
            skip = (if negate then defined else \<not> defined)
        in Inr (blank_line (st\<lparr>pp_stack := (name, any_skipping (pp_stack st) \<or> skip, line) # pp_stack st\<rparr>)))"

definition define_object :: "string \<Rightarrow> string \<Rightarrow> pp_state \<Rightarrow> pp_state" where
  "define_object name v st = blank_line (st\<lparr>pp_defines := set_item name v (pp_defines st)\<rparr>)"

text \<open>\<open>stripped\<close> is the line without its leading white space.\<close>

definition define_line :: "string \<Rightarrow> string \<Rightarrow> nat \<Rightarrow> pp_state \<Rightarrow> pp_error + pp_state" where
  "define_line stripped raw line st =
     (case match_function_define (drop 7 stripped) of
        Some (name, params_text, body_text) \<Rightarrow>
          bind_result (parse_function_define name line params_text body_text) (\<lambda>m.
            Inr (blank_line (st\<lparr>pp_macros := set_item name m (pp_macros st)\<rparr>)))
      | None \<Rightarrow>
          (let behind = lstrip (dropWhile (\<lambda>c. \<not> is_white c) stripped);
               name = takeWhile (\<lambda>c. \<not> is_white c) behind;
               v = lstrip (dropWhile (\<lambda>c. \<not> is_white c) behind)
           in if behind = [] then Inl (Malformed_define (rstrip_white raw) line)
              else if v = []
              then require (is_identifier name) (Malformed_define (rstrip_white raw) line) (Inr (define_object name [] st))
              else Inr (define_object name (rstrip_white v) st)))"

fun first_some :: "('a \<Rightarrow> 'b option) \<Rightarrow> 'a list \<Rightarrow> 'b option" where
  "first_some f [] = None"
| "first_some f (x # xs) = (case f x of Some y \<Rightarrow> Some y | None \<Rightarrow> first_some f xs)"

text \<open>
  \<open>locate directory name\<close> is the file a name leads to from a directory, if it is one; \<open>read\<close> is its text, None when it
  cannot be read; \<open>include path source\<close> preprocesses that text.
\<close>

definition include_line ::
    "(string \<Rightarrow> string \<Rightarrow> string option) \<Rightarrow> (string \<Rightarrow> string option) \<Rightarrow> (string \<Rightarrow> string \<Rightarrow> pp_error + pp_result) \<Rightarrow>
     string list \<Rightarrow> string list \<Rightarrow> string \<Rightarrow> string \<Rightarrow> nat \<Rightarrow> pp_state \<Rightarrow> pp_error + pp_state" where
  "include_line locate read include directories including stripped raw line st =
     (case match_include (drop 8 stripped) of
        None \<Rightarrow> Inl (Malformed_include (rstrip_white raw) line)
      | Some name \<Rightarrow>
          (case first_some (\<lambda>d. locate d name) directories of
             None \<Rightarrow> Inl (Include_not_found name line)
           | Some path \<Rightarrow>
               require (path \<notin> set including) (Circular_include path line)
                 (case read path of
                    None \<Rightarrow> Inl (Include_unreadable name line)
                  | Some source \<Rightarrow>
                      bind_result (include path source) (\<lambda>(included, defines, macros).
                        Inr (output_line included (st\<lparr>pp_defines := update_items (pp_defines st) defines,
                          pp_macros := update_items (pp_macros st) macros\<rparr>))))))"

definition preprocess_line ::
    "(string \<Rightarrow> string \<Rightarrow> string option) \<Rightarrow> (string \<Rightarrow> string option) \<Rightarrow> (string \<Rightarrow> string \<Rightarrow> pp_error + pp_result) \<Rightarrow>
     string list \<Rightarrow> string list \<Rightarrow> nat \<Rightarrow> string \<Rightarrow> pp_state \<Rightarrow> pp_error + pp_state" where
  "preprocess_line locate read include directories including line raw st =
     (let stripped = lstrip raw in
      if starts_with ''#endif'' stripped then close_conditional line st
      else if starts_with ''#else'' stripped then flip_conditional line st
      else if starts_with ''#ifndef'' stripped then open_conditional True (strip (drop 7 stripped)) raw line st
      else if starts_with ''#ifdef'' stripped then open_conditional False (strip (drop 6 stripped)) raw line st
      else if any_skipping (pp_stack st) then Inr (blank_line st)
      else if starts_with ''#include'' stripped then include_line locate read include directories including stripped raw line st
      else if \<not> starts_with ''#define'' stripped then Inr (output_line raw st)
      else define_line stripped raw line st)"

fun preprocess_lines :: "(nat \<Rightarrow> string \<Rightarrow> pp_state \<Rightarrow> pp_error + pp_state) \<Rightarrow> nat \<Rightarrow> string list \<Rightarrow> pp_state \<Rightarrow> pp_error + pp_state" where
  "preprocess_lines step line [] st = Inr st"
| "preprocess_lines step line (l # ls) st = bind_result (step line l st) (preprocess_lines step (Suc line) ls)"

fun preprocess ::
    "(string \<Rightarrow> string \<Rightarrow> string option) \<Rightarrow> (string \<Rightarrow> string option) \<Rightarrow> (string \<Rightarrow> string) \<Rightarrow> nat \<Rightarrow> nat \<Rightarrow> string list \<Rightarrow>
     string list \<Rightarrow> string \<Rightarrow> string \<Rightarrow> pp_error + pp_result" where
  "preprocess locate read parent bits 0 search including base source = Inl Recursion_limit"
| "preprocess locate read parent bits (Suc frames) search including base source =
     bind_result
       (preprocess_lines
          (preprocess_line locate read
             (\<lambda>path. preprocess locate read parent bits frames search (path # including) (parent path))
             (base # search) including)
          1 (splitlines_keepends (splice_line_continuations source))
          \<lparr>pp_defines = builtin_defines bits, pp_macros = [], pp_output = [], pp_stack = []\<rparr>)
       (\<lambda>st. case pp_stack st of
          (name, skipping, opened) # _ \<Rightarrow> Inl (Unterminated_ifndef name opened)
        | [] \<Rightarrow> Inr (concat (pp_output st), pp_defines st, pp_macros st))"

end
