(* ===== verification/Preprocessor_Correct.thy ===== *)
theory Preprocessor_Correct
  imports Lexer_Correct Preprocessor
begin

text \<open>
  What the preprocessor guarantees: expansion ends at tokens that hold nothing to expand, a stringified argument is one
  string token, lines keep their numbers, and including ends.
\<close>

subsection \<open>Stringified arguments\<close>

lemma string_end_escape: "string_end (escape s @ CHR 0x22 # rest) = Some (Suc (length (escape s)))"
proof (induction s)
  case (Cons c s)
  have "code (CHR 0x5C) = 92" "code (CHR 0x22) = 34" by code_simp+
  moreover have "code c \<noteq> 10" if "code c = 92 \<or> c = CHR 0x22" using that by (auto simp: code_def)
  ultimately show ?case using Cons by (auto simp: code_def)
qed simp

lemma match_quote:
  assumes "lex_string (CHR 0x22 # s) = Some n"
  shows "match_token (CHR 0x22 # s) = Some (''STRING'', n)"
proof -
  have "\<not> is_white (CHR 0x22)" "\<not> is_name_start (CHR 0x22)" "\<not> is_digit10 (CHR 0x22)" by code_simp+
  then have "lex_white (CHR 0x22 # s) = None" "lex_block_comment (CHR 0x22 # s) = None"
    "lex_line_comment (CHR 0x22 # s) = None" "lex_char (CHR 0x22 # s) = None" "lex_identifier (CHR 0x22 # s) = None"
    "lex_number (CHR 0x22 # s) = None"
    by (simp_all add: lex_white_def lex_block_comment_def lex_line_comment_def lex_char_def lex_identifier_def lex_number_def
        number_body_def digit_run_def starts_with_def Let_def)
  then show ?thesis using assms by (simp add: match_token_def)
qed

lemma tokenize_stringified:
  "tokenize (stringify_argument tokens) = Inr [(''STRING'', stringify_argument tokens, 1), (''EOF'', [], 1)]"
proof -
  define body where "body = escape (spaced (map (fst \<circ> snd) tokens))"
  have s: "stringify_argument tokens = CHR 0x22 # body @ [CHR 0x22]" by (simp add: stringify_argument_def body_def)
  have "lex_string (CHR 0x22 # body @ [CHR 0x22]) = Some (length body + 2)"
    using string_end_escape [of _ "[]"] by (simp add: lex_string_def starts_with_def body_def)
  from match_quote [OF this] have m: "match_token (CHR 0x22 # body @ [CHR 0x22]) = Some (''STRING'', length body + 2)" .
  show ?thesis unfolding tokenize_def s
    by (subst tokenize_from.simps) (simp add: m is_skipped_def classify_def tokenize_from.simps [of _ "[]"])
qed

subsection \<open>Expansion\<close>

text \<open>No object macro, and no function macro in front of a parenthesis.\<close>

fun settled :: "(string \<times> string) list \<Rightarrow> (string \<times> macro) list \<Rightarrow> token list \<Rightarrow> bool" where
  "settled ds ms [] = True"
| "settled ds ms ((kind, s, line) # tokens) =
     (\<not> (kind = ''IDENT'' \<and>
        (if map_of ms s \<noteq> None then tokens \<noteq> [] \<and> fst (hd tokens) = ''LPAREN'' else map_of ds s \<noteq> None)) \<and>
      settled ds ms tokens)"

lemma emitted_unchanged: "emit_tokens ts flag r = Inr (result, False) \<longleftrightarrow> \<not> flag \<and> (\<exists>rest. r = Inr (rest, False) \<and> result = ts @ rest)"
  by (auto simp: emit_tokens_def bind_result_Inr)

lemma unchanged_round:
  "expand_round expand ds ms tokens = Inr (result, False) \<longleftrightarrow> result = tokens \<and> settled ds ms tokens"
proof (induction expand ds ms tokens arbitrary: result rule: expand_round.induct)
  case (2 expand ds ms kind s line tokens)
  show ?case
  proof (cases "kind = ''IDENT'' \<and> map_of ms s \<noteq> None \<and> tokens \<noteq> [] \<and> fst (hd tokens) = ''LPAREN''")
    case True
    then show ?thesis by (auto simp: bind_result_Inr emitted_unchanged split: prod.splits)
  next
    case no_call: False
    show ?thesis
    proof (cases "kind = ''IDENT'' \<and> map_of ms s = None \<and> map_of ds s \<noteq> None")
      case True
      then show ?thesis by (auto simp: bind_result_Inr emitted_unchanged)
    next
      case False
      have "expand_round expand ds ms tokens = Inr (r, False) \<longleftrightarrow> r = tokens \<and> settled ds ms tokens" for r
        using "2.IH" no_call False by metis
      moreover have "expand_round expand ds ms ((kind, s, line) # tokens) =
          emit_tokens [(kind, s, line)] False (expand_round expand ds ms tokens)"
        using no_call False by auto
      ultimately show ?thesis using no_call False by (auto simp: emitted_unchanged)
    qed
  qed
qed auto

lemma rounds_settle: "apply_rounds expand ds ms n tokens = Inr result \<Longrightarrow> settled ds ms result"
proof (induction expand ds ms n tokens rule: apply_rounds.induct)
  case (2 expand ds ms n tokens)
  then obtain r changed where r: "expand_round expand ds ms tokens = Inr (r, changed)"
    "(if changed then apply_rounds expand ds ms n r else Inr r) = Inr result"
    by (auto simp: bind_result_Inr)
  show ?case
  proof (cases changed)
    case True
    then show ?thesis using r "2.IH" by auto
  next
    case False
    then show ?thesis using r unchanged_round by auto
  qed
qed simp

lemma settled_empty: "settled [] [] tokens"
  by (induction "[] :: (string \<times> string) list" "[] :: (string \<times> macro) list" tokens rule: settled.induct) auto

lemma settled_stays:
  assumes "settled ds ms tokens"
  shows "apply_defines (Suc frames) ds ms tokens = Inr tokens"
proof -
  have "expand_round expand ds ms tokens = Inr (tokens, False)" for expand
    using assms by (simp add: unchanged_round)
  then show ?thesis by (simp add: max_rounds_def numeral_eq_Suc)
qed

subsection \<open>A cycle through an argument\<close>

lemma cycle_tokens: "tokens_of ''F(A)'' =
  Inr [(''IDENT'', ''F'', 1), (''LPAREN'', ''('', 1), (''IDENT'', ''A'', 1), (''RPAREN'', '')'', 1)]"
  by code_simp

lemma cycle_exhausts_stack:
  "apply_defines frames [(''A'', ''F(A)'')] [(''F'', ([''x''], [(''IDENT'', ''x'', 1)]))] [(''IDENT'', ''A'', line)] = Inl Recursion_limit"
proof (induction frames arbitrary: line)
  case (Suc frames)
  then show ?case
    by (simp add: max_rounds_def numeral_eq_Suc cycle_tokens emit_tokens_def restamp_def expand_function_macro_def substitute_token_def)
qed simp

subsection \<open>Including ends\<close>

lemma preprocess_lines_fail:
  "preprocess_lines step line ls st = Inl e \<Longrightarrow> \<exists>n l st. step n l st = Inl e"
proof (induction step line ls st rule: preprocess_lines.induct)
  case (2 step line l ls st)
  then show ?case by (cases "step line l st") auto
qed simp

lemma bind_result_Inl: "bind_result m f = Inl e \<longleftrightarrow> m = Inl e \<or> (\<exists>x. m = Inr x \<and> f x = Inl e)"
  by (cases m) auto

lemma tokens_of_recursion: "tokens_of s \<noteq> Inl Recursion_limit"
  by (cases "tokenize s") (auto simp: tokens_of_def)

lemma body_tokens_recursion: "body_tokens name line params s \<noteq> Inl Recursion_limit"
proof (induction name line params s rule: body_tokens.induct)
  case (1 name line params s)
  define prefix rest where p: "prefix = takeWhile (\<lambda>c. c \<noteq> CHR ''#'') s" and r: "rest = dropWhile (\<lambda>c. c \<noteq> CHR ''#'') s"
  define after where a: "after = lstrip (tl rest)"
  define word where w: "word = takeWhile is_name_char after"
  have eq: "body_tokens name line params s =
    (if rest = [] then tokens_of prefix
     else if after \<noteq> [] \<and> is_name_start (hd after) \<and> word \<in> set params
     then bind_result (tokens_of prefix) (\<lambda>tokens.
       bind_result (body_tokens name line params (drop (length word) after)) (\<lambda>more.
         Inr (tokens @ (''STRINGIFY'', word, line) # more)))
     else Inl (Stray_hash name line))"
    unfolding p r a w by (subst body_tokens.simps) (simp only: Let_def)
  show ?case
  proof (cases "rest \<noteq> [] \<and> after \<noteq> [] \<and> is_name_start (hd after) \<and> word \<in> set params")
    case True
    show ?thesis
    proof (cases "tokens_of prefix")
      case (Inl e)
      then show ?thesis using True tokens_of_recursion [of prefix] by (simp add: eq)
    next
      case (Inr tokens)
      have "body_tokens name line params (drop (length word) after) \<noteq> Inl Recursion_limit"
        using "1.IH" [OF p r _ a w] True Inr by blast
      then show ?thesis using True Inr
        by (cases "body_tokens name line params (drop (length word) after)") (simp_all add: eq)
    qed
  next
    case False
    then show ?thesis using tokens_of_recursion [of prefix] by (auto simp: eq)
  qed
qed

lemma check_parameters_recursion: "check_parameters name line seen ps \<noteq> Inl Recursion_limit"
  by (induction name line seen ps rule: check_parameters.induct) (auto simp: require_def)

lemma define_line_recursion: "define_line stripped raw line st \<noteq> Inl Recursion_limit"
proof -
  have parse: "parse_function_define name line ps body \<noteq> Inl Recursion_limit" for name ps body
    using check_parameters_recursion body_tokens_recursion
    by (simp add: parse_function_define_def Let_def bind_result_Inl)
  show ?thesis
  proof (cases "match_function_define (drop 7 stripped)")
    case None
    then show ?thesis by (simp add: define_line_def Let_def require_def)
  next
    case (Some m)
    then show ?thesis using parse by (cases m) (simp add: define_line_def bind_result_Inl)
  qed
qed

lemma first_some_in: "first_some f xs = Some y \<Longrightarrow> \<exists>x \<in> set xs. f x = Some y"
  by (induction xs) (auto split: option.splits)

lemma preprocess_line_recursion:
  assumes "preprocess_line locate read include directories inc line raw st = Inl Recursion_limit"
  obtains d name path source where "locate d name = Some path" "path \<notin> set inc" "read path = Some source"
    "include path source = Inl Recursion_limit"
proof -
  have "include_line locate read include directories inc (lstrip raw) raw line st = Inl Recursion_limit"
    using assms define_line_recursion
    by (auto simp: preprocess_line_def Let_def close_conditional_def flip_conditional_def open_conditional_def require_def
        split: if_splits list.splits)
  then obtain name path source where f: "first_some (\<lambda>d. locate d name) directories = Some path" "path \<notin> set inc"
    "read path = Some source" and b: "bind_result (include path source) (\<lambda>(included, ds, ms).
      Inr (output_line included (st\<lparr>pp_defines := update_items (pp_defines st) ds,
        pp_macros := update_items (pp_macros st) ms\<rparr>))) = Inl Recursion_limit"
    unfolding include_line_def require_def by (auto split: option.splits if_splits)
  from b have "include path source = Inl Recursion_limit" by (cases "include path source") auto
  with f first_some_in [OF f(1)] that show thesis by blast
qed

lemma preprocess_frames:
  assumes "finite files" "\<And>d name path. locate d name = Some path \<Longrightarrow> path \<in> files"
    and "card (files - set inc) < frames"
  shows "preprocess locate read parent bits frames search inc base source \<noteq> Inl Recursion_limit"
  using assms(3)
proof (induction frames arbitrary: inc base source)
  case (Suc frames)
  let ?nested = "\<lambda>path. preprocess locate read parent bits frames search (path # inc) (parent path)"
  let ?step = "preprocess_line locate read ?nested (base # search) inc"
  show ?case
  proof
    assume "preprocess locate read parent bits (Suc frames) search inc base source = Inl Recursion_limit"
    then have "preprocess_lines ?step 1 (splitlines_keepends (splice_line_continuations source))
        \<lparr>pp_defines = builtin_defines bits, pp_macros = [], pp_output = [], pp_stack = []\<rparr> = Inl Recursion_limit"
      by (auto simp: bind_result_def split: sum.splits list.splits)
    from preprocess_lines_fail [OF this] obtain n l st where "?step n l st = Inl Recursion_limit" by blast
    then obtain d name path source' where path: "locate d name = Some path" "path \<notin> set inc"
      and fail: "?nested path source' = Inl Recursion_limit"
      by (rule preprocess_line_recursion)
    have "path \<in> files - set inc" using assms(2) path by blast
    then have "card (files - set (path # inc)) < card (files - set inc)"
      using assms(1) by (intro psubset_card_mono) auto
    then have "card (files - set (path # inc)) < frames" using Suc.prems by simp
    from Suc.IH [OF this] fail show False by blast
  qed
qed simp

end
