(* ===== verification/Preprocessor_Lines.thy ===== *)
theory Preprocessor_Lines
  imports Preprocessor_Correct
begin

text \<open>
  Lines keep their numbers: the output of a source without included files has as many lines as the source, because every
  directive leaves a blank line and so does every line that is spliced to the one before.
\<close>

subsection \<open>Lines of a text\<close>

definition clean :: "string \<Rightarrow> bool" where
  "clean l = list_all (\<lambda>c. \<not> is_line_break c) l"

definition line_ending :: "string \<Rightarrow> bool" where
  "line_ending b = ((\<exists>c. b = [c] \<and> code c = 10) \<or> (\<exists>c d. b = [c, d] \<and> code c = 13 \<and> code d = 10))"

definition full_line :: "string \<Rightarrow> bool" where
  "full_line s = (\<exists>l b. s = l @ b \<and> clean l \<and> line_ending b)"

text \<open>Every line of the text ends with a newline, with or without a carriage return.\<close>

definition complete_lines :: "string \<Rightarrow> bool" where
  "complete_lines source = list_all (\<lambda>(l, b). newlines b = 1) (line_pieces source)"

lemma break_codes: "code c \<in> {10, 13} \<Longrightarrow> is_line_break c"
  by (auto simp: is_line_break_def)

lemma clean_newlines: "clean l \<Longrightarrow> newlines l = 0"
  using break_codes by (auto simp: clean_def newlines_def list_all_iff filter_empty_conv)

lemma ending_newlines: "line_ending b \<Longrightarrow> newlines b = 1"
  by (auto simp: line_ending_def newlines_def)

lemma full_line_newlines: "full_line s \<Longrightarrow> newlines s = 1"
  by (auto simp: full_line_def clean_newlines ending_newlines)

lemma full_line_blank: "full_line [CHR 0x0A]"
proof -
  have "code (CHR 0x0A) = 10" by code_simp
  then show ?thesis unfolding full_line_def by (intro exI [of _ "[]"] exI [of _ "[CHR 0x0A]"]) (simp add: clean_def line_ending_def)
qed

lemma clean_span:
  assumes "clean l" "line_ending b"
  shows "takeWhile (\<lambda>c. \<not> is_line_break c) (l @ b @ rest) = l" "dropWhile (\<lambda>c. \<not> is_line_break c) (l @ b @ rest) = b @ rest"
proof -
  obtain c b' where b: "b = c # b'" "is_line_break c" using assms(2) break_codes by (auto simp: line_ending_def)
  with assms(1) show "takeWhile (\<lambda>c. \<not> is_line_break c) (l @ b @ rest) = l" "dropWhile (\<lambda>c. \<not> is_line_break c) (l @ b @ rest) = b @ rest"
    by (auto simp: clean_def list_all_iff takeWhile_append2 dropWhile_append2)
qed

lemma take_line_ending: "line_ending b \<Longrightarrow> take_break (b @ rest) = (b, rest)"
  by (auto simp: line_ending_def take_break_def)

lemma line_pieces_full:
  assumes "clean l" "line_ending b"
  shows "line_pieces (l @ b @ rest) = (l, b) # line_pieces rest"
proof -
  have "l @ b @ rest \<noteq> []" using assms(2) by (auto simp: line_ending_def)
  then show ?thesis
    by (subst line_pieces.simps) (simp only: clean_span [OF assms] take_line_ending [OF assms(2)] Let_def prod.case if_False)
qed

lemma splitlines_full:
  assumes "list_all full_line xs"
  shows "splitlines_keepends (concat xs) = xs"
  using assms
proof (induction xs)
  case Nil
  then show ?case by (simp add: splitlines_keepends_def line_pieces.simps)
next
  case (Cons x xs)
  then obtain l b where x: "x = l @ b" "clean l" "line_ending b" by (auto simp: full_line_def)
  with Cons line_pieces_full [OF x(2,3), of "concat xs"] show ?case by (simp add: splitlines_keepends_def)
qed

lemma take_break_ending:
  assumes "take_break s = (b, rest)" "newlines b = 1"
  shows "line_ending b"
  using assms by (auto simp: take_break_def line_ending_def newlines_def split: list.splits if_splits)

lemma pieces_full:
  assumes "complete_lines source"
  shows "list_all full_line (splitlines_keepends source)"
  using assms
proof (induction source rule: line_pieces.induct)
  case (1 s)
  show ?case
  proof (cases "s = []")
    case True
    then show ?thesis by (simp add: splitlines_keepends_def line_pieces.simps)
  next
    case False
    obtain b rest where t: "take_break (dropWhile (\<lambda>c. \<not> is_line_break c) s) = (b, rest)" by fastforce
    have eq: "line_pieces s = (takeWhile (\<lambda>c. \<not> is_line_break c) s, b) # line_pieces rest"
      using False t by (subst line_pieces.simps) simp
    then have "newlines b = 1" "complete_lines rest" using "1.prems" by (simp_all add: complete_lines_def)
    moreover have "clean (takeWhile (\<lambda>c. \<not> is_line_break c) s)"
      by (auto simp: clean_def list_all_iff dest: set_takeWhileD)
    moreover have "list_all full_line (splitlines_keepends rest)"
      using "1.IH" [OF False t [symmetric] refl] \<open>complete_lines rest\<close> by simp
    ultimately show ?thesis
      using eq take_break_ending [OF t] unfolding splitlines_keepends_def full_line_def by auto
  qed
qed

subsection \<open>Splicing\<close>

lemma rstrip_full:
  assumes "clean l" "line_ending b"
  shows "rstrip_breaks (l @ b) = l"
proof -
  have "dropWhile (\<lambda>c. code c \<in> {10, 13}) (rev b @ rev l) = dropWhile (\<lambda>c. code c \<in> {10, 13}) (rev l)"
    using assms(2) by (auto simp: line_ending_def)
  moreover have "dropWhile (\<lambda>c. code c \<in> {10, 13}) (rev l) = rev l"
  proof (cases "rev l")
    case (Cons c cs)
    then have "c \<in> set l" by (metis list.set_intros(1) set_rev)
    then have "code c \<notin> {10, 13}" using assms(1) break_codes by (auto simp: clean_def list_all_iff)
    then show ?thesis by (simp add: Cons)
  qed simp
  ultimately show ?thesis by (simp add: rstrip_breaks_def)
qed

lemma join_full:
  assumes "full_line current" "list_all full_line ls" "join_line current joined ls = (c, j, rest)"
  shows "full_line c \<and> list_all full_line rest \<and> j + length rest = joined + length ls"
  using assms
proof (induction current joined ls rule: join_line.induct)
  case (2 current joined l ls)
  obtain m b where m: "current = m @ b" "clean m" "line_ending b" using "2.prems"(1) by (auto simp: full_line_def)
  have strip: "rstrip_breaks current = m" using rstrip_full [OF m(2,3)] m(1) by simp
  show ?case
  proof (cases "m \<noteq> [] \<and> code (last m) = 92")
    case True
    obtain l' b' where l: "l = l' @ b'" "clean l'" "line_ending b'" using "2.prems"(2) by (auto simp: full_line_def)
    have "clean (butlast m)" using m(2) by (auto simp: clean_def list_all_iff dest: in_set_butlastD)
    then have "full_line (butlast m @ l)"
      using l unfolding full_line_def by (intro exI [of _ "butlast m @ l'"] exI [of _ b']) (simp add: clean_def)
    moreover have "join_line (butlast m @ l) (Suc joined) ls = (c, j, rest)"
      using "2.prems"(3) True strip by simp
    ultimately show ?thesis using "2.IH" [OF strip [symmetric]] True "2.prems"(2) by simp
  next
    case False
    then show ?thesis using "2.prems" strip by auto
  qed
qed simp

lemma splice_full:
  assumes "list_all full_line ls"
  shows "list_all full_line (splice_lines ls) \<and> length (splice_lines ls) = length ls"
  using assms
proof (induction ls rule: splice_lines.induct)
  case (2 l ls)
  obtain c j rest where join: "join_line l 0 ls = (c, j, rest)" by (cases "join_line l 0 ls")
  from join_full [OF _ _ join] "2.prems"
  have full: "full_line c" "list_all full_line rest" and len: "j + length rest = length ls" by auto
  have "list_all full_line (splice_lines rest) \<and> length (splice_lines rest) = length rest"
    using "2.IH" [OF join [symmetric] refl refl full(2)] by simp
  then show ?case using full len join full_line_blank by (auto simp: list_all_iff)
qed simp

lemma spliced_lines:
  assumes "complete_lines source"
  shows "list_all full_line (splitlines_keepends (splice_line_continuations source)) \<and>
    length (splitlines_keepends (splice_line_continuations source)) = newlines source"
proof -
  let ?ls = "splitlines_keepends source"
  have full: "list_all full_line ?ls" by (rule pieces_full [OF assms])
  have count: "newlines (concat xs) = length xs" if "list_all full_line xs" for xs
    using that by (induction xs) (auto simp: full_line_newlines)
  have n: "newlines source = length ?ls" using count [OF full] by (simp add: splitlines_keepends_concat)
  from splice_full [OF full] have "splitlines_keepends (concat (splice_lines ?ls)) = splice_lines ?ls"
    by (intro splitlines_full) simp
  with splice_full [OF full] full n show ?thesis by (simp add: splice_line_continuations_def)
qed

subsection \<open>The pass over the lines\<close>

lemma line_output:
  assumes "preprocess_line (\<lambda>_ _. None) read include directories inc line raw st = Inr st'" "full_line raw"
  shows "\<exists>s. pp_output st' = pp_output st @ [s] \<and> newlines s = 1"
proof -
  have blank: "newlines [CHR 0x0A] = 1" using full_line_newlines [OF full_line_blank] .
  have no_file: "first_some (\<lambda>d. None) ds = None" for ds :: "string list" by (induction ds) auto
  show ?thesis
  proof (cases "pp_output st' = pp_output st @ [[CHR 0x0A]]")
    case True
    then show ?thesis using blank by blast
  next
    case other: False
    have "pp_output st' = pp_output st @ [raw]"
    proof (rule ccontr)
      assume "pp_output st' \<noteq> pp_output st @ [raw]"
      with other assms(1) show False
        by (auto simp: preprocess_line_def Let_def close_conditional_def flip_conditional_def open_conditional_def
            require_Inr blank_line_def output_line_def include_line_def no_file define_line_def define_object_def bind_result_Inr
            split: if_splits list.splits option.splits)
    qed
    then show ?thesis using full_line_newlines [OF assms(2)] by blast
  qed
qed

lemma lines_output:
  assumes "preprocess_lines (preprocess_line (\<lambda>_ _. None) read include directories inc) line ls st = Inr st'"
    and "list_all full_line ls"
  shows "newlines (concat (pp_output st')) = newlines (concat (pp_output st)) + length ls"
  using assms
proof (induction "preprocess_line (\<lambda>_ _. None) read include directories inc" line ls st rule: preprocess_lines.induct)
  case (2 line l ls st)
  then obtain st1 where one: "preprocess_line (\<lambda>_ _. None) read include directories inc line l st = Inr st1"
    and rest: "preprocess_lines (preprocess_line (\<lambda>_ _. None) read include directories inc) (Suc line) ls st1 = Inr st'"
    by (auto simp: bind_result_Inr)
  from line_output [OF one] "2.prems"(2) obtain s where "pp_output st1 = pp_output st @ [s]" "newlines s = 1" by auto
  with "2.hyps" [OF one rest] "2.prems"(2) show ?case by simp
qed simp

lemma preprocess_keeps_lines:
  assumes "preprocess (\<lambda>_ _. None) read parent bits frames search inc base source = Inr (out, ds, ms)"
    and "complete_lines source"
  shows "newlines out = newlines source"
proof -
  obtain n where "frames = Suc n" using assms(1) by (cases frames) auto
  with assms(1) obtain st where
    lines: "preprocess_lines (preprocess_line (\<lambda>_ _. None) read (\<lambda>path. preprocess (\<lambda>_ _. None) read parent bits n search (path # inc) (parent path))
        (base # search) inc) 1 (splitlines_keepends (splice_line_continuations source))
        \<lparr>pp_defines = builtin_defines bits, pp_macros = [], pp_output = [], pp_stack = []\<rparr> = Inr st"
    and closing: "(case pp_stack st of (name, skipping, opened) # _ \<Rightarrow> Inl (Unterminated_ifndef name opened)
        | [] \<Rightarrow> Inr (concat (pp_output st), pp_defines st, pp_macros st)) = Inr (out, ds, ms)"
    by (auto simp: bind_result_Inr)
  from closing have "out = concat (pp_output st)" by (cases "pp_stack st") auto
  then show ?thesis using lines_output [OF lines] spliced_lines [OF assms(2)] by simp
qed

end
