(* ===== verification/Front_End.thy ===== *)
theory Front_End
  imports Preprocessor_Lines
begin

text \<open>
  The properties of the tokenizer and the preprocessor, and the sources they accept and do not handle.
\<close>

definition lines_of :: "string list \<Rightarrow> string" where
  "lines_of ls = concat (map (\<lambda>l. l @ [CHR 0x0A]) ls)"

subsection \<open>Tokens\<close>

text \<open>
  C17. The tokenizer cuts the whole source into matches of its pattern, each at the place where the one before ends; what is
  neither white space nor a comment becomes a token, in order, and the last token is the end of the file.  Where no
  token runs over a line, each token has the number of the line it starts on.
\<close>

theorem tokenize_covers:
  assumes "tokenize source = Inr tokens"
  shows "\<exists>ps ts. matched_pieces source ps \<and> tokens = ts @ [(''EOF'', [], 1 + skipped_newlines ps)] \<and>
    map (\<lambda>(kind, t, l). Inr (kind, t)) ts = map (\<lambda>(kind, t). classify kind t) (kept_pieces ps) \<and>
    (one_line_tokens ps \<longrightarrow> map (\<lambda>(kind, t, l). l) ts = kept_lines 1 ps)"
  by (rule tokenize_from_pieces) (use assms in \<open>simp add: tokenize_def\<close>)

theorem tokenize_covers_witness:
  "\<exists>ps ts. matched_pieces (lines_of [''int x; // y'', ''x>>=0x1FuL;'']) ps \<and>
    [(''INT'', ''int'', 1), (''IDENT'', ''x'', 1), (''SEMI'', '';'', 1), (''IDENT'', ''x'', 2), (''SHR_ASSIGN'', ''>>='', 2),
      (''NUMBER'', ''0x1F'', 2), (''SEMI'', '';'', 2), (''EOF'', [], 3)] = ts @ [(''EOF'', [], 1 + skipped_newlines ps)] \<and>
    map (\<lambda>(kind, t, l). Inr (kind, t)) ts = map (\<lambda>(kind, t). classify kind t) (kept_pieces ps) \<and>
    (one_line_tokens ps \<longrightarrow> map (\<lambda>(kind, t, l). l) ts = kept_lines 1 ps)"
  by (rule tokenize_covers) code_simp

text \<open>
  The operator that is found is the longest one the text starts with, although the pattern lists its alternatives
  in no order of length.
\<close>

theorem operator_longest:
  assumes "lex_operator s = Some (kind, n)" "(kind', op') \<in> set operators" "starts_with op' s"
  shows "length op' \<le> n"
  by (rule first_operator_longest [OF assms])

theorem operator_longest_witness: "length ''>>'' \<le> (3 :: nat)"
proof (rule operator_longest)
  show "lex_operator ''>>=1'' = Some (''SHR_ASSIGN'', 3)" by code_simp
  show "(''SHR'', ''>>'') \<in> set operators" by (simp add: operators_def)
  show "starts_with ''>>'' ''>>=1''" by (simp add: starts_with_def)
qed

text \<open>
  A string literal may run over the end of a line, and the newlines inside it are not counted: the tokens behind it carry
  the number of an earlier line.
\<close>

theorem string_newline_not_counted:
  "tokenize (CHR 0x22 # lines_of [''a''] @ [CHR 0x22, CHR 0x0A] @ ''x'') =
     Inr [(''STRING'', CHR 0x22 # lines_of [''a''] @ [CHR 0x22], 1), (''IDENT'', ''x'', 2), (''EOF'', [], 2)]"
  by code_simp

text \<open>A literal beyond the range of doubles is converted to an infinity, which has no integer part.\<close>

theorem large_literal_raises: "tokenize ''1e400'' = Inl Float_infinite"
  by code_simp

subsection \<open>Macros\<close>

text \<open>
  C21. Stringification quotes: whatever the argument, the literal it makes is read back as one string token, itself.
\<close>

theorem stringified_is_one_token:
  "tokenize (stringify_argument tokens) = Inr [(''STRING'', stringify_argument tokens, 1), (''EOF'', [], 1)]"
  by (rule tokenize_stringified)

text \<open>
  C18. Tokens that expansion returns hold no object macro and no function macro in front of a parenthesis, and expanding
  them again changes nothing.
\<close>

theorem expansion_settles:
  assumes "apply_defines frames defs macros tokens = Inr result"
  shows "settled defs macros result \<and> apply_defines (Suc n) defs macros result = Inr result"
proof -
  obtain k where k: "frames = Suc k" using assms by (cases frames) auto
  have "settled defs macros result"
  proof (cases "defs = [] \<and> macros = []")
    case True
    then show ?thesis by (simp add: settled_empty)
  next
    case False
    then have "apply_rounds (apply_defines k defs macros) defs macros max_rounds tokens = Inr result"
      using assms k by auto
    then show ?thesis by (rule rounds_settle)
  qed
  then show ?thesis by (simp only: settled_stays simp_thms)
qed

theorem expansion_settles_witness:
  "settled [(''A'', ''F(1)'')] [(''F'', ([''x''], [(''IDENT'', ''x'', 1), (''PLUS'', ''+'', 1), (''IDENT'', ''x'', 1)]))]
     [(''NUMBER'', ''1'', 7), (''PLUS'', ''+'', 7), (''NUMBER'', ''1'', 7)] \<and>
   apply_defines 1 [(''A'', ''F(1)'')] [(''F'', ([''x''], [(''IDENT'', ''x'', 1), (''PLUS'', ''+'', 1), (''IDENT'', ''x'', 1)]))]
     [(''NUMBER'', ''1'', 7), (''PLUS'', ''+'', 7), (''NUMBER'', ''1'', 7)] =
     Inr [(''NUMBER'', ''1'', 7), (''PLUS'', ''+'', 7), (''NUMBER'', ''1'', 7)]"
proof -
  have "apply_defines 3 [(''A'', ''F(1)'')]
      [(''F'', ([''x''], [(''IDENT'', ''x'', 1), (''PLUS'', ''+'', 1), (''IDENT'', ''x'', 1)]))] [(''IDENT'', ''A'', 7)] =
      Inr [(''NUMBER'', ''1'', 7), (''PLUS'', ''+'', 7), (''NUMBER'', ''1'', 7)]"
    by code_simp
  from expansion_settles [OF this, of 0] show ?thesis by simp
qed

text \<open>
  C40. The limit on rounds does not guard against a cycle that goes through an argument: with \<^verbatim>\<open>#define A F(A)\<close> and
  \<^verbatim>\<open>#define F(x) x\<close>, expanding \<^verbatim>\<open>A\<close> expands the argument \<^verbatim>\<open>A\<close> of \<^verbatim>\<open>F\<close> in a call of its own, at every depth, until no stack
  is left.
\<close>

theorem argument_cycle_exhausts_stack:
  "apply_defines frames [(''A'', ''F(A)'')] [(''F'', ([''x''], [(''IDENT'', ''x'', 1)]))] [(''IDENT'', ''A'', line)] = Inl Recursion_limit"
  by (rule cycle_exhausts_stack)

subsection \<open>Lines and files\<close>

text \<open>
  C19. A source of complete lines that includes nothing is preprocessed to as many lines: directives, skipped lines and
  spliced lines leave blank ones.
\<close>

theorem preprocess_line_count:
  assumes "preprocess (\<lambda>_ _. None) read parent bits frames search opened base source = Inr (out, defs, macros)"
    and "complete_lines source"
  shows "newlines out = newlines source"
  by (rule preprocess_keeps_lines [OF assms])

definition guarded_source :: string where
  "guarded_source = lines_of [''#define A (1 + '' @ [CHR 0x5C], ''  2)'', ''#ifdef B'', ''B'', ''#else'', ''A;'', ''#endif'']"

theorem preprocess_line_count_witness:
  "newlines (lines_of [[], [], [], [], [], ''A;'', []]) = newlines guarded_source"
proof -
  have p: "\<exists>ds ms. preprocess (\<lambda>_ _. None) (\<lambda>_. None) (\<lambda>p. p) 32 1 [] [] ''.'' guarded_source =
      Inr (lines_of [[], [], [], [], [], ''A;'', []], ds, ms)"
  proof -
    have "map_sum id fst (preprocess (\<lambda>_ _. None) (\<lambda>_. None) (\<lambda>p. p) 32 1 [] [] ''.'' guarded_source) =
        Inr (lines_of [[], [], [], [], [], ''A;'', []])"
      by code_simp
    then show ?thesis
      by (cases "preprocess (\<lambda>_ _. None) (\<lambda>_. None) (\<lambda>p. p) 32 1 [] [] ''.'' guarded_source") auto
  qed
  have "complete_lines guarded_source" by code_simp
  with p preprocess_line_count show ?thesis by blast
qed

text \<open>
  C20. Including ends: with more frames than there are files that are not being included already, the preprocessor returns
  a text or one of its messages, never a recursion error.
\<close>

theorem including_ends:
  assumes "finite files" "\<And>d name path. locate d name = Some path \<Longrightarrow> path \<in> files" "card (files - set opened) < frames"
  shows "preprocess locate read parent bits frames search opened base source \<noteq> Inl Recursion_limit"
  by (rule preprocess_frames [OF assms])

theorem including_ends_witness:
  "preprocess (\<lambda>d name. if name = ''h'' then Some ''h'' else None) (\<lambda>_. Some (lines_of [''#include <h>''])) (\<lambda>p. p) 32 2 [] []
     ''.'' (lines_of [''#include <h>'']) \<noteq> Inl Recursion_limit"
  by (rule including_ends [of "{''h''}"]) (auto split: if_splits)

text \<open>
  A header guard does not work across includes: an included file starts from the predefined macros, so a header that is
  included twice is there twice.
\<close>

definition guarded_header :: string where
  "guarded_header = lines_of [''#ifndef H'', ''#define H'', ''int x;'', ''#endif'']"

theorem guarded_header_included_twice:
  "map_sum id fst (preprocess (\<lambda>d name. Some name) (\<lambda>_. Some guarded_header) (\<lambda>p. p) 32 2 [] [] ''.''
     (lines_of [''#include <h>'', ''#include <h>''])) =
   Inr (lines_of [[], [], ''int x;'', [], [], [], ''int x;'', []])"
  by code_simp

text \<open>The name of an object macro with a value is not checked, and a parameter list that is not closed is part of it.\<close>

theorem object_macro_name_unchecked:
  "define_line ''#define F(a, b'' ''#define F(a, b'' 1 \<lparr>pp_defines = [], pp_macros = [], pp_output = [], pp_stack = []\<rparr> =
     Inr \<lparr>pp_defines = [(''F(a,'', ''b'')], pp_macros = [], pp_output = [[CHR 0x0A]], pp_stack = []\<rparr>"
  by code_simp

end
