(* ===== verification/Pytext.thy ===== *)
theory Pytext
  imports Pystr Results
begin

text \<open>
  What the line rewriters use of Python's \<^verbatim>\<open>str\<close> and \<^verbatim>\<open>re\<close>: splitting, replacing, searching, and \<open>int(s, 0)\<close>.
\<close>

subsection \<open>Prefixes and suffixes\<close>

definition ends_with :: "string \<Rightarrow> string \<Rightarrow> bool" where
  "ends_with p s = starts_with (rev p) (rev s)"

definition starts_with_any :: "string list \<Rightarrow> string \<Rightarrow> bool" where
  "starts_with_any ps s = list_ex (\<lambda>p. starts_with p s) ps"

text \<open>The text after a prefix, \<open>s[len(p):]\<close> under \<open>s.startswith(p)\<close>.\<close>

definition after_prefix :: "string \<Rightarrow> string \<Rightarrow> string option" where
  "after_prefix p s = (if starts_with p s then Some (drop (length p) s) else None)"

lemma after_prefix_append: "after_prefix p s = Some r \<longleftrightarrow> s = p @ r"
  unfolding after_prefix_def starts_with_def by (auto simp: append_eq_conv_conj) (metis append_take_drop_id)

lemma after_prefix_append_self [simp]: "after_prefix p (p @ r) = Some r"
  by (simp add: after_prefix_append)

subsection \<open>The first occurrence\<close>

text \<open>\<open>s.split(sep, 1)\<close> when it has two parts; \<open>s.index(sep)\<close> is the length of the first.\<close>

fun cut_at :: "string \<Rightarrow> string \<Rightarrow> (string \<times> string) option" where
  "cut_at sep [] = (if sep = [] then Some ([], []) else None)"
| "cut_at sep (c # s) =
     (case after_prefix sep (c # s) of
        Some rest \<Rightarrow> Some ([], rest)
      | None \<Rightarrow> map_option (\<lambda>(before, rest). (c # before, rest)) (cut_at sep s))"

lemma cut_at_split: "cut_at sep s = Some (before, rest) \<Longrightarrow> s = before @ sep @ rest"
  by (induction sep s arbitrary: before rest rule: cut_at.induct)
     (auto split: option.splits if_splits simp: after_prefix_append)

lemma cut_at_shorter: "cut_at sep s = Some (before, rest) \<Longrightarrow> sep \<noteq> [] \<Longrightarrow> length rest < length s"
  by (auto dest!: cut_at_split)

definition occurs_in :: "string \<Rightarrow> string \<Rightarrow> bool" where
  "occurs_in p s = (cut_at p s \<noteq> None)"

definition before_first :: "string \<Rightarrow> string \<Rightarrow> string" where
  "before_first sep s = (case cut_at sep s of Some (before, _) \<Rightarrow> before | None \<Rightarrow> s)"

definition replace_once :: "string \<Rightarrow> string \<Rightarrow> string \<Rightarrow> string" where
  "replace_once old new s = (case cut_at old s of Some (before, rest) \<Rightarrow> before @ new @ rest | None \<Rightarrow> s)"

text \<open>\<open>s.replace(old, new)\<close> and \<open>s.split(sep)\<close>, for a separator that is not empty.\<close>

function replace_all :: "string \<Rightarrow> string \<Rightarrow> string \<Rightarrow> string" where
  "replace_all old new s =
     (if old = [] then s
      else case cut_at old s of None \<Rightarrow> s | Some (before, rest) \<Rightarrow> before @ new @ replace_all old new rest)"
  by pat_completeness auto
termination by (relation "measure (\<lambda>(_, _, s). length s)") (auto dest: cut_at_shorter)

declare replace_all.simps [simp del]

function split_on :: "string \<Rightarrow> string \<Rightarrow> string list" where
  "split_on sep s =
     (if sep = [] then [s]
      else case cut_at sep s of None \<Rightarrow> [s] | Some (before, rest) \<Rightarrow> before # split_on sep rest)"
  by pat_completeness auto
termination by (relation "measure (\<lambda>(_, s). length s)") (auto dest: cut_at_shorter)

declare split_on.simps [simp del]

subsection \<open>Words\<close>

text \<open>\<open>s.split()\<close>, and the two parts of \<open>s.split(None, 1)\<close>.\<close>

function words :: "string \<Rightarrow> string list" where
  "words s =
     (if lstrip s = [] then []
      else takeWhile (\<lambda>c. \<not> is_white c) (lstrip s) # words (dropWhile (\<lambda>c. \<not> is_white c) (lstrip s)))"
  by pat_completeness auto
termination
proof (relation "measure length", goal_cases)
  case (2 s)
  then obtain c t where s: "lstrip s = c # t" by (cases "lstrip s") auto
  then have "\<not> is_white c" by (auto simp: lstrip_def dropWhile_eq_Cons_conv)
  with s have "length (dropWhile (\<lambda>c. \<not> is_white c) (lstrip s)) \<le> length t" by (simp add: length_dropWhile_le)
  also have "\<dots> < length s" using length_lstrip [of s] s by simp
  finally show ?case by simp
qed simp

declare words.simps [simp del]

lemma words_code [code]:
  "words s =
     (let t = lstrip s in
      if t = [] then [] else takeWhile (\<lambda>c. \<not> is_white c) t # words (dropWhile (\<lambda>c. \<not> is_white c) t))"
  by (subst words.simps) (simp add: Let_def)

definition first_word :: "string \<Rightarrow> string \<times> string" where
  "first_word s = (takeWhile (\<lambda>c. \<not> is_white c) (lstrip s), lstrip (dropWhile (\<lambda>c. \<not> is_white c) (lstrip s)))"

text \<open>\<open>re.search(rf"\bw\b", s)\<close> for a word \<open>w\<close>; \<open>p\<close> is the character before \<open>s\<close>, if any.\<close>

definition at_boundary :: "string \<Rightarrow> bool" where
  "at_boundary s = (case s of [] \<Rightarrow> True | c # _ \<Rightarrow> \<not> is_word_char c)"

fun word_from :: "string \<Rightarrow> char option \<Rightarrow> string \<Rightarrow> bool" where
  "word_from w p [] = False"
| "word_from w p (c # s) =
     ((case p of None \<Rightarrow> True | Some d \<Rightarrow> \<not> is_word_char d) \<and>
        (case after_prefix w (c # s) of Some rest \<Rightarrow> at_boundary rest | None \<Rightarrow> False)
      \<or> word_from w (Some c) s)"

definition has_word :: "string \<Rightarrow> string \<Rightarrow> bool" where
  "has_word w s = word_from w None s"

subsection \<open>Numbers\<close>

text \<open>\<open>(\d+)\<close>: the digits and the text after them.\<close>

definition match_digits :: "string \<Rightarrow> (string \<times> string) option" where
  "match_digits s = (let d = takeWhile is_digit10 s in if d = [] then None else Some (d, drop (length d) s))"

lemma match_digits_split: "match_digits s = Some (d, r) \<Longrightarrow> s = d @ r"
  by (auto simp: match_digits_def Let_def split: if_splits) (metis takeWhile_eq_take append_take_drop_id)

text \<open>
  \<open>int(s, 0)\<close>; None is \<^verbatim>\<open>ValueError\<close>.  A prefix gives the base, single underscores may stand before a digit
  that is not the first, and a decimal that starts with 0 is all zeros.
\<close>

definition digit_in :: "nat \<Rightarrow> char \<Rightarrow> bool" where
  "digit_in base c = (is_hex c \<and> hex_value c < base)"

fun grouped_value :: "nat \<Rightarrow> int \<Rightarrow> string \<Rightarrow> int option" where
  "grouped_value base n [] = Some n"
| "grouped_value base n (c # s) =
     (if digit_in base c then grouped_value base (int base * n + int (hex_value c)) s
      else if c = CHR ''_'' then
        (case s of d # s' \<Rightarrow> if digit_in base d then grouped_value base (int base * n + int (hex_value d)) s' else None | [] \<Rightarrow> None)
      else None)"

definition digits_value :: "nat \<Rightarrow> string \<Rightarrow> int option" where
  "digits_value base s = (case s of c # _ \<Rightarrow> if digit_in base c then grouped_value base 0 s else None | [] \<Rightarrow> None)"

definition base_prefixes :: "(string \<times> nat) list" where
  "base_prefixes = [(''0x'', 16), (''0X'', 16), (''0o'', 8), (''0O'', 8), (''0b'', 2), (''0B'', 2)]"

definition int0_unsigned :: "string \<Rightarrow> int option" where
  "int0_unsigned s =
     (case map_of base_prefixes (take 2 s) of
        Some base \<Rightarrow>
          digits_value base (case drop 2 s of c # s' \<Rightarrow> if c = CHR ''_'' then s' else c # s' | [] \<Rightarrow> [])
      | None \<Rightarrow>
          (case digits_value 10 s of
             None \<Rightarrow> None
           | Some n \<Rightarrow> if hd s = CHR ''0'' \<and> n \<noteq> 0 then None else Some n))"

definition int0 :: "string \<Rightarrow> int option" where
  "int0 s =
     (case strip s of
        c # rest \<Rightarrow>
          if c = CHR ''-'' then map_option uminus (int0_unsigned rest)
          else if c = CHR ''+'' then int0_unsigned rest
          else int0_unsigned (c # rest)
      | [] \<Rightarrow> None)"

end
