(* ===== verification/Peephole.thy ===== *)
theory Peephole
  imports Lexer Pytext
begin

text \<open>
  The peephole passes of \<^verbatim>\<open>cc/codegen/x86/peephole.py\<close> over the emitted lines.  A pass that slides a window
  over the buffer is \<open>scan\<close> of its window function, which gets the lines before the window and the lines
  from it on; the other passes are functions of their own.
\<close>

datatype peephole_error = Substring_not_found | List_index

subsection \<open>Targets\<close>

record target =
  accumulator :: string
  base_register :: string
  bx_register :: string
  count_register :: string
  dx_register :: string
  si_register :: string
  non_acc_registers :: "string list"
  word_size :: string

definition x86_16 :: target where
  "x86_16 = \<lparr>accumulator = ''ax'', base_register = ''bp'', bx_register = ''bx'', count_register = ''cx'',
     dx_register = ''dx'', si_register = ''si'', non_acc_registers = [''bx'', ''cx'', ''dx'', ''si'', ''di'', ''bp''],
     word_size = ''word''\<rparr>"

definition x86_32 :: target where
  "x86_32 = \<lparr>accumulator = ''eax'', base_register = ''ebp'', bx_register = ''ebx'', count_register = ''ecx'',
     dx_register = ''edx'', si_register = ''esi'', non_acc_registers = [''ebx'', ''ecx'', ''edx'', ''esi'', ''edi'', ''ebp''],
     word_size = ''dword''\<rparr>"

definition jump_invert :: "(string \<times> string) list" where
  "jump_invert =
     [(''ja'', ''jbe''), (''jae'', ''jb''), (''jb'', ''jae''), (''jbe'', ''ja''), (''je'', ''jne''), (''jg'', ''jle''),
      (''jge'', ''jl''), (''jl'', ''jge''), (''jle'', ''jg''), (''jne'', ''je'')]"

definition conditional_jumps :: "string list" where
  "conditional_jumps =
     [''ja'', ''jae'', ''jb'', ''jbe'', ''jc'', ''je'', ''jg'', ''jge'', ''jl'', ''jle'', ''jnc'', ''jne'', ''jno'', ''jnp'',
      ''jns'', ''jnz'', ''jo'', ''jp'', ''js'', ''jz'']"

definition is_conditional_jump :: "string \<Rightarrow> bool" where
  "is_conditional_jump line = list_ex (\<lambda>m. starts_with (m @ '' '') line) conditional_jumps"

subsection \<open>Lines\<close>

text \<open>A line the passes write, at the indentation of the emitter.\<close>

definition instruction :: "string \<Rightarrow> string" where
  "instruction s = ''        '' @ s"

definition indent :: "string \<Rightarrow> string" where
  "indent line = takeWhile is_white line"

definition is_memory :: "string \<Rightarrow> bool" where
  "is_memory operand = (starts_with ''['' operand \<and> ends_with '']'' operand)"

text \<open>The parts of \<open>line[len("mov "):].split(", ")\<close>, when there are two of them.\<close>

definition mov_operands :: "string \<Rightarrow> (string \<times> string) option" where
  "mov_operands line =
     (case after_prefix ''mov '' line of
        None \<Rightarrow> None
      | Some operands \<Rightarrow> (case split_on '', '' operands of [d, s] \<Rightarrow> Some (d, s) | _ \<Rightarrow> None))"

text \<open>The binary operations a pass looks for between a load and a store.\<close>

definition binary_operations :: "string list" where
  "binary_operations = [''add'', ''sub'', ''and'', ''or'', ''xor'']"

definition match_acc_op :: "string \<Rightarrow> string \<Rightarrow> (string \<times> string) option" where
  "match_acc_op register line =
     (case List.find (\<lambda>operation. starts_with (operation @ '' '' @ register @ '', '') line) binary_operations of
        None \<Rightarrow> None
      | Some operation \<Rightarrow> Some (operation, drop (length (operation @ '' '' @ register @ '', '')) line))"

definition parse_byte_load :: "string \<Rightarrow> string option" where
  "parse_byte_load line =
     (case after_prefix ''mov al, '' line of
        None \<Rightarrow> None
      | Some source \<Rightarrow> if is_memory source then Some source else None)"

definition parse_load_acc :: "target \<Rightarrow> string \<Rightarrow> (string \<times> bool) option" where
  "parse_load_acc T line =
     (case after_prefix (''mov '' @ accumulator T @ '', '') line of
        None \<Rightarrow> None
      | Some source \<Rightarrow>
          if is_memory source \<or> source \<in> set (non_acc_registers T) then Some (source, is_memory source) else None)"

definition reads_acc :: "target \<Rightarrow> string \<Rightarrow> bool" where
  "reads_acc T line =
     (let acc = accumulator T in
      \<not> starts_with_any [''mov '' @ acc @ '', '', ''xor '' @ acc @ '', '' @ acc, ''pop '' @ acc, ''movzx '' @ acc @ '', ''] line
      \<and> list_ex (\<lambda>token. has_word token line) [acc, ''al'', ''ah''])"

text \<open>A function starts at a label at column zero.\<close>

definition is_alpha :: "char \<Rightarrow> bool" where
  "is_alpha c = (is_upper_char c \<or> 97 \<le> code c \<and> code c \<le> 122 \<or>
     (let k = code c in k \<in> {170, 181, 186} \<or> 192 \<le> k \<and> k \<noteq> 215 \<and> k \<noteq> 247))"

definition is_function_label :: "string \<Rightarrow> bool" where
  "is_function_label line =
     (line = strip line \<and> ends_with '':'' line \<and> \<not> starts_with ''.'' line \<and> 1 < length line \<and>
      (is_alpha (hd line) \<or> hd line = CHR ''_''))"

fun chunks_from :: "string list \<Rightarrow> string list \<Rightarrow> string list list" where
  "chunks_from chunk [] = [chunk]"
| "chunks_from chunk (line # ls) =
     (if is_function_label line \<and> chunk \<noteq> [] then chunk # chunks_from [line] ls
      else chunks_from (chunk @ [line]) ls)"

definition function_chunks :: "string list \<Rightarrow> string list list" where
  "function_chunks ls = chunks_from [] ls"

subsection \<open>Windows\<close>

text \<open>
  \<open>step done rest\<close> looks at the window at the head of \<open>rest\<close>: None moves on by one line, \<open>Some (out, rest')\<close>
  writes \<open>out\<close> and continues at \<open>rest'\<close>, which is shorter than \<open>rest\<close>.
\<close>

type_synonym window = "string list \<Rightarrow> string list \<Rightarrow> (string list \<times> string list) option"

function scan :: "window \<Rightarrow> string list \<Rightarrow> string list \<Rightarrow> string list" where
  "scan step before rest =
     (case step before rest of
        Some (out, rest') \<Rightarrow>
          if length rest' < length rest then scan step (before @ out) rest' else before @ out @ rest'
      | None \<Rightarrow> (case rest of [] \<Rightarrow> before | line # ls \<Rightarrow> scan step (before @ [line]) ls))"
  by pat_completeness auto
termination by (relation "measure (\<lambda>(_, _, rest). length rest)") auto

declare scan.simps [simp del]

subsection \<open>Jumps\<close>

definition dead_code_step :: window where
  "dead_code_step before rest =
     (case rest of
        a # b # r \<Rightarrow> if starts_with ''jmp '' (strip a) \<and> CHR '':'' \<notin> set (strip b) then Some ([], a # r) else None
      | _ \<Rightarrow> None)"

definition peephole_dead_code :: "string list \<Rightarrow> string list" where
  "peephole_dead_code ls = scan dead_code_step [] ls"

definition jump_operand :: "string \<Rightarrow> string" where
  "jump_operand line = words line ! 1"

definition refers_to :: "string \<Rightarrow> string \<Rightarrow> bool" where
  "refers_to label line = (let tokens = words line in 2 \<le> length tokens \<and> last tokens = label)"

definition double_jump_step :: window where
  "double_jump_step before rest =
     (case rest of
        a # b # c # r \<Rightarrow>
          (case words (strip a) of
             [m, label] \<Rightarrow>
               (case map_of jump_invert m of
                  None \<Rightarrow> None
                | Some opposite \<Rightarrow>
                    if starts_with ''jmp '' (strip b) \<and> strip c = label @ '':'' \<and> \<not> starts_with ''['' (jump_operand (strip b))
                    then let a' = instruction (opposite @ '' '' @ jump_operand (strip b)) in
                      Some ([], if list_ex (refers_to label) (before @ r) then a' # c # r else a' # r)
                    else None)
           | _ \<Rightarrow> None)
      | _ \<Rightarrow> None)"

definition peephole_double_jump :: "string list \<Rightarrow> string list" where
  "peephole_double_jump ls = scan double_jump_step [] ls"

definition jump_next_step :: window where
  "jump_next_step before rest =
     (case rest of
        a # b # r \<Rightarrow>
          if starts_with ''jmp '' (strip a) \<and> strip b = jump_operand (strip a) @ '':'' then Some ([], b # r) else None
      | _ \<Rightarrow> None)"

definition peephole_jump_next :: "string list \<Rightarrow> string list" where
  "peephole_jump_next ls = scan jump_next_step [] ls"

definition is_conditional_referrer :: "string \<Rightarrow> string \<Rightarrow> bool" where
  "is_conditional_referrer label line =
     (case words line of [m, t] \<Rightarrow> m \<in> set conditional_jumps \<and> t = label | _ \<Rightarrow> False)"

definition retarget_jump :: "string \<Rightarrow> string \<Rightarrow> string \<Rightarrow> string" where
  "retarget_jump label new line =
     (let (m, t) = first_word (strip line) in
      if m \<in> set (''jmp'' # conditional_jumps) \<and> t = label then replace_all label new line else line)"

text \<open>The label and the new target of a trampoline at the head of \<open>rest\<close>, behind the line \<open>previous\<close>.\<close>

definition trampoline :: "string \<Rightarrow> string list \<Rightarrow> (string \<times> string) option" where
  "trampoline previous rest =
     (case rest of
        l # n # _ \<Rightarrow>
          if starts_with ''jmp '' (strip previous) \<and> ends_with '':'' (strip l) \<and> CHR '' '' \<notin> set (strip l) \<and>
             starts_with ''jmp '' (strip n) \<and> butlast (strip l) \<noteq> drop 4 (strip n)
          then Some (butlast (strip l), drop 4 (strip n)) else None
      | _ \<Rightarrow> None)"

function forward_from :: "string list \<Rightarrow> string list \<Rightarrow> string list" where
  "forward_from before rest =
     (if length rest < 2 then before @ rest
      else case trampoline (last before) rest of
        None \<Rightarrow> forward_from (before @ [hd rest]) (tl rest)
      | Some (label, new) \<Rightarrow>
          if starts_with ''['' new \<and> list_ex (is_conditional_referrer label) (before @ drop 2 rest)
          then forward_from (before @ [hd rest]) (tl rest)
          else let before' = map (retarget_jump label new) before; rest' = map (retarget_jump label new) (drop 2 rest) in
            if 2 \<le> length before then forward_from (butlast before') (last before' # rest') else forward_from before' rest')"
  by pat_completeness auto
termination by (relation "measure (\<lambda>(before, rest). length before + 2 * length rest)") auto

declare forward_from.simps [simp del]

definition peephole_label_forwarding :: "string list \<Rightarrow> string list" where
  "peephole_label_forwarding ls = (case ls of [] \<Rightarrow> [] | l # rest \<Rightarrow> forward_from [l] rest)"

end
