(* ===== verification/Peephole_Passes.thy ===== *)
theory Peephole_Passes
  imports Peephole
begin

text \<open>
  The passes of \<^verbatim>\<open>cc/codegen/x86/peephole.py\<close> on loads, stores, arithmetic and flags, and \<open>run\<close>, which applies
  every pass in order.
\<close>

subsection \<open>Arithmetic on memory and registers\<close>

definition operand_width :: "target \<Rightarrow> bool \<Rightarrow> string" where
  "operand_width T memory = (if memory then word_size T @ '' '' else [])"

text \<open>\<open>operation place, operand\<close>, with the short forms of a step by one.\<close>

definition fused_operation :: "string \<Rightarrow> string \<Rightarrow> string \<Rightarrow> string" where
  "fused_operation operation place operand =
     (if operation \<in> {''inc'', ''dec''} then operation @ '' '' @ place
      else if operand = ''1'' \<and> operation \<in> {''add'', ''sub''} then (if operation = ''add'' then ''inc '' else ''dec '') @ place
      else operation @ '' '' @ place @ '', '' @ operand)"

definition counted_step :: "target \<Rightarrow> window" where
  "counted_step T before rest =
     (case rest of
        a # b # c # d # r \<Rightarrow>
          (case (parse_load_acc T (strip a), after_prefix (''mov '' @ count_register T @ '', '') (strip b)) of
             (Some (source, memory), Some immediate) \<Rightarrow>
               let add_acc = ''add '' @ accumulator T @ '', '' @ count_register T;
                   sub_acc = ''sub '' @ accumulator T @ '', '' @ count_register T;
                   operation = (if strip c = add_acc then ''add'' else ''sub'') in
               if \<not> ends_with '']'' (strip b) \<and> strip c \<in> {add_acc, sub_acc} \<and>
                  strip d = ''mov '' @ source @ '', '' @ accumulator T
               then Some ([], instruction (fused_operation operation (operand_width T memory @ source) immediate) # r)
               else None
           | _ \<Rightarrow> None)
      | _ \<Rightarrow> None)"

text \<open>The operation on the accumulator in the middle of a triple, with its operand (empty for the unary ones).\<close>

definition acc_operation :: "target \<Rightarrow> string \<Rightarrow> (string \<times> string) option" where
  "acc_operation T line =
     (if line = ''inc '' @ accumulator T then Some (''inc'', [])
      else if line = ''dec '' @ accumulator T then Some (''dec'', [])
      else match_acc_op (accumulator T) line)"

definition triple_step :: "target \<Rightarrow> window" where
  "triple_step T before rest =
     (case rest of
        a # b # c # r \<Rightarrow>
          (case (parse_load_acc T (strip a), acc_operation T (strip b)) of
             (Some (source, memory), Some (operation, operand)) \<Rightarrow>
               if \<not> starts_with ''['' operand \<and> strip c = ''mov '' @ source @ '', '' @ accumulator T
               then Some ([], instruction (fused_operation operation (operand_width T memory @ source) operand) # r)
               else None
           | _ \<Rightarrow> None)
      | _ \<Rightarrow> None)"

definition both_memory_step :: "target \<Rightarrow> window" where
  "both_memory_step T before rest =
     (case rest of
        a # b # c # r \<Rightarrow>
          (case (parse_load_acc T (strip a), match_acc_op (accumulator T) (strip b)) of
             (Some (source, True), Some (operation, rhs)) \<Rightarrow>
               if is_memory rhs \<and> rhs \<noteq> source \<and> strip c = ''mov '' @ source @ '', '' @ accumulator T
               then Some ([], instruction (''mov '' @ accumulator T @ '', '' @ rhs) #
                 instruction (operation @ '' '' @ source @ '', '' @ accumulator T) # r)
               else None
           | _ \<Rightarrow> None)
      | _ \<Rightarrow> None)"

definition peephole_memory_arithmetic :: "target \<Rightarrow> string list \<Rightarrow> string list" where
  "peephole_memory_arithmetic T ls =
     scan (both_memory_step T) [] (scan (triple_step T) [] (scan (counted_step T) [] ls))"

definition fits_imm8 :: "string \<Rightarrow> bool" where
  "fits_imm8 literal = (case int0 literal of None \<Rightarrow> False | Some n \<Rightarrow> -128 \<le> n \<and> n \<le> 255)"

definition byte_operation :: "string \<Rightarrow> (string \<times> string) option" where
  "byte_operation line =
     (if line = ''inc ax'' then Some (''inc'', []) else if line = ''dec ax'' then Some (''dec'', [])
      else case match_acc_op ''ax'' line of
        None \<Rightarrow> None
      | Some (operation, operand) \<Rightarrow>
          if starts_with ''['' operand \<or> operation \<in> {''and'', ''or'', ''xor''} \<and> \<not> fits_imm8 operand then None
          else Some (operation, operand))"

definition byte_quad_step :: window where
  "byte_quad_step before rest =
     (case rest of
        a # b # c # d # r \<Rightarrow>
          (case (parse_byte_load (strip a), byte_operation (strip c)) of
             (Some source, Some (operation, operand)) \<Rightarrow>
               if strip b = ''xor ah, ah'' \<and> strip d = ''mov '' @ source @ '', al''
               then Some ([], instruction (fused_operation operation (''byte '' @ source) operand) # r)
               else None
           | _ \<Rightarrow> None)
      | _ \<Rightarrow> None)"

definition byte_quint_step :: window where
  "byte_quint_step before rest =
     (case rest of
        a # b # c # d # e # r \<Rightarrow>
          (case (parse_byte_load (strip a), after_prefix ''mov cx, '' (strip c)) of
             (Some source, Some immediate) \<Rightarrow>
               if strip b = ''xor ah, ah'' \<and> \<not> ends_with '']'' (strip c) \<and> strip d \<in> {''add ax, cx'', ''sub ax, cx''} \<and>
                  strip e = ''mov '' @ source @ '', al''
               then Some ([], instruction (fused_operation (if strip d = ''add ax, cx'' then ''add'' else ''sub'')
                 (''byte '' @ source) immediate) # r)
               else None
           | _ \<Rightarrow> None)
      | _ \<Rightarrow> None)"

definition peephole_memory_arithmetic_byte :: "string list \<Rightarrow> string list" where
  "peephole_memory_arithmetic_byte ls = scan byte_quint_step [] (scan byte_quad_step [] ls)"

definition dx_to_memory_step :: "target \<Rightarrow> window" where
  "dx_to_memory_step T before rest =
     (case rest of
        a # b # r \<Rightarrow>
          if strip a = ''mov '' @ accumulator T @ '', '' @ dx_register T \<and> starts_with ''mov ['' (strip b) \<and>
             ends_with ('', '' @ accumulator T) (strip b)
          then Some ([], (take (length b - length ('', '' @ accumulator T)) b @ '','' @ dx_register T) # r) else None
      | _ \<Rightarrow> None)"

definition peephole_dx_to_memory :: "target \<Rightarrow> string list \<Rightarrow> string list" where
  "peephole_dx_to_memory T ls = scan (dx_to_memory_step T) [] ls"

subsection \<open>Reloads\<close>

definition pushes_and_pops :: "string list \<Rightarrow> string list" where
  "pushes_and_pops registers = [operation @ register. operation \<leftarrow> [''push '', ''pop ''], register \<leftarrow> registers]"

definition keeps_reload :: "string \<Rightarrow> bool" where
  "keeps_reload line =
     (starts_with_any [''cmp '', ''test ''] line \<or> is_conditional_jump line \<or>
      line \<in> set (pushes_and_pops [''bx'', ''cx'', ''dx'', ''si'', ''di'', ''bp'']))"

fun drop_reload :: "string list \<Rightarrow> string list \<Rightarrow> string list option" where
  "drop_reload reloads [] = None"
| "drop_reload reloads (line # ls) =
     (if strip line \<in> set reloads then Some ls
      else if keeps_reload (strip line) then map_option (Cons line) (drop_reload reloads ls) else None)"

text \<open>The place written by \<open>mov [address], acc\<close>.\<close>

definition stored_address :: "string \<Rightarrow> string" where
  "stored_address line = before_first '']'' (drop 4 line) @ '']''"

definition reload_lines :: "target \<Rightarrow> string \<Rightarrow> string list" where
  "reload_lines T address = [''mov '' @ accumulator T @ '', '' @ address, ''mov al, '' @ address]"

definition store_reload_step :: "target \<Rightarrow> window" where
  "store_reload_step T before rest =
     (case rest of
        l # ls \<Rightarrow>
          if ls \<noteq> [] \<and> starts_with ''mov ['' (strip l) \<and>
             (ends_with (''], '' @ accumulator T) (strip l) \<or> ends_with ''], al'' (strip l))
          then map_option (\<lambda>ls'. ([], l # ls'))
            (drop_reload (reload_lines T (stored_address (strip l))) ls)
          else None
      | _ \<Rightarrow> None)"

definition peephole_store_reload :: "target \<Rightarrow> string list \<Rightarrow> string list" where
  "peephole_store_reload T ls = scan (store_reload_step T) [] ls"

definition reload_clobbers :: "string \<Rightarrow> string list" where
  "reload_clobbers register =
     [''add '' @ register, ''call '', ''CCREL_CALL '', ''CCREL_JMP '', ''int '', ''lodsb'', ''lodsw'', ''movsb'', ''movsw'',
      ''pop '' @ register, ''rep '', ''sub '' @ register, ''xchg'', ''xor '' @ register]"

definition source_clobber_operations :: "string list" where
  "source_clobber_operations =
     [''add '', ''and '', ''dec '', ''div '', ''idiv '', ''imul '', ''inc '', ''mov '', ''mul '', ''neg '', ''not '', ''or '',
      ''rcl '', ''rcr '', ''rol '', ''ror '', ''sal '', ''sar '', ''shl '', ''shr '', ''sub '', ''xor '']"

text \<open>Does the operation write the register that holds the value, or the register the value came from?\<close>

definition clobbers_value :: "string \<Rightarrow> string \<Rightarrow> string \<Rightarrow> bool" where
  "clobbers_value register value line =
     (case List.find (\<lambda>operation. starts_with operation line) source_clobber_operations of
        None \<Rightarrow> False
      | Some operation \<Rightarrow>
          let written = strip (before_first '','' (drop (length operation) line)) in
          written = register \<or>
          CHR ''['' \<notin> set value \<and>
            (written = value \<or> length written = 2 \<and> written ! 1 \<in> set ''lh'' \<and> hd written = hd value))"

text \<open>One line: is it kept, and the source whose value the register holds after it.\<close>

definition reload_line :: "string \<Rightarrow> string option \<Rightarrow> string \<Rightarrow> bool \<times> string option" where
  "reload_line register value line =
     (case after_prefix (''mov '' @ register @ '', '') line of
        Some source \<Rightarrow> if value = Some source then (False, value) else (True, Some source)
      | None \<Rightarrow>
          if ends_with '':'' line \<or> starts_with_any (reload_clobbers register) line then (True, None)
          else case value of
            None \<Rightarrow> (True, None)
          | Some v \<Rightarrow> (True, if clobbers_value register v line then None else value))"

fun dedup_from :: "string \<Rightarrow> string option \<Rightarrow> string list \<Rightarrow> string list" where
  "dedup_from register value [] = []"
| "dedup_from register value (line # ls) =
     (let (keep, value') = reload_line register value (strip line) in
      if keep then line # dedup_from register value' ls else dedup_from register value' ls)"

definition dedup_register_reloads :: "string \<Rightarrow> string list \<Rightarrow> string list" where
  "dedup_register_reloads register ls = dedup_from register None ls"

definition peephole_redundant_bx :: "target \<Rightarrow> string list \<Rightarrow> string list" where
  "peephole_redundant_bx T ls = dedup_register_reloads (si_register T) (dedup_register_reloads (bx_register T) ls)"

end
