(* ===== verification/Peephole_Frames.thy ===== *)
theory Peephole_Frames
  imports Peephole
begin

text \<open>
  The passes of \<^verbatim>\<open>cc/codegen/x86/peephole.py\<close> on the slots of a stack frame, \<open>[bp-N]\<close>, and on the labels
  \<open>_l_NAME\<close> of locals in memory.
\<close>

subsection \<open>Slots\<close>

definition slot_prefix :: "target \<Rightarrow> string" where
  "slot_prefix T = ''['' @ base_register T @ ''-''"

text \<open>\<open>\[bp-(\d+)\]\<close>, and \<open>\[bp-(\d+)(?:[+\-][^\]]+)?\]\<close>: the digits and the text after the match.\<close>

definition bare_slot :: "target \<Rightarrow> string \<Rightarrow> (string \<times> string) option" where
  "bare_slot T s =
     Option.bind (after_prefix (slot_prefix T) s) (\<lambda>r.
     Option.bind (match_digits r) (\<lambda>(digits, rest).
       map_option (\<lambda>rest'. (digits, rest')) (after_prefix '']'' rest)))"

definition slot_end :: "string \<Rightarrow> string option" where
  "slot_end s =
     (case s of
        [] \<Rightarrow> None
      | c # rest \<Rightarrow>
          if c = CHR '']'' then Some rest
          else if c = CHR ''+'' \<or> c = CHR ''-'' then
            (case cut_at '']'' rest of
               Some (offset, rest') \<Rightarrow> if offset = [] then None else Some rest'
             | None \<Rightarrow> None)
          else None)"

definition slot_at :: "target \<Rightarrow> string \<Rightarrow> (string \<times> string) option" where
  "slot_at T s =
     Option.bind (after_prefix (slot_prefix T) s) (\<lambda>r.
     Option.bind (match_digits r) (\<lambda>(digits, rest). map_option (\<lambda>rest'. (digits, rest')) (slot_end rest)))"

lemma slot_end_split: "slot_end s = Some rest \<Longrightarrow> \<exists>p. s = p @ rest"
proof (cases s)
  case (Cons c t)
  assume "slot_end s = Some rest"
  with Cons have "t = rest \<or> (\<exists>offset. t = offset @ '']'' @ rest)"
    by (auto simp: slot_end_def split: if_splits option.splits dest!: cut_at_split)
  with Cons have "s = [c] @ rest \<or> (\<exists>offset. s = (c # offset @ '']'') @ rest)" by auto
  then show ?thesis by blast
qed (simp add: slot_end_def)

lemma slot_at_split: "slot_at T s = Some (digits, rest) \<Longrightarrow> \<exists>p. s = slot_prefix T @ p @ rest"
  unfolding slot_at_def
  by (auto simp: bind_eq_Some_conv after_prefix_append dest!: match_digits_split slot_end_split)

lemma slot_at_shorter: "slot_at T s = Some (digits, rest) \<Longrightarrow> length rest < length s"
  by (auto dest!: slot_at_split simp: slot_prefix_def)

text \<open>\<open>mov (?:byte |word |dword )?\<close> and its like: the text after an optional width.\<close>

definition skip_width :: "string \<Rightarrow> string" where
  "skip_width s = (case List.find (\<lambda>w. starts_with w s) [''byte '', ''word '', ''dword ''] of None \<Rightarrow> s | Some w \<Rightarrow> drop (length w) s)"

text \<open>A place that may be stepped over: \<open>N\<close> and the text after the slot, for a statement that starts with \<open>p\<close>.\<close>

definition statement_slot :: "target \<Rightarrow> string \<Rightarrow> string \<Rightarrow> (string \<times> string) option" where
  "statement_slot T p s = Option.bind (after_prefix p s) (\<lambda>r. slot_at T (skip_width r))"

text \<open>\<open>^\s*mov byte \[bp-(\d+)\], (\d+)\s*$\<close>.\<close>

definition byte_constant_store :: "target \<Rightarrow> string \<Rightarrow> (string \<times> string) option" where
  "byte_constant_store T line =
     Option.bind (after_prefix ''mov byte '' (lstrip line)) (\<lambda>r.
     Option.bind (bare_slot T r) (\<lambda>(slot, rest).
     Option.bind (after_prefix '', '' rest) (\<lambda>value.
     Option.bind (match_digits value) (\<lambda>(immediate, tail).
       if lstrip tail = [] then Some (slot, immediate) else None))))"

definition decimal_text :: "string \<Rightarrow> string" where
  "decimal_text digits = show_digits (decimal_value digits)"

subsection \<open>A byte constant and its next load\<close>

text \<open>\<open>^\s*\.?\w+:\s*$\<close>.\<close>

definition is_label_line :: "string \<Rightarrow> bool" where
  "is_label_line line =
     (let s = lstrip line; t = (case after_prefix ''.'' s of Some r \<Rightarrow> r | None \<Rightarrow> s) in
      takeWhile is_word_char t \<noteq> [] \<and>
      (case after_prefix '':'' (dropWhile is_word_char t) of Some r \<Rightarrow> lstrip r = [] | None \<Rightarrow> False))"

fun fold_load :: "target \<Rightarrow> string \<Rightarrow> string \<Rightarrow> string list \<Rightarrow> string list" where
  "fold_load T slot immediate [] = []"
| "fold_load T slot immediate (line # ls) =
     (let address = slot_prefix T @ slot @ '']''; candidate = strip line in
      if candidate = ''movzx '' @ accumulator T @ '', byte '' @ address
      then (indent line @ ''mov '' @ accumulator T @ '', '' @ decimal_text immediate) # ls
      else if occurs_in (address @ '','') candidate \<or> is_label_line line \<or>
        starts_with_any [''ret'', ''jmp '', ''call '', ''j''] candidate then line # ls
      else line # fold_load T slot immediate ls)"

lemma length_fold_load [simp]: "length (fold_load T slot immediate ls) = length ls"
  by (induction T slot immediate ls rule: fold_load.induct) (simp_all add: Let_def)

function fold_byte_constants :: "target \<Rightarrow> string list \<Rightarrow> string list" where
  "fold_byte_constants T [] = []"
| "fold_byte_constants T (line # ls) =
     line # fold_byte_constants T
       (case byte_constant_store T line of Some (slot, immediate) \<Rightarrow> fold_load T slot immediate ls | None \<Rightarrow> ls)"
  by pat_completeness auto
termination by (relation "measure (\<lambda>(_, ls). length ls)") (auto split: option.splits)

definition peephole_fold_byte_immediate_through_local :: "target \<Rightarrow> string list \<Rightarrow> string list" where
  "peephole_fold_byte_immediate_through_local T ls = fold_byte_constants T ls"

subsection \<open>Byte slots written once\<close>

record slot_table =
  constant_writes :: "(int \<times> nat \<times> int) list"
  total_writes :: "int \<Rightarrow> nat"
  disqualified :: "int set"

definition first_statement :: "target \<Rightarrow> string list \<Rightarrow> string \<Rightarrow> (string \<times> string) option" where
  "first_statement T operations s =
     (case List.find (\<lambda>p. statement_slot T p s \<noteq> None) operations of None \<Rightarrow> None | Some p \<Rightarrow> statement_slot T p s)"

text \<open>\<open>^\s*lea \w+, \[bp-(\d+)...\]\<close>.\<close>

definition lea_slot :: "target \<Rightarrow> string \<Rightarrow> (string \<times> string) option" where
  "lea_slot T s =
     Option.bind (after_prefix ''lea '' s) (\<lambda>r.
       if takeWhile is_word_char r = [] then None
       else Option.bind (after_prefix '', '' (dropWhile is_word_char r)) (slot_at T))"

definition disqualify :: "(string \<times> string) option \<Rightarrow> slot_table \<Rightarrow> slot_table" where
  "disqualify m table =
     (case m of None \<Rightarrow> table
      | Some (slot, _) \<Rightarrow> table\<lparr>disqualified := insert (decimal_value slot) (disqualified table)\<rparr>)"

definition other_store :: "target \<Rightarrow> string \<Rightarrow> (string \<times> string) option" where
  "other_store T s =
     (case statement_slot T ''mov '' s of
        Some (slot, rest) \<Rightarrow> if starts_with '','' rest then Some (slot, rest) else None
      | None \<Rightarrow> None)"

definition classify_line :: "target \<Rightarrow> slot_table \<Rightarrow> nat \<times> string \<Rightarrow> slot_table" where
  "classify_line T table = (\<lambda>(i, line).
     case byte_constant_store T line of
       Some (digits, immediate) \<Rightarrow>
         let slot = decimal_value digits; table' = table\<lparr>total_writes := bump (total_writes table) slot\<rparr> in
         if map_of (constant_writes table) slot \<noteq> None then table'\<lparr>disqualified := insert slot (disqualified table)\<rparr>
         else table'\<lparr>constant_writes := set_item slot (i, decimal_value immediate) (constant_writes table)\<rparr>
     | None \<Rightarrow>
         (case other_store T (lstrip line) of
            Some (digits, rest) \<Rightarrow>
              disqualify (Some (digits, rest)) (table\<lparr>total_writes := bump (total_writes table) (decimal_value digits)\<rparr>)
          | None \<Rightarrow>
              disqualify (lea_slot T (lstrip line))
                (disqualify (first_statement T [''and '', ''or '', ''xor '', ''add '', ''sub '', ''inc '', ''dec ''] (lstrip line)) table)))"

definition slot_table_of :: "target \<Rightarrow> string list \<Rightarrow> slot_table" where
  "slot_table_of T chunk =
     foldl (classify_line T) \<lparr>constant_writes = [], total_writes = (\<lambda>_. 0), disqualified = {}\<rparr> (enumerate 0 chunk)"

definition eligible_slots :: "slot_table \<Rightarrow> (int \<times> nat \<times> int) list" where
  "eligible_slots table =
     filter (\<lambda>(slot, _). slot \<notin> disqualified table \<and> total_writes table slot = 1) (constant_writes table)"

definition load_of :: "target \<Rightarrow> string \<Rightarrow> int \<times> nat \<times> int \<Rightarrow> string option" where
  "load_of T line = (\<lambda>(slot, _, immediate).
     let address = slot_prefix T @ show_digits slot @ '']'' in
     if strip line = ''movzx '' @ accumulator T @ '', byte '' @ address
     then Some (indent line @ ''mov '' @ accumulator T @ '', '' @ show_digits immediate)
     else if strip line = ''mov al, '' @ address then Some (indent line @ ''mov al, '' @ show_digits immediate)
     else None)"

definition fold_constant_load :: "target \<Rightarrow> (int \<times> nat \<times> int) list \<Rightarrow> string \<Rightarrow> string" where
  "fold_constant_load T eligible line =
     (case List.find (\<lambda>e. load_of T line e \<noteq> None) eligible of None \<Rightarrow> line | Some e \<Rightarrow> the (load_of T line e))"

definition fold_chunk :: "target \<Rightarrow> string list \<Rightarrow> string list" where
  "fold_chunk T chunk =
     (let eligible = eligible_slots (slot_table_of T chunk); stores = map (\<lambda>(_, i, _). i) eligible in
      map (\<lambda>(_, line). fold_constant_load T eligible line)
        (filter (\<lambda>(i, _). i \<notin> set stores) (enumerate 0 chunk)))"

definition peephole_fold_single_write_byte_constant_local :: "target \<Rightarrow> string list \<Rightarrow> string list" where
  "peephole_fold_single_write_byte_constant_local T ls = concat (map (fold_chunk T) (function_chunks ls))"

subsection \<open>Masks in place\<close>

definition fuse_byte_modify_step :: "target \<Rightarrow> window" where
  "fuse_byte_modify_step T before rest =
     (case rest of
        a # b # c # r \<Rightarrow>
          let address = before_first '']'' (drop 4 (strip a)) @ '']''; prefix = (\<lambda>m. m @ '' byte '' @ address @ '', '') in
          (case List.find (\<lambda>m. starts_with (prefix m) (strip b)) [''and'', ''or'', ''xor''] of
             Some operation \<Rightarrow>
               if starts_with (''mov '' @ slot_prefix T) (strip a) \<and> ends_with ''], al'' (strip a) then
                 let masked = [instruction (operation @ '' al, '' @ drop (length (prefix operation)) (strip b)),
                   instruction (''mov '' @ address @ '', al'')] in
                 if strip c = ''movzx eax, byte '' @ address then Some (masked @ [instruction ''movzx eax, al''], r)
                 else if strip c = ''mov al, '' @ address then Some (masked, r)
                 else None
               else None
           | None \<Rightarrow> None)
      | _ \<Rightarrow> None)"

definition peephole_fuse_byte_modify_in_place :: "target \<Rightarrow> string list \<Rightarrow> string list" where
  "peephole_fuse_byte_modify_in_place T ls = scan (fuse_byte_modify_step T) [] ls"

subsection \<open>Slots that are never read\<close>

text \<open>\<open>slot_pattern.finditer(s)\<close>.\<close>

function slots_in :: "target \<Rightarrow> string \<Rightarrow> int list" where
  "slots_in T [] = []"
| "slots_in T (c # s) =
     (case slot_at T (c # s) of
        Some (digits, rest) \<Rightarrow> decimal_value digits # slots_in T rest
      | None \<Rightarrow> slots_in T s)"
  by pat_completeness auto
termination by (relation "measure (\<lambda>(_, s). length s)") (auto dest: slot_at_shorter)

text \<open>\<open>^mov (?:byte |word |dword )?\[bp-(\d+)\],\<close>.\<close>

definition slot_store :: "target \<Rightarrow> string \<Rightarrow> (string \<times> string) option" where
  "slot_store T s =
     Option.bind (after_prefix ''mov '' s) (\<lambda>r.
     Option.bind (bare_slot T (skip_width r)) (\<lambda>(digits, rest).
       if starts_with '','' rest then Some (digits, rest) else None))"

definition slots_read :: "target \<Rightarrow> string \<Rightarrow> int list" where
  "slots_read T line =
     (case slot_store T (strip line) of Some (_, rest) \<Rightarrow> slots_in T rest | None \<Rightarrow> slots_in T (strip line))"

definition live_line :: "target \<Rightarrow> int list \<Rightarrow> string \<Rightarrow> bool" where
  "live_line T read_slots line =
     (case slot_store T (strip line) of Some (digits, _) \<Rightarrow> decimal_value digits \<in> set read_slots | None \<Rightarrow> True)"

definition drop_dead_slots :: "target \<Rightarrow> string list \<Rightarrow> string list" where
  "drop_dead_slots T chunk = filter (live_line T (concat (map (slots_read T) chunk))) chunk"

definition peephole_dead_temp_slots :: "target \<Rightarrow> string list \<Rightarrow> string list" where
  "peephole_dead_temp_slots T ls = concat (map (drop_dead_slots T) (function_chunks ls))"

subsection \<open>Locals in memory\<close>

definition extract_local_label :: "string \<Rightarrow> string option" where
  "extract_local_label line =
     (case cut_at ''[_l_'' line of
        Some (_, r) \<Rightarrow>
          if starts_with ''mov'' line \<and> occurs_in ''], '' line then Some (''_l_'' @ takeWhile is_word_char r)
          else if starts_with ''_l_'' line \<and> ends_with '': dw 0'' line then Some (before_first '':'' line)
          else None
      | None \<Rightarrow> if starts_with ''_l_'' line \<and> ends_with '': dw 0'' line then Some (before_first '':'' line) else None)"

function local_labels :: "string \<Rightarrow> peephole_error + string list" where
  "local_labels s =
     (case cut_at ''[_l_'' s of
        None \<Rightarrow> Inr []
      | Some (_, r) \<Rightarrow>
          (case cut_at '']'' (dropWhile is_word_char r) of
             None \<Rightarrow> Inl Substring_not_found
           | Some (_, rest) \<Rightarrow>
               bind_result (local_labels rest) (\<lambda>labels. Inr ((''_l_'' @ takeWhile is_word_char r) # labels))))"
  by pat_completeness auto
termination
proof (relation "measure length", goal_cases)
  case (2 s p before r q after rest)
  then have "s = before @ ''[_l_'' @ r" "dropWhile is_word_char r = after @ '']'' @ rest"
    by (auto dest!: cut_at_split)
  moreover have "length (dropWhile is_word_char r) \<le> length r" by (rule length_dropWhile_le)
  ultimately show ?case by simp
qed simp

declare local_labels.simps [simp del]

definition loaded_labels :: "string \<Rightarrow> peephole_error + string list" where
  "loaded_labels line = (if extract_local_label (strip line) \<noteq> None then Inr [] else local_labels (strip line))"

definition peephole_dead_stores :: "string list \<Rightarrow> peephole_error + string list" where
  "peephole_dead_stores ls =
     bind_result (map_result loaded_labels ls) (\<lambda>loaded.
       Inr (filter (\<lambda>line. case extract_local_label (strip line) of Some label \<Rightarrow> label \<in> set (concat loaded) | None \<Rightarrow> True) ls))"

end
