(* ===== verification/Peephole_Run.thy ===== *)
theory Peephole_Run
  imports Peephole_Passes Peephole_Frames
begin

text \<open>
  The passes of \<^verbatim>\<open>cc/codegen/x86/peephole.py\<close> on registers and flags, and \<open>run\<close>, which applies every pass
  in order.
\<close>

subsection \<open>Byte output\<close>

definition full_write :: "target \<Rightarrow> string \<Rightarrow> bool" where
  "full_write T line =
     (starts_with_any [''mov '' @ accumulator T @ '', '', ''pop '' @ accumulator T, ''movzx '' @ accumulator T @ '', ''] line \<or>
      line = ''xor '' @ accumulator T @ '', '' @ accumulator T)"

definition is_full_acc_clobber :: "target \<Rightarrow> string \<Rightarrow> bool" where
  "is_full_acc_clobber T line = (full_write T line \<or> starts_with ''call '' line)"

definition reads_wider_than_al :: "target \<Rightarrow> string \<Rightarrow> bool" where
  "reads_wider_than_al T line =
     (\<not> full_write T line \<and> line \<noteq> ''xor ah, ah'' \<and> \<not> starts_with ''mov ah, '' line \<and>
      list_ex (\<lambda>token. has_word token line) (if accumulator T = ''ax'' then [''ah'', ''ax''] else [''ah'', ''ax'', ''eax'']))"

text \<open>The lines after the first match, if the walk to it meets nothing that makes it give up.\<close>

fun find_forward :: "target \<Rightarrow> (string \<Rightarrow> bool) \<Rightarrow> (string \<Rightarrow> bool) \<Rightarrow> string list \<Rightarrow> string list option" where
  "find_forward T bail matches [] = None"
| "find_forward T bail matches (line # ls) =
     (let candidate = strip line in
      if matches candidate then Some ls
      else if reads_wider_than_al T candidate \<or> bail candidate \<or> ends_with '':'' candidate \<or>
        starts_with_any [''ret'', ''jmp '', ''j'', ''int ''] candidate then None
      else find_forward T bail matches ls)"

text \<open>\<open>^\s*mov acc, (\d+)\s*$\<close>.\<close>

definition acc_immediate :: "target \<Rightarrow> string \<Rightarrow> string option" where
  "acc_immediate T line =
     Option.bind (after_prefix (''mov '' @ accumulator T @ '', '') (lstrip line)) (\<lambda>r.
     Option.bind (match_digits r) (\<lambda>(digits, tail). if lstrip tail = [] then Some digits else None))"

definition narrowed :: "target \<Rightarrow> string \<Rightarrow> string list \<Rightarrow> string" where
  "narrowed T line ls =
     (case acc_immediate T line of
        None \<Rightarrow> line
      | Some digits \<Rightarrow>
          if 255 < decimal_value digits then line
          else case find_forward T (is_full_acc_clobber T) (\<lambda>candidate. candidate = ''out dx, al'') ls of
            None \<Rightarrow> line
          | Some ls' \<Rightarrow>
              if find_forward T (\<lambda>_. False) (is_full_acc_clobber T) ls' = None then line
              else indent line @ ''mov al, '' @ decimal_text digits)"

fun peephole_narrow_acc_immediate_for_byte_out :: "target \<Rightarrow> string list \<Rightarrow> string list" where
  "peephole_narrow_acc_immediate_for_byte_out T [] = []"
| "peephole_narrow_acc_immediate_for_byte_out T (line # ls) =
     narrowed T line ls # peephole_narrow_acc_immediate_for_byte_out T ls"

subsection \<open>Loads into registers\<close>

definition constant_to_register_step :: "target \<Rightarrow> window" where
  "constant_to_register_step T before rest =
     (case rest of
        a # b # r \<Rightarrow>
          (case (after_prefix (''mov '' @ accumulator T @ '', '') (strip a), mov_operands (strip b)) of
             (Some immediate, Some (register, source)) \<Rightarrow>
               if \<not> starts_with ''['' immediate \<and> immediate \<notin> set (non_acc_registers T) \<and> source = accumulator T \<and>
                  register \<in> set (non_acc_registers T)
               then Some ([],
                 instruction (if immediate = ''0'' then ''xor '' @ register @ '', '' @ register
                   else ''mov '' @ register @ '', '' @ immediate) # r)
               else None
           | _ \<Rightarrow> None)
      | _ \<Rightarrow> None)"

definition peephole_constant_to_register :: "target \<Rightarrow> string list \<Rightarrow> string list" where
  "peephole_constant_to_register T ls = scan (constant_to_register_step T) [] ls"

text \<open>Does some line read the accumulator before it is known to be rewritten?\<close>

fun acc_consumed :: "target \<Rightarrow> string list \<Rightarrow> bool" where
  "acc_consumed T [] = False"
| "acc_consumed T (line # ls) =
     (let next_line = strip line in
      if next_line = ''ret'' \<or> reads_acc T next_line then True
      else if next_line = [] \<or> ends_with '':'' next_line \<or> starts_with_any [''call '', ''jmp ''] next_line then False
      else acc_consumed T ls)"

text \<open>The three instructions \<open>a\<close>, \<open>b\<close>, \<open>c\<close> as two on the target register, or None; \<open>r\<close> are the lines after them.\<close>

definition register_pair :: "target \<Rightarrow> string \<Rightarrow> string \<Rightarrow> string \<Rightarrow> string list \<Rightarrow> peephole_error + (string \<times> string) option" where
  "register_pair T a b c r =
     (case (after_prefix (''mov '' @ accumulator T @ '', '') a, mov_operands c) of
        (Some source, Some (register, acc)) \<Rightarrow>
          let binary = list_ex (\<lambda>m. starts_with (m @ '' '' @ accumulator T @ '','') b) binary_operations;
              unary = b \<in> {''inc '' @ accumulator T, ''dec '' @ accumulator T};
              load = instruction (''mov '' @ register @ '', '' @ source) in
          if (binary \<or> unary) \<and> acc = accumulator T \<and> register \<in> set (non_acc_registers T) then
            if binary then
              (case cut_at '', '' b of
                 None \<Rightarrow> Inl List_index
               | Some (_, operand) \<Rightarrow>
                   if register \<in> set (words operand) \<or> acc_consumed T r then Inr None
                   else Inr (Some (load, instruction (replace_once (accumulator T @ '','') (register @ '','') b))))
            else if acc_consumed T r then Inr None
            else Inr (Some (load, instruction ((if starts_with ''inc '' b then ''inc '' else ''dec '') @ register)))
          else Inr None
      | _ \<Rightarrow> Inr None)"

function register_arithmetic_from :: "target \<Rightarrow> string list \<Rightarrow> peephole_error + string list" where
  "register_arithmetic_from T (a # b # c # r) =
     (case register_pair T (strip a) (strip b) (strip c) r of
        Inl e \<Rightarrow> Inl e
      | Inr None \<Rightarrow> bind_result (register_arithmetic_from T (b # c # r)) (\<lambda>ls. Inr (a # ls))
      | Inr (Some (x, y)) \<Rightarrow> register_arithmetic_from T (x # y # r))"
| "register_arithmetic_from T [] = Inr []"
| "register_arithmetic_from T [a] = Inr [a]"
| "register_arithmetic_from T [a, b] = Inr [a, b]"
  by pat_completeness auto
termination by (relation "measure (\<lambda>(_, ls). length ls)") auto

definition peephole_register_arithmetic :: "target \<Rightarrow> string list \<Rightarrow> peephole_error + string list" where
  "peephole_register_arithmetic T ls = register_arithmetic_from T ls"

definition is_self_move :: "string \<Rightarrow> bool" where
  "is_self_move line = (case mov_operands line of Some (d, s) \<Rightarrow> d = s | None \<Rightarrow> False)"

definition peephole_self_move :: "string list \<Rightarrow> string list" where
  "peephole_self_move ls = filter (\<lambda>line. \<not> is_self_move (strip line)) ls"

definition register_swap_step :: window where
  "register_swap_step before rest =
     (case rest of
        a # b # r \<Rightarrow>
          (case (mov_operands (strip a), mov_operands (strip b)) of
             (Some (d, s), Some (d', s')) \<Rightarrow> if d = s' \<and> s = d' then Some ([], a # r) else None
           | _ \<Rightarrow> None)
      | _ \<Rightarrow> None)"

definition peephole_redundant_register_swap :: "string list \<Rightarrow> string list" where
  "peephole_redundant_register_swap ls = scan register_swap_step [] ls"

definition index_through_memory_step :: "target \<Rightarrow> window" where
  "index_through_memory_step T before rest =
     (case rest of
        a # b # c # d # e # r \<Rightarrow>
          let acc = accumulator T; si = si_register T in
          if strip a = ''push '' @ acc \<and> strip e = ''pop '' @ acc \<and>
             starts_with (''mov '' @ si @ '', ['') (strip b) \<and> ends_with '']'' (strip b) \<and>
             starts_with (''mov '' @ acc @ '', ['') (strip c) \<and> ends_with '']'' (strip c) \<and>
             strip d = ''add '' @ si @ '', '' @ acc
          then Some ([], b # instruction (''add '' @ si @ '', '' @ drop (length (''mov '' @ acc @ '', '')) (strip c)) # r)
          else None
      | _ \<Rightarrow> None)"

definition peephole_index_through_memory :: "target \<Rightarrow> string list \<Rightarrow> string list" where
  "peephole_index_through_memory T ls = scan (index_through_memory_step T) [] ls"

definition fold_zero_save_step :: window where
  "fold_zero_save_step before rest =
     (case rest of
        a # b # r \<Rightarrow>
          (case after_prefix ''xor '' (strip a) of
             Some operands \<Rightarrow>
               (case split_on '', '' operands of
                  [d, s] \<Rightarrow>
                    if d = s \<and> d \<in> {''ax'', ''bx'', ''cx'', ''dx'', ''si'', ''di'', ''bp''} \<and> strip b = ''push '' @ d
                    then Some ([], instruction ''push 0'' # r) else None
                | _ \<Rightarrow> None)
           | None \<Rightarrow> None)
      | _ \<Rightarrow> None)"

definition peephole_fold_zero_save :: "string list \<Rightarrow> string list" where
  "peephole_fold_zero_save ls = scan fold_zero_save_step [] ls"

definition compare_step :: "target \<Rightarrow> window" where
  "compare_step T before rest =
     (case rest of
        a # b # c # r \<Rightarrow>
          (case (after_prefix (''mov '' @ accumulator T @ '', '') (strip a), after_prefix (''cmp '' @ accumulator T @ '', '') (strip b)) of
             (Some source, Some rhs) \<Rightarrow>
               if source \<in> set (non_acc_registers T) \<and> is_conditional_jump (strip c)
               then Some ([], instruction (''cmp '' @ source @ '', '' @ rhs) # c # r) else None
           | _ \<Rightarrow> None)
      | _ \<Rightarrow> None)"

definition peephole_compare_through_register :: "target \<Rightarrow> string list \<Rightarrow> string list" where
  "peephole_compare_through_register T ls = scan (compare_step T) [] ls"

subsection \<open>Zero extension and flags\<close>

text \<open>\<open>op\s+\<close>: the text after one of the mnemonics and the white space behind it.\<close>

definition after_mnemonic :: "string list \<Rightarrow> string \<Rightarrow> string option" where
  "after_mnemonic operations s =
     (case List.find (\<lambda>operation. case after_prefix operation s of Some (c # _) \<Rightarrow> is_white c | _ \<Rightarrow> False) operations of
        None \<Rightarrow> None
      | Some operation \<Rightarrow> Some (lstrip (drop (length operation) s)))"

definition word_registers :: "string list" where
  "word_registers = [''bx'', ''cx'', ''dx'', ''si'', ''di'', ''bp'']"

definition byte_registers :: "string list" where
  "byte_registers = [''bh'', ''bl'', ''ch'', ''cl'', ''dh'', ''dl'']"

definition segment_registers :: "string list" where
  "segment_registers = [''sp'', ''ss'', ''es'', ''ds'', ''cs'', ''fs'', ''gs'']"

text \<open>\<open>\[[^\]]+\],\s*(bx|cx|dx|si|di|bp|\d+|0x[0-9a-fA-F]+)\<close> at the start of a text.\<close>

definition stores_other :: "string \<Rightarrow> bool" where
  "stores_other s =
     (case after_prefix ''['' s of
        None \<Rightarrow> False
      | Some r \<Rightarrow>
          (case cut_at '']'' r of
             None \<Rightarrow> False
           | Some (address, rest) \<Rightarrow>
               address \<noteq> [] \<and>
               (case after_prefix '','' rest of
                  None \<Rightarrow> False
                | Some source \<Rightarrow>
                    starts_with_any word_registers (lstrip source) \<or>
                    (case lstrip source of c # _ \<Rightarrow> is_digit10 c | [] \<Rightarrow> False))))"

definition is_ax_preserving :: "string \<Rightarrow> bool" where
  "is_ax_preserving line =
     (line \<in> set (pushes_and_pops word_registers) \<or> line \<in> {''clc'', ''stc'', ''cld''} \<or>
      (case after_mnemonic [''mov''] line of
         Some r \<Rightarrow> starts_with_any (map (\<lambda>register. register @ '','') (word_registers @ byte_registers @ segment_registers)) r \<or> stores_other r
       | None \<Rightarrow> False) \<or>
      (case after_mnemonic [''add'', ''sub'', ''and'', ''or'', ''xor'', ''inc'', ''dec'', ''shl'', ''shr'', ''neg'', ''not''] line of
         Some r \<Rightarrow> starts_with_any (word_registers @ byte_registers) r
       | None \<Rightarrow> False) \<or>
      (case after_mnemonic [''add'', ''sub'', ''and'', ''or'', ''xor'', ''inc'', ''dec''] line of
         Some r \<Rightarrow> (case after_mnemonic [''word'', ''byte''] r of Some r' \<Rightarrow> starts_with ''['' r' | None \<Rightarrow> False)
       | None \<Rightarrow> False) \<or>
      starts_with_any [''cmp '', ''test ''] line \<and>
      \<not> starts_with_any [''cmp al,'', ''test al,'', ''cmp ax'', ''test ax''] line)"

definition al_only :: "string \<Rightarrow> bool" where
  "al_only line =
     (starts_with_any [''mov ['', ''cmp al,'', ''test al,'', ''or al,'', ''and al,'', ''xor al,'', ''add al,'', ''sub al,'', ''mov ah, ''] line \<and>
      (starts_with ''mov ['' line \<longrightarrow> ends_with '', al'' line))"

text \<open>A word operation on AX that reads AL only when AH is 0, in its byte form.\<close>

definition byte_form :: "string \<Rightarrow> string \<times> string" where
  "byte_form line =
     (if strip line = ''test ax, ax'' then (replace_all ''test ax, ax'' ''test al, al'' line, ''test al, al'')
      else case after_prefix ''cmp ax, '' (strip line) of
        None \<Rightarrow> (line, strip line)
      | Some operand \<Rightarrow>
          (case int0 operand of
             None \<Rightarrow> (line, strip line)
           | Some n \<Rightarrow>
               if 0 \<le> n \<and> n \<le> 255 then (replace_once ''cmp ax, '' ''cmp al, '' line, ''cmp al, '' @ operand) else (line, strip line)))"

definition dead_ah_step :: window where
  "dead_ah_step before rest =
     (case rest of
        l # ls \<Rightarrow>
          if strip l = ''xor ah, ah'' then
            (case dropWhile (\<lambda>line. is_ax_preserving (strip line)) ls of
               [] \<Rightarrow> None
             | c # r \<Rightarrow>
                 if al_only (snd (byte_form c))
                 then Some ([], takeWhile (\<lambda>line. is_ax_preserving (strip line)) ls @ fst (byte_form c) # r) else None)
          else None
      | [] \<Rightarrow> None)"

definition peephole_dead_ah :: "string list \<Rightarrow> string list" where
  "peephole_dead_ah ls = scan dead_ah_step [] ls"

definition byte_mask_step :: window where
  "byte_mask_step before rest =
     (case rest of
        a # b # r \<Rightarrow>
          if strip a = ''xor ah, ah'' \<and> strip b = ''and ax, 255'' \<and>
             starts_with_any [''mov '', ''call '', ''push '', ''pop '', ''shl '', ''shr '', ''ret'', ''int '', ''lea '']
               (case r of [] \<Rightarrow> [] | c # _ \<Rightarrow> strip c)
          then Some ([], a # r) else None
      | _ \<Rightarrow> None)"

definition peephole_redundant_byte_mask :: "string list \<Rightarrow> string list" where
  "peephole_redundant_byte_mask ls = scan byte_mask_step [] ls"

definition string_operations :: "string list" where
  "string_operations =
     [''lodsb'', ''lodsw'', ''stosb'', ''stosw'', ''movsb'', ''movsw'', ''scasb'', ''scasw'', ''cmpsb'', ''cmpsw'', ''rep '',
      ''repe '', ''repne '']"

fun drop_clear_cld :: "bool \<Rightarrow> string list \<Rightarrow> string list" where
  "drop_clear_cld df_clear [] = []"
| "drop_clear_cld df_clear (line # ls) =
     (if strip line = ''cld'' then (if df_clear then drop_clear_cld df_clear ls else line # drop_clear_cld True ls)
      else line # drop_clear_cld (df_clear \<and> \<not> ends_with '':'' (strip line) \<and> \<not> starts_with_any [''call '', ''int ''] (strip line)) ls)"

definition peephole_unused_cld :: "string list \<Rightarrow> string list" where
  "peephole_unused_cld ls =
     (if list_ex (\<lambda>line. starts_with_any string_operations (strip line)) ls then drop_clear_cld False ls
      else filter (\<lambda>line. strip line \<noteq> ''cld'') ls)"

definition dead_test_step :: "target \<Rightarrow> window" where
  "dead_test_step T before rest =
     (case rest of
        a # b # r \<Rightarrow>
          let operands = accumulator T @ '', '' @ accumulator T in
          if strip a = ''sbb '' @ operands \<and> strip b = ''test '' @ operands then Some ([], a # r) else None
      | _ \<Rightarrow> None)"

definition peephole_dead_test_after_sbb :: "target \<Rightarrow> string list \<Rightarrow> string list" where
  "peephole_dead_test_after_sbb T ls = scan (dead_test_step T) [] ls"

subsection \<open>All passes\<close>

definition control_passes :: "string list \<Rightarrow> string list" where
  "control_passes ls = peephole_label_forwarding (peephole_jump_next (peephole_double_jump (peephole_dead_code ls)))"

definition store_passes :: "target \<Rightarrow> string list \<Rightarrow> string list" where
  "store_passes T ls =
     peephole_dead_temp_slots T (peephole_fuse_byte_modify_in_place T
       (peephole_fold_single_write_byte_constant_local T (peephole_fold_byte_immediate_through_local T
         (peephole_store_reload T (peephole_dx_to_memory T
           (peephole_memory_arithmetic_byte (peephole_memory_arithmetic T ls)))))))"

definition load_passes :: "target \<Rightarrow> string list \<Rightarrow> string list" where
  "load_passes T ls =
     peephole_constant_to_register T (peephole_narrow_acc_immediate_for_byte_out T
       (peephole_memory_arithmetic T (dedup_register_reloads (si_register T) ls)))"

definition register_passes :: "target \<Rightarrow> string list \<Rightarrow> string list" where
  "register_passes T ls =
     peephole_unused_cld (peephole_redundant_byte_mask (peephole_dead_ah
       (peephole_compare_through_register T (peephole_fold_zero_save (peephole_index_through_memory T
         (peephole_redundant_register_swap (peephole_self_move ls)))))))"

definition run_peephole :: "target \<Rightarrow> string list \<Rightarrow> peephole_error + string list" where
  "run_peephole T ls =
     bind_result (peephole_register_arithmetic T (load_passes T (store_passes T (control_passes ls)))) (\<lambda>ls'.
     bind_result (peephole_dead_stores (register_passes T ls')) (\<lambda>ls''.
       Inr (peephole_redundant_bx T (peephole_dead_test_after_sbb T ls''))))"

end
