(* ===== verification/Peephole_Facts.thy ===== *)
theory Peephole_Facts
  imports Peephole_Run
begin

text \<open>
  What every peephole pass promises: the buffer does not grow, and a pass on data keeps the labels of the
  buffer, in order.  The window functions are interpretations of two locales, one per promise.
\<close>

subsection \<open>Labels\<close>

definition is_label :: "string \<Rightarrow> bool" where
  "is_label s = (ends_with '':'' s \<and> set s \<inter> set '' ,['' = {})"

definition labels :: "string list \<Rightarrow> string list" where
  "labels ls = filter is_label (map strip ls)"

lemma labels_simps [simp]:
  "labels [] = []" "labels (l # ls) = (if is_label (strip l) then strip l # labels ls else labels ls)"
  "labels (xs @ ys) = labels xs @ labels ys"
  by (simp_all add: labels_def)

lemma labels_map: "(\<And>l. l \<in> set ls \<Longrightarrow> labels [f l] = labels [l]) \<Longrightarrow> labels (map f ls) = labels ls"
proof (induction ls)
  case (Cons l ls)
  from Cons.prems have "labels [f l] = labels [l]" "labels (map f ls) = labels ls" by (auto intro: Cons.IH)
  then show ?case by (metis append_Cons append_Nil labels_simps(3) list.simps(9))
qed simp

lemma not_label_char: "c \<in> set s \<Longrightarrow> c \<in> set '' ,['' \<Longrightarrow> \<not> is_label s"
  by (auto simp: is_label_def)

lemma set_lstrip: "c \<in> set s \<Longrightarrow> \<not> is_white c \<Longrightarrow> c \<in> set (lstrip s)"
  by (metis lstrip_def in_set_conv_decomp set_takeWhileD takeWhile_dropWhile_id Un_iff set_append)

lemma set_strip: "c \<in> set s \<Longrightarrow> \<not> is_white c \<Longrightarrow> c \<in> set (strip s)"
  by (simp add: strip_def rstrip_white_def set_lstrip)

lemma not_label_line: "c \<in> set l \<Longrightarrow> c \<in> set '',['' \<Longrightarrow> \<not> is_label (strip l)"
  by (rule not_label_char [OF set_strip]) (auto simp: is_white_def code_def Let_def)

lemma not_label_prefix: "starts_with p s \<Longrightarrow> c \<in> set p \<Longrightarrow> c \<in> set '' ,['' \<Longrightarrow> \<not> is_label s"
  by (rule not_label_char [of c]) (metis in_set_takeD starts_with_def)

lemma not_label_after: "after_prefix p s = Some r \<Longrightarrow> c \<in> set p \<Longrightarrow> c \<in> set '' ,['' \<Longrightarrow> \<not> is_label s"
  by (rule not_label_prefix [of p]) (auto simp: after_prefix_def split: if_splits)

lemma not_label_last:
  assumes "l \<noteq> []" "\<not> is_white (last l)" "last l \<noteq> CHR '':''"
  shows "\<not> is_label (strip l)"
proof -
  have "last l \<in> set (lstrip l)" by (rule set_lstrip) (use assms in auto)
  then have "lstrip l \<noteq> []" by auto
  moreover have "l = takeWhile is_white l @ lstrip l" by (simp add: lstrip_def)
  ultimately have last: "last (lstrip l) = last l" by (metis last_appendR)
  then obtain t where "rev (lstrip l) = last l # t" using \<open>lstrip l \<noteq> []\<close>
    by (metis append_butlast_last_id rev.simps(2) rev_append rev_rev_ident append_Cons append_Nil rev_singleton_conv)
  then have "rev (strip l) = last l # t" using assms(2) by (simp add: strip_def rstrip_white_def lstrip_def)
  with assms(3) show ?thesis by (simp add: is_label_def ends_with_def starts_with_def)
qed

text \<open>Lines a pass removes or writes.\<close>

lemma comma_line [simp]: "CHR '','' \<in> set l \<Longrightarrow> \<not> is_label (strip l)"
  and bracket_line [simp]: "CHR ''['' \<in> set l \<Longrightarrow> \<not> is_label (strip l)"
  using not_label_line [of "CHR '',''" l] not_label_line [of "CHR ''[''" l] by simp_all

lemma spaced_line: "starts_with p s \<Longrightarrow> CHR '' '' \<in> set p \<Longrightarrow> \<not> is_label s"
  by (rule not_label_prefix) auto

lemma spaced_after: "after_prefix p s = Some r \<Longrightarrow> CHR '' '' \<in> set p \<Longrightarrow> \<not> is_label s"
  by (rule not_label_after) auto

lemma spaced_text [simp]: "CHR '' '' \<in> set s \<Longrightarrow> \<not> is_label s"
  and bracket_text [simp]: "CHR ''['' \<in> set s \<Longrightarrow> \<not> is_label s"
  and comma_text [simp]: "CHR '','' \<in> set s \<Longrightarrow> \<not> is_label s"
  by (auto simp: is_label_def)

lemma no_colon [simp]: "CHR '':'' \<notin> set s \<Longrightarrow> \<not> is_label s"
  by (cases "rev s") (auto simp: is_label_def ends_with_def starts_with_def dest: arg_cong [of "rev s" _ set])

lemma starts_with_bracket: "starts_with ''['' s \<Longrightarrow> CHR ''['' \<in> set s"
  by (cases s) (auto simp: starts_with_def)

lemma mov_operands_not_label: "mov_operands s = Some p \<Longrightarrow> \<not> is_label s"
  by (auto simp: mov_operands_def split: option.splits dest: spaced_after)

lemma match_acc_op_not_label: "match_acc_op register s = Some p \<Longrightarrow> \<not> is_label s"
  by (auto simp: match_acc_op_def find_Some_iff simp del: find.simps split: option.splits dest: spaced_line)

lemma parse_load_acc_not_label: "parse_load_acc T s = Some p \<Longrightarrow> \<not> is_label s"
  by (auto simp: parse_load_acc_def split: option.splits dest: spaced_after)

lemma parse_byte_load_not_label: "parse_byte_load s = Some p \<Longrightarrow> \<not> is_label s"
  by (auto simp: parse_byte_load_def split: option.splits dest: spaced_after)

lemma acc_operation_not_label: "acc_operation T s = Some p \<Longrightarrow> \<not> is_label s"
  by (auto simp: acc_operation_def split: if_splits dest: match_acc_op_not_label)

lemma byte_operation_not_label: "byte_operation s = Some p \<Longrightarrow> \<not> is_label s"
  by (auto simp: byte_operation_def split: if_splits option.splits dest: match_acc_op_not_label)

lemmas not_labels = spaced_line spaced_after mov_operands_not_label match_acc_op_not_label parse_load_acc_not_label
  parse_byte_load_not_label acc_operation_not_label byte_operation_not_label


subsection \<open>Windows that shrink the buffer\<close>

locale shrinking =
  fixes step :: window
  assumes shorter: "step before rest = Some (out, rest') \<Longrightarrow> length rest' < length rest"
    and no_longer: "step before rest = Some (out, rest') \<Longrightarrow> length out + length rest' \<le> length rest"
begin

text \<open>The loop always goes on: its guard on the length is implied by the window.\<close>

lemma scan_unfold:
  "scan step before rest =
     (case step before rest of
        Some (out, rest') \<Rightarrow> scan step (before @ out) rest'
      | None \<Rightarrow> (case rest of [] \<Rightarrow> before | line # ls \<Rightarrow> scan step (before @ [line]) ls))"
  by (subst scan.simps) (auto split: option.splits dest: shorter)

text \<open>What every move of the window keeps holds at the end of the scan.\<close>

lemma scan_invariant:
  assumes "Q before rest"
    and rewrite: "\<And>before rest out rest'. Q before rest \<Longrightarrow> step before rest = Some (out, rest') \<Longrightarrow> Q (before @ out) rest'"
    and advance: "\<And>before l ls. Q before (l # ls) \<Longrightarrow> Q (before @ [l]) ls"
  shows "Q (scan step before rest) []"
  using assms(1)
proof (induction "length rest" arbitrary: before rest rule: less_induct)
  case less
  show ?case
  proof (cases "step before rest")
    case None
    show ?thesis
    proof (cases rest)
      case Nil
      with None less.prems show ?thesis by (subst scan_unfold) simp
    next
      case (Cons l ls)
      with None less advance show ?thesis by (subst scan_unfold) simp
    qed
  next
    case (Some p)
    obtain out rest' where p: "p = (out, rest')" by fastforce
    from Some less.hyps [OF shorter rewrite] less.prems show ?thesis unfolding p by (subst scan_unfold) simp
  qed
qed

lemma scan_length: "length (scan step before rest) \<le> length before + length rest"
  using scan_invariant [of "\<lambda>b r. length b + length r \<le> length before + length rest" before rest]
  by (fastforce dest: no_longer)

end

locale label_keeping = shrinking +
  assumes keeps: "step before rest = Some (out, rest') \<Longrightarrow> labels out @ labels rest' = labels rest"
begin

lemma scan_labels: "labels (scan step before rest) = labels before @ labels rest"
  using scan_invariant [of "\<lambda>b r. labels b @ labels r = labels before @ labels rest" before rest]
  by (fastforce dest: keeps)

end

end
