(* ===== verification/Peephole_Windows.thy ===== *)
theory Peephole_Windows
  imports Peephole_Facts
begin

text \<open>The windows of the peephole passes keep both promises.\<close>

interpretation dead_code: label_keeping dead_code_step
  by unfold_locales (auto simp: dead_code_step_def split: list.splits if_splits)

interpretation double_jump: shrinking double_jump_step
  by unfold_locales (auto simp: double_jump_step_def Let_def split: list.splits option.splits if_splits)

interpretation jump_next: label_keeping jump_next_step
  by unfold_locales (auto simp: jump_next_step_def split: list.splits if_splits dest: not_labels)

interpretation dx_to_memory: label_keeping "dx_to_memory_step T" for T
  by unfold_locales (auto simp: dx_to_memory_step_def split: list.splits if_splits dest: not_labels)

interpretation register_swap: label_keeping register_swap_step
  by unfold_locales (auto simp: register_swap_step_def split: list.splits option.splits if_splits dest: not_labels)

interpretation dead_test: label_keeping "dead_test_step T" for T
  by unfold_locales (auto simp: dead_test_step_def Let_def split: list.splits if_splits dest: not_labels)

interpretation byte_mask: label_keeping byte_mask_step
  by unfold_locales (auto simp: byte_mask_step_def split: list.splits if_splits dest: not_labels)

interpretation constant_to_register: label_keeping "constant_to_register_step T" for T
  by unfold_locales
     (auto simp: constant_to_register_step_def instruction_def split: list.splits option.splits if_splits dest: not_labels)

interpretation index_through_memory: label_keeping "index_through_memory_step T" for T
  by unfold_locales (auto simp: index_through_memory_step_def Let_def instruction_def split: list.splits if_splits dest: not_labels)

interpretation compare: label_keeping "compare_step T" for T
  by unfold_locales (auto simp: compare_step_def instruction_def split: list.splits option.splits if_splits dest: not_labels)

interpretation fold_zero_save: label_keeping fold_zero_save_step
proof
  fix before rest out rest'
  assume s: "fold_zero_save_step before rest = Some (out, rest')"
  have "\<not> is_label (strip (instruction ''push 0''))" by (rule not_label_last) (auto simp: instruction_def is_white_def code_def)
  with s show "length rest' < length rest" "length out + length rest' \<le> length rest" "labels out @ labels rest' = labels rest"
    by (auto simp: fold_zero_save_step_def split: list.splits option.splits if_splits dest: not_labels)
qed

lemma drop_reload_facts:
  "drop_reload reloads ls = Some ls' \<Longrightarrow> (\<And>r. r \<in> set reloads \<Longrightarrow> \<not> is_label r) \<Longrightarrow>
   length ls = Suc (length ls') \<and> labels ls' = labels ls"
  by (induction reloads ls arbitrary: ls' rule: drop_reload.induct) (auto split: if_splits)

lemma reload_lines_not_label: "r \<in> set (reload_lines T address) \<Longrightarrow> \<not> is_label r"
  by (auto simp: reload_lines_def)

interpretation store_reload: label_keeping "store_reload_step T" for T
  by unfold_locales
     (auto simp: store_reload_step_def split: list.splits if_splits dest!: drop_reload_facts [OF _ reload_lines_not_label])

interpretation fuse_byte_modify: label_keeping "fuse_byte_modify_step T" for T
  by unfold_locales
     (auto simp: fuse_byte_modify_step_def Let_def instruction_def find_Some_iff simp del: find.simps
       split: list.splits option.splits if_splits dest: not_labels)

interpretation both_memory: label_keeping "both_memory_step T" for T
  by unfold_locales
     (auto simp: both_memory_step_def instruction_def split: list.splits option.splits if_splits bool.splits dest: not_labels)

lemma is_memory_bracket [dest]: "is_memory s \<Longrightarrow> CHR ''['' \<in> set s"
  by (simp add: is_memory_def starts_with_bracket)

lemma parse_byte_load_bracket: "parse_byte_load s = Some source \<Longrightarrow> CHR ''['' \<in> set source"
  by (auto simp: parse_byte_load_def split: option.splits if_splits)

lemma fused_operation_bracket: "CHR ''['' \<in> set place \<Longrightarrow> CHR ''['' \<in> set (fused_operation operation place operand)"
  by (auto simp: fused_operation_def)

interpretation byte_quad: label_keeping byte_quad_step
  by unfold_locales
     (auto simp: byte_quad_step_def instruction_def fused_operation_bracket parse_byte_load_bracket
       split: list.splits option.splits if_splits dest: not_labels)

interpretation byte_quint: label_keeping byte_quint_step
  by unfold_locales
     (auto simp: byte_quint_step_def instruction_def fused_operation_bracket parse_byte_load_bracket
       split: list.splits option.splits if_splits dest: not_labels)

lemma replace_all_once: "cut_at old s = Some (before, rest) \<Longrightarrow> old \<noteq> [] \<Longrightarrow> c \<in> set new \<Longrightarrow> c \<in> set (replace_all old new s)"
  by (subst replace_all.simps) simp

lemma cut_at_found: "\<exists>before rest. cut_at p (a @ p @ b) = Some (before, rest)"
proof (induction a)
  case Nil
  show ?case
  proof (cases "p @ b")
    case (Cons c s)
    have "after_prefix p (c # s) = Some b" using Cons by (metis after_prefix_append)
    with Cons show ?thesis by simp
  qed simp
next
  case (Cons x a)
  then show ?case by (auto split: option.splits)
qed

lemma strip_split: "\<exists>a b. l = a @ strip l @ b"
proof -
  have "l = takeWhile is_white l @ lstrip l" by (simp add: lstrip_def)
  moreover have "rev (lstrip l) = takeWhile is_white (rev (lstrip l)) @ lstrip (rev (lstrip l))" by (simp add: lstrip_def)
  then have "lstrip l = strip l @ rev (takeWhile is_white (rev (lstrip l)))"
    unfolding strip_def rstrip_white_def by (metis rev_append rev_rev_ident)
  ultimately show ?thesis by metis
qed

lemma byte_form_not_label:
  assumes "byte_form l \<noteq> (l, strip l)"
  shows "\<not> is_label (strip l)" "\<not> is_label (strip (fst (byte_form l)))"
proof -
  obtain a b where l: "l = a @ strip l @ b" using strip_split by blast
  have "\<not> is_label (strip l) \<and> \<not> is_label (strip (fst (byte_form l)))"
  proof (cases "strip l = ''test ax, ax''")
    case True
    with l obtain x y where "cut_at ''test ax, ax'' l = Some (x, y)" using cut_at_found by metis
    then have "CHR '','' \<in> set (replace_all ''test ax, ax'' ''test al, al'' l)" by (rule replace_all_once) auto
    with True show ?thesis by (simp add: byte_form_def)
  next
    case False
    with assms obtain operand where a: "after_prefix ''cmp ax, '' (strip l) = Some operand"
      and f: "fst (byte_form l) = replace_once ''cmp ax, '' ''cmp al, '' l"
      by (auto simp: byte_form_def split: option.splits if_splits)
    from a have o: "strip l = ''cmp ax, '' @ operand" by (simp add: after_prefix_append)
    from l o obtain x y where "cut_at ''cmp ax, '' l = Some (x, y)" using cut_at_found by (metis append_assoc)
    then have "CHR '','' \<in> set (fst (byte_form l))" by (simp add: f replace_once_def)
    with o show ?thesis by simp
  qed
  then show "\<not> is_label (strip l)" "\<not> is_label (strip (fst (byte_form l)))" by auto
qed

lemma byte_form_labels: "labels (fst (byte_form l) # r) = labels (l # r)"
  using byte_form_not_label [of l] by (cases "byte_form l = (l, strip l)") auto

interpretation dead_ah: label_keeping dead_ah_step
proof
  fix before rest out rest'
  assume "dead_ah_step before rest = Some (out, rest')"
  then obtain l ls c r where s: "rest = l # ls" "\<not> is_label (strip l)" "out = []"
    and w: "dropWhile (\<lambda>line. is_ax_preserving (strip line)) ls = c # r"
    and rest': "rest' = takeWhile (\<lambda>line. is_ax_preserving (strip line)) ls @ fst (byte_form c) # r"
    by (auto simp: dead_ah_step_def split: list.splits if_splits)
  have ls: "ls = takeWhile (\<lambda>line. is_ax_preserving (strip line)) ls @ c # r" using w by (metis takeWhile_dropWhile_id)
  then have "length ls = length rest'" unfolding rest' by (metis length_append length_Cons)
  with s show "length rest' < length rest" "length out + length rest' \<le> length rest" by auto
  have "labels rest' = labels (takeWhile (\<lambda>line. is_ax_preserving (strip line)) ls @ c # r)"
    unfolding rest' by (simp only: labels_simps(3) byte_form_labels)
  then have "labels rest' = labels ls" by (simp only: ls [symmetric])
  with s show "labels out @ labels rest' = labels rest" by simp
qed

interpretation counted: shrinking "counted_step T" for T
  by unfold_locales (auto simp: counted_step_def Let_def split: list.splits option.splits if_splits)

interpretation triple: shrinking "triple_step T" for T
  by unfold_locales (auto simp: triple_step_def split: list.splits option.splits if_splits)

end
