(* ===== verification/Peephole_Labels.thy ===== *)
theory Peephole_Labels
  imports Peephole_Windows
begin

text \<open>
  The peephole passes as a whole: no pass makes the buffer longer, and after the jump passes no pass
  removes, adds or reorders a label.
\<close>

subsection \<open>Passes that keep both promises\<close>

definition quiet :: "(string list \<Rightarrow> string list) \<Rightarrow> bool" where
  "quiet f \<longleftrightarrow> (\<forall>ls. length (f ls) \<le> length ls \<and> labels (f ls) = labels ls)"

lemma quietI: "(\<And>ls. length (f ls) \<le> length ls) \<Longrightarrow> (\<And>ls. labels (f ls) = labels ls) \<Longrightarrow> quiet f"
  by (simp add: quiet_def)

lemma quiet_length: "quiet f \<Longrightarrow> length (f ls) \<le> length ls" and quiet_labels: "quiet f \<Longrightarrow> labels (f ls) = labels ls"
  by (simp_all add: quiet_def)

lemma quiet_comp: "quiet f \<Longrightarrow> quiet g \<Longrightarrow> quiet (f \<circ> g)"
  unfolding quiet_def by (metis comp_apply order_trans)

lemma quiet_scan:
  assumes "label_keeping step"
  shows "quiet (scan step [])"
proof (rule quietI)
  fix ls
  from assms have "shrinking step" by (simp add: label_keeping_def)
  from shrinking.scan_length [OF this, of "[]" ls] show "length (scan step [] ls) \<le> length ls" by simp
  from label_keeping.scan_labels [OF assms, of "[]" ls] show "labels (scan step [] ls) = labels ls" by simp
qed

lemma quiet_filter: "(\<And>l. \<not> P l \<Longrightarrow> \<not> is_label (strip l)) \<Longrightarrow> quiet (filter P)"
proof (rule quietI)
  fix ls assume *: "\<And>l. \<not> P l \<Longrightarrow> \<not> is_label (strip l)"
  show "labels (filter P ls) = labels ls" by (induction ls) (auto dest: *)
qed simp

lemma chunks_from_concat: "concat (chunks_from chunk ls) = chunk @ ls"
  by (induction chunk ls rule: chunks_from.induct) auto

lemma quiet_chunks: "quiet f \<Longrightarrow> quiet (\<lambda>ls. concat (map f (function_chunks ls)))"
proof (rule quietI)
  fix ls assume f: "quiet f"
  have "length (concat (map f cs)) \<le> length (concat cs)" for cs
    by (induction cs) (auto intro: add_mono quiet_length [OF f])
  from this [of "function_chunks ls"] show "length (concat (map f (function_chunks ls))) \<le> length ls"
    by (simp add: function_chunks_def chunks_from_concat)
  have "labels (concat (map f cs)) = labels (concat cs)" for cs
    by (induction cs) (auto simp: quiet_labels [OF f])
  from this [of "function_chunks ls"] show "labels (concat (map f (function_chunks ls))) = labels ls"
    by (simp add: function_chunks_def chunks_from_concat)
qed

subsection \<open>Registers of the targets\<close>

definition is_target :: "target \<Rightarrow> bool" where
  "is_target T \<longleftrightarrow> T \<in> {x86_16, x86_32}"

lemma register_line:
  assumes "is_target T" "register \<in> set (non_acc_registers T)"
  shows "\<not> is_label (strip (instruction (p @ register)))"
  by (rule not_label_last) (use assms in \<open>auto simp: is_target_def x86_16_def x86_32_def instruction_def is_white_def code_def\<close>)

lemma inc_or_dec_line:
  assumes "is_target T" "parse_load_acc T l = Some (source, memory)"
  shows "\<not> is_label (strip (instruction (p @ operand_width T memory @ source)))"
proof (cases memory)
  case True
  with assms(2) have "CHR ''['' \<in> set source" by (auto simp: parse_load_acc_def split: option.splits if_splits)
  then show ?thesis by (auto simp: instruction_def)
next
  case False
  with assms(2) have "source \<in> set (non_acc_registers T)" by (auto simp: parse_load_acc_def split: option.splits if_splits)
  with False register_line [OF assms(1)] show ?thesis by (simp add: operand_width_def)
qed

lemma fused_line:
  assumes "is_target T" "parse_load_acc T l = Some (source, memory)"
  shows "\<not> is_label (strip (instruction (fused_operation operation (operand_width T memory @ source) operand)))"
proof -
  note e = inc_or_dec_line [OF assms, of "''inc ''"] inc_or_dec_line [OF assms, of "''dec ''"] inc_or_dec_line [OF assms, of "operation @ '' ''"]
  then show ?thesis by (auto simp: fused_operation_def instruction_def)
qed

lemma counted_keeping: "is_target T \<Longrightarrow> label_keeping (counted_step T)"
  by unfold_locales
     (auto simp: counted_step_def Let_def fused_line split: list.splits option.splits if_splits
       dest: parse_load_acc_not_label dest!: spaced_after)

lemma triple_keeping: "is_target T \<Longrightarrow> label_keeping (triple_step T)"
  by unfold_locales
     (auto simp: triple_step_def fused_line split: list.splits option.splits if_splits dest: not_labels)

lemma quiet_memory_arithmetic:
  assumes "is_target T"
  shows "quiet (peephole_memory_arithmetic T)"
proof -
  have eq: "peephole_memory_arithmetic T = scan (both_memory_step T) [] \<circ> (scan (triple_step T) [] \<circ> scan (counted_step T) [])"
    by (simp add: peephole_memory_arithmetic_def fun_eq_iff)
  show ?thesis unfolding eq
    by (intro quiet_comp quiet_scan counted_keeping triple_keeping both_memory.label_keeping_axioms assms)
qed

lemma quiet_memory_arithmetic_byte: "quiet peephole_memory_arithmetic_byte"
proof -
  have eq: "peephole_memory_arithmetic_byte = scan byte_quint_step [] \<circ> scan byte_quad_step []"
    by (simp add: peephole_memory_arithmetic_byte_def fun_eq_iff)
  show ?thesis unfolding eq by (intro quiet_comp quiet_scan byte_quint.label_keeping_axioms byte_quad.label_keeping_axioms)
qed

subsection \<open>Passes on slots and registers\<close>

lemma labels_same_line: "labels [l'] = labels [l] \<Longrightarrow> labels (l' # ls) = labels (l # ls)"
  by (metis append_Cons append_Nil labels_simps(3))

lemma indented_comma: "\<not> is_label (strip (indent l @ p @ CHR '','' # s))"
  by simp

lemma fold_load_labels: "labels (fold_load T slot immediate ls) = labels ls"
proof (induction T slot immediate ls rule: fold_load.induct)
  case (2 T slot immediate line ls)
  have "\<not> is_label (strip line)" if "strip line = ''movzx '' @ accumulator T @ '', byte '' @ a" for a
    using that by simp
  with 2 show ?case by (auto simp: Let_def)
qed simp

lemma quiet_fold_byte: "quiet (peephole_fold_byte_immediate_through_local T)"
proof (rule quietI)
  fix ls
  have "length (fold_byte_constants T ls) = length ls \<and> labels (fold_byte_constants T ls) = labels ls"
    by (induction T ls rule: fold_byte_constants.induct)
       (auto simp: fold_load_labels split: option.splits prod.splits)
  then show "length (peephole_fold_byte_immediate_through_local T ls) \<le> length ls"
    "labels (peephole_fold_byte_immediate_through_local T ls) = labels ls"
    by (simp_all add: peephole_fold_byte_immediate_through_local_def)
qed

lemma quiet_dead_temp_slots: "quiet (peephole_dead_temp_slots T)"
  unfolding peephole_dead_temp_slots_def
proof (rule quiet_chunks, rule quietI)
  fix chunk
  show "length (drop_dead_slots T chunk) \<le> length chunk" by (simp add: drop_dead_slots_def)
  have "\<not> is_label (strip l)" if "\<not> live_line T slots l" for l slots
    using that by (auto simp: live_line_def slot_store_def bind_eq_Some_conv split: option.splits dest!: spaced_after)
  then have "quiet (filter (live_line T slots))" for slots by (rule quiet_filter)
  then show "labels (drop_dead_slots T chunk) = labels chunk" by (simp add: drop_dead_slots_def quiet_labels)
qed

lemma quiet_self_move: "quiet peephole_self_move"
proof -
  have "\<not> is_label (strip l)" if "is_self_move (strip l)" for l
    using that by (auto simp: is_self_move_def split: option.splits dest: mov_operands_not_label)
  then show ?thesis unfolding peephole_self_move_def by (intro quiet_filter) auto
qed

lemma drop_clear_cld_quiet: "length (drop_clear_cld df ls) \<le> length ls \<and> labels (drop_clear_cld df ls) = labels ls"
  by (induction df ls rule: drop_clear_cld.induct) auto

lemma quiet_unused_cld: "quiet peephole_unused_cld"
proof (rule quietI)
  fix ls
  have "quiet (filter (\<lambda>line. strip line \<noteq> ''cld''))" by (rule quiet_filter) auto
  then show "length (peephole_unused_cld ls) \<le> length ls" "labels (peephole_unused_cld ls) = labels ls"
    using drop_clear_cld_quiet [of False ls] by (simp_all add: peephole_unused_cld_def quiet_labels)
qed

lemma quiet_dedup: "quiet (dedup_register_reloads register)"
proof (rule quietI)
  fix ls
  have "length (dedup_from register v ls) \<le> length ls \<and> labels (dedup_from register v ls) = labels ls" for v
  proof (induction ls arbitrary: v)
    case (Cons line ls)
    obtain keep v' where k: "reload_line register v (strip line) = (keep, v')" by fastforce
    have "\<not> is_label (strip line)" if "\<not> keep"
      using that k by (cases "after_prefix (''mov '' @ register @ '', '') (strip line)")
        (auto simp: reload_line_def split: option.splits if_splits dest!: spaced_after spaced_after [OF sym])
    with k Cons.IH [of v'] show ?case by (cases keep) auto
  qed simp
  then show "length (dedup_register_reloads register ls) \<le> length ls" "labels (dedup_register_reloads register ls) = labels ls"
    by (simp_all add: dedup_register_reloads_def)
qed

lemma stripped_side: "\<not> is_label (strip (lstrip l)) \<Longrightarrow> \<not> is_label (strip l)"
  by (simp add: strip_def lstrip_def)

lemma lstrip_comma: "CHR '','' \<in> set (lstrip l) \<Longrightarrow> CHR '','' \<in> set l"
  by (auto simp: lstrip_def dest: set_dropWhileD)

lemma narrowed_label: "labels [narrowed T l ls] = labels [l]"
proof (cases "acc_immediate T l")
  case (Some digits)
  then have "CHR '','' \<in> set (lstrip l)" by (auto simp: acc_immediate_def bind_eq_Some_conv after_prefix_append)
  then have "\<not> is_label (strip l)" by (simp add: lstrip_comma)
  moreover have "\<not> is_label (strip (indent l @ ''mov al, '' @ decimal_text digits))" by simp
  ultimately show ?thesis using Some by (auto simp: narrowed_def split: option.splits)
qed (simp add: narrowed_def)

lemma quiet_narrow: "quiet (peephole_narrow_acc_immediate_for_byte_out T)"
proof (rule quietI)
  fix ls
  show "length (peephole_narrow_acc_immediate_for_byte_out T ls) \<le> length ls"
    by (induction T ls rule: peephole_narrow_acc_immediate_for_byte_out.induct) auto
  show "labels (peephole_narrow_acc_immediate_for_byte_out T ls) = labels ls"
  proof (induction T ls rule: peephole_narrow_acc_immediate_for_byte_out.induct)
    case (2 T line ls)
    from 2 labels_same_line [OF narrowed_label [of T line ls]] show ?case
      by (simp del: labels_simps(2)) (simp only: labels_simps(2))
  qed simp
qed

lemma byte_constant_store_not_label: "byte_constant_store T l = Some p \<Longrightarrow> \<not> is_label (strip l)"
proof -
  assume "byte_constant_store T l = Some p"
  then have "CHR '','' \<in> set (lstrip l)"
    by (auto simp: byte_constant_store_def bare_slot_def bind_eq_Some_conv after_prefix_append dest!: match_digits_split)
  then show ?thesis by (simp add: lstrip_comma)
qed

lemma classify_line_writes:
  "(slot, i, v) \<in> set (constant_writes (classify_line T table (j, line))) \<Longrightarrow>
   (slot, i, v) \<in> set (constant_writes table) \<or> i = j \<and> byte_constant_store T line \<noteq> None"
  using set_set_item
  by (fastforce simp: classify_line_def disqualify_def Let_def split: option.splits if_splits prod.splits)

lemma slot_table_writes:
  "(slot, i, v) \<in> set (constant_writes (foldl (classify_line T) table xs)) \<Longrightarrow>
   (slot, i, v) \<in> set (constant_writes table) \<or> (\<exists>l. (i, l) \<in> set xs \<and> byte_constant_store T l \<noteq> None)"
proof (induction xs arbitrary: table)
  case (Cons x xs)
  obtain j l where x: "x = (j, l)" by fastforce
  from Cons.IH [of "classify_line T table x"] Cons.prems classify_line_writes [of slot i v T table j l]
  show ?case by (auto simp: x)
qed simp

lemma labels_enumerate:
  assumes "\<And>i l. (i, l) \<in> set xs \<Longrightarrow> \<not> P i \<Longrightarrow> \<not> is_label (strip l)"
    and "\<And>l. labels [f l] = labels [l]"
  shows "labels (map (\<lambda>(_, l). f l) (filter (\<lambda>(i, _). P i) xs)) = labels (map snd xs)"
  using assms(1)
proof (induction xs)
  case (Cons x xs)
  obtain i l where x: "x = (i, l)" by fastforce
  have IH: "labels (map (\<lambda>(_, l). f l) (filter (\<lambda>(i, _). P i) xs)) = labels (map snd xs)"
    by (rule Cons.IH) (use Cons.prems in auto)
  from labels_same_line [OF assms(2) [of l]] IH Cons.prems [of i l] show ?case
    by (cases "P i") (simp_all add: x del: labels_simps(2), simp_all only: labels_simps(2) if_False)
qed simp

lemma fold_constant_load_label: "labels [fold_constant_load T eligible l] = labels [l]"
proof (cases "List.find (\<lambda>e. load_of T l e \<noteq> None) eligible")
  case (Some e)
  then have "load_of T l e \<noteq> None" by (auto simp: find_Some_iff)
  then obtain l' where l': "load_of T l e = Some l'" by blast
  then have "\<not> is_label (strip l)" "\<not> is_label (strip l')"
    by (auto simp: load_of_def Let_def split: prod.splits if_splits)
  with Some l' show ?thesis by (simp add: fold_constant_load_def)
qed (simp add: fold_constant_load_def)

lemma quiet_single_write: "quiet (peephole_fold_single_write_byte_constant_local T)"
  unfolding peephole_fold_single_write_byte_constant_local_def
proof (rule quiet_chunks, rule quietI)
  fix chunk
  let ?e = "eligible_slots (slot_table_of T chunk)"
  let ?keep = "\<lambda>i. i \<notin> set (map (\<lambda>(_, i, _). i) ?e)"
  have fold: "fold_chunk T chunk = map (\<lambda>(_, l). fold_constant_load T ?e l) (filter (\<lambda>(i, _). ?keep i) (enumerate 0 chunk))"
    by (simp add: fold_chunk_def Let_def)
  show "length (fold_chunk T chunk) \<le> length chunk"
    unfolding fold by (metis length_map length_filter_le length_enumerate)
  have "\<not> is_label (strip l)" if "(i, l) \<in> set (enumerate 0 chunk)" "\<not> ?keep i" for i l
  proof -
    from that(2) obtain slot v where "(slot, i, v) \<in> set (constant_writes (slot_table_of T chunk))"
      by (auto simp: eligible_slots_def)
    from slot_table_writes [OF this [unfolded slot_table_of_def]]
    obtain l' where "(i, l') \<in> set (enumerate 0 chunk)" "byte_constant_store T l' \<noteq> None" by auto
    with that(1) show ?thesis by (auto simp: in_set_enumerate_eq dest: byte_constant_store_not_label)
  qed
  from labels_enumerate [of "enumerate 0 chunk" ?keep "fold_constant_load T ?e", OF this fold_constant_load_label]
  show "labels (fold_chunk T chunk) = labels chunk" unfolding fold by simp
qed

lemma ends_with_subset: "ends_with p s \<Longrightarrow> set p \<subseteq> set s"
  unfolding ends_with_def starts_with_def by (metis set_rev set_take_subset)

lemma extract_local_label_not_label: "extract_local_label s = Some label \<Longrightarrow> \<not> is_label s"
  by (auto simp: extract_local_label_def split: option.splits if_splits dest!: cut_at_split ends_with_subset)

lemma dead_stores_quiet:
  assumes "peephole_dead_stores ls = Inr ls'"
  shows "length ls' \<le> length ls \<and> labels ls' = labels ls"
proof -
  from assms obtain loaded where ls': "ls' = filter (\<lambda>line. case extract_local_label (strip line) of
      Some label \<Rightarrow> label \<in> set (concat loaded) | None \<Rightarrow> True) ls"
    by (auto simp: peephole_dead_stores_def bind_result_Inr)
  have "quiet (filter (\<lambda>line. case extract_local_label (strip line) of Some label \<Rightarrow> label \<in> set (concat loaded) | None \<Rightarrow> True))"
    by (rule quiet_filter) (auto split: option.splits dest: extract_local_label_not_label)
  then show ?thesis unfolding ls' by (simp only: quiet_def)
qed

lemma binary_operation_text:
  "list_ex (\<lambda>m. starts_with (m @ '' '' @ acc @ '','') b) ms \<Longrightarrow> CHR '' '' \<in> set b \<and> CHR '','' \<in> set b"
proof -
  assume "list_ex (\<lambda>m. starts_with (m @ '' '' @ acc @ '','') b) ms"
  then obtain m where "take (length (m @ '' '' @ acc @ '','')) b = m @ '' '' @ acc @ '',''"
    by (auto simp: list_ex_iff starts_with_def)
  then have "set (m @ '' '' @ acc @ '','') \<subseteq> set b" by (metis set_take_subset)
  then show ?thesis by auto
qed

lemma replace_first_comma: "CHR '','' \<in> set b \<Longrightarrow> CHR '','' \<in> set (replace_once old (x @ '','') b)"
  by (auto simp: replace_once_def split: option.splits)

lemma register_pair_labels:
  assumes "is_target T" "register_pair T a b c r = Inr (Some (x, y))"
  shows "\<not> is_label a \<and> \<not> is_label b \<and> \<not> is_label c \<and> \<not> is_label (strip x) \<and> \<not> is_label (strip y)"
proof -
  let ?binary = "list_ex (\<lambda>m. starts_with (m @ '' '' @ accumulator T @ '','') b) binary_operations"
  from assms(2) obtain source register where r: "register \<in> set (non_acc_registers T)"
    and a: "after_prefix (''mov '' @ accumulator T @ '', '') a = Some source"
    and c: "mov_operands c = Some (register, accumulator T)"
    and x: "x = instruction (''mov '' @ register @ '', '' @ source)"
    and b: "?binary \<and> y = instruction (replace_once (accumulator T @ '','') (register @ '','') b) \<or>
      b \<in> {''inc '' @ accumulator T, ''dec '' @ accumulator T} \<and>
      y \<in> {instruction (''inc '' @ register), instruction (''dec '' @ register)}"
    unfolding register_pair_def Let_def by (auto split: option.splits if_splits)
  from b have "\<not> is_label b \<and> \<not> is_label (strip y)"
  proof (elim disjE conjE)
    assume "?binary" and y: "y = instruction (replace_once (accumulator T @ '','') (register @ '','') b)"
    then have "CHR '' '' \<in> set b" "CHR '','' \<in> set b" using binary_operation_text by blast+
    with y replace_first_comma [of b "accumulator T @ '',''" register] show ?thesis by (simp add: instruction_def)
  next
    assume "b \<in> {''inc '' @ accumulator T, ''dec '' @ accumulator T}"
      "y \<in> {instruction (''inc '' @ register), instruction (''dec '' @ register)}"
    then show ?thesis using register_line [OF assms(1) r, of "''inc ''"] register_line [OF assms(1) r, of "''dec ''"] by auto
  qed
  moreover have "\<not> is_label (strip x)" unfolding x by (simp add: instruction_def)
  ultimately show ?thesis using a c by (auto dest: spaced_after mov_operands_not_label)
qed

lemma register_arithmetic_quiet:
  "is_target T \<Longrightarrow> register_arithmetic_from T ls = Inr ls' \<Longrightarrow> length ls' \<le> length ls \<and> labels ls' = labels ls"
proof (induction T ls arbitrary: ls' rule: register_arithmetic_from.induct)
  case (1 T a b c r)
  show ?case
  proof (cases "register_pair T (strip a) (strip b) (strip c) r")
    case (Inr p)
    show ?thesis
    proof (cases p)
      case None
      with Inr 1 show ?thesis by (fastforce simp: bind_result_Inr)
    next
      case (Some xy)
      obtain x y where xy: "xy = (x, y)" by fastforce
      from Inr Some xy have "register_pair T (strip a) (strip b) (strip c) r = Inr (Some (x, y))" by simp
      with 1 register_pair_labels [OF 1(3) this] show ?thesis by (fastforce simp: Some xy)
    qed
  qed (use 1 in simp)
qed simp_all

subsection \<open>The whole pipeline\<close>

lemma length_forward_from: "length (forward_from before rest) \<le> length before + length rest"
proof (induction before rest rule: forward_from.induct)
  case (1 before rest)
  show ?case
  proof (cases "length rest < 2")
    case False
    then show ?thesis using 1
      by (subst forward_from.simps) (force simp: Let_def split: option.splits prod.splits)
  qed (simp add: forward_from.simps)
qed

lemma control_passes_length: "length (control_passes ls) \<le> length ls"
proof -
  have "length (peephole_label_forwarding ls) \<le> length ls" for ls
    using length_forward_from [of "[hd ls]" "tl ls"] by (cases ls) (simp_all add: peephole_label_forwarding_def)
  moreover have "length (peephole_dead_code ls) \<le> length ls" "length (peephole_double_jump ls) \<le> length ls"
    "length (peephole_jump_next ls) \<le> length ls" for ls
    using dead_code.scan_length [of "[]" ls] double_jump.scan_length [of "[]" ls] jump_next.scan_length [of "[]" ls]
    by (simp_all add: peephole_dead_code_def peephole_double_jump_def peephole_jump_next_def)
  ultimately show ?thesis unfolding control_passes_def by (meson order_trans)
qed

lemma store_passes_quiet: "is_target T \<Longrightarrow> quiet (store_passes T)"
proof -
  assume T: "is_target T"
  have eq: "store_passes T = peephole_dead_temp_slots T \<circ> (scan (fuse_byte_modify_step T) [] \<circ>
      (peephole_fold_single_write_byte_constant_local T \<circ> (peephole_fold_byte_immediate_through_local T \<circ>
        (scan (store_reload_step T) [] \<circ> (scan (dx_to_memory_step T) [] \<circ>
          (peephole_memory_arithmetic_byte \<circ> peephole_memory_arithmetic T))))))"
    by (simp add: fun_eq_iff store_passes_def peephole_fuse_byte_modify_in_place_def peephole_store_reload_def
        peephole_dx_to_memory_def)
  show ?thesis unfolding eq
    by (intro quiet_comp quiet_scan quiet_dead_temp_slots quiet_single_write quiet_fold_byte quiet_memory_arithmetic_byte
        quiet_memory_arithmetic [OF T] fuse_byte_modify.label_keeping_axioms store_reload.label_keeping_axioms
        dx_to_memory.label_keeping_axioms)
qed

lemma load_passes_quiet: "is_target T \<Longrightarrow> quiet (load_passes T)"
proof -
  assume T: "is_target T"
  have eq: "load_passes T = scan (constant_to_register_step T) [] \<circ> (peephole_narrow_acc_immediate_for_byte_out T \<circ>
      (peephole_memory_arithmetic T \<circ> dedup_register_reloads (si_register T)))"
    by (simp add: fun_eq_iff load_passes_def peephole_constant_to_register_def)
  show ?thesis unfolding eq
    by (intro quiet_comp quiet_scan quiet_narrow quiet_dedup quiet_memory_arithmetic [OF T]
        constant_to_register.label_keeping_axioms)
qed

lemma register_passes_quiet: "quiet (register_passes T)"
proof -
  have eq: "register_passes T = peephole_unused_cld \<circ> (scan byte_mask_step [] \<circ> (scan dead_ah_step [] \<circ>
      (scan (compare_step T) [] \<circ> (scan fold_zero_save_step [] \<circ> (scan (index_through_memory_step T) [] \<circ>
        (scan register_swap_step [] \<circ> peephole_self_move))))))"
    by (simp add: fun_eq_iff register_passes_def peephole_redundant_byte_mask_def peephole_dead_ah_def
        peephole_compare_through_register_def peephole_fold_zero_save_def peephole_index_through_memory_def
        peephole_redundant_register_swap_def)
  show ?thesis unfolding eq
    by (intro quiet_comp quiet_scan quiet_unused_cld quiet_self_move byte_mask.label_keeping_axioms
        dead_ah.label_keeping_axioms compare.label_keeping_axioms fold_zero_save.label_keeping_axioms
        index_through_memory.label_keeping_axioms register_swap.label_keeping_axioms)
qed

lemma final_passes_quiet: "quiet (\<lambda>ls. peephole_redundant_bx T (peephole_dead_test_after_sbb T ls))"
proof -
  have eq: "(\<lambda>ls. peephole_redundant_bx T (peephole_dead_test_after_sbb T ls)) =
      dedup_register_reloads (si_register T) \<circ> (dedup_register_reloads (bx_register T) \<circ> scan (dead_test_step T) [])"
    by (simp add: fun_eq_iff peephole_redundant_bx_def peephole_dead_test_after_sbb_def)
  show ?thesis unfolding eq by (intro quiet_comp quiet_scan quiet_dedup dead_test.label_keeping_axioms)
qed

lemma data_passes_quiet:
  assumes "is_target T" "run_peephole T ls = Inr out"
  shows "length out \<le> length (control_passes ls) \<and> labels out = labels (control_passes ls)"
proof -
  let ?c = "control_passes ls"
  from assms(2) obtain r d where r: "register_arithmetic_from T (load_passes T (store_passes T ?c)) = Inr r"
    and d: "peephole_dead_stores (register_passes T r) = Inr d"
    and out: "out = peephole_redundant_bx T (peephole_dead_test_after_sbb T d)"
    by (auto simp: run_peephole_def bind_result_Inr peephole_register_arithmetic_def)
  note steps = register_arithmetic_quiet [OF assms(1) r] dead_stores_quiet [OF d]
    quiet_length [OF store_passes_quiet [OF assms(1)], of ?c] quiet_labels [OF store_passes_quiet [OF assms(1)], of ?c]
    quiet_length [OF load_passes_quiet [OF assms(1)], of "store_passes T ?c"]
    quiet_labels [OF load_passes_quiet [OF assms(1)], of "store_passes T ?c"]
    quiet_length [OF register_passes_quiet, of T r] quiet_labels [OF register_passes_quiet, of T r]
    quiet_length [OF final_passes_quiet, of T d] quiet_labels [OF final_passes_quiet, of T d]
  then show ?thesis unfolding out by simp
qed

end
