(* ===== verification/Asm_Lines.thy ===== *)
theory Asm_Lines
  imports Step_Simulation
begin

text \<open>
  What a buffer of assembly lines does, as far as labels, jumps and calls go.  The other instructions and the
  conditions of the jumps belong to an arbitrary processor, whose instructions may in turn jump and call by name,
  directly or through a value of the state (a table, a pointer to a function), and return.  Code outside the buffer
  runs to its return: a jump to a name that is no label of the buffer is a tail call of such code; \<open>Exit\<close> stands for
  it and is never a line of a buffer.
\<close>

datatype asm = Lab string | Jmp string | Jcc string string | Other string | Exit string

datatype ('v, 's) effect = Continues 's | Leaves 'v 's | Goes string 's | Calls string 's | Returns 's

text \<open>How a run ends before it falls off the buffer: it returns to its caller, or stops the processor for good.\<close>

datatype 'v ending = Returned | Left 'v | Ran_off

record ('v, 's) processor =
  perform :: "string \<Rightarrow> 's \<Rightarrow> ('v, 's) effect"
  taken :: "string \<Rightarrow> 's \<Rightarrow> bool"
  outside :: "string \<Rightarrow> 's \<Rightarrow> 's"

fun after_label :: "string \<Rightarrow> asm list \<Rightarrow> asm list option" where
  "after_label t [] = None"
| "after_label t (i # rest) = (if i = Lab t then Some rest else after_label t rest)"

definition target_of :: "asm list \<Rightarrow> string \<Rightarrow> asm list" where
  "target_of b t = (case after_label t b of Some rest \<Rightarrow> rest | None \<Rightarrow> [Exit t])"

text \<open>A call runs the code of its target and goes on after the call if that returns.\<close>

fun after_call :: "('v ending option \<times> 's) option \<Rightarrow> asm list \<Rightarrow> (asm, 'v ending, 's) conf" where
  "after_call None rest = Stuck"
| "after_call (Some (Some Returned, s)) rest = Go rest s"
| "after_call (Some (Some e, s)) rest = Stop e s"
| "after_call (Some (None, s)) rest = Stop Ran_off s"

fun asm_do ::
    "('v, 's) processor \<Rightarrow> (asm list \<Rightarrow> string \<Rightarrow> 's \<Rightarrow> ('v ending option \<times> 's) option) \<Rightarrow> (asm, 'v ending, 's) stepper" where
  "asm_do M run b (Lab l) rest s = Go rest s"
| "asm_do M run b (Jmp t) rest s = Go (target_of b t) s"
| "asm_do M run b (Jcc m t) rest s = Go (if taken M m s then target_of b t else rest) s"
| "asm_do M run b (Exit t) rest s = Stop Returned (outside M t s)"
| "asm_do M run b (Other x) rest s =
     (case perform M x s of
        Continues s' \<Rightarrow> Go rest s'
      | Leaves v s' \<Rightarrow> Stop (Left v) s'
      | Goes t s' \<Rightarrow> Go (target_of b t) s'
      | Calls t s' \<Rightarrow> after_call (run b t s') rest
      | Returns s' \<Rightarrow> Stop Returned s')"

definition run_result :: "(asm, 'v ending, 's) stepper \<Rightarrow> asm list \<Rightarrow> asm list \<Rightarrow> 's \<Rightarrow> ('v ending option \<times> 's) option" where
  "run_result nx b x s = (if \<exists>out. exec nx b x s out then Some (THE out. exec nx b x s out) else None)"

text \<open>The steps of runs with calls nested at most \<open>n\<close> deep; every run that ends has such a depth.\<close>

primrec asm_step :: "('v, 's) processor \<Rightarrow> nat \<Rightarrow> (asm, 'v ending, 's) stepper" where
  "asm_step M 0 = asm_do M (\<lambda>b t s. None)"
| "asm_step M (Suc n) = asm_do M (\<lambda>b t s. run_result (asm_step M n) b (target_of b t) s)"

text \<open>A run starts at the first line, or at a label.\<close>

definition entry_of :: "asm list \<Rightarrow> string option \<Rightarrow> asm list" where
  "entry_of b e = (case e of None \<Rightarrow> b | Some t \<Rightarrow> target_of b t)"

definition asm_exec :: "('v, 's) processor \<Rightarrow> asm list \<Rightarrow> string option \<Rightarrow> 's \<Rightarrow> 'v ending option \<times> 's \<Rightarrow> bool" where
  "asm_exec M b e s out \<longleftrightarrow> (\<exists>n. exec (asm_step M n) b (entry_of b e) s out)"

lemma run_result_eq: "run_result nx b x s = Some out \<longleftrightarrow> exec nx b x s out"
proof -
  have "(THE out. exec nx b x s out) = out" if "exec nx b x s out" for out
    by (rule the_equality [where P = "exec nx b x s", OF that exec_deterministic [OF _ that]])
  then show ?thesis unfolding run_result_def by (metis option.discI option.inject)
qed

lemma run_result_same: "(\<And>out. exec nx b x s out \<longleftrightarrow> exec nx b' y s out) \<Longrightarrow> run_result nx b x s = run_result nx b' y s"
proof -
  assume "\<And>out. exec nx b x s out \<longleftrightarrow> exec nx b' y s out"
  then have "exec nx b x s = exec nx b' y s" by (intro ext)
  then show ?thesis by (simp add: run_result_def)
qed

definition asm_labels :: "asm list \<Rightarrow> string list" where
  "asm_labels b = concat (map (\<lambda>i. case i of Lab l \<Rightarrow> [l] | _ \<Rightarrow> []) b)"

lemma asm_labels_simps [simp]:
  "asm_labels [] = []" "asm_labels (Lab l # b) = l # asm_labels b" "asm_labels (Jmp t # b) = asm_labels b"
  "asm_labels (Jcc m t # b) = asm_labels b" "asm_labels (Other x # b) = asm_labels b"
  "asm_labels (Exit t # b) = asm_labels b" "asm_labels (xs @ ys) = asm_labels xs @ asm_labels ys"
  by (simp_all add: asm_labels_def)

fun jumps_to :: "asm \<Rightarrow> string option" where
  "jumps_to (Jmp t) = Some t"
| "jumps_to (Jcc m t) = Some t"
| "jumps_to _ = None"

lemma after_label_None: "after_label t b = None \<longleftrightarrow> t \<notin> set (asm_labels b)"
  by (induction t b rule: after_label.induct) (auto split: asm.splits simp: asm_labels_def)

lemma after_label_append:
  "after_label t (xs @ ys) = (case after_label t xs of Some rest \<Rightarrow> Some (rest @ ys) | None \<Rightarrow> after_label t ys)"
  by (induction t xs rule: after_label.induct) auto

lemma after_label_suffix: "after_label t b = Some rest \<Longrightarrow> suffix (Lab t # rest) b"
  by (induction t b rule: after_label.induct) (auto split: if_splits intro: suffix_ConsI)

lemma asm_step_simps [simp]:
  "asm_step M n b (Lab l) rest s = Go rest s"
  "asm_step M n b (Jmp t) rest s = Go (target_of b t) s"
  "asm_step M n b (Jcc m t) rest s = Go (if taken M m s then target_of b t else rest) s"
  "asm_step M n b (Exit t) rest s = Stop Returned (outside M t s)"
  by (cases n; simp)+

lemma silent_Lab: "silent (asm_step M n) b (Lab l # rest) rest"
  and silent_Jmp: "silent (asm_step M n) b (Jmp t # rest) (target_of b t)"
  by (simp_all add: silent_def)

text \<open>A deeper bound allows the same runs and more, so a run has one result.\<close>

lemma asm_step_deeper: "exec (asm_step M n) b x s out \<Longrightarrow> exec (asm_step M (Suc n)) b x s out"
proof (induction n arbitrary: x s out)
  case 0
  have "asm_step M (Suc 0) b i rest s = c" if "asm_step M 0 b i rest s = c" "c \<noteq> Stuck" for i rest s c
    using that by (cases i) (auto split: effect.splits)
  with 0 show ?case
    by (induction rule: exec.induct) (metis exec.intros conf.distinct(1,3))+
next
  case (Suc n)
  have "asm_step M (Suc (Suc n)) b i rest s = c" if "asm_step M (Suc n) b i rest s = c" "c \<noteq> Stuck" for i rest s c
  proof -
    have "run_result (asm_step M (Suc n)) b (target_of b t) u = Some out"
      if "run_result (asm_step M n) b (target_of b t) u = Some out" for t u out
      using that Suc.IH unfolding run_result_eq by blast
    then have "after_call (run_result (asm_step M (Suc n)) b (target_of b t) u) rest =
        after_call (run_result (asm_step M n) b (target_of b t) u) rest"
      if "after_call (run_result (asm_step M n) b (target_of b t) u) rest \<noteq> Stuck" for t u
      using that by (cases "run_result (asm_step M n) b (target_of b t) u") auto
    with that show ?thesis by (cases i) (auto split: effect.splits)
  qed
  with Suc.prems show ?case
    by (induction rule: exec.induct) (metis exec.intros conf.distinct(1,3))+
qed

lemma asm_exec_deterministic: "asm_exec M b e s out \<Longrightarrow> asm_exec M b e s out' \<Longrightarrow> out = out'"
proof -
  have "exec (asm_step M (n + k)) b x s out" if "exec (asm_step M n) b x s out" for n k x s out
    using that by (induction k) (auto intro: asm_step_deeper simp del: asm_step.simps)
  then show "asm_exec M b e s out \<Longrightarrow> asm_exec M b e s out' \<Longrightarrow> out = out'"
    unfolding asm_exec_def by (metis add.commute exec_deterministic)
qed

subsection \<open>Two buffers that do the same\<close>

text \<open>The names that the instructions of a body, other than its jumps, may jump to or call.\<close>

definition reached :: "('v, 's) processor \<Rightarrow> asm list \<Rightarrow> string set" where
  "reached M b = {t. \<exists>x s s'. Other x \<in> set b \<and> (perform M x s = Goes t s' \<or> perform M x s = Calls t s')}"

definition dropped :: "asm list \<Rightarrow> asm list \<Rightarrow> string set" where
  "dropped b b' = set (asm_labels b) - set (asm_labels b')"

text \<open>
  The second body has no label and no other instruction of its own; if none of the labels it lacks is reached, it has the
  runs of the first from every entry it has.
\<close>

definition keeps :: "('v, 's) processor \<Rightarrow> asm list \<Rightarrow> asm list \<Rightarrow> bool" where
  "keeps M b b' \<longleftrightarrow>
     set (asm_labels b') \<subseteq> set (asm_labels b) \<and> (\<forall>x. Other x \<in> set b' \<longrightarrow> Other x \<in> set b) \<and>
     (reached M b \<inter> dropped b b' = {} \<longrightarrow>
       (\<forall>e s out. e \<notin> Some ` dropped b b' \<longrightarrow> (asm_exec M b' e s out \<longleftrightarrow> asm_exec M b e s out)))"

lemma keeps_refl [simp]: "keeps M b b"
  by (simp add: keeps_def)

lemma reached_mono: "(\<And>x. Other x \<in> set b' \<Longrightarrow> Other x \<in> set b) \<Longrightarrow> reached M b' \<subseteq> reached M b"
  unfolding reached_def by blast

lemma keeps_trans:
  assumes "keeps M a b" "keeps M b c"
  shows "keeps M a c"
proof -
  have d: "dropped a b \<subseteq> dropped a c" "dropped b c \<subseteq> dropped a c"
    using assms by (auto simp: keeps_def dropped_def)
  moreover have "reached M b \<subseteq> reached M a" using assms(1) by (intro reached_mono) (simp add: keeps_def)
  ultimately have "reached M a \<inter> dropped a b = {}" "reached M b \<inter> dropped b c = {}" if "reached M a \<inter> dropped a c = {}"
    using that by blast+
  with assms d show ?thesis unfolding keeps_def by (meson image_mono order_trans subsetD)
qed

subsection \<open>Redirecting jumps\<close>

fun redirect :: "string \<Rightarrow> string \<Rightarrow> asm \<Rightarrow> asm" where
  "redirect old new (Jmp t) = Jmp (if t = old then new else t)"
| "redirect old new (Jcc m t) = Jcc m (if t = old then new else t)"
| "redirect old new i = i"

lemma redirect_same [simp]: "redirect l l i = i"
  by (cases i) auto

lemma redirect_Lab [simp]: "redirect old new i = Lab l \<longleftrightarrow> i = Lab l"
  by (cases i) auto

lemma asm_labels_redirected [simp]: "asm_labels (map (redirect old new) b) = asm_labels b"
proof (induction b)
  case (Cons i b)
  then show ?case by (cases i) auto
qed simp

lemma redirect_Other [simp]: "redirect old new i = Other x \<longleftrightarrow> i = Other x" "Other x = redirect old new i \<longleftrightarrow> i = Other x"
  by (cases i; auto)+

lemma Other_redirected [simp]: "Other x \<in> set (map (redirect old new) b) \<longleftrightarrow> Other x \<in> set b"
  by (auto simp: image_iff)

lemma after_label_redirect [simp]:
  "after_label t (map (redirect old new) b) = map_option (map (redirect old new)) (after_label t b)"
  by (induction t b rule: after_label.induct) auto

subsection \<open>One window of a body\<close>

text \<open>
  The body \<open>p @ x @ r\<close> becomes \<open>p' @ y @ r'\<close>, where \<open>p'\<close> and \<open>r'\<close> are \<open>p\<close> and \<open>r\<close> with the jumps to \<open>old\<close> redirected.
  \<open>window_pair\<close> relates the places before the window, after it and outside, and its start when \<open>start\<close> holds.
\<close>

definition window_pair :: "asm list \<Rightarrow> asm list \<Rightarrow> asm list \<Rightarrow> asm list \<Rightarrow> string \<Rightarrow> string \<Rightarrow> bool \<Rightarrow>
    asm list \<Rightarrow> asm list \<Rightarrow> bool" where
  "window_pair p x y r old new start z z' \<longleftrightarrow>
     (\<exists>q. suffix q p \<and> (q \<noteq> [] \<or> start) \<and> z = q @ x @ r \<and> z' = map (redirect old new) q @ y @ map (redirect old new) r) \<or>
     suffix z r \<and> z' = map (redirect old new) z \<or>
     (\<exists>t. z = [Exit t] \<and> z' = [Exit t])"

lemma window_before: "suffix q p \<Longrightarrow> q \<noteq> [] \<Longrightarrow>
    window_pair p x y r old new start (q @ x @ r) (map (redirect old new) q @ y @ map (redirect old new) r)"
  and window_after: "suffix z r \<Longrightarrow> window_pair p x y r old new start z (map (redirect old new) z)"
  and window_out: "window_pair p x y r old new start [Exit t] [Exit t]"
  and window_start: "window_pair p x y r old new True (x @ r) (y @ map (redirect old new) r)"
  unfolding window_pair_def by auto

abbreviation redirected :: "string \<Rightarrow> string \<Rightarrow> asm list \<Rightarrow> asm list" where
  "redirected old new \<equiv> map (redirect old new)"

abbreviation window_rel :: "('v, 's) processor \<Rightarrow> nat \<Rightarrow> asm list \<Rightarrow> asm list \<Rightarrow> asm list \<Rightarrow> asm list \<Rightarrow> string \<Rightarrow> string \<Rightarrow>
    bool \<Rightarrow> asm list \<Rightarrow> asm list \<Rightarrow> bool" where
  "window_rel M n p x y r old new start \<equiv>
     related_by (asm_step M n) (p @ x @ r) (redirected old new p @ y @ redirected old new r) (window_pair p x y r old new start)"

lemma after_call_eq: "rel z z' \<Longrightarrow> conf_eq rel (after_call out z) (after_call out z')"
  by (cases "(out, z)" rule: after_call.cases) auto

text \<open>One instruction, with the places it may go to related, and the calls it makes with the same result.\<close>

lemma same_step:
  assumes "rel z z'" "\<And>t. jumps_to i = Some t \<Longrightarrow> rel (target_of b t) (target_of b' (if t = old then new else t))"
    and "\<And>x s t s'. i = Other x \<Longrightarrow> perform M x s = Goes t s' \<Longrightarrow> rel (target_of b t) (target_of b' t)"
    and "\<And>x s t s'. i = Other x \<Longrightarrow> perform M x s = Calls t s' \<Longrightarrow> run b t s' = run b' t s'"
  shows "equi_step (asm_do M run) b b' rel (i # z) (redirect old new i # z')"
proof (cases i)
  case (Other x)
  have "conf_eq rel (asm_do M run b i z s) (asm_do M run b' i z' s)" for s
    using assms(1,3,4) Other by (cases "perform M x s") (auto simp: after_call_eq)
  then show ?thesis using Other by (auto simp: equi_step_def)
qed (use assms in \<open>auto simp: equi_step_def\<close>)

lemma window_pairE:
  assumes "window_pair p x y r old new start z z'"
  obtains (before) i q where "suffix (i # q) p" "z = i # q @ x @ r" "z' = redirect old new i # redirected old new q @ y @ redirected old new r"
    | (here) "start" "z = x @ r" "z' = y @ redirected old new r"
    | (after) "suffix z r" "z' = redirected old new z"
    | (out) t where "z = [Exit t]" "z' = [Exit t]"
proof -
  from assms consider (1) q where "suffix q p" "q \<noteq> [] \<or> start" "z = q @ x @ r" "z' = redirected old new q @ y @ redirected old new r"
    | (2) "suffix z r" "z' = redirected old new z" | (3) t where "z = [Exit t]" "z' = [Exit t]"
    unfolding window_pair_def by blast
  then show thesis
  proof cases
    case 1
    with that(1,2) show thesis by (cases q) auto
  qed (use that in blast)+
qed

lemma window_sound:
  fixes p x y r :: "asm list" and old new :: string
  defines "b \<equiv> p @ x @ r" and "b' \<equiv> redirected old new p @ y @ redirected old new r"
  assumes entry: "\<And>n. \<not> start \<Longrightarrow> window_rel M n p x y r old new start (x @ r) (y @ redirected old new r)"
    and joint: "\<And>n. start \<Longrightarrow> equi_step (asm_step M n) b b' (window_rel M n p x y r old new start) (x @ r) (y @ redirected old new r)"
    and targets: "\<And>n i t. i \<in> set (p @ r) \<Longrightarrow> jumps_to i = Some t \<Longrightarrow>
      window_rel M n p x y r old new start (target_of b t) (target_of b' (if t = old then new else t))"
    and free: "\<And>n t. t \<notin> dropped b b' \<Longrightarrow> window_rel M n p x y r old new start (target_of b t) (target_of b' t)"
    and labels: "set (asm_labels y) \<subseteq> set (asm_labels x)" and others: "\<And>z. Other z \<in> set y \<Longrightarrow> Other z \<in> set x"
  shows "keeps M b b'"
proof -
  let ?rel = "\<lambda>n. window_rel M n p x y r old new start"
  have here: "?rel n (x @ r) (y @ redirected old new r)" for n
    using entry by (cases "start") (auto intro: related_byI window_start)
  have inside: "?rel n (q @ x @ r) (redirected old new q @ y @ redirected old new r)" if "suffix q p" for n q
    using that here by (cases "q = []") (auto intro: related_byI window_before)
  have same: "exec (asm_step M n) b z s out \<longleftrightarrow> exec (asm_step M n) b' z' s out"
    if reach: "reached M b \<inter> dropped b b' = {}" and "?rel n z z'" for n z z' s out
    using that(2)
  proof (induction n arbitrary: z z' s out rule: less_induct)
    case (less n)
    have IH: "exec (asm_step M m) b u s out \<longleftrightarrow> exec (asm_step M m) b' u' s out" if "n = Suc m" "?rel m u u'" for m u u' s out
      using less.IH [of m] that by blast
    have goes: "?rel n (target_of b t) (target_of b' t)"
      if "Other v \<in> set (p @ r)" "perform M v s = Goes t s' \<or> perform M v s = Calls t s'" for n v t s s'
    proof (rule free)
      have "t \<in> reached M b" using that by (auto simp: reached_def b_def)
      with reach show "t \<notin> dropped b b'" by blast
    qed
    obtain run where run: "asm_step M n = asm_do M run" and
      calls: "\<And>v t s s'. Other v \<in> set (p @ r) \<Longrightarrow> perform M v s = Calls t s' \<Longrightarrow> run b t s' = run b' t s'"
    proof (cases n)
      case (Suc m)
      have "run_result (asm_step M m) b (target_of b t) s' = run_result (asm_step M m) b' (target_of b' t) s'"
        if "Other v \<in> set (p @ r)" "perform M v s = Calls t s'" for v t s s'
        by (rule run_result_same, rule IH [OF Suc goes]) (use that in auto)
      with Suc that [of "\<lambda>b t s. run_result (asm_step M m) b (target_of b t) s"] show thesis by simp
    qed (use that [of "\<lambda>b t s. None"] in simp)
    have step: "equi_step (asm_step M n) b b' (?rel n) (i # u) (redirect old new i # u')"
      if "i \<in> set (p @ r)" "?rel n u u'" for i u u'
      unfolding run
    proof (rule same_step)
      show "related_by (asm_do M run) (p @ x @ r) (redirected old new p @ y @ redirected old new r)
          (window_pair p x y r old new start) u u'" using that(2) unfolding run .
      show "related_by (asm_do M run) (p @ x @ r) (redirected old new p @ y @ redirected old new r)
          (window_pair p x y r old new start) (target_of b t) (target_of b' (if t = old then new else t))"
        if "jumps_to i = Some t" for t
        by (rule targets [of i t n, unfolded run, OF \<open>i \<in> set (p @ r)\<close> that])
      show "related_by (asm_do M run) (p @ x @ r) (redirected old new p @ y @ redirected old new r)
          (window_pair p x y r old new start) (target_of b t) (target_of b' t)"
        if "i = Other v" "perform M v s = Goes t s'" for v t s s'
        by (rule goes [of v s t s' n, unfolded run]) (use that \<open>i \<in> set (p @ r)\<close> in auto)
      show "run b t s' = run b' t s'" if "i = Other v" "perform M v s = Calls t s'" for v t s s'
        using calls that \<open>i \<in> set (p @ r)\<close> by blast
    qed
    show ?case
      unfolding b_def b'_def
    proof (rule base_sound)
      show "?rel n z z'" by (rule less.prems)
      fix z z' assume "window_pair p x y r old new start z z'"
      then show "(z = [] \<and> z' = []) \<or>
        equi_step (asm_step M n) (p @ x @ r) (redirected old new p @ y @ redirected old new r) (?rel n) z z'"
      proof (cases rule: window_pairE)
        case (before i q)
        then show ?thesis using step [of i "q @ x @ r", unfolded b_def b'_def] inside [of q n]
          by (auto dest: suffix_in_set suffix_tl)
      next
        case here
        with joint [of n] show ?thesis by (simp add: b_def b'_def)
      next
        case after
        then show ?thesis
        proof (cases z)
          case (Cons i q)
          with after have "?rel n q (redirected old new q)" by (auto intro: related_byI window_after dest: suffix_tl)
          with step [of i q, unfolded b_def b'_def] Cons after show ?thesis by (auto dest: suffix_in_set)
        qed simp
      next
        case (out t)
        then show ?thesis by (simp add: equi_step_def)
      qed
    qed
  qed
  have start: "?rel n b b'" for n using inside [of p n] by (simp add: b_def b'_def)
  have "asm_exec M b' e s out \<longleftrightarrow> asm_exec M b e s out"
    if "reached M b \<inter> dropped b b' = {}" "e \<notin> Some ` dropped b b'" for e s out
  proof -
    have "?rel n (entry_of b e) (entry_of b' e)" for n
    proof (cases e)
      case (Some t)
      then have "t \<notin> dropped b b'" using that(2) by blast
      from free [OF this] Some show ?thesis by (simp add: entry_of_def)
    qed (use start in \<open>simp add: entry_of_def\<close>)
    with same [OF that(1)] show ?thesis unfolding asm_exec_def by blast
  qed
  moreover have "set (asm_labels b') \<subseteq> set (asm_labels b)" using labels by (auto simp: b_def b'_def)
  moreover have "Other z \<in> set b" if "Other z \<in> set b'" for z
    using that others by (auto simp: b_def b'_def)
  ultimately show ?thesis unfolding keeps_def by blast
qed

subsection \<open>The rewrites of the jump passes\<close>

lemma redirected_same [simp]: "redirected l l b = b"
  by (simp add: map_idI)

lemma target_of_append:
  "target_of (xs @ ys) t = (case after_label t xs of Some rest \<Rightarrow> rest @ ys | None \<Rightarrow> target_of ys t)"
  by (auto simp: target_of_def after_label_append split: option.splits)

lemma window_target:
  assumes here: "window_rel M n p x y r old new start (x @ r) (y @ redirected old new r)"
    and "t \<notin> set (asm_labels x)" "t \<notin> set (asm_labels y)"
  shows "window_rel M n p x y r old new start (target_of (p @ x @ r) t)
    (target_of (redirected old new p @ y @ redirected old new r) t)"
proof (cases "after_label t p")
  case (Some q)
  then have "suffix q p" by (auto dest!: after_label_suffix suffix_tl)
  with Some here show ?thesis
    by (cases "q = []") (auto simp: target_of_append intro: related_byI window_before)
next
  case None
  with assms(2,3) have "after_label t x = None" "after_label t y = None" by (simp_all add: after_label_None)
  with None have eq: "target_of (p @ x @ r) t = target_of r t"
    "target_of (redirected old new p @ y @ redirected old new r) t = target_of (redirected old new r) t"
    by (simp_all add: target_of_append)
  show ?thesis unfolding eq
    by (cases "after_label t r")
       (auto simp: target_of_def intro!: related_byI window_after window_out dest!: after_label_suffix suffix_tl)
qed

lemma target_of_window: "t \<notin> set (asm_labels p) \<Longrightarrow> target_of (p @ ys) t = target_of ys t"
  by (simp add: target_of_append flip: after_label_None)

lemma dead_line_sound:
  assumes "\<And>l. i \<noteq> Lab l"
  shows "keeps M (p @ Jmp t # i # r) (p @ Jmp t # r)"
proof -
  let ?rel = "\<lambda>n. window_rel M n p [Jmp t, i] [Jmp t] r [] [] True"
  let ?b = "p @ [Jmp t, i] @ r" and ?b' = "redirected [] [] p @ [Jmp t] @ redirected [] [] r"
  have here: "?rel n ([Jmp t, i] @ r) ([Jmp t] @ redirected [] [] r)" for n by (intro related_byI window_start)
  have no: "asm_labels [Jmp t, i] = []" using assms by (cases i) auto
  have tg: "?rel n (target_of ?b u) (target_of ?b' u)" for n u
    by (rule window_target [OF here]) (use no in auto)
  have "keeps M ?b ?b'"
  proof (rule window_sound)
    show "equi_step (asm_step M n) ?b ?b' (?rel n) ([Jmp t, i] @ r) ([Jmp t] @ redirected [] [] r)" for n
      using tg [of n t] by (auto simp: equi_step_def)
    show "?rel n (target_of ?b u) (target_of ?b' (if u = [] then [] else u))" for n u
      using tg [of n u] by (cases u) auto
    show "?rel n (target_of ?b u) (target_of ?b' u)" for n u by (rule tg)
  qed simp_all
  then show ?thesis by simp
qed

lemma jump_to_next_sound:
  assumes "t \<notin> set (asm_labels p)"
  shows "keeps M (p @ Jmp t # Lab t # r) (p @ Lab t # r)"
proof -
  let ?x = "[Jmp t, Lab t]" and ?y = "[Lab t]"
  let ?rel = "\<lambda>n. window_rel M n p ?x ?y r t t False"
  let ?b = "p @ ?x @ r" and ?b' = "redirected t t p @ ?y @ redirected t t r"
  have target: "target_of ?b t = r" "target_of (p @ ?y @ r) t = r"
    using assms by (simp_all add: target_of_window) (simp_all add: target_of_def)
  have after: "?rel n r r" for n using window_after [of r r p ?x ?y t t False] by (auto intro: related_byI)
  have here: "?rel n (?x @ r) (?y @ redirected t t r)" for n
    using related_by_left [OF silent_Jmp [of M n ?b t "Lab t # r"] related_by_right [OF silent_Lab]] after target
    by simp
  have tg: "?rel n (target_of ?b u) (target_of ?b' u)" for n u
    using window_target [OF here, of u] target after by (cases "u = t") auto
  have "keeps M ?b ?b'"
  proof (rule window_sound)
    show "?rel n (?x @ r) (?y @ redirected t t r)" for n by (rule here)
    show "?rel n (target_of ?b u) (target_of ?b' (if u = t then t else u))" for n u
      using tg [of n u] by (cases "u = t") auto
    show "?rel n (target_of ?b u) (target_of ?b' u)" for n u by (rule tg)
  qed simp_all
  then show ?thesis by simp
qed

lemma jump_over_sound:
  assumes inverse: "\<And>s. taken M m' s \<longleftrightarrow> \<not> taken M m s" and "l \<notin> set (asm_labels p)"
  shows "keeps M (p @ Jcc m l # Jmp t # Lab l # r) (p @ Jcc m' t # Lab l # r)"
proof -
  let ?x = "[Jcc m l, Jmp t, Lab l]" and ?y = "[Jcc m' t, Lab l]"
  let ?rel = "\<lambda>n. window_rel M n p ?x ?y r l l True"
  let ?b = "p @ ?x @ r" and ?b' = "redirected l l p @ ?y @ redirected l l r"
  have target: "target_of ?b l = r" "target_of (p @ ?y @ r) l = r"
    using assms(2) by (simp_all add: target_of_window) (simp_all add: target_of_def)
  have after: "?rel n r r" for n using window_after [of r r p ?x ?y l l True] by (auto intro: related_byI)
  have here: "?rel n (?x @ r) (?y @ redirected l l r)" for n by (intro related_byI window_start)
  have tg: "?rel n (target_of ?b u) (target_of ?b' u)" for n u
    using window_target [OF here, of u] target after by (cases "u = l") auto
  have jump: "?rel n (Jmp t # Lab l # r) (target_of (p @ ?y @ r) t)" for n
    using related_by_left [OF silent_Jmp [of M n ?b t "Lab l # r"]] tg [of n t] by simp
  have fall: "?rel n r (Lab l # r)" for n using related_by_right [OF silent_Lab after] .
  have "keeps M ?b ?b'"
  proof (rule window_sound)
    show "equi_step (asm_step M n) ?b ?b' (?rel n) (?x @ r) (?y @ redirected l l r)" for n
      using jump [of n] fall [of n] target inverse by (auto simp: equi_step_def)
    show "?rel n (target_of ?b u) (target_of ?b' (if u = l then l else u))" for n u
      using tg [of n u] by (cases "u = l") auto
    show "?rel n (target_of ?b u) (target_of ?b' u)" for n u by (rule tg)
  qed simp_all
  then show ?thesis by simp
qed

lemma drop_label_sound:
  assumes "\<And>i. i \<in> set (p @ r) \<Longrightarrow> jumps_to i \<noteq> Some l" "l \<notin> set (asm_labels (p @ r))"
  shows "keeps M (p @ Lab l # r) (p @ r)"
proof -
  let ?rel = "\<lambda>n. window_rel M n p [Lab l] [] r l l False"
  let ?b = "p @ [Lab l] @ r" and ?b' = "redirected l l p @ [] @ redirected l l r"
  have "?rel n r r" for n using window_after [of r r p "[Lab l]" "[]" l l False] by (auto intro: related_byI)
  from related_by_left [OF silent_Lab this] have here: "?rel n ([Lab l] @ r) ([] @ redirected l l r)" for n by simp
  have tg: "?rel n (target_of ?b u) (target_of ?b' u)" if "u \<noteq> l" for n u
    using window_target [OF here, of u] that by auto
  have "keeps M ?b ?b'"
  proof (rule window_sound)
    show "?rel n ([Lab l] @ r) ([] @ redirected l l r)" for n by (rule here)
    show "?rel n (target_of ?b u) (target_of ?b' (if u = l then l else u))"
      if "i \<in> set (p @ r)" "jumps_to i = Some u" for n i u
      using tg [of u n] assms(1) that by auto
    show "?rel n (target_of ?b u) (target_of ?b' u)" if "u \<notin> dropped ?b ?b'" for n u
      using tg [of u n] that assms(2) by (cases "u = l") (auto simp: dropped_def)
  qed simp_all
  then show ?thesis by simp
qed

lemma trampoline_sound:
  assumes "l \<notin> set (asm_labels (p @ r))" "t \<noteq> l"
  shows "keeps M (p @ Jmp u # Lab l # Jmp t # r) (redirected l t p @ redirect l t (Jmp u) # redirected l t r)"
proof -
  let ?x = "[Jmp u, Lab l, Jmp t]" and ?y = "[redirect l t (Jmp u)]"
  let ?rel = "\<lambda>n. window_rel M n p ?x ?y r l t True"
  let ?b = "p @ ?x @ r" and ?b' = "redirected l t p @ ?y @ redirected l t r"
  have target: "target_of ?b l = Jmp t # r"
    using assms(1) by (simp add: target_of_window) (simp add: target_of_def)
  have here: "?rel n (?x @ r) (?y @ redirected l t r)" for n by (intro related_byI window_start)
  have same: "?rel n (target_of ?b v) (target_of ?b' v)" if "v \<noteq> l" for n v
    using window_target [OF here, of v] that by auto
  have tg: "?rel n (target_of ?b v) (target_of ?b' (if v = l then t else v))" for n v
  proof (cases "v = l")
    case True
    from related_by_left [OF silent_Jmp same [OF assms(2)]] show ?thesis using True target by simp
  qed (use same in simp)
  have "keeps M ?b ?b'"
  proof (rule window_sound)
    show "equi_step (asm_step M n) ?b ?b' (?rel n) (?x @ r) (?y @ redirected l t r)" for n
      using tg [of n u] by (auto simp: equi_step_def)
    show "?rel n (target_of ?b v) (target_of ?b' (if v = l then t else v))" for n v by (rule tg)
    show "?rel n (target_of ?b v) (target_of ?b' v)" if "v \<notin> dropped ?b ?b'" for n v
      using same [of v n] that assms(1) by (cases "v = l") (auto simp: dropped_def)
  qed simp_all
  then show ?thesis by simp
qed

end
