(* ===== verification/Peephole_Control.thy ===== *)
theory Peephole_Control
  imports Peephole_Windows Asm_Lines
begin

text \<open>
  The jump passes keep what a buffer does.  A buffer is read as labels, jumps and other instructions; each
  window of a pass is one of the rewrites of \<open>Asm_Lines\<close>.
\<close>

subsection \<open>White space and words\<close>

definition white_free :: "string \<Rightarrow> bool" where
  "white_free s = list_all (\<lambda>c. \<not> is_white c) s"

definition blank :: "string \<Rightarrow> bool" where
  "blank s = list_all is_white s"

lemma blank_space [simp]: "blank ''        ''" "is_white (CHR '' '')"
  by (simp_all add: blank_def is_white_def code_def)

lemma lstrip_blank: "blank w \<Longrightarrow> lstrip (w @ s) = lstrip s"
  by (simp add: blank_def lstrip_def list_all_iff dropWhile_append)

lemma lstrip_word: "s \<noteq> [] \<Longrightarrow> \<not> is_white (hd s) \<Longrightarrow> lstrip s = s"
  by (cases s) (simp_all add: lstrip_def)

lemma strip_core:
  assumes "s \<noteq> []" "\<not> is_white (hd s)" "\<not> is_white (last s)" "blank w" "blank w'"
  shows "strip (w @ s @ w') = s"
proof -
  have "lstrip (w @ s @ w') = s @ w'" using assms by (simp add: lstrip_blank lstrip_word)
  moreover have "lstrip (rev w' @ rev s) = rev s"
    using assms by (subst lstrip_blank) (auto simp: blank_def list_all_iff hd_rev intro: lstrip_word)
  ultimately show ?thesis by (simp add: strip_def rstrip_white_def)
qed

lemma strip_ends:
  "\<exists>w w'. l = w @ strip l @ w' \<and> blank w \<and> blank w'"
proof -
  let ?w = "takeWhile is_white l" and ?v = "takeWhile is_white (rev (lstrip l))"
  have "l = ?w @ lstrip l" by (simp add: lstrip_def)
  moreover have "rev (lstrip l) = ?v @ lstrip (rev (lstrip l))" by (simp add: lstrip_def)
  then have "lstrip l = strip l @ rev ?v" unfolding strip_def rstrip_white_def by (metis rev_append rev_rev_ident)
  moreover have "blank ?w" "blank (rev ?v)" by (auto simp: blank_def list_all_iff dest: set_takeWhileD)
  ultimately show ?thesis by metis
qed

lemma words_blank: "blank w \<Longrightarrow> words (w @ s) = words s"
  by (subst words.simps, subst (2) words.simps) (simp add: lstrip_blank)

lemma words_Nil [simp]: "words [] = []"
  by (simp add: words.simps lstrip_def)

lemma words_word:
  assumes "white_free m" "m \<noteq> []" "s = [] \<or> is_white (hd s)"
  shows "words (m @ s) = m # words s"
proof -
  have l: "lstrip (m @ s) = m @ s" using assms by (intro lstrip_word) (auto simp: white_free_def list_all_iff)
  have "takeWhile (\<lambda>c. \<not> is_white c) (m @ s) = m" "dropWhile (\<lambda>c. \<not> is_white c) (m @ s) = s"
    using assms by (cases s; auto simp: white_free_def list_all_iff takeWhile_append dropWhile_append)+
  with l assms(2) show ?thesis by (subst words.simps) simp
qed

lemma blank_tail: "r = [] \<or> is_white (hd r) \<Longrightarrow> blank w \<Longrightarrow> r @ w = [] \<or> is_white (hd (r @ w))"
  by (cases r; cases w) (auto simp: blank_def)

lemma words_append_blank: "blank w \<Longrightarrow> words (s @ w) = words s"
proof (induction s rule: words.induct)
  case (1 s)
  show ?case
  proof (cases "lstrip s = []")
    case True
    then have "blank s" by (auto simp: lstrip_def blank_def list_all_iff dropWhile_eq_Nil_conv)
    then have "words (s @ w) = words w" "words (s @ []) = words []" by (simp_all only: words_blank)
    with 1(2) words_blank [of w "[]"] show ?thesis by simp
  next
    case False
    let ?m = "takeWhile (\<lambda>c. \<not> is_white c) (lstrip s)" and ?r = "dropWhile (\<lambda>c. \<not> is_white c) (lstrip s)"
    have m: "white_free ?m" by (auto simp: white_free_def list_all_iff dest: set_takeWhileD)
    from False have "\<not> is_white (hd (lstrip s))" by (auto simp: lstrip_def hd_dropWhile)
    with False have ne: "?m \<noteq> []" by (cases "lstrip s") auto
    have r: "?r = [] \<or> is_white (hd ?r)" using hd_dropWhile [of "\<lambda>c. \<not> is_white c" "lstrip s"] by auto
    note rw = blank_tail [OF this 1(2)]
    have s: "s = takeWhile is_white s @ ?m @ ?r" by (simp add: lstrip_def)
    have b: "blank (takeWhile is_white s)" by (auto simp: blank_def list_all_iff dest: set_takeWhileD)
    have "words (s @ w) = words (?m @ ?r @ w)" by (subst s) (simp only: append_assoc words_blank [OF b])
    also have "\<dots> = ?m # words (?r @ w)" by (rule words_word [OF m ne rw])
    also have "\<dots> = ?m # words ?r" using 1 False by simp
    also have "\<dots> = words s" by (subst (2) s) (simp only: words_blank [OF b] words_word [OF m ne r])
    finally show ?thesis .
  qed
qed

lemma words_strip: "words (strip l) = words l"
proof -
  obtain w w' where l: "l = w @ strip l @ w'" "blank w" "blank w'" using strip_ends by blast
  have "words (w @ strip l @ w') = words (strip l)" using l(2,3) by (simp only: words_blank words_append_blank)
  with l(1) show ?thesis by metis
qed

lemma words_free: "m \<in> set (words s) \<Longrightarrow> white_free m \<and> m \<noteq> []"
proof (induction s rule: words.induct)
  case (1 s)
  let ?m = "takeWhile (\<lambda>c. \<not> is_white c) (lstrip s)"
  show ?case
  proof (cases "lstrip s = []")
    case True
    have "words s = []" by (subst words.simps) (simp add: True)
    with 1 show ?thesis by simp
  next
    case False
    then have "\<not> is_white (hd (lstrip s))" by (auto simp: lstrip_def hd_dropWhile)
    with False have "white_free ?m \<and> ?m \<noteq> []"
      by (cases "lstrip s") (auto simp: white_free_def list_all_iff dest: set_takeWhileD)
    moreover have "words s = ?m # words (dropWhile (\<lambda>c. \<not> is_white c) (lstrip s))"
      by (subst words.simps) (simp add: False)
    ultimately show ?thesis using 1 False by auto
  qed
qed

lemma words_pair: "white_free m \<Longrightarrow> m \<noteq> [] \<Longrightarrow> white_free t \<Longrightarrow> t \<noteq> [] \<Longrightarrow> words (m @ '' '' @ t) = [m, t]"
  using words_word [of m "'' '' @ t"] words_word [of t "[]"] words_blank [of "'' ''" t] by (simp add: blank_def)

lemma strip_pair:
  assumes "white_free m" "m \<noteq> []" "white_free t" "t \<noteq> []" "blank w" "blank w'"
  shows "strip (w @ m @ '' '' @ t @ w') = m @ '' '' @ t"
  using strip_core [of "m @ '' '' @ t" w w'] assms by (simp add: white_free_def list_all_iff)

subsection \<open>Lines as labels and jumps\<close>

definition parse_line :: "string \<Rightarrow> asm" where
  "parse_line l =
     (if is_label (strip l) then Lab (butlast (strip l))
      else case words l of
        [m, t] \<Rightarrow> if m = ''jmp'' then Jmp t else if m \<in> set conditional_jumps then Jcc m t else Other (strip l)
      | _ \<Rightarrow> Other (strip l))"

text \<open>
  The shape the emitter gives to jumps and labels: a jump is a mnemonic, one space and one operand; a line that
  ends in a colon and has no space is a label without white space.
\<close>

definition line_ok :: "string \<Rightarrow> bool" where
  "line_ok l =
     ((fst (first_word (strip l)) \<in> set (''jmp'' # conditional_jumps) \<longrightarrow>
        (case words l of [m, t] \<Rightarrow> strip l = m @ '' '' @ t | _ \<Rightarrow> False)) \<and>
      (ends_with '':'' (strip l) \<and> CHR '' '' \<notin> set (strip l) \<longrightarrow> is_label (strip l) \<and> white_free (strip l)))"

definition buffer_ok :: "string list \<Rightarrow> bool" where
  "buffer_ok b =
     (list_all line_ok b \<and> distinct (labels b) \<and>
      list_all (\<lambda>l. list_all (\<lambda>m. \<not> occurs_in (butlast l) m) (''jmp'' # conditional_jumps)) (labels b))"

lemma mnemonics: "m \<in> set (''jmp'' # conditional_jumps) \<Longrightarrow> white_free m \<and> m \<noteq> []"
  by (auto simp: conditional_jumps_def white_free_def is_white_def code_def)

lemma first_word_pair:
  assumes "white_free m" "m \<noteq> []" "white_free t" "t \<noteq> []"
  shows "first_word (m @ '' '' @ t) = (m, t)"
proof -
  have "lstrip (m @ '' '' @ t) = m @ '' '' @ t" "lstrip ('' '' @ t) = t"
    using assms lstrip_word [of "m @ '' '' @ t"] lstrip_blank [of "'' ''" t] lstrip_word [of t]
    by (auto simp: white_free_def list_all_iff blank_def)
  with assms show ?thesis
    by (simp add: first_word_def white_free_def list_all_iff takeWhile_append dropWhile_append)
qed

text \<open>A jump in the shape of the emitter.\<close>

lemma jump_line:
  assumes "line_ok l" "fst (first_word (strip l)) \<in> set (''jmp'' # conditional_jumps)"
  obtains m t where "words l = [m, t]" "strip l = m @ '' '' @ t" "m \<in> set (''jmp'' # conditional_jumps)"
    "white_free t" "t \<noteq> []" "parse_line l = (if m = ''jmp'' then Jmp t else Jcc m t)"
proof -
  from assms obtain m t where w: "words l = [m, t]" and s: "strip l = m @ '' '' @ t"
    by (auto simp: line_ok_def split: list.splits)
  from words_free [of m l] words_free [of t l] w have f: "white_free m" "m \<noteq> []" "white_free t" "t \<noteq> []" by auto
  with first_word_pair s assms(2) have m: "m \<in> set (''jmp'' # conditional_jumps)" by simp
  have "\<not> is_label (strip l)" by (simp add: s)
  with w m have "parse_line l = (if m = ''jmp'' then Jmp t else Jcc m t)" by (auto simp: parse_line_def)
  with that w s m f show thesis by blast
qed

lemma parse_jump:
  assumes "jumps_to (parse_line l) = Some t"
  obtains m where "words l = [m, t]" "m \<in> set (''jmp'' # conditional_jumps)"
  using assms by (auto simp: parse_line_def split: if_splits list.splits)

lemma starts_with_jmp: "starts_with ''jmp '' s \<Longrightarrow> fst (first_word s) = ''jmp''"
proof -
  assume "starts_with ''jmp '' s"
  then obtain r where s: "s = ''jmp'' @ '' '' @ r"
    unfolding starts_with_def by (metis append_take_drop_id append.simps(1,2))
  have "lstrip s = s" unfolding s by (rule lstrip_word) (auto simp: is_white_def code_def)
  then show ?thesis by (simp add: first_word_def s is_white_def code_def)
qed

lemma jmp_line:
  assumes "line_ok l" "starts_with ''jmp '' (strip l)"
  obtains t where "words l = [''jmp'', t]" "strip l = ''jmp '' @ t" "white_free t" "t \<noteq> []" "parse_line l = Jmp t"
proof -
  note f = starts_with_jmp [OF assms(2)]
  with assms(1) obtain m t where w: "words l = [m, t]" "strip l = m @ '' '' @ t" "m \<in> set (''jmp'' # conditional_jumps)"
    "white_free t" "t \<noteq> []" "parse_line l = (if m = ''jmp'' then Jmp t else Jcc m t)"
    by (metis jump_line list.set_intros(1))
  have "m = ''jmp''" using f w mnemonics [OF w(3)] first_word_pair [of m t] by simp
  with that w show thesis by simp
qed

lemma is_label_split: "is_label s \<Longrightarrow> s = butlast s @ '':''"
  by (cases s rule: rev_cases) (auto simp: is_label_def ends_with_def starts_with_def)

lemma parse_label: "is_label (strip l) \<Longrightarrow> parse_line l = Lab (butlast (strip l))"
  by (simp add: parse_line_def)

lemma parse_line_Lab: "parse_line l = Lab n \<longleftrightarrow> is_label (strip l) \<and> n = butlast (strip l)"
  by (auto simp: parse_line_def split: list.splits)

lemma asm_labels_parse: "asm_labels (map parse_line b) = map butlast (labels b)"
proof (induction b)
  case (Cons l b)
  show ?case
  proof (cases "is_label (strip l)")
    case False
    then have "\<And>n. parse_line l \<noteq> Lab n" by (simp add: parse_line_Lab)
    then have "asm_labels (parse_line l # map parse_line b) = asm_labels (map parse_line b)" by (cases "parse_line l") auto
    with Cons False show ?thesis by simp
  qed (use Cons in \<open>simp add: parse_label\<close>)
qed simp

lemma distinct_asm_labels:
  assumes "distinct (labels b)"
  shows "distinct (asm_labels (map parse_line b))"
proof -
  have "inj_on butlast (set (labels b))"
    by (rule inj_onI) (metis is_label_split labels_def filter_set Set.mem_Collect_eq set_filter)
  with assms show ?thesis by (simp add: asm_labels_parse distinct_map)
qed

lemma words_instruction:
  assumes "m \<in> set (''jmp'' # conditional_jumps)" "white_free t" "t \<noteq> []" "blank w" "blank w'"
  shows "line_ok (w @ m @ '' '' @ t @ w')" "parse_line (w @ m @ '' '' @ t @ w') = (if m = ''jmp'' then Jmp t else Jcc m t)"
    "\<not> is_label (strip (w @ m @ '' '' @ t @ w'))"
proof -
  note m = mnemonics [OF assms(1)]
  have s: "strip (w @ m @ '' '' @ t @ w') = m @ '' '' @ t" using m assms by (intro strip_pair) auto
  have "words (m @ '' '' @ t) = [m, t]" using m assms by (intro words_pair) auto
  with s words_strip [of "w @ m @ '' '' @ t @ w'"] have w: "words (w @ m @ '' '' @ t @ w') = [m, t]" by simp
  show n: "\<not> is_label (strip (w @ m @ '' '' @ t @ w'))" unfolding s by simp
  show "line_ok (w @ m @ '' '' @ t @ w')" unfolding line_ok_def w s by simp
  show "parse_line (w @ m @ '' '' @ t @ w') = (if m = ''jmp'' then Jmp t else Jcc m t)"
    using assms(1) by (simp only: parse_line_def w if_not_P [OF n] list.case) auto
qed

subsection \<open>Retargeting a line\<close>

lemma cut_at_first:
  "(\<And>k. k < length pre \<Longrightarrow> \<not> starts_with old (drop k (pre @ old @ post))) \<Longrightarrow>
   cut_at old (pre @ old @ post) = Some (pre, post)"
proof (induction pre)
  case Nil
  show ?case
  proof (cases "old @ post")
    case (Cons c s)
    have "after_prefix old (c # s) = Some post" using Cons by (metis after_prefix_append)
    then have "cut_at old (c # s) = Some ([], post)" by simp
    with Cons show ?thesis by simp
  qed simp
next
  case (Cons c pre)
  from Cons.prems [of 0] have "after_prefix old (c # pre @ old @ post) = None" by (simp add: after_prefix_def)
  moreover have "cut_at old (pre @ old @ post) = Some (pre, post)"
    by (rule Cons.IH) (use Cons.prems [of "Suc _"] in auto)
  ultimately show ?case by simp
qed

lemma cut_at_blank:
  assumes "old \<noteq> []" "white_free old" "blank w"
  shows "cut_at old w = None"
proof (cases "cut_at old w")
  case (Some p)
  then obtain x y where "w = x @ old @ y" using cut_at_split by (metis surj_pair)
  with assms show ?thesis by (cases old) (auto simp: blank_def white_free_def)
qed

lemma label_position:
  assumes "white_free old" "old \<noteq> []" "\<not> occurs_in old m" "blank w" "k < length (w @ m @ '' '')"
  shows "\<not> starts_with old (drop k ((w @ m @ '' '') @ old @ post))"
proof
  assume s: "starts_with old (drop k ((w @ m @ '' '') @ old @ post))"
  then obtain x where x: "drop k ((w @ m @ '' '') @ old @ post) = old @ x"
    unfolding starts_with_def by (metis append_take_drop_id)
  have hd: "\<not> is_white (hd old)" using assms(1,2) by (cases old) (auto simp: white_free_def)
  consider (w) "k < length w" | (m) "length w \<le> k" "k < length w + length m" | (sp) "k = length w + length m"
    using assms(5) by fastforce
  then show False
  proof cases
    case w
    then have "hd (drop k ((w @ m @ '' '') @ old @ post)) = w ! k" by (simp add: hd_drop_conv_nth nth_append)
    moreover have "is_white (w ! k)" using assms(4) w by (simp add: blank_def list_all_iff)
    ultimately show False using x hd assms(2) by simp
  next
    case m
    let ?d = "drop (k - length w) m"
    from m x have e: "?d @ '' '' @ old @ post = old @ x" by simp
    show False
    proof (cases "length old \<le> length ?d")
      case True
      with e have "\<exists>y. ?d = old @ y" by (metis append_eq_append_conv_if append_take_drop_id)
      then obtain y where "m = take (k - length w) m @ old @ y" by (metis append_take_drop_id)
      with assms(3) cut_at_found [of old "take (k - length w) m" y] show False by (metis occurs_in_def option.distinct(1))
    next
      case False
      have "take (length old) (?d @ '' '' @ old @ post) = old" using e by simp
      with False have "CHR '' '' \<in> set old" by (metis (no_types) append_Cons in_set_conv_nth length_drop linorder_not_le nth_append_length nth_take)
      with assms(1) show False by (auto simp: white_free_def list_all_iff)
    qed
  next
    case sp
    then have "drop k ((w @ m @ '' '') @ old @ post) = '' '' @ old @ post" by simp
    with x hd assms(2) show False by (cases old) auto
  qed
qed

lemma replace_label:
  assumes "white_free old" "old \<noteq> []" "\<not> occurs_in old m" "blank w" "blank w'"
  shows "replace_all old new (w @ m @ '' '' @ old @ w') = w @ m @ '' '' @ new @ w'"
proof -
  have "cut_at old ((w @ m @ '' '') @ old @ w') = Some (w @ m @ '' '', w')"
    by (rule cut_at_first) (use label_position assms in blast)
  moreover have "replace_all old new w' = w'"
    using assms cut_at_blank by (subst replace_all.simps) simp
  ultimately show ?thesis using assms(2) by (subst replace_all.simps) simp
qed

lemma retarget_line:
  assumes ok: "line_ok l" and old: "white_free old" "old \<noteq> []" and new: "white_free new" "new \<noteq> []"
    and free: "\<And>m. m \<in> set (''jmp'' # conditional_jumps) \<Longrightarrow> \<not> occurs_in old m"
  shows "line_ok (retarget_jump old new l)" "parse_line (retarget_jump old new l) = redirect old new (parse_line l)"
    "labels [retarget_jump old new l] = labels [l]"
proof -
  obtain m t where f: "first_word (strip l) = (m, t)" by fastforce
  have "line_ok (retarget_jump old new l) \<and> parse_line (retarget_jump old new l) = redirect old new (parse_line l) \<and>
    labels [retarget_jump old new l] = labels [l]"
  proof (cases "m \<in> set (''jmp'' # conditional_jumps) \<and> t = old")
    case True
    with f ok obtain m' t' where j: "strip l = m' @ '' '' @ t'" "m' \<in> set (''jmp'' # conditional_jumps)"
      "white_free t'" "t' \<noteq> []" "parse_line l = (if m' = ''jmp'' then Jmp t' else Jcc m' t')"
      by (metis jump_line fst_conv)
    with f True mnemonics [of m'] have e: "m' = m" "t' = old" using first_word_pair [of m' t'] by auto
    obtain w w' where l: "l = w @ strip l @ w'" "blank w" "blank w'" using strip_ends by blast
    have "retarget_jump old new l = replace_all old new (w @ m @ '' '' @ old @ w')"
      using f True l(1) j(1) e by (simp add: retarget_jump_def)
    also have "\<dots> = w @ m @ '' '' @ new @ w'" using old free True l by (intro replace_label) auto
    finally have r: "retarget_jump old new l = w @ m @ '' '' @ new @ w'" .
    have "\<not> is_label (strip l)" using j(1) by simp
    with words_instruction [of m new w w', folded r] True new l(2,3) j(5) e show ?thesis by simp
  next
    case False
    with f have r: "retarget_jump old new l = l" by (auto simp: retarget_jump_def)
    have "redirect old new (parse_line l) = parse_line l"
    proof (cases "jumps_to (parse_line l) = Some old")
      case True
      then obtain m' where w: "words l = [m', old]" "m' \<in> set (''jmp'' # conditional_jumps)" by (rule parse_jump)
      have "words (strip l) = [m', old]" using w words_strip by simp
      then have "lstrip (strip l) \<noteq> []" by (subst (asm) words.simps) (auto split: if_splits)
      then have "takeWhile (\<lambda>c. \<not> is_white c) (lstrip (strip l)) = m'"
        using \<open>words (strip l) = _\<close> by (subst (asm) words.simps) simp
      then have "fst (first_word (strip l)) = m'" by (simp add: first_word_def)
      with ok w(2) obtain m'' t'' where j: "words l = [m'', t'']" "strip l = m'' @ '' '' @ t''" "white_free t''" "t'' \<noteq> []"
        by (metis jump_line)
      with w have "first_word (strip l) = (m', old)" using first_word_pair [of m'' t''] mnemonics [OF w(2)] by auto
      with False w(2) f show ?thesis by simp
    next
      case False
      then show ?thesis by (cases "parse_line l") auto
    qed
    with r ok show ?thesis by simp
  qed
  then show "line_ok (retarget_jump old new l)" "parse_line (retarget_jump old new l) = redirect old new (parse_line l)"
    "labels [retarget_jump old new l] = labels [l]" by auto
qed

end
