(* ===== verification/Peephole_Jumps.thy ===== *)
theory Peephole_Jumps
  imports Peephole_Control
begin

text \<open>
  The four jump passes keep the runs of a buffer whose jumps and labels have the shape of the emitter, on any
  processor whose conditions the table of inverse jumps inverts; calls between the functions of a buffer are part of its runs.
\<close>

definition buffer_runs :: "('v, 's) processor \<Rightarrow> string list \<Rightarrow> string option \<Rightarrow> 's \<Rightarrow> 'v ending option \<times> 's \<Rightarrow> bool" where
  "buffer_runs M b e s out \<longleftrightarrow> asm_exec M (map parse_line b) e s out"

definition same_runs :: "('v, 's) processor \<Rightarrow> string list \<Rightarrow> string list \<Rightarrow> bool" where
  "same_runs M b b' \<longleftrightarrow> keeps M (map parse_line b) (map parse_line b')"

definition inverts_jumps :: "('v, 's) processor \<Rightarrow> bool" where
  "inverts_jumps M \<longleftrightarrow> (\<forall>(m, m') \<in> set jump_invert. \<forall>s. taken M m' s \<longleftrightarrow> \<not> taken M m s)"

lemma same_runs_refl [simp]: "same_runs M b b"
  by (simp add: same_runs_def)

lemma same_runs_trans: "same_runs M a b \<Longrightarrow> same_runs M b c \<Longrightarrow> same_runs M a c"
  unfolding same_runs_def by (rule keeps_trans)

lemma buffer_ok_less:
  assumes "buffer_ok b" "\<And>l. l \<in> set b' \<Longrightarrow> line_ok l" "distinct (labels b')" "set (labels b') \<subseteq> set (labels b)"
  shows "buffer_ok b'"
  using assms by (auto simp: buffer_ok_def list_all_iff)

lemma buffer_okD:
  assumes "buffer_ok b"
  shows "l \<in> set b \<Longrightarrow> line_ok l" "distinct (labels b)" "distinct (asm_labels (map parse_line b))"
  using assms distinct_asm_labels by (auto simp: buffer_ok_def list_all_iff)

lemma word_no_space: "white_free t \<Longrightarrow> CHR '' '' \<notin> set t"
  by (auto simp: white_free_def list_all_iff)

text \<open>A line that names the label \<open>t\<close> is that label.\<close>

lemma label_line:
  assumes "line_ok l" "strip l = t @ '':''" "CHR '' '' \<notin> set t"
  shows "is_label (strip l)" "parse_line l = Lab t"
proof -
  from assms have "ends_with '':'' (strip l) \<and> CHR '' '' \<notin> set (strip l)" by (simp add: ends_with_def starts_with_def)
  with assms(1) show "is_label (strip l)" by (simp add: line_ok_def)
  then show "parse_line l = Lab t" by (simp add: parse_label assms(2))
qed

subsection \<open>Unreachable lines and jumps to the next line\<close>

lemma dead_code_window:
  assumes "buffer_ok (before @ rest)" "dead_code_step before rest = Some (out, rest')"
  shows "buffer_ok (before @ out @ rest')" "same_runs M (before @ rest) (before @ out @ rest')"
proof -
  from assms(2) obtain a b r where w: "rest = a # b # r" "out = []" "rest' = a # r"
    and s: "starts_with ''jmp '' (strip a)" "CHR '':'' \<notin> set (strip b)"
    by (auto simp: dead_code_step_def split: list.splits if_splits)
  from buffer_okD(1) [OF assms(1)] w have oka: "line_ok a" by auto
  from jmp_line [OF oka s(1)] obtain t where a: "parse_line a = Jmp t" by metis
  from s(2) have b: "\<not> is_label (strip b)" by simp
  from dead_code.keeps [OF assms(2)] w buffer_okD(1,2) [OF assms(1)]
  show "buffer_ok (before @ out @ rest')" by (intro buffer_ok_less [OF assms(1)]) (auto split: if_splits)
  show "same_runs M (before @ rest) (before @ out @ rest')"
    using dead_line_sound [of "parse_line b" M "map parse_line before" t "map parse_line r"] a b
    by (simp add: same_runs_def w parse_line_Lab)
qed

lemma dead_code_runs:
  assumes "buffer_ok b"
  shows "buffer_ok (peephole_dead_code b) \<and> same_runs M b (peephole_dead_code b)"
proof -
  let ?Q = "\<lambda>before rest. buffer_ok (before @ rest) \<and> same_runs M b (before @ rest)"
  have "?Q (scan dead_code_step [] b) []"
    by (rule dead_code.scan_invariant) (use assms dead_code_window same_runs_trans in \<open>fastforce+\<close>)
  then show ?thesis by (simp add: peephole_dead_code_def)
qed

lemma jump_next_window:
  assumes "buffer_ok (before @ rest)" "jump_next_step before rest = Some (out, rest')"
  shows "buffer_ok (before @ out @ rest')" "same_runs M (before @ rest) (before @ out @ rest')"
proof -
  from assms(2) obtain a b r where w: "rest = a # b # r" "out = []" "rest' = b # r"
    and s: "starts_with ''jmp '' (strip a)" "strip b = jump_operand (strip a) @ '':''"
    by (auto simp: jump_next_step_def split: list.splits if_splits)
  from buffer_okD(1) [OF assms(1)] w have ok: "line_ok a" "line_ok b" by auto
  from jmp_line [OF ok(1) s(1)] obtain t where a: "parse_line a = Jmp t" "words a = [''jmp'', t]" "white_free t" by metis
  then have "jump_operand (strip a) = t" by (simp add: jump_operand_def words_strip)
  with s(2) label_line [OF ok(2), of t] word_no_space [OF a(3)] have b: "parse_line b = Lab t" "is_label (strip b)" by auto
  from jump_next.keeps [OF assms(2)] w buffer_okD(1,2) [OF assms(1)]
  show "buffer_ok (before @ out @ rest')" by (intro buffer_ok_less [OF assms(1)]) (auto split: if_splits)
  have "t \<notin> set (asm_labels (map parse_line before))"
    using buffer_okD(3) [OF assms(1)] w a b by simp
  from jump_to_next_sound [OF this, of M "map parse_line r"] a b
  show "same_runs M (before @ rest) (before @ out @ rest')"
    by (simp add: same_runs_def w)
qed

lemma jump_next_runs:
  assumes "buffer_ok b"
  shows "buffer_ok (peephole_jump_next b) \<and> same_runs M b (peephole_jump_next b)"
proof -
  let ?Q = "\<lambda>before rest. buffer_ok (before @ rest) \<and> same_runs M b (before @ rest)"
  have "?Q (scan jump_next_step [] b) []"
    by (rule jump_next.scan_invariant) (use assms jump_next_window same_runs_trans in \<open>fastforce+\<close>)
  then show ?thesis by (simp add: peephole_jump_next_def)
qed


subsection \<open>Jumps over jumps\<close>

text \<open>A jump to a name of \<open>names\<close> that is no longer a label.\<close>

definition dangles :: "string set \<Rightarrow> string list \<Rightarrow> bool" where
  "dangles names b \<longleftrightarrow>
     (\<exists>l \<in> set b. \<exists>t \<in> names. jumps_to (parse_line l) = Some t \<and> t \<notin> set (asm_labels (map parse_line b)))"

lemma dangles_mono:
  assumes "dangles names b" "set (asm_labels (map parse_line b')) \<subseteq> set (asm_labels (map parse_line b))"
    and "\<And>l t. l \<in> set b \<Longrightarrow> jumps_to (parse_line l) = Some t \<Longrightarrow> t \<notin> set (asm_labels (map parse_line b)) \<Longrightarrow>
      \<exists>l' \<in> set b'. jumps_to (parse_line l') = Some t"
  shows "dangles names b'"
  using assms unfolding dangles_def by (meson subsetD)

lemma jump_invert_conditional:
  assumes "map_of jump_invert m = Some m'"
  shows "m \<in> set conditional_jumps" "m' \<in> set conditional_jumps" "m \<noteq> ''jmp''" "m' \<noteq> ''jmp''" "(m, m') \<in> set jump_invert"
  using assms by (auto simp: jump_invert_def conditional_jumps_def split: if_splits)

lemma refers_to_jump: "jumps_to (parse_line l) = Some t \<Longrightarrow> refers_to t l"
  by (erule parse_jump) (simp add: refers_to_def)

lemma double_jump_shape:
  assumes "buffer_ok (before @ rest)" "double_jump_step before rest = Some (out, rest')"
  obtains a b c r m m' l t where "rest = a # b # c # r" "out = []"
    "rest' = (if list_ex (refers_to l) (before @ r) then instruction (m' @ '' '' @ t) # c # r else instruction (m' @ '' '' @ t) # r)"
    "parse_line a = Jcc m l" "parse_line b = Jmp t" "parse_line c = Lab l" "(m, m') \<in> set jump_invert"
    "parse_line (instruction (m' @ '' '' @ t)) = Jcc m' t" "line_ok (instruction (m' @ '' '' @ t))"
    "is_label (strip c)" "\<not> is_label (strip a)" "\<not> is_label (strip b)" "\<not> is_label (strip (instruction (m' @ '' '' @ t)))"
proof -
  from assms(2) obtain a b c r m l m' where w: "rest = a # b # c # r" "out = []"
    "rest' = (if list_ex (refers_to l) (before @ r) then instruction (m' @ '' '' @ jump_operand (strip b)) # c # r
      else instruction (m' @ '' '' @ jump_operand (strip b)) # r)"
    and s: "words (strip a) = [m, l]" "map_of jump_invert m = Some m'" "starts_with ''jmp '' (strip b)" "strip c = l @ '':''"
    by (auto simp: double_jump_step_def Let_def split: list.splits option.splits if_splits)
  from buffer_okD(1) [OF assms(1)] w have ok: "line_ok a" "line_ok b" "line_ok c" by auto
  note m = jump_invert_conditional [OF s(2)]
  have wa: "words a = [m, l]" using s(1) by (simp add: words_strip)
  have l: "white_free l" "l \<noteq> []" "white_free m" "m \<noteq> []" using words_free [of _ a] wa by auto
  from jmp_line [OF ok(2) s(3)] obtain t where b: "words b = [''jmp'', t]" "parse_line b = Jmp t" "white_free t" "t \<noteq> []"
    "strip b = ''jmp '' @ t" by metis
  have op: "jump_operand (strip b) = t" using b(1) by (simp add: jump_operand_def words_strip)
  have c: "is_label (strip c)" "parse_line c = Lab l" using label_line [OF ok(3) s(4)] word_no_space [OF l(1)] by auto
  have "\<not> is_label (strip a)"
  proof
    assume "is_label (strip a)"
    then have "CHR '' '' \<notin> set (strip a)" "ends_with '':'' (strip a)" by (auto simp: is_label_def)
    with ok(1) have "white_free (strip a)" by (simp add: line_ok_def)
    then have "words (strip a @ []) = (if strip a = [] then [] else [strip a])"
      using words_word [of "strip a" "[]"] by auto
    with s(1) show False by (auto split: if_splits)
  qed
  moreover from this have "parse_line a = Jcc m l" using m wa by (simp add: parse_line_def)
  moreover have "\<not> is_label (strip b)" using b by simp
  moreover have "instruction (m' @ '' '' @ t) = ''        '' @ m' @ '' '' @ t @ []" by (simp add: instruction_def)
  note words_instruction [of m' t "''        ''" "[]", folded this]
  then have "line_ok (instruction (m' @ '' '' @ t))" "parse_line (instruction (m' @ '' '' @ t)) = Jcc m' t"
    "\<not> is_label (strip (instruction (m' @ '' '' @ t)))" using m b by (auto simp: blank_def)
  ultimately show thesis using that [OF w(1,2), of l m' t m] w(3) m b c op by simp
qed

lemma double_jump_window:
  assumes inv: "inverts_jumps M" and ok: "buffer_ok (before @ rest)"
    and names: "set (asm_labels (map parse_line (before @ rest))) \<subseteq> names"
    and step: "double_jump_step before rest = Some (out, rest')"
  shows "buffer_ok (before @ out @ rest')" "set (asm_labels (map parse_line (before @ out @ rest'))) \<subseteq> names"
    "dangles names (before @ rest) \<Longrightarrow> dangles names (before @ out @ rest')"
    "dangles names (before @ out @ rest') \<or> same_runs M (before @ rest) (before @ out @ rest')"
proof -
  obtain a b c r m m' l t where w: "rest = a # b # c # r" "out = []"
    "rest' = (if list_ex (refers_to l) (before @ r) then instruction (m' @ '' '' @ t) # c # r else instruction (m' @ '' '' @ t) # r)"
    and p: "parse_line a = Jcc m l" "parse_line b = Jmp t" "parse_line c = Lab l" "(m, m') \<in> set jump_invert"
    "parse_line (instruction (m' @ '' '' @ t)) = Jcc m' t" "line_ok (instruction (m' @ '' '' @ t))"
    and n: "is_label (strip c)" "\<not> is_label (strip a)" "\<not> is_label (strip b)" "\<not> is_label (strip (instruction (m' @ '' '' @ t)))"
    using double_jump_shape [OF ok step] by metis
  let ?a = "instruction (m' @ '' '' @ t)" and ?p = "map parse_line before" and ?r = "map parse_line r"
  from buffer_okD(1,2) [OF ok] n p(6) show "buffer_ok (before @ out @ rest')"
    by (intro buffer_ok_less [OF ok]) (auto simp: w split: if_splits)
  show "set (asm_labels (map parse_line (before @ out @ rest'))) \<subseteq> names"
    using names p by (auto simp: w)
  show "dangles names (before @ out @ rest')" if "dangles names (before @ rest)"
    by (rule dangles_mono [OF that]) (use p in \<open>auto simp: w split: if_splits\<close>)
  from buffer_okD(3) [OF ok] p have l: "l \<notin> set (asm_labels ?p)" "l \<notin> set (asm_labels ?r)" by (auto simp: w)
  from inv p(4) have taken: "taken M m' s \<longleftrightarrow> \<not> taken M m s" for s by (auto simp: inverts_jumps_def)
  have keep: "same_runs M (before @ rest) (before @ ?a # c # r)"
    using jump_over_sound [OF taken l(1), of t ?r] p by (simp add: same_runs_def w)
  show "dangles names (before @ out @ rest') \<or> same_runs M (before @ rest) (before @ out @ rest')"
  proof (cases "list_ex (refers_to l) (before @ r)")
    case True
    with keep show ?thesis by (simp add: w)
  next
    case False
    have rest': "before @ out @ rest' = before @ ?a # r" using False by (simp add: w)
    show ?thesis
    proof (cases "t = l")
      case True
      then have "dangles names (before @ ?a # r)" using p l names by (auto simp: dangles_def w)
      then show ?thesis unfolding rest' by blast
    next
      case t: False
      have "jumps_to i \<noteq> Some l" if "i \<in> set ((?p @ [Jcc m' t]) @ ?r)" for i
        using that t False by (auto simp: list_ex_iff dest: refers_to_jump)
      moreover have "l \<notin> set (asm_labels ((?p @ [Jcc m' t]) @ ?r))" using l by simp
      ultimately have "keeps M ((?p @ [Jcc m' t]) @ Lab l # ?r) ((?p @ [Jcc m' t]) @ ?r)" by (rule drop_label_sound)
      then have "same_runs M (before @ ?a # c # r) (before @ ?a # r)" using p by (simp add: same_runs_def)
      from same_runs_trans [OF keep this] show ?thesis by (simp add: rest')
    qed
  qed
qed

lemma double_jump_runs:
  assumes inv: "inverts_jumps M" and ok: "buffer_ok b"
    and kept: "\<not> dangles (set (asm_labels (map parse_line b))) (peephole_double_jump b)"
  shows "buffer_ok (peephole_double_jump b) \<and> same_runs M b (peephole_double_jump b)"
proof -
  let ?names = "set (asm_labels (map parse_line b))"
  let ?Q = "\<lambda>before rest. buffer_ok (before @ rest) \<and> set (asm_labels (map parse_line (before @ rest))) \<subseteq> ?names \<and>
    (dangles ?names (before @ rest) \<or> same_runs M b (before @ rest))"
  have "?Q (scan double_jump_step [] b) []"
  proof (rule double_jump.scan_invariant)
    show "?Q [] b" using ok by simp
    fix before rest out rest' assume Q: "?Q before rest" and step: "double_jump_step before rest = Some (out, rest')"
    from Q have "buffer_ok (before @ rest)" "set (asm_labels (map parse_line (before @ rest))) \<subseteq> ?names" by auto
    note w = double_jump_window [OF inv this step]
    from w(1,2) w(3,4) Q show "?Q (before @ out) rest'" using same_runs_trans by (metis append_assoc)
  next
    fix before l ls assume "?Q before (l # ls)"
    then show "?Q (before @ [l]) ls" by simp
  qed
  with kept show ?thesis by (simp add: peephole_double_jump_def)
qed

subsection \<open>Trampolines\<close>

lemma trampoline_shape:
  assumes "list_all line_ok (previous # rest)" "trampoline previous rest = Some (label, new)"
  obtains l n r u where "rest = l # n # r" "parse_line previous = Jmp u" "parse_line l = Lab label" "parse_line n = Jmp new"
    "label \<noteq> new" "is_label (strip l)" "label = butlast (strip l)" "white_free (strip l)" "white_free new" "new \<noteq> []"
    "\<not> is_label (strip n)"
proof -
  from assms(2) obtain l n r where w: "rest = l # n # r" and s: "starts_with ''jmp '' (strip previous)" "ends_with '':'' (strip l)"
    "CHR '' '' \<notin> set (strip l)" "starts_with ''jmp '' (strip n)" "label = butlast (strip l)" "new = drop 4 (strip n)" "label \<noteq> new"
    by (auto simp: trampoline_def split: list.splits if_splits)
  from assms(1) w have ok: "line_ok previous" "line_ok l" "line_ok n" by auto
  from jmp_line [OF ok(1) s(1)] obtain u where u: "parse_line previous = Jmp u" by metis
  from jmp_line [OF ok(3) s(4)] obtain t where t: "strip n = ''jmp '' @ t" "white_free t" "t \<noteq> []" "parse_line n = Jmp t" by metis
  with s have "t = new" by simp
  moreover from ok(2) s have l: "is_label (strip l)" "white_free (strip l)" by (auto simp: line_ok_def)
  moreover have "\<not> is_label (strip n)" using t(1) by simp
  ultimately show thesis using that [OF w u _ _ _ l(1) s(5) l(2)] t s parse_label by metis
qed

lemma forward_runs:
  "before \<noteq> [] \<Longrightarrow> buffer_ok (before @ rest) \<Longrightarrow>
   buffer_ok (forward_from before rest) \<and> same_runs M (before @ rest) (forward_from before rest)"
proof (induction before rest rule: forward_from.induct)
  case (1 before rest)
  show ?case
  proof (cases "length rest < 2")
    case True
    with 1 show ?thesis by (simp add: forward_from.simps)
  next
    case False
    then have rest: "hd rest # tl rest = rest" by (cases rest) auto
    have skip: "forward_from before rest = forward_from (before @ [hd rest]) (tl rest) \<Longrightarrow>
      (buffer_ok (before @ rest) \<Longrightarrow> buffer_ok (forward_from (before @ [hd rest]) (tl rest)) \<and>
        same_runs M (before @ rest) (forward_from (before @ [hd rest]) (tl rest))) \<Longrightarrow> ?thesis"
      using 1(6) by simp
    show ?thesis
    proof (cases "trampoline (last before) rest")
      case None
      with False 1 rest show ?thesis by (intro skip) (auto simp: forward_from.simps [of before rest])
    next
      case (Some p)
      obtain label new where p: "p = (label, new)" by fastforce
      show ?thesis
      proof (cases "starts_with ''['' new \<and> list_ex (is_conditional_referrer label) (before @ drop 2 rest)")
        case True
        with Some p False 1 rest show ?thesis by (intro skip) (auto simp: forward_from.simps [of before rest])
      next
        case hit: False
        define b' where "b' = map (retarget_jump label new) before"
        define r' where "r' = map (retarget_jump label new) (drop 2 rest)"
        have ok: "list_all line_ok (last before # rest)" using buffer_okD(1) [OF 1(6)] 1(5) by (auto simp: list_all_iff)
        obtain l n r u where w: "rest = l # n # r" "parse_line (last before) = Jmp u" "parse_line l = Lab label"
          "parse_line n = Jmp new" "label \<noteq> new" "is_label (strip l)" "label = butlast (strip l)" "white_free (strip l)"
          "white_free new" "new \<noteq> []" "\<not> is_label (strip n)"
          using trampoline_shape [OF ok Some [unfolded p]] by metis
        have free: "\<not> occurs_in label m" if "m \<in> set (''jmp'' # conditional_jumps)" for m
        proof -
          from 1(6) have "list_all (\<lambda>l. list_all (\<lambda>m. \<not> occurs_in (butlast l) m) (''jmp'' # conditional_jumps)) (labels (before @ rest))"
            by (simp only: buffer_ok_def)
          moreover have "strip l \<in> set (labels (before @ rest))" using w by simp
          ultimately show ?thesis using that unfolding w(7) by (simp only: list_all_iff) blast
        qed
        have ne: "label \<noteq> []"
        proof
          assume "label = []"
          then have "cut_at label ''jmp'' = Some ([], ''jmp'')" by (simp add: after_prefix_def starts_with_def)
          with free [of "''jmp''"] show False by (simp add: occurs_in_def)
        qed
        have wf: "white_free label" using w(7,8) by (auto simp: white_free_def list_all_iff dest: in_set_butlastD)
        note line = retarget_line [OF _ wf ne w(9,10) free]
        have lines: "line_ok x" if "x \<in> set before \<union> set r" for x
          using buffer_okD(1) [OF 1(6)] that w by auto
        have parsed: "map parse_line (map (retarget_jump label new) xs) = redirected label new (map parse_line xs)"
          "labels (map (retarget_jump label new) xs) = labels xs" "\<forall>x \<in> set (map (retarget_jump label new) xs). line_ok x"
          if "\<forall>x \<in> set xs. line_ok x" for xs
          using that line by (auto intro!: labels_map)
        have "\<forall>x \<in> set before. line_ok x" "\<forall>x \<in> set r. line_ok x" using lines by auto
        note pb = parsed [OF this(1)] and pr = parsed [OF this(2)]
        have b'r': "b' @ r' = map (retarget_jump label new) before @ map (retarget_jump label new) r"
          by (simp add: b'_def r'_def w(1))
        have labels: "labels (b' @ r') = labels before @ labels r" unfolding b'r' using pb(2) pr(2) by simp
        have "labels (before @ rest) = labels before @ strip l # labels r" using w(1,6,11) by simp
        with buffer_okD(2) [OF 1(6)] labels have "distinct (labels (b' @ r'))" "set (labels (b' @ r')) \<subseteq> set (labels (before @ rest))"
          by auto
        moreover have "line_ok x" if "x \<in> set (b' @ r')" for x using that pb(3) pr(3) unfolding b'r' by auto
        ultimately have new_ok: "buffer_ok (b' @ r')" by (intro buffer_ok_less [OF 1(6)]) auto
        have e: "butlast before @ [last before] = before" using 1(5) by simp
        have "map parse_line before = map parse_line (butlast before) @ [Jmp u]"
          by (subst e [symmetric]) (simp only: map_append list.map w(2))
        then obtain pre where split: "map parse_line before = pre @ [Jmp u]" by blast
        have "label \<notin> set (asm_labels (pre @ map parse_line r))"
          using buffer_okD(3) [OF 1(6)] w(1,3,4) split by simp
        from trampoline_sound [OF this w(5) [symmetric], where M = M and u = u]
        have runs: "same_runs M (before @ rest) (b' @ r')"
          using pb(1) pr(1) w(1,3,4) split by (simp add: same_runs_def b'r' del: map_map)
        have b': "b' \<noteq> []" using 1(5) by (simp add: b'_def)
        have next_step: "forward_from before rest =
            (if 2 \<le> length before then forward_from (butlast b') (last b' # r') else forward_from b' r')"
          using False Some p hit by (auto simp: forward_from.simps [of before rest] b'_def r'_def Let_def)
        show ?thesis
        proof (cases "2 \<le> length before")
          case True
          then have "2 \<le> length b'" by (simp add: b'_def)
          then have bb: "butlast b' \<noteq> []" "butlast b' @ last b' # r' = b' @ r'" by (cases b' rule: rev_cases; auto)+
          have "buffer_ok (butlast b' @ last b' # r')" unfolding bb(2) by (rule new_ok)
          from 1(3) [OF False Some p [symmetric] hit b'_def r'_def True bb(1) this]
          have "buffer_ok (forward_from (butlast b') (last b' # r')) \<and> same_runs M (b' @ r') (forward_from (butlast b') (last b' # r'))"
            unfolding bb(2) .
          with True next_step runs same_runs_trans show ?thesis by metis
        next
          case one: False
          from 1(4) [OF False Some p [symmetric] hit b'_def r'_def one b' new_ok]
          have "buffer_ok (forward_from b' r') \<and> same_runs M (b' @ r') (forward_from b' r')" .
          with one next_step runs same_runs_trans show ?thesis by metis
        qed
      qed
    qed
  qed
qed

lemma label_forwarding_runs:
  assumes "buffer_ok b"
  shows "buffer_ok (peephole_label_forwarding b) \<and> same_runs M b (peephole_label_forwarding b)"
  using forward_runs [of "[hd b]" "tl b" M] assms by (cases b) (simp_all add: peephole_label_forwarding_def)

lemma control_passes_same_runs:
  assumes "inverts_jumps M" "buffer_ok b"
    and "\<not> dangles (set (asm_labels (map parse_line (peephole_dead_code b)))) (peephole_double_jump (peephole_dead_code b))"
  shows "same_runs M b (control_passes b)"
proof -
  from dead_code_runs [OF assms(2)] have d: "buffer_ok (peephole_dead_code b)" "same_runs M b (peephole_dead_code b)" by auto
  note j = double_jump_runs [OF assms(1) d(1) assms(3)]
  note n = jump_next_runs [OF conjunct1 [OF j], of M]
  note f = label_forwarding_runs [OF conjunct1 [OF n], of M]
  from d(2) conjunct2 [OF j] conjunct2 [OF n] conjunct2 [OF f] show ?thesis
    unfolding control_passes_def by (meson same_runs_trans)
qed

end
