(* ===== verification/Peephole_Promises.thy ===== *)
theory Peephole_Promises
  imports Peephole_Labels Peephole_Jumps
begin

text \<open>
  What the peephole optimizer promises, and where it does not keep to it: the runs of the jump passes, the
  labels and the length of the buffer, and rewrites whose result is no longer what the lines meant.
\<close>

subsection \<open>Jumps\<close>

text \<open>
  C11. The jump passes (unreachable lines, jumps over jumps, jumps to the next line, trampolines) keep what a buffer does:
  from the first line or any label the result still has, and from every state, it has the runs of the original, wherever
  they end, on any processor on which the table of inverse jumps inverts them.  Calls between the functions of
  the buffer are part of the runs: an instruction may call or jump to a label by name, and return.  The buffer has the shape
  of the emitter; no jump over a jump is collapsed together with a label that its own new target names; and
  no instruction that is not a jump (a call, a table, an address taken) reaches a label that the passes drop, which they
  do not check.
\<close>

theorem control_passes_keep_runs:
  assumes "inverts_jumps M" "buffer_ok b"
    and "\<not> dangles (set (asm_labels (map parse_line (peephole_dead_code b)))) (peephole_double_jump (peephole_dead_code b))"
    and "reached M (map parse_line b) \<inter> dropped (map parse_line b) (map parse_line (control_passes b)) = {}"
    and "e \<notin> Some ` dropped (map parse_line b) (map parse_line (control_passes b))"
  shows "buffer_runs M (control_passes b) e s out \<longleftrightarrow> buffer_runs M b e s out"
  using control_passes_same_runs [OF assms(1-3)] assms(4,5) unfolding same_runs_def keeps_def buffer_runs_def by blast

text \<open>A processor with one register, a call instruction and the conditions of a flag.\<close>

definition flag_processor :: "(string, nat) processor" where
  "flag_processor =
     \<lparr>perform = (\<lambda>x s. if x = ''inc eax'' then Continues (Suc s) else if x = ''ret'' then Returns s
        else if starts_with ''call '' x then Calls (drop 5 x) s else Continues s),
      taken = (\<lambda>m s. (m \<in> {''ja'', ''jae'', ''je'', ''jg'', ''jge''}) = (s = 0)),
      outside = (\<lambda>t s. s)\<rparr>"

lemma flag_processor_inverts: "inverts_jumps flag_processor"
  by (simp add: inverts_jumps_def flag_processor_def jump_invert_def)

definition branch_buffer :: "string list" where
  "branch_buffer = [''main:'', ''        call step'', ''        ret'',
     ''step:'', ''        je .z'', ''        jmp .e'', ''.z:'', ''        inc eax'', ''        jmp .e'', ''.e:'', ''        ret'']"

definition branch_collapsed :: "string list" where
  "branch_collapsed = [''main:'', ''        call step'', ''        ret'',
     ''step:'', ''        jne .e'', ''        inc eax'', ''        jmp .e'', ''.e:'', ''        ret'']"

definition branch_result :: "string list" where
  "branch_result = [''main:'', ''        call step'', ''        ret'',
     ''step:'', ''        jne .e'', ''        inc eax'', ''.e:'', ''        ret'']"

lemma branch_passes:
  "peephole_dead_code branch_buffer = branch_buffer" "peephole_double_jump branch_buffer = branch_collapsed"
  "control_passes branch_buffer = branch_result"
  by code_simp+

lemma branch_parsed:
  "map parse_line branch_buffer = [Lab ''main'', Other ''call step'', Other ''ret'', Lab ''step'',
     Jcc ''je'' ''.z'', Jmp ''.e'', Lab ''.z'', Other ''inc eax'', Jmp ''.e'', Lab ''.e'', Other ''ret'']"
  "map parse_line branch_collapsed = [Lab ''main'', Other ''call step'', Other ''ret'', Lab ''step'',
     Jcc ''jne'' ''.e'', Other ''inc eax'', Jmp ''.e'', Lab ''.e'', Other ''ret'']"
  "map parse_line branch_result = [Lab ''main'', Other ''call step'', Other ''ret'', Lab ''step'',
     Jcc ''jne'' ''.e'', Other ''inc eax'', Lab ''.e'', Other ''ret'']"
  by code_simp+

lemma branch_collapsed_kept: "\<not> dangles (set (asm_labels (map parse_line branch_buffer))) branch_collapsed"
proof -
  have "\<not> (\<exists>i \<in> set (map parse_line branch_collapsed). \<exists>t. jumps_to i = Some t \<and> t \<notin> set (asm_labels (map parse_line branch_collapsed)))"
    unfolding branch_parsed by simp
  then show ?thesis unfolding dangles_def by auto
qed

theorem control_passes_keep_runs_witness:
  "(\<forall>s out. buffer_runs flag_processor branch_result None s out \<longleftrightarrow> buffer_runs flag_processor branch_buffer None s out) \<and>
   (\<forall>s out. buffer_runs flag_processor branch_result (Some ''step'') s out \<longleftrightarrow>
      buffer_runs flag_processor branch_buffer (Some ''step'') s out)"
proof -
  have "buffer_ok branch_buffer" by code_simp
  moreover have "\<not> dangles (set (asm_labels (map parse_line (peephole_dead_code branch_buffer))))
      (peephole_double_jump (peephole_dead_code branch_buffer))"
    using branch_collapsed_kept by (simp only: branch_passes not_False_eq_True)
  moreover have d: "dropped (map parse_line branch_buffer) (map parse_line (control_passes branch_buffer)) = {''.z''}"
    unfolding dropped_def branch_passes branch_parsed by auto
  moreover have "reached flag_processor (map parse_line branch_buffer) \<subseteq> {''step''}"
    unfolding branch_parsed by (auto simp: reached_def flag_processor_def starts_with_def split: if_splits)
  then have "reached flag_processor (map parse_line branch_buffer) \<inter> {''.z''} = {}" by auto
  ultimately have "buffer_runs flag_processor branch_result e s out \<longleftrightarrow> buffer_runs flag_processor branch_buffer e s out"
    if "e \<noteq> Some ''.z''" for e s out
    using control_passes_keep_runs [OF flag_processor_inverts, of branch_buffer e s out] that
    by (simp only: d branch_passes image_insert image_empty singleton_iff not_False_eq_True)
  then show ?thesis by simp
qed

text \<open>Lines that the jump passes leave alone.\<close>

definition plain_name :: "string \<Rightarrow> bool" where
  "plain_name t = (t \<noteq> [] \<and> white_free t \<and> set t \<inter> set '':,['' = {})"



definition label_text :: "string \<Rightarrow> string" where
  "label_text t = t @ '':''"

definition tail_jump :: "string \<Rightarrow> string" where
  "tail_jump t = ''        jmp '' @ t"

lemma label_text_strip [simp]: "plain_name t \<Longrightarrow> strip (label_text t) = t @ '':''"
  using strip_core [of "t @ '':''" "[]" "[]"]
  by (auto simp: label_text_def plain_name_def white_free_def list_all_iff blank_def is_white_def code_def)

lemma tail_jump_strip [simp]: "plain_name t \<Longrightarrow> strip (tail_jump t) = ''jmp '' @ t"
  using strip_pair [of "''jmp''" t "''        ''" "[]"]
  by (auto simp: tail_jump_def plain_name_def white_free_def list_all_iff blank_def is_white_def code_def)

lemma tail_jump_words [simp]: "plain_name t \<Longrightarrow> words (tail_jump t) = [''jmp'', t]" "plain_name t \<Longrightarrow> words (CHR ''j'' # CHR ''m'' # CHR ''p'' # CHR '' '' # t) = [''jmp'', t]"
proof -
  assume t: "plain_name t"
  then have "words (''jmp'' @ '' '' @ t) = [''jmp'', t]"
    by (intro words_pair) (auto simp: plain_name_def white_free_def is_white_def code_def)
  then show "words (CHR ''j'' # CHR ''m'' # CHR ''p'' # CHR '' '' # t) = [''jmp'', t]" by simp
  then show "words (tail_jump t) = [''jmp'', t]" using words_strip [of "tail_jump t"] t by simp
qed

lemma label_text_words [simp]: "plain_name t \<Longrightarrow> words (t @ '':'') = [t @ '':'']"
  using words_word [of "t @ '':''" "[]"] by (simp add: plain_name_def white_free_def is_white_def code_def)

lemma label_not_jmp [simp]: "plain_name t \<Longrightarrow> \<not> starts_with ''jmp '' (t @ '':'')"
proof
  assume t: "plain_name t" and "starts_with ''jmp '' (t @ '':'')"
  then have "take (length ''jmp '') (t @ '':'') = ''jmp ''" by (simp only: starts_with_def)
  then have "set ''jmp '' \<subseteq> set (t @ '':'')" by (metis set_take_subset)
  with t show False by (auto simp: plain_name_def white_free_def list_all_iff is_white_def code_def)
qed

lemma jmp_starts [simp]: "starts_with ''jmp '' (CHR ''j'' # CHR ''m'' # CHR ''p'' # CHR '' '' # t)"
  by (simp add: starts_with_def)

lemma strip_Nil [simp]: "strip [] = []"
  by (simp add: strip_def lstrip_def rstrip_white_def)

lemma label_steps [simp]:
  assumes "plain_name t"
  shows "dead_code_step before (label_text t # r) = None" "jump_next_step before (label_text t # r) = None"
    "plain_name u \<Longrightarrow> dead_code_step before (tail_jump u # label_text t # r) = None"
    "plain_name u \<Longrightarrow> u \<noteq> t \<Longrightarrow> jump_next_step before (tail_jump u # label_text t # r) = None"
    "dead_code_step before (tail_jump t # [] # r) = Some ([], tail_jump t # r)"
  using assms
  by (simp_all add: dead_code_step_def jump_next_step_def jump_operand_def split: list.split)











lemma double_jump_skips: "(\<And>m t. words (strip a) = [m, t] \<Longrightarrow> map_of jump_invert m = None) \<Longrightarrow> double_jump_step before (a # r) = None"
  by (auto simp: double_jump_step_def split: list.split)

lemma double_jump_plain [simp]:
  "plain_name t \<Longrightarrow> double_jump_step before (label_text t # r) = None"
  "plain_name t \<Longrightarrow> double_jump_step before (tail_jump t # r) = None"
  by (rule double_jump_skips; auto simp: jump_invert_def)+















text \<open>
  A jump over a jump is collapsed without the label, although the new jump goes to that label: the search for
  other references leaves out the two jumps of the pattern.
\<close>

theorem collapsed_jump_loses_label:
  "peephole_double_jump [''        je .a'', ''        jmp .end'', ''.a:'', ''        jmp .end'', ''.end:''] = [''        je .end'']"
  by code_simp

subsection \<open>Labels and length\<close>

text \<open>
  C24. Whatever the buffer holds, the optimizer never makes it longer, and after the jump passes it removes, adds and reorders
  no label, for either target.
\<close>

theorem run_peephole_keeps_labels:
  assumes "is_target T" "run_peephole T b = Inr out"
  shows "labels out = labels (control_passes b) \<and> length out \<le> length b"
  using data_passes_quiet [OF assms] control_passes_length [of b] by linarith

definition counting_buffer :: "string list" where
  "counting_buffer =
     [''        jmp .a'', ''.a:'', ''        mov eax, [ebp-4]'', ''        inc eax'', ''        mov [ebp-4], eax'', ''        ret'']"

definition counted_buffer :: "string list" where
  "counted_buffer = [''.a:'', ''        inc dword [ebp-4]'', ''        ret'']"

lemma counting_control:
  "control_passes counting_buffer =
     [''.a:'', ''        mov eax, [ebp-4]'', ''        inc eax'', ''        mov [ebp-4], eax'', ''        ret'']"
  by code_simp

lemma counting_store: "store_passes x86_32 (control_passes counting_buffer) = counted_buffer"
  unfolding counting_control by code_simp

lemma counted_stages:
  "load_passes x86_32 counted_buffer = counted_buffer"
  "peephole_register_arithmetic x86_32 counted_buffer = Inr counted_buffer"
  "register_passes x86_32 counted_buffer = counted_buffer"
  "peephole_dead_stores counted_buffer = Inr counted_buffer"
  "peephole_dead_test_after_sbb x86_32 counted_buffer = counted_buffer"
  "peephole_redundant_bx x86_32 counted_buffer = counted_buffer"
  by code_simp+

lemma counting_run: "run_peephole x86_32 counting_buffer = Inr counted_buffer"
  by (simp only: run_peephole_def counting_store counted_stages bind_result_simps)

theorem run_peephole_keeps_labels_witness:
  "run_peephole x86_32 counting_buffer = Inr counted_buffer \<and>
   labels counted_buffer = labels (control_passes counting_buffer) \<and> length counted_buffer \<le> length counting_buffer"
  using run_peephole_keeps_labels [OF _ counting_run] counting_run by (simp add: is_target_def)

subsection \<open>Values\<close>

text \<open>
  A register loaded from memory is taken to hold the same value after that memory has been written: the second
  load, which would read the stored value, is dropped.
\<close>

theorem reload_after_store_dropped:
  "dedup_register_reloads ''esi'' [''        mov esi, [ebp-4]'', ''        inc dword [ebp-4]'', ''        mov esi, [ebp-4]''] =
     [''        mov esi, [ebp-4]'', ''        inc dword [ebp-4]'']"
  by code_simp

text \<open>
  A signed comparison of a zero-extended byte becomes one of the byte itself, whose sign is its top bit: 200 is not less than
  100, its byte is.
\<close>

theorem byte_comparison_changes_sign:
  "peephole_dead_ah [''        xor ah, ah'', ''        cmp ax, 100'', ''        jl .less''] = [''        cmp al, 100'', ''        jl .less''] \<and>
   \<not> sint (200 :: 16 word) < sint (100 :: 16 word) \<and> sint (200 :: 8 word) < sint (100 :: 8 word)"
  by (rule conjI, code_simp) (simp add: sint_uint)

text \<open>
  The move back of a swapped pair is dropped also when the first one overwrites a register of its own address.
\<close>

theorem move_back_to_other_address_dropped:
  "peephole_redundant_register_swap [''        mov eax, [eax+4]'', ''        mov [eax+4], eax''] = [''        mov eax, [eax+4]'']"
  by code_simp

end
