(* ===== verification/Spec2Isabelle.thy ===== *)
theory Spec2Isabelle
  imports Control_Pipeline Data_Passes Ccar Cfg_Correct Ssa_Erasure Ssa_Findings Interference
    Ir_Eval_Correct Lowering_Findings Loop_Findings Bbfs_Findings Packed_Link Front_End
    Peephole_Promises
begin

text \<open>
  A verification library for the Python tool chain of BBoeOS: the middle end of its C compiler (\<^verbatim>\<open>src/cc\<close>) and the
  front of it up to tokens, the object packer, the linker and the archive packer (\<^verbatim>\<open>src/tools\<close>), and the disk image writer.

  How the program is put together.  The compiler preprocesses a source, cuts it into tokens and parses them; it
  lowers the syntax trees to functions of three-address
  instructions; \<^verbatim>\<open>cc/ir_optimize.py\<close> rewrites a function's body until nothing changes, calling
  \<^verbatim>\<open>cc/ssa.py\<close> and \<^verbatim>\<open>cc/loops.py\<close> on the way, which split the body into the basic blocks of \<^verbatim>\<open>cc/cfg.py\<close>;
  \<^verbatim>\<open>cc/regalloc.py\<close> then gives registers to values.  The code generator emits assembly lines, which
  \<^verbatim>\<open>cc/codegen/x86/peephole.py\<close> rewrites in windows of a few lines.  \<^verbatim>\<open>cc/ccobj.py\<close> packs the listing of the assembler to
  an object, a JSON file; the objects are what
  \<^verbatim>\<open>tools/ccar.py\<close> collects in archives and \<^verbatim>\<open>tools/ccld.py\<close> links to a flat image; \<^verbatim>\<open>add_file.py\<close> puts
  files on the disk image the system boots from.

  Theories and sources.
  \<^item> \<open>Prelude\<close>: collections and lemmas on lists, maps and words.  \<open>Results\<close>: results with an error.
    \<open>Pystr\<close>, \<open>Pytext\<close>: what the sources use of Python's strings.  \<open>Step_Simulation\<close>: runs of a list of
    instructions under any step function, and the simulations between two lists.
  \<^item> \<open>Lexer\<close> (\<^verbatim>\<open>cc/lexer.py\<close>, the pattern of \<^verbatim>\<open>cc/tokens.py\<close>) and \<open>Preprocessor\<close> (\<^verbatim>\<open>cc/preprocessor.py\<close>).
    \<open>Lexer_Correct\<close>: tokens cover the source; \<open>Preprocessor_Correct\<close>: expansion settles, including ends;
    \<open>Preprocessor_Lines\<close>: lines keep their numbers; \<open>Front_End\<close>: these as properties, and what is not handled.
  \<^item> \<open>Ast_Nodes\<close> (\<^verbatim>\<open>cc/ast_nodes.py\<close>) and \<open>Ir\<close> (the data of \<^verbatim>\<open>cc/ir.py\<close>): one constructor per dataclass, its
    fields in the order of the source.
  \<^item> \<open>Ir_Shapes\<close>, \<open>Ir_Builder\<close>, \<open>Ir_Lowering\<close> (the \<open>Builder\<close> of \<^verbatim>\<open>cc/ir.py\<close>): the shapes of trees it lowers, and its
    methods over a state of counters, instructions and label tables.  The methods that call each other
    through the tree are definitions over a function of calls, tied by \<open>methods\<close>.  \<open>Ir_Labels\<close> and \<open>Ir_Lowered\<close>: what
    every call emits; \<open>Ir_Frames\<close>: lowering returns; \<open>Ir_Lowering_Correct\<close>: every branch has its label, no label
    occurs twice; \<open>Ir_Eval\<close>, \<open>Ir_Eval_Correct\<close>: a lowered expression computes its value on the machine.
    \<open>Lowering_Findings\<close>: a program that stops the optimizer.
  \<^item> \<open>Ir_Optimize\<close> (\<^verbatim>\<open>cc/ir_optimize.py\<close>): one function per pass.  A body is the list of its instructions; an
    index into it is the suffix at that index.  \<open>Optimizer\<close>: the driver of all passes, and strength reduction.
  \<^item> \<open>Ir_Semantics\<close>: what a body does, over any machine (a locale), as a step function of \<open>Step_Simulation\<close>.
    \<open>Ir_Machine\<close>: the 32-bit machine, with what the IR leaves to the code generator as a parameter.
  \<^item> \<open>Control_Passes\<close>, \<open>Label_Passes\<close>, \<open>Control_Pipeline\<close>: the passes that change control flow keep every run.
    \<open>Data_Passes\<close>, \<open>Propagation\<close>: dead code, tail calls, copies and constants.
  \<^item> \<open>Cfg\<close> (\<^verbatim>\<open>cc/cfg.py\<close>): blocks are positions of the store of a graph.  \<open>Cfg_Facts\<close> and \<open>Cfg_Correct\<close>: the
    edges are those of the code, flattening inverts building, and the depth-first order.  \<open>Dominators\<close>: the iteration
    for dominators ends with exactly the blocks that every path passes.
  \<^item> \<open>Loops\<close>, \<open>Loop_Strings\<close> (\<^verbatim>\<open>cc/loops.py\<close>): natural loops, preheaders, hoisting; induction variables and the
    loops that become one string instruction.  \<open>Loop_Facts\<close>: which loops are found, and what is put in their
    place; \<open>Loop_Findings\<close>: programs that the loop passes change the meaning of.
  \<^item> \<open>Ssa\<close>, \<open>Ssa_Passes\<close> (\<^verbatim>\<open>cc/ssa.py\<close>): conversion, the clean-up passes, destruction.  \<open>Ssa_Renaming\<close>,
    \<open>Ssa_Erasure\<close>: versions are unique, assigned once, and stripping them gives back the graph that was renamed.
    \<open>Ssa_Findings\<close>: bodies that the passes change the result of.
  \<^item> \<open>Regalloc\<close>, \<open>Coloring\<close> (\<^verbatim>\<open>cc/regalloc.py\<close>): liveness and interference, colouring.  \<open>Backward_Dataflow\<close>:
    the iteration ends with the least solution (a locale).  \<open>Coloring_Correct\<close> and
    \<open>Interference\<close>: when the allocator returns and when it raises, and values live at the same time get different registers.
  \<^item> \<open>Peephole\<close> (\<^verbatim>\<open>cc/codegen/x86/peephole.py\<close>, with the registers of \<^verbatim>\<open>cc/target.py\<close> and the inverse jumps of
    \<^verbatim>\<open>cc/codegen/x86/jumps.py\<close>): lines, and \<open>scan\<close>, the loop that slides a window over the buffer; the passes on
    jumps.  \<open>Peephole_Passes\<close>: arithmetic on memory, reloads; \<open>Peephole_Frames\<close>: slots of the frame; \<open>Peephole_Run\<close>:
    registers, flags, and all passes in order.  \<open>Peephole_Facts\<close>: the locales of what a window promises;
    \<open>Peephole_Windows\<close>: every window is an instance; \<open>Peephole_Labels\<close>: what follows for the passes.  \<open>Asm_Lines\<close>:
    what a buffer does on a processor that is a parameter: jumps, calls to labels of the buffer by name and to any depth, and
    returns; \<open>Peephole_Control\<close>, \<open>Peephole_Jumps\<close>: the jump passes keep it, where nothing but jumps
    reaches the labels they drop.  \<open>Peephole_Promises\<close>: the properties, and rewrites that change what the lines mean.
  \<^item> \<open>Bytes\<close>, \<open>Json\<close>, \<open>Ccld_Objects\<close>, \<open>Ccld\<close> (\<^verbatim>\<open>tools/ccld.py\<close>): packed integers, the value a JSON file decodes to,
    validation of objects and archives, linking.  \<open>Ccld_Layout\<close>, \<open>Ccld_Correct\<close>, \<open>Ccld_Safety\<close>, \<open>Linker\<close>: the
    layout has no overlap, every site holds its symbol's address, nothing else changes, and exactly when linking raises.
    \<open>Ccar\<close> (\<^verbatim>\<open>tools/ccar.py\<close>): the packer, and its manifest read back by the linker.
  \<^item> \<open>Ccobj\<close> (\<^verbatim>\<open>cc/ccobj.py\<close>): rows of an assembler listing, the regular expressions on them, and the object.
    \<open>Ccobj_Correct\<close>: which objects the linker's loader accepts, and what it reads; \<open>Packed_Link\<close>: a reference of the
    listing in the linked image.
  \<^item> \<open>Bbfs\<close> (\<^verbatim>\<open>add_file.py\<close>): scans over directory entries, and writing entries and data to the bytes of an image.
    \<open>Bbfs_Directory\<close>: the bytes of a directory as a table of entries, with UTF-8 names; \<open>Bbfs_Correct\<close>: a batch of
    files; \<open>Bbfs_Image\<close>: files that were added are found and what was there stays; \<open>Bbfs_Findings\<close>.

  Errors and termination.  A Python exception, and a run that does not return, is None or a value of an
  error type.  A loop with an evident measure is a function with a termination proof; one that ends by a
  property of its data is a partial function whose None is not returning, with a theorem that it returns.
  The recursions over the dominator tree of \<open>Ssa\<close> and \<open>Ssa_Passes\<close> carry as fuel the number of blocks plus
  one, the greatest depth a tree of blocks has.  The builder carries the number of Python stack frames that
  are left; three frames for each level of the tree are enough.
  The preprocessor carries them too; more frames than there are files are enough to include.  Integers of the compiler are unbounded, as in Python;
  bytes and the words of the machine have their width.

  Not modelled.  The parser, and the code generator apart from its last pass, the peephole optimizer; argument parsing, file access and JSON text, which the sources leave to the
  standard library: a file system is a function from paths to decoded values.
\<close>

end
